(* ===== verification/Kahawai_Prelude.thy ===== *)
theory Kahawai_Prelude
  imports Complex_Main "HOL-Library.Word" "HOL-Library.Multiset" "HOL-Library.Char_ord"
    "HOL-Library.List_Lexorder"
begin

text \<open>
  What the components share: the machine integer types, the parts of the Rust standard library the
  sources call (integer parsing, string splitting and trimming, \<open>slice::sort_by\<close>,
  \<open>Ordering::then\<close>), the collections of facts the component proofs use, and the interfaces
  that several components implement:

  \<^item> \<open>cmp_order\<close>: a comparator that is a total preorder. \<open>sort_by\<close> over such a comparator is a
    sorted permutation, and where the comparator separates the elements the result does not depend
    on the order of the input (the iteration order of a \<open>HashMap\<close>).
  \<^item> \<open>name_codec\<close>: an enumeration with a wire name and a total, defaulting parser.
  \<^item> \<open>guarded_system\<close>: a transition system with an invariant every step keeps.

  Strings are \<open>char list\<close>, one \<open>char\<close> per byte of the UTF-8 text, so the order of strings is Rust's
  byte order. The ASCII functions of Rust act on bytes and are modelled exactly. \<open>str::trim\<close>
  removes Unicode white space in Rust; the model removes the ASCII white space only.
\<close>

named_theorems codec_simps \<open>equations of the wire names and their parsers\<close>
named_theorems sched_simps \<open>frame equations of the scheduler's operations\<close>
named_theorems sched_inv \<open>preservation of the scheduler's invariant\<close>
named_theorems plan_simps \<open>projections of the negotiated plan\<close>

type_synonym u8 = "8 word"
type_synonym u32 = "32 word"
type_synonym u64 = "64 word"

section \<open>Options\<close>

text \<open>\<open>Option::is_some_and\<close>, \<open>Option::is_none_or\<close>, \<open>Option::filter\<close>, \<open>Option::or\<close> and
  \<open>bool::then_some\<close>.\<close>

definition is_some_and :: "'a option \<Rightarrow> ('a \<Rightarrow> bool) \<Rightarrow> bool" where
  "is_some_and x p = (case x of None \<Rightarrow> False | Some v \<Rightarrow> p v)"

definition is_none_or :: "'a option \<Rightarrow> ('a \<Rightarrow> bool) \<Rightarrow> bool" where
  "is_none_or x p = (case x of None \<Rightarrow> True | Some v \<Rightarrow> p v)"

definition opt_filter :: "('a \<Rightarrow> bool) \<Rightarrow> 'a option \<Rightarrow> 'a option" where
  "opt_filter p x = (case x of None \<Rightarrow> None | Some v \<Rightarrow> if p v then Some v else None)"

definition opt_or :: "'a option \<Rightarrow> 'a option \<Rightarrow> 'a option" where
  "opt_or x y = (case x of None \<Rightarrow> y | Some v \<Rightarrow> Some v)"

definition then_some :: "bool \<Rightarrow> 'a \<Rightarrow> 'a option" where
  "then_some b v = (if b then Some v else None)"

definition unwrap_or :: "'a option \<Rightarrow> 'a \<Rightarrow> 'a" where
  "unwrap_or x d = (case x of None \<Rightarrow> d | Some v \<Rightarrow> v)"

definition map_or :: "'a option \<Rightarrow> 'b \<Rightarrow> ('a \<Rightarrow> 'b) \<Rightarrow> 'b" where
  "map_or x d f = (case x of None \<Rightarrow> d | Some v \<Rightarrow> f v)"

text \<open>\<open>slice::get\<close>, \<open>Iterator::find\<close> (HOL's \<open>find\<close>) and \<open>Iterator::position\<close>.\<close>

definition get :: "'a list \<Rightarrow> nat \<Rightarrow> 'a option" where
  "get xs i = (if i < length xs then Some (xs ! i) else None)"

fun position :: "('a \<Rightarrow> bool) \<Rightarrow> 'a list \<Rightarrow> nat option" where
  "position p [] = None"
| "position p (x # xs) = (if p x then Some 0 else map_option Suc (position p xs))"

fun filter_map :: "('a \<Rightarrow> 'b option) \<Rightarrow> 'a list \<Rightarrow> 'b list" where
  "filter_map f [] = []"
| "filter_map f (x # xs) = (case f x of None \<Rightarrow> filter_map f xs | Some y \<Rightarrow> y # filter_map f xs)"

section \<open>ASCII strings\<close>

definition is_ascii_digit :: "char \<Rightarrow> bool" where
  "is_ascii_digit c = (CHR ''0'' \<le> c \<and> c \<le> CHR ''9'')"

definition ascii_lower :: "char \<Rightarrow> char" where
  "ascii_lower c = (if CHR ''A'' \<le> c \<and> c \<le> CHR ''Z'' then char_of (of_char c + 32 :: nat) else c)"

definition to_ascii_lowercase :: "string \<Rightarrow> string" where
  "to_ascii_lowercase s = map ascii_lower s"

text \<open>Space, tab, line feed, form feed and carriage return: \<open>char::is_ascii_whitespace\<close>. The
  vertical tab is white space for \<open>char::is_whitespace\<close> only.\<close>

definition is_ascii_ws :: "char \<Rightarrow> bool" where
  "is_ascii_ws c = (c \<in> {CHR '' '', CHR 0x09, CHR 0x0A, CHR 0x0C, CHR 0x0D})"

definition is_ws :: "char \<Rightarrow> bool" where
  "is_ws c = (is_ascii_ws c \<or> c = CHR 0x0B)"

definition trim_start :: "string \<Rightarrow> string" where
  "trim_start s = dropWhile is_ws s"

definition trim :: "string \<Rightarrow> string" where
  "trim s = rev (trim_start (rev (trim_start s)))"

definition starts_with :: "string \<Rightarrow> string \<Rightarrow> bool" where
  "starts_with s p = (take (length p) s = p)"

definition ends_with :: "string \<Rightarrow> string \<Rightarrow> bool" where
  "ends_with s p = starts_with (rev s) (rev p)"

definition strip_prefix :: "string \<Rightarrow> string \<Rightarrow> string option" where
  "strip_prefix p s = (if starts_with s p then Some (drop (length p) s) else None)"

fun contains_str :: "string \<Rightarrow> string \<Rightarrow> bool" where
  "contains_str [] p = (p = [])"
| "contains_str (c # s) p = (starts_with (c # s) p \<or> contains_str s p)"

text \<open>\<open>str::split\<close> on one character: always at least one piece.\<close>

fun split_on :: "char \<Rightarrow> string \<Rightarrow> string list" where
  "split_on d [] = [[]]"
| "split_on d (c # s) =
     (if c = d then [] # split_on d s
      else (case split_on d s of [] \<Rightarrow> [[c]] | w # ws \<Rightarrow> (c # w) # ws))"

text \<open>\<open>str::split_ascii_whitespace\<close>: the maximal runs of characters that are not white space.\<close>

fun split_ws_aux :: "string \<Rightarrow> string \<Rightarrow> string list" where
  "split_ws_aux acc [] = (if acc = [] then [] else [rev acc])"
| "split_ws_aux acc (c # s) =
     (if is_ascii_ws c then (if acc = [] then split_ws_aux [] s else rev acc # split_ws_aux [] s)
      else split_ws_aux (c # acc) s)"

definition split_ascii_whitespace :: "string \<Rightarrow> string list" where
  "split_ascii_whitespace s = split_ws_aux [] s"

text \<open>\<open>str::parse::<u32>\<close>: an optional plus sign, at least one digit, and a value below \<open>2^32\<close>.\<close>

definition digit_val :: "char \<Rightarrow> nat" where
  "digit_val c = of_char c - 48"

fun digits_val :: "nat \<Rightarrow> string \<Rightarrow> nat" where
  "digits_val acc [] = acc"
| "digits_val acc (c # s) = digits_val (acc * 10 + digit_val c) s"

definition parse_nat :: "nat \<Rightarrow> string \<Rightarrow> nat option" where
  "parse_nat bound s =
     (let ds = (case s of c # r \<Rightarrow> if c = CHR ''+'' then r else s | [] \<Rightarrow> s) in
      if ds = [] \<or> \<not> list_all is_ascii_digit ds then None
      else (let n = digits_val 0 ds in if n < bound then Some n else None))"

definition parse_u32 :: "string \<Rightarrow> u32 option" where
  "parse_u32 s = map_option of_nat (parse_nat (2 ^ 32) s)"

text \<open>A hexadecimal digit.\<close>

definition hex_val :: "char \<Rightarrow> nat option" where
  "hex_val c =
     (if CHR ''0'' \<le> c \<and> c \<le> CHR ''9'' then Some (of_char c - 48)
      else if CHR ''a'' \<le> c \<and> c \<le> CHR ''f'' then Some (of_char c - 87)
      else if CHR ''A'' \<le> c \<and> c \<le> CHR ''F'' then Some (of_char c - 55)
      else None)"

text \<open>\<open>Display\<close> of an unsigned integer.\<close>

definition digit_char :: "nat \<Rightarrow> char" where
  "digit_char d = char_of (48 + d)"

fun show_nat :: "nat \<Rightarrow> string" where
  "show_nat n =
     (if n < 10 then [digit_char n] else show_nat (n div 10) @ [digit_char (n mod 10)])"

declare show_nat.simps [simp del]

text \<open>\<open>[&str]::join\<close>.\<close>

fun join_str :: "string \<Rightarrow> string list \<Rightarrow> string" where
  "join_str sep [] = []"
| "join_str sep [w] = w"
| "join_str sep (w # v # ws) = w @ sep @ join_str sep (v # ws)"

section \<open>Comparators and sorting\<close>

datatype ordering = Less | Equal | Greater

fun reverse_ord :: "ordering \<Rightarrow> ordering" where
  "reverse_ord Less = Greater"
| "reverse_ord Equal = Equal"
| "reverse_ord Greater = Less"

text \<open>\<open>Ordering::then\<close>.\<close>

fun then_cmp :: "ordering \<Rightarrow> ordering \<Rightarrow> ordering" where
  "then_cmp Equal o2 = o2"
| "then_cmp o1 o2 = o1"

text \<open>\<open>Ord::cmp\<close> of a linearly ordered type.\<close>

definition cmp_of :: "'a::linorder \<Rightarrow> 'a \<Rightarrow> ordering" where
  "cmp_of a b = (if a < b then Less else if a = b then Equal else Greater)"

text \<open>\<open>slice::sort_by\<close>: the stable sort, as insertion sort.\<close>

fun insort_by :: "('a \<Rightarrow> 'a \<Rightarrow> ordering) \<Rightarrow> 'a \<Rightarrow> 'a list \<Rightarrow> 'a list" where
  "insort_by cmp x [] = [x]"
| "insort_by cmp x (y # ys) = (if cmp x y = Greater then y # insort_by cmp x ys else x # y # ys)"

fun sort_by :: "('a \<Rightarrow> 'a \<Rightarrow> ordering) \<Rightarrow> 'a list \<Rightarrow> 'a list" where
  "sort_by cmp [] = []"
| "sort_by cmp (x # xs) = insort_by cmp x (sort_by cmp xs)"

text \<open>\<open>Iterator::min_by_key\<close>, \<open>Iterator::min_by\<close> over a key: the first of the least elements.\<close>

definition min_by_key :: "('a \<Rightarrow> 'b::linorder) \<Rightarrow> 'a list \<Rightarrow> 'a option" where
  "min_by_key f xs =
     (case xs of [] \<Rightarrow> None | x # r \<Rightarrow> Some (foldl (\<lambda>best y. if f y < f best then y else best) x r))"

section \<open>Reachable states\<close>

inductive reachable :: "('s \<Rightarrow> bool) \<Rightarrow> ('s \<Rightarrow> 's \<Rightarrow> bool) \<Rightarrow> 's \<Rightarrow> bool"
  for init :: "'s \<Rightarrow> bool" and step :: "'s \<Rightarrow> 's \<Rightarrow> bool" where
  reach_init: "init s \<Longrightarrow> reachable init step s"
| reach_step: "reachable init step s \<Longrightarrow> step s t \<Longrightarrow> reachable init step t"

section \<open>Lemmas\<close>

lemma is_some_and_simps [simp]:
  "is_some_and None p = False" "is_some_and (Some v) p = p v"
  by (simp_all add: is_some_and_def)

lemma is_some_and_iff: "is_some_and x p \<longleftrightarrow> (\<exists>v. x = Some v \<and> p v)"
  by (cases x) simp_all

lemma is_none_or_simps [simp]:
  "is_none_or None p = True" "is_none_or (Some v) p = p v"
  by (simp_all add: is_none_or_def)

lemma opt_filter_simps [simp]:
  "opt_filter p None = None" "opt_filter p (Some v) = (if p v then Some v else None)"
  by (simp_all add: opt_filter_def)

lemma opt_filter_eq_Some: "opt_filter p x = Some v \<longleftrightarrow> x = Some v \<and> p v"
  by (cases x) auto

lemma opt_or_simps [simp]: "opt_or None y = y" "opt_or (Some v) y = Some v"
  by (simp_all add: opt_or_def)

lemma then_some_simps [simp]:
  "then_some True v = Some v" "then_some False v = None"
  "then_some b v = Some w \<longleftrightarrow> b \<and> v = w" "then_some b v = None \<longleftrightarrow> \<not> b"
  by (auto simp: then_some_def)

lemma unwrap_or_simps [simp]: "unwrap_or None d = d" "unwrap_or (Some v) d = v"
  by (simp_all add: unwrap_or_def)

lemma map_or_simps [simp]: "map_or None d f = d" "map_or (Some v) d f = f v"
  by (simp_all add: map_or_def)

lemma get_eq_Some: "get xs i = Some v \<longleftrightarrow> i < length xs \<and> xs ! i = v"
  by (auto simp: get_def)

lemma get_eq_None: "get xs i = None \<longleftrightarrow> length xs \<le> i"
  by (auto simp: get_def)

lemma get_mem: "get xs i = Some v \<Longrightarrow> v \<in> set xs"
  by (auto simp: get_eq_Some)

lemma position_Some:
  "position p xs = Some i \<Longrightarrow> i < length xs \<and> p (xs ! i) \<and> (\<forall>j < i. \<not> p (xs ! j))"
proof (induction xs arbitrary: i)
  case Nil
  then show ?case by simp
next
  case (Cons x xs)
  show ?case
  proof (cases "p x")
    case True
    with Cons.prems show ?thesis by simp
  next
    case False
    with Cons.prems obtain j where j: "position p xs = Some j" and i: "i = Suc j" by auto
    with Cons.IH [OF j] False show ?thesis by (auto simp: less_Suc_eq_0_disj)
  qed
qed

lemma position_None: "position p xs = None \<longleftrightarrow> (\<forall>x \<in> set xs. \<not> p x)"
  by (induction xs) auto

lemma set_filter_map: "set (filter_map f xs) = {y. \<exists>x \<in> set xs. f x = Some y}"
  by (induction xs) (auto split: option.splits)

lemma filter_map_mset:
  "mset xs = mset ys \<Longrightarrow> mset (filter_map f xs) = mset (filter_map f ys)"
proof -
  have *: "mset (filter_map f xs) = image_mset (the \<circ> f) (filter_mset (\<lambda>x. f x \<noteq> None) (mset xs))" for xs
    by (induction xs) (auto split: option.splits)
  assume "mset xs = mset ys"
  then show ?thesis by (simp add: *)
qed

lemma split_on_nonempty [simp]: "split_on d s \<noteq> []"
  by (induction s) (auto split: list.splits)

lemma trim_start_idem: "trim_start (trim_start s) = trim_start s"
  by (induction s) (auto simp: trim_start_def)

lemma parse_nat_bound: "parse_nat b s = Some n \<Longrightarrow> n < b"
  by (auto simp: parse_nat_def Let_def split: if_splits list.splits)

lemma digit_char_props:
  assumes "d < 10"
  shows "is_ascii_digit (digit_char d)" "digit_val (digit_char d) = d" "digit_char d \<noteq> CHR ''+''"
proof -
  have code: "of_char (digit_char d) = 48 + d" using assms by (simp add: digit_char_def)
  then show "is_ascii_digit (digit_char d)" using assms
    by (simp add: is_ascii_digit_def less_eq_char_def)
  show "digit_val (digit_char d) = d" using code by (simp add: digit_val_def)
  have "of_char (CHR ''+'') = (43::nat)" by simp
  moreover have "48 + d \<noteq> 43" by simp
  ultimately show "digit_char d \<noteq> CHR ''+''" using code by metis
qed

lemma digits_val_append: "digits_val acc (s @ [c]) = digits_val acc s * 10 + digit_val c"
  by (induction s arbitrary: acc) simp_all

lemma show_nat_digits: "list_all is_ascii_digit (show_nat n) \<and> show_nat n \<noteq> [] \<and> hd (show_nat n) \<noteq> CHR ''+''
    \<and> digits_val 0 (show_nat n) = n"
proof (induction n rule: show_nat.induct)
  case (1 n)
  show ?case
  proof (cases "n < 10")
    case True
    then show ?thesis by (simp add: show_nat.simps [of n] digit_char_props)
  next
    case False
    then show ?thesis using 1
      by (simp add: show_nat.simps [of n] digit_char_props digits_val_append)
  qed
qed

text \<open>Printing an unsigned integer and parsing it is the identity.\<close>

lemma parse_show_nat: "n < b \<Longrightarrow> parse_nat b (show_nat n) = Some n"
  using show_nat_digits [of n] by (cases "show_nat n") (auto simp: parse_nat_def Let_def)

lemma parse_show_u32: "parse_u32 (show_nat (unat w)) = Some w"
proof -
  have "unat w < 2 ^ 32" using unsigned_less [of w, where ?'a = nat] by simp
  from parse_show_nat [OF this] show ?thesis by (simp add: parse_u32_def)
qed

lemma foldl_min_first:
  fixes f :: "'a \<Rightarrow> 'b::linorder"
  defines "step \<equiv> (\<lambda>best y. if f y < f best then y else best)"
  shows "\<exists>i < length (x # r). (x # r) ! i = foldl step x r
           \<and> (\<forall>j < length (x # r). f ((x # r) ! i) \<le> f ((x # r) ! j))
           \<and> (\<forall>j < i. f ((x # r) ! i) < f ((x # r) ! j))"
proof (induction r rule: rev_induct)
  case Nil
  show ?case by (intro exI [of _ 0]) (simp add: less_Suc_eq_0_disj order_refl)
next
  case (snoc y r)
  then obtain i where i: "i < length (x # r)" "(x # r) ! i = foldl step x r"
    "\<forall>j < length (x # r). f ((x # r) ! i) \<le> f ((x # r) ! j)"
    "\<forall>j < i. f ((x # r) ! i) < f ((x # r) ! j)" by blast
  have old: "(x # r @ [y]) ! j = (x # r) ! j" if "j < length (x # r)" for j
    using that by (metis append_Cons nth_append)
  have new: "(x # r @ [y]) ! length (x # r) = y" by (metis append_Cons nth_append_length)
  show ?case
  proof (cases "f y < f (foldl step x r)")
    case True
    then have least: "f y < f ((x # r) ! j)" if "j < length (x # r)" for j
      using i(2,3) that by (metis less_le_trans)
    show ?thesis
    proof (intro exI [of _ "length (x # r)"] conjI allI impI)
      show "length (x # r) < length (x # r @ [y])" by simp
      show "(x # r @ [y]) ! length (x # r) = foldl step x (r @ [y])"
        using True new by (simp add: step_def)
      fix j
      show "f ((x # r @ [y]) ! length (x # r)) \<le> f ((x # r @ [y]) ! j)"
        if "j < length (x # r @ [y])"
        using that least [of j] old [of j] new
        by (metis less_imp_le length_Cons length_append_singleton less_antisym order_refl)
      show "f ((x # r @ [y]) ! length (x # r)) < f ((x # r @ [y]) ! j)" if "j < length (x # r)"
        using that least [of j] old [of j] new by metis
    qed
  next
    case False
    show ?thesis
    proof (intro exI [of _ i] conjI allI impI)
      show "i < length (x # r @ [y])" using i(1) by simp
      show "(x # r @ [y]) ! i = foldl step x (r @ [y])"
        using False i(2) old [OF i(1)] by (simp add: step_def)
      fix j
      show "f ((x # r @ [y]) ! i) \<le> f ((x # r @ [y]) ! j)" if "j < length (x # r @ [y])"
      proof (cases "j < length (x # r)")
        case True
        then show ?thesis using i(3) old [OF True] old [OF i(1)] by simp
      next
        case f2: False
        then have "j = length (x # r)" using that by simp
        then show ?thesis using False i(2) old [OF i(1)] new by simp
      qed
      show "f ((x # r @ [y]) ! i) < f ((x # r @ [y]) ! j)" if "j < i"
      proof -
        have "j < length (x # r)" using that i(1) by simp
        then show ?thesis using that i(4) old [OF i(1)] old [of j] by simp
      qed
    qed
  qed
qed

lemma min_by_key_Some:
  assumes "min_by_key f xs = Some m"
  obtains i where "i < length xs" "xs ! i = m" "\<forall>j < length xs. f m \<le> f (xs ! j)"
    "\<forall>j < i. f m < f (xs ! j)"
proof -
  obtain x r where xs: "xs = x # r" using assms by (cases xs) (simp_all add: min_by_key_def)
  then have m: "m = foldl (\<lambda>best y. if f y < f best then y else best) x r"
    using assms by (simp add: min_by_key_def)
  from foldl_min_first [of x r f] that show thesis unfolding xs m by metis
qed

lemma min_by_key_None [simp]: "min_by_key f xs = None \<longleftrightarrow> xs = []"
  by (cases xs) (simp_all add: min_by_key_def)

lemma min_by_key_mem: "min_by_key f xs = Some m \<Longrightarrow> m \<in> set xs"
  by (erule min_by_key_Some) auto

lemma min_by_key_le: "min_by_key f xs = Some m \<Longrightarrow> x \<in> set xs \<Longrightarrow> f m \<le> f x"
  by (erule min_by_key_Some) (auto simp: in_set_conv_nth)

lemma distinct_submset:
  assumes "mset xs \<subseteq># mset ys" and "distinct ys"
  shows "distinct xs"
proof -
  obtain zs where "mset zs = mset ys - mset xs" using ex_mset by blast
  then have "mset (xs @ zs) = mset ys" using assms(1) by simp
  with assms(2) have "distinct (xs @ zs)" using mset_eq_imp_distinct_iff by blast
  then show ?thesis by simp
qed

section \<open>The interface of a comparator\<close>

locale cmp_order =
  fixes cmp :: "'a \<Rightarrow> 'a \<Rightarrow> ordering"
  assumes cmp_refl: "cmp x x = Equal"
    and cmp_sym: "cmp y x = reverse_ord (cmp x y)"
    and cmp_trans: "cmp x y \<noteq> Greater \<Longrightarrow> cmp y z \<noteq> Greater \<Longrightarrow> cmp x z \<noteq> Greater"
begin

lemma cmp_Greater_iff: "cmp x y = Greater \<longleftrightarrow> cmp y x = Less"
  by (cases "cmp x y") (simp_all add: cmp_sym [of y x])

lemma cmp_total: "cmp x y \<noteq> Greater \<or> cmp y x \<noteq> Greater"
  by (cases "cmp x y") (simp_all add: cmp_sym [of y x])

lemma cmp_antisym: "cmp x y \<noteq> Greater \<Longrightarrow> cmp y x \<noteq> Greater \<Longrightarrow> cmp x y = Equal"
  by (cases "cmp x y") (simp_all add: cmp_sym [of y x])

lemma cmp_le_less: "cmp x y \<noteq> Greater \<Longrightarrow> cmp y z = Less \<Longrightarrow> cmp x z = Less"
proof -
  assume le: "cmp x y \<noteq> Greater" and less: "cmp y z = Less"
  have "cmp x z \<noteq> Greater" using cmp_trans [OF le] less by simp
  moreover have "cmp x z \<noteq> Equal"
  proof
    assume "cmp x z = Equal"
    then have "cmp z x \<noteq> Greater" by (simp add: cmp_sym [of z x])
    from cmp_trans [OF this le] less show False by (simp add: cmp_sym [of z y])
  qed
  ultimately show ?thesis by (cases "cmp x z") simp_all
qed

lemma mset_insort_by: "mset (insort_by cmp x xs) = add_mset x (mset xs)"
  by (induction xs) auto

lemma mset_sort_by [simp]: "mset (sort_by cmp xs) = mset xs"
  by (induction xs) (auto simp: mset_insort_by)

lemma set_sort_by [simp]: "set (sort_by cmp xs) = set xs"
  by (metis mset_sort_by set_mset_mset)

lemma length_sort_by [simp]: "length (sort_by cmp xs) = length xs"
  by (metis mset_sort_by size_mset)

lemma sorted_insort_by:
  assumes "sorted_wrt (\<lambda>a b. cmp a b \<noteq> Greater) xs"
  shows "sorted_wrt (\<lambda>a b. cmp a b \<noteq> Greater) (insort_by cmp x xs)"
  using assms
proof (induction xs)
  case Nil
  then show ?case by simp
next
  case (Cons y ys)
  have ins: "set (insort_by cmp x ys) = insert x (set ys)"
    by (metis mset_insort_by set_mset_add_mset_insert set_mset_mset)
  show ?case
  proof (cases "cmp x y = Greater")
    case True
    then have "cmp y x \<noteq> Greater" using cmp_total by blast
    with True Cons ins show ?thesis by auto
  next
    case False
    with Cons.prems show ?thesis using cmp_trans [OF False] by auto
  qed
qed

lemma sorted_sort_by: "sorted_wrt (\<lambda>a b. cmp a b \<noteq> Greater) (sort_by cmp xs)"
  by (induction xs) (simp_all add: sorted_insort_by)

lemma sort_by_head:
  assumes "sort_by cmp xs = y # ys" and "x \<in> set xs"
  shows "cmp y x \<noteq> Greater"
proof -
  have "x \<in> set (y # ys)" using assms set_sort_by by metis
  moreover have "sorted_wrt (\<lambda>a b. cmp a b \<noteq> Greater) (y # ys)"
    using sorted_sort_by assms(1) by metis
  ultimately show ?thesis by (auto simp: cmp_refl)
qed

lemma sorted_unique:
  assumes "mset xs = mset ys"
    and "sorted_wrt (\<lambda>a b. cmp a b \<noteq> Greater) xs" and "sorted_wrt (\<lambda>a b. cmp a b \<noteq> Greater) ys"
    and "\<And>a b. a \<in> set xs \<Longrightarrow> b \<in> set xs \<Longrightarrow> cmp a b = Equal \<Longrightarrow> a = b"
  shows "xs = ys"
  using assms
proof (induction xs arbitrary: ys)
  case Nil
  then show ?case by simp
next
  case (Cons x xs)
  then obtain z zs where ys: "ys = z # zs" by (cases ys) auto
  have sets: "set (x # xs) = set (z # zs)" using Cons.prems(1) ys by (metis set_mset_mset)
  have "x \<in> set (z # zs)" "z \<in> set (x # xs)" using sets by auto
  then have "cmp z x \<noteq> Greater" "cmp x z \<noteq> Greater"
    using Cons.prems(2,3) ys by (auto simp: cmp_refl)
  then have "cmp x z = Equal" using cmp_antisym by blast
  then have xz: "x = z" using Cons.prems(4) \<open>z \<in> set (x # xs)\<close> by simp
  have "xs = zs"
    using Cons.prems ys xz by (intro Cons.IH) auto
  with xz ys show ?case by simp
qed

lemma sort_by_perm:
  assumes "mset xs = mset ys"
    and "\<And>a b. a \<in> set xs \<Longrightarrow> b \<in> set xs \<Longrightarrow> cmp a b = Equal \<Longrightarrow> a = b"
  shows "sort_by cmp xs = sort_by cmp ys"
  using assms by (intro sorted_unique) (simp_all add: sorted_sort_by)

end

text \<open>Comparators are built from the keys of a record and chained with \<open>then\<close>.\<close>

lemma cmp_of_simps [simp]:
  "cmp_of a b = Less \<longleftrightarrow> a < b" "cmp_of a b = Equal \<longleftrightarrow> a = b" "cmp_of a b = Greater \<longleftrightarrow> b < a"
  by (auto simp: cmp_of_def)

lemma reverse_ord_cmp_of [simp]: "reverse_ord (cmp_of a b) = cmp_of b a"
  by (auto simp: cmp_of_def)

lemma cmp_order_key: "cmp_order (\<lambda>x y. cmp_of (f x) (f y))"
  by unfold_locales auto

lemma cmp_order_key_rev: "cmp_order (\<lambda>x y. cmp_of (f y) (f x))"
  by unfold_locales auto

lemma then_cmp_eq_Equal [simp]: "then_cmp a b = Equal \<longleftrightarrow> a = Equal \<and> b = Equal"
  by (cases a) auto

lemma then_cmp_eq_Greater: "then_cmp a b = Greater \<longleftrightarrow> a = Greater \<or> a = Equal \<and> b = Greater"
  by (cases a) auto

lemma cmp_order_then:
  assumes "cmp_order c" and "cmp_order d"
  shows "cmp_order (\<lambda>x y. then_cmp (c x y) (d x y))"
proof
  note C = cmp_order.cmp_refl [OF assms(1)] cmp_order.cmp_sym [OF assms(1)]
  note D = cmp_order.cmp_refl [OF assms(2)] cmp_order.cmp_sym [OF assms(2)]
  note CT = cmp_order.cmp_trans [OF assms(1)] and DT = cmp_order.cmp_trans [OF assms(2)]
  fix x y z
  show "then_cmp (c x x) (d x x) = Equal" by (simp add: C(1) D(1))
  show "then_cmp (c y x) (d y x) = reverse_ord (then_cmp (c x y) (d x y))"
    by (cases "c x y") (simp_all add: C(2) [of y x] D(2) [of y x])
  assume le: "then_cmp (c x y) (d x y) \<noteq> Greater" "then_cmp (c y z) (d y z) \<noteq> Greater"
  then have cxy: "c x y \<noteq> Greater" and cyz: "c y z \<noteq> Greater"
    by (auto simp: then_cmp_eq_Greater)
  have cxz: "c x z \<noteq> Greater" using CT cxy cyz by blast
  show "then_cmp (c x z) (d x z) \<noteq> Greater"
  proof (cases "c x z")
    case Equal
    then have "c z x \<noteq> Greater" by (simp add: C(2) [of z x])
    then have "c y x \<noteq> Greater" "c z y \<noteq> Greater" using CT cxy cyz by blast+
    then have "c x y = Equal" "c y z = Equal"
      using cxy cyz cmp_order.cmp_antisym [OF assms(1)] by blast+
    with le have "d x z \<noteq> Greater" using DT by simp
    with Equal show ?thesis by simp
  qed (use cxz in simp_all)
qed

section \<open>The interface of a wire name\<close>

locale name_codec =
  fixes as_name :: "'a \<Rightarrow> string"
    and from_name :: "string \<Rightarrow> 'a"
  assumes from_as: "from_name (as_name x) = x"
begin

lemma as_name_inj: "as_name x = as_name y \<longleftrightarrow> x = y"
  using from_as by metis

lemma from_name_surj: "\<exists>s. from_name s = x"
  using from_as by metis

end

section \<open>The interface of a guarded transition system\<close>

locale guarded_system =
  fixes init :: "'s \<Rightarrow> bool"
    and step :: "'s \<Rightarrow> 's \<Rightarrow> bool"
    and inv :: "'s \<Rightarrow> bool"
  assumes init_inv: "init s \<Longrightarrow> inv s"
    and step_inv: "inv s \<Longrightarrow> step s t \<Longrightarrow> inv t"
begin

lemma reachable_inv: "reachable init step s \<Longrightarrow> inv s"
  by (induction rule: reachable.induct) (auto intro: init_inv step_inv)

lemma reachable_step_inv: "reachable init step s \<Longrightarrow> step s t \<Longrightarrow> inv t"
  by (blast intro: step_inv reachable_inv)

end

end
