(* ===== verification/Media_Model.thy ===== *)
theory Media_Model
  imports Kahawai_Prelude
begin

text \<open>
  The normalized stream model of \<open>crates/kahawai-core/src/media.rs\<close>: what a mediahost reports of a
  file (\<open>MediaInfo\<close> and the stream records) and what a client says it can play
  (\<open>CapabilityProfile\<close>, \<open>TargetDuration\<close>), with the decoding rules serde applies to the two fields
  that have one. Codec and format names are strings, as in the source. Record fields carry a prefix
  because Isabelle's selectors share one name space.

  Finite floating-point fields are the rationals they denote; the code of this theory only tests
  whether they are present. Milliseconds and byte counts of 64 bits are natural numbers here; the
  theories that compute with them write the saturation out.
\<close>

type_synonym f64 = rat
type_synonym f32 = rat

section \<open>Definitions\<close>

datatype serde_error = BadDepth | ExceedsU32

text \<open>\<open>deserialize_depth_limit\<close>: only 8, 10, 12 and 16 bits per component, or nothing.\<close>

definition deserialize_depth_limit :: "u32 option \<Rightarrow> serde_error + u32 option" where
  "deserialize_depth_limit depth =
     (case depth of
        None \<Rightarrow> Inr None
      | Some d \<Rightarrow> if d \<in> {8, 10, 12, 16} then Inr (Some d) else Inl BadDepth)"

text \<open>\<open>deserialize_nonnegative_u32\<close>: legacy rows hold -1 for "not measured".\<close>

definition deserialize_nonnegative_u32 :: "int option \<Rightarrow> serde_error + u32 option" where
  "deserialize_nonnegative_u32 value =
     (case value of
        None \<Rightarrow> Inr None
      | Some v \<Rightarrow>
          if 0 \<le> v then (if v < 2 ^ 32 then Inr (Some (of_int v)) else Inl ExceedsU32)
          else Inr None)"

record ReplayGain =
  track_gain_db :: "f64 option"
  track_peak :: "f64 option"
  album_gain_db :: "f64 option"
  album_peak :: "f64 option"
  reference_level_db :: "f64 option"

definition ReplayGain_some :: "ReplayGain \<Rightarrow> ReplayGain option" where
  "ReplayGain_some rg =
     (let empty = track_gain_db rg = None \<and> track_peak rg = None
                  \<and> album_gain_db rg = None \<and> album_peak rg = None
      in then_some (\<not> empty) rg)"

record LocalSeasonArtwork =
  lsa_season :: u32
  lsa_path :: string

record Chapter =
  start_ms :: nat
  end_ms :: "nat option"
  title :: "string option"

record Attachment =
  file_name :: string
  mime_type :: string
  att_offset :: nat
  att_size :: nat

record VideoStream =
  v_codec :: string
  v_width :: u32
  v_height :: u32
  v_fps :: "(u32 \<times> u32) option"
  v_bit_depth :: "u32 option"
  v_interlaced :: bool
  v_hdr :: "string option"
  v_profile :: "string option"
  v_level :: "string option"
  v_bitrate_kbps :: "u32 option"
  v_max_keyframe_interval_ms :: "u32 option"
  v_pixel_aspect_ratio :: "(u32 \<times> u32) option"
  v_orientation :: "string option"
  v_display_width :: "u32 option"
  v_display_height :: "u32 option"

record AudioStream =
  a_codec :: string
  a_channels :: u32
  a_sample_rate :: u32
  a_language :: "string option"
  a_bitrate_kbps :: "u32 option"
  a_layout :: "string option"

record SubtitleVariant =
  sv_forced :: bool
  sv_hearing_impaired :: bool
  sv_commentary :: bool

record SubtitleStream =
  s_format :: string
  s_language :: "string option"
  s_title :: "string option"
  s_variant :: SubtitleVariant

record SidecarSubtitle =
  x_path_rel :: string
  x_format :: string
  x_language :: "string option"
  x_track :: "u32 option"
  x_variant :: SubtitleVariant

record MediaInfo =
  container :: "string option"
  duration_ms :: "nat option"
  video :: "VideoStream list"
  audio :: "AudioStream list"
  subtitles :: "SubtitleStream list"
  external_subtitles :: "SidecarSubtitle list"
  replay_gain :: "ReplayGain option"
  artwork :: "string option"
  artwork_images :: "(string \<times> string) list"
  season_artwork :: "LocalSeasonArtwork list option"
  nfo :: "string option"
  sidecar_revision :: "string option"
  tags :: "(string \<times> string) list"
  attachments :: "Attachment list option"
  chapters :: "Chapter list option"
  video_geometry_probed :: bool
  video_geometry_error :: "string option"

text \<open>\<open>SubtitleVariant::default\<close>, \<open>from_words\<close>, \<open>is_variant_word\<close> and \<open>union\<close>.\<close>

definition SubtitleVariant_default :: SubtitleVariant where
  "SubtitleVariant_default =
     \<lparr>sv_forced = False, sv_hearing_impaired = False, sv_commentary = False\<rparr>"

definition variant_word :: "SubtitleVariant \<Rightarrow> string \<Rightarrow> SubtitleVariant" where
  "variant_word variant word =
     (let w = to_ascii_lowercase word in
      if w \<in> {''forced'', ''foreign'', ''signs''} then variant\<lparr>sv_forced := True\<rparr>
      else if w \<in> {''sdh'', ''cc'', ''hi'', ''hoh''} then variant\<lparr>sv_hearing_impaired := True\<rparr>
      else if w \<in> {''commentary'', ''commentaries''} then variant\<lparr>sv_commentary := True\<rparr>
      else variant)"

definition from_words :: "string list \<Rightarrow> SubtitleVariant" where
  "from_words words = foldl variant_word SubtitleVariant_default words"

definition is_variant_word :: "string \<Rightarrow> bool" where
  "is_variant_word word = (word \<noteq> ''hi'' \<and> from_words [word] \<noteq> SubtitleVariant_default)"

definition SubtitleVariant_union :: "SubtitleVariant \<Rightarrow> SubtitleVariant \<Rightarrow> SubtitleVariant" where
  "SubtitleVariant_union self other =
     \<lparr>sv_forced = (sv_forced self \<or> sv_forced other),
      sv_hearing_impaired = (sv_hearing_impaired self \<or> sv_hearing_impaired other),
      sv_commentary = (sv_commentary self \<or> sv_commentary other)\<rparr>"

text \<open>What the client needs from \<open>EXT-X-TARGETDURATION\<close>.\<close>

datatype TargetDuration = Ignore | Accurate | Short (max_secs: u32)

fun ceiling_secs :: "TargetDuration \<Rightarrow> u32 option" where
  "ceiling_secs (Short m) = Some (max m 1)"
| "ceiling_secs _ = None"

record VideoCap =
  c_max_bit_depth :: "u32 option"
  c_codec :: string
  c_max_profile :: "string option"
  c_max_level :: "string option"

record CapabilityProfile =
  p_containers :: "string list"
  p_video :: "VideoCap list"
  p_audio :: "string list"
  p_max_audio_channels :: u32
  p_max_height :: "u32 option"
  p_max_fps :: "u32 option"
  p_hdr :: bool
  p_max_bandwidth_kbps :: "u32 option"
  p_ass_render :: bool
  p_graphics_overlay :: bool
  p_vtt_render :: bool
  p_target_duration :: TargetDuration

definition CapabilityProfile_default :: CapabilityProfile where
  "CapabilityProfile_default =
     \<lparr>p_containers = [''mp4'', ''webm''],
      p_video = [\<lparr>c_max_bit_depth = None, c_codec = ''h264'', c_max_profile = None,
                  c_max_level = None\<rparr>],
      p_audio = [''aac'', ''mp3''],
      p_max_audio_channels = 0, p_max_height = None, p_max_fps = None, p_hdr = False,
      p_max_bandwidth_kbps = None, p_ass_render = False, p_graphics_overlay = False,
      p_vtt_render = True, p_target_duration = Ignore\<rparr>"

section \<open>Properties\<close>

lemma ceiling_secs_pos: "ceiling_secs m = Some c \<Longrightarrow> 1 \<le> c"
  by (cases m) auto

lemma deserialize_nonnegative_u32_value:
  "deserialize_nonnegative_u32 (Some v) = Inr (Some w) \<Longrightarrow> uint w = v"
  by (auto simp: deserialize_nonnegative_u32_def uint_word_of_int_eq take_bit_int_eq_self
      split: if_splits)

lemma from_words_append:
  "from_words (xs @ ys) = foldl variant_word (from_words xs) ys"
  by (simp add: from_words_def)

lemma variant_word_union:
  "variant_word v w = SubtitleVariant_union v (variant_word SubtitleVariant_default w)"
  by (simp add: variant_word_def SubtitleVariant_union_def SubtitleVariant_default_def Let_def)

lemma SubtitleVariant_union_assoc:
  "SubtitleVariant_union (SubtitleVariant_union a b) c
     = SubtitleVariant_union a (SubtitleVariant_union b c)"
  by (simp add: SubtitleVariant_union_def)

lemma SubtitleVariant_union_default [simp]:
  "SubtitleVariant_union a SubtitleVariant_default = a"
  "SubtitleVariant_union SubtitleVariant_default a = a"
  by (simp_all add: SubtitleVariant_union_def SubtitleVariant_default_def)

lemma foldl_variant_union:
  "foldl variant_word v ws = SubtitleVariant_union v (from_words ws)"
proof (induction ws rule: rev_induct)
  case Nil
  then show ?case by (simp add: from_words_def)
next
  case (snoc w ws)
  have "foldl variant_word v (ws @ [w])
      = SubtitleVariant_union (foldl variant_word v ws) (variant_word SubtitleVariant_default w)"
    by (simp only: foldl_append foldl_Cons foldl_Nil) (rule variant_word_union)
  also have "\<dots> = SubtitleVariant_union v
      (SubtitleVariant_union (from_words ws) (variant_word SubtitleVariant_default w))"
    by (simp only: snoc.IH SubtitleVariant_union_assoc)
  also have "SubtitleVariant_union (from_words ws) (variant_word SubtitleVariant_default w)
      = from_words (ws @ [w])"
    by (simp only: from_words_append foldl_Cons foldl_Nil) (rule variant_word_union [symmetric])
  finally show ?case .
qed

text \<open>Reading a track's words in two parts and joining the results is reading them at once: the
  container's flags and the name settle the variant together.\<close>

lemma from_words_union:
  "from_words (xs @ ys) = SubtitleVariant_union (from_words xs) (from_words ys)"
  by (simp add: from_words_append foldl_variant_union)

end
