(* ===== verification/Audio_Layout.thy ===== *)
theory Audio_Layout
  imports Media_Model
begin

text \<open>
  Channel layouts: the pure half of \<open>crates/kahawai-media/src/loudness.rs\<close> (which layouts a
  loudness measurement covers) and of \<open>crates/kahawai-media/src/remux/audio.rs\<close> (which layout an
  encoder is fed). \<open>aac_accepts\<close> runs a GStreamer pipeline and is a parameter of the operations
  that ask it. \<open>gain_db\<close> is taken over exact rationals.
\<close>

section \<open>Definitions\<close>

record AudioLayout =
  al_channels :: u32
  al_channel_mask :: u64

record AudioLoudness =
  integrated_lufs :: f64
  true_peak_dbtp :: f64

record AudioLayoutLoudness =
  all_layout :: AudioLayout
  all_loudness :: AudioLoudness

record AudioLayoutGain =
  g_layout :: AudioLayout
  g_gain_db :: f64

record AudioLoudnessMeasurement =
  m_source :: AudioLayout
  m_layouts :: "AudioLayoutLoudness list"

definition TARGET_LUFS :: f64 where "TARGET_LUFS = -18"
definition MAX_TRUE_PEAK_DBTP :: f64 where "MAX_TRUE_PEAK_DBTP = -1"

text \<open>\<open>AudioLayout::new\<close>: mono and stereo without a mask get the canonical one.\<close>

definition layout_new :: "u32 \<Rightarrow> u64 \<Rightarrow> AudioLayout" where
  "layout_new channels channel_mask =
     \<lparr>al_channels = channels,
      al_channel_mask =
        (if channels = 1 \<and> channel_mask = 0 then 0x4
         else if channels = 2 \<and> channel_mask = 0 then 0x3
         else channel_mask)\<rparr>"

text \<open>\<open>u64::from_str_radix(_, 16)\<close>.\<close>

fun hex_digits :: "nat \<Rightarrow> string \<Rightarrow> nat option" where
  "hex_digits acc [] = Some acc"
| "hex_digits acc (c # s) =
     (case hex_val c of None \<Rightarrow> None | Some d \<Rightarrow> hex_digits (acc * 16 + d) s)"

definition from_str_radix16 :: "string \<Rightarrow> u64 option" where
  "from_str_radix16 s =
     (let ds = (case s of c # r \<Rightarrow> if c = CHR ''+'' then r else s | [] \<Rightarrow> s) in
      if ds = [] then None
      else (case hex_digits 0 ds of
              None \<Rightarrow> None
            | Some n \<Rightarrow> if n < 2 ^ 64 then Some (of_nat n) else None))"

definition layout_from_stream :: "u32 \<Rightarrow> string option \<Rightarrow> AudioLayout" where
  "layout_from_stream channels channel_mask =
     (let mask = unwrap_or
        (Option.bind (Option.bind channel_mask (strip_prefix ''0x'')) from_str_radix16) 0
      in layout_new channels mask)"

definition measurement_get ::
    "AudioLoudnessMeasurement \<Rightarrow> AudioLayout \<Rightarrow> AudioLoudness option" where
  "measurement_get m l = map_option all_loudness (find (\<lambda>x. all_layout x = l) (m_layouts m))"

definition STANDARD_LAYOUTS :: "AudioLayout list" where
  "STANDARD_LAYOUTS =
     [\<lparr>al_channels = 8, al_channel_mask = 0xc3f\<rparr>,
      \<lparr>al_channels = 8, al_channel_mask = 0xff\<rparr>,
      \<lparr>al_channels = 6, al_channel_mask = 0x3f\<rparr>,
      \<lparr>al_channels = 2, al_channel_mask = 0x3\<rparr>,
      \<lparr>al_channels = 1, al_channel_mask = 0x4\<rparr>]"

definition MAX_LAYOUT_GAINS :: nat where
  "MAX_LAYOUT_GAINS = length STANDARD_LAYOUTS + 1"

definition is_side_to_rear_5_1 :: "AudioLayout \<Rightarrow> AudioLayout \<Rightarrow> bool" where
  "is_side_to_rear_5_1 source target =
     (source = layout_new 6 0xc0f \<and> target = layout_new 6 0x3f)"

definition measured_layouts :: "AudioLayout \<Rightarrow> AudioLayout list" where
  "measured_layouts source =
     source # filter (\<lambda>layout.
         al_channels layout < al_channels source
       \<or> (al_channel_mask source = 0 \<and> al_channels layout = al_channels source)
       \<or> is_side_to_rear_5_1 source layout) STANDARD_LAYOUTS"

text \<open>\<open>Vec::dedup\<close>: runs of equal neighbours collapse to one.\<close>

fun vec_dedup :: "'a list \<Rightarrow> 'a list" where
  "vec_dedup [] = []"
| "vec_dedup [x] = [x]"
| "vec_dedup (x # y # xs) = (if x = y then vec_dedup (y # xs) else x # vec_dedup (y # xs))"

definition layout_cmp :: "AudioLayout \<Rightarrow> AudioLayout \<Rightarrow> ordering" where
  "layout_cmp a b = then_cmp (cmp_of (al_channels b) (al_channels a))
                             (cmp_of (al_channel_mask a) (al_channel_mask b))"

definition resolved_measured_layouts :: "AudioLayout \<Rightarrow> AudioLayout \<Rightarrow> AudioLayout list" where
  "resolved_measured_layouts declared decoded =
     vec_dedup (sort_by layout_cmp
       ((if al_channel_mask decoded = 0 then [] else [decoded]) @ drop 1 (measured_layouts declared)))"

definition gain_db :: "AudioLoudness \<Rightarrow> f64" where
  "gain_db measured =
     (let loudness_gain = TARGET_LUFS - integrated_lufs measured;
          peak_gain = MAX_TRUE_PEAK_DBTP - true_peak_dbtp measured
      in min loudness_gain peak_gain)"

text \<open>\<open>remux/audio.rs\<close>: the layout an AAC encoder is fed, and the one Opus produces.\<close>

definition AAC_LAYOUTS :: "(u32 \<times> u64) list" where
  "AAC_LAYOUTS = [(8, 0xc3f), (8, 0xff), (6, 0x3f), (2, 0x3), (1, 0x4)]"

type_synonym aac_probe = "string \<Rightarrow> u32 \<times> u64 \<Rightarrow> u32 \<Rightarrow> u64 option \<Rightarrow> bool"

definition aac_input_layout ::
    "aac_probe \<Rightarrow> string \<Rightarrow> u32 \<Rightarrow> u64 \<Rightarrow> u32 option \<Rightarrow> (u32 \<times> u64 option) option" where
  "aac_input_layout aac_accepts enc channels cmask ceil =
     (let bound = map_or (opt_filter (\<lambda>c. c > 0) ceil) channels (\<lambda>c. min c channels);
          positioned =
            (if cmask \<noteq> 0 \<and> channels \<le> bound then [(channels, Some cmask)] else [])
            @ map (\<lambda>(tc, tm). (tc, Some tm))
                (filter (\<lambda>(tc, tm).
                    tc \<le> bound
                  \<and> (tc < channels \<or> cmask = 0 \<or> and tm cmask = tm
                     \<or> is_side_to_rear_5_1 (layout_new channels cmask) (layout_new tc tm)))
                  AAC_LAYOUTS);
          count_only = map (\<lambda>c. (c, None)) (filter (\<lambda>c. c \<le> bound) (channels # map fst AAC_LAYOUTS))
      in find (\<lambda>(tc, tm). aac_accepts enc (channels, cmask) tc tm) (positioned @ count_only))"

definition opus_output_layout :: "AudioLayout \<Rightarrow> u32 option \<Rightarrow> AudioLayout" where
  "opus_output_layout source ceil =
     (let bound = min (min (max (unwrap_or ceil 8) 1) 8) (al_channels source);
          layouts = measured_layouts source;
          positioned = (if al_channel_mask source = 0
             then find (\<lambda>l. al_channels l = al_channels source \<and> al_channel_mask l \<noteq> 0
                            \<and> al_channels l \<le> bound) layouts
             else None)
      in case positioned of
           Some l \<Rightarrow> l
         | None \<Rightarrow> unwrap_or (find (\<lambda>l. al_channels l \<le> bound \<and> al_channel_mask l \<noteq> 0) layouts)
                     (layout_new bound 0))"

section \<open>Properties\<close>

interpretation layout: cmp_order layout_cmp
  unfolding layout_cmp_def
  by (intro cmp_order_then cmp_order_key cmp_order_key_rev)

lemma layout_cmp_Equal: "layout_cmp a b = Equal \<longleftrightarrow> a = b"
  by (auto simp: layout_cmp_def)

lemma set_vec_dedup [simp]: "set (vec_dedup xs) = set xs"
  by (induction xs rule: vec_dedup.induct) auto

lemma vec_dedup_sorted_wrt: "sorted_wrt P xs \<Longrightarrow> sorted_wrt P (vec_dedup xs)"
proof (induction xs rule: vec_dedup.induct)
  case (3 x y xs)
  have "set (vec_dedup (y # xs)) = set (y # xs)" by (rule set_vec_dedup)
  with 3 show ?case by (auto simp del: set_vec_dedup)
qed auto

lemma vec_dedup_distinct:
  assumes "sorted_wrt (\<lambda>a b. layout_cmp a b \<noteq> Greater) xs"
  shows "distinct (vec_dedup xs)"
  using assms
proof (induction xs rule: vec_dedup.induct)
  case (3 x y xs)
  show ?case
  proof (cases "x = y")
    case True
    with 3 show ?thesis by simp
  next
    case False
    have "x \<notin> set (y # xs)"
    proof
      assume "x \<in> set (y # xs)"
      with 3(3) have "layout_cmp y x \<noteq> Greater" "layout_cmp x y \<noteq> Greater"
        by (auto simp: layout.cmp_refl)
      then have "x = y" using layout.cmp_antisym layout_cmp_Equal by blast
      with False show False ..
    qed
    with False 3 show ?thesis by (simp del: set_vec_dedup add: set_vec_dedup [of "y # xs"])
  qed
qed auto

lemma resolved_measured_layouts_set:
  "set (resolved_measured_layouts declared decoded)
     = (if al_channel_mask decoded = 0 then {} else {decoded}) \<union> set (drop 1 (measured_layouts declared))"
  by (simp add: resolved_measured_layouts_def)

lemma resolved_measured_layouts_distinct: "distinct (resolved_measured_layouts declared decoded)"
  unfolding resolved_measured_layouts_def by (intro vec_dedup_distinct layout.sorted_sort_by)

lemma resolved_measured_layouts_sorted:
  "sorted_wrt (\<lambda>a b. layout_cmp a b \<noteq> Greater) (resolved_measured_layouts declared decoded)"
  unfolding resolved_measured_layouts_def by (intro vec_dedup_sorted_wrt layout.sorted_sort_by)

lemma measured_layouts_length: "length (measured_layouts source) \<le> MAX_LAYOUT_GAINS"
proof -
  have "length (filter P STANDARD_LAYOUTS) \<le> length STANDARD_LAYOUTS" for P
    by (rule length_filter_le)
  then show ?thesis by (simp add: measured_layouts_def MAX_LAYOUT_GAINS_def)
qed

lemma vec_dedup_length: "length (vec_dedup xs) \<le> length xs"
  by (induction xs rule: vec_dedup.induct) auto

lemma layout_new_idem: "layout_new (al_channels l) (al_channel_mask l) = l" if
  "\<not> (al_channels l = 1 \<and> al_channel_mask l = 0)" "\<not> (al_channels l = 2 \<and> al_channel_mask l = 0)"
  using that by (auto simp: layout_new_def)

lemma layout_new_new:
  "layout_new (al_channels (layout_new c m)) (al_channel_mask (layout_new c m)) = layout_new c m"
  by (simp add: layout_new_def)

end
