(* ===== verification/Remux_Plan.thy ===== *)
theory Remux_Plan
  imports Audio_Layout
begin

text \<open>
  The session plan of \<open>crates/kahawai-media/src/remux/plan.rs\<close>, the codec tables of
  \<open>remux/probe.rs\<close> and the stream-mode names of \<open>worker.rs\<close>.

  What GStreamer answers at run time is the record \<open>gst\<close>, an argument of every definition that
  asks: the sink templates of the two muxers, whether two caps structures intersect, whether a
  decoder exists for a caps name, the verified encoders and the AAC layout probe. Caps are modelled
  by what the code ever puts in them: a structure name and, for the \<open>audio/mpeg\<close> family, the set of
  admitted \<open>mpegversion\<close> values. \<open>caps_muxable\<close> removes every other field before it asks.
\<close>

section \<open>Definitions\<close>

datatype StreamMode = Copy | Encode | Off

record Target =
  t_video :: "string list"
  t_audio :: "string list"

definition WEB_TARGET :: Target where
  "WEB_TARGET = \<lparr>t_video = [''h264''], t_audio = [''aac'', ''mp3'']\<rparr>"

datatype VideoTarget = H264 | Hevc | Av1
datatype AudioTarget = Aac | Opus
datatype SegmentFormat = Ts | Fmp4

fun VideoTarget_as_str :: "VideoTarget \<Rightarrow> string" where
  "VideoTarget_as_str H264 = ''h264''"
| "VideoTarget_as_str Hevc = ''hevc''"
| "VideoTarget_as_str Av1 = ''av1''"

definition VideoTarget_from_str :: "string \<Rightarrow> VideoTarget" where
  "VideoTarget_from_str s = (if s = ''hevc'' then Hevc else if s = ''av1'' then Av1 else H264)"

fun AudioTarget_as_str :: "AudioTarget \<Rightarrow> string" where
  "AudioTarget_as_str Aac = ''aac''"
| "AudioTarget_as_str Opus = ''opus''"

definition AudioTarget_from_str :: "string \<Rightarrow> AudioTarget" where
  "AudioTarget_from_str s = (if s = ''opus'' then Opus else Aac)"

fun SegmentFormat_as_str :: "SegmentFormat \<Rightarrow> string" where
  "SegmentFormat_as_str Ts = ''ts''"
| "SegmentFormat_as_str Fmp4 = ''fmp4''"

definition SegmentFormat_from_str :: "string \<Rightarrow> SegmentFormat" where
  "SegmentFormat_from_str s = (if s = ''fmp4'' then Fmp4 else Ts)"

fun mode_arg :: "StreamMode \<Rightarrow> string" where
  "mode_arg Copy = ''copy''"
| "mode_arg Encode = ''encode''"
| "mode_arg Off = ''off''"

definition parse_mode :: "string \<Rightarrow> StreamMode" where
  "parse_mode s = (if s = ''copy'' then Copy else if s = ''encode'' then Encode else Off)"

record RemuxPlan =
  pl_video :: StreamMode
  pl_audio :: StreamMode
  pl_audio_track :: nat
  pl_video_track :: nat
  pl_video_kbps :: "u32 option"
  pl_max_height :: "u32 option"
  pl_max_bit_depth :: "u32 option"
  pl_tone_map :: bool
  pl_deinterlace :: bool
  pl_burn_subtitle :: "nat option"
  pl_burn_ass :: "nat option"
  pl_max_channels :: "u32 option"
  pl_stereo_gain_db :: "f64 option"
  pl_native_gain_db :: "f64 option"
  pl_loudness_source_channels :: "u32 option"
  pl_loudness_gains :: "AudioLayoutGain option list"
  pl_video_codec :: VideoTarget
  pl_audio_codec :: AudioTarget
  pl_segment_format :: SegmentFormat

definition RemuxPlan_default :: RemuxPlan where
  "RemuxPlan_default =
     \<lparr>pl_video = Off, pl_audio = Off, pl_audio_track = 0, pl_video_track = 0,
      pl_video_kbps = None, pl_max_height = None, pl_max_bit_depth = None,
      pl_tone_map = False, pl_deinterlace = False, pl_burn_subtitle = None, pl_burn_ass = None,
      pl_max_channels = None, pl_stereo_gain_db = None, pl_native_gain_db = None,
      pl_loudness_source_channels = None,
      pl_loudness_gains = replicate MAX_LAYOUT_GAINS None,
      pl_video_codec = H264, pl_audio_codec = Aac, pl_segment_format = Ts\<rparr>"

definition DEFAULT_TARGET_DURATION_SECS :: u32 where "DEFAULT_TARGET_DURATION_SECS = 2"
definition FRAGMENT_TARGET_SECS :: u32 where "FRAGMENT_TARGET_SECS = 2"

definition has_video :: "RemuxPlan \<Rightarrow> bool" where "has_video p = (pl_video p \<noteq> Off)"
definition has_audio :: "RemuxPlan \<Rightarrow> bool" where "has_audio p = (pl_audio p \<noteq> Off)"
definition playable :: "RemuxPlan \<Rightarrow> bool" where "playable p = (has_video p \<or> has_audio p)"

subsection \<open>GStreamer\<close>

datatype caps = Caps (caps_name: string) (mpegversion: "int list option")

record gst =
  g_sink_caps :: "string \<Rightarrow> caps list"
  g_intersect :: "caps \<Rightarrow> caps \<Rightarrow> bool"
  g_can_decode :: "string \<Rightarrow> bool"
  g_h264_encoder :: "string option"
  g_aac_encoder :: "string option"
  g_aac_accepts :: aac_probe

definition muxable_caps :: "gst \<Rightarrow> SegmentFormat \<Rightarrow> caps list" where
  "muxable_caps g fmt =
     (case fmt of
        Ts \<Rightarrow> filter (\<lambda>s. caps_name s \<notin> {''video/x-av1'', ''video/x-vp9''})
                (g_sink_caps g ''mpegtsmux'')
      | Fmp4 \<Rightarrow> g_sink_caps g ''isofmp4mux'')"

definition muxable_names :: "gst \<Rightarrow> SegmentFormat \<Rightarrow> string list" where
  "muxable_names g fmt = map caps_name (muxable_caps g fmt)"

definition caps_muxable :: "gst \<Rightarrow> caps \<Rightarrow> SegmentFormat \<Rightarrow> bool" where
  "caps_muxable g c fmt = list_ex (g_intersect g c) (muxable_caps g fmt)"

definition codec_to_caps_name :: "string \<Rightarrow> string \<Rightarrow> string option" where
  "codec_to_caps_name kind codec =
     (if CHR ''/'' \<in> set codec then Some codec
      else if kind = ''video'' then
        (if codec = ''h264'' then Some ''video/x-h264''
         else if codec = ''hevc'' then Some ''video/x-h265''
         else if codec = ''av1'' then Some ''video/x-av1''
         else if codec = ''vp9'' then Some ''video/x-vp9''
         else if codec \<in> {''mpeg'', ''mpeg1'', ''mpeg2'', ''mpeg4part2''} then Some ''video/mpeg''
         else None)
      else if kind = ''audio'' then
        (if codec \<in> {''aac'', ''mp3'', ''mpeg-audio''} then Some ''audio/mpeg''
         else if codec = ''ac3'' then Some ''audio/x-ac3''
         else if codec = ''eac3'' then Some ''audio/x-eac3''
         else if codec = ''dts'' then Some ''audio/x-dts''
         else if codec = ''opus'' then Some ''audio/x-opus''
         else if codec = ''flac'' then Some ''audio/x-flac''
         else if codec = ''truehd'' then Some ''audio/x-true-hd''
         else if codec = ''vorbis'' then Some ''audio/x-vorbis''
         else None)
      else None)"

definition codec_to_caps :: "string \<Rightarrow> string \<Rightarrow> caps option" where
  "codec_to_caps kind codec =
     map_option (\<lambda>name.
       if kind = ''audio'' \<and> codec \<in> {''mp3'', ''mpeg-audio''} then Caps name (Some [1])
       else if kind = ''audio'' \<and> codec = ''aac'' then Caps name (Some [2, 4])
       else Caps name None) (codec_to_caps_name kind codec)"

definition source_caps_names :: "string \<Rightarrow> MediaInfo \<Rightarrow> string list" where
  "source_caps_names kind info =
     filter_map (codec_to_caps_name kind)
       (if kind = ''video'' then map v_codec (video info) else map a_codec (audio info))"

subsection \<open>Planning without a client profile, and the verdict text\<close>

text \<open>A stale track index is clamped to the last track.\<close>

definition clamp_track :: "nat \<Rightarrow> 'a list \<Rightarrow> nat" where
  "clamp_track track xs = min track (length xs - 1)"

definition plan_streams :: "gst \<Rightarrow> MediaInfo \<Rightarrow> Target \<Rightarrow> nat \<Rightarrow> nat \<Rightarrow> RemuxPlan" where
  "plan_streams g info target audio_track0 video_track0 =
     (let audio_track = clamp_track audio_track0 (audio info);
          video_track = clamp_track video_track0 (video info);
          names = muxable_names g Ts;
          copyable = (\<lambda>kind codec accepted.
             codec \<in> set accepted
             \<and> is_some_and (codec_to_caps_name kind codec) (\<lambda>n. n \<in> set names));
          decodable = (\<lambda>kind codec. is_some_and (codec_to_caps_name kind codec) (g_can_decode g));
          selected_v = get (video info) video_track;
          vmode = (if is_some_and selected_v (\<lambda>v. copyable ''video'' (v_codec v) (t_video target))
                   then Copy
                   else if g_h264_encoder g \<noteq> None
                        \<and> is_some_and selected_v (\<lambda>v. decodable ''video'' (v_codec v))
                   then Encode else Off);
          selected = get (audio info) audio_track;
          amode = (if is_some_and selected (\<lambda>a. copyable ''audio'' (a_codec a) (t_audio target))
                   then Copy
                   else if g_aac_encoder g \<noteq> None
                        \<and> is_some_and selected (\<lambda>a. decodable ''audio'' (a_codec a))
                   then Encode else Off)
      in RemuxPlan_default\<lparr>pl_video := vmode, pl_audio := amode,
           pl_audio_track := audio_track, pl_video_track := video_track\<rparr>)"

text \<open>The arrow and the middle dot of the verdict texts are the UTF-8 bytes of the source's
  characters.\<close>

definition arrow :: string where
  "arrow = [CHR '' '', CHR 0xE2, CHR 0x86, CHR 0x92, CHR '' '']"

definition kind_summary ::
    "gst \<Rightarrow> string list \<Rightarrow> string \<Rightarrow> string list \<Rightarrow> StreamMode \<Rightarrow> string \<Rightarrow> string" where
  "kind_summary g names kind codecs mode target_codec =
     (case mode of
        Copy \<Rightarrow>
          (case find (\<lambda>c. is_some_and (codec_to_caps_name kind c) (\<lambda>n. n \<in> set names)) codecs of
             Some c \<Rightarrow> c @ '' copy'' | None \<Rightarrow> ''copy'')
      | Encode \<Rightarrow>
          (let src = unwrap_or
             (find (\<lambda>c. is_some_and (codec_to_caps_name kind c) (g_can_decode g)) codecs) kind
           in src @ arrow @ target_codec @ '' (transcoded)'')
      | Off \<Rightarrow> (case codecs of [] \<Rightarrow> ''none'' | c # _ \<Rightarrow> c @ '' dropped (needs transcoder)''))"

definition plan_summary :: "gst \<Rightarrow> MediaInfo \<Rightarrow> RemuxPlan \<Rightarrow> string \<times> string" where
  "plan_summary g info plan =
     (let names = muxable_names g Ts in
      (kind_summary g names ''video''
         (case get (video info) (pl_video_track plan) of None \<Rightarrow> [] | Some v \<Rightarrow> [v_codec v])
         (pl_video plan) (VideoTarget_as_str (pl_video_codec plan)),
       kind_summary g names ''audio''
         (case get (audio info) (pl_audio_track plan) of None \<Rightarrow> [] | Some a \<Rightarrow> [a_codec a])
         (pl_audio plan) (AudioTarget_as_str (pl_audio_codec plan))))"

text \<open>\<open>exact_audio_layout\<close> of \<open>remux/audio.rs\<close>.\<close>

definition exact_audio_layout :: "gst \<Rightarrow> MediaInfo \<Rightarrow> RemuxPlan \<Rightarrow> AudioLayout option" where
  "exact_audio_layout g info plan =
     (if pl_audio plan \<noteq> Encode then None
      else Option.bind (get (audio info) (pl_audio_track plan)) (\<lambda>a.
        let source = layout_from_stream (a_channels a) (a_layout a) in
        Option.bind
          (case pl_audio_codec plan of
             Aac \<Rightarrow> Option.bind (g_aac_encoder g) (\<lambda>encoder.
                Option.bind (aac_input_layout (g_aac_accepts g) encoder (al_channels source)
                               (al_channel_mask source) (pl_max_channels plan))
                  (\<lambda>(channels, cmask). map_option (layout_new channels) cmask))
           | Opus \<Rightarrow> Some (opus_output_layout source (pl_max_channels plan)))
          (\<lambda>output. then_some (output \<in> set (resolved_measured_layouts source source)) output)))"

section \<open>Properties\<close>

interpretation VideoTarget: name_codec VideoTarget_as_str VideoTarget_from_str
proof
  show "VideoTarget_from_str (VideoTarget_as_str x) = x" for x
    by (cases x) (simp_all add: VideoTarget_from_str_def)
qed

interpretation AudioTarget: name_codec AudioTarget_as_str AudioTarget_from_str
proof
  show "AudioTarget_from_str (AudioTarget_as_str x) = x" for x
    by (cases x) (simp_all add: AudioTarget_from_str_def)
qed

interpretation SegmentFormat: name_codec SegmentFormat_as_str SegmentFormat_from_str
proof
  show "SegmentFormat_from_str (SegmentFormat_as_str x) = x" for x
    by (cases x) (simp_all add: SegmentFormat_from_str_def)
qed

interpretation StreamMode: name_codec mode_arg parse_mode
proof
  show "parse_mode (mode_arg x) = x" for x
    by (cases x) (simp_all add: parse_mode_def)
qed

lemmas codec_roundtrips [codec_simps] =
  VideoTarget.from_as AudioTarget.from_as SegmentFormat.from_as StreamMode.from_as

lemma clamp_track_get: "xs \<noteq> [] \<Longrightarrow> get xs (clamp_track i xs) \<noteq> None"
  by (cases xs) (auto simp: get_def clamp_track_def)

lemma clamp_track_in_range: "i < length xs \<Longrightarrow> clamp_track i xs = i"
  by (simp add: clamp_track_def)

lemma get_clamp_None: "get xs (clamp_track i xs) = None \<longleftrightarrow> xs = []"
proof
  show "get xs (clamp_track i xs) = None \<Longrightarrow> xs = []" using clamp_track_get [of xs i] by blast
qed (simp add: get_def)

lemma caps_muxable_Ts_not_av1_vp9:
  assumes "\<And>a b. g_intersect g a b \<Longrightarrow> caps_name a = caps_name b"
    and "caps_name c \<in> {''video/x-av1'', ''video/x-vp9''}"
  shows "\<not> caps_muxable g c Ts"
  using assms by (fastforce simp: caps_muxable_def muxable_caps_def list_ex_iff)

end
