(* ===== verification/Ass_Ladder.thy ===== *)
theory Ass_Ladder
  imports Media_Model
begin

text \<open>
  How a styled (ASS/SSA) script reaches a client: the ordered ladder of
  \<open>crates/kahawai-media/src/negotiate.rs\<close> (\<open>AssTier\<close>, \<open>AssPolicy\<close>). The user's stored preference is a
  comma-separated list of names; \<open>parse_order\<close> turns any such text into a full permutation of the
  three fallback tiers, and \<open>choose\<close> takes the first tier the client and the fleet can honour.
\<close>

section \<open>Definitions\<close>

datatype AssTier = Native | Flatten | Overlay | Burn

fun AssTier_as_str :: "AssTier \<Rightarrow> string" where
  "AssTier_as_str Native = ''native''"
| "AssTier_as_str Flatten = ''flatten''"
| "AssTier_as_str Overlay = ''overlay''"
| "AssTier_as_str Burn = ''burn''"

definition parse_fallback :: "string \<Rightarrow> AssTier option" where
  "parse_fallback s =
     (let t = trim s in
      if t = ''flatten'' then Some Flatten
      else if t = ''overlay'' then Some Overlay
      else if t = ''burn'' then Some Burn
      else None)"

record AssPolicy =
  ap_order :: "AssTier list"
  ap_burn_capable :: bool
  ap_overlay_ready :: bool

definition AssPolicy_default :: AssPolicy where
  "AssPolicy_default =
     \<lparr>ap_order = [Flatten, Overlay, Burn], ap_burn_capable = False, ap_overlay_ready = False\<rparr>"

fun permits :: "AssPolicy \<Rightarrow> CapabilityProfile \<Rightarrow> AssTier \<Rightarrow> bool" where
  "permits ap profile Native = p_ass_render profile"
| "permits ap profile Flatten = p_vtt_render profile"
| "permits ap profile Overlay = (p_graphics_overlay profile \<and> ap_overlay_ready ap)"
| "permits ap profile Burn = ap_burn_capable ap"

text \<open>\<open>AssPolicy::choose\<close>.\<close>

definition choose_tier :: "AssPolicy \<Rightarrow> CapabilityProfile \<Rightarrow> AssTier option" where
  "choose_tier ap profile =
     (if p_ass_render profile then Some Native
      else opt_or (find (permits ap profile) (ap_order ap))
                  (then_some (p_vtt_render profile) Flatten))"

definition overlay_reachable :: "AssPolicy \<Rightarrow> CapabilityProfile \<Rightarrow> bool" where
  "overlay_reachable ap profile =
     (if p_ass_render profile \<or> \<not> p_graphics_overlay profile then False
      else choose_tier (ap\<lparr>ap_overlay_ready := True\<rparr>) profile = Some Overlay)"

text \<open>The two loops of \<open>AssPolicy::parse_order\<close> both push a tier that is not there yet.\<close>

definition push_new :: "AssTier list \<Rightarrow> AssTier \<Rightarrow> AssTier list" where
  "push_new out t = (if t \<in> set out then out else out @ [t])"

definition parse_order :: "string \<Rightarrow> AssTier list" where
  "parse_order value =
     (let out = foldl (\<lambda>out part.
            case parse_fallback part of Some t \<Rightarrow> push_new out t | None \<Rightarrow> out)
          [] (split_on (CHR '','') value)
      in foldl push_new out [Flatten, Overlay, Burn])"

section \<open>Lemmas\<close>

lemma parse_fallback_not_native: "parse_fallback s \<noteq> Some Native"
  by (simp add: parse_fallback_def Let_def)

lemma push_new_props:
  "distinct out \<Longrightarrow> distinct (push_new out t)" "set (push_new out t) = insert t (set out)"
  by (auto simp: push_new_def)

lemma parse_order_loop:
  assumes "distinct out" and "Native \<notin> set out"
  shows "distinct (foldl (\<lambda>out part.
            case parse_fallback part of Some t \<Rightarrow> push_new out t | None \<Rightarrow> out) out parts)
       \<and> Native \<notin> set (foldl (\<lambda>out part.
            case parse_fallback part of Some t \<Rightarrow> push_new out t | None \<Rightarrow> out) out parts)"
  using assms
proof (induction parts arbitrary: out)
  case Nil
  then show ?case by simp
next
  case (Cons p ps)
  let ?out = "case parse_fallback p of Some t \<Rightarrow> push_new out t | None \<Rightarrow> out"
  have "distinct ?out \<and> Native \<notin> set ?out"
    using Cons.prems parse_fallback_not_native [of p]
    by (auto simp: push_new_props split: option.splits)
  with Cons.IH [of ?out] show ?case by simp
qed

lemma parse_order_perm: "distinct (parse_order value) \<and> set (parse_order value) = {Flatten, Overlay, Burn}"
proof -
  let ?loop = "foldl (\<lambda>out part.
      case parse_fallback part of Some t \<Rightarrow> push_new out t | None \<Rightarrow> out)
      [] (split_on (CHR '','') value)"
  have loop: "distinct ?loop" "Native \<notin> set ?loop"
    using parse_order_loop [of "[]"] by auto
  have "set ?loop \<subseteq> {Flatten, Overlay, Burn}"
  proof
    fix t
    assume "t \<in> set ?loop"
    with loop(2) show "t \<in> {Flatten, Overlay, Burn}" by (cases t) auto
  qed
  with loop(1) show ?thesis by (auto simp: parse_order_def Let_def push_new_props)
qed

lemma choose_tier_permits:
  assumes "choose_tier ap profile = Some t"
  shows "permits ap profile t"
proof (cases "p_ass_render profile")
  case True
  with assms show ?thesis by (simp add: choose_tier_def)
next
  case False
  show ?thesis
  proof (cases "find (permits ap profile) (ap_order ap)")
    case None
    with assms False show ?thesis by (auto simp: choose_tier_def)
  next
    case (Some u)
    with assms False have "t = u" by (simp add: choose_tier_def)
    with Some show ?thesis by (auto simp: find_Some_iff)
  qed
qed

lemma choose_tier_None:
  assumes "choose_tier ap profile = None"
  shows "\<not> p_ass_render profile \<and> \<not> p_vtt_render profile
       \<and> (\<forall>t \<in> set (ap_order ap). \<not> permits ap profile t)"
  using assms
  by (auto simp: choose_tier_def opt_or_def find_None_iff split: if_splits option.splits)

section \<open>Properties\<close>

text \<open>Whatever text is stored as the user's fallback preference (unknown names, repetitions,
  omissions, spaces), \<open>parse_order\<close> yields each of the three fallback tiers exactly once and never
  \<open>Native\<close>: the preference reorders the ladder and cannot remove a rung.\<close>

theorem parse_order_permutation: "mset (parse_order value) = {#Flatten, Overlay, Burn#}"
proof -
  note perm = parse_order_perm [of "value"]
  have "mset (parse_order value) = mset_set (set (parse_order value))"
    by (rule mset_set_set [symmetric]) (use perm in simp)
  also have "\<dots> = mset_set (set [Flatten, Overlay, Burn])"
    using perm by simp
  also have "\<dots> = mset [Flatten, Overlay, Burn]"
    by (rule mset_set_set) simp
  finally show ?thesis by (simp add: add_mset_commute)
qed

text \<open>With a stored order, the ladder answers \<open>None\<close> exactly when no rung is left: the client
  renders neither ASS nor text, no box can burn, and either the client composites no bitmaps or no
  rasterised track is ready. When it answers a fallback tier, that tier is honoured by the client
  and the fleet and every tier the user ordered before it is not.\<close>

theorem choose_tier_first_permitted:
  assumes order: "ap_order ap = parse_order value"
  shows "(choose_tier ap profile = None \<longleftrightarrow>
            \<not> p_ass_render profile \<and> \<not> p_vtt_render profile \<and> \<not> ap_burn_capable ap
            \<and> \<not> (p_graphics_overlay profile \<and> ap_overlay_ready ap))
       \<and> (\<forall>t. choose_tier ap profile = Some t \<longrightarrow>
            permits ap profile t
            \<and> (t \<noteq> Native \<longrightarrow>
                (\<exists>i < length (ap_order ap). ap_order ap ! i = t
                   \<and> (\<forall>j < i. \<not> permits ap profile (ap_order ap ! j)))))"
proof -
  have tiers: "set (ap_order ap) = {Flatten, Overlay, Burn}"
    using order parse_order_perm [of "value"] by simp
  have none: "choose_tier ap profile = None \<longleftrightarrow>
      \<not> p_ass_render profile \<and> (\<forall>t \<in> set (ap_order ap). \<not> permits ap profile t)"
  proof (cases "find (permits ap profile) (ap_order ap)")
    case None
    then have no: "\<forall>t \<in> set (ap_order ap). \<not> permits ap profile t"
      by (simp add: find_None_iff)
    with tiers have "\<not> p_vtt_render profile" by simp
    with None no show ?thesis by (simp add: choose_tier_def)
  next
    case (Some u)
    then have "u \<in> set (ap_order ap)" "permits ap profile u" by (auto simp: find_Some_iff)
    with Some show ?thesis by (auto simp: choose_tier_def)
  qed
  moreover have "permits ap profile t \<and> (t \<noteq> Native \<longrightarrow>
        (\<exists>i < length (ap_order ap). ap_order ap ! i = t
           \<and> (\<forall>j < i. \<not> permits ap profile (ap_order ap ! j))))"
    if t: "choose_tier ap profile = Some t" for t
  proof -
    have "\<exists>i < length (ap_order ap). ap_order ap ! i = t
           \<and> (\<forall>j < i. \<not> permits ap profile (ap_order ap ! j))" if "t \<noteq> Native"
    proof -
      from t that have "\<not> p_ass_render profile" by (auto simp: choose_tier_def)
      moreover have "t \<in> set (ap_order ap)"
        unfolding tiers using that by (cases t) simp_all
      then have "find (permits ap profile) (ap_order ap) \<noteq> None"
        using choose_tier_permits [OF t] by (metis find_None_iff)
      ultimately have "find (permits ap profile) (ap_order ap) = Some t"
        using t by (auto simp: choose_tier_def)
      then show ?thesis unfolding find_Some_iff by blast
    qed
    with choose_tier_permits [OF t] show ?thesis by blast
  qed
  ultimately show ?thesis unfolding tiers by (simp add: conj_commute)
qed

text \<open>Witness of C29: the stored text \<open>burn, overlay\<close> on a client that renders text only, with no
  box that can burn: the ladder falls through to \<open>Flatten\<close>.\<close>

theorem choose_tier_first_permitted_witness:
  "let ap = \<lparr>ap_order = parse_order ''burn, overlay'', ap_burn_capable = False,
             ap_overlay_ready = False\<rparr>
   in ap_order ap = [Burn, Overlay, Flatten]
    \<and> choose_tier ap CapabilityProfile_default = Some Flatten
    \<and> permits ap CapabilityProfile_default Flatten"
proof -
  let ?ap = "\<lparr>ap_order = parse_order ''burn, overlay'', ap_burn_capable = False,
             ap_overlay_ready = False\<rparr>"
  have order: "ap_order ?ap = [Burn, Overlay, Flatten]" by code_simp
  have choice: "choose_tier ?ap CapabilityProfile_default = Some Flatten" by code_simp
  have "permits ?ap CapabilityProfile_default Flatten"
    using choose_tier_first_permitted [of ?ap "''burn, overlay''" CapabilityProfile_default] choice
    by simp
  with order choice show ?thesis by simp
qed

text \<open>The hub rasterises a script only when that can change what the client gets:
  \<open>overlay_reachable\<close> holds exactly when the ladder would answer \<open>Overlay\<close> once a rasterised track
  is ready and the client does not render ASS itself.\<close>

theorem overlay_reachable_iff:
  "overlay_reachable ap profile \<longleftrightarrow>
     choose_tier (ap\<lparr>ap_overlay_ready := True\<rparr>) profile = Some Overlay"
proof -
  have "permits (ap\<lparr>ap_overlay_ready := True\<rparr>) profile Overlay"
    if "choose_tier (ap\<lparr>ap_overlay_ready := True\<rparr>) profile = Some Overlay"
    using that by (rule choose_tier_permits)
  then show ?thesis
    by (auto simp: overlay_reachable_def choose_tier_def split: if_splits)
qed

end
