(* ===== verification/Negotiate.thy ===== *)
theory Negotiate
  imports Remux_Plan Ass_Ladder
begin

text \<open>
  The negotiation engine of \<open>crates/kahawai-media/src/negotiate.rs\<close>: from the client's capability
  profile, the facts of one source and the capabilities of the executors to a plan per elementary
  stream, its cost, the declared target duration and the verdict texts.

  The argument list of \<open>negotiate_for_executors\<close> is the record \<open>neg_input\<close>; each local value of the
  function body is one definition over it, in the order of the body, and
  \<open>negotiate_for_executors_impl\<close> puts them together. GStreamer is the argument \<open>g\<close>.
\<close>

section \<open>Definitions\<close>

subsection \<open>Costs and results\<close>

datatype Cost = C_Direct | C_Copy | C_AudioEncode | C_VideoEncode | C_Unplayable

fun cost_rank :: "Cost \<Rightarrow> nat" where
  "cost_rank C_Direct = 0"
| "cost_rank C_Copy = 1"
| "cost_rank C_AudioEncode = 2"
| "cost_rank C_VideoEncode = 3"
| "cost_rank C_Unplayable = 4"

instantiation Cost :: linorder
begin

definition less_eq_Cost :: "Cost \<Rightarrow> Cost \<Rightarrow> bool" where
  "less_eq_Cost a b = (cost_rank a \<le> cost_rank b)"

definition less_Cost :: "Cost \<Rightarrow> Cost \<Rightarrow> bool" where
  "less_Cost a b = (cost_rank a < cost_rank b)"

instance
proof
  fix x y z :: Cost
  show "x < y \<longleftrightarrow> x \<le> y \<and> \<not> y \<le> x" by (auto simp: less_Cost_def less_eq_Cost_def)
  show "x \<le> x" by (simp add: less_eq_Cost_def)
  show "x \<le> y \<Longrightarrow> y \<le> z \<Longrightarrow> x \<le> z" by (simp add: less_eq_Cost_def)
  show "x \<le> y \<Longrightarrow> y \<le> x \<Longrightarrow> x = y" by (cases x; cases y) (simp_all add: less_eq_Cost_def)
  show "x \<le> y \<or> y \<le> x" by (auto simp: less_eq_Cost_def)
qed

end

fun Cost_as_str :: "Cost \<Rightarrow> string" where
  "Cost_as_str C_Direct = ''direct''"
| "Cost_as_str C_Copy = ''copy''"
| "Cost_as_str C_AudioEncode = ''audio_encode''"
| "Cost_as_str C_VideoEncode = ''video_encode''"
| "Cost_as_str C_Unplayable = ''unplayable''"

datatype SubtitleTier = ST_Text | ST_Convert | ST_Graphics | ST_Ocr | ST_Burn | ST_Unavailable

record SubtitleVerdict =
  sub_index :: nat
  sub_track_id :: "int option"
  sub_format :: string
  sub_language :: "string option"
  sub_tier :: SubtitleTier
  sub_note :: string

record SourcePlan =
  sp_direct :: bool
  sp_plan :: RemuxPlan
  sp_burn_sidecar :: "nat option"
  sp_burn_ass_sidecar :: "nat option"
  sp_cost :: Cost
  sp_target_duration_secs :: u32
  sp_incomplete :: bool
  sp_video_verdict :: string
  sp_audio_verdict :: string
  sp_subtitles :: "SubtitleVerdict list"

datatype BurnPick = Embedded nat | Sidecar nat

subsection \<open>The declared target duration\<close>

definition UNKNOWN_GAP_TARGET_SECS :: u32 where "UNKNOWN_GAP_TARGET_SECS = 16"

definition declared_target_secs :: "TargetDuration \<Rightarrow> u32 option \<Rightarrow> bool \<Rightarrow> u32" where
  "declared_target_secs mode max_keyframe_gap_ms video_is_encoded =
     (if video_is_encoded then
        max DEFAULT_TARGET_DURATION_SECS
          (case mode of Short m \<Rightarrow> min m DEFAULT_TARGET_DURATION_SECS | _ \<Rightarrow> 0)
      else (case mode of
        Ignore \<Rightarrow> DEFAULT_TARGET_DURATION_SECS
      | _ \<Rightarrow> (case max_keyframe_gap_ms of
            Some gap_ms \<Rightarrow>
              (let bound_ms = (ucast FRAGMENT_TARGET_SECS :: u64) * 1000 + ucast gap_ms in
               max (ucast ((bound_ms + 500) div 1000)) DEFAULT_TARGET_DURATION_SECS)
          | None \<Rightarrow> UNKNOWN_GAP_TARGET_SECS)))"

subsection \<open>What a declared capability admits\<close>

definition H264_PROFILES :: "string list" where
  "H264_PROFILES =
     [''constrained-baseline'', ''baseline'', ''main'', ''high'', ''high-10'', ''high-4:2:2'',
      ''high-4:4:4'']"

definition HEVC_PROFILES :: "string list" where
  "HEVC_PROFILES = [''main'', ''main-still-picture'', ''main-10'']"

definition profile_rank :: "string \<Rightarrow> string \<Rightarrow> nat option" where
  "profile_rank codec profile =
     (if codec = ''h264'' then position (\<lambda>p. p = profile) H264_PROFILES
      else if codec = ''hevc'' then position (\<lambda>p. p = profile) HEVC_PROFILES
      else None)"

text \<open>The product and the sum wrap at 32 bits, as in a release build.\<close>

definition level_num :: "string \<Rightarrow> u32 option" where
  "level_num level =
     (case split_on (CHR ''.'') level of
        [] \<Rightarrow> None
      | m # rest \<Rightarrow>
          Option.bind (parse_u32 m) (\<lambda>major.
          Option.bind (case rest of [] \<Rightarrow> Some 0 | n # _ \<Rightarrow> parse_u32 n) (\<lambda>minor.
          Some (major * 10 + minor))))"

text \<open>\<open>if let (Some(h), Some(m)) = (x, y) && h > m\<close>.\<close>

definition exceeds :: "'a::linorder option \<Rightarrow> 'a option \<Rightarrow> bool" where
  "exceeds x y = (case (x, y) of (Some h, Some m) \<Rightarrow> m < h | _ \<Rightarrow> False)"

definition cap_admits :: "string \<Rightarrow> VideoCap \<Rightarrow> VideoStream \<Rightarrow> bool" where
  "cap_admits codec cap v =
     (if exceeds (v_bit_depth v) (c_max_bit_depth cap) then False
      else if exceeds (Option.bind (v_profile v) (profile_rank codec))
                      (Option.bind (c_max_profile cap) (profile_rank codec)) then False
      else if exceeds (Option.bind (v_level v) level_num)
                      (Option.bind (c_max_level cap) level_num) then False
      else True)"

definition video_fits :: "CapabilityProfile \<Rightarrow> VideoStream \<Rightarrow> bool" where
  "video_fits profile v =
     (if \<not> list_ex (\<lambda>c. cap_admits (v_codec v) c v)
             (filter (\<lambda>c. c_codec c = v_codec v) (p_video profile)) then False
      else if is_some_and (p_max_height profile) (\<lambda>max_h. v_height v > max_h) then False
      else if is_some_and (p_max_fps profile) (\<lambda>max_fps.
                is_some_and (v_fps v) (\<lambda>(n, d). d > 0 \<and> n div d > max_fps)) then False
      else True)"

definition codec_depth_limit :: "CapabilityProfile \<Rightarrow> string \<Rightarrow> u32 option" where
  "codec_depth_limit profile codec =
     (let caps = filter (\<lambda>c. c_codec c = codec) (p_video profile) in
      if list_ex (\<lambda>c. c_max_bit_depth c = None) caps then None
      else (case filter_map c_max_bit_depth caps of
              [] \<Rightarrow> None
            | d # ds \<Rightarrow> Some (fold max ds d)))"

subsection \<open>Burning subtitles\<close>

definition is_image_format :: "string \<Rightarrow> bool" where
  "is_image_format f = (f \<in> {''pgs'', ''vobsub'', ''dvdsub''})"

definition is_ass_format :: "string \<Rightarrow> bool" where
  "is_ass_format f = (f \<in> {''ass'', ''ssa''})"

definition needs_burn :: "bool list \<Rightarrow> nat \<times> SubtitleStream \<Rightarrow> bool" where
  "needs_burn ocr_text = (\<lambda>(i, s). is_image_format (s_format s) \<and> \<not> unwrap_or (get ocr_text i) False)"

definition burn_wanted :: "CapabilityProfile \<Rightarrow> MediaInfo \<Rightarrow> bool \<Rightarrow> bool list \<Rightarrow> bool" where
  "burn_wanted profile info burn_capable ocr_text =
     (burn_capable \<and> \<not> p_graphics_overlay profile
      \<and> list_ex (needs_burn ocr_text) (List.enumerate 0 (subtitles info)))"

definition ass_burn_wanted :: "CapabilityProfile \<Rightarrow> MediaInfo \<Rightarrow> AssPolicy \<Rightarrow> bool" where
  "ass_burn_wanted profile info ap =
     (choose_tier ap profile = Some Burn
      \<and> (list_ex (\<lambda>s. is_ass_format (s_format s)) (subtitles info)
         \<or> list_ex (\<lambda>s. is_ass_format (x_format s)) (external_subtitles info)))"

subsection \<open>The arguments and the local values of the decision\<close>

record neg_input =
  ni_profile :: CapabilityProfile
  ni_info :: MediaInfo
  ni_audio_track :: nat
  ni_video_track :: nat
  ni_single_part :: bool
  ni_est_kbps :: "u32 option"
  ni_tonemap :: bool
  ni_burn_capable :: bool
  ni_ocr_text :: "bool list"
  ni_burn_pick :: "BurnPick option"
  ni_ass :: AssPolicy
  ni_video_targets :: "string list"
  ni_full_audio_targets :: "string list"
  ni_local_audio_targets :: "string list"
  ni_force_audio_encode :: bool

definition n_audio_track :: "neg_input \<Rightarrow> nat" where
  "n_audio_track ni = clamp_track (ni_audio_track ni) (audio (ni_info ni))"

definition n_video_track :: "neg_input \<Rightarrow> nat" where
  "n_video_track ni = clamp_track (ni_video_track ni) (video (ni_info ni))"

definition over_cap :: "neg_input \<Rightarrow> bool" where
  "over_cap ni = is_some_and (p_max_bandwidth_kbps (ni_profile ni))
     (\<lambda>c. is_some_and (ni_est_kbps ni) (\<lambda>e. e > c))"

definition n_v :: "neg_input \<Rightarrow> VideoStream option" where
  "n_v ni = get (video (ni_info ni)) (n_video_track ni)"

definition n_a :: "neg_input \<Rightarrow> AudioStream option" where
  "n_a ni = get (audio (ni_info ni)) (n_audio_track ni)"

definition is_hdr10 :: "VideoStream \<Rightarrow> bool" where
  "is_hdr10 s = (v_hdr s = Some ''hdr10'')"

definition hdr_veto :: "neg_input \<Rightarrow> bool" where
  "hdr_veto ni = (ni_tonemap ni \<and> \<not> p_hdr (ni_profile ni) \<and> is_some_and (n_v ni) is_hdr10)"

definition v_client_ok :: "neg_input \<Rightarrow> bool" where
  "v_client_ok ni =
     (is_some_and (n_v ni) (video_fits (ni_profile ni)) \<and> \<not> over_cap ni \<and> \<not> hdr_veto ni)"

definition a_client_ok :: "neg_input \<Rightarrow> bool" where
  "a_client_ok ni = is_some_and (n_a ni) (\<lambda>a.
     a_codec a \<in> set (p_audio (ni_profile ni))
     \<and> (p_max_audio_channels (ni_profile ni) = 0
        \<or> a_channels a \<le> p_max_audio_channels (ni_profile ni)))"

definition container_ok :: "neg_input \<Rightarrow> bool" where
  "container_ok ni = is_some_and (container (ni_info ni))
     (\<lambda>c. c \<in> set (p_containers (ni_profile ni)))"

fun picked :: "neg_input \<Rightarrow> BurnPick \<Rightarrow> string option" where
  "picked ni (Embedded i) = map_option s_format (get (subtitles (ni_info ni)) i)"
| "picked ni (Sidecar i) = map_option x_format (get (external_subtitles (ni_info ni)) i)"

definition forced_burn :: "neg_input \<Rightarrow> BurnPick option" where
  "forced_burn ni = opt_filter (\<lambda>p.
     if picked ni p \<in> {Some ''pgs'', Some ''dvdsub''}
     then ni_burn_capable ni \<and> (case p of Embedded _ \<Rightarrow> True | Sidecar _ \<Rightarrow> False)
     else if picked ni p = Some ''vobsub'' then ni_burn_capable ni
     else False) (ni_burn_pick ni)"

definition forced_embedded :: "neg_input \<Rightarrow> nat option" where
  "forced_embedded ni = (case forced_burn ni of Some (Embedded i) \<Rightarrow> Some i | _ \<Rightarrow> None)"

definition picked_ass :: "neg_input \<Rightarrow> BurnPick option" where
  "picked_ass ni =
     opt_filter (\<lambda>p. is_some_and (picked ni p) is_ass_format) (ni_burn_pick ni)"

definition n_direct :: "neg_input \<Rightarrow> bool" where
  "n_direct ni =
     (ni_single_part ni \<and> container_ok ni
      \<and> (n_v ni = None \<or> v_client_ok ni)
      \<and> (n_a ni = None \<or> a_client_ok ni)
      \<and> (n_v ni \<noteq> None \<or> n_a ni \<noteq> None)
      \<and> \<not> burn_wanted (ni_profile ni) (ni_info ni) (ni_burn_capable ni) (ni_ocr_text ni)
      \<and> \<not> ass_burn_wanted (ni_profile ni) (ni_info ni) (ni_ass ni)
      \<and> forced_burn ni = None
      \<and> \<not> ni_force_audio_encode ni)"

definition n_burn_subtitle :: "neg_input \<Rightarrow> nat option" where
  "n_burn_subtitle ni =
     opt_or (forced_embedded ni)
       (if \<not> p_graphics_overlay (ni_profile ni) \<and> ni_burn_capable ni
        then position (needs_burn (ni_ocr_text ni)) (List.enumerate 0 (subtitles (ni_info ni)))
        else None)"

text \<open>\<open>(burn_ass_track, burn_ass_file)\<close>.\<close>

definition n_burn_ass :: "neg_input \<Rightarrow> nat option \<times> nat option" where
  "n_burn_ass ni =
     (if \<not> ass_burn_wanted (ni_profile ni) (ni_info ni) (ni_ass ni) then (None, None)
      else (case picked_ass ni of
        Some (Embedded i) \<Rightarrow> (Some i, None)
      | Some (Sidecar i) \<Rightarrow> (None, Some i)
      | None \<Rightarrow>
          (case position (\<lambda>s. is_ass_format (s_format s)) (subtitles (ni_info ni)) of
             Some i \<Rightarrow> (Some i, None)
           | None \<Rightarrow>
               (None, position (\<lambda>s. is_ass_format (x_format s)) (external_subtitles (ni_info ni))))))"

definition burn_active :: "neg_input \<Rightarrow> bool" where
  "burn_active ni =
     (n_burn_subtitle ni \<noteq> None \<or> forced_burn ni \<noteq> None
      \<or> fst (n_burn_ass ni) \<noteq> None \<or> snd (n_burn_ass ni) \<noteq> None)"

subsection \<open>The two candidate containers\<close>

fun v_ladder :: "SegmentFormat \<Rightarrow> VideoTarget list" where
  "v_ladder Ts = [H264]"
| "v_ladder Fmp4 = [H264, Hevc, Av1]"

fun a_ladder :: "SegmentFormat \<Rightarrow> AudioTarget list" where
  "a_ladder Ts = [Aac]"
| "a_ladder Fmp4 = [Aac, Opus]"

definition muxable :: "gst \<Rightarrow> SegmentFormat \<Rightarrow> string \<Rightarrow> string \<Rightarrow> bool" where
  "muxable g fmt kind codec =
     is_some_and (codec_to_caps kind codec) (\<lambda>c. caps_muxable g c fmt)"

definition decodable :: "gst \<Rightarrow> string \<Rightarrow> string \<Rightarrow> bool" where
  "decodable g kind codec = is_some_and (codec_to_caps_name kind codec) (g_can_decode g)"

definition takes_video :: "neg_input \<Rightarrow> VideoTarget \<Rightarrow> bool" where
  "takes_video ni t =
     (list_ex (\<lambda>c. c_codec c = VideoTarget_as_str t) (p_video (ni_profile ni))
      \<and> VideoTarget_as_str t \<in> set (ni_video_targets ni))"

definition takes_audio :: "neg_input \<Rightarrow> string list \<Rightarrow> AudioTarget \<Rightarrow> bool" where
  "takes_audio ni audio_targets t =
     (AudioTarget_as_str t \<in> set (p_audio (ni_profile ni))
      \<and> AudioTarget_as_str t \<in> set audio_targets)"

record candidate_plan =
  cd_video :: StreamMode
  cd_vt :: VideoTarget
  cd_audio :: StreamMode
  cd_at :: AudioTarget
  cd_key :: "nat \<times> Cost"

definition audio_pool :: "neg_input \<Rightarrow> StreamMode \<Rightarrow> string list" where
  "audio_pool ni vmode =
     (if vmode = Encode then ni_full_audio_targets ni else ni_local_audio_targets ni)"

definition cand_vt :: "neg_input \<Rightarrow> SegmentFormat \<Rightarrow> VideoTarget" where
  "cand_vt ni fmt = unwrap_or (find (takes_video ni) (v_ladder fmt)) H264"

definition cand_video :: "gst \<Rightarrow> neg_input \<Rightarrow> SegmentFormat \<Rightarrow> StreamMode" where
  "cand_video g ni fmt =
     (let client_takes_video_target = list_ex (takes_video ni) (v_ladder fmt) in
      if is_some_and (n_v ni) (\<lambda>s. v_client_ok ni \<and> muxable g fmt ''video'' (v_codec s)
            \<and> \<not> burn_active ni) then Copy
      else if client_takes_video_target
            \<and> is_some_and (n_v ni) (\<lambda>s. decodable g ''video'' (v_codec s)) then Encode
      else Off)"

definition cand_at :: "gst \<Rightarrow> neg_input \<Rightarrow> SegmentFormat \<Rightarrow> AudioTarget" where
  "cand_at g ni fmt =
     unwrap_or (find (takes_audio ni (audio_pool ni (cand_video g ni fmt))) (a_ladder fmt)) Aac"

definition cand_audio :: "gst \<Rightarrow> neg_input \<Rightarrow> SegmentFormat \<Rightarrow> StreamMode" where
  "cand_audio g ni fmt =
     (let audio_targets = audio_pool ni (cand_video g ni fmt);
          client_takes_audio_target = list_ex (takes_audio ni audio_targets) (a_ladder fmt) in
      if \<not> ni_force_audio_encode ni
         \<and> is_some_and (n_a ni) (\<lambda>s. a_client_ok ni \<and> muxable g fmt ''audio'' (a_codec s))
      then Copy
      else if client_takes_audio_target
            \<and> is_some_and (n_a ni) (\<lambda>s. decodable g ''audio'' (a_codec s)) then Encode
      else Off)"

definition candidate :: "gst \<Rightarrow> neg_input \<Rightarrow> SegmentFormat \<Rightarrow> candidate_plan" where
  "candidate g ni fmt =
     (let vmode = cand_video g ni fmt;
          amode = cand_audio g ni fmt;
          cost =
            (if n_direct ni then C_Direct
             else if (vmode = Off \<and> amode = Off) \<or> (n_v ni \<noteq> None \<and> vmode = Off) then C_Unplayable
             else if vmode = Encode then C_VideoEncode
             else if amode = Encode then C_AudioEncode
             else C_Copy);
          dropped = (if n_a ni \<noteq> None \<and> amode = Off then 1 else 0)
      in \<lparr>cd_video = vmode, cd_vt = cand_vt ni fmt, cd_audio = amode, cd_at = cand_at g ni fmt,
          cd_key = (dropped, cost)\<rparr>)"

text \<open>The order of the pairs \<open>(u8, Cost)\<close>.\<close>

definition key_less :: "nat \<times> Cost \<Rightarrow> nat \<times> Cost \<Rightarrow> bool" where
  "key_less a b = (fst a < fst b \<or> fst a = fst b \<and> snd a < snd b)"

definition ts_delivers_h264 :: "gst \<Rightarrow> neg_input \<Rightarrow> bool" where
  "ts_delivers_h264 g ni =
     (case cd_video (candidate g ni Ts) of
        Off \<Rightarrow> True
      | Copy \<Rightarrow> is_some_and (n_v ni) (\<lambda>s. v_codec s = ''h264'')
      | Encode \<Rightarrow> cd_vt (candidate g ni Ts) = H264)"

definition ts_delivers_playable_audio :: "gst \<Rightarrow> neg_input \<Rightarrow> bool" where
  "ts_delivers_playable_audio g ni =
     (case cd_audio (candidate g ni Ts) of
        Copy \<Rightarrow> \<not> is_some_and (n_a ni) (\<lambda>s. a_codec s \<in> {''opus'', ''flac'', ''vorbis''})
      | _ \<Rightarrow> True)"

definition n_segment_format :: "gst \<Rightarrow> neg_input \<Rightarrow> SegmentFormat" where
  "n_segment_format g ni =
     (if \<not> ts_delivers_h264 g ni \<or> \<not> ts_delivers_playable_audio g ni
         \<or> key_less (cd_key (candidate g ni Fmp4)) (cd_key (candidate g ni Ts))
      then Fmp4 else Ts)"

definition n_chosen :: "gst \<Rightarrow> neg_input \<Rightarrow> candidate_plan" where
  "n_chosen g ni = candidate g ni (n_segment_format g ni)"

definition n_gap_ms :: "neg_input \<Rightarrow> u32 option" where
  "n_gap_ms ni = Option.bind (n_v ni) v_max_keyframe_interval_ms"

text \<open>The video mode after the \<open>short\<close> ceiling turned a copy into an encode.\<close>

definition n_video :: "gst \<Rightarrow> neg_input \<Rightarrow> StreamMode" where
  "n_video g ni =
     (let td = p_target_duration (ni_profile ni); vmode = cd_video (n_chosen g ni) in
      if is_some_and (ceiling_secs td) (\<lambda>ceil.
           vmode = Copy \<and> declared_target_secs td (n_gap_ms ni) False > ceil)
      then Encode else vmode)"

definition n_audio :: "gst \<Rightarrow> neg_input \<Rightarrow> StreamMode" where
  "n_audio g ni = cd_audio (n_chosen g ni)"

definition n_tone_map :: "gst \<Rightarrow> neg_input \<Rightarrow> bool" where
  "n_tone_map g ni =
     (ni_tonemap ni \<and> n_video g ni = Encode \<and> is_some_and (n_v ni) is_hdr10)"

subsection \<open>The plan, its cost and its completeness\<close>

definition n_plan :: "gst \<Rightarrow> neg_input \<Rightarrow> RemuxPlan" where
  "n_plan g ni =
     (let profile = ni_profile ni; c = n_chosen g ni; enc = (n_video g ni = Encode) in
      \<lparr>pl_video = n_video g ni,
       pl_audio = n_audio g ni,
       pl_audio_track = n_audio_track ni,
       pl_video_track = n_video_track ni,
       pl_video_kbps = then_some enc
         (map_or (p_max_bandwidth_kbps profile) 6000 (\<lambda>c. min 6000 c)),
       pl_max_height = (if enc then p_max_height profile else None),
       pl_max_bit_depth =
         (if enc then codec_depth_limit profile (VideoTarget_as_str (cd_vt c)) else None),
       pl_tone_map = n_tone_map g ni,
       pl_deinterlace = (enc \<and> is_some_and (n_v ni) v_interlaced),
       pl_burn_subtitle = opt_filter (\<lambda>_. enc) (n_burn_subtitle ni),
       pl_burn_ass = opt_filter (\<lambda>_. enc) (fst (n_burn_ass ni)),
       pl_max_channels =
         (if n_audio g ni = Encode \<and> p_max_audio_channels profile > 0
          then Some (map_or (opt_filter (\<lambda>c. c > 0) (map_option a_channels (n_a ni)))
                       (p_max_audio_channels profile) (\<lambda>c. min c (p_max_audio_channels profile)))
          else None),
       pl_stereo_gain_db = None,
       pl_native_gain_db = None,
       pl_loudness_source_channels = None,
       pl_loudness_gains = replicate MAX_LAYOUT_GAINS None,
       pl_video_codec = cd_vt c,
       pl_audio_codec = cd_at c,
       pl_segment_format = n_segment_format g ni\<rparr>)"

definition n_cost :: "gst \<Rightarrow> neg_input \<Rightarrow> Cost" where
  "n_cost g ni =
     (if n_direct ni then C_Direct
      else if \<not> playable (n_plan g ni) \<or> (n_v ni \<noteq> None \<and> n_video g ni = Off) then C_Unplayable
      else if n_video g ni = Encode then C_VideoEncode
      else if n_audio g ni = Encode then C_AudioEncode
      else C_Copy)"

definition n_incomplete :: "gst \<Rightarrow> neg_input \<Rightarrow> bool" where
  "n_incomplete g ni =
     ((n_v ni \<noteq> None \<and> n_video g ni = Off) \<or> (n_a ni \<noteq> None \<and> n_audio g ni = Off))"

subsection \<open>Verdict texts\<close>

text \<open>The middle dot and the dash of the messages, as UTF-8 bytes.\<close>

definition middot :: string where
  "middot = [CHR '' '', CHR 0xC2, CHR 0xB7, CHR '' '']"

definition emdash :: string where
  "emdash = [CHR '' '', CHR 0xE2, CHR 0x80, CHR 0x94, CHR '' '']"

definition offered :: "gst \<Rightarrow> neg_input \<Rightarrow> string \<Rightarrow> string" where
  "offered g ni kind =
     (let ladder = (if kind = ''video'' then [''h264'', ''hevc'', ''av1''] else [''aac'', ''opus'']);
          offered_targets = (if kind = ''video'' then ni_video_targets ni
                             else if n_video g ni = Encode then ni_full_audio_targets ni
                             else ni_local_audio_targets ni);
          have_t = filter (\<lambda>t. t \<in> set offered_targets) ladder;
          executor = (if kind = ''video'' \<or> n_video g ni = Encode then ''full transcoder''
                      else ''hub'')
      in if have_t = [] then ''no '' @ kind @ '' encoder on the '' @ executor
         else executor @ '' encodes '' @ join_str '', '' have_t)"

definition no_target_verdict :: "string \<Rightarrow> string \<Rightarrow> string" where
  "no_target_verdict codec offer =
     codec @ arrow @ ''none (client accepts neither the source nor any offered target'' @ emdash
     @ offer @ '')''"

definition n_video_verdict :: "gst \<Rightarrow> neg_input \<Rightarrow> string" where
  "n_video_verdict g ni =
     (let v0 = fst (plan_summary g (ni_info ni) (n_plan g ni));
          v1 = (if n_direct ni
                then (case n_v ni of Some s \<Rightarrow> v_codec s @ '' direct'' | None \<Rightarrow> ''none'') else v0);
          v2 = (if n_video g ni = Off \<and> n_v ni \<noteq> None \<and> \<not> v_client_ok ni
                then no_target_verdict (map_or (n_v ni) ''video'' v_codec) (offered g ni ''video'')
                else v1);
          v3 = v2 @ (if n_tone_map g ni then middot @ ''hdr10'' @ arrow @ ''sdr (tone-mapped)''
                     else if is_some_and (n_v ni) (\<lambda>s. v_hdr s \<noteq> None)
                             \<and> \<not> p_hdr (ni_profile ni) \<and> n_video g ni \<noteq> Off
                     then middot @ ''HDR delivered as-is'' else []);
          v4 = v3 @ (if over_cap ni \<and> \<not> n_direct ni \<and> n_video g ni = Encode
                     then middot @ ''bandwidth cap'' else []);
          v5 = v4 @ (if \<not> n_direct ni \<and> n_segment_format g ni = Fmp4 \<and> n_v ni \<noteq> None
                     then middot @ ''fmp4 segments'' else [])
      in v5 @ (case n_v ni of
           None \<Rightarrow> []
         | Some v \<Rightarrow>
             (case (v_bit_depth v, codec_depth_limit (ni_profile ni) (v_codec v)) of
                (Some depth, Some limit) \<Rightarrow>
                  if depth > limit
                  then middot @ show_nat (unat depth) @ ''-bit source exceeds client's ''
                       @ show_nat (unat limit) @ ''-bit limit''
                  else []
              | _ \<Rightarrow> [])))"

definition n_audio_verdict :: "gst \<Rightarrow> neg_input \<Rightarrow> string" where
  "n_audio_verdict g ni =
     (let a0 = snd (plan_summary g (ni_info ni) (n_plan g ni));
          a1 = (if n_audio g ni = Off \<and> n_a ni \<noteq> None \<and> \<not> a_client_ok ni
                then no_target_verdict (map_or (n_a ni) ''audio'' a_codec) (offered g ni ''audio'')
                else a0)
      in a1 @ (if \<not> n_direct ni \<and> n_segment_format g ni = Fmp4 \<and> n_v ni = None
               then middot @ ''fmp4 segments'' else []))"

definition subtitle_tier ::
    "gst \<Rightarrow> neg_input \<Rightarrow> nat \<Rightarrow> SubtitleStream \<Rightarrow> SubtitleTier \<times> string" where
  "subtitle_tier g ni index s =
     (let profile = ni_profile ni; ap = ni_ass ni; plan = n_plan g ni in
      if is_ass_format (s_format s) then
        (if pl_burn_ass plan = Some index then (ST_Burn, ''burned in (forces the video encode)'')
         else if p_ass_render profile then (ST_Text, [])
         else if choose_tier ap profile = Some Overlay
           then (ST_Graphics, ''rasterised overlay'' @ emdash @ ''full typesetting, no encode'')
         else if fst (n_burn_ass ni) \<noteq> None
           then (ST_Unavailable, ''only one track can be burned in'')
         else if choose_tier ap profile = None
           then (ST_Unavailable,
                 ''no rung left: client renders neither ASS nor text, and no box can burn it'')
         else if get (ap_order ap) 0 = Some Burn
           then (ST_Convert, ''flattened to VTT'' @ emdash @ ''no box in the fleet can burn ASS'')
         else (ST_Convert, ''flattened to VTT''))
      else if is_image_format (s_format s) then
        (if pl_burn_subtitle plan = Some index then (ST_Burn, ''burned in (forces the video encode)'')
         else if p_graphics_overlay profile then (ST_Graphics, [])
         else if unwrap_or (get (ni_ocr_text ni) index) False
           then (ST_Ocr, ''served as OCR text'' @ emdash @ ''no encode needed'')
         else if n_burn_subtitle ni \<noteq> None
           then (ST_Unavailable, ''only one track can be burned in'')
         else if \<not> p_graphics_overlay profile
           then (ST_Unavailable, ''burn-in needs a locally-read source (HUB-32b)'')
         else (ST_Unavailable, ''no OCR text yet and no burn path''))
      else if \<not> p_vtt_render profile then
        (if ap_burn_capable ap
         then (ST_Burn, ''burned in'' @ emdash @ ''the client renders no text'')
         else (ST_Unavailable, ''client renders no text and no box can burn it in''))
      else (ST_Text, []))"

definition n_subtitles :: "gst \<Rightarrow> neg_input \<Rightarrow> SubtitleVerdict list" where
  "n_subtitles g ni =
     map (\<lambda>(index, s). let (tier, note) = subtitle_tier g ni index s in
            \<lparr>sub_index = index, sub_track_id = None, sub_format = s_format s,
             sub_language = s_language s, sub_tier = tier, sub_note = note\<rparr>)
       (List.enumerate 0 (subtitles (ni_info ni)))"

subsection \<open>The decision\<close>

definition negotiate_for_executors_impl :: "gst \<Rightarrow> neg_input \<Rightarrow> SourcePlan" where
  "negotiate_for_executors_impl g ni =
     \<lparr>sp_direct = n_direct ni,
      sp_plan = n_plan g ni,
      sp_burn_sidecar =
        (case forced_burn ni of
           Some (Sidecar i) \<Rightarrow> if n_video g ni = Encode then Some i else None
         | _ \<Rightarrow> None),
      sp_burn_ass_sidecar = opt_filter (\<lambda>_. n_video g ni = Encode) (snd (n_burn_ass ni)),
      sp_cost = n_cost g ni,
      sp_target_duration_secs =
        declared_target_secs (p_target_duration (ni_profile ni)) (n_gap_ms ni) (n_video g ni = Encode),
      sp_incomplete = n_incomplete g ni,
      sp_video_verdict = n_video_verdict g ni,
      sp_audio_verdict = n_audio_verdict g ni,
      sp_subtitles = n_subtitles g ni\<rparr>"

definition encoded_audio_layout :: "MediaInfo \<Rightarrow> RemuxPlan \<Rightarrow> AudioLayout option" where
  "encoded_audio_layout info plan =
     Option.bind (get (audio info) (pl_audio_track plan)) (\<lambda>a.
       let source = layout_from_stream (a_channels a) (a_layout a);
           bound = map_or (opt_filter (\<lambda>c. c > 0) (pl_max_channels plan)) (al_channels source)
                     (\<lambda>c. min c (al_channels source))
       in find (\<lambda>l. al_channels l \<le> bound) (resolved_measured_layouts source source))"

definition negotiate_for_executors :: "gst \<Rightarrow> neg_input \<Rightarrow> SourcePlan" where
  "negotiate_for_executors g ni =
     (let plan = (\<lambda>force. negotiate_for_executors_impl g (ni\<lparr>ni_force_audio_encode := force\<rparr>));
          normal = plan False
      in if \<not> ni_force_audio_encode ni then normal
         else
           let forced = plan True;
               video_unchanged =
                 (if sp_direct normal then
                    (if video (ni_info ni) = [] then pl_video (sp_plan forced) = Off
                     else pl_video (sp_plan forced) = Copy)
                  else pl_video (sp_plan forced) = pl_video (sp_plan normal));
               exact_layout_supported =
                 (pl_video (sp_plan normal) = Encode
                  \<or> exact_audio_layout g (ni_info ni) (sp_plan forced) \<noteq> None)
           in if pl_audio (sp_plan forced) = Encode \<and> video_unchanged
                 \<and> encoded_audio_layout (ni_info ni) (sp_plan forced) \<noteq> None
                 \<and> exact_layout_supported
              then forced else normal)"

text \<open>\<open>negotiate\<close>: one pool of targets for every executor and no forced audio encode.\<close>

definition negotiate :: "gst \<Rightarrow> neg_input \<Rightarrow> string list \<Rightarrow> SourcePlan" where
  "negotiate g ni targets =
     negotiate_for_executors g (ni\<lparr>ni_video_targets := targets, ni_full_audio_targets := targets,
       ni_local_audio_targets := targets, ni_force_audio_encode := False\<rparr>)"

end
