(* ===== verification/Negotiate_Lemmas.thy ===== *)
theory Negotiate_Lemmas
  imports Negotiate
begin

text \<open>
  The library of facts on the negotiated plan: what each mode of a candidate container implies, the
  projections of the plan, the independence of the forced audio encode, what the burn indices point
  at, and the sample inputs the witnesses run on.
\<close>

section \<open>Definitions\<close>

text \<open>The final video mode is the candidate's, unless the \<open>short\<close> ceiling turned a copy into an
  encode.\<close>

definition short_override :: "gst \<Rightarrow> neg_input \<Rightarrow> bool" where
  "short_override g ni \<longleftrightarrow>
     is_some_and (ceiling_secs (p_target_duration (ni_profile ni))) (\<lambda>ceil.
       cand_video g ni (n_segment_format g ni) = Copy
       \<and> declared_target_secs (p_target_duration (ni_profile ni)) (n_gap_ms ni) False > ceil)"

text \<open>\<open>v'\<close> states some of the facts of \<open>v\<close> and leaves others unknown.\<close>

definition forgets :: "VideoStream \<Rightarrow> VideoStream \<Rightarrow> bool" where
  "forgets v' v \<longleftrightarrow>
     v_codec v' = v_codec v \<and> v_height v' = v_height v
     \<and> v_bit_depth v' \<in> {None, v_bit_depth v} \<and> v_profile v' \<in> {None, v_profile v}
     \<and> v_level v' \<in> {None, v_level v} \<and> v_fps v' \<in> {None, v_fps v}"

text \<open>The inputs the witnesses run on: GStreamer with the usual muxers and decoders, a film in a
  Matroska file, and a browser.\<close>

definition sample_gst :: gst where
  "sample_gst =
     \<lparr>g_sink_caps = (\<lambda>n.
        if n = ''mpegtsmux'' then
          [Caps ''video/x-h264'' None, Caps ''video/x-h265'' None, Caps ''video/x-av1'' None,
           Caps ''audio/mpeg'' (Some [1]), Caps ''audio/mpeg'' (Some [2, 4]),
           Caps ''audio/x-ac3'' None, Caps ''audio/x-opus'' None]
        else if n = ''isofmp4mux'' then
          [Caps ''video/x-h264'' None, Caps ''video/x-h265'' None, Caps ''video/x-vp9'' None,
           Caps ''video/x-av1'' None, Caps ''audio/mpeg'' (Some [4]), Caps ''audio/x-opus'' None,
           Caps ''audio/x-flac'' None]
        else []),
      g_intersect = (\<lambda>a b. caps_name a = caps_name b
        \<and> (case (mpegversion a, mpegversion b) of
             (Some xs, Some ys) \<Rightarrow> list_ex (\<lambda>x. x \<in> set ys) xs
           | _ \<Rightarrow> True)),
      g_can_decode = (\<lambda>n. n \<in> set [''video/x-h264'', ''video/x-h265'', ''video/x-av1'',
        ''audio/mpeg'', ''audio/x-ac3'', ''audio/x-dts'', ''audio/x-opus'']),
      g_h264_encoder = Some ''x264enc'', g_aac_encoder = Some ''fdkaacenc'',
      g_aac_accepts = (\<lambda>_ _ _ _. True)\<rparr>"

definition sample_video :: "string \<Rightarrow> VideoStream" where
  "sample_video codec =
     \<lparr>v_codec = codec, v_width = 1920, v_height = 1080, v_fps = Some (24, 1), v_bit_depth = Some 8,
      v_interlaced = False, v_hdr = None, v_profile = Some ''main'', v_level = Some ''4.1'',
      v_bitrate_kbps = None, v_max_keyframe_interval_ms = Some 10430, v_pixel_aspect_ratio = None,
      v_orientation = None, v_display_width = None, v_display_height = None\<rparr>"

definition sample_audio :: "string \<Rightarrow> AudioStream" where
  "sample_audio codec =
     \<lparr>a_codec = codec, a_channels = 2, a_sample_rate = 48000, a_language = None,
      a_bitrate_kbps = None, a_layout = Some ''0x3''\<rparr>"

definition sample_info :: "VideoStream list \<Rightarrow> AudioStream list \<Rightarrow> string list \<Rightarrow> MediaInfo" where
  "sample_info vs as formats =
     \<lparr>container = Some ''webm'', duration_ms = Some 5400000, video = vs, audio = as,
      subtitles = map (\<lambda>f. \<lparr>s_format = f, s_language = None, s_title = None,
                            s_variant = SubtitleVariant_default\<rparr>) formats,
      external_subtitles = [], replay_gain = None, artwork = None, artwork_images = [],
      season_artwork = None, nfo = None, sidecar_revision = None, tags = [], attachments = None,
      chapters = None, video_geometry_probed = True, video_geometry_error = None\<rparr>"

definition sample_cap :: "string \<Rightarrow> VideoCap" where
  "sample_cap codec =
     \<lparr>c_max_bit_depth = None, c_codec = codec, c_max_profile = None, c_max_level = None\<rparr>"

definition sample_input :: "CapabilityProfile \<Rightarrow> MediaInfo \<Rightarrow> neg_input" where
  "sample_input profile info =
     \<lparr>ni_profile = profile, ni_info = info, ni_audio_track = 0, ni_video_track = 0,
      ni_single_part = False, ni_est_kbps = None, ni_tonemap = False, ni_burn_capable = True,
      ni_ocr_text = [], ni_burn_pick = None, ni_ass = AssPolicy_default,
      ni_video_targets = [''h264'', ''hevc''], ni_full_audio_targets = [''aac'', ''opus''],
      ni_local_audio_targets = [''aac''], ni_force_audio_encode = False\<rparr>"

text \<open>An HEVC film on a client that takes HEVC only, wants segments of at most six seconds and
  meets a fleet that verified no encoder.\<close>

definition hevc_only :: "TargetDuration \<Rightarrow> CapabilityProfile" where
  "hevc_only m = CapabilityProfile_default\<lparr>p_video := [sample_cap ''hevc''], p_target_duration := m\<rparr>"

definition bare_fleet :: "CapabilityProfile \<Rightarrow> VideoStream list \<Rightarrow> AudioStream list \<Rightarrow> neg_input" where
  "bare_fleet pr vs as = (sample_input pr (sample_info vs as []))
     \<lparr>ni_video_targets := [], ni_full_audio_targets := []\<rparr>"

section \<open>Lemmas\<close>

lemma find_unwrap:
  assumes "list_ex P xs"
  shows "P (unwrap_or (find P xs) d) \<and> unwrap_or (find P xs) d \<in> set xs"
proof (cases "find P xs")
  case None
  with assms show ?thesis by (auto simp: find_None_iff list_ex_iff)
next
  case (Some x)
  then have "P x \<and> x \<in> set xs" by (auto simp: find_Some_iff)
  with Some show ?thesis by simp
qed

lemma candidate_sel [plan_simps]:
  "cd_video (candidate g ni fmt) = cand_video g ni fmt"
  "cd_audio (candidate g ni fmt) = cand_audio g ni fmt"
  "cd_vt (candidate g ni fmt) = cand_vt ni fmt"
  "cd_at (candidate g ni fmt) = cand_at g ni fmt"
  "fst (cd_key (candidate g ni fmt)) = (if n_a ni \<noteq> None \<and> cand_audio g ni fmt = Off then 1 else 0)"
  by (simp_all add: candidate_def Let_def)

lemma n_plan_sel [plan_simps]:
  "pl_video (n_plan g ni) = n_video g ni"
  "pl_audio (n_plan g ni) = n_audio g ni"
  "pl_segment_format (n_plan g ni) = n_segment_format g ni"
  "pl_video_codec (n_plan g ni) = cand_vt ni (n_segment_format g ni)"
  "pl_audio_codec (n_plan g ni) = cand_at g ni (n_segment_format g ni)"
  "pl_audio_track (n_plan g ni) = n_audio_track ni"
  "pl_video_track (n_plan g ni) = n_video_track ni"
  "pl_burn_subtitle (n_plan g ni) = opt_filter (\<lambda>_. n_video g ni = Encode) (n_burn_subtitle ni)"
  "pl_burn_ass (n_plan g ni) = opt_filter (\<lambda>_. n_video g ni = Encode) (fst (n_burn_ass ni))"
  by (simp_all add: n_plan_def Let_def n_chosen_def candidate_sel)

lemma impl_sel [plan_simps]:
  "sp_plan (negotiate_for_executors_impl g ni) = n_plan g ni"
  "sp_direct (negotiate_for_executors_impl g ni) = n_direct ni"
  "sp_cost (negotiate_for_executors_impl g ni) = n_cost g ni"
  "sp_incomplete (negotiate_for_executors_impl g ni) = n_incomplete g ni"
  by (simp_all add: negotiate_for_executors_impl_def)

text \<open>The forced audio encode only reaches the audio arm and direct play.\<close>

lemma force_frame [simp]:
  "n_v (ni\<lparr>ni_force_audio_encode := b\<rparr>) = n_v ni"
  "n_a (ni\<lparr>ni_force_audio_encode := b\<rparr>) = n_a ni"
  "v_client_ok (ni\<lparr>ni_force_audio_encode := b\<rparr>) = v_client_ok ni"
  "a_client_ok (ni\<lparr>ni_force_audio_encode := b\<rparr>) = a_client_ok ni"
  "container_ok (ni\<lparr>ni_force_audio_encode := b\<rparr>) = container_ok ni"
  "forced_burn (ni\<lparr>ni_force_audio_encode := b\<rparr>) = forced_burn ni"
  "n_burn_subtitle (ni\<lparr>ni_force_audio_encode := b\<rparr>) = n_burn_subtitle ni"
  "n_burn_ass (ni\<lparr>ni_force_audio_encode := b\<rparr>) = n_burn_ass ni"
  "burn_active (ni\<lparr>ni_force_audio_encode := b\<rparr>) = burn_active ni"
  "takes_video (ni\<lparr>ni_force_audio_encode := b\<rparr>) = takes_video ni"
  "takes_audio (ni\<lparr>ni_force_audio_encode := b\<rparr>) = takes_audio ni"
  "audio_pool (ni\<lparr>ni_force_audio_encode := b\<rparr>) = audio_pool ni"
  "n_gap_ms (ni\<lparr>ni_force_audio_encode := b\<rparr>) = n_gap_ms ni"
  "cand_vt (ni\<lparr>ni_force_audio_encode := b\<rparr>) fmt = cand_vt ni fmt"
  "cand_video g (ni\<lparr>ni_force_audio_encode := b\<rparr>) fmt = cand_video g ni fmt"
proof -
  have p: "picked (ni\<lparr>ni_force_audio_encode := b\<rparr>) = picked ni"
  proof
    show "picked (ni\<lparr>ni_force_audio_encode := b\<rparr>) x = picked ni x" for x by (cases x) simp_all
  qed
  show v: "n_v (ni\<lparr>ni_force_audio_encode := b\<rparr>) = n_v ni"
    by (simp add: n_v_def n_video_track_def)
  show a: "n_a (ni\<lparr>ni_force_audio_encode := b\<rparr>) = n_a ni"
    by (simp add: n_a_def n_audio_track_def)
  show vc: "v_client_ok (ni\<lparr>ni_force_audio_encode := b\<rparr>) = v_client_ok ni"
    by (simp add: v_client_ok_def over_cap_def hdr_veto_def v)
  show "a_client_ok (ni\<lparr>ni_force_audio_encode := b\<rparr>) = a_client_ok ni"
    by (simp add: a_client_ok_def a)
  show "container_ok (ni\<lparr>ni_force_audio_encode := b\<rparr>) = container_ok ni"
    by (simp add: container_ok_def)
  show fb: "forced_burn (ni\<lparr>ni_force_audio_encode := b\<rparr>) = forced_burn ni"
    by (simp add: forced_burn_def p)
  show bs: "n_burn_subtitle (ni\<lparr>ni_force_audio_encode := b\<rparr>) = n_burn_subtitle ni"
    by (simp add: n_burn_subtitle_def forced_embedded_def fb)
  show ba: "n_burn_ass (ni\<lparr>ni_force_audio_encode := b\<rparr>) = n_burn_ass ni"
    by (simp add: n_burn_ass_def picked_ass_def p split: option.splits BurnPick.splits)
  show bac: "burn_active (ni\<lparr>ni_force_audio_encode := b\<rparr>) = burn_active ni"
    by (simp add: burn_active_def bs ba fb)
  show tv: "takes_video (ni\<lparr>ni_force_audio_encode := b\<rparr>) = takes_video ni"
    by (rule ext) (simp add: takes_video_def)
  show "takes_audio (ni\<lparr>ni_force_audio_encode := b\<rparr>) = takes_audio ni"
    by (intro ext) (simp add: takes_audio_def)
  show "audio_pool (ni\<lparr>ni_force_audio_encode := b\<rparr>) = audio_pool ni"
    by (rule ext) (simp add: audio_pool_def)
  show "n_gap_ms (ni\<lparr>ni_force_audio_encode := b\<rparr>) = n_gap_ms ni"
    by (simp add: n_gap_ms_def v)
  show "cand_vt (ni\<lparr>ni_force_audio_encode := b\<rparr>) fmt = cand_vt ni fmt"
    by (simp add: cand_vt_def tv)
  show "cand_video g (ni\<lparr>ni_force_audio_encode := b\<rparr>) fmt = cand_video g ni fmt"
    by (simp add: cand_video_def Let_def v vc bac tv)
qed

text \<open>Every negotiated plan is the plan of one call of \<open>negotiate_for_executors_impl\<close>.\<close>

lemma negotiate_for_executors_cases:
  obtains b where "negotiate_for_executors g ni
      = negotiate_for_executors_impl g (ni\<lparr>ni_force_audio_encode := b\<rparr>)"
    and "b \<longrightarrow> ni_force_audio_encode ni"
proof (cases "negotiate_for_executors g ni
      = negotiate_for_executors_impl g (ni\<lparr>ni_force_audio_encode := False\<rparr>)")
  case True
  then show ?thesis using that by blast
next
  case False
  then have "negotiate_for_executors g ni
      = negotiate_for_executors_impl g (ni\<lparr>ni_force_audio_encode := True\<rparr>) \<and> ni_force_audio_encode ni"
    unfolding negotiate_for_executors_def Let_def by (simp split: if_splits)
  then show ?thesis using that [of True] by simp
qed

lemma cand_video_Copy:
  "cand_video g ni fmt = Copy \<longleftrightarrow>
     v_client_ok ni \<and> \<not> burn_active ni \<and> is_some_and (n_v ni) (\<lambda>s. muxable g fmt ''video'' (v_codec s))"
  by (cases "n_v ni") (auto simp: cand_video_def Let_def)

lemma cand_video_Encode:
  assumes "cand_video g ni fmt = Encode"
  shows "takes_video ni (cand_vt ni fmt) \<and> cand_vt ni fmt \<in> set (v_ladder fmt)
       \<and> is_some_and (n_v ni) (\<lambda>s. decodable g ''video'' (v_codec s))"
proof -
  have "list_ex (takes_video ni) (v_ladder fmt)"
    and "is_some_and (n_v ni) (\<lambda>s. decodable g ''video'' (v_codec s))"
    using assms unfolding cand_video_def Let_def by (auto split: if_splits)
  with find_unwrap [of "takes_video ni" "v_ladder fmt" H264] show ?thesis
    by (simp add: cand_vt_def)
qed

lemma cand_audio_Copy:
  "cand_audio g ni fmt = Copy \<longleftrightarrow>
     \<not> ni_force_audio_encode ni \<and> a_client_ok ni
     \<and> is_some_and (n_a ni) (\<lambda>s. muxable g fmt ''audio'' (a_codec s))"
  by (cases "n_a ni") (auto simp: cand_audio_def Let_def)

lemma cand_audio_Encode:
  assumes "cand_audio g ni fmt = Encode"
  shows "takes_audio ni (audio_pool ni (cand_video g ni fmt)) (cand_at g ni fmt)
       \<and> cand_at g ni fmt \<in> set (a_ladder fmt)
       \<and> is_some_and (n_a ni) (\<lambda>s. decodable g ''audio'' (a_codec s))"
proof -
  let ?P = "takes_audio ni (audio_pool ni (cand_video g ni fmt))"
  have "list_ex ?P (a_ladder fmt)"
    and "is_some_and (n_a ni) (\<lambda>s. decodable g ''audio'' (a_codec s))"
    using assms unfolding cand_audio_def Let_def by (auto split: if_splits)
  with find_unwrap [of ?P "a_ladder fmt" Aac] show ?thesis
    by (simp add: cand_at_def)
qed

lemma n_video_eq [plan_simps]:
  "n_video g ni = (if short_override g ni then Encode else cand_video g ni (n_segment_format g ni))"
  by (simp add: n_video_def short_override_def n_chosen_def candidate_sel Let_def)

lemma n_audio_eq [plan_simps]: "n_audio g ni = cand_audio g ni (n_segment_format g ni)"
  by (simp add: n_audio_def n_chosen_def candidate_sel)

lemma short_override_None:
  "ceiling_secs (p_target_duration (ni_profile ni)) = None \<Longrightarrow> \<not> short_override g ni"
  by (simp add: short_override_def)

lemma n_video_Copy:
  "n_video g ni = Copy \<Longrightarrow> cand_video g ni (n_segment_format g ni) = Copy \<and> \<not> short_override g ni"
  by (auto simp: n_video_eq split: if_splits)

text \<open>The one encode without a verified target: a segment ceiling turned a copy into an encode although the client
  accepts no target of the container that the executor offers, and H.264 is encoded regardless.\<close>

definition ceiling_fallback :: "CapabilityProfile \<Rightarrow> string list \<Rightarrow> RemuxPlan \<Rightarrow> bool" where
  "ceiling_fallback profile targets plan \<longleftrightarrow>
     ceiling_secs (p_target_duration profile) \<noteq> None \<and> pl_video_codec plan = H264
   \<and> (\<forall>t \<in> set (v_ladder (pl_segment_format plan)).
        VideoTarget_as_str t \<notin> set targets \<or> (\<forall>c \<in> set (p_video profile). c_codec c \<noteq> VideoTarget_as_str t))"

lemma encode_target_or_fallback:
  assumes "pl_video (sp_plan (negotiate_for_executors g ni)) = Encode"
  shows "VideoTarget_as_str (pl_video_codec (sp_plan (negotiate_for_executors g ni))) \<in> set (ni_video_targets ni)
       \<or> ceiling_fallback (ni_profile ni) (ni_video_targets ni) (sp_plan (negotiate_for_executors g ni))"
proof -
  obtain b where n: "negotiate_for_executors g ni
      = negotiate_for_executors_impl g (ni\<lparr>ni_force_audio_encode := b\<rparr>)"
    by (rule negotiate_for_executors_cases)
  let ?ni = "ni\<lparr>ni_force_audio_encode := b\<rparr>"
  let ?f = "n_segment_format g ?ni"
  have sel: "pl_video_codec (sp_plan (negotiate_for_executors g ni)) = cand_vt ni ?f"
    "pl_segment_format (sp_plan (negotiate_for_executors g ni)) = ?f" by (simp_all add: n plan_simps)
  show ?thesis
  proof (cases "list_ex (takes_video ni) (v_ladder ?f)")
    case True
    from find_unwrap [OF this, of H264] sel show ?thesis by (simp add: cand_vt_def takes_video_def)
  next
    case False
    then have "cand_video g ni ?f \<noteq> Encode" by (auto simp: cand_video_def)
    with assms have "short_override g ?ni" by (simp add: n plan_simps split: if_splits)
    then have "ceiling_secs (p_target_duration (ni_profile ni)) \<noteq> None"
      using short_override_None [of ?ni g] by auto
    moreover have "find (takes_video ni) (v_ladder ?f) = None"
      using False by (simp add: find_None_iff list_ex_iff)
    ultimately show ?thesis
      using False sel by (auto simp: ceiling_fallback_def cand_vt_def takes_video_def list_ex_iff)
  qed
qed

lemma audio_target_offered:
  assumes "pl_audio (sp_plan (negotiate_for_executors g ni)) = Encode"
  shows "AudioTarget_as_str (pl_audio_codec (sp_plan (negotiate_for_executors g ni)))
           \<in> set (ni_full_audio_targets ni) \<union> set (ni_local_audio_targets ni)"
proof -
  obtain b where n: "negotiate_for_executors g ni
      = negotiate_for_executors_impl g (ni\<lparr>ni_force_audio_encode := b\<rparr>)"
    by (rule negotiate_for_executors_cases)
  let ?ni = "ni\<lparr>ni_force_audio_encode := b\<rparr>"
  have "cand_audio g ?ni (n_segment_format g ?ni) = Encode" using assms by (simp add: n plan_simps)
  from cand_audio_Encode [OF this] show ?thesis
    by (auto simp: n plan_simps takes_audio_def audio_pool_def split: if_splits)
qed

lemma negotiate_no_force:
  assumes "\<not> ni_force_audio_encode ni"
  shows "negotiate_for_executors g ni = negotiate_for_executors_impl g ni"
proof -
  have eq: "ni\<lparr>ni_force_audio_encode := False\<rparr> = ni" using assms by (cases ni) simp
  show ?thesis by (simp add: negotiate_for_executors_def Let_def assms eq)
qed

lemma needs_burn_position:
  assumes "position (needs_burn ocr) (List.enumerate 0 xs) = Some i"
  shows "i < length xs \<and> is_image_format (s_format (xs ! i))"
  using position_Some [OF assms] by (auto simp: needs_burn_def nth_enumerate_eq)

text \<open>What a burn index points at.\<close>

lemma forced_burn_Some:
  assumes "forced_burn ni = Some p"
  shows "ni_burn_capable ni \<and> is_some_and (picked ni p) is_image_format
       \<and> ((\<exists>i. p = Sidecar i) \<longrightarrow> picked ni p = Some ''vobsub'')"
  using assms by (cases p) (auto simp: forced_burn_def opt_filter_eq_Some is_image_format_def split: if_splits)

lemma n_burn_subtitle_valid:
  assumes "n_burn_subtitle ni = Some i"
  shows "ni_burn_capable ni \<and> i < length (subtitles (ni_info ni))
       \<and> is_image_format (s_format (subtitles (ni_info ni) ! i))"
proof (cases "forced_embedded ni")
  case None
  with assms have "ni_burn_capable ni"
    and "position (needs_burn (ni_ocr_text ni)) (List.enumerate 0 (subtitles (ni_info ni))) = Some i"
    by (auto simp: n_burn_subtitle_def split: if_splits)
  with needs_burn_position show ?thesis by blast
next
  case (Some j)
  with assms have ij: "i = j" by (simp add: n_burn_subtitle_def)
  from Some have "forced_burn ni = Some (Embedded j)"
    by (auto simp: forced_embedded_def split: option.splits BurnPick.splits)
  from forced_burn_Some [OF this] ij show ?thesis
    by (auto simp: is_some_and_iff get_eq_Some)
qed

lemma n_burn_ass_valid:
  "(case n_burn_ass ni of (t, f) \<Rightarrow>
      (t = None \<or> f = None)
      \<and> (t \<noteq> None \<or> f \<noteq> None \<longleftrightarrow> ass_burn_wanted (ni_profile ni) (ni_info ni) (ni_ass ni))
      \<and> (\<forall>i. t = Some i \<longrightarrow> i < length (subtitles (ni_info ni))
             \<and> is_ass_format (s_format (subtitles (ni_info ni) ! i)))
      \<and> (\<forall>i. f = Some i \<longrightarrow> i < length (external_subtitles (ni_info ni))
             \<and> is_ass_format (x_format (external_subtitles (ni_info ni) ! i))))"
proof (cases "ass_burn_wanted (ni_profile ni) (ni_info ni) (ni_ass ni)")
  case False
  then show ?thesis by (simp add: n_burn_ass_def)
next
  case wanted: True
  let ?e = "\<lambda>s. is_ass_format (s_format s)" and ?x = "\<lambda>s. is_ass_format (x_format s)"
  show ?thesis
  proof (cases "picked_ass ni")
    case (Some p)
    then have "is_some_and (picked ni p) is_ass_format"
      by (simp add: picked_ass_def opt_filter_eq_Some)
    with Some wanted show ?thesis
      by (cases p) (auto simp: n_burn_ass_def is_some_and_iff get_eq_Some)
  next
    case None
    show ?thesis
    proof (cases "position ?e (subtitles (ni_info ni))")
      case (Some i)
      with position_Some [OF Some] None wanted show ?thesis by (simp add: n_burn_ass_def)
    next
      case none: None
      with wanted have "\<exists>x \<in> set (external_subtitles (ni_info ni)). ?x x"
        by (auto simp: ass_burn_wanted_def position_None list_ex_iff)
      then obtain i where i: "position ?x (external_subtitles (ni_info ni)) = Some i"
        by (metis position_None not_None_eq)
      with position_Some [OF i] none None wanted show ?thesis by (simp add: n_burn_ass_def)
    qed
  qed
qed

lemma n_direct_no_burn:
  assumes "n_direct ni"
  shows "\<not> burn_active ni"
proof -
  from assms have nb: "\<not> burn_wanted (ni_profile ni) (ni_info ni) (ni_burn_capable ni) (ni_ocr_text ni)"
    and na: "\<not> ass_burn_wanted (ni_profile ni) (ni_info ni) (ni_ass ni)"
    and nf: "forced_burn ni = None"
    by (simp_all add: n_direct_def)
  have "n_burn_subtitle ni = None"
    using nb nf by (auto simp: n_burn_subtitle_def forced_embedded_def burn_wanted_def
        position_None list_ex_iff)
  with na nf show ?thesis by (simp add: burn_active_def n_burn_ass_def)
qed

lemma n_cost_Direct: "n_cost g ni = C_Direct \<longleftrightarrow> n_direct ni"
  by (simp add: n_cost_def)

lemma declared_target_nat:
  assumes "mode \<noteq> Ignore"
  shows "unat (declared_target_secs mode (Some gap) False) = max ((2500 + unat gap) div 1000) 2"
proof -
  have gap: "unat gap < 2 ^ 32" using unsigned_less [of gap, where ?'a = nat] by simp
  let ?b = "(ucast FRAGMENT_TARGET_SECS :: u64) * 1000 + ucast gap + 500"
  have b: "?b = word_of_nat (2500 + unat gap)"
    by (simp add: FRAGMENT_TARGET_SECS_def)
  have "unat ?b = 2500 + unat gap"
    unfolding b using gap by (subst unat_of_nat) (simp add: take_bit_nat_eq_self)
  then have "unat (?b div 1000) = (2500 + unat gap) div 1000"
    by (simp add: unat_div_distrib)
  moreover have "(2500 + unat gap) div 1000 < 2 ^ 32" using gap by simp
  ultimately have "unat (ucast (?b div 1000) :: u32) = (2500 + unat gap) div 1000"
    by (simp add: unsigned_ucast_eq take_bit_nat_eq_self)
  then show ?thesis
    using assms by (cases mode) (simp_all add: declared_target_secs_def Let_def
        DEFAULT_TARGET_DURATION_SECS_def max_def word_le_nat_alt)
qed

lemma declared_target_encoded: "declared_target_secs mode gap True = 2"
  by (cases mode) (simp_all add: declared_target_secs_def DEFAULT_TARGET_DURATION_SECS_def)

lemma exceeds_forget: "x' \<in> {None, x} \<Longrightarrow> exceeds (Option.bind x' f) m \<Longrightarrow> exceeds (Option.bind x f) m"
  by (auto simp: exceeds_def)

lemma cap_admits_forgets:
  assumes "forgets v' v" and "cap_admits codec c v"
  shows "cap_admits codec c v'"
proof -
  have "\<not> exceeds (v_bit_depth v') (c_max_bit_depth c)"
    using assms by (auto simp: forgets_def cap_admits_def exceeds_def split: if_splits)
  moreover have "\<not> exceeds (Option.bind (v_profile v') (profile_rank codec))
                           (Option.bind (c_max_profile c) (profile_rank codec))"
    using assms exceeds_forget [of "v_profile v'" "v_profile v"]
    by (auto simp: forgets_def cap_admits_def split: if_splits)
  moreover have "\<not> exceeds (Option.bind (v_level v') level_num) (Option.bind (c_max_level c) level_num)"
    using assms exceeds_forget [of "v_level v'" "v_level v"]
    by (auto simp: forgets_def cap_admits_def split: if_splits)
  ultimately show ?thesis by (simp add: cap_admits_def)
qed

lemma fold_max_ge: "(d::u32) \<le> fold max ds d \<and> (\<forall>x \<in> set ds. x \<le> fold max ds d)"
proof (induction ds arbitrary: d)
  case Nil
  then show ?case by simp
next
  case (Cons a ds)
  have "max a d \<le> fold max ds (max a d)" using Cons.IH by blast
  then have "a \<le> fold max ds (max a d)" "d \<le> fold max ds (max a d)" by auto
  with Cons.IH [of "max a d"] show ?case by simp
qed

lemma codec_depth_limit_ge:
  assumes "codec_depth_limit profile codec = Some limit"
    and "c \<in> set (p_video profile)" and "c_codec c = codec"
  shows "\<exists>m. c_max_bit_depth c = Some m \<and> m \<le> limit"
proof -
  let ?caps = "filter (\<lambda>c. c_codec c = codec) (p_video profile)"
  have none: "\<not> list_ex (\<lambda>c. c_max_bit_depth c = None) ?caps"
    using assms(1) by (auto simp: codec_depth_limit_def Let_def split: if_splits)
  then obtain m where m: "c_max_bit_depth c = Some m" using assms(2,3) by (auto simp: list_ex_iff)
  then have in_m: "m \<in> set (filter_map c_max_bit_depth ?caps)"
    using assms(2,3) by (auto simp: set_filter_map)
  then obtain d ds where ds: "filter_map c_max_bit_depth ?caps = d # ds" by (cases "filter_map c_max_bit_depth ?caps") auto
  with assms(1) none have "limit = fold max ds d" by (simp add: codec_depth_limit_def Let_def)
  with in_m ds fold_max_ge [of d ds] m show ?thesis by auto
qed

section \<open>Evaluating the samples\<close>

lemma sample_streams [simp]:
  "n_v (sample_input pr (sample_info (v # vs) as fs)) = Some v"
  "n_v (sample_input pr (sample_info [] as fs)) = None"
  "n_a (sample_input pr (sample_info vs (a # as) fs)) = Some a"
  "n_a (sample_input pr (sample_info vs [] fs)) = None"
  by (simp_all add: n_v_def n_a_def n_video_track_def n_audio_track_def clamp_track_def get_def
      sample_input_def sample_info_def)

lemma sample_sel [simp]:
  "v_codec (sample_video c) = c" "a_codec (sample_audio c) = c"
  "v_hdr (sample_video c) = None"
  "v_max_keyframe_interval_ms (sample_video c) = Some 10430"
  "ni_profile (sample_input pr info) = pr" "ni_info (sample_input pr info) = info"
  "\<not> ni_force_audio_encode (sample_input pr info)"
  "\<not> ni_single_part (sample_input pr info)"
  "ni_video_targets (sample_input pr info) = [''h264'', ''hevc'']"
  "ni_full_audio_targets (sample_input pr info) = [''aac'', ''opus'']"
  "ni_local_audio_targets (sample_input pr info) = [''aac'']"
  by (simp_all add: sample_video_def sample_audio_def sample_input_def)

lemma exceeds_None [simp]: "\<not> exceeds x None" "\<not> exceeds None y"
  by (auto simp: exceeds_def split: option.splits)

lemma default_sel [simp]:
  "p_video CapabilityProfile_default = [sample_cap ''h264'']"
  "p_audio CapabilityProfile_default = [''aac'', ''mp3'']"
  "p_target_duration CapabilityProfile_default = Ignore"
  "p_max_audio_channels CapabilityProfile_default = 0"
  "p_max_bandwidth_kbps CapabilityProfile_default = None"
  "p_max_height CapabilityProfile_default = None"
  "p_max_fps CapabilityProfile_default = None"
  "c_codec (sample_cap c) = c" "c_max_bit_depth (sample_cap c) = None"
  "c_max_profile (sample_cap c) = None" "c_max_level (sample_cap c) = None"
  by (simp_all add: CapabilityProfile_default_def sample_cap_def)

lemma sample_not_direct [simp]: "\<not> n_direct (sample_input pr info)"
  by (simp add: n_direct_def)

lemma sample_codecs [simp]:
  "muxable sample_gst Ts ''video'' ''h264''" "muxable sample_gst Fmp4 ''video'' ''h264''"
  "muxable sample_gst Ts ''video'' ''hevc''" "muxable sample_gst Fmp4 ''video'' ''hevc''"
  "muxable sample_gst Ts ''audio'' ''aac''" "muxable sample_gst Fmp4 ''audio'' ''aac''"
  "\<not> muxable sample_gst Ts ''audio'' ''dts''" "\<not> muxable sample_gst Fmp4 ''audio'' ''dts''"
  "muxable sample_gst Ts ''audio'' ''ac3''" "\<not> muxable sample_gst Fmp4 ''audio'' ''ac3''"
  "decodable sample_gst ''video'' ''h264''" "decodable sample_gst ''video'' ''hevc''"
  "decodable sample_gst ''audio'' ''aac''" "decodable sample_gst ''audio'' ''ac3''"
  "decodable sample_gst ''audio'' ''dts''" "\<not> decodable sample_gst ''audio'' ''truehd''"
  by (simp_all add: muxable_def decodable_def codec_to_caps_def codec_to_caps_name_def
      caps_muxable_def muxable_caps_def sample_gst_def)

lemma sample_no_burn [simp]:
  "\<not> burn_active (sample_input CapabilityProfile_default (sample_info vs as []))"
  "\<not> burn_active (sample_input CapabilityProfile_default (sample_info vs as [''srt'']))"
  by (simp_all add: burn_active_def n_burn_subtitle_def forced_embedded_def forced_burn_def
      n_burn_ass_def ass_burn_wanted_def needs_burn_def is_image_format_def is_ass_format_def
      sample_input_def sample_info_def)

lemma sample_v_ok:
  "v_client_ok (sample_input CapabilityProfile_default (sample_info (sample_video c # vs) as fs))
     \<longleftrightarrow> c = ''h264''"
  by (auto simp add: v_client_ok_def over_cap_def hdr_veto_def is_hdr10_def video_fits_def cap_admits_def)

lemma sample_a_ok:
  "a_client_ok (sample_input CapabilityProfile_default (sample_info vs (sample_audio c # as) fs))
     \<longleftrightarrow> c = ''aac'' \<or> c = ''mp3''"
  by (simp add: a_client_ok_def)

lemmas sample_run = sample_v_ok sample_a_ok takes_video_def takes_audio_def audio_pool_def cand_vt_def
  cand_at_def cand_video_def cand_audio_def candidate_def n_segment_format_def ts_delivers_h264_def
  ts_delivers_playable_audio_def key_less_def less_Cost_def short_override_def

lemma direct_sample:
  fixes ni
  defines "ni \<equiv> (sample_input (CapabilityProfile_default\<lparr>p_video := [sample_cap ''vp8''],
                             p_audio := [''vorbis'']\<rparr>)
              (sample_info [sample_video ''vp8''] [sample_audio ''vorbis''] []))
              \<lparr>ni_single_part := True\<rparr>"
  shows "n_direct ni" "n_v ni = Some (sample_video ''vp8'')" "n_a ni = Some (sample_audio ''vorbis'')"
    "\<not> ni_force_audio_encode ni"
proof -
  show v: "n_v ni = Some (sample_video ''vp8'')" and a: "n_a ni = Some (sample_audio ''vorbis'')"
    and f: "\<not> ni_force_audio_encode ni"
    by (simp_all add: ni_def n_v_def n_a_def n_video_track_def n_audio_track_def clamp_track_def
        get_def sample_input_def sample_info_def)
  have "v_client_ok ni"
    by (simp add: v_client_ok_def v over_cap_def hdr_veto_def is_hdr10_def video_fits_def cap_admits_def)
      (simp add: ni_def)
  moreover have "a_client_ok ni" by (simp add: a_client_ok_def a) (simp add: ni_def)
  moreover have "container_ok ni"
    by (simp add: container_ok_def ni_def sample_info_def CapabilityProfile_default_def)
  moreover have "\<not> burn_wanted (ni_profile ni) (ni_info ni) (ni_burn_capable ni) (ni_ocr_text ni)"
    "\<not> ass_burn_wanted (ni_profile ni) (ni_info ni) (ni_ass ni)" "forced_burn ni = None"
    by (simp_all add: ni_def burn_wanted_def ass_burn_wanted_def forced_burn_def sample_input_def
        sample_info_def)
  moreover have "ni_single_part ni" by (simp add: ni_def)
  ultimately show "n_direct ni" using v f by (simp add: n_direct_def)
qed

lemma sample_no_burn' [simp]:
  "\<not> burn_active (sample_input (CapabilityProfile_default\<lparr>p_target_duration := m\<rparr>) (sample_info vs as []))"
  by (simp add: burn_active_def n_burn_subtitle_def forced_embedded_def forced_burn_def
      n_burn_ass_def ass_burn_wanted_def sample_input_def sample_info_def)

lemma short_sample:
  fixes ni
  defines "ni \<equiv> sample_input (CapabilityProfile_default\<lparr>p_target_duration := Short 20\<rparr>)
              (sample_info [sample_video ''h264''] [] [])"
  shows "cand_video sample_gst ni fmt = Copy" "\<not> short_override sample_gst ni"
proof -
  have "v_client_ok ni"
    by (simp add: ni_def v_client_ok_def over_cap_def hdr_veto_def is_hdr10_def video_fits_def cap_admits_def)
  then show "cand_video sample_gst ni fmt = Copy"
    by (cases fmt) (simp_all add: cand_video_Copy, simp_all add: ni_def)
  have "declared_target_secs (Short 20) (Some 10430) False = 12"
    by (simp add: declared_target_secs_def DEFAULT_TARGET_DURATION_SECS_def FRAGMENT_TARGET_SECS_def max_def)
  then show "\<not> short_override sample_gst ni"
    by (simp add: short_override_def ni_def n_gap_ms_def max_def word_le_nat_alt)
qed

text \<open>An H.264 film with a PGS track, for a client that composites no bitmaps.\<close>

lemma burn_sample:
  fixes ni
  defines "ni \<equiv> sample_input CapabilityProfile_default
              (sample_info [sample_video ''h264''] [sample_audio ''aac''] [''srt'', ''pgs''])"
  shows "n_burn_subtitle ni = Some 1" "burn_active ni" "n_burn_ass ni = (None, None)"
proof -
  show b: "n_burn_subtitle ni = Some 1"
    by (simp add: ni_def n_burn_subtitle_def forced_embedded_def forced_burn_def needs_burn_def
        is_image_format_def get_def sample_input_def sample_info_def CapabilityProfile_default_def)
  show "n_burn_ass ni = (None, None)"
    by (simp add: ni_def n_burn_ass_def ass_burn_wanted_def sample_info_def is_ass_format_def)
  from b show "burn_active ni" by (simp add: burn_active_def)
qed

lemma hevc_only_sel [simp]:
  "p_target_duration (hevc_only m) = m" "p_video (hevc_only m) = [sample_cap ''hevc'']"
  by (simp_all add: hevc_only_def)

lemma bare_fleet_streams [simp]:
  "n_v (bare_fleet pr (v # vs) as) = Some v" "n_v (bare_fleet pr [] as) = None"
  "n_a (bare_fleet pr vs (a # as)) = Some a" "n_a (bare_fleet pr vs []) = None"
  "ni_profile (bare_fleet pr vs as) = pr" "\<not> ni_force_audio_encode (bare_fleet pr vs as)"
  "\<not> n_direct (bare_fleet pr vs as)"
  by (simp_all add: bare_fleet_def n_v_def n_a_def n_video_track_def n_audio_track_def
      clamp_track_def get_def sample_input_def sample_info_def n_direct_def)

lemma bare_fleet_hevc:
  assumes "v_codec v = ''hevc''" and "v_hdr v = None"
  shows "cand_video sample_gst (bare_fleet (hevc_only m) [v] as) fmt = Copy"
proof -
  let ?ni = "bare_fleet (hevc_only m) [v] as"
  have "v_client_ok ?ni"
    using assms by (simp add: v_client_ok_def over_cap_def hdr_veto_def is_hdr10_def video_fits_def
        cap_admits_def hevc_only_def)
  moreover have "\<not> burn_active ?ni"
    by (simp add: burn_active_def n_burn_subtitle_def forced_embedded_def forced_burn_def
        n_burn_ass_def ass_burn_wanted_def bare_fleet_def sample_input_def sample_info_def)
  ultimately show ?thesis using assms by (cases fmt) (simp_all add: cand_video_Copy)
qed

end
