(* ===== verification/Negotiate_Props.thy ===== *)
theory Negotiate_Props
  imports Negotiate_Lemmas
begin

text \<open>
  What the negotiation promises: every encode is one the client and the executor agreed to, every
  copy is one the client declared, MPEG-TS only carries what its players parse, a burn is only
  claimed by the encode that carries it, and the declared target duration covers the segments.
\<close>

section \<open>Properties\<close>

text \<open>C2. The honesty rule of an encode. For a client without a segment-length ceiling, a plan that
  encodes video encodes a codec the client listed and the full transcoders verified, allowed in
  the chosen container, from a source that can be decoded; a plan that encodes audio encodes a codec
  the client listed and the executor that will run it offers: the full transcoder's when video is
  encoded too, the hub's own otherwise.\<close>

theorem encode_honest:
  assumes "ceiling_secs (p_target_duration (ni_profile ni)) = None"
    and "p = sp_plan (negotiate_for_executors g ni)"
  shows "(pl_video p = Encode \<longrightarrow>
            takes_video ni (pl_video_codec p) \<and> pl_video_codec p \<in> set (v_ladder (pl_segment_format p))
            \<and> is_some_and (n_v ni) (\<lambda>s. decodable g ''video'' (v_codec s)))
       \<and> (pl_audio p = Encode \<longrightarrow>
            takes_audio ni (if pl_video p = Encode then ni_full_audio_targets ni
                            else ni_local_audio_targets ni) (pl_audio_codec p)
            \<and> pl_audio_codec p \<in> set (a_ladder (pl_segment_format p))
            \<and> is_some_and (n_a ni) (\<lambda>s. decodable g ''audio'' (a_codec s)))"
proof -
  obtain b where sp: "negotiate_for_executors g ni
      = negotiate_for_executors_impl g (ni\<lparr>ni_force_audio_encode := b\<rparr>)"
    by (rule negotiate_for_executors_cases)
  define ni' where "ni' = ni\<lparr>ni_force_audio_encode := b\<rparr>"
  have p: "p = n_plan g ni'" using assms(2) sp by (simp add: ni'_def plan_simps)
  have no: "\<not> short_override g ni'" using assms(1) by (simp add: short_override_None ni'_def)
  let ?f = "n_segment_format g ni'"
  have "takes_video ni (cand_vt ni ?f) \<and> cand_vt ni ?f \<in> set (v_ladder ?f)
      \<and> is_some_and (n_v ni) (\<lambda>s. decodable g ''video'' (v_codec s))"
    if "cand_video g ni ?f = Encode"
    using cand_video_Encode [OF that] .
  moreover have "takes_audio ni (audio_pool ni (cand_video g ni ?f)) (cand_at g ni' ?f)
      \<and> cand_at g ni' ?f \<in> set (a_ladder ?f)
      \<and> is_some_and (n_a ni) (\<lambda>s. decodable g ''audio'' (a_codec s))"
    if "cand_audio g ni' ?f = Encode"
    using cand_audio_Encode [OF that] by (simp add: ni'_def)
  moreover have "pl_video p = cand_video g ni ?f" "pl_video_codec p = cand_vt ni ?f"
    using no by (simp_all add: p plan_simps) (simp_all add: ni'_def)
  moreover have "pl_audio p = cand_audio g ni' ?f" "pl_audio_codec p = cand_at g ni' ?f"
    "pl_segment_format p = ?f"
    by (simp_all add: p plan_simps)
  ultimately show ?thesis by (simp add: audio_pool_def)
qed

text \<open>Witness of C2: an HEVC film with DTS sound on a browser that takes H.264 and AAC.\<close>

theorem encode_honest_witness:
  "let ni = sample_input CapabilityProfile_default
              (sample_info [sample_video ''hevc''] [sample_audio ''dts''] []);
       p = sp_plan (negotiate_for_executors sample_gst ni)
   in pl_video p = Encode \<and> pl_audio p = Encode
    \<and> takes_video ni (pl_video_codec p) \<and> takes_audio ni (ni_full_audio_targets ni) (pl_audio_codec p)"
proof -
  let ?ni = "sample_input CapabilityProfile_default
              (sample_info [sample_video ''hevc''] [sample_audio ''dts''] [])"
  let ?p = "sp_plan (negotiate_for_executors sample_gst ?ni)"
  have run: "pl_video ?p = Encode" "pl_audio ?p = Encode"
    by (simp_all add: negotiate_no_force plan_simps sample_run)
  have "ceiling_secs (p_target_duration (ni_profile ?ni)) = None" by simp
  from encode_honest [OF this refl, of sample_gst] run show ?thesis by (simp add: Let_def)
qed

text \<open>C3. A copied stream is one the client declared. A plan that copies video does so for a stream
  that one of the client's capabilities admits (codec, depth, profile, level, height, frame rate),
  within the bandwidth cap, not vetoed as HDR that a capable box would tone-map, with nothing to
  burn in, and that the chosen container's muxer takes. A plan that copies audio does so for a
  codec and channel count the client takes and the muxer accepts, and never when an audio encode
  was forced and granted.\<close>

theorem copy_sound:
  assumes "p = sp_plan (negotiate_for_executors g ni)"
  shows "(pl_video p = Copy \<longrightarrow>
            is_some_and (n_v ni) (\<lambda>s. video_fits (ni_profile ni) s
              \<and> muxable g (pl_segment_format p) ''video'' (v_codec s))
            \<and> \<not> over_cap ni \<and> \<not> hdr_veto ni \<and> \<not> burn_active ni
            \<and> pl_burn_subtitle p = None \<and> pl_burn_ass p = None)
       \<and> (pl_audio p = Copy \<longrightarrow>
            a_client_ok ni
            \<and> is_some_and (n_a ni) (\<lambda>s. muxable g (pl_segment_format p) ''audio'' (a_codec s)))"
proof -
  obtain b where "negotiate_for_executors g ni
      = negotiate_for_executors_impl g (ni\<lparr>ni_force_audio_encode := b\<rparr>)"
    by (rule negotiate_for_executors_cases)
  then have p: "p = n_plan g (ni\<lparr>ni_force_audio_encode := b\<rparr>)"
    using assms by (simp add: plan_simps)
  let ?f = "pl_segment_format p"
  have "cand_video g ni ?f = Copy \<and> pl_burn_subtitle p = None \<and> pl_burn_ass p = None"
    if "pl_video p = Copy"
    using that n_video_Copy [of g "ni\<lparr>ni_force_audio_encode := b\<rparr>"]
    by (simp add: p n_plan_sel opt_filter_def split: option.splits)
  moreover have "cand_audio g (ni\<lparr>ni_force_audio_encode := b\<rparr>) ?f = Copy" if "pl_audio p = Copy"
    using that by (simp add: p plan_simps)
  ultimately show ?thesis
    by (auto simp: cand_video_Copy cand_audio_Copy v_client_ok_def is_some_and_iff)
qed

text \<open>Witness of C3: an H.264 film with AAC sound is copied into MPEG-TS for the same browser.\<close>

theorem copy_sound_witness:
  "let ni = sample_input CapabilityProfile_default
              (sample_info [sample_video ''h264''] [sample_audio ''aac''] [''srt'']);
       p = sp_plan (negotiate_for_executors sample_gst ni)
   in pl_video p = Copy \<and> pl_audio p = Copy \<and> a_client_ok ni \<and> \<not> burn_active ni"
proof -
  let ?ni = "sample_input CapabilityProfile_default
              (sample_info [sample_video ''h264''] [sample_audio ''aac''] [''srt''])"
  let ?p = "sp_plan (negotiate_for_executors sample_gst ?ni)"
  have run: "pl_video ?p = Copy" "pl_audio ?p = Copy"
    by (simp_all add: negotiate_no_force plan_simps sample_run)
  from copy_sound [OF refl, of sample_gst ?ni] run show ?thesis by (simp add: Let_def)
qed

text \<open>C4. What MPEG-TS carries. A session in MPEG-TS segments delivers H.264 video only, copied or
  encoded, and never copies an audio codec the players' transport-stream parsers lack; what it
  encodes is AAC. This holds for every client, ceiling or not.\<close>

theorem ts_payload:
  assumes "p = sp_plan (negotiate_for_executors g ni)" and "pl_segment_format p = Ts"
  shows "(pl_video p = Copy \<longrightarrow> is_some_and (n_v ni) (\<lambda>s. v_codec s = ''h264''))
       \<and> (pl_video p = Encode \<longrightarrow> pl_video_codec p = H264)
       \<and> (pl_audio p = Copy \<longrightarrow>
            is_some_and (n_a ni) (\<lambda>s. a_codec s \<notin> {''opus'', ''flac'', ''vorbis''}))
       \<and> (pl_audio p = Encode \<longrightarrow> pl_audio_codec p = Aac)"
proof -
  obtain b where "negotiate_for_executors g ni
      = negotiate_for_executors_impl g (ni\<lparr>ni_force_audio_encode := b\<rparr>)"
    by (rule negotiate_for_executors_cases)
  moreover define ni' where "ni' = ni\<lparr>ni_force_audio_encode := b\<rparr>"
  ultimately have p: "p = n_plan g ni'" using assms(1) by (simp add: plan_simps)
  then have ts: "n_segment_format g ni' = Ts" using assms(2) by (simp add: plan_simps)
  then have ok: "ts_delivers_h264 g ni'" "ts_delivers_playable_audio g ni'"
    by (auto simp: n_segment_format_def split: if_splits)
  have va: "n_v ni' = n_v ni" "n_a ni' = n_a ni" by (simp_all add: ni'_def)
  have "is_some_and (n_v ni) (\<lambda>s. v_codec s = ''h264'')" if "pl_video p = Copy"
    using that ok(1) n_video_Copy [of g ni'] ts va
    by (simp add: p n_plan_sel ts_delivers_h264_def candidate_sel)
  moreover have "is_some_and (n_a ni) (\<lambda>s. a_codec s \<notin> {''opus'', ''flac'', ''vorbis''})"
    if "pl_audio p = Copy"
    using that ok(2) ts va cand_audio_Copy [of g ni' Ts]
    by (auto simp: p plan_simps ts_delivers_playable_audio_def is_some_and_iff)
  moreover have "pl_video_codec p = H264"
    by (simp add: p plan_simps ts cand_vt_def)
  moreover have "pl_audio_codec p = Aac"
    by (simp add: p plan_simps ts cand_at_def)
  ultimately show ?thesis by blast
qed

text \<open>Witness of C4: the H.264 and AAC film again, which is served as MPEG-TS.\<close>

theorem ts_payload_witness:
  "let ni = sample_input CapabilityProfile_default
              (sample_info [sample_video ''h264''] [sample_audio ''ac3''] []);
       p = sp_plan (negotiate_for_executors sample_gst ni)
   in pl_segment_format p = Ts \<and> pl_video p = Copy \<and> pl_audio p = Encode \<and> pl_audio_codec p = Aac"
proof -
  let ?ni = "sample_input CapabilityProfile_default
              (sample_info [sample_video ''h264''] [sample_audio ''ac3''] [])"
  let ?p = "sp_plan (negotiate_for_executors sample_gst ?ni)"
  have run: "pl_segment_format ?p = Ts" "pl_video ?p = Copy" "pl_audio ?p = Encode"
    by (simp_all add: negotiate_no_force plan_simps sample_run)
  from ts_payload [OF refl run(1)] run show ?thesis by (simp add: Let_def)
qed

text \<open>C5. Burns are honest. A plan names a subtitle to burn, embedded or beside the file, only when
  it encodes the video that carries it; the index is valid and names an image track (a VobSub file
  when it is a sidecar) or a styled script, the display sets are readable, and at most one script is
  burned.\<close>

theorem burn_honest:
  assumes "sp = negotiate_for_executors g ni" and "p = sp_plan sp"
  shows "(pl_burn_subtitle p \<noteq> None \<or> pl_burn_ass p \<noteq> None \<or> sp_burn_sidecar sp \<noteq> None
            \<or> sp_burn_ass_sidecar sp \<noteq> None \<longrightarrow> pl_video p = Encode)
       \<and> (\<forall>i. pl_burn_subtitle p = Some i \<longrightarrow> ni_burn_capable ni
            \<and> i < length (subtitles (ni_info ni))
            \<and> is_image_format (s_format (subtitles (ni_info ni) ! i)))
       \<and> (\<forall>i. sp_burn_sidecar sp = Some i \<longrightarrow> ni_burn_capable ni
            \<and> i < length (external_subtitles (ni_info ni))
            \<and> x_format (external_subtitles (ni_info ni) ! i) = ''vobsub'')
       \<and> (\<forall>i. pl_burn_ass p = Some i \<longrightarrow> i < length (subtitles (ni_info ni))
            \<and> is_ass_format (s_format (subtitles (ni_info ni) ! i)))
       \<and> (\<forall>i. sp_burn_ass_sidecar sp = Some i \<longrightarrow> i < length (external_subtitles (ni_info ni))
            \<and> is_ass_format (x_format (external_subtitles (ni_info ni) ! i)))
       \<and> \<not> (pl_burn_ass p \<noteq> None \<and> sp_burn_ass_sidecar sp \<noteq> None)"
proof -
  obtain b where sp: "sp = negotiate_for_executors_impl g (ni\<lparr>ni_force_audio_encode := b\<rparr>)"
    using negotiate_for_executors_cases assms(1) by metis
  define enc where "enc = (n_video g (ni\<lparr>ni_force_audio_encode := b\<rparr>) = Encode)"
  obtain t f where tf: "n_burn_ass ni = (t, f)" by fastforce
  have fields: "pl_burn_subtitle p = opt_filter (\<lambda>_. enc) (n_burn_subtitle ni)"
    "pl_burn_ass p = opt_filter (\<lambda>_. enc) t"
    "sp_burn_ass_sidecar sp = opt_filter (\<lambda>_. enc) f"
    "sp_burn_sidecar sp = (case forced_burn ni of
        Some (Sidecar i) \<Rightarrow> if enc then Some i else None | _ \<Rightarrow> None)"
    "(pl_video p = Encode) = enc"
    unfolding enc_def using tf
    by (simp_all add: assms(2) sp impl_sel n_plan_sel negotiate_for_executors_impl_def)
  have side: "ni_burn_capable ni \<and> i < length (external_subtitles (ni_info ni))
      \<and> x_format (external_subtitles (ni_info ni) ! i) = ''vobsub''"
    if "forced_burn ni = Some (Sidecar i)" for i
    using forced_burn_Some [OF that] by (auto simp: get_eq_Some)
  have "sp_burn_sidecar sp = Some i \<Longrightarrow> enc \<and> forced_burn ni = Some (Sidecar i)" for i
    by (auto simp: fields(4) split: option.splits BurnPick.splits if_splits)
  then show ?thesis
    using n_burn_ass_valid [of ni] n_burn_subtitle_valid [of ni] side
    by (auto simp: tf fields(1,2,3,5) opt_filter_eq_Some)
qed

text \<open>Witness of C5: the second subtitle of the film is a PGS track and the client composites none, so
  it is burned into an encode of a video that would have been copied.\<close>

theorem burn_honest_witness:
  "let ni = sample_input CapabilityProfile_default
              (sample_info [sample_video ''h264''] [sample_audio ''aac''] [''srt'', ''pgs'']);
       p = sp_plan (negotiate_for_executors sample_gst ni)
   in pl_burn_subtitle p = Some 1 \<and> pl_video p = Encode \<and> 1 < length (subtitles (ni_info ni))"
proof -
  let ?ni = "sample_input CapabilityProfile_default
              (sample_info [sample_video ''h264''] [sample_audio ''aac''] [''srt'', ''pgs''])"
  have "pl_burn_subtitle (sp_plan (negotiate_for_executors sample_gst ?ni)) = Some 1"
    by (simp add: negotiate_no_force plan_simps burn_sample sample_run)
  with burn_honest [OF refl refl, of sample_gst ?ni] show ?thesis by (simp add: Let_def)
qed

text \<open>C6. Direct play is sound. When the file is served as it is, it is one file in a container the
  client takes, each selected stream is one the client takes, nothing had to be burned in and no
  audio encode was granted; and the cost says \<open>Direct\<close> exactly then.\<close>

theorem direct_sound:
  assumes "sp = negotiate_for_executors g ni"
  shows "(sp_direct sp \<longleftrightarrow> sp_cost sp = C_Direct)
       \<and> (sp_direct sp \<longrightarrow> ni_single_part ni \<and> container_ok ni
            \<and> (\<forall>s. n_v ni = Some s \<longrightarrow> video_fits (ni_profile ni) s \<and> \<not> over_cap ni \<and> \<not> hdr_veto ni)
            \<and> (n_a ni \<noteq> None \<longrightarrow> a_client_ok ni)
            \<and> (n_v ni \<noteq> None \<or> n_a ni \<noteq> None)
            \<and> \<not> burn_active ni)"
proof -
  obtain b where sp: "sp = negotiate_for_executors_impl g (ni\<lparr>ni_force_audio_encode := b\<rparr>)"
    using negotiate_for_executors_cases assms by metis
  let ?ni = "ni\<lparr>ni_force_audio_encode := b\<rparr>"
  have "\<not> burn_active ni" if "n_direct ?ni"
    using n_direct_no_burn [OF that] by simp
  moreover have "ni_single_part ni \<and> container_ok ni \<and> (n_v ni = None \<or> v_client_ok ni)
      \<and> (n_a ni = None \<or> a_client_ok ni) \<and> (n_v ni \<noteq> None \<or> n_a ni \<noteq> None)" if "n_direct ?ni"
    using that by (simp add: n_direct_def)
  ultimately show ?thesis
    unfolding sp impl_sel n_cost_Direct by (auto simp: v_client_ok_def)
qed

text \<open>Witness of C6: a VP8 film in WebM, on a browser that plays VP8 and Vorbis.\<close>

theorem direct_sound_witness:
  "let ni = (sample_input (CapabilityProfile_default\<lparr>p_video := [sample_cap ''vp8''],
                             p_audio := [''vorbis'']\<rparr>)
              (sample_info [sample_video ''vp8''] [sample_audio ''vorbis''] []))
              \<lparr>ni_single_part := True\<rparr>
   in sp_direct (negotiate_for_executors sample_gst ni) \<and> container_ok ni \<and> a_client_ok ni"
proof -
  let ?ni = "(sample_input (CapabilityProfile_default\<lparr>p_video := [sample_cap ''vp8''],
                             p_audio := [''vorbis'']\<rparr>)
              (sample_info [sample_video ''vp8''] [sample_audio ''vorbis''] []))
              \<lparr>ni_single_part := True\<rparr>"
  have "sp_direct (negotiate_for_executors sample_gst ?ni)" "n_a ?ni \<noteq> None"
    by (simp_all add: negotiate_no_force plan_simps direct_sample)
  with direct_sound [OF refl, of sample_gst ?ni] show ?thesis by (simp add: Let_def)
qed

text \<open>The guarantee a \<open>short\<close> client buys. When a plan delivers video to a client with a segment
  ceiling, the declared target duration stays within the ceiling (two seconds at least, the
  encoder's own), and a video that is still copied has a measured keyframe gap that fits it or
  a ceiling no smaller than the 16 seconds an unmeasured gap is assumed to need.\<close>

theorem short_ceiling_kept:
  assumes "sp = negotiate_for_executors g ni" and "p = sp_plan sp"
    and "ceiling_secs (p_target_duration (ni_profile ni)) = Some ceil"
    and "pl_video p \<noteq> Off"
  shows "sp_target_duration_secs sp \<le> max ceil 2
       \<and> (pl_video p = Copy \<longrightarrow>
            (case n_gap_ms ni of Some gap \<Rightarrow> (2500 + unat gap) div 1000 \<le> unat ceil
                               | None \<Rightarrow> 16 \<le> ceil))"
proof -
  obtain b where sp: "sp = negotiate_for_executors_impl g (ni\<lparr>ni_force_audio_encode := b\<rparr>)"
    using negotiate_for_executors_cases assms(1) by metis
  let ?ni = "ni\<lparr>ni_force_audio_encode := b\<rparr>" and ?td = "p_target_duration (ni_profile ni)"
  have td: "?td \<noteq> Ignore" using assms(3) by auto
  have vid: "pl_video p = n_video g ?ni" by (simp add: assms(2) sp impl_sel n_plan_sel)
  have decl: "sp_target_duration_secs sp = declared_target_secs ?td (n_gap_ms ni) (pl_video p = Encode)"
    by (simp add: vid) (simp add: sp negotiate_for_executors_impl_def)
  show ?thesis
  proof (cases "pl_video p = Copy")
    case False
    with assms(4) have "pl_video p = Encode" by (cases "pl_video p") auto
    with decl False show ?thesis by (simp add: declared_target_encoded)
  next
    case True
    then have le: "declared_target_secs ?td (n_gap_ms ni) False \<le> ceil"
      using n_video_Copy [of g ?ni] vid assms(3) True by (simp add: short_override_def not_less)
    have "case n_gap_ms ni of Some gap \<Rightarrow> (2500 + unat gap) div 1000 \<le> unat ceil | None \<Rightarrow> 16 \<le> ceil"
    proof (cases "n_gap_ms ni")
      case None
      with le td show ?thesis
        by (cases ?td) (simp_all add: declared_target_secs_def UNKNOWN_GAP_TARGET_SECS_def)
    next
      case (Some gap)
      then show ?thesis
        using le declared_target_nat [OF td, of gap] by (simp add: word_le_nat_alt)
    qed
    with le decl True show ?thesis by (simp add: le_max_iff_disj)
  qed
qed

text \<open>Witness: the H.264 film, whose keyframes lie 10.43 seconds apart, copied for a client that
  accepts segments of 20 seconds.\<close>

theorem short_ceiling_kept_witness:
  "let ni = sample_input (CapabilityProfile_default\<lparr>p_target_duration := Short 20\<rparr>)
              (sample_info [sample_video ''h264''] [] []);
       sp = negotiate_for_executors sample_gst ni
   in pl_video (sp_plan sp) = Copy \<and> sp_target_duration_secs sp \<le> 20"
proof -
  let ?ni = "sample_input (CapabilityProfile_default\<lparr>p_target_duration := Short 20\<rparr>)
              (sample_info [sample_video ''h264''] [] [])"
  have run: "pl_video (sp_plan (negotiate_for_executors sample_gst ?ni)) = Copy"
    by (simp add: negotiate_no_force plan_simps short_sample)
  have "ceiling_secs (p_target_duration (ni_profile ?ni)) = Some 20" by (simp add: max_def word_le_nat_alt)
  from short_ceiling_kept [OF refl refl this, of sample_gst] run show ?thesis by (simp add: Let_def max_def word_le_nat_alt)
qed

text \<open>The declared target duration covers the segments. A copy is cut at the source's keyframes
  once the two-second fragment target has passed, so a segment is at most that target and one
  keyframe gap long; rounded to the nearest second it never exceeds what an \<open>accurate\<close> or \<open>short\<close>
  client was told, and the arithmetic does not overflow for any 32-bit gap.\<close>

theorem declared_target_covers:
  assumes "mode \<noteq> Ignore" and "seg_ms \<le> unat FRAGMENT_TARGET_SECS * 1000 + unat gap"
  shows "(seg_ms + 500) div 1000 \<le> unat (declared_target_secs mode (Some gap) False)"
proof -
  have "seg_ms + 500 \<le> 2500 + unat gap" using assms(2) by (simp add: FRAGMENT_TARGET_SECS_def)
  then have "(seg_ms + 500) div 1000 \<le> (2500 + unat gap) div 1000" by (rule div_le_mono)
  then show ?thesis using declared_target_nat [OF assms(1), of gap] by simp
qed

theorem declared_target_covers_witness:
  "((10580::nat) + 500) div 1000 \<le> unat (declared_target_secs Accurate (Some 10430) False)"
  by (rule declared_target_covers) (simp_all add: FRAGMENT_TARGET_SECS_def)

text \<open>A forced audio encode (loudness normalisation) never makes the session dearer than an audio
  encode: the result costs at most the unforced plan or an audio encode, so it is never the reason
  video is encoded or a source becomes unplayable.\<close>

theorem force_audio_cost:
  "sp_cost (negotiate_for_executors g ni)
     \<le> max (sp_cost (negotiate_for_executors g (ni\<lparr>ni_force_audio_encode := False\<rparr>))) C_AudioEncode"
proof -
  let ?N = "ni\<lparr>ni_force_audio_encode := False\<rparr>" and ?F = "ni\<lparr>ni_force_audio_encode := True\<rparr>"
  let ?n = "negotiate_for_executors_impl g ?N" and ?f = "negotiate_for_executors_impl g ?F"
  have unforced: "negotiate_for_executors g ?N = ?n" by (simp add: negotiate_no_force)
  show ?thesis
  proof (cases "negotiate_for_executors g ni = ?n")
    case True
    then show ?thesis by (simp add: unforced)
  next
    case False
    then have forced: "negotiate_for_executors g ni = ?f" and aud: "n_audio g ?F = Encode"
      and vid: "if n_direct ?N then (if video (ni_info ni) = [] then n_video g ?F = Off
          else n_video g ?F = Copy) else n_video g ?F = n_video g ?N"
      unfolding negotiate_for_executors_def Let_def impl_sel n_plan_sel by (simp_all split: if_splits)
    have nodirect: "\<not> n_direct ?F" by (simp add: n_direct_def)
    have play: "playable (n_plan g ?F)" using aud by (simp add: playable_def has_audio_def n_plan_sel)
    have empty: "video (ni_info ni) = [] \<Longrightarrow> n_v ni = None" by (simp add: n_v_def get_def)
    show ?thesis
      unfolding forced unforced impl_sel
      using vid aud nodirect play empty
      by (cases "n_direct ?N"; cases "n_video g ?F")
         (auto simp: n_cost_def less_eq_Cost_def max_def split: if_splits)
  qed
qed

text \<open>Unknown facts never veto. If a stream with its probed facts fits the client, the same stream
  with any of the depth, profile, level or frame rate missing (a row probed before they were
  recorded) fits too: missing facts cannot turn a copy into an encode.\<close>

theorem unknown_permissive:
  assumes "forgets v' v" and "video_fits profile v"
  shows "video_fits profile v'"
proof -
  have eqs: "v_codec v' = v_codec v" "v_height v' = v_height v" "v_fps v' \<in> {None, v_fps v}"
    using assms(1) by (simp_all add: forgets_def)
  have "list_ex (\<lambda>c. cap_admits (v_codec v) c v') (filter (\<lambda>c. c_codec c = v_codec v) (p_video profile))"
    using assms(2) cap_admits_forgets [OF assms(1)]
    by (auto simp: video_fits_def list_ex_iff split: if_splits)
  then show ?thesis using assms(2) eqs by (auto simp: video_fits_def is_some_and_iff split: if_splits)
qed

theorem unknown_permissive_witness:
  "video_fits CapabilityProfile_default ((sample_video ''h264'')\<lparr>v_profile := None, v_fps := None\<rparr>)"
proof (rule unknown_permissive)
  show "forgets ((sample_video ''h264'')\<lparr>v_profile := None, v_fps := None\<rparr>) (sample_video ''h264'')"
    by (simp add: forgets_def)
  show "video_fits CapabilityProfile_default (sample_video ''h264'')"
    by (simp add: video_fits_def cap_admits_def)
qed

text \<open>The depth limit handed to an encoder agrees with the depth a copy is admitted at: a stream
  that fits the client never has more bits than \<open>codec_depth_limit\<close> of its codec, however many
  alternative capabilities the client lists.\<close>

theorem depth_limit_coherent:
  assumes "video_fits profile v"
  shows "\<not> exceeds (v_bit_depth v) (codec_depth_limit profile (v_codec v))"
proof (cases "codec_depth_limit profile (v_codec v)")
  case None
  then show ?thesis by simp
next
  case (Some limit)
  from assms obtain c where c: "c \<in> set (p_video profile)" "c_codec c = v_codec v"
    and admits: "cap_admits (v_codec v) c v"
    by (auto simp: video_fits_def list_ex_iff split: if_splits)
  obtain m where m: "c_max_bit_depth c = Some m" "m \<le> limit"
    using codec_depth_limit_ge [OF Some c] by blast
  with admits Some show ?thesis
    by (auto simp: cap_admits_def exceeds_def split: if_splits option.splits)
qed

theorem depth_limit_coherent_witness:
  "\<not> exceeds (v_bit_depth (sample_video ''h264'')) (codec_depth_limit CapabilityProfile_default ''h264'')"
  using depth_limit_coherent [of CapabilityProfile_default "sample_video ''h264''"]
  by (simp add: video_fits_def cap_admits_def)

text \<open>Sound is dropped only when nothing carries it. If the source has an audio track and the
  plan delivers none, then fragmented MP4, the richer of the two containers, would have dropped it
  too: the cheaper container never costs the session its sound.\<close>

theorem audio_dropped_only_if_undeliverable:
  assumes "p = sp_plan (negotiate_for_executors g ni)" and "n_a ni = Some a" and "pl_audio p = Off"
  shows "\<exists>b. cand_audio g (ni\<lparr>ni_force_audio_encode := b\<rparr>) Fmp4 = Off
         \<and> (b \<longrightarrow> ni_force_audio_encode ni)"
proof -
  obtain b where sp: "negotiate_for_executors g ni
      = negotiate_for_executors_impl g (ni\<lparr>ni_force_audio_encode := b\<rparr>)"
    and b: "b \<longrightarrow> ni_force_audio_encode ni"
    by (rule negotiate_for_executors_cases)
  let ?ni = "ni\<lparr>ni_force_audio_encode := b\<rparr>"
  have off: "cand_audio g ?ni (n_segment_format g ?ni) = Off"
    using assms(1,3) sp by (simp add: plan_simps)
  have "cand_audio g ?ni Fmp4 = Off"
  proof (cases "n_segment_format g ?ni")
    case Fmp4
    with off show ?thesis by simp
  next
    case Ts
    then have "\<not> key_less (cd_key (candidate g ?ni Fmp4)) (cd_key (candidate g ?ni Ts))"
      by (auto simp: n_segment_format_def split: if_splits)
    with off Ts assms(2) show ?thesis
      by (auto simp: key_less_def candidate_sel split: if_splits)
  qed
  with b show ?thesis by blast
qed

text \<open>Witness: nothing decodes or carries TrueHD for this browser, and the film plays mute.\<close>

theorem audio_dropped_only_if_undeliverable_witness:
  "let ni = sample_input CapabilityProfile_default
              (sample_info [sample_video ''h264''] [sample_audio ''truehd''] [])
   in pl_audio (sp_plan (negotiate_for_executors sample_gst ni)) = Off
    \<and> (\<exists>b. cand_audio sample_gst (ni\<lparr>ni_force_audio_encode := b\<rparr>) Fmp4 = Off)"
proof -
  let ?ni = "sample_input CapabilityProfile_default
              (sample_info [sample_video ''h264''] [sample_audio ''truehd''] [])"
  have off: "pl_audio (sp_plan (negotiate_for_executors sample_gst ?ni)) = Off"
    by (simp add: negotiate_no_force plan_simps sample_run)
  have "n_a ?ni = Some (sample_audio ''truehd'')" by simp
  from audio_dropped_only_if_undeliverable [OF refl this off] off show ?thesis by (auto simp: Let_def)
qed

section \<open>Where the code leaves its comments\<close>

text \<open>The honesty rule fails under a ceiling. A client that takes HEVC only, with a six-second
  ceiling, on a fleet that verified no video encoder: the plan copies HEVC, the keyframe gap does
  not fit the ceiling, and the copy becomes an encode to H.264, which neither the client accepts
  nor any executor offers.\<close>

theorem short_override_not_honest:
  "let ni = bare_fleet (hevc_only (Short 6)) [sample_video ''hevc''] [sample_audio ''aac''];
       p = sp_plan (negotiate_for_executors sample_gst ni)
   in pl_video p = Encode \<and> pl_video_codec p = H264
    \<and> \<not> list_ex (\<lambda>c. c_codec c = ''h264'') (p_video (ni_profile ni)) \<and> ni_video_targets ni = []"
proof -
  let ?ni = "bare_fleet (hevc_only (Short 6)) [sample_video ''hevc''] [sample_audio ''aac'']"
  have nt: "\<not> takes_video ?ni t" for t by (simp add: takes_video_def bare_fleet_def)
  have "declared_target_secs (Short 6) (Some 10430) False = 12"
    by (simp add: declared_target_secs_def DEFAULT_TARGET_DURATION_SECS_def FRAGMENT_TARGET_SECS_def
        max_def)
  then have "short_override sample_gst ?ni"
    by (simp add: short_override_def bare_fleet_hevc n_gap_ms_def max_def word_less_nat_alt)
  moreover have "cand_vt ?ni fmt = H264" for fmt
    by (cases fmt) (simp_all add: cand_vt_def nt)
  ultimately show ?thesis
    by (simp add: Let_def negotiate_no_force plan_simps) (simp add: bare_fleet_def)
qed

text \<open>An unmeasured gap does not always force the encode. With a ceiling of 16 seconds or more,
  a source whose keyframe spacing was never measured is still copied, so nothing bounds its
  segments, and the ceiling is not guaranteed.\<close>

theorem short_unmeasured_copied:
  assumes "16 \<le> (m::u32)"
  shows "let ni = bare_fleet (hevc_only (Short m))
              [(sample_video ''hevc'')\<lparr>v_max_keyframe_interval_ms := None\<rparr>] [];
             sp = negotiate_for_executors sample_gst ni
         in pl_video (sp_plan sp) = Copy \<and> sp_target_duration_secs sp = 16"
proof -
  let ?ni = "bare_fleet (hevc_only (Short m))
              [(sample_video ''hevc'')\<lparr>v_max_keyframe_interval_ms := None\<rparr>] []"
  have d: "declared_target_secs (Short m) None False = 16"
    by (simp add: declared_target_secs_def UNKNOWN_GAP_TARGET_SECS_def)
  have gap: "n_gap_ms ?ni = None" by (simp add: n_gap_ms_def)
  have "\<not> short_override sample_gst ?ni"
    using assms by (simp add: short_override_def gap d not_less le_max_iff_disj)
  then have "n_video sample_gst ?ni = Copy" by (simp add: n_video_eq bare_fleet_hevc)
  then show ?thesis
    using d gap by (simp add: Let_def negotiate_no_force n_plan_sel impl_sel)
      (simp add: negotiate_for_executors_impl_def)
qed

theorem short_unmeasured_copied_witness:
  "pl_video (sp_plan (negotiate_for_executors sample_gst (bare_fleet (hevc_only (Short 20))
              [(sample_video ''hevc'')\<lparr>v_max_keyframe_interval_ms := None\<rparr>] []))) = Copy"
  using short_unmeasured_copied [of 20] by (simp add: Let_def)

text \<open>A plan can be direct and incomplete at once: a VP8 film in WebM is served as it is to a
  client that plays it, and is still ranked as if it dropped its streams, because no muxer caps are
  known for VP8.\<close>

theorem direct_yet_incomplete:
  "let ni = (sample_input (CapabilityProfile_default\<lparr>p_video := [sample_cap ''vp8''],
                             p_audio := [''vorbis'']\<rparr>)
              (sample_info [sample_video ''vp8''] [sample_audio ''vorbis''] []))
              \<lparr>ni_single_part := True\<rparr>;
       sp = negotiate_for_executors sample_gst ni
   in sp_direct sp \<and> sp_incomplete sp"
proof -
  let ?ni = "(sample_input (CapabilityProfile_default\<lparr>p_video := [sample_cap ''vp8''],
                             p_audio := [''vorbis'']\<rparr>)
              (sample_info [sample_video ''vp8''] [sample_audio ''vorbis''] []))
              \<lparr>ni_single_part := True\<rparr>"
  have "\<not> muxable sample_gst fmt ''video'' ''vp8''" "\<not> decodable sample_gst ''video'' ''vp8''" for fmt
    by (simp_all add: muxable_def decodable_def codec_to_caps_def codec_to_caps_name_def)
  then have off: "cand_video sample_gst ?ni fmt = Off" for fmt
    by (simp add: cand_video_def direct_sample)
  have "\<not> short_override sample_gst ?ni" by (simp add: short_override_None)
  with off have "n_video sample_gst ?ni = Off" by (simp add: n_video_eq)
  then show ?thesis
    by (simp add: Let_def negotiate_no_force impl_sel direct_sample n_incomplete_def)
qed

end
