(* ===== verification/Scheduler.thy ===== *)
theory Scheduler
  imports Kahawai_Prelude "HOL-Library.Product_Lexorder"
begin

text \<open>
  The mediahost's admission authority, \<open>crates/kahawai-mediahost/src/scheduler.rs\<close>: jobs with a
  semantic priority wait for a bundle of resources (CPU slots, storage domains, exclusive names),
  interactive work pauses what it conflicts with, and admission inside a priority is round-robin
  between owners.

  The state is the record \<open>sched\<close>. \<open>Pending\<close> and \<open>Active\<close> have the same fields in the source (the
  second keeps its id as the key of a map), so both are the record \<open>Job\<close>; the map of active jobs is
  a list with distinct ids. The \<open>Control\<close> block of a job is shared between the queue and the job's
  permit: it lives in the store \<open>ctl\<close>, addressed by the job's id. A sorted set of the source is a
  set. The monotonic clock is the argument \<open>now\<close> of the operations that read it. Ids, sequence
  numbers and admission counts are unbounded here (64 bits in the source).
\<close>

section \<open>Definitions\<close>

subsection \<open>Priorities and resources\<close>

datatype Priority = Demand | CatalogFreshness | Attachments | Keyframes | Geometry | LocalMetadata
  | Ed2k | SubtitlePrewarm | Segments | Loudness

fun prio_rank :: "Priority \<Rightarrow> nat" where
  "prio_rank Demand = 0"
| "prio_rank CatalogFreshness = 1"
| "prio_rank Attachments = 2"
| "prio_rank Keyframes = 3"
| "prio_rank Geometry = 4"
| "prio_rank LocalMetadata = 5"
| "prio_rank Ed2k = 6"
| "prio_rank SubtitlePrewarm = 7"
| "prio_rank Segments = 8"
| "prio_rank Loudness = 9"

lemma prio_rank_inj: "prio_rank a = prio_rank b \<Longrightarrow> a = b"
  by (cases a; cases b) simp_all

instantiation Priority :: linorder
begin

definition less_eq_Priority :: "Priority \<Rightarrow> Priority \<Rightarrow> bool" where
  "less_eq_Priority a b = (prio_rank a \<le> prio_rank b)"

definition less_Priority :: "Priority \<Rightarrow> Priority \<Rightarrow> bool" where
  "less_Priority a b = (prio_rank a < prio_rank b)"

instance
  by standard (auto simp: less_eq_Priority_def less_Priority_def prio_rank_inj)

end

record Resources =
  r_cpu :: nat
  r_io :: "string set"
  r_exclusive :: "string set"

definition conflicts :: "Resources \<Rightarrow> Resources \<Rightarrow> bool" where
  "conflicts self other =
     ((r_cpu self \<noteq> 0 \<and> r_cpu other \<noteq> 0)
      \<or> r_io self \<inter> r_io other \<noteq> {}
      \<or> r_exclusive self \<inter> r_exclusive other \<noteq> {})"

definition exclusive :: "Resources \<Rightarrow> string \<Rightarrow> Resources" where
  "exclusive self resource = self\<lparr>r_exclusive := insert resource (r_exclusive self)\<rparr>"

subsection \<open>Jobs and the state\<close>

record Control =
  granted :: bool
  pause :: bool
  cancelled :: bool

definition Control_default :: Control where
  "Control_default = \<lparr>granted = False, pause = False, cancelled = False\<rparr>"

type_synonym source = "string \<times> string \<times> string"

record Job =
  j_id :: nat
  j_sequence :: nat
  j_priority :: Priority
  j_base_priority :: Priority
  j_resources :: Resources
  j_owner :: "string option"
  j_label :: string
  j_demand_sources :: "source set"

type_synonym served_map = "Priority \<times> string option \<Rightarrow> nat"

record sched =
  next_id :: nat
  next_sequence :: nat
  cpu_capacity :: nat
  io_capacity :: "string \<rightharpoonup> nat"
  pending :: "Job list"
  active :: "Job list"
  served :: served_map
  interactive :: "(nat \<times> Resources) list"
  hints :: "((string \<times> source) \<times> nat) list"
  ctl :: "nat \<Rightarrow> Control"

definition set_ctl :: "nat \<Rightarrow> (Control \<Rightarrow> Control) \<Rightarrow> sched \<Rightarrow> sched" where
  "set_ctl i f st = st\<lparr>ctl := (ctl st)(i := f (ctl st i))\<rparr>"

text \<open>\<open>State::used\<close>: the CPU slots in use and the number of active jobs per storage domain.\<close>

definition used_cpu :: "sched \<Rightarrow> nat" where
  "used_cpu st = sum_list (map (\<lambda>a. r_cpu (j_resources a)) (active st))"

definition used_io :: "sched \<Rightarrow> string \<Rightarrow> nat" where
  "used_io st domain = length (filter (\<lambda>a. domain \<in> r_io (j_resources a)) (active st))"

definition io_cap :: "sched \<Rightarrow> string \<Rightarrow> nat" where
  "io_cap st domain = unwrap_or (io_capacity st domain) 1"

definition interrupted :: "sched \<Rightarrow> Resources \<Rightarrow> bool" where
  "interrupted st resources = list_ex (\<lambda>(_, i). conflicts i resources) (interactive st)"

definition available :: "sched \<Rightarrow> Resources \<Rightarrow> bool" where
  "available st resources =
     (if interrupted st resources then False
      else if used_cpu st + r_cpu resources > cpu_capacity st then False
      else (\<forall>domain \<in> r_io resources. used_io st domain < io_cap st domain)
           \<and> list_all (\<lambda>a. r_exclusive (j_resources a) \<inter> r_exclusive resources = {}) (active st))"

subsection \<open>Construction\<close>

record IoDomainConfig =
  d_name :: string
  d_roots :: "string list"
  d_max_concurrent :: nat

record SchedulerConfig =
  cfg_cpu_slots :: nat
  cfg_io_domains :: "IoDomainConfig list"

record Scheduler =
  sc_state :: sched
  sc_roots :: "string \<rightharpoonup> string"

datatype sched_error =
  NoCpuSlots | EmptyDomainName | EmptyDomain string | DuplicateDomain string | DuplicateRoot string
  | JobCancelled

definition FALLBACK_DOMAIN :: string where "FALLBACK_DOMAIN = ''auto:unknown''"

fun add_roots ::
    "string \<Rightarrow> string list \<Rightarrow> (string \<rightharpoonup> string) \<Rightarrow> sched_error + (string \<rightharpoonup> string)" where
  "add_roots key [] overrides = Inr overrides"
| "add_roots key (r # rs) overrides =
     (if overrides r \<noteq> None then Inl (DuplicateRoot r)
      else add_roots key rs (overrides(r \<mapsto> key)))"

fun add_domains ::
    "IoDomainConfig list \<Rightarrow> (string \<rightharpoonup> string) \<Rightarrow> (string \<rightharpoonup> nat)
      \<Rightarrow> sched_error + (string \<rightharpoonup> string) \<times> (string \<rightharpoonup> nat)" where
  "add_domains [] overrides caps = Inr (overrides, caps)"
| "add_domains (d # ds) overrides caps =
     (if trim (d_name d) = [] then Inl EmptyDomainName
      else if d_max_concurrent d = 0 then Inl (EmptyDomain (d_name d))
      else let key = ''config:'' @ d_name d in
        if caps key \<noteq> None then Inl (DuplicateDomain (d_name d))
        else (case add_roots key (d_roots d) overrides of
                Inl e \<Rightarrow> Inl e
              | Inr overrides' \<Rightarrow> add_domains ds overrides' (caps(key \<mapsto> d_max_concurrent d))))"

text \<open>\<open>BTreeMap::entry(k).or_insert(v)\<close>.\<close>

definition or_insert :: "('k \<rightharpoonup> 'v) \<Rightarrow> 'k \<Rightarrow> 'v \<Rightarrow> ('k \<rightharpoonup> 'v)" where
  "or_insert m k v = (if m k = None then m(k \<mapsto> v) else m)"

definition add_root_domain ::
    "(string \<Rightarrow> string) \<Rightarrow> (string \<Rightarrow> string) \<Rightarrow> (string \<rightharpoonup> string)
      \<Rightarrow> (string \<rightharpoonup> nat) \<times> (string \<rightharpoonup> string) \<Rightarrow> string \<Rightarrow> (string \<rightharpoonup> nat) \<times> (string \<rightharpoonup> string)" where
  "add_root_domain root_token automatic_domain override_roots = (\<lambda>(caps, roots) path.
     let domain = unwrap_or (override_roots path) (automatic_domain path)
     in (or_insert caps domain 1, roots(root_token path \<mapsto> domain)))"

text \<open>\<open>resolved_roots\<close> pairs every configured path with its token; the token is a digest of the
  path and the automatic domain a fact of the filesystem, both arguments here.\<close>

definition sched_new ::
    "(string \<Rightarrow> string) \<Rightarrow> (string \<Rightarrow> string) \<Rightarrow> string list \<Rightarrow> SchedulerConfig
      \<Rightarrow> sched_error + Scheduler" where
  "sched_new root_token automatic_domain collection_roots config =
     (if cfg_cpu_slots config = 0 then Inl NoCpuSlots
      else (case add_domains (cfg_io_domains config) Map.empty Map.empty of
        Inl e \<Rightarrow> Inl e
      | Inr (override_roots, caps0) \<Rightarrow>
          (let (caps1, roots) = foldl (add_root_domain root_token automatic_domain override_roots)
                 (caps0, Map.empty) collection_roots;
               caps2 = or_insert caps1 FALLBACK_DOMAIN 1
           in Inr \<lparr>sc_state =
                \<lparr>next_id = 1, next_sequence = 1, cpu_capacity = cfg_cpu_slots config,
                 io_capacity = caps2, pending = [], active = [], served = (\<lambda>_. 0),
                 interactive = [], hints = [], ctl = (\<lambda>_. Control_default)\<rparr>,
                sc_roots = roots\<rparr>)))"

text \<open>\<open>Scheduler::resources\<close>.\<close>

definition resources :: "(string \<rightharpoonup> string) \<Rightarrow> string list \<Rightarrow> bool \<Rightarrow> Resources" where
  "resources sroots roots cpu_heavy =
     \<lparr>r_cpu = (if cpu_heavy then 1 else 0),
      r_io = (\<lambda>root. unwrap_or (sroots root) FALLBACK_DOMAIN) ` set roots,
      r_exclusive = {}\<rparr>"

subsection \<open>Demand and preemption\<close>

definition hinted :: "sched \<Rightarrow> source set" where
  "hinted st = (\<lambda>((_, source), _). source) ` set (hints st)"

definition demanded :: "sched \<Rightarrow> source set \<Rightarrow> bool" where
  "demanded st sources = (\<exists>source \<in> sources. source \<in> hinted st)"

definition refreshed :: "sched \<Rightarrow> Job \<Rightarrow> Job" where
  "refreshed st j =
     j\<lparr>j_priority := (if demanded st (j_demand_sources j) then Demand else j_base_priority j)\<rparr>"

definition retain_hints :: "nat \<Rightarrow> sched \<Rightarrow> sched" where
  "retain_hints now st = st\<lparr>hints := filter (\<lambda>(_, expires). expires > now) (hints st)\<rparr>"

definition refresh_demand_priorities :: "nat \<Rightarrow> sched \<Rightarrow> sched" where
  "refresh_demand_priorities now st0 =
     (let st = retain_hints now st0
      in st\<lparr>pending := map (refreshed st) (pending st), active := map (refreshed st) (active st)\<rparr>)"

record preempt_request =
  q_priority :: Priority
  q_cpu :: nat
  q_cpu_full :: bool
  q_full_io :: "string set"
  q_exclusive :: "string set"

definition preempt_requests :: "sched \<Rightarrow> preempt_request list" where
  "preempt_requests st =
     map (\<lambda>p. let r = j_resources p in
        \<lparr>q_priority = j_priority p, q_cpu = r_cpu r,
         q_cpu_full = (r_cpu r \<noteq> 0 \<and> used_cpu st + r_cpu r > cpu_capacity st),
         q_full_io = Set.filter (\<lambda>domain. used_io st domain \<ge> io_cap st domain) (r_io r),
         q_exclusive = r_exclusive r\<rparr>)
       (filter (\<lambda>p. \<not> interrupted st (j_resources p)) (pending st))"

definition blocks :: "preempt_request \<Rightarrow> Job \<Rightarrow> bool" where
  "blocks q a =
     (let blocks_cpu = q_cpu_full q \<and> q_cpu q \<noteq> 0 \<and> r_cpu (j_resources a) \<noteq> 0;
          blocks_io = r_io (j_resources a) \<inter> q_full_io q \<noteq> {};
          blocks_exclusive = r_exclusive (j_resources a) \<inter> q_exclusive q \<noteq> {}
      in q_priority q < j_priority a \<and> (blocks_cpu \<or> blocks_io \<or> blocks_exclusive))"

definition pause_blocked :: "preempt_request \<Rightarrow> sched \<Rightarrow> sched" where
  "pause_blocked q st =
     fold (\<lambda>a s. if blocks q a then set_ctl (j_id a) (pause_update (\<lambda>_. True)) s else s)
       (active st) st"

definition request_preemption :: "nat \<Rightarrow> sched \<Rightarrow> sched" where
  "request_preemption now st0 =
     (let st1 = refresh_demand_priorities now st0;
          st2 = fold (\<lambda>a. set_ctl (j_id a) (pause_update (\<lambda>_. interrupted st1 (j_resources a))))
                  (active st1) st1
      in fold pause_blocked (preempt_requests st2) st2)"

subsection \<open>Admission order\<close>

definition job_key :: "Job \<Rightarrow> Priority \<times> string option" where
  "job_key j = (j_priority j, j_owner j)"

record fair_acc =
  f_next_rank :: "Priority \<times> string option \<Rightarrow> nat"
  f_rank :: "nat list"
  f_floor :: "Priority \<rightharpoonup> nat"

definition fair_step :: "Job list \<Rightarrow> served_map \<Rightarrow> nat \<Rightarrow> fair_acc \<Rightarrow> fair_acc" where
  "fair_step jobs srv index acc =
     (let job = jobs ! index;
          key = job_key job;
          slot = f_next_rank acc key;
          count = srv key;
          low = (case f_floor acc (j_priority job) of None \<Rightarrow> count | Some l \<Rightarrow> min l count)
      in \<lparr>f_next_rank = (f_next_rank acc)(key := slot + 1),
          f_rank = (f_rank acc)[index := slot],
          f_floor = (f_floor acc)(j_priority job \<mapsto> low)\<rparr>)"

definition fair_scan :: "Job list \<Rightarrow> served_map \<Rightarrow> nat list \<Rightarrow> fair_acc" where
  "fair_scan jobs srv order =
     fold (fair_step jobs srv) order
       \<lparr>f_next_rank = (\<lambda>_. 0), f_rank = replicate (length jobs) 0, f_floor = Map.empty\<rparr>"

definition fair_order :: "Job list \<Rightarrow> served_map \<Rightarrow> nat list" where
  "fair_order jobs srv =
     (let order = sort_key (\<lambda>i. (j_priority (jobs ! i), j_sequence (jobs ! i))) [0..<length jobs];
          acc = fair_scan jobs srv order
      in sort_key (\<lambda>i. let job = jobs ! i; count = srv (job_key job);
                            low = unwrap_or (f_floor acc (j_priority job)) 0
                        in (j_priority job, count - low + f_rank acc ! i, j_sequence job)) order)"

definition join_service_level :: "Priority \<Rightarrow> string option \<Rightarrow> sched \<Rightarrow> sched" where
  "join_service_level priority owner st =
     (if list_ex (\<lambda>j. j_priority j = priority \<and> j_owner j = owner) (pending st) then st
      else (case map (\<lambda>j. served st (priority, j_owner j))
                   (filter (\<lambda>j. j_priority j = priority) (pending st)) of
        [] \<Rightarrow> st
      | c # cs \<Rightarrow>
          (let floor = fold min cs c
           in st\<lparr>served := (served st)((priority, owner) := max (served st (priority, owner)) floor)\<rparr>)))"

subsection \<open>Dispatch\<close>

text \<open>\<open>Vec::swap_remove\<close>.\<close>

definition swap_remove :: "nat \<Rightarrow> 'a list \<Rightarrow> 'a list" where
  "swap_remove i xs = butlast (xs[i := last xs])"

definition select_job :: "sched \<Rightarrow> nat option" where
  "select_job st =
     find (\<lambda>i. available st (j_resources (pending st ! i))) (fair_order (pending st) (served st))"

text \<open>The body of the dispatch loop for the selected index. \<open>HashMap::insert\<close> replaces an entry with
  the same id.\<close>

definition admit_job :: "nat \<Rightarrow> sched \<Rightarrow> sched" where
  "admit_job index st =
     (let p = pending st ! index;
          key = job_key p;
          st1 = st\<lparr>pending := swap_remove index (pending st),
                  served := (served st)(key := served st key + 1)\<rparr>;
          st2 = set_ctl (j_id p) (\<lambda>c. c\<lparr>pause := False, granted := True\<rparr>) st1
      in st2\<lparr>active := filter (\<lambda>a. j_id a \<noteq> j_id p) (active st2) @ [p]\<rparr>)"

lemma set_fair_order: "set (fair_order jobs srv) = {0..<length jobs}"
  by (simp add: fair_order_def Let_def)

lemma select_job_lt: "select_job st = Some i \<Longrightarrow> i < length (pending st)"
  using set_fair_order [of "pending st" "served st"]
  by (auto simp: select_job_def find_Some_iff)

lemma length_swap_remove: "length (swap_remove i xs) = length xs - 1"
  by (simp add: swap_remove_def)

function dispatch_loop :: "sched \<Rightarrow> sched" where
  "dispatch_loop st =
     (case select_job st of None \<Rightarrow> st | Some index \<Rightarrow> dispatch_loop (admit_job index st))"
  by pat_completeness auto
termination
proof (relation "measure (\<lambda>st. length (pending st))")
  fix st i
  assume "select_job st = Some i"
  then have "i < length (pending st)" by (rule select_job_lt)
  then show "(admit_job i st, st) \<in> measure (\<lambda>st. length (pending st))"
    by (simp add: admit_job_def Let_def set_ctl_def length_swap_remove)
qed simp

declare dispatch_loop.simps [simp del]

definition dispatch :: "nat \<Rightarrow> sched \<Rightarrow> sched" where
  "dispatch now st = dispatch_loop (refresh_demand_priorities now st)"

text \<open>Every operation that changes the queue ends with these two calls.\<close>

definition settle :: "nat \<Rightarrow> sched \<Rightarrow> sched" where
  "settle now st = dispatch now (request_preemption now st)"

subsection \<open>Operations\<close>

text \<open>The part of \<open>acquire_with_sources\<close> under the lock; the caller then waits on its control block.\<close>

definition acquire_with_sources ::
    "nat \<Rightarrow> Priority \<Rightarrow> Resources \<Rightarrow> string option \<Rightarrow> string \<Rightarrow> source set \<Rightarrow> sched \<Rightarrow> nat \<times> sched" where
  "acquire_with_sources now priority res owner label demand_sources st =
     (let i = next_id st;
          sequence = next_sequence st;
          st1 = st\<lparr>next_id := i + 1, next_sequence := sequence + 1,
                  ctl := (ctl st)(i := Control_default)\<rparr>;
          st2 = join_service_level priority owner st1;
          job = \<lparr>j_id = i, j_sequence = sequence, j_priority = priority, j_base_priority = priority,
                 j_resources = res, j_owner = owner, j_label = label,
                 j_demand_sources = demand_sources\<rparr>
      in (i, settle now (st2\<lparr>pending := pending st2 @ [job]\<rparr>)))"

definition acquire ::
    "nat \<Rightarrow> Priority \<Rightarrow> Resources \<Rightarrow> string option \<Rightarrow> string \<Rightarrow> sched \<Rightarrow> nat \<times> sched" where
  "acquire now priority res owner label st =
     acquire_with_sources now priority res owner label {} st"

record DetectSegments =
  ds_collection_id :: string
  ds_episodes :: "(string \<times> string) option list"

definition acquire_segments ::
    "nat \<Rightarrow> Resources \<Rightarrow> string option \<Rightarrow> string \<Rightarrow> DetectSegments \<Rightarrow> sched \<Rightarrow> nat \<times> sched" where
  "acquire_segments now res owner label job st =
     acquire_with_sources now Segments res owner label
       (set (map (\<lambda>(root_token, path_rel). (ds_collection_id job, root_token, path_rel))
              (filter_map (\<lambda>episode. episode) (ds_episodes job)))) st"

text \<open>\<open>Control::wait_async\<close> and \<open>wait_blocking\<close>: \<open>None\<close> while the caller keeps waiting.\<close>

definition wait_result :: "Control \<Rightarrow> (sched_error + unit) option" where
  "wait_result c =
     (if cancelled c then Some (Inl JobCancelled) else if granted c then Some (Inr ()) else None)"

definition enter_interactive :: "Resources \<Rightarrow> sched \<Rightarrow> nat \<times> sched" where
  "enter_interactive res st =
     (let i = next_id st;
          st1 = st\<lparr>next_id := i + 1\<rparr>;
          st2 = fold (\<lambda>a s. if conflicts (j_resources a) res
                            then set_ctl (j_id a) (pause_update (\<lambda>_. True)) s else s) (active st1) st1
      in (i, st2\<lparr>interactive := filter (\<lambda>(k, _). k \<noteq> i) (interactive st2) @ [(i, res)]\<rparr>))"

definition enter_playback :: "(string \<rightharpoonup> string) \<Rightarrow> sched \<Rightarrow> nat \<times> sched" where
  "enter_playback sroots st = enter_interactive (resources sroots [] True) st"

definition leave_interactive :: "nat \<Rightarrow> nat \<Rightarrow> sched \<Rightarrow> sched" where
  "leave_interactive now i st =
     settle now (st\<lparr>interactive := filter (\<lambda>(k, _). k \<noteq> i) (interactive st)\<rparr>)"

definition cancel_owner :: "nat \<Rightarrow> string \<Rightarrow> sched \<Rightarrow> sched" where
  "cancel_owner now owner st =
     (let mine = (\<lambda>j. j_owner j = Some owner);
          st1 = fold (\<lambda>j. set_ctl (j_id j) (cancelled_update (\<lambda>_. True)))
                  (filter mine (pending st)) st;
          st2 = st1\<lparr>pending := filter (\<lambda>j. \<not> mine j) (pending st1)\<rparr>;
          st3 = fold (\<lambda>j. set_ctl (j_id j) (\<lambda>c. c\<lparr>cancelled := True, pause := True\<rparr>))
                  (filter mine (active st2)) st2;
          st4 = st3\<lparr>hints := filter (\<lambda>((hint_owner, _), _). hint_owner \<noteq> owner) (hints st3)\<rparr>
      in settle now st4)"

text \<open>Instants and durations are in nanoseconds.\<close>

definition MAX_DEMAND_HINT_TTL :: nat where
  "MAX_DEMAND_HINT_TTL = 60 * 60 * 1000000000"

definition hint_segment :: "nat \<Rightarrow> string \<Rightarrow> source \<Rightarrow> nat \<Rightarrow> sched \<Rightarrow> sched" where
  "hint_segment now owner source ttl st =
     (let st1 = retain_hints now st;
          st2 = st1\<lparr>hints := filter (\<lambda>(k, _). k \<noteq> (owner, source)) (hints st1)
                            @ [((owner, source), now + min ttl MAX_DEMAND_HINT_TTL)]\<rparr>;
          promote = (\<lambda>j. if source \<in> j_demand_sources j then j\<lparr>j_priority := Demand\<rparr> else j)
      in settle now (st2\<lparr>pending := map promote (pending st2), active := map promote (active st2)\<rparr>))"

definition yield_job :: "nat \<Rightarrow> nat \<Rightarrow> sched \<Rightarrow> sched" where
  "yield_job now i st =
     (case find (\<lambda>a. j_id a = i) (active st) of
        None \<Rightarrow> st
      | Some a \<Rightarrow>
          (let st1 = st\<lparr>active := filter (\<lambda>a. j_id a \<noteq> i) (active st)\<rparr>;
               st2 = set_ctl i (granted_update (\<lambda>_. False)) st1
           in settle now (st2\<lparr>pending := pending st2 @ [a]\<rparr>)))"

definition finish_job :: "nat \<Rightarrow> nat \<Rightarrow> sched \<Rightarrow> sched" where
  "finish_job now i st =
     (let st1 = st\<lparr>active := filter (\<lambda>a. j_id a \<noteq> i) (active st)\<rparr>;
          st2 = (case position (\<lambda>j. j_id j = i) (pending st1) of
                   None \<Rightarrow> st1
                 | Some index \<Rightarrow> st1\<lparr>pending := swap_remove index (pending st1)\<rparr>)
      in settle now st2)"

text \<open>\<open>JobPermit::checkpoint\<close>: the state after it and what the caller sees, \<open>None\<close> while it waits.
  The two flags are read before the lock is taken; here all of it is one step; the flags of a job are only
  set under the lock.\<close>

definition checkpoint :: "nat \<Rightarrow> nat \<Rightarrow> sched \<Rightarrow> (sched_error + unit) option \<times> sched" where
  "checkpoint now i st =
     (if cancelled (ctl st i) then (Some (Inl JobCancelled), st)
      else if \<not> pause (ctl st i) then (Some (Inr ()), st)
      else (let st' = yield_job now i st in (wait_result (ctl st' i), st')))"

subsection \<open>The transition system\<close>

text \<open>Resources are only ever built by \<open>resources\<close> and \<open>exclusive\<close>, and an interactive reservation
  is built the same way.\<close>

definition built :: "(string \<rightharpoonup> string) \<Rightarrow> Resources \<Rightarrow> bool" where
  "built sroots res \<longleftrightarrow>
     (\<exists>roots heavy names. res = foldl exclusive (resources sroots roots heavy) names)"

inductive sched_step :: "(string \<rightharpoonup> string) \<Rightarrow> sched \<Rightarrow> sched \<Rightarrow> bool"
  for sroots :: "string \<rightharpoonup> string" where
  Acquire: "built sroots res \<Longrightarrow>
     sched_step sroots st (snd (acquire_with_sources now priority res owner label sources st))"
| EnterInteractive: "built sroots res \<Longrightarrow> sched_step sroots st (snd (enter_interactive res st))"
| LeaveInteractive: "sched_step sroots st (leave_interactive now i st)"
| CancelOwner: "sched_step sroots st (cancel_owner now owner st)"
| HintSegment: "sched_step sroots st (hint_segment now owner source ttl st)"
| Checkpoint: "sched_step sroots st (snd (checkpoint now i st))"
| Finish: "sched_step sroots st (finish_job now i st)"

end
