(* ===== verification/Scheduler_Inv.thy ===== *)
theory Scheduler_Inv
  imports Scheduler
begin

text \<open>
  The invariant of the scheduler and its preservation by every operation. \<open>core_ok\<close> is what the
  queue and the control blocks satisfy at every point under the lock; \<open>settle\<close> turns it into the full
  invariant \<open>sched_ok\<close>, which adds that conflicting jobs are paused and that no admissible job waits.
\<close>

section \<open>Definitions\<close>

definition all_jobs :: "sched \<Rightarrow> Job list" where
  "all_jobs st = pending st @ active st"

definition exclusive_ok :: "Job list \<Rightarrow> bool" where
  "exclusive_ok js =
     sorted_wrt (\<lambda>a b. r_exclusive (j_resources a) \<inter> r_exclusive (j_resources b) = {}) js"

definition core_ok :: "sched \<Rightarrow> bool" where
  "core_ok st \<longleftrightarrow>
     distinct (map j_id (all_jobs st)) \<and> (\<forall>j \<in> set (all_jobs st). j_id j < next_id st)
   \<and> distinct (map j_sequence (all_jobs st)) \<and> (\<forall>j \<in> set (all_jobs st). j_sequence j < next_sequence st)
   \<and> used_cpu st \<le> cpu_capacity st \<and> (\<forall>d. used_io st d \<le> io_cap st d) \<and> exclusive_ok (active st)
   \<and> (\<forall>j \<in> set (pending st). \<not> granted (ctl st (j_id j)) \<and> \<not> cancelled (ctl st (j_id j)))
   \<and> (\<forall>j \<in> set (active st). granted (ctl st (j_id j)))
   \<and> (\<forall>j \<in> set (all_jobs st). j_priority j \<in> {Demand, j_base_priority j} \<and> r_cpu (j_resources j) \<le> 1)
   \<and> 0 < cpu_capacity st \<and> (\<forall>d. 0 < io_cap st d)
   \<and> (\<forall>(k, _) \<in> set (interactive st). k < next_id st)"

definition paused_ok :: "sched \<Rightarrow> bool" where
  "paused_ok st \<longleftrightarrow>
     (\<forall>a \<in> set (active st). interrupted st (j_resources a) \<longrightarrow> pause (ctl st (j_id a)))"

definition work_ok :: "sched \<Rightarrow> bool" where
  "work_ok st \<longleftrightarrow> (\<forall>j \<in> set (pending st). \<not> available st (j_resources j))"

definition sched_ok :: "sched \<Rightarrow> bool" where
  "sched_ok st \<longleftrightarrow> core_ok st \<and> paused_ok st \<and> work_ok st"

text \<open>Two states that differ in the pause flags only.\<close>

definition only_pause :: "sched \<Rightarrow> sched \<Rightarrow> bool" where
  "only_pause st st' \<longleftrightarrow> st' = st\<lparr>ctl := ctl st'\<rparr>
     \<and> (\<forall>i. granted (ctl st' i) = granted (ctl st i) \<and> cancelled (ctl st' i) = cancelled (ctl st i))"

text \<open>The states \<open>acquire_with_sources\<close> and \<open>finish_job\<close> hand to \<open>settle\<close>.\<close>

definition new_job :: "Priority \<Rightarrow> Resources \<Rightarrow> string option \<Rightarrow> string \<Rightarrow> source set \<Rightarrow> sched \<Rightarrow> Job" where
  "new_job priority res owner label sources st =
     \<lparr>j_id = next_id st, j_sequence = next_sequence st, j_priority = priority,
      j_base_priority = priority, j_resources = res, j_owner = owner, j_label = label,
      j_demand_sources = sources\<rparr>"

definition acquire_queued ::
    "Priority \<Rightarrow> Resources \<Rightarrow> string option \<Rightarrow> string \<Rightarrow> source set \<Rightarrow> sched \<Rightarrow> sched" where
  "acquire_queued priority res owner label sources st =
     (let st1 = st\<lparr>next_id := next_id st + 1, next_sequence := next_sequence st + 1,
                  ctl := (ctl st)(next_id st := Control_default)\<rparr>;
          st2 = join_service_level priority owner st1
      in st2\<lparr>pending := pending st2 @ [new_job priority res owner label sources st]\<rparr>)"

definition finish_removed :: "nat \<Rightarrow> sched \<Rightarrow> sched" where
  "finish_removed i st =
     (let st1 = st\<lparr>active := filter (\<lambda>a. j_id a \<noteq> i) (active st)\<rparr>
      in case position (\<lambda>j. j_id j = i) (pending st1) of
           None \<Rightarrow> st1
         | Some index \<Rightarrow> st1\<lparr>pending := swap_remove index (pending st1)\<rparr>)"

text \<open>The state \<open>cancel_owner\<close> hands to \<open>settle\<close>.\<close>

definition cancel_marked :: "string \<Rightarrow> sched \<Rightarrow> sched" where
  "cancel_marked owner st =
     (let mine = (\<lambda>j. j_owner j = Some owner);
          st1 = fold (\<lambda>j. set_ctl (j_id j) (cancelled_update (\<lambda>_. True)))
                  (filter mine (pending st)) st;
          st2 = st1\<lparr>pending := filter (\<lambda>j. \<not> mine j) (pending st1)\<rparr>;
          st3 = fold (\<lambda>j. set_ctl (j_id j) (\<lambda>c. c\<lparr>cancelled := True, pause := True\<rparr>))
                  (filter mine (active st2)) st2
      in st3\<lparr>hints := filter (\<lambda>((hint_owner, _), _). hint_owner \<noteq> owner) (hints st3)\<rparr>)"

text \<open>A scheduler that was built without an error, and every step of it.\<close>

definition sched_init :: "(string \<rightharpoonup> string) \<Rightarrow> sched \<Rightarrow> bool" where
  "sched_init sroots st \<longleftrightarrow>
     (\<exists>tok auto paths config sch. sched_new tok auto paths config = Inr sch
        \<and> sc_state sch = st \<and> sc_roots sch = sroots)"

section \<open>Frames\<close>

lemma set_ctl_sel [simp]:
  "next_id (set_ctl i f st) = next_id st" "next_sequence (set_ctl i f st) = next_sequence st"
  "cpu_capacity (set_ctl i f st) = cpu_capacity st" "io_capacity (set_ctl i f st) = io_capacity st"
  "pending (set_ctl i f st) = pending st" "active (set_ctl i f st) = active st"
  "served (set_ctl i f st) = served st" "interactive (set_ctl i f st) = interactive st"
  "hints (set_ctl i f st) = hints st" "ctl (set_ctl i f st) = (ctl st)(i := f (ctl st i))"
  by (simp_all add: set_ctl_def)

lemma only_pause_refl [simp]: "only_pause st st"
  by (simp add: only_pause_def)

lemma only_pause_trans: "only_pause a b \<Longrightarrow> only_pause b c \<Longrightarrow> only_pause a c"
  unfolding only_pause_def by (metis (no_types, lifting) sched.surjective sched.update_convs(10))

lemma only_pause_set_ctl: "only_pause st (set_ctl i (pause_update f) st)"
  by (simp add: only_pause_def set_ctl_def)

lemma only_pause_fold:
  assumes "\<And>x s. only_pause s (f x s)"
  shows "only_pause st (fold f xs st)"
proof (induction xs arbitrary: st)
  case Nil
  then show ?case by simp
next
  case (Cons x xs)
  show ?case using only_pause_trans [OF assms Cons.IH] by simp
qed

lemma only_pause_sel:
  assumes "only_pause st st'"
  shows "next_id st' = next_id st" "next_sequence st' = next_sequence st"
    "cpu_capacity st' = cpu_capacity st" "io_capacity st' = io_capacity st"
    "pending st' = pending st" "active st' = active st" "served st' = served st"
    "interactive st' = interactive st" "hints st' = hints st"
    "granted (ctl st' i) = granted (ctl st i)" "cancelled (ctl st' i) = cancelled (ctl st i)"
proof -
  from assms have e: "st' = st\<lparr>ctl := ctl st'\<rparr>" by (simp add: only_pause_def)
  show "next_id st' = next_id st" "next_sequence st' = next_sequence st"
    "cpu_capacity st' = cpu_capacity st" "io_capacity st' = io_capacity st"
    "pending st' = pending st" "active st' = active st" "served st' = served st"
    "interactive st' = interactive st" "hints st' = hints st"
    by (subst e, simp)+
  show "granted (ctl st' i) = granted (ctl st i)" "cancelled (ctl st' i) = cancelled (ctl st i)"
    using assms by (simp_all add: only_pause_def)
qed

text \<open>The derived quantities depend on the resources of the active jobs only.\<close>

lemma used_cong:
  assumes "map j_resources (active st') = map j_resources (active st)"
  shows "used_cpu st' = used_cpu st" "used_io st' d = used_io st d"
proof -
  have c: "used_cpu s = sum_list (map r_cpu (map j_resources (active s)))" for s
    by (simp add: used_cpu_def comp_def)
  have i: "used_io s d = length (filter (\<lambda>r. d \<in> r_io r) (map j_resources (active s)))" for s
    by (simp add: used_io_def filter_map comp_def)
  show "used_cpu st' = used_cpu st" "used_io st' d = used_io st d"
    using assms by (simp_all add: c i)
qed

lemma interrupted_cong: "interactive st' = interactive st \<Longrightarrow> interrupted st' r = interrupted st r"
  by (simp add: interrupted_def)

lemma io_cap_cong: "io_capacity st' = io_capacity st \<Longrightarrow> io_cap st' d = io_cap st d"
  by (simp add: io_cap_def)

lemma available_cong:
  assumes "map j_resources (active st') = map j_resources (active st)"
    and "interactive st' = interactive st" and "io_capacity st' = io_capacity st"
    and "cpu_capacity st' = cpu_capacity st"
  shows "available st' r = available st r"
proof -
  have ex: "list_all (\<lambda>a. r_exclusive (j_resources a) \<inter> r_exclusive r = {}) (active s)
      \<longleftrightarrow> (\<forall>x \<in> set (map j_resources (active s)). r_exclusive x \<inter> r_exclusive r = {})" for s
    by (simp add: list_all_iff)
  show ?thesis
    unfolding available_def ex assms(1,4) used_cong [OF assms(1)] interrupted_cong [OF assms(2)]
      io_cap_cong [OF assms(3)] by (rule refl)
qed

lemma exclusive_ok_cong:
  assumes "map j_resources js' = map j_resources js"
  shows "exclusive_ok js' = exclusive_ok js"
proof -
  have "exclusive_ok js = sorted_wrt (\<lambda>a b. r_exclusive a \<inter> r_exclusive b = {}) (map j_resources js)" for js
    by (simp add: exclusive_ok_def sorted_wrt_map)
  with assms show ?thesis by simp
qed

lemma refreshed_sel [simp]:
  "j_id (refreshed st j) = j_id j" "j_sequence (refreshed st j) = j_sequence j"
  "j_resources (refreshed st j) = j_resources j" "j_owner (refreshed st j) = j_owner j"
  "j_base_priority (refreshed st j) = j_base_priority j"
  "j_demand_sources (refreshed st j) = j_demand_sources j"
  "j_priority (refreshed st j)
     = (if demanded st (j_demand_sources j) then Demand else j_base_priority j)"
  by (simp_all add: refreshed_def)

lemma refresh_sel [simp]:
  "next_id (refresh_demand_priorities now st) = next_id st"
  "next_sequence (refresh_demand_priorities now st) = next_sequence st"
  "cpu_capacity (refresh_demand_priorities now st) = cpu_capacity st"
  "io_capacity (refresh_demand_priorities now st) = io_capacity st"
  "served (refresh_demand_priorities now st) = served st"
  "interactive (refresh_demand_priorities now st) = interactive st"
  "ctl (refresh_demand_priorities now st) = ctl st"
  "pending (refresh_demand_priorities now st) = map (refreshed (retain_hints now st)) (pending st)"
  "active (refresh_demand_priorities now st) = map (refreshed (retain_hints now st)) (active st)"
  "hints (refresh_demand_priorities now st) = hints (retain_hints now st)"
  by (simp_all add: refresh_demand_priorities_def retain_hints_def Let_def)

section \<open>The core invariant\<close>

text \<open>\<open>core_ok\<close> only reads ids, sequences, resources, base priorities and two of the flags.\<close>

lemma core_ok_cong:
  assumes "next_id st' = next_id st" "next_sequence st' = next_sequence st"
    "cpu_capacity st' = cpu_capacity st" "io_capacity st' = io_capacity st"
    "set (interactive st') \<subseteq> set (interactive st)"
    and jobs: "pending st' = map f (pending st)" "active st' = map f (active st)"
    and f: "\<And>j. j_id (f j) = j_id j" "\<And>j. j_sequence (f j) = j_sequence j"
      "\<And>j. j_resources (f j) = j_resources j" "\<And>j. j_base_priority (f j) = j_base_priority j"
      "\<And>j. j_priority j \<in> {Demand, j_base_priority j} \<Longrightarrow> j_priority (f j) \<in> {Demand, j_base_priority j}"
    and flags: "\<And>i. granted (ctl st' i) = granted (ctl st i)" "\<And>i. cancelled (ctl st' i) = cancelled (ctl st i)"
    and ok: "core_ok st"
  shows "core_ok st'"
proof -
  have res: "map j_resources (active st') = map j_resources (active st)"
    by (simp add: jobs f)
  have maps: "map j_id (all_jobs st') = map j_id (all_jobs st)"
    "map j_sequence (all_jobs st') = map j_sequence (all_jobs st)"
    by (simp_all add: all_jobs_def jobs f)
  have set: "set (all_jobs st') = f ` set (all_jobs st)"
    by (simp add: all_jobs_def jobs image_Un)
  note int = assms(5)
  note eqs = assms(1-4) maps used_cong [OF res] io_cap_cong [OF assms(4)] exclusive_ok_cong [OF res]
  have "\<forall>j \<in> set (all_jobs st). j_priority (f j) \<in> {Demand, j_base_priority j}"
    using ok f(5) by (simp add: core_ok_def)
  then show ?thesis
    using ok int unfolding core_ok_def eqs set flags by (auto simp: jobs f(1-4))
qed

lemma only_pause_core:
  assumes "only_pause st st'" and "core_ok st"
  shows "core_ok st'"
  by (rule core_ok_cong [where f = "\<lambda>j. j", OF _ _ _ _ _ _ _ _ _ _ _ _ _ _ assms(2)])
     (simp_all add: only_pause_sel [OF assms(1)])

lemma core_ok_refresh [sched_inv]: "core_ok st \<Longrightarrow> core_ok (refresh_demand_priorities now st)"
  by (rule core_ok_cong [where f = "refreshed (retain_hints now st)"]) simp_all

lemma pause_blocked_only: "only_pause st (pause_blocked q st)"
  unfolding pause_blocked_def by (rule only_pause_fold) (simp add: only_pause_set_ctl)

lemma request_preemption_only:
  "only_pause (refresh_demand_priorities now st) (request_preemption now st)"
  unfolding request_preemption_def Let_def
  by (intro only_pause_trans [OF only_pause_fold only_pause_fold] pause_blocked_only only_pause_set_ctl)

lemma core_ok_preempt [sched_inv]: "core_ok st \<Longrightarrow> core_ok (request_preemption now st)"
  using only_pause_core [OF request_preemption_only] core_ok_refresh by blast

section \<open>Pauses\<close>

lemma fold_pause_flag:
  assumes "distinct (map j_id xs)" and "a \<in> set xs"
  shows "pause (ctl (fold (\<lambda>a. set_ctl (j_id a) (pause_update (\<lambda>_. P a))) xs st) (j_id a)) = P a"
  using assms
proof (induction xs arbitrary: st)
  case Nil
  then show ?case by simp
next
  case (Cons x xs)
  have keep: "ctl (fold (\<lambda>a. set_ctl (j_id a) (pause_update (\<lambda>_. P a))) ys s) i = ctl s i"
    if "i \<notin> j_id ` set ys" for ys s i
    using that by (induction ys arbitrary: s) auto
  show ?case
  proof (cases "a = x")
    case True
    with Cons.prems have "j_id a \<notin> j_id ` set xs" by auto
    with True show ?thesis by (simp add: keep)
  next
    case False
    with Cons show ?thesis by simp
  qed
qed

lemma pause_blocked_flag:
  assumes "distinct (map j_id (active st))" and "a \<in> set (active st)"
  shows "pause (ctl (pause_blocked q st) (j_id a)) \<longleftrightarrow> pause (ctl st (j_id a)) \<or> blocks q a"
proof -
  let ?f = "\<lambda>a s. if blocks q a then set_ctl (j_id a) (pause_update (\<lambda>_. True)) s else s"
  have "pause (ctl (fold ?f xs s) (j_id a)) \<longleftrightarrow>
      pause (ctl s (j_id a)) \<or> (\<exists>x \<in> set xs. j_id x = j_id a \<and> blocks q x)" for xs s
    by (induction xs arbitrary: s) auto
  moreover have "(\<exists>x \<in> set (active st). j_id x = j_id a \<and> blocks q x) \<longleftrightarrow> blocks q a"
    using assms by (auto simp: distinct_map inj_on_def)
  ultimately show ?thesis by (simp add: pause_blocked_def)
qed

lemma fold_pause_blocked_flag:
  assumes "distinct (map j_id (active st))" and "a \<in> set (active st)"
  shows "pause (ctl (fold pause_blocked qs st) (j_id a)) \<longleftrightarrow>
     pause (ctl st (j_id a)) \<or> (\<exists>q \<in> set qs. blocks q a)"
  using assms
proof (induction qs arbitrary: st)
  case Nil
  then show ?case by simp
next
  case (Cons q qs)
  have "active (pause_blocked q st) = active st"
    using only_pause_sel(6) [OF pause_blocked_only] .
  with Cons.prems Cons.IH [of "pause_blocked q st"] show ?case
    by (simp add: pause_blocked_flag [OF Cons.prems])
qed

lemma preempt_requests_cong:
  "only_pause st st' \<Longrightarrow> preempt_requests st' = preempt_requests st"
  by (simp add: preempt_requests_def only_pause_sel interrupted_def used_cpu_def used_io_def io_cap_def)

text \<open>The pause flag of an active job after \<open>request_preemption\<close>, exactly.\<close>

lemma request_preemption_pause:
  assumes "distinct (map j_id (active st))" and "a \<in> set (active (request_preemption now st))"
  shows "pause (ctl (request_preemption now st) (j_id a)) \<longleftrightarrow>
     interrupted st (j_resources a)
     \<or> (\<exists>q \<in> set (preempt_requests (refresh_demand_priorities now st)). blocks q a)"
proof -
  let ?r = "refresh_demand_priorities now st"
  let ?m = "fold (\<lambda>a. set_ctl (j_id a) (pause_update (\<lambda>_. interrupted ?r (j_resources a)))) (active ?r) ?r"
  have op: "only_pause ?r ?m" by (intro only_pause_fold only_pause_set_ctl)
  have act: "active ?m = active ?r" using only_pause_sel(6) [OF op] .
  have dist: "distinct (map j_id (active ?r))" using assms(1) by (simp add: comp_def)
  have a: "a \<in> set (active ?r)"
    using assms(2) only_pause_sel(6) [OF request_preemption_only] by simp
  have "pause (ctl ?m (j_id a)) = interrupted st (j_resources a)"
    using fold_pause_flag [OF dist a] by (simp add: interrupted_def)
  then show ?thesis
    using fold_pause_blocked_flag [of ?m a] dist a act preempt_requests_cong [OF op]
    by (simp add: request_preemption_def Let_def)
qed

lemma paused_ok_preempt:
  assumes "core_ok st"
  shows "paused_ok (request_preemption now st)"
proof -
  have "distinct (map j_id (active st))" using assms by (simp add: core_ok_def all_jobs_def)
  note flag = request_preemption_pause [OF this]
  have "interrupted (request_preemption now st) r = interrupted st r" for r
    using only_pause_sel(8) [OF request_preemption_only] by (simp add: interrupted_def)
  then show ?thesis unfolding paused_ok_def using flag by blast
qed

section \<open>Dispatch\<close>

lemma mset_swap_remove:
  assumes "i < length xs"
  shows "add_mset (xs ! i) (mset (swap_remove i xs)) = mset xs"
proof (cases "i = length xs - 1")
  case True
  with assms have "xs = butlast xs @ [xs ! i]"
    by (metis append_butlast_last_id last_conv_nth list.size(3) not_less0)
  moreover have "xs[i := last xs] = xs"
    using True assms by (metis last_conv_nth list.size(3) list_update_id not_less0)
  ultimately show ?thesis
    unfolding swap_remove_def by (metis mset_append union_mset_add_mset_right add.right_neutral mset.simps)
next
  case False
  with assms have i: "i < length (butlast xs)" and ne: "xs \<noteq> []" by auto
  have "butlast (xs[i := last xs]) = (butlast xs)[i := last xs]"
    using False by (simp add: butlast_list_update)
  moreover have "add_mset (butlast xs ! i) (mset ((butlast xs)[i := last xs])) = add_mset (last xs) (mset (butlast xs))"
    using i by (simp add: mset_update)
  moreover have "add_mset (last xs) (mset (butlast xs)) = mset xs"
    using ne by (metis append_butlast_last_id mset_append union_mset_add_mset_right add.right_neutral mset.simps)
  ultimately show ?thesis using i by (simp add: swap_remove_def nth_butlast)
qed

lemma set_swap_remove: "i < length xs \<Longrightarrow> set xs = insert (xs ! i) (set (swap_remove i xs))"
  using mset_swap_remove [of i xs] by (metis set_mset_add_mset_insert set_mset_mset)

lemma admit_sel [simp]:
  "next_id (admit_job i st) = next_id st" "next_sequence (admit_job i st) = next_sequence st"
  "cpu_capacity (admit_job i st) = cpu_capacity st" "io_capacity (admit_job i st) = io_capacity st"
  "interactive (admit_job i st) = interactive st" "hints (admit_job i st) = hints st"
  "pending (admit_job i st) = swap_remove i (pending st)"
  "active (admit_job i st)
     = filter (\<lambda>a. j_id a \<noteq> j_id (pending st ! i)) (active st) @ [pending st ! i]"
  "ctl (admit_job i st) = (ctl st)(j_id (pending st ! i)
     := (ctl st (j_id (pending st ! i)))\<lparr>pause := False, granted := True\<rparr>)"
  "served (admit_job i st) = (served st)(job_key (pending st ! i)
     := served st (job_key (pending st ! i)) + 1)"
  by (simp_all add: admit_job_def Let_def)

text \<open>With distinct ids the map insertion appends.\<close>

lemma admit_active:
  assumes "core_ok st" and "i < length (pending st)"
  shows "active (admit_job i st) = active st @ [pending st ! i]"
proof -
  have "pending st ! i \<in> set (pending st)" using assms(2) by simp
  then have "\<forall>a \<in> set (active st). j_id a \<noteq> j_id (pending st ! i)"
    using assms(1) by (fastforce simp: core_ok_def all_jobs_def)
  then show ?thesis by (simp add: filter_id_conv)
qed

lemma admit_jobs:
  assumes "core_ok st" and "i < length (pending st)"
  shows "mset (all_jobs (admit_job i st)) = mset (all_jobs st)"
  using mset_swap_remove [OF assms(2)] admit_active [OF assms]
  by (simp add: all_jobs_def)

lemma core_ok_admit:
  assumes ok: "core_ok st" and i: "i < length (pending st)"
    and av: "available st (j_resources (pending st ! i))"
  shows "core_ok (admit_job i st)"
proof -
  let ?p = "pending st ! i" and ?st = "admit_job i st"
  have act: "active ?st = active st @ [?p]" by (rule admit_active [OF ok i])
  have jobs: "mset (all_jobs ?st) = mset (all_jobs st)" by (rule admit_jobs [OF ok i])
  then have set: "set (all_jobs ?st) = set (all_jobs st)" by (metis set_mset_mset)
  have dist: "distinct (map f (all_jobs ?st)) = distinct (map f (all_jobs st))" for f :: "Job \<Rightarrow> nat"
    using jobs by (metis mset_eq_imp_distinct_iff mset_map)
  have pid: "\<forall>j \<in> set (swap_remove i (pending st)) \<union> set (active st). j_id j \<noteq> j_id ?p"
  proof -
    let ?rest = "swap_remove i (pending st) @ active st"
    have "mset (map j_id (?p # ?rest)) = mset (map j_id (all_jobs st))"
      using mset_swap_remove [OF i] by (metis all_jobs_def append_Cons mset.simps(2) mset_append mset_map)
    then have "distinct (map j_id (?p # ?rest))"
      using ok mset_eq_imp_distinct_iff unfolding core_ok_def by blast
    then have "j_id ?p \<notin> j_id ` (set (swap_remove i (pending st)) \<union> set (active st))" by auto
    then show ?thesis by (metis image_eqI)
  qed
  have caps: "used_cpu ?st = used_cpu st + r_cpu (j_resources ?p)"
    "used_io ?st d = used_io st d + (if d \<in> r_io (j_resources ?p) then 1 else 0)"
    "io_cap ?st d = io_cap st d" for d
    by (simp_all only: used_cpu_def used_io_def act io_cap_def) simp_all
  have av': "used_cpu ?st \<le> cpu_capacity st" "\<And>d. used_io ?st d \<le> io_cap st d"
    "exclusive_ok (active ?st)"
  proof -
    show "used_cpu ?st \<le> cpu_capacity st" using av by (simp add: caps available_def split: if_splits)
    show "used_io ?st d \<le> io_cap st d" for d
      using av ok by (fastforce simp: caps available_def core_ok_def split: if_splits)
    show "exclusive_ok (active ?st)"
      using av ok unfolding act
      by (auto simp: exclusive_ok_def sorted_wrt_append available_def core_ok_def list_all_iff split: if_splits)
  qed
  have "set (swap_remove i (pending st)) \<subseteq> set (pending st)" using set_swap_remove [OF i] by blast
  with ok pid have flags: "\<forall>j \<in> set (pending ?st). \<not> granted (ctl ?st (j_id j)) \<and> \<not> cancelled (ctl ?st (j_id j))"
    "\<forall>j \<in> set (active ?st). granted (ctl ?st (j_id j))"
    unfolding act by (auto simp: core_ok_def)
  show ?thesis
    using ok av' flags unfolding core_ok_def set dist caps by simp
qed

text \<open>One round of the loop: the selected job is in range and admissible.\<close>

lemma select_job_Some:
  assumes "select_job st = Some i"
  shows "i < length (pending st)" "available st (j_resources (pending st ! i))"
  using select_job_lt [OF assms] assms by (auto simp: select_job_def find_Some_iff)

lemma select_job_None:
  assumes "select_job st = None"
  shows "work_ok st"
proof -
  have "\<forall>i \<in> {0..<length (pending st)}. \<not> available st (j_resources (pending st ! i))"
    using assms by (auto simp: select_job_def find_None_iff set_fair_order)
  then show ?thesis by (auto simp: work_ok_def in_set_conv_nth)
qed

text \<open>What every admission keeps holds of the whole loop.\<close>

lemma dispatch_loop_induct:
  assumes "P st"
    and "\<And>st i. P st \<Longrightarrow> i < length (pending st) \<Longrightarrow> available st (j_resources (pending st ! i))
          \<Longrightarrow> select_job st = Some i \<Longrightarrow> P (admit_job i st)"
  shows "P (dispatch_loop st)"
  using assms(1)
proof (induction st rule: dispatch_loop.induct)
  case (1 st)
  show ?case
  proof (cases "select_job st")
    case None
    with 1 show ?thesis by (simp add: dispatch_loop.simps)
  next
    case (Some i)
    then have "P (admit_job i st)" using assms(2) 1(2) select_job_Some by blast
    with Some 1(1) show ?thesis by (simp add: dispatch_loop.simps [of st])
  qed
qed

lemma dispatch_loop_work: "work_ok (dispatch_loop st)"
proof (induction st rule: dispatch_loop.induct)
  case (1 st)
  then show ?case
    by (cases "select_job st") (simp_all add: dispatch_loop.simps [of st] select_job_None)
qed

lemma core_ok_loop: "core_ok st \<Longrightarrow> core_ok (dispatch_loop st)"
  by (rule dispatch_loop_induct [where P = core_ok]) (simp_all add: core_ok_admit)

lemma paused_ok_loop:
  assumes "core_ok st \<and> paused_ok st"
  shows "core_ok (dispatch_loop st) \<and> paused_ok (dispatch_loop st)"
proof (rule dispatch_loop_induct [where P = "\<lambda>st. core_ok st \<and> paused_ok st", OF assms])
  fix st i
  assume ok: "core_ok st \<and> paused_ok st" and i: "i < length (pending st)"
    and av: "available st (j_resources (pending st ! i))"
  have "\<not> interrupted st (j_resources (pending st ! i))" using av by (simp add: available_def split: if_splits)
  moreover have "\<forall>a \<in> set (active st). j_id a \<noteq> j_id (pending st ! i)"
    using ok i by (fastforce simp: core_ok_def all_jobs_def)
  ultimately have "paused_ok (admit_job i st)"
    using ok unfolding paused_ok_def admit_active [OF conjunct1 [OF ok] i]
    by (auto simp: interrupted_def)
  with ok i av show "core_ok (admit_job i st) \<and> paused_ok (admit_job i st)"
    by (simp add: core_ok_admit)
qed

lemma paused_ok_refresh: "paused_ok st \<Longrightarrow> paused_ok (refresh_demand_priorities now st)"
  by (simp add: paused_ok_def interrupted_def)

text \<open>\<open>settle\<close> establishes the invariant from the core alone.\<close>

lemma settle_ok [sched_inv]:
  assumes "core_ok st"
  shows "sched_ok (settle now st)"
  unfolding sched_ok_def settle_def dispatch_def
  using assms paused_ok_loop dispatch_loop_work paused_ok_refresh paused_ok_preempt core_ok_refresh
    core_ok_preempt by blast

section \<open>The operations\<close>

lemma built_cpu: "built sroots res \<Longrightarrow> r_cpu res \<le> 1"
proof -
  have "r_cpu (foldl exclusive r names) = r_cpu r" for r names
    by (induction names arbitrary: r) (simp_all add: exclusive_def)
  then show "built sroots res \<Longrightarrow> r_cpu res \<le> 1"
    by (auto simp: built_def resources_def)
qed

lemma join_service_level_sel [simp]:
  "next_id (join_service_level p ow st) = next_id st"
  "next_sequence (join_service_level p ow st) = next_sequence st"
  "cpu_capacity (join_service_level p ow st) = cpu_capacity st"
  "io_capacity (join_service_level p ow st) = io_capacity st"
  "pending (join_service_level p ow st) = pending st" "active (join_service_level p ow st) = active st"
  "interactive (join_service_level p ow st) = interactive st"
  "hints (join_service_level p ow st) = hints st" "ctl (join_service_level p ow st) = ctl st"
  by (simp_all add: join_service_level_def Let_def split: list.splits)

lemma acquire_queued: "snd (acquire_with_sources now priority res owner label sources st)
    = settle now (acquire_queued priority res owner label sources st)"
  by (simp add: acquire_with_sources_def acquire_queued_def new_job_def Let_def)

lemma acquire_queued_core:
  assumes "core_ok st" and "r_cpu res \<le> 1"
  shows "core_ok (acquire_queued priority res owner label sources st)"
proof -
  let ?st = "acquire_queued priority res owner label sources st"
  have ids: "\<forall>j \<in> set (all_jobs st). j_id j \<noteq> next_id st \<and> j_sequence j \<noteq> next_sequence st"
    using assms(1) by (auto simp: core_ok_def)
  have res: "map j_resources (active ?st) = map j_resources (active st)"
    by (simp add: acquire_queued_def Let_def)
  show ?thesis
    using assms ids unfolding core_ok_def used_cong [OF res] unfolding acquire_queued_def new_job_def Let_def
    by (auto simp: all_jobs_def io_cap_def Control_default_def image_iff less_Suc_eq)
qed

lemma acquire_core:
  "core_ok st \<Longrightarrow> r_cpu res \<le> 1
     \<Longrightarrow> sched_ok (snd (acquire_with_sources now priority res owner label sources st))"
  by (simp add: acquire_queued settle_ok acquire_queued_core)

text \<open>Removing jobs keeps the core, whatever happens to the flags of the removed ones.\<close>

lemma core_ok_remove:
  assumes ok: "core_ok st"
    and sel: "next_id st' = next_id st" "next_sequence st' = next_sequence st"
      "cpu_capacity st' = cpu_capacity st" "io_capacity st' = io_capacity st"
      "interactive st' = interactive st"
    and pend: "mset (pending st') \<subseteq># mset (pending st)"
    and act: "active st' = filter P (active st)"
    and flags: "\<And>j. j \<in> set (pending st') \<Longrightarrow> ctl st' (j_id j) = ctl st (j_id j)"
      "\<And>j. j \<in> set (active st') \<Longrightarrow> granted (ctl st' (j_id j)) = granted (ctl st (j_id j))"
  shows "core_ok st'"
proof -
  have sub: "mset (all_jobs st') \<subseteq># mset (all_jobs st)"
    using pend by (simp add: all_jobs_def act mset_filter subset_mset.add_mono)
  then have set: "set (all_jobs st') \<subseteq> set (all_jobs st)" by (metis set_mset_mono set_mset_mset)
  have psub: "set (pending st') \<subseteq> set (pending st)" using pend by (metis set_mset_mono set_mset_mset)
  have dist: "distinct (map f (all_jobs st'))" if "distinct (map f (all_jobs st))" for f :: "Job \<Rightarrow> nat"
  proof -
    have "mset (map f (all_jobs st')) \<subseteq># mset (map f (all_jobs st))"
      using sub by (simp add: image_mset_subseteq_mono)
    with that show ?thesis by (rule distinct_submset [rotated])
  qed
  have "sum_list (map (\<lambda>a. r_cpu (j_resources a)) (filter P xs))
      \<le> sum_list (map (\<lambda>a. r_cpu (j_resources a)) xs)" for xs :: "Job list"
    by (induction xs) auto
  then have cpu: "used_cpu st' \<le> used_cpu st" unfolding used_cpu_def act .
  have "length (filter Q (filter P xs)) \<le> length (filter Q xs)" for Q and xs :: "Job list"
    by (induction xs) auto
  then have io: "used_io st' d \<le> used_io st d" for d unfolding used_io_def act .
  have ex: "exclusive_ok (active st')"
    using ok unfolding act core_ok_def exclusive_ok_def by (simp add: sorted_wrt_filter)
  have cap: "io_cap st' d = io_cap st d" for d by (rule io_cap_cong [OF sel(4)])
  note old = ok [unfolded core_ok_def]
  have a: "distinct (map j_id (all_jobs st'))" "distinct (map j_sequence (all_jobs st'))"
    using old dist by blast+
  have b: "\<forall>j \<in> set (all_jobs st'). j_id j < next_id st'"
    "\<forall>j \<in> set (all_jobs st'). j_sequence j < next_sequence st'"
    "\<forall>j \<in> set (all_jobs st'). j_priority j \<in> {Demand, j_base_priority j} \<and> r_cpu (j_resources j) \<le> 1"
    unfolding sel using old set by blast+
  have c: "used_cpu st' \<le> cpu_capacity st'" "\<forall>d. used_io st' d \<le> io_cap st' d"
    "0 < cpu_capacity st'" "\<forall>d. 0 < io_cap st' d" "\<forall>(k, _) \<in> set (interactive st'). k < next_id st'"
    unfolding sel cap using old cpu io order_trans by blast+
  have d: "\<forall>j \<in> set (pending st'). \<not> granted (ctl st' (j_id j)) \<and> \<not> cancelled (ctl st' (j_id j))"
    using old psub flags(1) by auto
  have e: "\<forall>j \<in> set (active st'). granted (ctl st' (j_id j))"
    using old flags(2) act by auto
  show ?thesis unfolding core_ok_def using a b c d e ex by blast
qed

lemma fold_set_ctl_sel:
  "next_id (fold (\<lambda>j. set_ctl (j_id j) f) xs st) = next_id st"
  "next_sequence (fold (\<lambda>j. set_ctl (j_id j) f) xs st) = next_sequence st"
  "cpu_capacity (fold (\<lambda>j. set_ctl (j_id j) f) xs st) = cpu_capacity st"
  "io_capacity (fold (\<lambda>j. set_ctl (j_id j) f) xs st) = io_capacity st"
  "pending (fold (\<lambda>j. set_ctl (j_id j) f) xs st) = pending st"
  "active (fold (\<lambda>j. set_ctl (j_id j) f) xs st) = active st"
  "interactive (fold (\<lambda>j. set_ctl (j_id j) f) xs st) = interactive st"
  "served (fold (\<lambda>j. set_ctl (j_id j) f) xs st) = served st"
  "hints (fold (\<lambda>j. set_ctl (j_id j) f) xs st) = hints st"
  "i \<notin> j_id ` set xs \<Longrightarrow> ctl (fold (\<lambda>j. set_ctl (j_id j) f) xs st) i = ctl st i"
  by (induction xs arbitrary: st) simp_all

text \<open>A flag that the update does not touch, or sets, on every job of the list.\<close>

lemma fold_set_ctl_flag:
  assumes "\<And>c. flag (f c) = flag c"
  shows "flag (ctl (fold (\<lambda>j. set_ctl (j_id j) f) xs st) i) = flag (ctl st i)"
  by (induction xs arbitrary: st) (simp_all add: assms)

lemma fold_set_ctl_set:
  assumes "\<And>c. flag (f c)" and "j \<in> set xs"
  shows "flag (ctl (fold (\<lambda>j. set_ctl (j_id j) f) xs st) (j_id j))"
proof -
  have *: "flag (ctl (fold (\<lambda>j. set_ctl (j_id j) f) xs s) i)" if "flag (ctl s i)" for xs s i
    using that by (induction xs arbitrary: s) (simp_all add: assms(1))
  show ?thesis
    using assms(2) by (induction xs arbitrary: st) (auto simp: assms(1) *)
qed

lemma id_unique:
  assumes "core_ok st" and "x \<in> set (all_jobs st)" and "y \<in> set (all_jobs st)" and "j_id x = j_id y"
  shows "x = y"
proof -
  have "inj_on j_id (set (all_jobs st))" using assms(1) by (simp add: core_ok_def distinct_map)
  then show ?thesis using assms(2-4) by (auto dest: inj_onD)
qed

lemma cancel_owner_marked: "cancel_owner now owner st = settle now (cancel_marked owner st)"
  by (simp add: cancel_owner_def cancel_marked_def Let_def)

lemma cancel_marked_sel:
  "next_id (cancel_marked owner st) = next_id st"
  "next_sequence (cancel_marked owner st) = next_sequence st"
  "cpu_capacity (cancel_marked owner st) = cpu_capacity st"
  "io_capacity (cancel_marked owner st) = io_capacity st"
  "pending (cancel_marked owner st) = filter (\<lambda>j. j_owner j \<noteq> Some owner) (pending st)"
  "active (cancel_marked owner st) = active st"
  "interactive (cancel_marked owner st) = interactive st"
  "granted (ctl (cancel_marked owner st) i) = granted (ctl st i)"
  by (simp_all add: cancel_marked_def Let_def fold_set_ctl_sel fold_set_ctl_flag)

lemma cancel_marked_flags:
  assumes "core_ok st"
  shows "j \<in> set (pending st) \<Longrightarrow> cancelled (ctl (cancel_marked owner st) (j_id j)) \<longleftrightarrow> j_owner j = Some owner"
    and "j \<in> set (active st) \<Longrightarrow> j_owner j = Some owner \<Longrightarrow> cancelled (ctl (cancel_marked owner st) (j_id j))"
    and "j \<in> set (all_jobs st) \<Longrightarrow> j_owner j \<noteq> Some owner
          \<Longrightarrow> ctl (cancel_marked owner st) (j_id j) = ctl st (j_id j)"
proof -
  let ?mine = "\<lambda>j. j_owner j = Some owner"
  let ?p = "filter ?mine (pending st)" and ?a = "filter ?mine (active st)"
  let ?st1 = "fold (\<lambda>j. set_ctl (j_id j) (cancelled_update (\<lambda>_. True))) ?p st"
  have ctl: "ctl (cancel_marked owner st) i
      = ctl (fold (\<lambda>j. set_ctl (j_id j) (\<lambda>c. c\<lparr>cancelled := True, pause := True\<rparr>)) ?a
              (?st1\<lparr>pending := filter (\<lambda>j. \<not> ?mine j) (pending st)\<rparr>)) i" for i
    by (simp add: cancel_marked_def Let_def fold_set_ctl_sel)
  show other: "ctl (cancel_marked owner st) (j_id j) = ctl st (j_id j)"
    if "j \<in> set (all_jobs st)" "j_owner j \<noteq> Some owner" for j
  proof -
    have "j_id j \<notin> j_id ` set ?p" "j_id j \<notin> j_id ` set ?a"
      using that id_unique [OF assms] by (auto simp: all_jobs_def image_iff)
    then show ?thesis by (simp add: ctl fold_set_ctl_sel)
  qed
  show "cancelled (ctl (cancel_marked owner st) (j_id j))" if "j \<in> set (active st)" "j_owner j = Some owner"
    using that by (simp add: ctl fold_set_ctl_set)
  show "cancelled (ctl (cancel_marked owner st) (j_id j)) \<longleftrightarrow> j_owner j = Some owner"
    if j: "j \<in> set (pending st)"
  proof (cases "j_owner j = Some owner")
    case True
    then have "cancelled (ctl ?st1 (j_id j))" using j by (simp add: fold_set_ctl_set)
    moreover have "j_id j \<notin> j_id ` set ?a"
      using j assms by (auto simp: core_ok_def all_jobs_def)
    ultimately show ?thesis using True by (simp add: ctl fold_set_ctl_sel)
  next
    case False
    then have "ctl (cancel_marked owner st) (j_id j) = ctl st (j_id j)"
      using other [of j] j by (simp add: all_jobs_def)
    with False assms j show ?thesis by (simp add: core_ok_def)
  qed
qed

lemma cancel_core:
  assumes "core_ok st"
  shows "core_ok (cancel_marked owner st)"
proof (rule core_ok_remove [OF assms, where P = "\<lambda>_. True"])
  show "mset (pending (cancel_marked owner st)) \<subseteq># mset (pending st)"
    by (simp add: cancel_marked_sel mset_filter)
  show "ctl (cancel_marked owner st) (j_id j) = ctl st (j_id j)"
    if "j \<in> set (pending (cancel_marked owner st))" for j
    using that cancel_marked_flags(3) [OF assms] by (simp add: cancel_marked_sel all_jobs_def)
qed (simp_all add: cancel_marked_sel)

lemma finish_removed: "finish_job now i st = settle now (finish_removed i st)"
  by (simp add: finish_job_def finish_removed_def Let_def)

lemma finish_removed_core:
  assumes "core_ok st"
  shows "core_ok (finish_removed i st)"
proof (rule core_ok_remove [OF assms, where P = "\<lambda>a. j_id a \<noteq> i"])
  show "mset (pending (finish_removed i st)) \<subseteq># mset (pending st)"
  proof (cases "position (\<lambda>j. j_id j = i) (pending st)")
    case (Some k)
    from mset_swap_remove [OF conjunct1 [OF position_Some [OF Some]]]
    have "mset (swap_remove k (pending st)) \<subseteq># mset (pending st)"
      by (metis mset_subset_eq_add_left add_mset_add_single)
    with Some show ?thesis by (simp add: finish_removed_def)
  qed (simp add: finish_removed_def)
qed (simp_all add: finish_removed_def Let_def split: option.splits)

lemma finish_ok: "core_ok st \<Longrightarrow> sched_ok (finish_job now i st)"
  by (simp add: finish_removed settle_ok finish_removed_core)

lemma hint_ok:
  assumes "core_ok st"
  shows "sched_ok (hint_segment now owner source ttl st)"
proof -
  let ?f = "\<lambda>j. if source \<in> j_demand_sources j then j\<lparr>j_priority := Demand\<rparr> else j"
  let ?st = "st\<lparr>hints := filter (\<lambda>(k, _). k \<noteq> (owner, source)) (hints (retain_hints now st))
                @ [((owner, source), now + min ttl MAX_DEMAND_HINT_TTL)],
                pending := map ?f (pending st), active := map ?f (active st)\<rparr>"
  have "core_ok ?st"
    by (rule core_ok_cong [where f = ?f, OF _ _ _ _ _ _ _ _ _ _ _ _ _ _ assms]) auto
  then show ?thesis
    by (simp add: hint_segment_def Let_def retain_hints_def settle_ok)
qed

lemma leave_ok:
  assumes "core_ok st"
  shows "sched_ok (leave_interactive now i st)"
proof -
  have "core_ok (st\<lparr>interactive := filter (\<lambda>(k, _). k \<noteq> i) (interactive st)\<rparr>)"
    by (rule core_ok_cong [where f = "\<lambda>j. j", OF _ _ _ _ _ _ _ _ _ _ _ _ _ _ assms]) simp_all
  then show ?thesis by (simp add: leave_interactive_def settle_ok)
qed

lemma cancel_ok: "core_ok st \<Longrightarrow> sched_ok (cancel_owner now owner st)"
  by (simp add: cancel_owner_marked settle_ok cancel_core)

text \<open>Interactive work only ever pauses; it takes nothing from the running jobs.\<close>

lemma enter_ok:
  assumes "sched_ok st"
  shows "sched_ok (snd (enter_interactive res st))"
proof -
  let ?st1 = "st\<lparr>next_id := Suc (next_id st)\<rparr>"
  let ?f = "\<lambda>a s. if conflicts (j_resources a) res then set_ctl (j_id a) (pause_update (\<lambda>_. True)) s else s"
  let ?st2 = "fold ?f (active st) ?st1"
  let ?new = "filter (\<lambda>(k, _). k \<noteq> next_id st) (interactive st) @ [(next_id st, res)]"
  let ?st = "?st2\<lparr>interactive := ?new\<rparr>"
  have op: "only_pause ?st1 ?st2" by (rule only_pause_fold) (simp add: only_pause_set_ctl)
  note sel = only_pause_sel [OF op]
  have fresh: "\<forall>(k, _) \<in> set (interactive st). k < next_id st"
    using assms by (simp add: sched_ok_def core_ok_def)
  have e: "snd (enter_interactive res st) = ?st"
    by (simp add: enter_interactive_def Let_def sel(8))
  have core1: "core_ok ?st1"
    using assms by (auto simp: sched_ok_def core_ok_def all_jobs_def used_cpu_def used_io_def io_cap_def
        intro: less_SucI)
  have core: "core_ok ?st"
    using only_pause_core [OF op core1] sel(1)
    by (auto simp: core_ok_def all_jobs_def used_cpu_def used_io_def io_cap_def sel(8))
  have fl: "pause (ctl (fold ?f xs s) i) \<longleftrightarrow> pause (ctl s i)
      \<or> (\<exists>x \<in> set xs. j_id x = i \<and> conflicts (j_resources x) res)" for xs s i
    by (induction xs arbitrary: s) auto
  have int: "interrupted ?st r \<longleftrightarrow> interrupted st r \<or> conflicts res r" for r
    using fresh by (auto simp: interrupted_def list_ex_iff)
  have sym: "conflicts res r = conflicts r res" for r by (auto simp: conflicts_def)
  have "paused_ok ?st"
    using assms by (auto simp: sched_ok_def paused_ok_def int sel fl sym)
  moreover have "available ?st r \<Longrightarrow> available st r" for r
    by (auto simp: available_def int sel used_cpu_def used_io_def io_cap_def split: if_splits)
  then have "work_ok ?st" using assms by (auto simp: sched_ok_def work_ok_def sel)
  ultimately show ?thesis using core e by (simp add: sched_ok_def)
qed

lemma core_ok_set_ctl:
  assumes "core_ok st" and "\<forall>j \<in> set (all_jobs st). j_id j \<noteq> i"
  shows "core_ok (set_ctl i f st)"
  by (rule core_ok_remove [OF assms(1), where P = "\<lambda>_. True"]) (use assms(2) in \<open>auto simp: all_jobs_def\<close>)

lemma core_ok_enqueue:
  assumes ok: "core_ok st"
    and new: "\<forall>j \<in> set (all_jobs st). j_id j \<noteq> j_id a \<and> j_sequence j \<noteq> j_sequence a"
      "j_id a < next_id st" "j_sequence a < next_sequence st"
      "j_priority a \<in> {Demand, j_base_priority a}" "r_cpu (j_resources a) \<le> 1"
      "\<not> granted (ctl st (j_id a))" "\<not> cancelled (ctl st (j_id a))"
  shows "core_ok (st\<lparr>pending := pending st @ [a]\<rparr>)"
proof -
  let ?st = "st\<lparr>pending := pending st @ [a]\<rparr>"
  have res: "map j_resources (active ?st) = map j_resources (active st)" by simp
  have set: "set (all_jobs ?st) = insert a (set (all_jobs st))" by (auto simp: all_jobs_def)
  have dist: "distinct (map f (all_jobs ?st))"
    if "distinct (map f (all_jobs st))" "\<forall>j \<in> set (all_jobs st). f j \<noteq> f a" for f :: "Job \<Rightarrow> nat"
    using that by (auto simp: all_jobs_def image_iff)
  show ?thesis
    using ok new dist [of j_id] dist [of j_sequence]
    unfolding core_ok_def used_cong [OF res] set by (simp add: io_cap_def)
qed

lemma find_active:
  assumes "find (\<lambda>a. j_id a = i) (active st) = Some a"
  shows "a \<in> set (active st)" "j_id a = i"
  using assms by (auto simp: find_Some_iff)

lemma yield_core:
  assumes ok: "core_ok st" and a: "find (\<lambda>a. j_id a = i) (active st) = Some a"
    and nc: "\<not> cancelled (ctl st i)"
  shows "core_ok (set_ctl i (granted_update (\<lambda>_. False))
      (st\<lparr>active := filter (\<lambda>a. j_id a \<noteq> i) (active st)\<rparr>)\<lparr>pending := pending st @ [a]\<rparr>)"
proof -
  let ?rest = "filter (\<lambda>a. j_id a \<noteq> i) (active st)"
  let ?st1 = "st\<lparr>active := ?rest\<rparr>"
  let ?st = "set_ctl i (granted_update (\<lambda>_. False)) ?st1\<lparr>pending := pending st @ [a]\<rparr>"
  note in_a = find_active [OF a]
  have core1: "core_ok ?st1"
    by (rule core_ok_remove [OF ok, where P = "\<lambda>a. j_id a \<noteq> i"]) simp_all
  have a_all: "a \<in> set (all_jobs st)" using in_a by (simp add: all_jobs_def)
  have others: "\<forall>j \<in> set (all_jobs ?st1). j_id j \<noteq> i \<and> j_sequence j \<noteq> j_sequence a"
  proof -
    have "inj_on j_sequence (set (all_jobs st))" "inj_on j_id (set (all_jobs st))"
      using ok by (simp_all add: core_ok_def distinct_map)
    moreover have "j \<in> set (all_jobs st) \<and> j \<noteq> a" if "j \<in> set (all_jobs ?st1)" for j
    proof -
      have "set (pending st) \<inter> set (active st) = {}"
        using ok by (auto simp: core_ok_def all_jobs_def)
      with that in_a show ?thesis by (auto simp: all_jobs_def)
    qed
    ultimately show ?thesis using a_all in_a(2) by (metis inj_onD)
  qed
  have a_ok: "j_id a < next_id st" "j_sequence a < next_sequence st"
    "j_priority a \<in> {Demand, j_base_priority a}" "r_cpu (j_resources a) \<le> 1"
    using ok a_all by (auto simp: core_ok_def)
  let ?st2 = "set_ctl i (granted_update (\<lambda>_. False)) ?st1"
  have "core_ok ?st2" by (rule core_ok_set_ctl [OF core1]) (use others in blast)
  moreover have "\<forall>j \<in> set (all_jobs ?st2). j_id j \<noteq> j_id a \<and> j_sequence j \<noteq> j_sequence a"
    using others unfolding in_a(2) all_jobs_def set_ctl_sel .
  moreover have "\<not> granted (ctl ?st2 (j_id a))" "\<not> cancelled (ctl ?st2 (j_id a))"
    using nc by (simp_all add: in_a(2))
  moreover have "j_id a < next_id ?st2" "j_sequence a < next_sequence ?st2" using a_ok by simp_all
  ultimately have "core_ok (?st2\<lparr>pending := pending ?st2 @ [a]\<rparr>)"
    using a_ok(3,4) by (blast intro: core_ok_enqueue)
  then show ?thesis by simp
qed

lemma yield_ok:
  assumes "core_ok st" and a: "find (\<lambda>a. j_id a = i) (active st) = Some a"
    and "\<not> cancelled (ctl st i)"
  shows "sched_ok (yield_job now i st)"
  using settle_ok [OF yield_core [OF assms]] a by (simp add: yield_job_def Let_def)

lemma checkpoint_ok:
  assumes "sched_ok st"
  shows "sched_ok (snd (checkpoint now i st))"
proof (cases "cancelled (ctl st i) \<or> \<not> pause (ctl st i) \<or> find (\<lambda>a. j_id a = i) (active st) = None")
  case True
  with assms show ?thesis by (auto simp: checkpoint_def Let_def yield_job_def)
next
  case False
  then obtain a where "find (\<lambda>a. j_id a = i) (active st) = Some a" by auto
  from yield_ok [OF _ this] False assms show ?thesis
    by (simp add: checkpoint_def Let_def sched_ok_def)
qed

section \<open>Initial states\<close>

lemma or_insert_pos: "(\<forall>v \<in> ran m. 0 < v) \<Longrightarrow> 0 < (x::nat) \<Longrightarrow> \<forall>v \<in> ran (or_insert m k x). 0 < v"
  by (auto simp: or_insert_def ran_def)

lemma add_domains_pos:
  assumes "add_domains ds overrides caps = Inr (overrides', caps')" and "\<forall>v \<in> ran caps. 0 < v"
  shows "\<forall>v \<in> ran caps'. 0 < v"
  using assms
proof (induction ds overrides caps rule: add_domains.induct)
  case (1 overrides caps)
  then show ?case by simp
next
  case (2 d ds overrides caps)
  let ?key = "''config:'' @ d_name d"
  from 2(2) obtain o2 where o2: "add_roots ?key (d_roots d) overrides = Inr o2"
    and rec: "add_domains ds o2 (caps(?key \<mapsto> d_max_concurrent d)) = Inr (overrides', caps')"
    and pos: "0 < d_max_concurrent d" and guards: "trim (d_name d) \<noteq> []" "caps ?key = None"
    by (auto simp: Let_def split: if_splits sum.splits)
  have "\<forall>v \<in> ran (caps(?key \<mapsto> d_max_concurrent d)). 0 < v"
    using 2(3) pos guards(2) by (simp add: ran_map_upd)
  moreover have "d_max_concurrent d \<noteq> 0" "\<not> caps ?key \<noteq> None" using pos guards by simp_all
  ultimately show ?case using 2(1) [OF guards(1) _ refl _ o2 rec] by blast
qed

lemma foldl_caps_pos:
  assumes "\<forall>v \<in> ran caps. 0 < v"
  shows "\<forall>v \<in> ran (fst (foldl (add_root_domain tok auto ov) (caps, roots) paths)). 0 < v"
  using assms
proof (induction paths arbitrary: caps roots)
  case Nil
  then show ?case by simp
next
  case (Cons path paths)
  have "\<forall>v \<in> ran (or_insert caps (unwrap_or (ov path) (auto path)) (1::nat)). 0 < v"
    using Cons.prems or_insert_pos [of caps 1] by simp
  from Cons.IH [OF this] show ?case by (simp add: add_root_domain_def Let_def)
qed

lemma sched_new_ok:
  assumes "sched_new tok auto paths config = Inr sch"
  shows "sched_ok (sc_state sch)"
proof -
  obtain ov caps0 where ad: "add_domains (cfg_io_domains config) Map.empty Map.empty = Inr (ov, caps0)"
    and cpu: "0 < cfg_cpu_slots config"
    using assms by (auto simp: sched_new_def split: if_splits sum.splits)
  obtain caps1 roots
    where fl: "foldl (add_root_domain tok auto ov) (caps0, Map.empty) paths = (caps1, roots)"
    by fastforce
  have "\<forall>v \<in> ran caps1. 0 < v"
    using foldl_caps_pos [OF add_domains_pos [OF ad], of tok auto ov Map.empty paths] fl by simp
  then have "\<forall>v \<in> ran (or_insert caps1 FALLBACK_DOMAIN 1). 0 < v" by (rule or_insert_pos) simp
  then have "0 < unwrap_or (or_insert caps1 FALLBACK_DOMAIN 1 d) 1" for d
    by (cases "or_insert caps1 FALLBACK_DOMAIN 1 d") (auto simp: ran_def)
  moreover have "sc_state sch = \<lparr>next_id = 1, next_sequence = 1, cpu_capacity = cfg_cpu_slots config,
      io_capacity = or_insert caps1 FALLBACK_DOMAIN 1, pending = [], active = [], served = (\<lambda>_. 0),
      interactive = [], hints = [], ctl = (\<lambda>_. Control_default)\<rparr>"
    using assms cpu by (simp add: sched_new_def ad fl) (auto simp: Let_def)
  ultimately show ?thesis
    using cpu by (simp add: sched_ok_def core_ok_def paused_ok_def work_ok_def all_jobs_def
        used_cpu_def used_io_def exclusive_ok_def io_cap_def)
qed

section \<open>Every reachable state\<close>

lemma sched_step_ok:
  assumes "sched_step sroots st st'" and "sched_ok st"
  shows "sched_ok st'"
proof -
  have core: "core_ok st" using assms(2) by (simp add: sched_ok_def)
  from assms(1) show ?thesis
    by (cases rule: sched_step.cases)
       (use core assms(2) in \<open>auto intro: acquire_core built_cpu enter_ok leave_ok cancel_ok hint_ok
          checkpoint_ok finish_ok\<close>)
qed

interpretation scheduler: guarded_system "sched_init sroots" "sched_step sroots" sched_ok
proof
  show "sched_init sroots st \<Longrightarrow> sched_ok st" for st
    by (auto simp: sched_init_def dest: sched_new_ok)
  show "sched_ok st \<Longrightarrow> sched_step sroots st st' \<Longrightarrow> sched_ok st'" for st st'
    by (rule sched_step_ok)
qed

end
