(* ===== verification/Scheduler_Fair.thy ===== *)
theory Scheduler_Fair
  imports Scheduler
begin

text \<open>
  The admission order of the scheduler: what the scan of \<open>fair_order\<close> computes (a job's age inside its
  owner's queue, the lowest admission count of a priority), and what the first admissible index of
  the order says about every other waiting job.
\<close>

section \<open>The scan\<close>

lemma fair_step_sel:
  "f_next_rank (fair_step jobs srv i acc) k
     = f_next_rank acc k + (if k = job_key (jobs ! i) then 1 else 0)"
  "f_rank (fair_step jobs srv i acc) = (f_rank acc)[i := f_next_rank acc (job_key (jobs ! i))]"
  "f_floor (fair_step jobs srv i acc) = (f_floor acc)(j_priority (jobs ! i) \<mapsto>
     (case f_floor acc (j_priority (jobs ! i)) of None \<Rightarrow> srv (job_key (jobs ! i))
      | Some l \<Rightarrow> min l (srv (job_key (jobs ! i)))))"
  by (auto simp: fair_step_def Let_def)

lemma fair_fold_rank_other:
  "i \<notin> set xs \<Longrightarrow> f_rank (fold (fair_step jobs srv) xs acc) ! i = f_rank acc ! i"
  by (induction xs arbitrary: acc) (auto simp: fair_step_sel)

lemma fair_fold_next:
  "f_next_rank (fold (fair_step jobs srv) xs acc) k
     = f_next_rank acc k + length (filter (\<lambda>x. job_key (jobs ! x) = k) xs)"
  by (induction xs arbitrary: acc) (auto simp: fair_step_sel)

lemma fair_fold_length: "length (f_rank (fold (fair_step jobs srv) xs acc)) = length (f_rank acc)"
  by (induction xs arbitrary: acc) (auto simp: fair_step_sel)

lemma fair_fold_rank:
  assumes "i \<notin> set zs" and "i < length (f_rank acc)"
  shows "f_rank (fold (fair_step jobs srv) (ys @ i # zs) acc) ! i
      = f_next_rank acc (job_key (jobs ! i)) + length (filter (\<lambda>x. job_key (jobs ! x) = job_key (jobs ! i)) ys)"
  using assms by (simp add: fair_fold_rank_other fair_step_sel fair_fold_length fair_fold_next)

text \<open>The floor never exceeds a count, so the subtraction in the sort key does not underflow.\<close>

lemma fair_fold_floor:
  assumes "x \<in> set xs"
  shows "\<exists>l. f_floor (fold (fair_step jobs srv) xs acc) (j_priority (jobs ! x)) = Some l
          \<and> l \<le> srv (job_key (jobs ! x))"
proof -
  have keep: "\<exists>l'. f_floor (fold (fair_step jobs srv) ys a) p = Some l' \<and> l' \<le> l"
    if "f_floor a p = Some l" for ys a p l
    using that
  proof (induction ys arbitrary: a l)
    case Nil
    then show ?case by simp
  next
    case (Cons y ys)
    have "\<exists>l1. f_floor (fair_step jobs srv y a) p = Some l1 \<and> l1 \<le> l"
      using Cons.prems by (auto simp: fair_step_sel)
    then obtain l1 where l1: "f_floor (fair_step jobs srv y a) p = Some l1" "l1 \<le> l" by blast
    from Cons.IH [OF l1(1)] l1(2) show ?case by (auto intro: order_trans)
  qed
  show ?thesis
    using assms
  proof (induction xs arbitrary: acc)
    case Nil
    then show ?case by simp
  next
    case (Cons y ys)
    show ?case
    proof (cases "x = y")
      case True
      have "\<exists>l. f_floor (fair_step jobs srv y acc) (j_priority (jobs ! y)) = Some l
          \<and> l \<le> srv (job_key (jobs ! y))"
        by (auto simp: fair_step_sel split: option.splits)
      then obtain l where l: "f_floor (fair_step jobs srv y acc) (j_priority (jobs ! y)) = Some l"
        "l \<le> srv (job_key (jobs ! y))" by blast
      from keep [OF l(1), of ys] l(2) True show ?thesis by (auto intro: order_trans)
    next
      case False
      with Cons show ?thesis by simp
    qed
  qed
qed

section \<open>The order\<close>

definition age_order :: "Job list \<Rightarrow> nat list" where
  "age_order jobs = sort_key (\<lambda>i. (j_priority (jobs ! i), j_sequence (jobs ! i))) [0..<length jobs]"

definition age_rank :: "Job list \<Rightarrow> served_map \<Rightarrow> nat \<Rightarrow> nat" where
  "age_rank jobs srv i = f_rank (fair_scan jobs srv (age_order jobs)) ! i"

definition prio_floor :: "Job list \<Rightarrow> served_map \<Rightarrow> Priority \<Rightarrow> nat" where
  "prio_floor jobs srv p = unwrap_or (f_floor (fair_scan jobs srv (age_order jobs)) p) 0"

definition fair_key :: "Job list \<Rightarrow> served_map \<Rightarrow> nat \<Rightarrow> Priority \<times> nat \<times> nat" where
  "fair_key jobs srv i =
     (j_priority (jobs ! i),
      srv (job_key (jobs ! i)) - prio_floor jobs srv (j_priority (jobs ! i)) + age_rank jobs srv i,
      j_sequence (jobs ! i))"

lemma fair_order_sort: "fair_order jobs srv = sort_key (fair_key jobs srv) (age_order jobs)"
  by (simp add: fair_order_def Let_def age_order_def fair_key_def [abs_def] age_rank_def prio_floor_def)

lemma age_order_props: "set (age_order jobs) = {0..<length jobs}" "distinct (age_order jobs)"
  "sorted (map (\<lambda>i. (j_priority (jobs ! i), j_sequence (jobs ! i))) (age_order jobs))"
  by (simp_all add: age_order_def)

lemma prio_floor_le:
  assumes "i < length jobs"
  shows "prio_floor jobs srv (j_priority (jobs ! i)) \<le> srv (job_key (jobs ! i))"
proof -
  have "i \<in> set (age_order jobs)" using assms by (simp add: age_order_props)
  from fair_fold_floor [OF this, of jobs srv
      "\<lparr>f_next_rank = (\<lambda>_. 0), f_rank = replicate (length jobs) 0, f_floor = Map.empty\<rparr>"]
  show ?thesis by (auto simp: prio_floor_def fair_scan_def)
qed

lemma age_rank_eq:
  assumes "i < length jobs" and "age_order jobs = ys @ i # zs"
  shows "age_rank jobs srv i = length (filter (\<lambda>x. job_key (jobs ! x) = job_key (jobs ! i)) ys)"
proof -
  have "i \<notin> set zs" using age_order_props(2) [of jobs] assms(2) by simp
  from fair_fold_rank [OF this] assms show ?thesis by (simp add: age_rank_def fair_scan_def)
qed

text \<open>The oldest job of its owner has rank zero, and a younger one a larger rank than an older.\<close>

lemma age_rank_oldest:
  assumes "i < length jobs" and "distinct (map j_sequence jobs)"
    and "\<forall>j < length jobs. job_key (jobs ! j) = job_key (jobs ! i) \<longrightarrow> j_sequence (jobs ! i) \<le> j_sequence (jobs ! j)"
  shows "age_rank jobs srv i = 0"
proof -
  have "i \<in> set (age_order jobs)" using assms(1) by (simp add: age_order_props)
  then obtain ys zs where split: "age_order jobs = ys @ i # zs" by (meson split_list)
  have "\<not> (job_key (jobs ! x) = job_key (jobs ! i))" if x: "x \<in> set ys" for x
  proof
    assume key: "job_key (jobs ! x) = job_key (jobs ! i)"
    have x_lt: "x < length jobs" using x split age_order_props(1) [of jobs]
      by (metis Un_iff atLeastLessThan_iff set_append)
    have "(j_priority (jobs ! x), j_sequence (jobs ! x)) \<le> (j_priority (jobs ! i), j_sequence (jobs ! i))"
      using age_order_props(3) [of jobs] x unfolding split by (auto simp: sorted_append)
    with key have "j_sequence (jobs ! x) \<le> j_sequence (jobs ! i)" by (simp add: job_key_def)
    with assms(3) x_lt key have "j_sequence (jobs ! x) = j_sequence (jobs ! i)" by (simp add: le_antisym)
    then have "x = i" using assms(1,2) x_lt by (simp add: distinct_conv_nth) metis
    then show False using x split age_order_props(2) [of jobs] by simp
  qed
  then have "filter (\<lambda>x. job_key (jobs ! x) = job_key (jobs ! i)) ys = []" by (simp add: filter_empty_conv)
  then show ?thesis by (simp add: age_rank_eq [OF assms(1) split])
qed

lemma age_rank_mono:
  assumes "i < length jobs" "j < length jobs" and "job_key (jobs ! i) = job_key (jobs ! j)"
    and "j_sequence (jobs ! j) < j_sequence (jobs ! i)"
  shows "age_rank jobs srv j < age_rank jobs srv i"
proof -
  have "i \<in> set (age_order jobs)" using assms(1) by (simp add: age_order_props)
  then obtain ys zs where split: "age_order jobs = ys @ i # zs" by (meson split_list)
  have "j \<in> set ys"
  proof (rule ccontr)
    assume "j \<notin> set ys"
    moreover have "j \<in> set (age_order jobs)" "j \<noteq> i" using assms by (auto simp: age_order_props)
    ultimately have "j \<in> set zs" by (simp add: split)
    then have "(j_priority (jobs ! i), j_sequence (jobs ! i)) \<le> (j_priority (jobs ! j), j_sequence (jobs ! j))"
      using age_order_props(3) [of jobs] unfolding split by (auto simp: sorted_append)
    with assms(3,4) show False by (simp add: job_key_def)
  qed
  then obtain us vs where ys: "ys = us @ j # vs" by (meson split_list)
  with split have "age_order jobs = us @ j # (vs @ i # zs)" by simp
  from age_rank_eq [OF assms(2) this] age_rank_eq [OF assms(1) split] ys assms(3)
  show ?thesis by simp
qed

text \<open>The first index of the order that satisfies a test has the least key of those that do.\<close>

lemma find_fair_least:
  assumes "find P (fair_order jobs srv) = Some i" and "j < length jobs" and "P j"
  shows "fair_key jobs srv i \<le> fair_key jobs srv j"
proof -
  obtain k where k: "k < length (fair_order jobs srv)" "fair_order jobs srv ! k = i"
    "\<forall>l < k. \<not> P (fair_order jobs srv ! l)"
    using assms(1) by (auto simp: find_Some_iff)
  have "j \<in> set (fair_order jobs srv)" using assms(2) by (simp add: set_fair_order)
  then obtain l where l: "l < length (fair_order jobs srv)" "fair_order jobs srv ! l = j"
    by (auto simp: in_set_conv_nth)
  have "k \<le> l" using k(3) l(2) assms(3) by (metis not_le_imp_less)
  moreover have "sorted (map (fair_key jobs srv) (fair_order jobs srv))"
    by (simp add: fair_order_sort)
  ultimately show ?thesis
    using l k by (fastforce simp: sorted_iff_nth_mono)
qed

text \<open>What the selected job is, among the admissible ones.\<close>

lemma select_job_fair:
  assumes sel: "select_job st = Some i" and dist: "distinct (map j_sequence (pending st))"
    and q: "q \<in> set (pending st)" "available st (j_resources q)"
  shows "j_priority (pending st ! i) \<le> j_priority q"
    and "j_priority (pending st ! i) = j_priority q
      \<Longrightarrow> \<forall>r \<in> set (pending st). job_key r = job_key q \<longrightarrow> j_sequence q \<le> j_sequence r
      \<Longrightarrow> served st (job_key (pending st ! i)) \<le> served st (job_key q)"
    and "job_key (pending st ! i) = job_key q \<Longrightarrow> j_sequence (pending st ! i) \<le> j_sequence q"
proof -
  let ?p = "pending st ! i" and ?js = "pending st" and ?srv = "served st"
  have i: "i < length ?js" by (rule select_job_lt [OF sel])
  obtain j where j: "j < length ?js" "?js ! j = q" using q(1) by (auto simp: in_set_conv_nth)
  have le: "fair_key ?js ?srv i \<le> fair_key ?js ?srv j"
    using find_fair_least [of _ ?js ?srv i j] sel q(2) j by (simp add: select_job_def)
  then show "j_priority ?p \<le> j_priority q" using j by (auto simp: fair_key_def)
  show "served st (job_key ?p) \<le> served st (job_key q)"
    if prio: "j_priority ?p = j_priority q"
      and oldest: "\<forall>r \<in> set ?js. job_key r = job_key q \<longrightarrow> j_sequence q \<le> j_sequence r"
  proof -
    have "age_rank ?js ?srv j = 0"
      using age_rank_oldest [OF j(1) dist] oldest j by simp
    then have "?srv (job_key ?p) - prio_floor ?js ?srv (j_priority q) + age_rank ?js ?srv i
        \<le> ?srv (job_key q) - prio_floor ?js ?srv (j_priority q)"
      using le prio j by (auto simp: fair_key_def)
    moreover have "prio_floor ?js ?srv (j_priority q) \<le> ?srv (job_key ?p)"
      "prio_floor ?js ?srv (j_priority q) \<le> ?srv (job_key q)"
      using prio_floor_le [OF i, of ?srv] prio_floor_le [OF j(1), of ?srv] prio j by simp_all
    ultimately show ?thesis by linarith
  qed
  show "j_sequence ?p \<le> j_sequence q" if key: "job_key ?p = job_key q"
  proof (rule ccontr)
    assume "\<not> j_sequence ?p \<le> j_sequence q"
    then have "age_rank ?js ?srv j < age_rank ?js ?srv i"
      using age_rank_mono [OF i j(1)] key j by simp
    moreover have "j_priority ?p = j_priority q" using key by (simp add: job_key_def)
    ultimately show False using le key j by (auto simp: fair_key_def)
  qed
qed

end
