(* ===== verification/Scheduler_Props.thy ===== *)
theory Scheduler_Props
  imports Scheduler_Inv Scheduler_Fair
begin

text \<open>
  What the scheduler promises, in every state that any sequence of its operations can reach:
  capacities hold, interactive work pauses what it conflicts with, nothing admissible waits, the
  next job is the fair one, and cancellation, yielding and demand hints do what they say.
\<close>

section \<open>Lemmas\<close>

lemma reach_core: "reachable (sched_init sroots) (sched_step sroots) st \<Longrightarrow> core_ok st"
  using scheduler.reachable_inv by (auto simp: sched_ok_def)

text \<open>A small mediahost: one CPU slot, two roots in one storage domain that admits two operations.\<close>

definition sample_config :: SchedulerConfig where
  "sample_config =
     \<lparr>cfg_cpu_slots = 1,
      cfg_io_domains = [\<lparr>d_name = ''array'', d_roots = [''/a'', ''/b''], d_max_concurrent = 2\<rparr>]\<rparr>"

definition sample_scheduler :: Scheduler where
  "sample_scheduler =
     (case sched_new (\<lambda>path. ''t'' @ path) (\<lambda>_. FALLBACK_DOMAIN) [''/a'', ''/b''] sample_config of
        Inr sch \<Rightarrow> sch | Inl _ \<Rightarrow> undefined)"

definition heavy :: Resources where
  "heavy = \<lparr>r_cpu = 1, r_io = {''config:array''}, r_exclusive = {}\<rparr>"

text \<open>Two hubs queue one CPU-heavy job each.\<close>

definition sample_one :: sched where
  "sample_one = snd (acquire_with_sources 0 Loudness heavy (Some ''hub1'') ''j1'' {} (sc_state sample_scheduler))"

definition sample_two :: sched where
  "sample_two = snd (acquire_with_sources 0 Ed2k heavy (Some ''hub2'') ''j2'' {} sample_one)"

lemma sample_new: "sched_new (\<lambda>path. ''t'' @ path) (\<lambda>_. FALLBACK_DOMAIN) [''/a'', ''/b''] sample_config
    = Inr sample_scheduler"
  and sample_scheduler_eq: "sample_scheduler = \<lparr>sc_state =
         \<lparr>next_id = 1, next_sequence = 1, cpu_capacity = 1,
          io_capacity = [''config:array'' \<mapsto> 2, FALLBACK_DOMAIN \<mapsto> 1],
          pending = [], active = [], served = (\<lambda>_. 0), interactive = [], hints = [],
          ctl = (\<lambda>_. Control_default)\<rparr>,
       sc_roots = [''t/a'' \<mapsto> ''config:array'', ''t/b'' \<mapsto> ''config:array'']\<rparr>"
proof -
  have e: "sched_new (\<lambda>path. ''t'' @ path) (\<lambda>_. FALLBACK_DOMAIN) [''/a'', ''/b''] sample_config
    = Inr \<lparr>sc_state =
         \<lparr>next_id = 1, next_sequence = 1, cpu_capacity = 1,
          io_capacity = [''config:array'' \<mapsto> 2, FALLBACK_DOMAIN \<mapsto> 1],
          pending = [], active = [], served = (\<lambda>_. 0), interactive = [], hints = [],
          ctl = (\<lambda>_. Control_default)\<rparr>,
       sc_roots = [''t/a'' \<mapsto> ''config:array'', ''t/b'' \<mapsto> ''config:array'']\<rparr>"
    by (simp add: sched_new_def sample_config_def trim_def trim_start_def is_ws_def is_ascii_ws_def
        Let_def add_root_domain_def or_insert_def FALLBACK_DOMAIN_def)
  then show "sched_new (\<lambda>path. ''t'' @ path) (\<lambda>_. FALLBACK_DOMAIN) [''/a'', ''/b''] sample_config
    = Inr sample_scheduler" by (simp add: sample_scheduler_def)
  show "sample_scheduler = \<lparr>sc_state =
         \<lparr>next_id = 1, next_sequence = 1, cpu_capacity = 1,
          io_capacity = [''config:array'' \<mapsto> 2, FALLBACK_DOMAIN \<mapsto> 1],
          pending = [], active = [], served = (\<lambda>_. 0), interactive = [], hints = [],
          ctl = (\<lambda>_. Control_default)\<rparr>,
       sc_roots = [''t/a'' \<mapsto> ''config:array'', ''t/b'' \<mapsto> ''config:array'']\<rparr>"
    using e by (simp add: sample_scheduler_def)
qed

abbreviation sample_reach :: "sched \<Rightarrow> bool" where
  "sample_reach \<equiv> reachable (sched_init (sc_roots sample_scheduler)) (sched_step (sc_roots sample_scheduler))"

lemma built_heavy: "built (sc_roots sample_scheduler) heavy"
  unfolding built_def heavy_def
  by (rule exI [of _ "[''t/a'']"], rule exI [of _ True], rule exI [of _ "[]"])
     (simp add: resources_def sample_scheduler_eq)

lemma sample_reach_one: "sample_reach sample_one"
proof -
  have "sched_init (sc_roots sample_scheduler) (sc_state sample_scheduler)"
    unfolding sched_init_def using sample_new by blast
  then show ?thesis
    unfolding sample_one_def by (rule reach_step [OF reach_init]) (rule sched_step.Acquire [OF built_heavy])
qed

lemma sample_reach_two: "sample_reach sample_two"
  unfolding sample_two_def by (rule reach_step [OF sample_reach_one]) (rule sched_step.Acquire [OF built_heavy])

text \<open>Evaluation: without hints every priority is the base, and an empty run of the loop.\<close>

lemma refresh_no_hints:
  assumes "hints st = []" and "\<forall>j \<in> set (all_jobs st). j_priority j = j_base_priority j"
  shows "refresh_demand_priorities now st = st"
proof -
  have r: "retain_hints now st = st" using assms(1) by (simp add: retain_hints_def)
  have "refreshed st j = j" if "j \<in> set (all_jobs st)" for j
    using that assms by (simp add: refreshed_def demanded_def hinted_def)
  then have "map (refreshed st) (pending st) = pending st" "map (refreshed st) (active st) = active st"
    by (simp_all add: all_jobs_def map_idI)
  with r show ?thesis by (simp add: refresh_demand_priorities_def)
qed

lemma dispatch_loop_None: "select_job st = None \<Longrightarrow> dispatch_loop st = st"
  by (simp add: dispatch_loop.simps)

lemma dispatch_loop_Some: "select_job st = Some i \<Longrightarrow> dispatch_loop st = dispatch_loop (admit_job i st)"
  by (simp add: dispatch_loop.simps [of st])

definition job1 :: Job where
  "job1 = \<lparr>j_id = 1, j_sequence = 1, j_priority = Loudness, j_base_priority = Loudness,
     j_resources = heavy, j_owner = Some ''hub1'', j_label = ''j1'', j_demand_sources = {}\<rparr>"

definition job2 :: Job where
  "job2 = \<lparr>j_id = 2, j_sequence = 2, j_priority = Ed2k, j_base_priority = Ed2k,
     j_resources = heavy, j_owner = Some ''hub2'', j_label = ''j2'', j_demand_sources = {}\<rparr>"

lemma sample_one_eq: "sample_one = (sc_state sample_scheduler)
   \<lparr>next_id := 2, next_sequence := 2, active := [job1],
    served := (\<lambda>_. 0)((Loudness, Some ''hub1'') := 1),
    ctl := (\<lambda>_. Control_default)(1 := \<lparr>granted = True, pause = False, cancelled = False\<rparr>)\<rparr>"
proof -
  let ?s = "(sc_state sample_scheduler)\<lparr>next_id := 2, next_sequence := 2, pending := [job1]\<rparr>"
  have r: "refresh_demand_priorities 0 ?s = ?s"
    by (rule refresh_no_hints) (simp_all add: sample_scheduler_eq all_jobs_def job1_def)
  then have p: "request_preemption 0 ?s = ?s"
    by (simp add: request_preemption_def Let_def preempt_requests_def pause_blocked_def sample_scheduler_eq)
  have sel: "select_job ?s = Some 0"
    by (simp add: select_job_def fair_order_def available_def interrupted_def used_cpu_def used_io_def
        io_cap_def sample_scheduler_eq job1_def heavy_def)
  let ?t = "admit_job 0 ?s"
  have "select_job ?t = None"
    by (simp add: select_job_def fair_order_def swap_remove_def admit_job_def Let_def set_ctl_def sample_scheduler_eq)
  then have "settle 0 ?s = ?t"
    by (simp add: settle_def p dispatch_def r dispatch_loop_Some [OF sel] dispatch_loop_None)
  moreover have "sample_one = settle 0 ?s"
    by (simp add: sample_one_def acquire_with_sources_def Let_def join_service_level_def job1_def
        sample_scheduler_eq numeral_2_eq_2 fun_upd_idem)
  ultimately show ?thesis
    by (simp add: admit_job_def Let_def set_ctl_def swap_remove_def sample_scheduler_eq job1_def job_key_def
        Control_default_def)
qed

lemma sample_two_eq: "sample_two = sample_one
   \<lparr>next_id := 3, next_sequence := 3, pending := [job2],
    ctl := (ctl sample_one)(1 := \<lparr>granted = True, pause = True, cancelled = False\<rparr>)\<rparr>"
proof -
  let ?s = "sample_one\<lparr>next_id := 3, next_sequence := 3, pending := [job2]\<rparr>"
  let ?t = "?s\<lparr>ctl := (ctl sample_one)(1 := \<lparr>granted = True, pause = True, cancelled = False\<rparr>)\<rparr>"
  note eqs = sample_one_eq sample_scheduler_eq
  have r: "refresh_demand_priorities 0 ?s = ?s" "refresh_demand_priorities 0 ?t = ?t"
    by (rule refresh_no_hints; simp add: eqs all_jobs_def job1_def job2_def)+
  have q: "preempt_requests ?s = [\<lparr>q_priority = Ed2k, q_cpu = 1, q_cpu_full = True, q_full_io = {},
      q_exclusive = {}\<rparr>]"
    by (simp add: preempt_requests_def eqs job1_def job2_def heavy_def interrupted_def used_cpu_def
        used_io_def io_cap_def Let_def FALLBACK_DOMAIN_def)
  have flag: "set_ctl (j_id job1) (pause_update (\<lambda>_. interrupted ?s (j_resources job1))) ?s = ?s"
    by (simp add: set_ctl_def eqs job1_def interrupted_def fun_upd_idem)
  have b: "blocks \<lparr>q_priority = Ed2k, q_cpu = 1, q_cpu_full = True, q_full_io = {}, q_exclusive = {}\<rparr> job1"
    by (simp add: blocks_def job1_def heavy_def Let_def less_Priority_def)
  have "active sample_one = [job1]" by (simp add: eqs)
  then have p: "request_preemption 0 ?s = ?t"
    using b by (simp add: request_preemption_def Let_def r flag q pause_blocked_def b)
      (simp add: set_ctl_def eqs job1_def)
  have "\<not> available ?t heavy"
    by (simp add: available_def eqs interrupted_def used_cpu_def job1_def heavy_def)
  then have "select_job ?t = None"
    by (simp add: select_job_def fair_order_def job2_def)
  then have "settle 0 ?s = ?t" unfolding settle_def dispatch_def p r by (rule dispatch_loop_None)
  moreover have "sample_two = settle 0 ?s"
    by (simp add: sample_two_def acquire_with_sources_def Let_def join_service_level_def job2_def
        eqs eval_nat_numeral fun_upd_idem)
  ultimately show ?thesis by simp
qed

text \<open>What \<open>settle\<close> keeps: the jobs up to their effective priority, who is cancelled, and the
  interactive reservations.\<close>

lemma dispatch_loop_frame:
  assumes "core_ok st"
  shows "mset (all_jobs (dispatch_loop st)) = mset (all_jobs st)
       \<and> interactive (dispatch_loop st) = interactive st \<and> hints (dispatch_loop st) = hints st
       \<and> (\<forall>i. cancelled (ctl (dispatch_loop st) i) = cancelled (ctl st i))"
proof -
  let ?P = "\<lambda>s. core_ok s \<and> mset (all_jobs s) = mset (all_jobs st) \<and> interactive s = interactive st
      \<and> hints s = hints st \<and> (\<forall>i. cancelled (ctl s i) = cancelled (ctl st i))"
  have "?P (dispatch_loop st)"
    by (rule dispatch_loop_induct) (use assms in \<open>auto simp: core_ok_admit admit_jobs\<close>)
  then show ?thesis by blast
qed

lemma settle_frame:
  assumes "core_ok st"
  shows "mset (all_jobs (settle now st)) = mset (map (refreshed (retain_hints now st)) (all_jobs st))"
    "interactive (settle now st) = interactive st" "hints (settle now st) = hints (retain_hints now st)"
    "cancelled (ctl (settle now st) i) = cancelled (ctl st i)"
proof -
  let ?p = "request_preemption now st"
  let ?r = "refresh_demand_priorities now ?p"
  note sel = only_pause_sel [OF request_preemption_only]
  have core: "core_ok ?r" using assms by (simp add: core_ok_preempt core_ok_refresh)
  have hints: "hints ?p = hints (retain_hints now st)" by (simp add: sel(9))
  have "retain_hints now ?p = ?p" by (simp add: retain_hints_def hints)
  moreover have "refreshed ?p (refreshed (retain_hints now st) j) = refreshed (retain_hints now st) j" for j
    by (simp add: refreshed_def demanded_def hinted_def hints)
  ultimately have "all_jobs ?r = map (refreshed (retain_hints now st)) (all_jobs st)"
    by (simp add: all_jobs_def sel comp_def)
  then show "mset (all_jobs (settle now st)) = mset (map (refreshed (retain_hints now st)) (all_jobs st))"
    using dispatch_loop_frame [OF core] by (simp add: settle_def dispatch_def)
  show "interactive (settle now st) = interactive st"
    using dispatch_loop_frame [OF core] by (simp add: settle_def dispatch_def sel)
  show "hints (settle now st) = hints (retain_hints now st)"
    using dispatch_loop_frame [OF core] \<open>retain_hints now ?p = ?p\<close>
    by (simp add: settle_def dispatch_def hints)
  show "cancelled (ctl (settle now st) i) = cancelled (ctl st i)"
    using dispatch_loop_frame [OF core] by (simp add: settle_def dispatch_def sel(11) [of now st])
qed

text \<open>Ids, owners and everything else but the effective priority go through \<open>settle\<close> unchanged.\<close>

lemma settle_map:
  assumes "core_ok st" and "\<And>h j. g (refreshed h j) = g j"
  shows "mset (map g (all_jobs (settle now st))) = mset (map g (all_jobs st))"
proof -
  have "image_mset g (mset (all_jobs (settle now st))) = image_mset g (image_mset (refreshed (retain_hints now st)) (mset (all_jobs st)))"
    using settle_frame(1) [OF assms(1)] by simp
  then show ?thesis by (simp add: image_mset.compositionality comp_def assms(2))
qed

lemma settle_jobs_set:
  assumes "core_ok st"
  shows "set (all_jobs (settle now st)) = refreshed (retain_hints now st) ` set (all_jobs st)"
  using settle_frame(1) [OF assms] by (metis set_map set_mset_mset)

text \<open>A job that conflicts with interactive work is not admitted.\<close>

lemma settle_interrupted:
  assumes core: "core_ok st" and j: "j \<in> set (pending st)" and int: "interrupted st (j_resources j)"
  shows "j_id j \<in> j_id ` set (pending (settle now st))"
proof -
  let ?r = "refresh_demand_priorities now (request_preemption now st)"
  let ?P = "\<lambda>s. interactive s = interactive st
      \<and> (\<exists>k \<in> set (pending s). j_id k = j_id j \<and> j_resources k = j_resources j)"
  note sel = only_pause_sel [OF request_preemption_only]
  have "?P (dispatch_loop ?r)"
  proof (rule dispatch_loop_induct)
    show "?P ?r" using j by (auto simp: sel)
    fix s i
    assume P: "?P s" and i: "i < length (pending s)" and av: "available s (j_resources (pending s ! i))"
    from P obtain k where k: "k \<in> set (pending s)" "j_id k = j_id j" "j_resources k = j_resources j" by blast
    have "interrupted s (j_resources k)" using int P k(3) by (simp add: interrupted_def)
    with av have "k \<noteq> pending s ! i" by (auto simp: available_def)
    with k(1) set_swap_remove [OF i] have "k \<in> set (swap_remove i (pending s))" by blast
    with P k show "?P (admit_job i s)" by auto
  qed
  then obtain k where "k \<in> set (pending (settle now st))" "j_id k = j_id j"
    unfolding settle_def dispatch_def by blast
  then show ?thesis by (metis image_eqI)
qed

text \<open>A viewer's read on the same array arrives while the first job runs.\<close>

definition sample_viewer :: sched where
  "sample_viewer = snd (enter_interactive heavy sample_one)"

lemma sample_reach_viewer: "sample_reach sample_viewer"
  unfolding sample_viewer_def
  by (rule reach_step [OF sample_reach_one]) (rule sched_step.EnterInteractive [OF built_heavy])

lemma conflicts_heavy: "conflicts heavy heavy"
  by (simp add: conflicts_def heavy_def)

lemma sample_viewer_sel:
  "active sample_viewer = [job1]" "pending sample_viewer = []"
  "interactive sample_viewer = [(2, heavy)]" "\<not> cancelled (ctl sample_viewer (Suc 0))"
  by (simp_all add: sample_viewer_def enter_interactive_def Let_def sample_one_eq sample_scheduler_eq
      conflicts_heavy job1_def)

text \<open>Both jobs of the example waiting at once.\<close>

definition sample_queue :: sched where
  "sample_queue = (sc_state sample_scheduler)\<lparr>next_id := 3, next_sequence := 3, pending := [job1, job2]\<rparr>"

lemma sample_queue_core: "core_ok sample_queue"
  by (simp add: sample_queue_def core_ok_def all_jobs_def sample_scheduler_eq job1_def job2_def heavy_def
      used_cpu_def used_io_def exclusive_ok_def io_cap_def Control_default_def)

lemma available_sample_queue: "available sample_queue heavy"
  by (simp add: available_def interrupted_def sample_queue_def sample_scheduler_eq used_cpu_def
      used_io_def io_cap_def heavy_def)

lemma sample_queue_select: "select_job sample_queue = Some 1"
proof -
  have "pending sample_queue = [job1, job2]" by (simp add: sample_queue_def)
  moreover have "hd (fair_order [job1, job2] (served sample_queue)) = 1
      \<and> fair_order [job1, job2] (served sample_queue) \<noteq> []"
    by (simp add: fair_order_def Let_def upt_rec job1_def job2_def less_eq_Priority_def less_Priority_def
        numeral_2_eq_2)
  moreover have "j_resources job2 = heavy" by (simp add: job2_def)
  ultimately show ?thesis
    using available_sample_queue
    by (cases "fair_order [job1, job2] (served sample_queue)") (simp_all add: select_job_def)
qed

lemma mset_remove_id:
  assumes "distinct (map j_id xs)" and "a \<in> set xs" and "j_id a = i"
  shows "mset xs = add_mset a (mset (filter (\<lambda>x. j_id x \<noteq> i) xs))"
  using assms
proof (induction xs)
  case Nil
  then show ?case by simp
next
  case (Cons x xs)
  show ?case
  proof (cases "x = a")
    case True
    then have "filter (\<lambda>x. j_id x \<noteq> i) xs = xs"
      using Cons.prems by (auto simp: filter_id_conv image_iff)
    with True Cons.prems show ?thesis by simp
  next
    case False
    with Cons.prems have "a \<in> set xs" "j_id x \<noteq> i" by (auto simp: image_iff)
    with Cons show ?thesis by simp
  qed
qed

lemma finish_removed_ids:
  assumes "core_ok st"
  shows "j_id ` set (all_jobs (finish_removed i st)) = j_id ` set (all_jobs st) - {i}"
proof (cases "position (\<lambda>j. j_id j = i) (pending st)")
  case None
  then have "finish_removed i st = st\<lparr>active := filter (\<lambda>a. j_id a \<noteq> i) (active st)\<rparr>"
    by (simp add: finish_removed_def)
  moreover have "\<forall>x \<in> set (pending st). j_id x \<noteq> i" using None by (simp add: position_None)
  ultimately show ?thesis by (auto simp: all_jobs_def)
next
  case (Some k)
  then have fr: "finish_removed i st = st\<lparr>active := filter (\<lambda>a. j_id a \<noteq> i) (active st),
      pending := swap_remove k (pending st)\<rparr>"
    by (simp add: finish_removed_def)
  from position_Some [OF Some] have k: "k < length (pending st)" "j_id (pending st ! k) = i" by auto
  have "distinct (map j_id (pending st))" using assms by (simp add: core_ok_def all_jobs_def)
  moreover have "mset (map j_id (pending st ! k # swap_remove k (pending st))) = mset (map j_id (pending st))"
    using mset_swap_remove [OF k(1)] by (metis mset.simps(2) mset_map)
  ultimately have "distinct (map j_id (pending st ! k # swap_remove k (pending st)))"
    using mset_eq_imp_distinct_iff by blast
  then have "i \<notin> j_id ` set (swap_remove k (pending st))" using k(2) by simp
  then have "\<forall>x \<in> set (swap_remove k (pending st)). j_id x \<noteq> i" by blast
  moreover have "set (pending st) = insert (pending st ! k) (set (swap_remove k (pending st)))"
    by (rule set_swap_remove [OF k(1)])
  ultimately show ?thesis using k(2) by (auto simp: all_jobs_def fr)
qed

section \<open>Properties\<close>

text \<open>C1. Capacity. In every reachable state the CPU-heavy jobs fit the configured slots, each
  storage domain runs at most the operations it admits, and no two running jobs hold the same
  exclusive name.\<close>

theorem scheduler_capacity:
  assumes "reachable (sched_init sroots) (sched_step sroots) st"
  shows "used_cpu st \<le> cpu_capacity st \<and> (\<forall>d. used_io st d \<le> io_cap st d)
       \<and> (\<forall>i < length (active st). \<forall>k < i.
            r_exclusive (j_resources (active st ! k)) \<inter> r_exclusive (j_resources (active st ! i)) = {})"
  using reach_core [OF assms]
  by (auto simp: core_ok_def exclusive_ok_def sorted_wrt_iff_nth_less)

theorem scheduler_capacity_witness:
  "used_cpu sample_two \<le> 1 \<and> used_io sample_two ''config:array'' \<le> 2"
proof -
  have "cpu_capacity sample_two = 1" and "io_cap sample_two ''config:array'' = 2"
    by (simp_all add: sample_two_eq sample_one_eq sample_scheduler_eq io_cap_def FALLBACK_DOMAIN_def)
  with scheduler_capacity [OF sample_reach_two] show ?thesis by metis
qed

text \<open>C7. Nothing admissible waits. In every reachable state each waiting job is blocked by
  interactive work, by a full resource or by a held exclusive name; so once nothing runs and no
  interactive work is present, the queue is empty.\<close>

theorem scheduler_work_conserving:
  assumes "reachable (sched_init sroots) (sched_step sroots) st"
  shows "(\<forall>j \<in> set (pending st). \<not> available st (j_resources j))
       \<and> (active st = [] \<and> interactive st = [] \<longrightarrow> pending st = [])"
proof -
  have ok: "sched_ok st" by (rule scheduler.reachable_inv [OF assms])
  then have no: "\<forall>j \<in> set (pending st). \<not> available st (j_resources j)"
    by (simp add: sched_ok_def work_ok_def)
  moreover have "pending st = []" if idle: "active st = []" "interactive st = []"
  proof (rule ccontr)
    assume "pending st \<noteq> []"
    then obtain j where j: "j \<in> set (pending st)" by (cases "pending st") auto
    have "r_cpu (j_resources j) \<le> 1" "0 < cpu_capacity st" "\<forall>d. 0 < io_cap st d"
      using ok j by (auto simp: sched_ok_def core_ok_def all_jobs_def)
    then have "available st (j_resources j)"
      using idle by (simp add: available_def interrupted_def used_cpu_def used_io_def)
    with no j show False by blast
  qed
  ultimately show ?thesis by blast
qed

theorem scheduler_work_conserving_witness:
  "pending sample_two = [job2] \<and> \<not> available sample_two (j_resources job2)"
  using scheduler_work_conserving [OF sample_reach_two] by (simp add: sample_two_eq)

text \<open>Interactive work comes first. In every reachable state a running job that conflicts with an
  interactive reservation has been told to pause, and its next checkpoint, unless the job was
  cancelled, takes it off the running set and leaves it waiting.\<close>

theorem interactive_preempts:
  assumes "reachable (sched_init sroots) (sched_step sroots) st"
    and "a \<in> set (active st)" and "(k, res) \<in> set (interactive st)" and "conflicts res (j_resources a)"
    and "\<not> cancelled (ctl st (j_id a))"
  shows "pause (ctl st (j_id a))
       \<and> j_id a \<in> j_id ` set (pending (snd (checkpoint now (j_id a) st)))
       \<and> j_id a \<notin> j_id ` set (active (snd (checkpoint now (j_id a) st)))"
proof -
  have ok: "sched_ok st" by (rule scheduler.reachable_inv [OF assms(1)])
  then have core: "core_ok st" by (simp add: sched_ok_def)
  have int: "interrupted st (j_resources a)"
    using assms(3,4) by (auto simp: interrupted_def list_ex_iff)
  have pause: "pause (ctl st (j_id a))"
    using ok assms(2) int by (simp add: sched_ok_def paused_ok_def)
  obtain b where b: "find (\<lambda>x. j_id x = j_id a) (active st) = Some b"
    using assms(2) by (metis (mono_tags, lifting) find_None_iff not_None_eq)
  then have "b = a"
    using find_active [OF b] assms(2) id_unique [OF core] by (simp add: all_jobs_def)
  let ?st' = "snd (checkpoint now (j_id a) st)"
  let ?q = "set_ctl (j_id a) (granted_update (\<lambda>_. False))
      (st\<lparr>active := filter (\<lambda>x. j_id x \<noteq> j_id a) (active st)\<rparr>)\<lparr>pending := pending st @ [a]\<rparr>"
  have st': "?st' = settle now ?q"
    using pause assms(5) b \<open>b = a\<close> by (simp add: checkpoint_def yield_job_def Let_def)
  have core': "core_ok ?q" by (rule yield_core [OF core b [unfolded \<open>b = a\<close>] assms(5)])
  have in_p: "j_id a \<in> j_id ` set (pending ?st')"
    unfolding st' by (rule settle_interrupted [OF core']) (use int in \<open>auto simp: interrupted_def\<close>)
  moreover have "core_ok ?st'" using checkpoint_ok [OF ok] by (simp add: sched_ok_def)
  then have "distinct (map j_id (all_jobs ?st'))" by (simp add: core_ok_def)
  ultimately show ?thesis using pause by (auto simp: all_jobs_def)
qed

theorem interactive_preempts_witness:
  "pause (ctl sample_viewer 1) \<and> 1 \<in> j_id ` set (pending (snd (checkpoint 0 1 sample_viewer)))"
proof -
  have "job1 \<in> set (active sample_viewer)" "(2, heavy) \<in> set (interactive sample_viewer)"
    "conflicts heavy (j_resources job1)" "\<not> cancelled (ctl sample_viewer (j_id job1))"
    by (simp_all add: sample_viewer_sel conflicts_heavy) (simp_all add: job1_def conflicts_heavy sample_viewer_sel)
  from interactive_preempts [OF sample_reach_viewer this, of 0] show ?thesis by (simp add: job1_def)
qed

text \<open>A permit means running. In every reachable state ids are unique, the waiter of a queued job
  keeps waiting (it is neither granted nor cancelled), and the waiter of a running job that was not
  cancelled has its permit.\<close>

theorem permit_iff_running:
  assumes "reachable (sched_init sroots) (sched_step sroots) st"
  shows "distinct (map j_id (pending st @ active st))
       \<and> (\<forall>j \<in> set (pending st). wait_result (ctl st (j_id j)) = None)
       \<and> (\<forall>j \<in> set (active st). \<not> cancelled (ctl st (j_id j)) \<longrightarrow>
            wait_result (ctl st (j_id j)) = Some (Inr ()))"
  using reach_core [OF assms] by (simp add: core_ok_def all_jobs_def wait_result_def)

theorem permit_iff_running_witness:
  "wait_result (ctl sample_two 2) = None \<and> wait_result (ctl sample_two 1) = Some (Inr ())"
  using permit_iff_running [OF sample_reach_two]
  by (simp add: sample_two_eq sample_one_eq sample_scheduler_eq job1_def job2_def)

text \<open>Preemption is exact. After \<open>request_preemption\<close> a running job is told to pause if and only
  if interactive work conflicts with it, or some waiting job of strictly higher priority that
  interactive work does not block needs what it holds: a CPU slot when all are taken, a storage
  domain that is full, or an exclusive name. Optional work never displaces its equals.\<close>

theorem preemption_exact:
  assumes "core_ok st" and "a \<in> set (active (request_preemption now st))"
  shows "pause (ctl (request_preemption now st) (j_id a)) \<longleftrightarrow>
           interrupted st (j_resources a)
         \<or> (\<exists>p \<in> set (pending (request_preemption now st)).
              \<not> interrupted st (j_resources p) \<and> j_priority p < j_priority a
              \<and> ((r_cpu (j_resources p) \<noteq> 0 \<and> r_cpu (j_resources a) \<noteq> 0
                   \<and> cpu_capacity st < used_cpu st + r_cpu (j_resources p))
                 \<or> (\<exists>d \<in> r_io (j_resources a) \<inter> r_io (j_resources p). io_cap st d \<le> used_io st d)
                 \<or> r_exclusive (j_resources a) \<inter> r_exclusive (j_resources p) \<noteq> {}))"
proof -
  let ?r = "refresh_demand_priorities now st"
  have dist: "distinct (map j_id (active st))" using assms(1) by (simp add: core_ok_def all_jobs_def)
  have same: "interrupted ?r r = interrupted st r" "used_cpu ?r = used_cpu st"
    "used_io ?r d = used_io st d" "io_cap ?r d = io_cap st d" for r d
    by (simp_all add: interrupted_def used_cpu_def used_io_def io_cap_def comp_def filter_map)
  have pend: "pending (request_preemption now st) = pending ?r"
    using only_pause_sel(5) [OF request_preemption_only] .
  have "(\<exists>q \<in> set (preempt_requests ?r). blocks q a) \<longleftrightarrow>
      (\<exists>p \<in> set (pending ?r). \<not> interrupted st (j_resources p) \<and> j_priority p < j_priority a
        \<and> ((r_cpu (j_resources p) \<noteq> 0 \<and> r_cpu (j_resources a) \<noteq> 0
             \<and> cpu_capacity st < used_cpu st + r_cpu (j_resources p))
           \<or> (\<exists>d \<in> r_io (j_resources a) \<inter> r_io (j_resources p). io_cap st d \<le> used_io st d)
           \<or> r_exclusive (j_resources a) \<inter> r_exclusive (j_resources p) \<noteq> {}))"
    unfolding preempt_requests_def blocks_def Let_def same set_map set_filter by fastforce
  then show ?thesis
    using request_preemption_pause [OF dist assms(2)] pend by simp
qed

theorem preemption_exact_witness:
  "core_ok sample_two \<and> pause (ctl (request_preemption 0 sample_two) 1)"
proof -
  have core: "core_ok sample_two" by (rule reach_core [OF sample_reach_two])
  have r: "refresh_demand_priorities 0 sample_two = sample_two"
    by (rule refresh_no_hints)
      (simp_all add: sample_two_eq sample_one_eq sample_scheduler_eq all_jobs_def job1_def job2_def)
  note sel = only_pause_sel [OF request_preemption_only [of 0 sample_two], unfolded r]
  have a: "job1 \<in> set (active (request_preemption 0 sample_two))"
    by (simp add: sel(6)) (simp add: sample_two_eq sample_one_eq)
  have p: "job2 \<in> set (pending (request_preemption 0 sample_two))"
    by (simp add: sel(5)) (simp add: sample_two_eq)
  have "\<not> interrupted sample_two (j_resources job2)" "j_priority job2 < j_priority job1"
    "r_cpu (j_resources job2) \<noteq> 0" "r_cpu (j_resources job1) \<noteq> 0"
    "cpu_capacity sample_two < used_cpu sample_two + r_cpu (j_resources job2)"
    by (simp_all add: interrupted_def sample_two_eq sample_one_eq sample_scheduler_eq used_cpu_def
        job1_def job2_def heavy_def less_Priority_def)
  with p preemption_exact [OF core a] have "pause (ctl (request_preemption 0 sample_two) (j_id job1))"
    by blast
  with core show ?thesis by (simp add: job1_def)
qed

text \<open>Fair admission. The job the dispatcher picks has the highest priority of all waiting jobs
  that could run; among owners waiting at that priority it belongs to one that was admitted least
  (compared with the oldest job of each); and it is the oldest of its own owner's queue.\<close>

theorem selection_fair:
  assumes "core_ok st" and "select_job st = Some i" and "q \<in> set (pending st)"
    and "available st (j_resources q)"
  shows "j_priority (pending st ! i) \<le> j_priority q
       \<and> (j_priority (pending st ! i) = j_priority q
          \<and> (\<forall>r \<in> set (pending st). job_key r = job_key q \<longrightarrow> j_sequence q \<le> j_sequence r) \<longrightarrow>
            served st (job_key (pending st ! i)) \<le> served st (job_key q))
       \<and> (job_key (pending st ! i) = job_key q \<longrightarrow> j_sequence (pending st ! i) \<le> j_sequence q)"
proof -
  have "distinct (map j_sequence (pending st))" using assms(1) by (simp add: core_ok_def all_jobs_def)
  note fair = select_job_fair [OF assms(2) this assms(3,4)]
  show ?thesis using fair by blast
qed

theorem selection_fair_witness:
  "select_job sample_queue = Some 1 \<and> j_priority (pending sample_queue ! 1) \<le> j_priority job1"
proof -
  have q: "job1 \<in> set (pending sample_queue)" "available sample_queue (j_resources job1)"
    using available_sample_queue by (simp_all add: sample_queue_def job1_def)
  from selection_fair [OF sample_queue_core sample_queue_select q] sample_queue_select
  show ?thesis by blast
qed

text \<open>Joining the round. An owner that queues its first job at a priority is brought to the
  service level of some owner already waiting there, so a newcomer cannot collect the admissions
  it was never owed; no count ever decreases, no other count moves, and an owner already waiting
  keeps the position it earned.\<close>

theorem join_service_level_fair:
  "(\<forall>k. served st k \<le> served (join_service_level p ow st) k)
   \<and> (\<forall>k. k \<noteq> (p, ow) \<longrightarrow> served (join_service_level p ow st) k = served st k)
   \<and> ((\<exists>j \<in> set (pending st). j_priority j = p \<and> j_owner j = ow) \<longrightarrow> join_service_level p ow st = st)
   \<and> ((\<exists>j \<in> set (pending st). j_priority j = p) \<longrightarrow>
        (\<exists>j \<in> set (pending st). j_priority j = p
           \<and> served st (p, j_owner j) \<le> served (join_service_level p ow st) (p, ow)))"
proof (cases "list_ex (\<lambda>j. j_priority j = p \<and> j_owner j = ow) (pending st)")
  case True
  then show ?thesis by (auto simp: join_service_level_def list_ex_iff)
next
  case False
  let ?counts = "map (\<lambda>j. served st (p, j_owner j)) (filter (\<lambda>j. j_priority j = p) (pending st))"
  show ?thesis
  proof (cases ?counts)
    case Nil
    then have "join_service_level p ow st = st" using False by (simp add: join_service_level_def)
    moreover have "\<not> (\<exists>j \<in> set (pending st). j_priority j = p)"
      using Nil by (simp add: filter_empty_conv)
    ultimately show ?thesis by auto
  next
    case (Cons c cs)
    have srv: "served (join_service_level p ow st)
        = (served st)((p, ow) := max (served st (p, ow)) (fold min cs c))"
      using False Cons by (simp add: join_service_level_def Let_def)
    have "fold min cs c \<in> set (c # cs)"
      by (metis Min_in List.finite_set Min.set_eq_fold list.distinct(1) set_empty)
    then have "fold min cs c \<in> set ?counts" using Cons by simp
    then obtain j where "j \<in> set (pending st)" "j_priority j = p"
      "served st (p, j_owner j) = fold min cs c" by auto
    then have "\<exists>j \<in> set (pending st). j_priority j = p
        \<and> served st (p, j_owner j) \<le> served (join_service_level p ow st) (p, ow)"
      by (metis fun_upd_same max.cobounded2 srv)
    then show ?thesis using False by (auto simp: srv list_ex_iff)
  qed
qed

theorem join_service_level_fair_witness:
  "served (join_service_level Loudness (Some ''hub2'') (sample_queue\<lparr>served := (\<lambda>_. 7)\<rparr>))
     (Loudness, Some ''hub2'') \<ge> 7"
  using join_service_level_fair [of "sample_queue\<lparr>served := (\<lambda>_. 7)\<rparr>" Loudness "Some ''hub2''"]
  by (auto simp: sample_queue_def job1_def job2_def)

text \<open>Cancelling an owner. Afterwards no job of the owner waits and none of its demand hints is
  left; the waiters of its queued jobs see the cancellation, and so does every job of it that was
  running; and the jobs of everybody else are all still there, none of them cancelled by this.\<close>

theorem cancel_owner_exact:
  assumes "core_ok st" and "st' = cancel_owner now ow st"
  shows "(\<forall>j \<in> set (pending st'). j_owner j \<noteq> Some ow)
       \<and> (\<forall>((o', src), e) \<in> set (hints st'). o' \<noteq> ow)
       \<and> (\<forall>j \<in> set (all_jobs st). j_owner j = Some ow \<longrightarrow>
            wait_result (ctl st' (j_id j)) = Some (Inl JobCancelled))
       \<and> (\<forall>j \<in> set (all_jobs st). j_owner j \<noteq> Some ow \<longrightarrow>
            j_id j \<in> j_id ` set (all_jobs st')
            \<and> cancelled (ctl st' (j_id j)) = cancelled (ctl st (j_id j)))"
proof -
  let ?m = "cancel_marked ow st"
  have core: "core_ok ?m" by (rule cancel_core [OF assms(1)])
  have st': "st' = settle now ?m" by (simp add: assms(2) cancel_owner_marked)
  have ok': "sched_ok st'" by (simp add: st' settle_ok core)
  note flags = cancel_marked_flags [OF assms(1), of _ ow]
  have canc: "cancelled (ctl st' i) = cancelled (ctl ?m i)" for i
    unfolding st' by (rule settle_frame(4) [OF core])
  have all_m: "set (all_jobs ?m) = {j \<in> set (all_jobs st). j \<in> set (active st) \<or> j_owner j \<noteq> Some ow}"
    by (auto simp: all_jobs_def cancel_marked_sel)
  have ids: "j_id ` set (all_jobs st') = j_id ` set (all_jobs ?m)"
    unfolding st' settle_jobs_set [OF core] by (simp add: image_image)
  have mine: "cancelled (ctl ?m (j_id j))" if "j \<in> set (all_jobs st)" "j_owner j = Some ow" for j
    using that flags(1,2) by (auto simp: all_jobs_def)
  have "j_owner j \<noteq> Some ow" if j: "j \<in> set (pending st')" for j
  proof
    assume own: "j_owner j = Some ow"
    have "j \<in> set (all_jobs st')" using j by (simp add: all_jobs_def)
    then have "j \<in> refreshed (retain_hints now ?m) ` set (all_jobs ?m)"
      unfolding st' settle_jobs_set [OF core] .
    then obtain k where k: "k \<in> set (all_jobs ?m)" "j = refreshed (retain_hints now ?m) k" by blast
    then have "cancelled (ctl ?m (j_id j))" using mine [of k] own all_m by simp
    moreover have "\<not> cancelled (ctl st' (j_id j))"
      using ok' j by (simp add: sched_ok_def core_ok_def)
    ultimately show False by (simp add: canc)
  qed
  moreover have "\<forall>((o', src), e) \<in> set (hints st'). o' \<noteq> ow"
    unfolding st' settle_frame(3) [OF core]
    by (auto simp: retain_hints_def cancel_marked_def Let_def)
  moreover have "wait_result (ctl st' (j_id j)) = Some (Inl JobCancelled)"
    if "j \<in> set (all_jobs st)" "j_owner j = Some ow" for j
    using mine [OF that] by (simp add: wait_result_def canc)
  moreover have "j_id j \<in> j_id ` set (all_jobs st')
      \<and> cancelled (ctl st' (j_id j)) = cancelled (ctl st (j_id j))"
    if "j \<in> set (all_jobs st)" "j_owner j \<noteq> Some ow" for j
    using that flags(3) [OF that] by (simp add: ids all_m canc)
  ultimately show ?thesis by blast
qed

theorem cancel_owner_exact_witness:
  "wait_result (ctl (cancel_owner 0 ''hub2'' sample_two) 2) = Some (Inl JobCancelled)
   \<and> 1 \<in> j_id ` set (all_jobs (cancel_owner 0 ''hub2'' sample_two))"
proof -
  have "all_jobs sample_two = [job2, job1]" by (simp add: all_jobs_def sample_two_eq sample_one_eq)
  with cancel_owner_exact [OF reach_core [OF sample_reach_two] refl, of 0 "''hub2''"] show ?thesis
    by (simp add: job1_def job2_def)
qed

text \<open>No job is lost or duplicated. A checkpoint, whether it yields or not, keeps the set of jobs
  exactly; queueing adds the one new job under a fresh id; finishing, which is also how a waiter
  that gives up leaves, removes that job only.\<close>

theorem jobs_conserved:
  assumes "core_ok st"
  shows "mset (map j_id (all_jobs (snd (checkpoint now i st)))) = mset (map j_id (all_jobs st))
       \<and> (r_cpu res \<le> 1 \<longrightarrow>
            mset (map j_id (all_jobs (snd (acquire_with_sources now p res ow label srcs st))))
              = add_mset (next_id st) (mset (map j_id (all_jobs st)))
            \<and> next_id st \<notin> j_id ` set (all_jobs st))
       \<and> j_id ` set (all_jobs (finish_job now i st)) = j_id ` set (all_jobs st) - {i}"
proof -
  have id: "j_id (refreshed h j) = j_id j" for h j by simp
  have check: "mset (map j_id (all_jobs (snd (checkpoint now i st)))) = mset (map j_id (all_jobs st))"
  proof (cases "cancelled (ctl st i) \<or> \<not> pause (ctl st i) \<or> find (\<lambda>a. j_id a = i) (active st) = None")
    case True
    then show ?thesis by (auto simp: checkpoint_def Let_def yield_job_def)
  next
    case False
    then obtain a where a: "find (\<lambda>a. j_id a = i) (active st) = Some a" and nc: "\<not> cancelled (ctl st i)"
      by auto
    let ?q = "set_ctl i (granted_update (\<lambda>_. False))
        (st\<lparr>active := filter (\<lambda>a. j_id a \<noteq> i) (active st)\<rparr>)\<lparr>pending := pending st @ [a]\<rparr>"
    have e: "snd (checkpoint now i st) = settle now ?q"
      using False a by (simp add: checkpoint_def yield_job_def Let_def)
    have "distinct (map j_id (active st))" using assms by (simp add: core_ok_def all_jobs_def)
    then have "mset (active st) = add_mset a (mset (filter (\<lambda>x. j_id x \<noteq> i) (active st)))"
      using find_active [OF a] by (rule mset_remove_id)
    then have "image_mset j_id (mset (active st))
        = add_mset (j_id a) (image_mset j_id (mset (filter (\<lambda>x. j_id x \<noteq> i) (active st))))"
      by (metis image_mset_add_mset)
    then have "mset (map j_id (all_jobs ?q)) = mset (map j_id (all_jobs st))"
      by (simp add: all_jobs_def)
    then show ?thesis unfolding e settle_map [OF yield_core [OF assms a nc], of j_id, OF id] .
  qed
  have acq: "mset (map j_id (all_jobs (snd (acquire_with_sources now p res ow label srcs st))))
      = add_mset (next_id st) (mset (map j_id (all_jobs st)))" if "r_cpu res \<le> 1"
    unfolding acquire_queued settle_map [OF acquire_queued_core [OF assms that], of j_id, OF id]
    by (simp add: all_jobs_def acquire_queued_def new_job_def Let_def)
  have fresh: "next_id st \<notin> j_id ` set (all_jobs st)" using assms by (auto simp: core_ok_def)
  have "j_id ` set (all_jobs (finish_job now i st)) = j_id ` set (all_jobs (finish_removed i st))"
    unfolding finish_removed settle_jobs_set [OF finish_removed_core [OF assms]] by (simp add: image_image)
  also have "\<dots> = j_id ` set (all_jobs st) - {i}" by (rule finish_removed_ids [OF assms])
  finally show ?thesis using check acq fresh by blast
qed

theorem jobs_conserved_witness:
  "mset (map j_id (all_jobs (snd (checkpoint 5 1 sample_two)))) = {#1, 2#}"
proof -
  have "all_jobs sample_two = [job2, job1]" by (simp add: all_jobs_def sample_two_eq sample_one_eq)
  with jobs_conserved [OF reach_core [OF sample_reach_two]] show ?thesis
    by (simp add: job1_def job2_def add_mset_commute)
qed

text \<open>Demand lasts as long as its hints. After any operation that settles the queue at time
  \<open>now\<close>, no hint that has expired is left, and every job has priority \<open>Demand\<close> exactly when one of
  its sources is hinted by an unexpired hint (or that is its own base), and its base otherwise.\<close>

theorem demand_follows_hints:
  assumes "core_ok st" and "st' = settle now st"
  shows "(\<forall>(k, e) \<in> set (hints st'). (k, e) \<in> set (hints st) \<and> now < e)
       \<and> (\<forall>j \<in> set (all_jobs st'). j_priority j =
            (if \<exists>src \<in> j_demand_sources j. \<exists>ow e. ((ow, src), e) \<in> set (hints st) \<and> now < e
             then Demand else j_base_priority j))"
proof -
  have hinted: "src \<in> hinted (retain_hints now st) \<longleftrightarrow>
      (\<exists>ow e. ((ow, src), e) \<in> set (hints st) \<and> now < e)" for src
    by (force simp: hinted_def retain_hints_def)
  have "j_priority j = (if demanded (retain_hints now st) (j_demand_sources j) then Demand
      else j_base_priority j)" if j: "j \<in> set (all_jobs st')" for j
  proof -
    obtain k where "j = refreshed (retain_hints now st) k"
      using j assms(2) settle_jobs_set [OF assms(1), of now] by auto
    then show ?thesis by simp
  qed
  moreover have "\<forall>(k, e) \<in> set (hints st'). (k, e) \<in> set (hints st) \<and> now < e"
    unfolding assms(2) settle_frame(3) [OF assms(1)] by (auto simp: retain_hints_def)
  ultimately show ?thesis by (simp add: demanded_def hinted)
qed

theorem demand_follows_hints_witness:
  "map j_priority (all_jobs (settle 9 sample_two)) = map j_base_priority (all_jobs (settle 9 sample_two))"
proof -
  have "hints sample_two = []" by (simp add: sample_two_eq sample_one_eq sample_scheduler_eq)
  with demand_follows_hints [OF reach_core [OF sample_reach_two] refl, of 9] show ?thesis by simp
qed

end
