(* ===== verification/Placement.thy ===== *)
theory Placement
  imports Kahawai_Prelude Media_Model
begin

text \<open>
  Where a session runs: the pure ranker of \<open>crates/kahawai-playback/src/placement.rs\<close>, the protocol
  features of \<open>crates/kahawai-proto/src/lib.rs\<close>, the readiness of a benchmark
  (\<open>crates/kahawai-media/src/bench.rs\<close>) and the registry's load table that reserves the winner
  (\<open>crates/kahawai-hub/src/registry.rs\<close>).

  The hash map of boxes is an association list with distinct ids, in the order the map happens to
  iterate. Finite floats are the rationals they denote; every rounding of an arithmetic result to
  single or double precision is a call of the argument \<open>fl\<close>, and no result depends on its choice.
  The constants 0.3 and 1.2 are the exact values of the literals.
\<close>

section \<open>Definitions\<close>

subsection \<open>Protocol features and benchmarks\<close>

datatype ProtocolFeature = SegmentDetection | AudioLoudnessScalars | ExactAudioLoudnessGains
  | AudioLoudnessAnalysis | RetryableSegmentResults | DiscoveryPriorityHints | DeepRescan
  | RevisionedSubtitles | ImageSubsWorklists | ReadinessRunway | VideoBitDepth

fun minimum_minor :: "ProtocolFeature \<Rightarrow> u32" where
  "minimum_minor DiscoveryPriorityHints = 1"
| "minimum_minor DeepRescan = 2"
| "minimum_minor RevisionedSubtitles = 3"
| "minimum_minor ImageSubsWorklists = 4"
| "minimum_minor ReadinessRunway = 5"
| "minimum_minor VideoBitDepth = 6"
| "minimum_minor _ = 0"

definition supports :: "u32 \<Rightarrow> ProtocolFeature \<Rightarrow> bool" where
  "supports minor feature = (minor \<ge> minimum_minor feature)"

record Speeds =
  s1080 :: "f32 option"
  s2160 :: "f32 option"

definition speeds_at :: "Speeds \<Rightarrow> u32 \<Rightarrow> f32 option" where
  "speeds_at s height = (if height > 1080 then s2160 s else s1080 s)"

definition complete :: "Speeds \<Rightarrow> bool" where
  "complete s = list_all (\<lambda>speed. is_some_and speed (\<lambda>v. v > 0)) [s1080 s, s2160 s]"

record BenchResults =
  bench_encoders :: "(string \<times> Speeds) list"
  bench_tonemap :: "Speeds option"
  bench_crashes :: "string list"

definition quarantined :: "BenchResults \<Rightarrow> string \<Rightarrow> bool" where
  "quarantined b key = (key \<in> set (bench_crashes b))"

definition encoder_ready :: "BenchResults \<Rightarrow> string \<Rightarrow> bool" where
  "encoder_ready b element =
     (is_some_and (map_of (bench_encoders b) element) complete \<and> \<not> quarantined b element)"

definition TONEMAP_JOB_KEY :: string where "TONEMAP_JOB_KEY = ''@tonemap''"

definition tonemap_ready :: "BenchResults \<Rightarrow> bool" where
  "tonemap_ready b = (is_some_and (bench_tonemap b) complete \<and> \<not> quarantined b TONEMAP_JOB_KEY)"

subsection \<open>Work classes and pace\<close>

definition ALPHA :: f64 where "ALPHA = 5404319552844595 / 18014398509481984"
definition SUSTAINS :: f32 where "SUSTAINS = 5033165 / 4194304"
definition LOCAL :: string where "LOCAL = ''local''"

definition work_class :: "u32 \<Rightarrow> string \<Rightarrow> string \<Rightarrow> bool \<Rightarrow> string" where
  "work_class height src_codec dst_codec tone_map =
     (let res = (if height > 1080 then ''2160'' else ''1080'');
          tm = (if tone_map then ''|tm'' else [])
      in res @ ''|'' @ src_codec @ ''|'' @ dst_codec @ tm)"

definition blend :: "(f64 \<Rightarrow> f64) \<Rightarrow> f64 option \<Rightarrow> f64 \<Rightarrow> f64" where
  "blend fl prev sample =
     (case prev of
        Some p \<Rightarrow> fl (fl (ALPHA * sample) + fl (fl (1 - ALPHA) * p))
      | None \<Rightarrow> sample)"

definition sustains :: "f32 option \<Rightarrow> bool" where
  "sustains predicted = is_none_or predicted (\<lambda>p. p \<ge> SUSTAINS)"

definition element_encodes :: "string \<Rightarrow> string \<Rightarrow> bool" where
  "element_encodes element codec =
     (let e = to_ascii_lowercase element in
      if codec = ''h264'' then contains_str e ''264''
      else if codec = ''hevc'' then contains_str e ''265'' \<or> contains_str e ''hevc''
      else if codec = ''av1'' then contains_str e ''av1''
      else False)"

subsection \<open>The fleet\<close>

record PlacementNeed =
  n_encode_video :: bool
  n_encode_audio :: bool
  n_video_caps :: "string list"
  n_audio_caps :: "string list"
  n_needs_tonemap :: bool
  n_needs_ass_burn :: bool
  n_required_protocol_feature :: "ProtocolFeature option"
  n_video_codec :: string
  n_audio_codec :: string
  n_work_class :: "string option"
  n_source_kbps :: "u32 option"

record Placement =
  target :: "string option"
  pl_available :: bool
  predicted :: "f32 option"

record EncoderSpeed =
  e_codec :: string
  e_element :: string
  e_hardware :: bool
  e_speed_1080 :: "f32 option"
  e_speed_2160 :: "f32 option"

record BoxCaps =
  b_encoders :: "EncoderSpeed list"
  b_max_sessions :: u32
  b_decode_caps :: "string list"
  b_tonemap :: bool
  b_ass_burn :: bool
  b_tonemap_speed_1080 :: "f32 option"
  b_tonemap_speed_2160 :: "f32 option"

record BoxSnapshot =
  bx_caps :: BoxCaps
  bx_protocol :: u32
  bx_load :: nat
  bx_disabled :: bool
  bx_link_rate :: "u64 option"

record FleetSnapshot =
  boxes :: "(string \<times> BoxSnapshot) list"
  pace :: "string \<times> string \<rightharpoonup> f64"
  local_bench :: "BenchResults option"
  local_video_executor_enabled :: bool

definition pace_of :: "FleetSnapshot \<Rightarrow> string \<Rightarrow> string \<Rightarrow> f64 option" where
  "pace_of fleet module_id class = pace fleet (module_id, class)"

record Candidate =
  cn_id :: string
  cn_sustains :: bool
  cn_tonemap_fit :: bool
  cn_hardware :: bool
  cn_predicted :: "f32 option"
  cn_load :: nat

subsection \<open>Prediction\<close>

definition is_2160 :: "PlacementNeed \<Rightarrow> bool" where
  "is_2160 need = is_some_and (n_work_class need) (\<lambda>c. starts_with c ''2160|'')"

definition slowest :: "f32 list \<Rightarrow> f32 option" where
  "slowest terms = fold (\<lambda>v acc. Some (map_or acc v (\<lambda>a. min a v))) terms None"

definition fastest :: "f32 list \<Rightarrow> f32 option" where
  "fastest terms = fold (\<lambda>v acc. Some (map_or acc v (\<lambda>a. max a v))) terms None"

definition pos_speed :: "f32 \<Rightarrow> f32 option" where
  "pos_speed v = then_some (v > 0) v"

definition option_list :: "'a option \<Rightarrow> 'a list" where
  "option_list x = (case x of None \<Rightarrow> [] | Some v \<Rightarrow> [v])"

text \<open>The component terms of a satellite's prediction: its fastest fitting encoder, the tone-map
  segment, and the rate its link has sustained against the source's bitrate.\<close>

definition fleet_terms :: "(rat \<Rightarrow> rat) \<Rightarrow> BoxSnapshot \<Rightarrow> PlacementNeed \<Rightarrow> f32 list" where
  "fleet_terms fl b need =
     (let caps = bx_caps b; big = is_2160 need;
          best = fastest (filter_map (\<lambda>e. Option.bind (if big then e_speed_2160 e else e_speed_1080 e) pos_speed)
                   (filter (\<lambda>e. n_video_codec need = [] \<or> e_codec e = n_video_codec need)
                      (b_encoders caps)));
          tm = (if n_needs_tonemap need
                then option_list (Option.bind (if big then b_tonemap_speed_2160 caps
                                               else b_tonemap_speed_1080 caps) pos_speed)
                else []);
          link = (case (n_source_kbps need, bx_link_rate b) of
                    (Some kbps, Some bps) \<Rightarrow>
                      if kbps > 0
                      then [fl (fl (fl (fl (of_nat (unat bps)) * 8) / 1000) / fl (of_nat (unat kbps)))]
                      else []
                  | _ \<Rightarrow> [])
      in option_list best @ tm @ link)"

definition predict_fleet :: "(rat \<Rightarrow> rat) \<Rightarrow> FleetSnapshot \<Rightarrow> string \<Rightarrow> PlacementNeed \<Rightarrow> f32 option" where
  "predict_fleet fl fleet i need =
     (case Option.bind (n_work_class need) (pace_of fleet i) of
        Some observed \<Rightarrow> Some (fl observed)
      | None \<Rightarrow> Option.bind (map_of (boxes fleet) i) (\<lambda>b. slowest (fleet_terms fl b need)))"

definition local_terms :: "BenchResults \<Rightarrow> PlacementNeed \<Rightarrow> f32 list" where
  "local_terms bench need =
     (let pick = (\<lambda>s. if is_2160 need then s2160 s else s1080 s);
          best = fastest (filter_map (\<lambda>(_, s). pick s)
                   (filter (\<lambda>(element, _). encoder_ready bench element
                       \<and> (n_video_codec need = [] \<or> element_encodes element (n_video_codec need)))
                      (bench_encoders bench)))
      in option_list best
         @ (if n_needs_tonemap need \<and> tonemap_ready bench
            then option_list (Option.bind (bench_tonemap bench) pick) else []))"

definition predict_local :: "(rat \<Rightarrow> rat) \<Rightarrow> FleetSnapshot \<Rightarrow> PlacementNeed \<Rightarrow> f32 option" where
  "predict_local fl fleet need =
     (case Option.bind (n_work_class need) (pace_of fleet LOCAL) of
        Some observed \<Rightarrow> Some (fl observed)
      | None \<Rightarrow> Option.bind (local_bench fleet) (\<lambda>bench. slowest (local_terms bench need)))"

subsection \<open>Ranking\<close>

definition has_encoder :: "BoxCaps \<Rightarrow> string \<Rightarrow> bool" where
  "has_encoder caps codec = list_ex (\<lambda>e. e_codec e = codec) (b_encoders caps)"

definition codec_ok :: "BoxCaps \<Rightarrow> string \<Rightarrow> string list \<Rightarrow> bool" where
  "codec_ok caps wanted any =
     (if wanted = [] then list_ex (has_encoder caps) any else has_encoder caps wanted)"

definition can_decode :: "BoxCaps \<Rightarrow> string list \<Rightarrow> bool" where
  "can_decode caps wanted =
     (b_decode_caps caps = [] \<or> list_ex (\<lambda>w. w \<in> set (b_decode_caps caps)) wanted)"

definition candidate_of ::
    "(rat \<Rightarrow> rat) \<Rightarrow> FleetSnapshot \<Rightarrow> PlacementNeed \<Rightarrow> string \<times> BoxSnapshot \<Rightarrow> Candidate option" where
  "candidate_of fl fleet need = (\<lambda>(i, b).
     let caps = bx_caps b in
     if (n_encode_video need \<and> \<not> codec_ok caps (n_video_codec need) [''h264'', ''hevc'', ''av1''])
        \<or> (n_encode_audio need \<and> \<not> codec_ok caps (n_audio_codec need) [''aac'', ''opus''])
     then None
     else if (n_encode_video need \<and> \<not> can_decode caps (n_video_caps need))
        \<or> (n_encode_audio need \<and> \<not> can_decode caps (n_audio_caps need))
     then None
     else if unat (b_max_sessions caps) > 0 \<and> bx_load b \<ge> unat (b_max_sessions caps) then None
     else if is_some_and (n_required_protocol_feature need) (\<lambda>f. \<not> supports (bx_protocol b) f) then None
     else if n_needs_ass_burn need \<and> \<not> b_ass_burn caps then None
     else
       let predicted = predict_fleet fl fleet i need in
       Some \<lparr>cn_id = i,
             cn_sustains = sustains predicted,
             cn_tonemap_fit = (\<not> n_needs_tonemap need \<or> b_tonemap caps),
             cn_hardware = list_ex (\<lambda>e. e_hardware e
               \<and> (n_video_codec need = [] \<or> e_codec e = n_video_codec need)) (b_encoders caps),
             cn_predicted = predicted,
             cn_load = bx_load b\<rparr>)"

definition candidate_cmp :: "Candidate \<Rightarrow> Candidate \<Rightarrow> ordering" where
  "candidate_cmp a b =
     then_cmp (cmp_of (cn_sustains b) (cn_sustains a))
    (then_cmp (cmp_of (cn_tonemap_fit b) (cn_tonemap_fit a))
    (then_cmp (cmp_of (cn_hardware b) (cn_hardware a))
    (then_cmp (cmp_of (unwrap_or (cn_predicted b) SUSTAINS) (unwrap_or (cn_predicted a) SUSTAINS))
    (then_cmp (cmp_of (cn_load a) (cn_load b))
              (cmp_of (cn_id a) (cn_id b))))))"

definition rank_boxes :: "(rat \<Rightarrow> rat) \<Rightarrow> FleetSnapshot \<Rightarrow> PlacementNeed \<Rightarrow> Candidate list" where
  "rank_boxes fl fleet need =
     sort_by candidate_cmp
       (filter_map (candidate_of fl fleet need)
         (filter (\<lambda>(_, b). \<not> bx_disabled b) (boxes fleet)))"

definition choose_box :: "(rat \<Rightarrow> rat) \<Rightarrow> FleetSnapshot \<Rightarrow> PlacementNeed \<Rightarrow> string option" where
  "choose_box fl fleet need = (case rank_boxes fl fleet need of [] \<Rightarrow> None | c # _ \<Rightarrow> Some (cn_id c))"

definition decide :: "(rat \<Rightarrow> rat) \<Rightarrow> FleetSnapshot \<Rightarrow> PlacementNeed \<Rightarrow> Placement" where
  "decide fl fleet need =
     (if \<not> n_encode_video need then \<lparr>target = None, pl_available = True, predicted = None\<rparr>
      else let local_enabled = local_video_executor_enabled fleet;
               local_pred = (if local_enabled then predict_local fl fleet need else None)
        in (case choose_box fl fleet need of
              None \<Rightarrow> \<lparr>target = None, pl_available = local_enabled, predicted = local_pred\<rparr>
            | Some i \<Rightarrow>
                (let fleet_pred = predict_fleet fl fleet i need in
                 if local_enabled \<and> \<not> sustains fleet_pred \<and> sustains local_pred \<and> local_pred \<noteq> None
                 then \<lparr>target = None, pl_available = True, predicted = local_pred\<rparr>
                 else \<lparr>target = Some i, pl_available = True, predicted = fleet_pred\<rparr>)))"

subsection \<open>Reservation\<close>

definition LOCAL_TRANSCODER :: string where "LOCAL_TRANSCODER = ''local-transcoder''"

text \<open>The registry's state as placement sees it: what each linked box reported, and the load table.
  \<open>with_fleet\<close> joins them under one set of locks; a box without a link is left out of \<open>rg_boxes\<close>.
  A load entry that is missing reads as zero.\<close>

record Registry =
  rg_boxes :: "(string \<times> BoxSnapshot) list"
  rg_load :: "string \<rightharpoonup> nat"
  rg_disabled :: "string list"
  rg_pace :: "string \<times> string \<rightharpoonup> f64"
  rg_local_bench :: "BenchResults option"
  rg_local_video_executor_enabled :: bool

definition fleet_of :: "Registry \<Rightarrow> FleetSnapshot" where
  "fleet_of rg =
     \<lparr>boxes = map (\<lambda>(i, b). (i, b\<lparr>bx_load := unwrap_or (rg_load rg i) 0,
                                    bx_disabled := (i \<in> set (rg_disabled rg))\<rparr>)) (rg_boxes rg),
      pace = rg_pace rg, local_bench = rg_local_bench rg,
      local_video_executor_enabled =
        (rg_local_video_executor_enabled rg \<and> LOCAL_TRANSCODER \<notin> set (rg_disabled rg))\<rparr>"

definition take_slot :: "string \<Rightarrow> Registry \<Rightarrow> Registry" where
  "take_slot i rg = rg\<lparr>rg_load := (rg_load rg)(i \<mapsto> unwrap_or (rg_load rg i) 0 + 1)\<rparr>"

definition pick_transcoder :: "(rat \<Rightarrow> rat) \<Rightarrow> PlacementNeed \<Rightarrow> Registry \<Rightarrow> string option" where
  "pick_transcoder fl need rg = choose_box fl (fleet_of rg) need"

definition reserve_transcoder ::
    "(rat \<Rightarrow> rat) \<Rightarrow> PlacementNeed \<Rightarrow> Registry \<Rightarrow> string option \<times> Registry" where
  "reserve_transcoder fl need rg =
     (case choose_box fl (fleet_of rg) need of
        None \<Rightarrow> (None, rg)
      | Some winner \<Rightarrow> (Some winner, take_slot winner rg))"

definition place :: "(rat \<Rightarrow> rat) \<Rightarrow> PlacementNeed \<Rightarrow> Registry \<Rightarrow> Placement \<times> Registry" where
  "place fl need rg =
     (let placement = decide fl (fleet_of rg) need in
      (placement, case target placement of None \<Rightarrow> rg | Some i \<Rightarrow> take_slot i rg))"

definition tc_session_ended :: "string \<Rightarrow> Registry \<Rightarrow> Registry" where
  "tc_session_ended i rg =
     (case rg_load rg i of
        None \<Rightarrow> rg
      | Some n \<Rightarrow> rg\<lparr>rg_load := (rg_load rg)(i \<mapsto> n - 1)\<rparr>)"

text \<open>What happens to the load table: placements by any need, and sessions that end.\<close>

inductive registry_step :: "(rat \<Rightarrow> rat) \<Rightarrow> Registry \<Rightarrow> Registry \<Rightarrow> bool"
  for fl :: "rat \<Rightarrow> rat" where
  Reserve: "registry_step fl rg (snd (reserve_transcoder fl need rg))"
| Place: "registry_step fl rg (snd (place fl need rg))"
| Ended: "registry_step fl rg (tc_session_ended i rg)"

text \<open>The filters of the ranking as one predicate, and the candidate of an eligible box.\<close>

definition eligible :: "PlacementNeed \<Rightarrow> BoxSnapshot \<Rightarrow> bool" where
  "eligible need b \<longleftrightarrow>
     \<not> bx_disabled b
   \<and> (n_encode_video need \<longrightarrow> codec_ok (bx_caps b) (n_video_codec need) [''h264'', ''hevc'', ''av1'']
        \<and> can_decode (bx_caps b) (n_video_caps need))
   \<and> (n_encode_audio need \<longrightarrow> codec_ok (bx_caps b) (n_audio_codec need) [''aac'', ''opus'']
        \<and> can_decode (bx_caps b) (n_audio_caps need))
   \<and> (b_max_sessions (bx_caps b) = 0 \<or> bx_load b < unat (b_max_sessions (bx_caps b)))
   \<and> is_none_or (n_required_protocol_feature need) (supports (bx_protocol b))
   \<and> (n_needs_ass_burn need \<longrightarrow> b_ass_burn (bx_caps b))"

definition box_candidate :: "(rat \<Rightarrow> rat) \<Rightarrow> FleetSnapshot \<Rightarrow> PlacementNeed \<Rightarrow> string \<Rightarrow> BoxSnapshot \<Rightarrow> Candidate" where
  "box_candidate fl fleet need i b =
     \<lparr>cn_id = i, cn_sustains = sustains (predict_fleet fl fleet i need),
      cn_tonemap_fit = (\<not> n_needs_tonemap need \<or> b_tonemap (bx_caps b)),
      cn_hardware = list_ex (\<lambda>e. e_hardware e
        \<and> (n_video_codec need = [] \<or> e_codec e = n_video_codec need)) (b_encoders (bx_caps b)),
      cn_predicted = predict_fleet fl fleet i need,
      cn_load = bx_load b\<rparr>"

section \<open>Lemmas\<close>

interpretation candidates: cmp_order candidate_cmp
  unfolding candidate_cmp_def
  by (intro cmp_order_then cmp_order_key cmp_order_key_rev)

lemma candidate_cmp_Equal: "candidate_cmp a b = Equal \<Longrightarrow> cn_id a = cn_id b"
  by (simp add: candidate_cmp_def)

lemma candidate_of_iff:
  assumes "\<not> bx_disabled b"
  shows "candidate_of fl fleet need (i, b)
      = (if eligible need b then Some (box_candidate fl fleet need i b) else None)"
  using assms
  by (cases "n_required_protocol_feature need")
     (auto simp: candidate_of_def eligible_def box_candidate_def Let_def unat_eq_0 unat_gt_0)

lemma eligible_enabled: "eligible need b \<Longrightarrow> \<not> bx_disabled b"
  by (simp add: eligible_def)

lemma rank_set:
  "set (rank_boxes fl fleet need)
     = {box_candidate fl fleet need i b | i b. (i, b) \<in> set (boxes fleet) \<and> eligible need b}"
proof -
  have "set (rank_boxes fl fleet need) = {c. \<exists>(i, b) \<in> set (boxes fleet). \<not> bx_disabled b
      \<and> candidate_of fl fleet need (i, b) = Some c}"
    by (auto simp: rank_boxes_def set_filter_map)
  also have "\<dots> = {box_candidate fl fleet need i b | i b. (i, b) \<in> set (boxes fleet) \<and> eligible need b}"
    using eligible_enabled by (fastforce simp: candidate_of_iff split: if_splits)
  finally show ?thesis .
qed

lemma predict_fleet_cong:
  assumes "mset (boxes fleet') = mset (boxes fleet)" and "distinct (map fst (boxes fleet))"
    and "pace fleet' = pace fleet"
  shows "predict_fleet fl fleet' i need = predict_fleet fl fleet i need"
proof -
  have d: "distinct (map fst (boxes fleet'))"
    using assms(1,2) by (metis mset_eq_imp_distinct_iff mset_map)
  have s: "set (boxes fleet') = set (boxes fleet)" using assms(1) by (metis set_mset_mset)
  have "map_of (boxes fleet') = map_of (boxes fleet)" by (rule map_of_inject_set [THEN iffD2, OF d assms(2) s])
  then show ?thesis unfolding predict_fleet_def pace_of_def [abs_def] assms(3) by (rule ssubst) (rule refl)
qed

lemma rank_ids_distinct:
  assumes "distinct (map fst (boxes fleet))"
  shows "distinct (map cn_id (rank_boxes fl fleet need))"
proof -
  have sub: "distinct (map cn_id (filter_map (candidate_of fl fleet need) (filter (\<lambda>(_, b). \<not> bx_disabled b) xs)))
      \<and> cn_id ` set (filter_map (candidate_of fl fleet need) (filter (\<lambda>(_, b). \<not> bx_disabled b) xs)) \<subseteq> fst ` set xs"
    if "distinct (map fst xs)" for xs
    using that
  proof (induction xs)
    case Nil
    then show ?case by simp
  next
    case (Cons x xs)
    obtain i b where x: "x = (i, b)" by fastforce
    show ?case
    proof (cases "\<not> bx_disabled b \<and> eligible need b")
      case True
      then have "candidate_of fl fleet need (i, b) = Some (box_candidate fl fleet need i b)"
        by (simp add: candidate_of_iff)
      with Cons x True show ?thesis by (auto simp: box_candidate_def)
    next
      case False
      with Cons x show ?thesis by (cases "bx_disabled b") (auto simp: candidate_of_iff)
    qed
  qed
  have "mset (map cn_id (rank_boxes fl fleet need)) = mset (map cn_id
      (filter_map (candidate_of fl fleet need) (filter (\<lambda>(_, b). \<not> bx_disabled b) (boxes fleet))))"
    by (simp add: rank_boxes_def candidates.mset_sort_by)
  then show ?thesis using sub [OF assms] mset_eq_imp_distinct_iff by blast
qed

lemma choose_in_rank:
  assumes "choose_box fl fleet need = Some i"
  obtains b where "(i, b) \<in> set (boxes fleet)" "eligible need b"
    "hd (rank_boxes fl fleet need) = box_candidate fl fleet need i b" "rank_boxes fl fleet need \<noteq> []"
proof -
  from assms obtain c cs where r: "rank_boxes fl fleet need = c # cs" and c: "cn_id c = i"
    by (auto simp: choose_box_def split: list.splits)
  have "c \<in> set (rank_boxes fl fleet need)" by (simp add: r)
  then obtain j b where "(j, b) \<in> set (boxes fleet)" "eligible need b" "c = box_candidate fl fleet need j b"
    unfolding rank_set by blast
  with that [of b] r c show ?thesis by (simp add: box_candidate_def)
qed

lemma choose_None: "choose_box fl fleet need = None \<longleftrightarrow> (\<forall>(i, b) \<in> set (boxes fleet). \<not> eligible need b)"
proof -
  have "choose_box fl fleet need = None \<longleftrightarrow> set (rank_boxes fl fleet need) = {}"
    by (auto simp: choose_box_def split: list.splits)
  then show ?thesis unfolding rank_set by auto
qed

end
