(* ===== verification/Session_Plan.thy ===== *)
theory Session_Plan
  imports Negotiate_Lemmas Placement "HOL-Library.Monad_Syntax"
begin

text \<open>
  How the hub plans a session, \<open>crates/kahawai-hub/src/sessions/negotiation.rs\<close>: it asks the fleet
  which box would run an encode of a source (\<open>probe\<close>), negotiates against what that box can do
  (\<open>plan_with_force\<close>, \<open>plans_with_probe\<close>), ranks the renditions of an item by the result
  (\<open>choose_sources\<close>) and turns the chosen plan into the need that placement reserves a box for.
  Here negotiation, audio layouts and placement meet.

  The record \<open>host\<close> holds what the code asks of its surroundings: GStreamer, the local encoders, the
  connected mediahosts, the registry, and the loudness table of the database. A registry query
  reads one state of the registry; no state changes between the queries of one plan.
  \<open>plan_with_force\<close> calls itself, so it is a partial function: \<open>None\<close> means that it does not return.
\<close>

section \<open>Definitions\<close>

subsection \<open>Loudness\<close>

datatype LoudnessPreference = LoudnessOff | LoudnessEncoded | LoudnessForce

definition loudness_enabled :: "LoudnessPreference \<Rightarrow> bool" where
  "loudness_enabled p = (p \<noteq> LoudnessOff)"

definition loudness_force :: "LoudnessPreference \<Rightarrow> bool" where
  "loudness_force p = (p = LoudnessForce)"

text \<open>\<open>iter_mut().zip\<close> over the fixed slots: measurements past the last slot are not used.\<close>

definition fill_slots :: "AudioLayoutLoudness list \<Rightarrow> AudioLayoutGain option list" where
  "fill_slots layouts =
     map (\<lambda>m. Some \<lparr>g_layout = all_layout m, g_gain_db = gain_db (all_loudness m)\<rparr>)
       (take MAX_LAYOUT_GAINS layouts)
     @ replicate (MAX_LAYOUT_GAINS - length layouts) None"

definition apply_audio_loudness_measurement ::
    "RemuxPlan \<Rightarrow> LoudnessPreference \<Rightarrow> AudioLoudnessMeasurement option \<Rightarrow> RemuxPlan" where
  "apply_audio_loudness_measurement plan preference measured =
     (let cleared = plan\<lparr>pl_stereo_gain_db := None, pl_native_gain_db := None,
            pl_loudness_source_channels := None,
            pl_loudness_gains := replicate MAX_LAYOUT_GAINS None\<rparr>
      in case measured of
           Some m \<Rightarrow>
             if loudness_enabled preference then
               cleared\<lparr>pl_loudness_gains := fill_slots (m_layouts m),
                 pl_loudness_source_channels := Some (al_channels (m_source m)),
                 pl_native_gain_db := map_option gain_db (measurement_get m (m_source m)),
                 pl_stereo_gain_db := map_option gain_db
                   (opt_or (measurement_get m (layout_new 2 3))
                      (opt_filter (\<lambda>_. al_channels (m_source m) \<le> 2)
                         (measurement_get m (m_source m))))\<rparr>
             else cleared
         | None \<Rightarrow> cleared)"

definition same_video_path :: "RemuxPlan \<Rightarrow> RemuxPlan \<Rightarrow> bool" where
  "same_video_path l r =
     (pl_video l = pl_video r \<and> pl_video_track l = pl_video_track r
      \<and> pl_video_kbps l = pl_video_kbps r \<and> pl_max_height l = pl_max_height r
      \<and> pl_tone_map l = pl_tone_map r \<and> pl_deinterlace l = pl_deinterlace r
      \<and> pl_burn_subtitle l = pl_burn_subtitle r \<and> pl_burn_ass l = pl_burn_ass r
      \<and> pl_video_codec l = pl_video_codec r \<and> pl_segment_format l = pl_segment_format r)"

datatype plan_error = NotPlayable | NoSources | SourceOffline | PickUnavailable | DatabaseError string

definition replanned_verdict :: "RemuxPlan \<Rightarrow> string \<Rightarrow> string \<Rightarrow> plan_error + string \<times> string" where
  "replanned_verdict plan v a = (if playable plan then Inr (v, a) else Inl NotPlayable)"

subsection \<open>The need of a plan\<close>

definition loudness_protocol_feature :: "RemuxPlan \<Rightarrow> ProtocolFeature option" where
  "loudness_protocol_feature plan =
     then_some (list_ex (\<lambda>g. g \<noteq> None) (pl_loudness_gains plan)) ExactAudioLoudnessGains"

definition plan_protocol_feature :: "RemuxPlan \<Rightarrow> ProtocolFeature option" where
  "plan_protocol_feature plan =
     (if pl_video plan = Encode \<and> pl_max_bit_depth plan \<noteq> None then Some VideoBitDepth
      else loudness_protocol_feature plan)"

record PartSource =
  pt_file_id :: string
  pt_head_xxh3 :: int
  pt_tail_xxh3 :: int
  pt_module_id :: string
  pt_collection_id :: string
  pt_root_token :: string
  pt_path_rel :: string
  pt_size :: u64
  pt_mtime_unix :: int
  pt_base_ms :: u64
  pt_duration_ms :: u64

text \<open>The mean bitrate: the sum and the product wrap in 64 bits, the cast keeps the low 32.\<close>

definition source_kbps :: "PartSource list \<Rightarrow> MediaInfo \<Rightarrow> u32 option" where
  "source_kbps parts info =
     map_option (\<lambda>d. ucast ((sum_list (map pt_size parts) * 8) div (of_nat d :: u64)))
       (opt_filter (\<lambda>d. d > 0) (duration_ms info))"

definition placement_need :: "RemuxPlan \<Rightarrow> MediaInfo \<Rightarrow> PartSource list \<Rightarrow> bool \<Rightarrow> PlacementNeed \<times> string" where
  "placement_need plan info parts burns_ass =
     (let v = get (video info) 0;
          class = (if pl_video plan = Encode
            then work_class (map_or v 0 v_height) (map_or v [] v_codec)
                   (VideoTarget_as_str (pl_video_codec plan)) (pl_tone_map plan)
            else [])
      in (\<lparr>n_encode_video = (pl_video plan = Encode),
           n_encode_audio = (pl_audio plan = Encode),
           n_video_caps = source_caps_names ''video'' info,
           n_audio_caps = source_caps_names ''audio'' info,
           n_needs_tonemap = pl_tone_map plan,
           n_needs_ass_burn = burns_ass,
           n_required_protocol_feature = plan_protocol_feature plan,
           n_video_codec = (if pl_video plan = Encode then VideoTarget_as_str (pl_video_codec plan) else []),
           n_audio_codec = (if pl_audio plan = Encode then AudioTarget_as_str (pl_audio_codec plan) else []),
           n_work_class = then_some (class \<noteq> []) class,
           n_source_kbps = source_kbps parts info\<rparr>, class))"

subsection \<open>The surroundings and the request\<close>

record host =
  h_gst :: gst
  h_opus_encoder :: "string option"
  h_encoder_capabilities :: "(string \<times> string \<times> bool) list"
  h_tonemap_available :: bool
  h_registry :: Registry
  h_connected :: "string \<Rightarrow> bool"
  h_reads_locally :: "string \<Rightarrow> bool"
  h_audio_loudness :: "string \<Rightarrow> nat \<Rightarrow> u64 \<Rightarrow> int \<Rightarrow> string + AudioLoudnessMeasurement option"
  h_round :: "rat \<Rightarrow> rat"

record ExecutorFacts =
  x_tonemap :: bool
  x_video_targets :: "string list"
  x_full_audio_targets :: "string list"
  x_local_audio_targets :: "string list"
  x_full_protocol :: u32
  x_burn_capable :: bool

text \<open>The fields of a subtitle track row that the planner reads.\<close>

record Track =
  tk_origin :: string
  tk_module_id :: "string option"
  tk_collection_id :: "string option"
  tk_root_token :: "string option"
  tk_source_path :: "string option"
  tk_stream_index :: "nat option"
  tk_format :: string

record Negotiation =
  ng_profile :: CapabilityProfile
  ng_loudness :: LoudnessPreference
  ng_ass :: AssPolicy
  ng_ocr_set :: "(string \<times> string \<times> string \<times> string \<times> nat) list"
  ng_raster_sources :: "string list option"
  ng_burn_row :: "Track option"
  ng_audio_track :: u32
  ng_source_audio_tracks :: "string \<rightharpoonup> u32"
  ng_video_track :: u32
  ng_force_audio_encode :: bool
  ng_force_measurement :: "AudioLoudnessMeasurement option"

text \<open>The standing bandwidth cap of the user tightens what the client asked for; a stored value that
  is not a positive number is no cap.\<close>

definition tighten_bandwidth :: "string option \<Rightarrow> CapabilityProfile \<Rightarrow> CapabilityProfile" where
  "tighten_bandwidth stored profile =
     (let pref_cap = opt_filter (\<lambda>v. v > 0) (Option.bind stored parse_u32) in
      profile\<lparr>p_max_bandwidth_kbps :=
        (case (p_max_bandwidth_kbps profile, pref_cap) of
           (Some a, Some b) \<Rightarrow> Some (min a b)
         | (a, b) \<Rightarrow> opt_or a b)\<rparr>)"

definition audio_track_for :: "Negotiation \<Rightarrow> PartSource list \<Rightarrow> u32" where
  "audio_track_for neg parts =
     unwrap_or (Option.bind (get parts 0) (\<lambda>p. ng_source_audio_tracks neg (pt_file_id p)))
       (ng_audio_track neg)"

definition pick_for :: "Negotiation \<Rightarrow> PartSource list \<Rightarrow> BurnPick option" where
  "pick_for neg parts =
     (case (ng_burn_row neg, get parts 0) of
        (Some t, Some p) \<Rightarrow>
          if (tk_module_id t, tk_collection_id t, tk_root_token t, tk_source_path t)
             \<noteq> (Some (pt_module_id p), Some (pt_collection_id p), Some (pt_root_token p), Some (pt_path_rel p))
          then None
          else Option.bind (tk_stream_index t) (\<lambda>i.
            if tk_origin t = ''embedded'' then Some (Embedded i)
            else if tk_origin t \<in> {''sidecar'', ''downloaded''} then Some (Sidecar i)
            else None)
      | _ \<Rightarrow> None)"

text \<open>\<open>ocr_flags_for\<close> of \<open>subtitles.rs\<close>.\<close>

definition ocr_flags_for ::
    "(string \<times> string \<times> string \<times> string \<times> nat) list \<Rightarrow> string \<Rightarrow> string \<Rightarrow> string \<Rightarrow> string \<Rightarrow> nat \<Rightarrow> bool list" where
  "ocr_flags_for ocr module_id collection_id token path_rel n_subs =
     map (\<lambda>i. (module_id, collection_id, token, path_rel, i) \<in> set ocr) [0..<n_subs]"

subsection \<open>Probing the fleet\<close>

definition local_video_encoder_names :: "host \<Rightarrow> string list" where
  "local_video_encoder_names h =
     (case rg_local_bench (h_registry h) of
        None \<Rightarrow> []
      | Some bench \<Rightarrow>
          map fst (filter (\<lambda>(codec, element, hw). encoder_ready bench element) (h_encoder_capabilities h)))"

definition local_tonemap_available :: "host \<Rightarrow> bool" where
  "local_tonemap_available h =
     (is_some_and (rg_local_bench (h_registry h)) tonemap_ready \<and> h_tonemap_available h)"

definition local_audio_encoder_names :: "host \<Rightarrow> string list" where
  "local_audio_encoder_names h =
     filter_map (\<lambda>(codec, element). map_option (\<lambda>_. codec) element)
       [(''aac'', g_aac_encoder (h_gst h)), (''opus'', h_opus_encoder h)]"

definition video_encoder_names :: "string list \<Rightarrow> string list" where
  "video_encoder_names targets = filter (\<lambda>t. t \<in> {''h264'', ''hevc'', ''av1''}) targets"

definition audio_encoder_names :: "string list \<Rightarrow> string list" where
  "audio_encoder_names targets = filter (\<lambda>t. t \<in> {''aac'', ''opus''}) targets"

definition transcoder_encoders :: "Registry \<Rightarrow> string \<Rightarrow> string list" where
  "transcoder_encoders rg i = map_or (map_of (rg_boxes rg) i) [] (\<lambda>b. map e_codec (b_encoders (bx_caps b)))"

definition transcoder_reports_tonemap :: "Registry \<Rightarrow> string \<Rightarrow> bool" where
  "transcoder_reports_tonemap rg i = is_some_and (map_of (rg_boxes rg) i) (\<lambda>b. b_tonemap (bx_caps b))"

definition transcoder_protocol_features :: "Registry \<Rightarrow> string \<Rightarrow> u32 option" where
  "transcoder_protocol_features rg i = map_option bx_protocol (map_of (rg_boxes rg) i)"

definition PROTOCOL_MINOR :: u32 where "PROTOCOL_MINOR = 6"

definition probe_need :: "MediaInfo \<Rightarrow> ProtocolFeature option \<Rightarrow> PlacementNeed" where
  "probe_need info feature =
     \<lparr>n_encode_video = True, n_encode_audio = False,
      n_video_caps = source_caps_names ''video'' info, n_audio_caps = [],
      n_needs_tonemap = True, n_needs_ass_burn = False, n_required_protocol_feature = feature,
      n_video_codec = [], n_audio_codec = [], n_work_class = None, n_source_kbps = None\<rparr>"

definition registry_local_enabled :: "Registry \<Rightarrow> bool" where
  "registry_local_enabled rg =
     (rg_local_video_executor_enabled rg \<and> LOCAL_TRANSCODER \<notin> set (rg_disabled rg))"

definition probe :: "host \<Rightarrow> MediaInfo \<Rightarrow> bool \<Rightarrow> ProtocolFeature option \<Rightarrow> ExecutorFacts" where
  "probe h info burn_capable feature =
     (let rg = h_registry h;
          local_audio = local_audio_encoder_names h;
          facts = (\<lambda>tonemap vs as protocol.
            \<lparr>x_tonemap = tonemap, x_video_targets = vs, x_full_audio_targets = as,
             x_local_audio_targets = local_audio, x_full_protocol = protocol,
             x_burn_capable = burn_capable\<rparr>)
      in case pick_transcoder (h_round h) (probe_need info feature) rg of
           Some tc \<Rightarrow> facts (transcoder_reports_tonemap rg tc)
             (video_encoder_names (transcoder_encoders rg tc))
             (audio_encoder_names (transcoder_encoders rg tc))
             (unwrap_or (transcoder_protocol_features rg tc) 0)
         | None \<Rightarrow>
             if registry_local_enabled rg
             then facts (local_tonemap_available h) (local_video_encoder_names h) local_audio PROTOCOL_MINOR
             else facts False [] [] 0)"

subsection \<open>Planning one source\<close>

definition neg_input_of ::
    "Negotiation \<Rightarrow> PartSource list \<Rightarrow> MediaInfo \<Rightarrow> ExecutorFacts \<Rightarrow> bool \<Rightarrow> neg_input" where
  "neg_input_of neg parts info facts force =
     \<lparr>ni_profile = ng_profile neg, ni_info = info,
      ni_audio_track = unat (audio_track_for neg parts), ni_video_track = unat (ng_video_track neg),
      ni_single_part = (length parts = 1), ni_est_kbps = source_kbps parts info,
      ni_tonemap = x_tonemap facts, ni_burn_capable = x_burn_capable facts,
      ni_ocr_text = map_or (get parts 0) [] (\<lambda>p.
        ocr_flags_for (ng_ocr_set neg) (pt_module_id p) (pt_collection_id p) (pt_root_token p)
          (pt_path_rel p) (length (subtitles info))),
      ni_burn_pick = pick_for neg parts,
      ni_ass = (case ng_raster_sources neg of
          None \<Rightarrow> ng_ass neg
        | Some sources \<Rightarrow> (ng_ass neg)\<lparr>ap_overlay_ready :=
            is_some_and (get parts 0) (\<lambda>p. pt_file_id p \<in> set sources)\<rparr>),
      ni_video_targets = x_video_targets facts,
      ni_full_audio_targets = x_full_audio_targets facts,
      ni_local_audio_targets = x_local_audio_targets facts,
      ni_force_audio_encode = force\<rparr>"

definition selected_plan ::
    "host \<Rightarrow> Negotiation \<Rightarrow> PartSource list \<Rightarrow> MediaInfo \<Rightarrow> ExecutorFacts \<Rightarrow> bool \<Rightarrow> SourcePlan" where
  "selected_plan h neg parts info facts force =
     negotiate_for_executors (h_gst h) (neg_input_of neg parts info facts force)"

definition needs_newer_executor :: "SourcePlan \<Rightarrow> ExecutorFacts \<Rightarrow> bool" where
  "needs_newer_executor sp facts =
     (pl_video (sp_plan sp) = Encode \<and> pl_max_bit_depth (sp_plan sp) \<noteq> None
      \<and> \<not> supports (x_full_protocol facts) VideoBitDepth)"

partial_function (option) plan_with_force ::
    "host \<Rightarrow> Negotiation \<Rightarrow> PartSource list \<Rightarrow> MediaInfo \<Rightarrow> ExecutorFacts \<Rightarrow> bool \<Rightarrow> SourcePlan option" where
  "plan_with_force h neg parts info facts force =
     (if needs_newer_executor (selected_plan h neg parts info facts force) facts
      then plan_with_force h neg parts info
             (probe h info (x_burn_capable facts) (Some VideoBitDepth)) force
      else Some (selected_plan h neg parts info facts force))"

definition usable_force :: "SourcePlan \<Rightarrow> SourcePlan \<Rightarrow> bool" where
  "usable_force ordinary c =
     (sp_cost c \<noteq> C_Unplayable \<and> pl_audio (sp_plan c) = Encode
      \<and> pl_video (sp_plan c) = pl_video (sp_plan ordinary))"

definition plans_with_probe ::
    "host \<Rightarrow> Negotiation \<Rightarrow> PartSource list \<Rightarrow> MediaInfo \<Rightarrow> bool \<Rightarrow> AudioLoudnessMeasurement option
       \<Rightarrow> (SourcePlan \<times> SourcePlan) option" where
  "plans_with_probe h neg parts info burn_capable measurement =
     (let ordinary_facts = probe h info burn_capable None in
      do {
        ordinary \<leftarrow> plan_with_force h neg parts info ordinary_facts False;
        case measurement of
          None \<Rightarrow> Some (ordinary, ordinary)
        | Some m \<Rightarrow> do {
            forced \<leftarrow> plan_with_force h neg parts info ordinary_facts True;
            if \<not> usable_force ordinary forced then Some (ordinary, ordinary)
            else (let measured_plan = apply_audio_loudness_measurement (sp_plan forced) LoudnessForce (Some m);
                      required = (if pl_video measured_plan = Encode
                                  then loudness_protocol_feature measured_plan else None)
                  in if is_none_or required (supports (x_full_protocol ordinary_facts))
                     then Some (ordinary, forced)
                     else do {
                       exact \<leftarrow> plan_with_force h neg parts info (probe h info burn_capable required) True;
                       Some (ordinary, if usable_force ordinary exact then exact else ordinary)
                     })
          }
      })"

definition reads_sets_for :: "host \<Rightarrow> PartSource list \<Rightarrow> bool" where
  "reads_sets_for h parts = is_some_and (get parts 0) (\<lambda>p.
     h_connected h (pt_module_id p) \<or> h_reads_locally h (pt_module_id p))"

definition plans_auto_with_force ::
    "host \<Rightarrow> Negotiation \<Rightarrow> PartSource list \<Rightarrow> MediaInfo \<Rightarrow> AudioLoudnessMeasurement option
       \<Rightarrow> (SourcePlan \<times> SourcePlan) option" where
  "plans_auto_with_force h neg parts info measurement =
     plans_with_probe h neg parts info (reads_sets_for h parts) measurement"

definition forced_measurement ::
    "host \<Rightarrow> Negotiation \<Rightarrow> PartSource list \<Rightarrow> MediaInfo \<Rightarrow> string + AudioLoudnessMeasurement option" where
  "forced_measurement h neg parts info =
     (if \<not> loudness_force (ng_loudness neg) \<or> length parts \<noteq> 1 \<or> audio info = [] then Inr None
      else (let p = parts ! 0 in
        h_audio_loudness h (pt_file_id p) (min (unat (audio_track_for neg parts)) (length (audio info) - 1))
          (pt_size p) (pt_mtime_unix p)))"

subsection \<open>Choosing among the sources of an item\<close>

record SourceChoiceKey =
  k_incomplete :: bool
  k_ordinary_cost :: Cost
  k_force_missed :: bool

definition source_choice_key :: "SourcePlan \<Rightarrow> bool \<Rightarrow> SourceChoiceKey" where
  "source_choice_key ordinary force_missed =
     \<lparr>k_incomplete = sp_incomplete ordinary, k_ordinary_cost = sp_cost ordinary,
      k_force_missed = force_missed\<rparr>"

text \<open>The derived order: field by field.\<close>

definition choice_cmp :: "SourceChoiceKey \<Rightarrow> SourceChoiceKey \<Rightarrow> ordering" where
  "choice_cmp a b =
     then_cmp (cmp_of (k_incomplete a) (k_incomplete b))
    (then_cmp (cmp_of (k_ordinary_cost a) (k_ordinary_cost b))
              (cmp_of (k_force_missed a) (k_force_missed b)))"

record SourceChoice =
  c_plan :: SourcePlan
  c_index :: nat
  c_measurement :: "AudioLoudnessMeasurement option"
  c_key :: SourceChoiceKey

definition judge ::
    "host \<Rightarrow> Negotiation \<Rightarrow> nat \<Rightarrow> PartSource list \<times> MediaInfo \<Rightarrow> (plan_error + SourceChoice) option" where
  "judge h neg idx source =
     (let (parts, info) = source in
      case forced_measurement h neg parts info of
        Inl e \<Rightarrow> Some (Inl (DatabaseError e))
      | Inr measurement \<Rightarrow> do {
          (ordinary, sp) \<leftarrow> plans_auto_with_force h neg parts info measurement;
          (let normalized = (measurement \<noteq> None \<and> pl_audio (sp_plan sp) = Encode);
               force_missed = (loudness_force (ng_loudness neg) \<and> \<not> normalized)
           in Some (Inr \<lparr>c_plan = sp, c_index = idx, c_measurement = measurement,
                         c_key = source_choice_key ordinary force_missed\<rparr>))
        })"

fun choose_loop ::
    "host \<Rightarrow> Negotiation \<Rightarrow> nat \<Rightarrow> SourceChoice option \<Rightarrow> (PartSource list \<times> MediaInfo) list
       \<Rightarrow> (plan_error + SourceChoice option) option" where
  "choose_loop h neg idx best [] = Some (Inr best)"
| "choose_loop h neg idx best (source # rest) =
     do {
       judged \<leftarrow> judge h neg idx source;
       (case judged of
          Inl e \<Rightarrow> Some (Inl e)
        | Inr c \<Rightarrow>
            choose_loop h neg (Suc idx)
              (if is_none_or best (\<lambda>b. choice_cmp (c_key c) (c_key b) = Less) then Some c else best) rest)
     }"

definition height_of :: "MediaInfo \<Rightarrow> u32" where
  "height_of info = map_or (get (video info) 0) 0 v_height"

definition taller :: "PartSource list \<times> MediaInfo \<Rightarrow> PartSource list \<times> MediaInfo \<Rightarrow> ordering" where
  "taller a b = cmp_of (height_of (snd b)) (height_of (snd a))"

definition online :: "host \<Rightarrow> (PartSource list \<times> MediaInfo) list \<Rightarrow> (PartSource list \<times> MediaInfo) list" where
  "online h sources = filter (\<lambda>(parts, _). list_all (\<lambda>p. h_connected h (pt_module_id p)) parts) sources"

type_synonym chosen = "PartSource list \<times> MediaInfo \<times> SourcePlan \<times> string \<times> Negotiation"

definition note_measurement :: "AudioLoudnessMeasurement option \<Rightarrow> Negotiation \<Rightarrow> Negotiation" where
  "note_measurement m neg = neg\<lparr>ng_force_audio_encode := (m \<noteq> None), ng_force_measurement := m\<rparr>"

text \<open>The renditions that are judged: online, tallest first, and with a burn pick only those that
  carry the picked track.\<close>

definition candidates_of :: "host \<Rightarrow> Negotiation \<Rightarrow> (PartSource list \<times> MediaInfo) list
      \<Rightarrow> (PartSource list \<times> MediaInfo) list" where
  "candidates_of h neg sources =
     (let sorted_sources = sort_by taller (online h sources) in
      if ng_burn_row neg \<noteq> None
      then filter (\<lambda>(parts, _). pick_for neg parts \<noteq> None) sorted_sources
      else sorted_sources)"

text \<open>\<open>Inr None\<close> of the loop is the panic of \<open>best.unwrap()\<close>; the list of candidates is not empty.\<close>

definition choose_sources ::
    "host \<Rightarrow> Negotiation \<Rightarrow> (PartSource list \<times> MediaInfo) list \<Rightarrow> string option
       \<Rightarrow> (plan_error + chosen) option" where
  "choose_sources h neg sources forced_mode =
     (if sources = [] then Some (Inl NoSources)
      else if online h sources = [] then Some (Inl SourceOffline)
      else case forced_mode of
          Some m \<Rightarrow>
            (let (parts, info) = hd (sort_by taller (online h sources)) in
             case (if m = ''direct'' then Inr None else forced_measurement h neg parts info) of
               Inl e \<Rightarrow> Some (Inl (DatabaseError e))
             | Inr measurement \<Rightarrow> do {
                 (ordinary, sp) \<leftarrow> plans_auto_with_force h neg parts info measurement;
                 Some (Inr (parts, info, sp, m, note_measurement measurement neg))
               })
        | None \<Rightarrow>
            (let candidates = candidates_of h neg sources
             in if candidates = [] then Some (Inl PickUnavailable)
                else do {
                  result \<leftarrow> choose_loop h neg 0 None candidates;
                  (case result of
                     Inl e \<Rightarrow> Some (Inl e)
                   | Inr None \<Rightarrow> None
                   | Inr (Some best) \<Rightarrow>
                       (let (parts, info) = candidates ! c_index best in
                        Some (Inr (parts, info, c_plan best,
                          if sp_direct (c_plan best) then ''direct'' else ''remux'',
                          note_measurement (c_measurement best) neg))))
                }))"

end
