(* ===== verification/Placement_Props.thy ===== *)
theory Placement_Props
  imports Placement
begin

text \<open>
  What placement promises: an answer that does not depend on the iteration order of a hash map, the
  best eligible box by the documented preferences, local fallback on measured evidence only, and a
  load table that concurrent placements cannot overfill.
\<close>

section \<open>Definitions\<close>

definition registry_init :: "Registry \<Rightarrow> bool" where
  "registry_init rg \<longleftrightarrow> distinct (map fst (rg_boxes rg)) \<and> rg_load rg = Map.empty"

definition load_of :: "Registry \<Rightarrow> string \<Rightarrow> nat" where
  "load_of rg i = unwrap_or (rg_load rg i) 0"

definition load_ok :: "Registry \<Rightarrow> bool" where
  "load_ok rg \<longleftrightarrow> distinct (map fst (rg_boxes rg))
     \<and> (\<forall>(i, b) \<in> set (rg_boxes rg). b_max_sessions (bx_caps b) = 0
           \<or> load_of rg i \<le> unat (b_max_sessions (bx_caps b)))"

text \<open>Two transcoders, one with a hardware encoder and room for one session, and a need for an H.264
  encode.\<close>

definition sample_box :: "bool \<Rightarrow> u32 \<Rightarrow> BoxSnapshot" where
  "sample_box hw slots =
     \<lparr>bx_caps = \<lparr>b_encoders = [\<lparr>e_codec = ''h264'', e_element = ''enc'', e_hardware = hw,
          e_speed_1080 = Some 4, e_speed_2160 = None\<rparr>],
        b_max_sessions = slots, b_decode_caps = [], b_tonemap = False, b_ass_burn = False,
        b_tonemap_speed_1080 = None, b_tonemap_speed_2160 = None\<rparr>,
      bx_protocol = 6, bx_load = 0, bx_disabled = False, bx_link_rate = None\<rparr>"

definition sample_need :: PlacementNeed where
  "sample_need =
     \<lparr>n_encode_video = True, n_encode_audio = False, n_video_caps = [], n_audio_caps = [],
      n_needs_tonemap = False, n_needs_ass_burn = False, n_required_protocol_feature = None,
      n_video_codec = ''h264'', n_audio_codec = [], n_work_class = None, n_source_kbps = None\<rparr>"

definition sample_registry :: Registry where
  "sample_registry =
     \<lparr>rg_boxes = [(''soft'', sample_box False 0), (''gpu'', sample_box True 1)],
      rg_load = Map.empty, rg_disabled = [], rg_pace = Map.empty, rg_local_bench = None,
      rg_local_video_executor_enabled = False\<rparr>"

section \<open>Lemmas\<close>

lemma fleet_of_boxes: "(i, b') \<in> set (boxes (fleet_of rg)) \<longleftrightarrow>
    (\<exists>b. (i, b) \<in> set (rg_boxes rg) \<and> b' = b\<lparr>bx_load := load_of rg i, bx_disabled := (i \<in> set (rg_disabled rg))\<rparr>)"
  by (auto simp: fleet_of_def load_of_def)

lemma take_slot_sel:
  "rg_boxes (take_slot i rg) = rg_boxes rg"
  "load_of (take_slot i rg) k = (if k = i then load_of rg i + 1 else load_of rg k)"
  by (simp_all add: take_slot_def load_of_def)

lemma ended_sel:
  "rg_boxes (tc_session_ended i rg) = rg_boxes rg"
  "load_of (tc_session_ended i rg) k = (if k = i then load_of rg i - 1 else load_of rg k)"
  by (auto simp: tc_session_ended_def load_of_def split: option.splits)

lemma take_slot_ok:
  assumes "load_ok rg" and "choose_box fl (fleet_of rg) need = Some i"
  shows "load_ok (take_slot i rg)"
proof -
  obtain b' where "(i, b') \<in> set (boxes (fleet_of rg))" "eligible need b'"
    using choose_in_rank [OF assms(2)] by blast
  then obtain b where b: "(i, b) \<in> set (rg_boxes rg)"
    and room: "b_max_sessions (bx_caps b) = 0 \<or> load_of rg i < unat (b_max_sessions (bx_caps b))"
    by (auto simp: fleet_of_boxes eligible_def)
  have "b_max_sessions (bx_caps c) = 0 \<or> load_of (take_slot i rg) k \<le> unat (b_max_sessions (bx_caps c))"
    if c: "(k, c) \<in> set (rg_boxes rg)" for k c
  proof (cases "k = i")
    case True
    then have "c = b" using c b assms(1) by (auto simp: load_ok_def dest: eq_key_imp_eq_value)
    with True room show ?thesis by (auto simp: take_slot_sel)
  next
    case False
    with c assms(1) show ?thesis by (auto simp: load_ok_def take_slot_sel)
  qed
  with assms(1) show ?thesis by (auto simp: load_ok_def take_slot_sel(1))
qed

lemma decide_target:
  "target (decide fl fleet need) = Some i \<Longrightarrow> choose_box fl fleet need = Some i"
  by (auto simp: decide_def Let_def split: if_splits option.splits)

interpretation registry: guarded_system registry_init "registry_step fl" load_ok
proof
  show "registry_init rg \<Longrightarrow> load_ok rg" for rg
    by (auto simp: registry_init_def load_ok_def load_of_def)
  fix rg rg'
  assume ok: "load_ok rg" and step: "registry_step fl rg rg'"
  from step show "load_ok rg'"
  proof cases
    case (Reserve need)
    with ok take_slot_ok [OF ok] show ?thesis
      by (simp add: reserve_transcoder_def split: option.splits)
  next
    case (Place need)
    show ?thesis
    proof (cases "target (decide fl (fleet_of rg) need)")
      case None
      with Place ok show ?thesis by (simp add: place_def Let_def)
    next
      case (Some i)
      with Place take_slot_ok [OF ok decide_target [OF Some]] show ?thesis
        by (simp add: place_def Let_def)
    qed
  next
    case (Ended i)
    have "load_of rg' k \<le> load_of rg k" for k by (simp add: Ended ended_sel)
    then have "load_of rg k \<le> n \<Longrightarrow> load_of rg' k \<le> n" for k n by (rule le_trans)
    moreover have "rg_boxes rg' = rg_boxes rg" by (simp add: Ended ended_sel)
    ultimately show ?thesis using ok unfolding load_ok_def by fastforce
  qed
qed

lemma candidate_cmp_prefers:
  assumes "candidate_cmp a b \<noteq> Greater"
  shows "cn_sustains b \<longrightarrow> cn_sustains a"
    and "cn_sustains a = cn_sustains b \<Longrightarrow> cn_tonemap_fit b \<longrightarrow> cn_tonemap_fit a"
    and "cn_sustains a = cn_sustains b \<Longrightarrow> cn_tonemap_fit a = cn_tonemap_fit b
          \<Longrightarrow> cn_hardware b \<longrightarrow> cn_hardware a"
    and "cn_sustains a = cn_sustains b \<Longrightarrow> cn_tonemap_fit a = cn_tonemap_fit b
          \<Longrightarrow> cn_hardware a = cn_hardware b
          \<Longrightarrow> unwrap_or (cn_predicted b) SUSTAINS \<le> unwrap_or (cn_predicted a) SUSTAINS"
    and "cn_sustains a = cn_sustains b \<Longrightarrow> cn_tonemap_fit a = cn_tonemap_fit b
          \<Longrightarrow> cn_hardware a = cn_hardware b
          \<Longrightarrow> unwrap_or (cn_predicted b) SUSTAINS = unwrap_or (cn_predicted a) SUSTAINS
          \<Longrightarrow> cn_load a \<le> cn_load b"
  using assms by (auto simp: candidate_cmp_def then_cmp_eq_Greater not_less)

section \<open>Properties\<close>

text \<open>Placement is deterministic. The ranking, and with it the placement, of a fleet does not
  depend on the order in which the hash map of boxes iterates: the id breaks every tie.\<close>

theorem rank_order_independent:
  assumes "mset bs = mset (boxes fleet)" and "distinct (map fst (boxes fleet))"
  shows "rank_boxes fl (fleet\<lparr>boxes := bs\<rparr>) need = rank_boxes fl fleet need
       \<and> decide fl (fleet\<lparr>boxes := bs\<rparr>) need = decide fl fleet need"
proof -
  let ?f = "fleet\<lparr>boxes := bs\<rparr>"
  have pred: "predict_fleet fl ?f = predict_fleet fl fleet"
    by (intro ext predict_fleet_cong) (use assms in simp_all)
  have cand: "candidate_of fl ?f need = candidate_of fl fleet need"
    unfolding candidate_of_def pred by (rule refl)
  let ?in = "\<lambda>xs. filter_map (candidate_of fl fleet need) (filter (\<lambda>(_, b). \<not> bx_disabled b) xs)"
  have inputs: "mset (?in bs) = mset (?in (boxes fleet))"
    by (rule filter_map_mset) (simp add: assms(1))
  have "a = b" if "a \<in> set (?in bs)" "b \<in> set (?in bs)" "candidate_cmp a b = Equal" for a b
  proof -
    have "set (?in bs) = set (rank_boxes fl fleet need)"
      using inputs by (simp add: rank_boxes_def candidates.set_sort_by) (metis set_mset_mset)
    with that rank_ids_distinct [OF assms(2)] candidate_cmp_Equal [OF that(3)] show ?thesis
      by (metis distinct_map inj_onD)
  qed
  then have "sort_by candidate_cmp (?in bs) = sort_by candidate_cmp (?in (boxes fleet))"
    by (rule candidates.sort_by_perm [OF inputs])
  then have rank: "rank_boxes fl ?f need = rank_boxes fl fleet need"
    by (simp add: rank_boxes_def cand)
  have local: "predict_local fl ?f need = predict_local fl fleet need"
    by (simp add: predict_local_def pace_of_def [abs_def] split: option.split)
  have "decide fl ?f need = decide fl fleet need"
    unfolding decide_def choose_box_def rank pred local by simp
  with rank show ?thesis by blast
qed

theorem rank_order_independent_witness:
  "rank_boxes id ((fleet_of sample_registry)\<lparr>boxes := rev (boxes (fleet_of sample_registry))\<rparr>) sample_need
     = rank_boxes id (fleet_of sample_registry) sample_need"
proof -
  have "distinct (map fst (boxes (fleet_of sample_registry)))"
    by (simp add: sample_registry_def fleet_of_def)
  from rank_order_independent [OF _ this] show ?thesis by simp
qed

text \<open>The chosen box is eligible and best. It is a linked, enabled box with the encoders, the
  decoders, the free slot, the protocol feature and the script renderer the work needs; and no
  other eligible box is preferred to it: not one that sustains the work when it does not, nor,
  among equals, one that tone-maps, then one with a hardware encoder, then a faster one, then a
  less loaded one. It answers nothing only when no box is eligible.\<close>

theorem choose_best:
  assumes "choose_box fl fleet need = Some i"
  shows "\<exists>b. (i, b) \<in> set (boxes fleet) \<and> eligible need b
       \<and> (\<forall>k c. (k, c) \<in> set (boxes fleet) \<and> eligible need c \<longrightarrow>
            (let x = box_candidate fl fleet need i b; y = box_candidate fl fleet need k c in
             (cn_sustains y \<longrightarrow> cn_sustains x)
             \<and> (cn_sustains x = cn_sustains y \<longrightarrow> (cn_tonemap_fit y \<longrightarrow> cn_tonemap_fit x)
             \<and> (cn_tonemap_fit x = cn_tonemap_fit y \<longrightarrow> (cn_hardware y \<longrightarrow> cn_hardware x)
             \<and> (cn_hardware x = cn_hardware y \<longrightarrow>
                  unwrap_or (cn_predicted y) SUSTAINS \<le> unwrap_or (cn_predicted x) SUSTAINS
             \<and> (unwrap_or (cn_predicted y) SUSTAINS = unwrap_or (cn_predicted x) SUSTAINS \<longrightarrow>
                  cn_load x \<le> cn_load y))))))"
proof -
  obtain b where b: "(i, b) \<in> set (boxes fleet)" "eligible need b"
    and hd: "hd (rank_boxes fl fleet need) = box_candidate fl fleet need i b"
    and ne: "rank_boxes fl fleet need \<noteq> []"
    by (rule choose_in_rank [OF assms])
  obtain cs where r: "rank_boxes fl fleet need = box_candidate fl fleet need i b # cs"
    using hd ne by (cases "rank_boxes fl fleet need") auto
  have "candidate_cmp (box_candidate fl fleet need i b) (box_candidate fl fleet need k c) \<noteq> Greater"
    if "(k, c) \<in> set (boxes fleet)" "eligible need c" for k c
  proof (rule candidates.sort_by_head)
    show "sort_by candidate_cmp (filter_map (candidate_of fl fleet need)
        (filter (\<lambda>(_, b). \<not> bx_disabled b) (boxes fleet))) = box_candidate fl fleet need i b # cs"
      using r by (simp add: rank_boxes_def)
    have "box_candidate fl fleet need k c \<in> set (rank_boxes fl fleet need)"
      unfolding rank_set using that by blast
    then show "box_candidate fl fleet need k c \<in> set (filter_map (candidate_of fl fleet need)
        (filter (\<lambda>(_, b). \<not> bx_disabled b) (boxes fleet)))"
      by (simp add: rank_boxes_def candidates.set_sort_by)
  qed
  note prefers = candidate_cmp_prefers [OF this]
  have "\<forall>k c. (k, c) \<in> set (boxes fleet) \<and> eligible need c \<longrightarrow>
            (let x = box_candidate fl fleet need i b; y = box_candidate fl fleet need k c in
             (cn_sustains y \<longrightarrow> cn_sustains x)
             \<and> (cn_sustains x = cn_sustains y \<longrightarrow> (cn_tonemap_fit y \<longrightarrow> cn_tonemap_fit x)
             \<and> (cn_tonemap_fit x = cn_tonemap_fit y \<longrightarrow> (cn_hardware y \<longrightarrow> cn_hardware x)
             \<and> (cn_hardware x = cn_hardware y \<longrightarrow>
                  unwrap_or (cn_predicted y) SUSTAINS \<le> unwrap_or (cn_predicted x) SUSTAINS
             \<and> (unwrap_or (cn_predicted y) SUSTAINS = unwrap_or (cn_predicted x) SUSTAINS \<longrightarrow>
                  cn_load x \<le> cn_load y)))))"
    unfolding Let_def using prefers by blast
  with b show ?thesis by blast
qed

theorem choose_best_witness:
  "\<exists>b. (''gpu'', b) \<in> set (boxes (fleet_of sample_registry)) \<and> eligible sample_need b"
proof -
  have "choose_box id (fleet_of sample_registry) sample_need = Some ''gpu''"
    by (simp add: choose_box_def rank_boxes_def sample_registry_def fleet_of_def candidate_of_def
        sample_box_def sample_need_def codec_ok_def has_encoder_def can_decode_def predict_fleet_def
        candidate_cmp_def cmp_of_def fleet_terms_def is_2160_def fastest_def slowest_def pos_speed_def
        option_list_def sustains_def SUSTAINS_def Let_def)
  from choose_best [OF this] show ?thesis by blast
qed

text \<open>Where work goes. Work without a video encode never takes a fleet slot; a video encode is
  refused only when no box is eligible and the local executor is off; it is pulled off an eligible
  box onto the hub only when the local executor is on, was measured, sustains the work, and the best
  box was measured not to.\<close>

theorem decide_sound:
  "(\<not> n_encode_video need \<longrightarrow> target (decide fl fleet need) = None \<and> pl_available (decide fl fleet need))
   \<and> (n_encode_video need \<longrightarrow>
        (\<not> pl_available (decide fl fleet need) \<longleftrightarrow>
           \<not> local_video_executor_enabled fleet \<and> (\<forall>(i, b) \<in> set (boxes fleet). \<not> eligible need b)))
   \<and> (\<forall>i. n_encode_video need \<and> choose_box fl fleet need = Some i \<and> target (decide fl fleet need) = None \<longrightarrow>
        local_video_executor_enabled fleet
        \<and> (\<exists>p q. predict_local fl fleet need = Some p \<and> SUSTAINS \<le> p
             \<and> predict_fleet fl fleet i need = Some q \<and> q < SUSTAINS))
   \<and> (\<forall>i. target (decide fl fleet need) = Some i \<longrightarrow>
        (\<exists>b. (i, b) \<in> set (boxes fleet) \<and> eligible need b))"
proof -
  have tgt: "\<exists>b. (i, b) \<in> set (boxes fleet) \<and> eligible need b" if "target (decide fl fleet need) = Some i" for i
    using choose_in_rank [OF decide_target [OF that]] by blast
  have avail: "\<not> pl_available (decide fl fleet need) \<longleftrightarrow>
      \<not> local_video_executor_enabled fleet \<and> (\<forall>(i, b) \<in> set (boxes fleet). \<not> eligible need b)"
    if "n_encode_video need"
    unfolding choose_None [of fl, symmetric] using that by (auto simp: decide_def Let_def split: option.splits)
  have pulled: "local_video_executor_enabled fleet
        \<and> (\<exists>p q. predict_local fl fleet need = Some p \<and> SUSTAINS \<le> p
             \<and> predict_fleet fl fleet i need = Some q \<and> q < SUSTAINS)"
    if "n_encode_video need \<and> choose_box fl fleet need = Some i \<and> target (decide fl fleet need) = None" for i
    using that
    by (cases "predict_local fl fleet need"; cases "predict_fleet fl fleet i need")
       (auto simp: decide_def Let_def sustains_def split: if_splits)
  have plain: "\<not> n_encode_video need \<Longrightarrow> target (decide fl fleet need) = None \<and> pl_available (decide fl fleet need)"
    by (simp add: decide_def)
  show ?thesis using tgt avail pulled plain by (intro conjI allI impI) blast+
qed

theorem decide_sound_witness:
  "n_encode_video sample_need \<and> pl_available (decide id (fleet_of sample_registry) sample_need)"
proof -
  have "(''soft'', (sample_box False 0)) \<in> set (boxes (fleet_of sample_registry))"
    by (simp add: fleet_of_def sample_registry_def sample_box_def)
  moreover have "eligible sample_need (sample_box False 0)"
    by (simp add: eligible_def sample_need_def sample_box_def codec_ok_def has_encoder_def can_decode_def)
  moreover have "n_encode_video sample_need" by (simp add: sample_need_def)
  ultimately show ?thesis using decide_sound [of sample_need id "fleet_of sample_registry"] by blast
qed

text \<open>C8. A full box stays full. Starting from an empty load table, no sequence of reservations,
  placements and ended sessions ever counts more sessions on a box than it said it can run: the
  slot is taken in the critical section that read the load.\<close>

theorem load_never_exceeds:
  assumes "reachable registry_init (registry_step fl) rg" and "(i, b) \<in> set (rg_boxes rg)"
    and "b_max_sessions (bx_caps b) \<noteq> 0"
  shows "load_of rg i \<le> unat (b_max_sessions (bx_caps b))"
  using registry.reachable_inv [OF assms(1)] assms(2,3) by (auto simp: load_ok_def)

theorem load_never_exceeds_witness:
  "load_of (snd (reserve_transcoder id sample_need (snd (reserve_transcoder id sample_need sample_registry)))) ''gpu'' \<le> 1"
proof -
  let ?r1 = "snd (reserve_transcoder id sample_need sample_registry)"
  let ?r2 = "snd (reserve_transcoder id sample_need ?r1)"
  have "registry_init sample_registry" by (simp add: registry_init_def sample_registry_def)
  then have "reachable registry_init (registry_step id) sample_registry" by (rule reach_init)
  then have "reachable registry_init (registry_step id) ?r1"
    by (rule reach_step) (rule registry_step.Reserve)
  then have reach: "reachable registry_init (registry_step id) ?r2"
    by (rule reach_step) (rule registry_step.Reserve)
  have "rg_boxes ?r2 = rg_boxes sample_registry"
    by (simp add: reserve_transcoder_def take_slot_sel split: option.splits)
  then have box: "(''gpu'', sample_box True 1) \<in> set (rg_boxes ?r2)" by (simp add: sample_registry_def)
  have "b_max_sessions (bx_caps (sample_box True 1)) = 1" by (simp add: sample_box_def)
  with load_never_exceeds [OF reach box] show ?thesis by simp
qed

end
