(* ===== verification/Session_Plan_Props.thy ===== *)
theory Session_Plan_Props
  imports Session_Plan Placement_Props
begin

text \<open>
  What session planning promises: when the planner returns and when it does not, that a planned
  encode has an executor but in one case, that the cheapest sufficient rendition is chosen, and that the box
  placement reserves can run the plan it was reserved for.
\<close>

section \<open>Lemmas\<close>

subsection \<open>The recursion of \<open>plan_with_force\<close>\<close>

lemma probe_sel:
  "x_burn_capable (probe h info b f) = b"
  "x_local_audio_targets (probe h info b f) = local_audio_encoder_names h"
  by (simp_all add: probe_def Let_def split: option.splits)

lemma probe_Some:
  assumes "pick_transcoder (h_round h) (probe_need info f) (h_registry h) = Some tc"
  shows "x_video_targets (probe h info b f) = video_encoder_names (transcoder_encoders (h_registry h) tc)"
    and "x_full_protocol (probe h info b f) = unwrap_or (transcoder_protocol_features (h_registry h) tc) 0"
  using assms by (simp_all add: probe_def Let_def)

lemma probe_None:
  assumes "pick_transcoder (h_round h) (probe_need info f) (h_registry h) = None"
  shows "x_video_targets (probe h info b f)
           = (if registry_local_enabled (h_registry h) then local_video_encoder_names h else [])"
    and "x_full_protocol (probe h info b f)
           = (if registry_local_enabled (h_registry h) then PROTOCOL_MINOR else 0)"
  using assms by (simp_all add: probe_def Let_def)

lemma PROTOCOL_MINOR_supports: "supports PROTOCOL_MINOR f"
  by (cases f) (simp_all add: supports_def PROTOCOL_MINOR_def)

text \<open>The box a query of the fleet answers with, as the registry holds it.\<close>

lemma picked_box:
  assumes "choose_box fl (fleet_of rg) need = Some i" and "distinct (map fst (rg_boxes rg))"
  obtains b where "map_of (rg_boxes rg) i = Some b" "(i, b) \<in> set (rg_boxes rg)"
    "eligible need (b\<lparr>bx_load := load_of rg i, bx_disabled := False\<rparr>)"
proof -
  obtain b' where b': "(i, b') \<in> set (boxes (fleet_of rg))" "eligible need b'"
    by (rule choose_in_rank [OF assms(1)])
  then obtain b where b: "(i, b) \<in> set (rg_boxes rg)"
    and e: "b' = b\<lparr>bx_load := load_of rg i, bx_disabled := (i \<in> set (rg_disabled rg))\<rparr>"
    by (auto simp: fleet_of_boxes)
  have "i \<notin> set (rg_disabled rg)" using eligible_enabled [OF b'(2)] e by simp
  with b b' e that [of b] assms(2) show ?thesis by simp
qed

lemma probe_supports:
  assumes "distinct (map fst (rg_boxes (h_registry h)))"
    and "pick_transcoder (h_round h) (probe_need info (Some f)) (h_registry h) \<noteq> None
      \<or> registry_local_enabled (h_registry h)"
  shows "supports (x_full_protocol (probe h info b (Some f))) f"
proof (cases "pick_transcoder (h_round h) (probe_need info (Some f)) (h_registry h)")
  case None
  with assms(2) show ?thesis by (simp add: probe_None PROTOCOL_MINOR_supports)
next
  case (Some tc)
  then have "choose_box (h_round h) (fleet_of (h_registry h)) (probe_need info (Some f)) = Some tc"
    by (simp add: pick_transcoder_def)
  then obtain bx where "map_of (rg_boxes (h_registry h)) tc = Some bx"
    "eligible (probe_need info (Some f)) (bx\<lparr>bx_load := load_of (h_registry h) tc, bx_disabled := False\<rparr>)"
    using picked_box [OF _ assms(1)] by metis
  then show ?thesis
    by (simp add: probe_Some [OF Some] transcoder_protocol_features_def eligible_def probe_need_def)
qed

lemma encode_has_target:
  assumes "pl_video (sp_plan (negotiate_for_executors g ni)) = Encode"
    and "ceiling_secs (p_target_duration (ni_profile ni)) = None"
  shows "VideoTarget_as_str (pl_video_codec (sp_plan (negotiate_for_executors g ni))) \<in> set (ni_video_targets ni)"
proof -
  obtain b where n: "negotiate_for_executors g ni
      = negotiate_for_executors_impl g (ni\<lparr>ni_force_audio_encode := b\<rparr>)"
    by (rule negotiate_for_executors_cases)
  let ?ni = "ni\<lparr>ni_force_audio_encode := b\<rparr>"
  have "\<not> short_override g ?ni" by (rule short_override_None) (simp add: assms(2))
  with assms(1) n have "cand_video g ?ni (n_segment_format g ?ni) = Encode"
    by (simp add: impl_sel n_plan_sel n_video_eq)
  from cand_video_Encode [OF this] n show ?thesis
    by (simp add: impl_sel n_plan_sel takes_video_def)
qed

lemma no_target_not_newer:
  assumes "x_video_targets facts = []" and "ceiling_secs (p_target_duration (ng_profile neg)) = None"
  shows "\<not> needs_newer_executor (selected_plan h neg parts info facts force) facts"
proof -
  have "pl_video (sp_plan (selected_plan h neg parts info facts force)) \<noteq> Encode"
    using encode_has_target [of "h_gst h" "neg_input_of neg parts info facts force"] assms
    by (auto simp: selected_plan_def neg_input_of_def)
  then show ?thesis by (simp add: needs_newer_executor_def)
qed

text \<open>A second probe answers what the first re-probe answered, so the recursion either stops after
  one round or never.\<close>

lemma plan_with_force_stuck:
  assumes "e = probe h info (x_burn_capable e) (Some VideoBitDepth)"
    and "needs_newer_executor (selected_plan h neg parts info e force) e"
  shows "plan_with_force h neg parts info e force = None"
proof (rule ccontr)
  assume "plan_with_force h neg parts info e force \<noteq> None"
  then obtain y where y: "plan_with_force h neg parts info e force = Some y" by blast
  let ?P = "\<lambda>h' neg' parts' info' e' force' (_ :: SourcePlan).
      \<not> (h' = h \<and> neg' = neg \<and> parts' = parts \<and> info' = info \<and> e' = e \<and> force' = force)"
  have "?P h neg parts info e force y"
  proof (rule plan_with_force.raw_induct [where P = ?P, OF _ y])
    fix rec h' neg' parts' info' e' force' z
    assume ih: "\<And>h' neg' parts' info' e' force' z.
        rec h' neg' parts' info' e' force' = Some z \<Longrightarrow> ?P h' neg' parts' info' e' force' z"
      and body: "(if needs_newer_executor (selected_plan h' neg' parts' info' e' force') e'
          then rec h' neg' parts' info' (probe h' info' (x_burn_capable e') (Some VideoBitDepth)) force'
          else Some (selected_plan h' neg' parts' info' e' force')) = Some z"
    show "?P h' neg' parts' info' e' force' z"
    proof
      assume "h' = h \<and> neg' = neg \<and> parts' = parts \<and> info' = info \<and> e' = e \<and> force' = force"
      with body assms have "rec h neg parts info e force = Some z" by simp
      from ih [OF this] show False by simp
    qed
  qed
  then show False by simp
qed

lemma plan_with_force_eq:
  fixes info h facts
  defines "e \<equiv> probe h info (x_burn_capable facts) (Some VideoBitDepth)"
  shows "plan_with_force h neg parts info facts force =
    (if \<not> needs_newer_executor (selected_plan h neg parts info facts force) facts
     then Some (selected_plan h neg parts info facts force)
     else if \<not> needs_newer_executor (selected_plan h neg parts info e force) e
     then Some (selected_plan h neg parts info e force)
     else None)"
proof -
  have "plan_with_force h neg parts info facts force =
    (if needs_newer_executor (selected_plan h neg parts info facts force) facts
     then plan_with_force h neg parts info e force
     else Some (selected_plan h neg parts info facts force))"
    unfolding e_def by (rule plan_with_force.simps)
  moreover have "plan_with_force h neg parts info e force =
    (if needs_newer_executor (selected_plan h neg parts info e force) e then None
     else Some (selected_plan h neg parts info e force))"
  proof (cases "needs_newer_executor (selected_plan h neg parts info e force) e")
    case True
    have "e = probe h info (x_burn_capable e) (Some VideoBitDepth)" by (simp add: e_def probe_sel)
    from plan_with_force_stuck [OF this True] True show ?thesis by simp
  next
    case False
    then show ?thesis by (subst plan_with_force.simps) simp
  qed
  ultimately show ?thesis by simp
qed

subsection \<open>Who a probe speaks for\<close>

lemma probed_target:
  assumes "distinct (map fst (rg_boxes (h_registry h)))"
    and t: "wanted \<in> set (x_video_targets (probe h info bc feature))"
  shows "(\<exists>i b. (i, b) \<in> set (rg_boxes (h_registry h)) \<and> has_encoder (bx_caps b) wanted
            \<and> can_decode (bx_caps b) (source_caps_names ''video'' info)
            \<and> is_none_or feature (supports (bx_protocol b)))
       \<or> (registry_local_enabled (h_registry h)
          \<and> (\<exists>bench element hw. rg_local_bench (h_registry h) = Some bench \<and> encoder_ready bench element
               \<and> (wanted, element, hw) \<in> set (h_encoder_capabilities h)))"
proof -
  show ?thesis
  proof (cases "pick_transcoder (h_round h) (probe_need info feature) (h_registry h)")
    case None
    with t have "registry_local_enabled (h_registry h)"
      and "wanted \<in> set (local_video_encoder_names h)"
      by (auto simp: probe_None split: if_splits)
    moreover from this(2) obtain bench where bench: "rg_local_bench (h_registry h) = Some bench"
      by (cases "rg_local_bench (h_registry h)") (simp_all add: local_video_encoder_names_def)
    ultimately show ?thesis by (auto simp: local_video_encoder_names_def)
  next
    case (Some tc)
    then have "choose_box (h_round h) (fleet_of (h_registry h)) (probe_need info feature) = Some tc"
      by (simp add: pick_transcoder_def)
    then obtain b where b: "map_of (rg_boxes (h_registry h)) tc = Some b" "(tc, b) \<in> set (rg_boxes (h_registry h))"
      and el: "eligible (probe_need info feature) (b\<lparr>bx_load := load_of (h_registry h) tc, bx_disabled := False\<rparr>)"
      using picked_box [OF _ assms(1)] by metis
    have "has_encoder (bx_caps b) (wanted)"
      using t b(1) by (auto simp: probe_Some [OF Some] video_encoder_names_def transcoder_encoders_def
          has_encoder_def list_ex_iff)
    with b el show ?thesis by (auto simp: eligible_def probe_need_def)
  qed
qed

subsection \<open>Forcing keeps the video path\<close>

lemma plans_with_probe_video:
  assumes "plans_with_probe h neg parts info bc m = Some (ordinary, sp)"
  shows "pl_video (sp_plan sp) = pl_video (sp_plan ordinary)"
  using assms
  by (auto simp: plans_with_probe_def Let_def usable_force_def bind_eq_Some_conv
      split: option.splits if_splits)

subsection \<open>The choice loop\<close>

interpretation choice: cmp_order choice_cmp
  unfolding choice_cmp_def
  by (intro cmp_order_then cmp_order_key)

interpretation heights: cmp_order taller
  unfolding taller_def by (rule cmp_order_key_rev)

text \<open>What a source is judged by: the plan it would get, the cost of its ordinary plan, and whether a forced
  loudness was wanted and not honoured. All of it is a function of the source.\<close>

definition judged :: "host \<Rightarrow> Negotiation \<Rightarrow> PartSource list \<times> MediaInfo \<Rightarrow> SourceChoice \<Rightarrow> bool" where
  "judged h neg source c \<longleftrightarrow>
     (\<exists>ordinary. forced_measurement h neg (fst source) (snd source) = Inr (c_measurement c)
        \<and> plans_auto_with_force h neg (fst source) (snd source) (c_measurement c) = Some (ordinary, c_plan c)
        \<and> k_incomplete (c_key c) = sp_incomplete ordinary
        \<and> k_ordinary_cost (c_key c) = sp_cost ordinary
        \<and> k_force_missed (c_key c) = (ng_loudness neg = LoudnessForce
             \<and> (c_measurement c = None \<or> pl_audio (sp_plan (c_plan c)) \<noteq> Encode))
        \<and> pl_video (sp_plan (c_plan c)) = pl_video (sp_plan ordinary))"

text \<open>Complete before incomplete, then the lower ordinary cost, then an honoured loudness.\<close>

definition preferred :: "SourceChoiceKey \<Rightarrow> SourceChoiceKey \<Rightarrow> bool" where
  "preferred a b \<longleftrightarrow>
     \<not> k_incomplete a \<and> k_incomplete b
   \<or> k_incomplete a = k_incomplete b
     \<and> (k_ordinary_cost a < k_ordinary_cost b
        \<or> k_ordinary_cost a = k_ordinary_cost b \<and> \<not> k_force_missed a \<and> k_force_missed b)"

lemma choice_cmp_iff:
  "choice_cmp a b = Less \<longleftrightarrow> preferred a b" "choice_cmp a b = Equal \<longleftrightarrow> a = b"
  by (cases a, cases b, auto simp: choice_cmp_def preferred_def cmp_of_def)+

lemma judge_judged:
  assumes "judge h neg i source = Some (Inr c)"
  shows "judged h neg source c" and "c_index c = i"
proof -
  obtain parts info where s: "source = (parts, info)" by fastforce
  from assms obtain m where fm: "forced_measurement h neg parts info = Inr m"
    by (auto simp: judge_def s split: sum.splits)
  from assms fm obtain ordinary sp where
    m: "plans_auto_with_force h neg parts info m = Some (ordinary, sp)"
    and c: "c = \<lparr>c_plan = sp, c_index = i, c_measurement = m, c_key = source_choice_key ordinary
      (loudness_force (ng_loudness neg) \<and> \<not> (m \<noteq> None \<and> pl_audio (sp_plan sp) = Encode))\<rparr>"
    by (auto simp: judge_def s Let_def bind_eq_Some_conv)
  show "c_index c = i" by (simp add: c)
  have "pl_video (sp_plan sp) = pl_video (sp_plan ordinary)"
    using m unfolding plans_auto_with_force_def by (rule plans_with_probe_video)
  with m fm show "judged h neg source c"
    by (auto simp: judged_def c s source_choice_key_def loudness_force_def)
qed

lemma choose_loop_Cons:
  assumes "choose_loop h neg idx best (source # rest) = Some (Inr r)"
  obtains c where "judge h neg idx source = Some (Inr c)"
    "choose_loop h neg (Suc idx)
       (if is_none_or best (\<lambda>b. choice_cmp (c_key c) (c_key b) = Less) then Some c else best) rest = Some (Inr r)"
proof -
  from assms obtain y where y: "judge h neg idx source = Some y"
    and run: "(case y of Inl e \<Rightarrow> Some (Inl e) | Inr c \<Rightarrow> choose_loop h neg (Suc idx)
        (if is_none_or best (\<lambda>b. choice_cmp (c_key c) (c_key b) = Less) then Some c else best) rest)
      = Some (Inr r)"
    unfolding choose_loop.simps bind_eq_Some_conv by blast
  from run show thesis
  proof (cases y)
    case (Inr c)
    with run y that [of c] show thesis by simp
  qed simp
qed

lemma choose_loop_best:
  "choose_loop h neg idx (Some b0) rest = Some (Inr r) \<Longrightarrow>
     \<exists>b. r = Some b
       \<and> (b = b0 \<or> (\<exists>k < length rest. judge h neg (idx + k) (rest ! k) = Some (Inr b)))
       \<and> choice_cmp (c_key b) (c_key b0) \<noteq> Greater
       \<and> (choice_cmp (c_key b) (c_key b0) = Equal \<longrightarrow> b = b0)
       \<and> (\<forall>k < length rest. \<exists>c. judge h neg (idx + k) (rest ! k) = Some (Inr c)
            \<and> choice_cmp (c_key b) (c_key c) \<noteq> Greater
            \<and> (choice_cmp (c_key b) (c_key c) = Equal \<longrightarrow> b = b0 \<or> c_index b \<le> idx + k))"
proof (induction rest arbitrary: idx b0)
  case Nil
  then show ?case by (simp add: choice.cmp_refl)
next
  case (Cons source rest)
  from Cons.prems obtain c where c: "judge h neg idx source = Some (Inr c)"
    and rest: "choose_loop h neg (Suc idx)
        (Some (if choice_cmp (c_key c) (c_key b0) = Less then c else b0)) rest = Some (Inr r)"
    by (rule choose_loop_Cons) (simp add: if_distrib)
  let ?n = "if choice_cmp (c_key c) (c_key b0) = Less then c else b0"
  note ix = judge_judged(2) [OF c]
  from Cons.IH [OF rest] obtain b where r: "r = Some b"
    and mem: "b = ?n \<or> (\<exists>k < length rest. judge h neg (Suc idx + k) (rest ! k) = Some (Inr b))"
    and le: "choice_cmp (c_key b) (c_key ?n) \<noteq> Greater"
    and eq: "choice_cmp (c_key b) (c_key ?n) = Equal \<longrightarrow> b = ?n"
    and all: "\<forall>k < length rest. \<exists>c. judge h neg (Suc idx + k) (rest ! k) = Some (Inr c)
            \<and> choice_cmp (c_key b) (c_key c) \<noteq> Greater
            \<and> (choice_cmp (c_key b) (c_key c) = Equal \<longrightarrow> b = ?n \<or> c_index b \<le> Suc idx + k)"
    by blast
  have "\<exists>k < length (source # rest). judge h neg (idx + k) ((source # rest) ! k) = Some (Inr b)" if "b \<noteq> b0"
  proof (cases "b = c")
    case True
    with c show ?thesis by (intro exI [of _ 0]) simp
  next
    case False
    with that mem obtain k where "k < length rest" "judge h neg (Suc idx + k) (rest ! k) = Some (Inr b)"
      by (auto split: if_splits)
    then show ?thesis by (intro exI [of _ "Suc k"]) simp
  qed
  moreover have b0: "choice_cmp (c_key b) (c_key b0) \<noteq> Greater
      \<and> (choice_cmp (c_key b) (c_key b0) = Equal \<longrightarrow> b = b0)"
  proof (cases "choice_cmp (c_key c) (c_key b0) = Less")
    case True
    then have "choice_cmp (c_key b) (c_key c) \<noteq> Greater" using le by simp
    then have "choice_cmp (c_key b) (c_key b0) = Less" using True by (rule choice.cmp_le_less)
    then show ?thesis by simp
  next
    case False
    with le eq show ?thesis by simp
  qed
  moreover have bc: "choice_cmp (c_key b) (c_key c) \<noteq> Greater
      \<and> (choice_cmp (c_key b) (c_key c) = Equal \<longrightarrow> b = b0 \<or> c_index b \<le> idx)"
  proof (cases "choice_cmp (c_key c) (c_key b0) = Less")
    case True
    with le eq ix show ?thesis by auto
  next
    case False
    then have nl: "choice_cmp (c_key b0) (c_key c) \<noteq> Greater" by (simp add: choice.cmp_Greater_iff)
    with b0 have "choice_cmp (c_key b) (c_key c) \<noteq> Greater" using choice.cmp_trans by blast
    moreover have "b = b0" if "choice_cmp (c_key b) (c_key c) = Equal"
    proof -
      have "choice_cmp (c_key c) (c_key b) = Equal" using that by (simp add: choice.cmp_sym [of "c_key c"])
      then have "choice_cmp (c_key b0) (c_key b) \<noteq> Greater" using nl choice.cmp_trans by (metis ordering.distinct(5))
      with b0 have "choice_cmp (c_key b) (c_key b0) = Equal" using choice.cmp_antisym by blast
      with b0 show ?thesis by blast
    qed
    ultimately show ?thesis by blast
  qed
  moreover have "\<exists>d. judge h neg (idx + k) ((source # rest) ! k) = Some (Inr d)
            \<and> choice_cmp (c_key b) (c_key d) \<noteq> Greater
            \<and> (choice_cmp (c_key b) (c_key d) = Equal \<longrightarrow> b = b0 \<or> c_index b \<le> idx + k)"
    if k: "k < length (source # rest)" for k
  proof (cases k)
    case 0
    with c bc show ?thesis by auto
  next
    case (Suc j)
    with k all obtain d where "judge h neg (Suc idx + j) (rest ! j) = Some (Inr d)"
      "choice_cmp (c_key b) (c_key d) \<noteq> Greater"
      "choice_cmp (c_key b) (c_key d) = Equal \<longrightarrow> b = ?n \<or> c_index b \<le> Suc idx + j" by auto
    with Suc ix show ?thesis by (auto split: if_splits)
  qed
  ultimately show ?case using r by blast
qed

lemma sorted_heights:
  assumes "i \<le> j" and "j < length (candidates_of h neg sources)"
  shows "height_of (snd (candidates_of h neg sources ! j)) \<le> height_of (snd (candidates_of h neg sources ! i))"
proof -
  have "sorted_wrt (\<lambda>a b. taller a b \<noteq> Greater) (candidates_of h neg sources)"
    by (simp add: candidates_of_def Let_def heights.sorted_sort_by sorted_wrt_filter)
  then have "i < j \<Longrightarrow> taller (candidates_of h neg sources ! i) (candidates_of h neg sources ! j) \<noteq> Greater"
    using sorted_wrt_nth_less assms(2) by blast
  with assms(1) show ?thesis by (cases "i = j") (auto simp: taller_def not_less)
qed

text \<open>What may be chosen: every part is at hand, and with a burn pick the picked track is there.\<close>

definition selectable :: "host \<Rightarrow> Negotiation \<Rightarrow> PartSource list \<times> MediaInfo \<Rightarrow> bool" where
  "selectable h neg source \<longleftrightarrow> list_all (\<lambda>p. h_connected h (pt_module_id p)) (fst source)
     \<and> (ng_burn_row neg \<noteq> None \<longrightarrow> pick_for neg (fst source) \<noteq> None)"

lemma set_candidates:
  "source \<in> set (candidates_of h neg sources) \<longleftrightarrow> source \<in> set sources \<and> selectable h neg source"
  by (cases source) (auto simp: candidates_of_def online_def selectable_def Let_def)

subsection \<open>The surroundings of the witnesses\<close>

definition sample_host :: "Registry \<Rightarrow> host" where
  "sample_host rg =
     \<lparr>h_gst = sample_gst, h_opus_encoder = None, h_encoder_capabilities = [], h_tonemap_available = False,
      h_registry = rg, h_connected = (\<lambda>_. True), h_reads_locally = (\<lambda>_. False),
      h_audio_loudness = (\<lambda>_ _ _ _. Inr None), h_round = id\<rparr>"

definition empty_registry :: Registry where
  "empty_registry =
     \<lparr>rg_boxes = [], rg_load = Map.empty, rg_disabled = [], rg_pace = Map.empty,
      rg_local_bench = None, rg_local_video_executor_enabled = False\<rparr>"

definition sample_negotiation :: "CapabilityProfile \<Rightarrow> Negotiation" where
  "sample_negotiation profile =
     \<lparr>ng_profile = profile, ng_loudness = LoudnessOff, ng_ass = AssPolicy_default, ng_ocr_set = [],
      ng_raster_sources = None, ng_burn_row = None, ng_audio_track = 0,
      ng_source_audio_tracks = Map.empty, ng_video_track = 0, ng_force_audio_encode = False,
      ng_force_measurement = None\<rparr>"

text \<open>A player of eight-bit H.264 that wants segments of at most six seconds.\<close>

definition eight_bit_short :: CapabilityProfile where
  "eight_bit_short = CapabilityProfile_default\<lparr>
     p_video := [(sample_cap ''h264'')\<lparr>c_max_bit_depth := Some 8\<rparr>], p_target_duration := Short 6\<rparr>"

lemma sample_host_sel [simp]:
  "h_gst (sample_host rg) = sample_gst" "h_registry (sample_host rg) = rg" "h_round (sample_host rg) = id"
  by (simp_all add: sample_host_def)

lemma empty_registry_sel [simp]:
  "rg_boxes empty_registry = []" "\<not> registry_local_enabled empty_registry"
  by (simp_all add: empty_registry_def registry_local_enabled_def)

lemma empty_pick: "pick_transcoder fl need empty_registry = None"
  by (simp add: pick_transcoder_def choose_None fleet_of_boxes split_beta) (auto simp: fleet_of_def)

lemma sample_plan_input:
  "ni_profile (neg_input_of (sample_negotiation pr) [] info facts force) = pr"
  "ni_info (neg_input_of (sample_negotiation pr) [] info facts force) = info"
  "ni_video_targets (neg_input_of (sample_negotiation pr) [] info facts force) = x_video_targets facts"
  by (simp_all add: neg_input_of_def sample_negotiation_def)

section \<open>Properties\<close>

text \<open>C12. The planner returns. When some box takes depth-limited encodes, or the local executor is
  on, or the client set no segment ceiling, planning a source comes to an end after at most one more
  probe of the fleet; and a plan that encodes under a bit-depth limit was made against an executor
  that understands the limit.\<close>

theorem plan_with_force_returns:
  assumes "distinct (map fst (rg_boxes (h_registry h)))"
    and "pick_transcoder (h_round h) (probe_need info (Some VideoBitDepth)) (h_registry h) \<noteq> None
      \<or> registry_local_enabled (h_registry h)
      \<or> ceiling_secs (p_target_duration (ng_profile neg)) = None"
  shows "\<exists>sp facts'. plan_with_force h neg parts info facts force = Some sp
       \<and> sp = selected_plan h neg parts info facts' force
       \<and> facts' \<in> {facts, probe h info (x_burn_capable facts) (Some VideoBitDepth)}
       \<and> \<not> (pl_video (sp_plan sp) = Encode \<and> pl_max_bit_depth (sp_plan sp) \<noteq> None
             \<and> \<not> supports (x_full_protocol facts') VideoBitDepth)"
proof -
  let ?e = "probe h info (x_burn_capable facts) (Some VideoBitDepth)"
  have "\<not> needs_newer_executor (selected_plan h neg parts info ?e force) ?e"
  proof (cases "pick_transcoder (h_round h) (probe_need info (Some VideoBitDepth)) (h_registry h) \<noteq> None
      \<or> registry_local_enabled (h_registry h)")
    case True
    from probe_supports [OF assms(1) True] show ?thesis by (simp add: needs_newer_executor_def)
  next
    case False
    then have "x_video_targets ?e = []" by (simp add: probe_None)
    moreover have "ceiling_secs (p_target_duration (ng_profile neg)) = None" using assms(2) False by blast
    ultimately show ?thesis by (rule no_target_not_newer)
  qed
  then show ?thesis
    unfolding plan_with_force_eq [of h neg parts info facts force] needs_newer_executor_def
    by (cases "needs_newer_executor (selected_plan h neg parts info facts force) facts")
       (auto simp: needs_newer_executor_def)
qed

text \<open>Witness of C12: an H.264 film on the default browser, in a hub without transcoders.\<close>

theorem plan_with_force_returns_witness:
  "\<exists>sp. plan_with_force (sample_host empty_registry) (sample_negotiation CapabilityProfile_default) []
     (sample_info [sample_video ''h264''] [] [])
     (probe (sample_host empty_registry) (sample_info [sample_video ''h264''] [] []) False None) False = Some sp"
proof -
  have "ceiling_secs (p_target_duration (ng_profile (sample_negotiation CapabilityProfile_default))) = None"
    by (simp add: sample_negotiation_def)
  then have b: "P \<or> Q \<or> ceiling_secs (p_target_duration (ng_profile (sample_negotiation CapabilityProfile_default))) = None"
    for P Q by blast
  have a: "distinct (map fst (rg_boxes (h_registry (sample_host empty_registry))))" by simp
  from plan_with_force_returns [OF a b] show ?thesis by blast
qed

text \<open>The planner can run away. On a hub whose fleet is empty and whose local executor is off, a
  player of eight-bit H.264 that asks for segments of at most six seconds starts an H.264 film
  with keyframes ten seconds apart: the ceiling turns the copy into an encode although no target is
  offered, the encode carries a bit-depth limit no executor understands, and the planner probes the
  same empty fleet again without end.\<close>

theorem plan_with_force_runs_away:
  "let h = sample_host empty_registry; info = sample_info [sample_video ''h264''] [] [] in
   plan_with_force h (sample_negotiation eight_bit_short) [] info (probe h info False None) False = None"
proof -
  let ?h = "sample_host empty_registry" and ?info = "sample_info [sample_video ''h264''] [] []"
  let ?neg = "sample_negotiation eight_bit_short"
  have "needs_newer_executor (selected_plan ?h ?neg [] ?info (probe ?h ?info False f) False)
      (probe ?h ?info False f)" for f
  proof -
    let ?e = "probe ?h ?info False f"
    let ?ni = "neg_input_of ?neg [] ?info ?e False"
    have e: "x_video_targets ?e = []" "x_full_protocol ?e = 0" by (simp_all add: probe_None empty_pick)
    have pr: "ni_profile ?ni = eight_bit_short" "ni_info ?ni = ?info" "ni_video_targets ?ni = []"
      "\<not> ni_force_audio_encode ?ni"
      by (simp_all add: sample_plan_input e) (simp add: neg_input_of_def)
    have si: "video ?info = [sample_video ''h264'']" "subtitles ?info = []" "external_subtitles ?info = []"
      by (simp_all add: sample_info_def)
    have v: "n_v ?ni = Some (sample_video ''h264'')"
      by (simp add: n_v_def n_video_track_def pr clamp_track_def get_def si)
    have prof: "p_video eight_bit_short = [(sample_cap ''h264'')\<lparr>c_max_bit_depth := Some 8\<rparr>]"
      "p_target_duration eight_bit_short = Short 6" "p_max_bandwidth_kbps eight_bit_short = None"
      "p_max_height eight_bit_short = None" "p_max_fps eight_bit_short = None"
      by (simp_all add: eight_bit_short_def)
    have ok: "v_client_ok ?ni"
      by (simp add: v_client_ok_def v pr over_cap_def hdr_veto_def is_hdr10_def video_fits_def cap_admits_def prof)
        (simp add: exceeds_def sample_video_def)
    have nb: "\<not> burn_active ?ni"
      by (simp add: burn_active_def n_burn_subtitle_def forced_embedded_def forced_burn_def n_burn_ass_def
          ass_burn_wanted_def pr si)
        (simp add: neg_input_of_def pick_for_def sample_negotiation_def)
    have copy: "cand_video sample_gst ?ni fmt = Copy" for fmt
      by (cases fmt) (simp_all add: cand_video_Copy ok nb v)
    have "declared_target_secs (Short 6) (Some 10430) False = 12"
      by (simp add: declared_target_secs_def DEFAULT_TARGET_DURATION_SECS_def FRAGMENT_TARGET_SECS_def max_def)
    then have so: "short_override sample_gst ?ni"
      by (simp add: short_override_def copy pr prof n_gap_ms_def v max_def word_less_nat_alt)
    have vt: "cand_vt ?ni fmt = H264" for fmt
      by (cases fmt) (simp_all add: cand_vt_def takes_video_def pr)
    have lim: "codec_depth_limit eight_bit_short ''h264'' = Some 8"
      by (simp add: codec_depth_limit_def prof)
    have "pl_video (n_plan sample_gst ?ni) = Encode" by (simp add: n_plan_sel n_video_eq so)
    moreover have "pl_max_bit_depth (n_plan sample_gst ?ni) = Some 8"
      by (simp add: n_plan_def Let_def n_video_eq so n_chosen_def candidate_sel vt pr lim)
    ultimately show ?thesis
      by (simp add: needs_newer_executor_def selected_plan_def negotiate_no_force pr impl_sel e supports_def)
  qed
  note stuck = this
  show ?thesis
    by (simp only: Let_def plan_with_force_eq [of ?h] probe_sel stuck not_True_eq_False if_False)
qed

text \<open>C13. A planned video encode has an executor. Against the facts of a probe, a plan only encodes to a target that
  a linked box reported, one that decodes the source and understands the required feature, or that the local
  executor has verified. The one exception is the fallback of a segment ceiling: H.264, where the
  client and the probed executor have no target of the container in common.\<close>

theorem encode_target_runs:
  assumes "distinct (map fst (rg_boxes (h_registry h)))"
    and "facts = probe h info bc feature"
    and "plan = sp_plan (selected_plan h neg parts info facts force)"
    and "pl_video plan = Encode"
  shows "(\<exists>i b. (i, b) \<in> set (rg_boxes (h_registry h))
            \<and> has_encoder (bx_caps b) (VideoTarget_as_str (pl_video_codec plan))
            \<and> can_decode (bx_caps b) (source_caps_names ''video'' info)
            \<and> is_none_or feature (supports (bx_protocol b)))
       \<or> (registry_local_enabled (h_registry h)
          \<and> (\<exists>bench element hw. rg_local_bench (h_registry h) = Some bench \<and> encoder_ready bench element
               \<and> (VideoTarget_as_str (pl_video_codec plan), element, hw) \<in> set (h_encoder_capabilities h)))
       \<or> ceiling_fallback (ng_profile neg) (x_video_targets facts) plan"
proof -
  let ?ni = "neg_input_of neg parts info facts force"
  have sel: "ni_profile ?ni = ng_profile neg" "ni_video_targets ?ni = x_video_targets facts"
    by (simp_all add: neg_input_of_def)
  have plan: "plan = sp_plan (negotiate_for_executors (h_gst h) ?ni)"
    by (simp add: assms(3) selected_plan_def)
  have "VideoTarget_as_str (pl_video_codec plan) \<in> set (x_video_targets facts)
      \<or> ceiling_fallback (ng_profile neg) (x_video_targets facts) plan"
    using encode_target_or_fallback [of "h_gst h" ?ni] assms(4) unfolding plan sel by blast
  with probed_target [OF assms(1)] assms(2) show ?thesis by blast
qed

text \<open>Witness of C13: an HEVC film on the default browser, with two transcoders that encode H.264.\<close>

theorem encode_target_runs_witness:
  "\<exists>i b. (i, b) \<in> set (rg_boxes sample_registry) \<and> has_encoder (bx_caps b) ''h264''"
proof -
  let ?h = "sample_host sample_registry" and ?neg = "sample_negotiation CapabilityProfile_default"
  let ?info = "sample_info [sample_video ''hevc''] [] []"
  let ?e = "probe ?h ?info False None"
  let ?ni = "neg_input_of ?neg [] ?info ?e False"
  have d: "distinct (map fst (rg_boxes (h_registry ?h)))" by (simp add: sample_registry_def)
  have el: "eligible (probe_need ?info None) (sample_box False 0)"
    by (simp add: eligible_def probe_need_def sample_box_def codec_ok_def has_encoder_def can_decode_def)
  have "(''soft'', sample_box False 0) \<in> set (boxes (fleet_of sample_registry))"
    by (simp add: fleet_of_def sample_registry_def sample_box_def)
  with el obtain tc where tc: "choose_box id (fleet_of sample_registry) (probe_need ?info None) = Some tc"
    using choose_None [of id "fleet_of sample_registry" "probe_need ?info None"] by (auto simp: not_Some_eq)
  obtain b where "map_of (rg_boxes sample_registry) tc = Some b"
    using picked_box [OF tc] d by auto
  then have "transcoder_encoders sample_registry tc = [''h264'']"
    by (auto simp: transcoder_encoders_def sample_registry_def sample_box_def split: if_splits)
  with tc have vt: "x_video_targets ?e = [''h264'']"
    by (simp add: probe_Some [of _ _ _ tc] pick_transcoder_def video_encoder_names_def)
  have pr: "ni_profile ?ni = CapabilityProfile_default" "ni_info ?ni = ?info" "ni_video_targets ?ni = [''h264'']"
    "\<not> ni_force_audio_encode ?ni"
    by (simp_all add: sample_plan_input vt) (simp add: neg_input_of_def)
  have v: "n_v ?ni = Some (sample_video ''hevc'')"
    by (simp add: n_v_def n_video_track_def pr clamp_track_def get_def) (simp add: sample_info_def)
  have "\<not> v_client_ok ?ni" by (simp add: v_client_ok_def v pr video_fits_def cap_admits_def)
  moreover have "takes_video ?ni H264" by (simp add: takes_video_def pr)
  ultimately have "cand_video sample_gst ?ni fmt = Encode" for fmt
    by (cases fmt) (simp_all add: cand_video_def v)
  then have "pl_video (sp_plan (selected_plan ?h ?neg [] ?info ?e False)) = Encode"
    by (simp add: selected_plan_def negotiate_no_force pr impl_sel n_plan_sel n_video_eq)
  moreover have "\<not> ceiling_fallback (ng_profile ?neg) vs plan" for vs plan
    by (simp add: ceiling_fallback_def sample_negotiation_def)
  moreover have "\<not> registry_local_enabled sample_registry"
    by (simp add: registry_local_enabled_def sample_registry_def)
  ultimately obtain i b where "(i, b) \<in> set (rg_boxes sample_registry)"
    using encode_target_runs [OF d refl refl, of ?neg "[]" ?info False None False] by auto
  then have "(i, b) \<in> set (rg_boxes sample_registry) \<and> has_encoder (bx_caps b) ''h264''"
    by (auto simp: sample_registry_def sample_box_def has_encoder_def)
  then show ?thesis by blast
qed

text \<open>C14. The cheapest sufficient rendition plays. Without an operator override, the chosen source is one of
  the item's that are online and carry the picked track; among all of those it is best by completeness, then by
  ordinary cost, then by an honoured loudness preference, and no source with the same key has a taller picture.
  A forced loudness encode never changed the video path that was ranked, and the measurement the session
  goes on with is the one of that source.\<close>

theorem choose_sources_best:
  assumes "choose_sources h neg sources None = Some (Inr (parts, info, sp, mode, neg'))"
  shows "\<exists>c. (parts, info) \<in> set sources \<and> selectable h neg (parts, info)
       \<and> judged h neg (parts, info) c \<and> c_plan c = sp
       \<and> mode = (if sp_direct sp then ''direct'' else ''remux'')
       \<and> neg' = neg\<lparr>ng_force_audio_encode := (c_measurement c \<noteq> None), ng_force_measurement := c_measurement c\<rparr>
       \<and> (\<forall>source \<in> set sources. selectable h neg source \<longrightarrow> (\<exists>d. judged h neg source d
            \<and> (preferred (c_key c) (c_key d)
               \<or> c_key c = c_key d \<and> height_of (snd source) \<le> height_of info)))"
proof -
  let ?cs = "candidates_of h neg sources"
  from assms obtain b where loop: "choose_loop h neg 0 None ?cs = Some (Inr (Some b))"
    and src: "?cs ! c_index b = (parts, info)" and sp: "sp = c_plan b"
    and mode: "mode = (if sp_direct (c_plan b) then ''direct'' else ''remux'')"
    and neg': "neg' = note_measurement (c_measurement b) neg" and ne: "?cs \<noteq> []"
  proof -
    from assms have ne: "?cs \<noteq> []"
      and run: "choose_loop h neg 0 None ?cs \<bind> (\<lambda>result. case result of Inl e \<Rightarrow> Some (Inl e) | Inr None \<Rightarrow> None
          | Inr (Some best) \<Rightarrow> (case ?cs ! c_index best of (parts, info) \<Rightarrow>
              Some (Inr (parts, info, c_plan best, if sp_direct (c_plan best) then ''direct'' else ''remux'',
                note_measurement (c_measurement best) neg)))) = Some (Inr (parts, info, sp, mode, neg'))"
      by (simp_all add: choose_sources_def Let_def split: if_splits)
    then obtain r where r: "choose_loop h neg 0 None ?cs = Some r"
      and res: "(case r of Inl e \<Rightarrow> Some (Inl e) | Inr None \<Rightarrow> None
          | Inr (Some best) \<Rightarrow> (case ?cs ! c_index best of (parts, info) \<Rightarrow>
              Some (Inr (parts, info, c_plan best, if sp_direct (c_plan best) then ''direct'' else ''remux'',
                note_measurement (c_measurement best) neg)))) = Some (Inr (parts, info, sp, mode, neg'))"
      unfolding bind_eq_Some_conv by blast
    from res obtain b where b: "r = Inr (Some b)" by (cases r) (auto split: option.splits)
    obtain pp ii where at: "?cs ! c_index b = (pp, ii)" by fastforce
    from res b at r ne show thesis by (intro that [of b]) (auto split: if_splits)
  qed
  obtain s0 rest where cs: "?cs = s0 # rest" using ne by (cases ?cs) auto
  from loop obtain c0 where c0: "judge h neg 0 s0 = Some (Inr c0)"
    and run: "choose_loop h neg 1 (Some c0) rest = Some (Inr (Some b))"
    unfolding cs by (rule choose_loop_Cons) simp
  note best = choose_loop_best [OF run]
  note i0 = judge_judged(2) [OF c0]
  have mem: "\<exists>k < length ?cs. judge h neg k (?cs ! k) = Some (Inr b)"
  proof (cases "b = c0")
    case True
    with c0 show ?thesis unfolding cs by (intro exI [of _ 0]) simp
  next
    case False
    with best obtain k where "k < length rest" "judge h neg (1 + k) (rest ! k) = Some (Inr b)" by auto
    then show ?thesis unfolding cs by (intro exI [of _ "Suc k"]) simp
  qed
  then obtain i where i: "i < length ?cs" "judge h neg i (?cs ! i) = Some (Inr b)" by blast
  note ji = judge_judged [OF i(2)]
  have pi: "?cs ! i = (parts, info)" using src ji(2) by simp
  have all: "\<exists>d. judge h neg k (?cs ! k) = Some (Inr d) \<and> choice_cmp (c_key b) (c_key d) \<noteq> Greater
      \<and> (choice_cmp (c_key b) (c_key d) = Equal \<longrightarrow> i \<le> k)" if k: "k < length ?cs" for k
  proof (cases k)
    case 0
    with best c0 i0 ji(2) show ?thesis unfolding cs by auto
  next
    case (Suc j)
    with k best obtain d where "judge h neg (1 + j) (rest ! j) = Some (Inr d)"
      "choice_cmp (c_key b) (c_key d) \<noteq> Greater"
      "choice_cmp (c_key b) (c_key d) = Equal \<longrightarrow> b = c0 \<or> c_index b \<le> 1 + j"
      unfolding cs by auto
    with Suc i0 ji(2) show ?thesis unfolding cs by auto
  qed
  have "\<exists>d. judged h neg source d \<and> (preferred (c_key b) (c_key d)
      \<or> c_key b = c_key d \<and> height_of (snd source) \<le> height_of info)"
    if "source \<in> set sources" "selectable h neg source" for source
  proof -
    have "source \<in> set ?cs" using that by (simp add: set_candidates)
    then obtain k where k: "k < length ?cs" "?cs ! k = source" by (auto simp: in_set_conv_nth)
    obtain d where d: "judge h neg k source = Some (Inr d)" "choice_cmp (c_key b) (c_key d) \<noteq> Greater"
      "choice_cmp (c_key b) (c_key d) = Equal \<longrightarrow> i \<le> k" using all [OF k(1)] k(2) by blast
    have "height_of (snd source) \<le> height_of info" if "choice_cmp (c_key b) (c_key d) = Equal"
      using sorted_heights [of i k h neg sources] d(3) that k pi by simp
    with d(2) judge_judged(1) [OF d(1)] show ?thesis
      by (cases "choice_cmp (c_key b) (c_key d)") (auto simp: choice_cmp_iff)
  qed
  moreover have "(parts, info) \<in> set sources \<and> selectable h neg (parts, info)"
    using i(1) pi set_candidates [of "(parts, info)" h neg sources] by (metis nth_mem)
  ultimately show ?thesis using pi ji(1) sp mode neg'
    by (intro exI [of _ b]) (simp add: note_measurement_def)
qed

text \<open>Witness of C14: one online rendition in a hub without transcoders.\<close>

theorem choose_sources_best_witness:
  "\<exists>sp mode neg'. choose_sources (sample_host empty_registry) (sample_negotiation CapabilityProfile_default)
       [([], sample_info [sample_video ''h264''] [] [])] None
     = Some (Inr ([], sample_info [sample_video ''h264''] [] [], sp, mode, neg'))
     \<and> mode = (if sp_direct sp then ''direct'' else ''remux'')"
proof -
  let ?h = "sample_host empty_registry" and ?neg = "sample_negotiation CapabilityProfile_default"
  let ?info = "sample_info [sample_video ''h264''] [] []"
  let ?e = "probe ?h ?info False None"
  have "x_video_targets ?e = []" by (simp add: probe_None empty_pick)
  moreover have "ceiling_secs (p_target_duration (ng_profile ?neg)) = None" by (simp add: sample_negotiation_def)
  ultimately have "plan_with_force ?h ?neg [] ?info ?e False = Some (selected_plan ?h ?neg [] ?info ?e False)"
    by (simp add: plan_with_force_eq no_target_not_newer)
  then obtain sp where "plan_with_force ?h ?neg [] ?info ?e False = Some sp" by blast
  then have "judge ?h ?neg 0 ([], ?info) = Some (Inr \<lparr>c_plan = sp, c_index = 0, c_measurement = None,
      c_key = source_choice_key sp False\<rparr>)"
    by (simp add: judge_def forced_measurement_def sample_negotiation_def loudness_force_def
        plans_auto_with_force_def plans_with_probe_def Let_def reads_sets_for_def get_def)
  moreover have "candidates_of ?h ?neg [([], ?info)] = [([], ?info)]"
    by (simp add: candidates_of_def online_def sample_negotiation_def)
  ultimately have run: "choose_sources ?h ?neg [([], ?info)] None = Some (Inr ([], ?info, sp,
      if sp_direct sp then ''direct'' else ''remux'', note_measurement None ?neg))"
    by (simp add: choose_sources_def online_def)
  from run choose_sources_best [OF run] show ?thesis by blast
qed



end
