(* ===== verification/Segments.thy ===== *)
theory Segments
  imports Kahawai_Prelude Media_Model
begin

text \<open>
  Skip boundaries, \<open>crates/kahawai-core/src/segments.rs\<close>: the classifier of chapter titles, the
  boundaries a file's own chapters name, the persisted mask of their kinds, and the hub's bounds
  check on the boundaries a mediahost inferred. Milliseconds are natural numbers below \<open>2^64\<close>; the
  two saturating operations are written out.
\<close>

section \<open>Definitions\<close>

definition DETECTOR_GENERATION :: int where "DETECTOR_GENERATION = 2"

record Named =
  nm_kind :: string
  nm_start_ms :: nat
  nm_end_ms :: nat

definition NAMED_RECAP :: u8 where "NAMED_RECAP = 1"
definition NAMED_INTRO :: u8 where "NAMED_INTRO = 2"
definition NAMED_CREDITS :: u8 where "NAMED_CREDITS = 4"
definition NAMED_COMPLETE :: u8 where "NAMED_COMPLETE = or NAMED_INTRO NAMED_CREDITS"

definition INTRO_MAX_MS :: nat where "INTRO_MAX_MS = 120000"
definition RECAP_MAX_MS :: nat where "RECAP_MAX_MS = 120000"
definition CREDITS_WINDOW_MS :: nat where "CREDITS_WINDOW_MS = 450000"
definition INTRO_WINDOW_LIMIT_MS :: nat where "INTRO_WINDOW_LIMIT_MS = 600000"
definition INTRO_PERCENT_MIN_DURATION_MS :: nat where "INTRO_PERCENT_MIN_DURATION_MS = 300000"
definition END_REFINEMENT_OUTWARD_MS :: nat where "END_REFINEMENT_OUTWARD_MS = 2000"
definition SHARED_REGION_MIN_MS :: nat where "SHARED_REGION_MIN_MS = 15000"
definition RECAP_MIN_MS :: nat where "RECAP_MIN_MS = 15000"
definition BLACK_CREDITS_MIN_MS :: nat where "BLACK_CREDITS_MIN_MS = 15000"
definition END_REFINEMENT_INWARD_MS :: nat where "END_REFINEMENT_INWARD_MS = 5000"
definition INTRO_START_SNAP_MS :: nat where "INTRO_START_SNAP_MS = 5000"

definition U64_MAX :: nat where "U64_MAX = 2 ^ 64 - 1"

definition saturating_add :: "nat \<Rightarrow> nat \<Rightarrow> nat" where
  "saturating_add a b = min (a + b) U64_MAX"

subsection \<open>Inferred boundaries\<close>

definition inferred_within_bounds :: "string \<Rightarrow> string \<Rightarrow> nat \<Rightarrow> nat \<Rightarrow> nat \<Rightarrow> bool" where
  "inferred_within_bounds kind analyzer start stop duration =
     (if stop \<le> start \<or> stop > duration then False
      else let len = stop - start in
        if kind = ''recap'' \<and> analyzer = ''blackframe'' then
          start = 0 \<and> RECAP_MIN_MS \<le> len \<and> len \<le> RECAP_MAX_MS
        else if kind = ''intro'' \<and> analyzer = ''chromaprint'' then
          (let head_end = (if duration \<ge> INTRO_PERCENT_MIN_DURATION_MS
                           then min (duration div 4) INTRO_WINDOW_LIMIT_MS else duration);
               minimum = SHARED_REGION_MIN_MS - END_REFINEMENT_INWARD_MS;
               raw_region_fits = (saturating_add start SHARED_REGION_MIN_MS \<le> head_end);
               start_is_representable = (start = 0 \<or> start \<ge> INTRO_START_SNAP_MS)
           in raw_region_fits \<and> start_is_representable
              \<and> len \<ge> minimum
              \<and> len \<le> INTRO_MAX_MS + END_REFINEMENT_OUTWARD_MS
              \<and> start \<le> head_end
              \<and> stop \<le> min (head_end + END_REFINEMENT_OUTWARD_MS) duration)
        else if kind = ''credits'' \<and> analyzer = ''blackframe'' then
          stop = duration \<and> len \<ge> BLACK_CREDITS_MIN_MS \<and> start \<ge> duration - CREDITS_WINDOW_MS
        else if kind = ''credits'' \<and> analyzer = ''chromaprint'' then
          saturating_add start SHARED_REGION_MIN_MS \<le> duration
          \<and> len \<ge> SHARED_REGION_MIN_MS - END_REFINEMENT_INWARD_MS
          \<and> start \<ge> duration div 2
          \<and> start \<ge> duration - CREDITS_WINDOW_MS
        else False)"

subsection \<open>Chapter titles\<close>

definition title_word :: "string \<Rightarrow> string \<Rightarrow> bool" where
  "title_word w needle =
     (w = needle \<or> is_some_and (strip_prefix needle w) (\<lambda>rest. starts_with rest '':''))"

definition has_word :: "string list \<Rightarrow> string \<Rightarrow> bool" where
  "has_word tokens needle = list_ex (\<lambda>w. title_word w needle) tokens"

fun has_phrase :: "string list \<Rightarrow> string \<Rightarrow> string \<Rightarrow> bool" where
  "has_phrase (w # v # ws) a b = ((w = a \<and> title_word v b) \<or> has_phrase (v # ws) a b)"
| "has_phrase _ a b = False"

definition kind_of :: "string \<Rightarrow> string option" where
  "kind_of ttl =
     (let t = to_ascii_lowercase (trim ttl);
          tokens = split_ascii_whitespace t
      in if starts_with t ''end of '' \<or> ends_with t '' end'' \<or> ends_with t '' start'' then None
         else if has_word tokens ''recap'' \<or> has_word tokens ''recaps''
                 \<or> has_word tokens ''previously'' then Some ''recap''
         else if has_word tokens ''intro'' \<or> has_word tokens ''introduction''
                 \<or> has_word tokens ''opening'' \<or> has_word tokens ''op''
                 \<or> has_phrase tokens ''main'' ''title'' \<or> has_phrase tokens ''main'' ''titles''
                 \<or> has_phrase tokens ''title'' ''sequence''
                 \<or> has_phrase tokens ''titles'' ''sequence'' then Some ''intro''
         else if has_word tokens ''credit'' \<or> has_word tokens ''credits''
                 \<or> has_word tokens ''ending'' \<or> has_word tokens ''outro''
                 \<or> has_word tokens ''closing'' \<or> has_word tokens ''ed'' then Some ''credits''
         else None)"

definition kind_bounds :: "string \<Rightarrow> nat \<times> nat" where
  "kind_bounds kind =
     (if kind = ''credits'' then (SHARED_REGION_MIN_MS, CREDITS_WINDOW_MS)
      else (SHARED_REGION_MIN_MS, INTRO_MAX_MS))"

subsection \<open>Named boundaries\<close>

definition chapter_kind :: "Chapter \<Rightarrow> string option" where
  "chapter_kind c = Option.bind (title c) kind_of"

text \<open>Half of a split boundary: the neighbour in scan direction names the same kind.\<close>

definition ambiguous :: "Chapter list \<Rightarrow> nat \<Rightarrow> string \<Rightarrow> bool" where
  "ambiguous chs i kind =
     (if kind = ''credits'' then i > 0 \<and> chapter_kind (chs ! (i - 1)) = Some kind
      else Option.bind (get chs (i + 1)) chapter_kind = Some kind)"

definition chapter_end :: "Chapter list \<Rightarrow> nat \<Rightarrow> nat \<Rightarrow> nat" where
  "chapter_end chs duration i =
     (let c = chs ! i;
          cap = (if duration > 0 then max duration (start_ms c) else U64_MAX)
      in min (unwrap_or (opt_or (end_ms c) (map_option start_ms (get chs (i + 1)))) duration) cap)"

definition candidate_at :: "Chapter list \<Rightarrow> nat \<Rightarrow> nat \<Rightarrow> Named option" where
  "candidate_at chs duration i =
     (let c = chs ! i in
      case chapter_kind c of
        None \<Rightarrow> None
      | Some kind \<Rightarrow>
          if ambiguous chs i kind then None
          else (let stop = chapter_end chs duration i;
                    (shortest, longest) = kind_bounds kind
                in if stop \<le> start_ms c then None
                   else if \<not> (shortest \<le> stop - start_ms c \<and> stop - start_ms c \<le> longest) then None
                   else Some \<lparr>nm_kind = kind, nm_start_ms = start_ms c, nm_end_ms = stop\<rparr>))"

definition named_candidates :: "Chapter list \<Rightarrow> nat \<Rightarrow> Named list" where
  "named_candidates chs duration =
     filter_map (candidate_at chs duration) [0..<length chs]"

definition pick_kind :: "Named list \<Rightarrow> string \<Rightarrow> Named option" where
  "pick_kind candidates kind =
     (case filter (\<lambda>n. nm_kind n = kind) candidates of
        [] \<Rightarrow> None
      | n # ns \<Rightarrow> Some (if kind = ''credits'' then last (n # ns) else n))"

definition start_cmp :: "Named \<Rightarrow> Named \<Rightarrow> ordering" where
  "start_cmp a b = cmp_of (nm_start_ms a) (nm_start_ms b)"

definition named :: "Chapter list \<Rightarrow> nat \<Rightarrow> Named list" where
  "named chs duration =
     sort_by start_cmp
       (filter_map (pick_kind (named_candidates chs duration)) [''recap'', ''intro'', ''credits''])"

definition kind_bit :: "string \<Rightarrow> u8" where
  "kind_bit kind =
     (if kind = ''recap'' then NAMED_RECAP else if kind = ''intro'' then NAMED_INTRO
      else if kind = ''credits'' then NAMED_CREDITS else 0)"

definition named_kind_mask :: "Chapter list \<Rightarrow> nat \<Rightarrow> u8" where
  "named_kind_mask chs duration =
     fold (\<lambda>n m. or m (kind_bit (nm_kind n))) (named chs duration) 0"

section \<open>Lemmas\<close>

interpretation boundaries: cmp_order start_cmp
  unfolding start_cmp_def by (rule cmp_order_key)

lemma pick_kind_Some:
  assumes "pick_kind cs k = Some n"
  shows "n \<in> set cs" and "nm_kind n = k"
proof -
  from assms obtain m ms where f: "filter (\<lambda>n. nm_kind n = k) cs = m # ms"
    and n: "n = (if k = ''credits'' then last (m # ms) else m)"
    by (auto simp: pick_kind_def split: list.splits)
  have "n \<in> set (filter (\<lambda>n. nm_kind n = k) cs)"
    unfolding f n by auto
  then show "n \<in> set cs" "nm_kind n = k" by auto
qed

lemma pick_kind_None: "pick_kind cs k = None \<longleftrightarrow> (\<forall>n \<in> set cs. nm_kind n \<noteq> k)"
proof -
  have "pick_kind cs k = None \<longleftrightarrow> filter (\<lambda>n. nm_kind n = k) cs = []"
    by (simp add: pick_kind_def split: list.split)
  then show ?thesis by (simp add: filter_empty_conv)
qed

lemma pick_kinds_distinct:
  "distinct ks \<Longrightarrow> distinct (map nm_kind (filter_map (pick_kind cs) ks))
     \<and> set (map nm_kind (filter_map (pick_kind cs) ks)) \<subseteq> set ks"
  by (induction ks) (auto dest: pick_kind_Some split: option.splits)

lemma set_named:
  "n \<in> set (named chs duration) \<longleftrightarrow>
     nm_kind n \<in> {''recap'', ''intro'', ''credits''}
     \<and> pick_kind (named_candidates chs duration) (nm_kind n) = Some n"
proof -
  have "n \<in> set (filter_map (pick_kind cs) ks) \<longleftrightarrow> nm_kind n \<in> set ks \<and> pick_kind cs (nm_kind n) = Some n"
    for cs ks by (auto simp: set_filter_map dest: pick_kind_Some(2))
  then show ?thesis unfolding named_def boundaries.set_sort_by by (simp del: filter_map.simps)
qed

lemma candidate_at_Some:
  assumes "candidate_at chs duration i = Some n"
  shows "chapter_kind (chs ! i) = Some (nm_kind n)"
    and "\<not> ambiguous chs i (nm_kind n)"
    and "nm_start_ms n = start_ms (chs ! i)"
    and "nm_end_ms n = chapter_end chs duration i"
    and "nm_start_ms n < nm_end_ms n"
    and "fst (kind_bounds (nm_kind n)) \<le> nm_end_ms n - nm_start_ms n"
    and "nm_end_ms n - nm_start_ms n \<le> snd (kind_bounds (nm_kind n))"
  using assms by (auto simp: candidate_at_def Let_def split: option.splits prod.splits if_splits)

lemma chapter_end_capped:
  assumes "0 < duration" and "start_ms (chs ! i) < chapter_end chs duration i"
  shows "chapter_end chs duration i \<le> duration"
  using assms by (auto simp: chapter_end_def Let_def)

lemma kind_of_range: "kind_of t = Some k \<Longrightarrow> k \<in> {''recap'', ''intro'', ''credits''}"
  by (auto simp: kind_of_def Let_def split: if_splits)

lemma named_kind_mask_bit:
  "bit (named_kind_mask chs duration) j
     \<longleftrightarrow> (\<exists>n \<in> set (named chs duration). bit (kind_bit (nm_kind n)) j)"
proof -
  have "bit (fold (\<lambda>n m. or m (kind_bit (nm_kind n))) ns a) j
      \<longleftrightarrow> bit a j \<or> (\<exists>n \<in> set ns. bit (kind_bit (nm_kind n)) j)" for ns :: "Named list" and a :: u8
    by (induction ns arbitrary: a) (auto simp: bit_or_iff)
  then show ?thesis by (simp add: named_kind_mask_def)
qed

lemma kind_bits:
  "bit (kind_bit k) 0 \<longleftrightarrow> k = ''recap''"
  "bit (kind_bit k) (Suc 0) \<longleftrightarrow> k = ''intro''"
  "bit (kind_bit k) 2 \<longleftrightarrow> k = ''credits''"
  by (simp_all add: kind_bit_def NAMED_RECAP_def NAMED_INTRO_def NAMED_CREDITS_def)

lemmas bound_defs = RECAP_MIN_MS_def RECAP_MAX_MS_def SHARED_REGION_MIN_MS_def
  END_REFINEMENT_INWARD_MS_def END_REFINEMENT_OUTWARD_MS_def INTRO_MAX_MS_def
  INTRO_START_SNAP_MS_def INTRO_WINDOW_LIMIT_MS_def INTRO_PERCENT_MIN_DURATION_MS_def
  CREDITS_WINDOW_MS_def BLACK_CREDITS_MIN_MS_def

text \<open>A recap and a credits chapter around an episode's body.\<close>

definition sample_chapters :: "Chapter list" where
  "sample_chapters =
     [\<lparr>start_ms = 4000, end_ms = None, title = Some ''recap''\<rparr>,
      \<lparr>start_ms = 69708, end_ms = None, title = Some ''scene 1''\<rparr>,
      \<lparr>start_ms = 2198667, end_ms = None, title = Some ''credits''\<rparr>]"

section \<open>Properties\<close>

text \<open>C11. Named boundaries are sound. Each is the span of a chapter whose title says its kind and
  which is not half of a split boundary; it is not empty, has a length its kind allows and does not
  run past a known end of the file; there is at most one of each kind, they are in start order, and
  a kind is missing only when no chapter qualifies for it.\<close>

theorem named_sound:
  "sorted (map nm_start_ms (named chs duration))
   \<and> distinct (map nm_kind (named chs duration))
   \<and> (\<forall>n \<in> set (named chs duration). \<exists>i < length chs.
        chapter_kind (chs ! i) = Some (nm_kind n) \<and> \<not> ambiguous chs i (nm_kind n)
        \<and> nm_start_ms n = start_ms (chs ! i)
        \<and> 15000 \<le> nm_end_ms n - nm_start_ms n
        \<and> nm_end_ms n - nm_start_ms n \<le> (if nm_kind n = ''credits'' then 450000 else 120000)
        \<and> (0 < duration \<longrightarrow> nm_end_ms n \<le> duration))
   \<and> (\<forall>i < length chs. \<forall>c. candidate_at chs duration i = Some c \<longrightarrow>
        nm_kind c \<in> nm_kind ` set (named chs duration))"
proof (intro conjI ballI allI impI)
  have "sorted_wrt (\<lambda>a b. start_cmp a b \<noteq> Greater) (named chs duration)"
    unfolding named_def by (rule boundaries.sorted_sort_by)
  then show "sorted (map nm_start_ms (named chs duration))"
    unfolding sorted_map by (rule sorted_wrt_mono_rel [rotated]) (simp add: start_cmp_def not_less)
  have "mset (map nm_kind (named chs duration)) = mset (map nm_kind
      (filter_map (pick_kind (named_candidates chs duration)) [''recap'', ''intro'', ''credits'']))"
    by (simp only: named_def mset_map boundaries.mset_sort_by)
  moreover have "distinct [''recap'', ''intro'', ''credits'']" by simp
  ultimately show "distinct (map nm_kind (named chs duration))"
    using pick_kinds_distinct mset_eq_imp_distinct_iff by blast
next
  fix n assume "n \<in> set (named chs duration)"
  then have "n \<in> set (named_candidates chs duration)"
    unfolding set_named using pick_kind_Some(1) by blast
  then obtain i where i: "i < length chs" and c: "candidate_at chs duration i = Some n"
    by (auto simp: named_candidates_def set_filter_map)
  note at = candidate_at_Some [OF c]
  have "0 < duration \<Longrightarrow> nm_end_ms n \<le> duration"
    using chapter_end_capped [of duration chs i] at(3,4,5) by simp
  with i at show "\<exists>i < length chs.
        chapter_kind (chs ! i) = Some (nm_kind n) \<and> \<not> ambiguous chs i (nm_kind n)
        \<and> nm_start_ms n = start_ms (chs ! i)
        \<and> 15000 \<le> nm_end_ms n - nm_start_ms n
        \<and> nm_end_ms n - nm_start_ms n \<le> (if nm_kind n = ''credits'' then 450000 else 120000)
        \<and> (0 < duration \<longrightarrow> nm_end_ms n \<le> duration)"
    by (intro exI [of _ i]) (auto simp: kind_bounds_def bound_defs split: if_splits)
next
  fix i c assume "i < length chs" and c: "candidate_at chs duration i = Some c"
  then have mem: "c \<in> set (named_candidates chs duration)"
    by (auto simp: named_candidates_def set_filter_map)
  obtain t where "kind_of t = Some (nm_kind c)"
    using candidate_at_Some(1) [OF c] by (auto simp: chapter_kind_def bind_eq_Some_conv)
  then have k: "nm_kind c \<in> {''recap'', ''intro'', ''credits''}" by (rule kind_of_range)
  obtain n where n: "pick_kind (named_candidates chs duration) (nm_kind c) = Some n"
    using mem pick_kind_None by (cases "pick_kind (named_candidates chs duration) (nm_kind c)") auto
  then have "nm_kind n = nm_kind c" by (rule pick_kind_Some(2))
  with n k have "n \<in> set (named chs duration)" by (simp add: set_named)
  with \<open>nm_kind n = nm_kind c\<close> show "nm_kind c \<in> nm_kind ` set (named chs duration)"
    by (metis imageI)
qed

text \<open>Witness of C11.\<close>

theorem named_sound_witness:
  "\<exists>n \<in> set (named sample_chapters 2417270). nm_kind n = ''credits''"
proof -
  have k: "chapter_kind (sample_chapters ! 2) = Some ''credits''" "chapter_kind (sample_chapters ! 1) = None"
    by (simp_all add: sample_chapters_def chapter_kind_def kind_of_def trim_def trim_start_def
      to_ascii_lowercase_def ascii_lower_def split_ascii_whitespace_def has_word_def title_word_def
      strip_prefix_def starts_with_def ends_with_def is_ws_def is_ascii_ws_def Let_def less_eq_char_def)
  have "candidate_at sample_chapters 2417270 2
      = Some \<lparr>nm_kind = ''credits'', nm_start_ms = 2198667, nm_end_ms = 2417270\<rparr>"
    using k by (simp add: candidate_at_def ambiguous_def chapter_end_def kind_bounds_def bound_defs
      get_def Let_def) (simp add: sample_chapters_def)
  moreover have "2 < length sample_chapters" by (simp add: sample_chapters_def)
  ultimately have "''credits'' \<in> nm_kind ` set (named sample_chapters 2417270)"
    using named_sound [of sample_chapters 2417270] by fastforce
  then show ?thesis by fastforce
qed

text \<open>The persisted mask says what the boundaries say: each of its three bits is set exactly
  when \<open>named\<close> answers a boundary of that kind, so a source reads as chapter-complete exactly when
  its chapters name both an intro and credits.\<close>

theorem named_kind_mask_exact:
  "(bit (named_kind_mask chs duration) 0 \<longleftrightarrow> ''recap'' \<in> nm_kind ` set (named chs duration))
   \<and> (bit (named_kind_mask chs duration) 1 \<longleftrightarrow> ''intro'' \<in> nm_kind ` set (named chs duration))
   \<and> (bit (named_kind_mask chs duration) 2 \<longleftrightarrow> ''credits'' \<in> nm_kind ` set (named chs duration))"
  unfolding named_kind_mask_bit kind_bits One_nat_def
  by (intro conjI) (auto intro: rev_image_eqI)

text \<open>What the hub accepts from a mediahost is skippable: an inferred boundary that passes lies
  inside the file, is between 10 and 450 seconds long and names a known kind; a recap starts the
  file, an intro starts in its first quarter (or anywhere in a file under five minutes) and is at
  most 122 seconds long, and credits start in the last 450 seconds.\<close>

theorem inferred_bounds_sound:
  assumes "inferred_within_bounds kind analyzer start stop duration"
  shows "start < stop \<and> stop \<le> duration
       \<and> 10000 \<le> stop - start \<and> stop - start \<le> 450000
       \<and> kind \<in> {''recap'', ''intro'', ''credits''}
       \<and> (kind = ''recap'' \<longrightarrow> start = 0 \<and> stop \<le> 120000)
       \<and> (kind = ''intro'' \<longrightarrow> stop - start \<le> 122000
            \<and> (duration < 300000 \<or> start \<le> duration div 4 \<and> start \<le> 600000))
       \<and> (kind = ''credits'' \<longrightarrow> duration \<le> start + 450000)"
  using assms by (auto simp: inferred_within_bounds_def bound_defs Let_def split: if_splits)

text \<open>Witness.\<close>

theorem inferred_bounds_sound_witness: "(1300000::nat) \<le> 900000 + 450000"
proof -
  have "inferred_within_bounds ''credits'' ''chromaprint'' 900000 1290000 1300000"
    by (simp add: inferred_within_bounds_def bound_defs saturating_add_def U64_MAX_def)
  from inferred_bounds_sound [OF this] show ?thesis by simp
qed

end
