(* ===== verification/Job_Codec.thy ===== *)
theory Job_Codec
  imports Remux_Plan
begin

text \<open>
  One pipeline run and its wire spelling, \<open>crates/kahawai-playback/src/job.rs\<close>: the hub encodes a
  \<open>Job\<close> (here \<open>PipelineJob\<close>) as \<open>StartSession\<close> (a message of \<open>crates/kahawai-proto/proto\<close>), the transcoder decodes it.

  An index the code casts (\<open>as u32\<close>) is \<open>of_nat\<close> into 32 bits, and \<open>n as u32 + 1\<close> wraps. A double
  on the wire is a finite number or one of the values \<open>is_finite\<close> refuses. Reading a payload held as
  a file is the argument \<open>read_file\<close>.
\<close>

section \<open>Definitions\<close>

datatype 'e job_error = NoParts | PayloadUnread 'e | TooManyGains nat

datatype wire_f64 = Finite f64 | NaN | Infinite bool

fun finite_f64 :: "wire_f64 \<Rightarrow> f64 option" where
  "finite_f64 (Finite x) = Some x"
| "finite_f64 NaN = None"
| "finite_f64 (Infinite _) = None"

datatype Payload = PayloadBytes "u8 list" | PayloadPath string

fun payload_read :: "(string \<Rightarrow> 'e + u8 list) \<Rightarrow> Payload \<Rightarrow> 'e + u8 list" where
  "payload_read read_file (PayloadBytes bytes) = Inr bytes"
| "payload_read read_file (PayloadPath path) = read_file path"

record PipelineJob =
  j_plan :: RemuxPlan
  j_part_sizes :: "u64 list"
  j_start_ms :: u64
  j_sink :: "string option"
  j_burn_sets :: "Payload option"
  j_burn_ass :: "Payload option"
  j_target_duration_secs :: "u32 option"

record wire_gain =
  wg_channels :: u32
  wg_channel_mask :: u64
  wg_gain_db :: f64

record StartSession =
  w_session_id :: string
  w_size :: u64
  w_video :: string
  w_audio :: string
  w_audio_track :: u32
  w_video_track :: u32
  w_start_ms :: u64
  w_sink :: string
  w_tail_sizes :: "u64 list"
  w_video_kbps :: u32
  w_max_height :: u32
  w_max_bit_depth :: u32
  w_max_channels :: u32
  w_stereo_gain_db :: "wire_f64 option"
  w_native_gain_db :: "wire_f64 option"
  w_loudness_source_channels :: "u32 option"
  w_loudness_gains :: "wire_gain list"
  w_tone_map :: bool
  w_deinterlace :: bool
  w_burn_subtitle :: u32
  w_burn_sets :: "u8 list"
  w_burn_ass :: u32
  w_burn_ass_file :: "u8 list"
  w_video_codec :: string
  w_audio_codec :: string
  w_container :: string
  w_target_duration_secs :: u32

definition exact_gains :: "PipelineJob \<Rightarrow> AudioLayoutGain list" where
  "exact_gains job = filter_map id (pl_loudness_gains (j_plan job))"

text \<open>The fixed slots; more gains than slots are refused.\<close>

definition layout_gains :: "AudioLayoutGain list \<Rightarrow> 'e job_error + AudioLayoutGain option list" where
  "layout_gains gains =
     (if length gains > MAX_LAYOUT_GAINS then Inl (TooManyGains (length gains))
      else Inr (map Some gains @ replicate (MAX_LAYOUT_GAINS - length gains) None))"

definition wire_payload ::
    "(string \<Rightarrow> 'e + u8 list) \<Rightarrow> Payload option \<Rightarrow> 'e job_error + u8 list" where
  "wire_payload read_file p =
     (case p of
        None \<Rightarrow> Inr []
      | Some q \<Rightarrow> (case payload_read read_file q of Inl e \<Rightarrow> Inl (PayloadUnread e) | Inr b \<Rightarrow> Inr b))"

definition wire_index :: "nat option \<Rightarrow> u32" where
  "wire_index i = map_or i 0 (\<lambda>n. of_nat n + 1)"

definition start_session_of :: "string \<Rightarrow> PipelineJob \<Rightarrow> u8 list \<Rightarrow> u8 list \<Rightarrow> StartSession" where
  "start_session_of session_id job sets ass =
     (let plan = j_plan job in
      \<lparr>w_session_id = session_id,
       w_size = hd (j_part_sizes job),
       w_video = mode_arg (pl_video plan),
       w_audio = mode_arg (pl_audio plan),
       w_audio_track = of_nat (pl_audio_track plan),
       w_video_track = of_nat (pl_video_track plan),
       w_start_ms = j_start_ms job,
       w_sink = unwrap_or (j_sink job) [],
       w_tail_sizes = tl (j_part_sizes job),
       w_video_kbps = unwrap_or (pl_video_kbps plan) 0,
       w_max_height = unwrap_or (pl_max_height plan) 0,
       w_max_bit_depth = unwrap_or (pl_max_bit_depth plan) 0,
       w_max_channels = unwrap_or (pl_max_channels plan) 0,
       w_stereo_gain_db = Some (map_or (pl_stereo_gain_db plan) NaN Finite),
       w_native_gain_db = Some (map_or (pl_native_gain_db plan) NaN Finite),
       w_loudness_source_channels = Some (unwrap_or (pl_loudness_source_channels plan) 0),
       w_loudness_gains = map (\<lambda>g. \<lparr>wg_channels = al_channels (g_layout g),
           wg_channel_mask = al_channel_mask (g_layout g), wg_gain_db = g_gain_db g\<rparr>) (exact_gains job),
       w_tone_map = pl_tone_map plan,
       w_deinterlace = pl_deinterlace plan,
       w_burn_subtitle = wire_index (pl_burn_subtitle plan),
       w_burn_sets = sets,
       w_burn_ass = wire_index (pl_burn_ass plan),
       w_burn_ass_file = ass,
       w_video_codec = VideoTarget_as_str (pl_video_codec plan),
       w_audio_codec = AudioTarget_as_str (pl_audio_codec plan),
       w_container = SegmentFormat_as_str (pl_segment_format plan),
       w_target_duration_secs = unwrap_or (j_target_duration_secs job) 0\<rparr>)"

definition to_start_session ::
    "(string \<Rightarrow> 'e + u8 list) \<Rightarrow> PipelineJob \<Rightarrow> string \<Rightarrow> 'e job_error + StartSession" where
  "to_start_session read_file job session_id =
     (if j_part_sizes job = [] then Inl NoParts
      else (case wire_payload read_file (j_burn_sets job) of
              Inl e \<Rightarrow> Inl e
            | Inr sets \<Rightarrow> (case wire_payload read_file (j_burn_ass job) of
                  Inl e \<Rightarrow> Inl e
                | Inr ass \<Rightarrow> Inr (start_session_of session_id job sets ass))))"

definition positive :: "u32 \<Rightarrow> u32 option" where
  "positive v = then_some (v > 0) v"

definition index_of_wire :: "u32 \<Rightarrow> nat option" where
  "index_of_wire v = map_option (\<lambda>n. unat (n - 1)) (positive v)"

definition from_start_session :: "StartSession \<Rightarrow> 'e job_error + PipelineJob" where
  "from_start_session msg =
     (let exact = map (\<lambda>g. \<lparr>g_layout = layout_new (wg_channels g) (wg_channel_mask g),
                            g_gain_db = wg_gain_db g\<rparr>) (w_loudness_gains msg)
      in case layout_gains exact of
           Inl e \<Rightarrow> Inl e
         | Inr slots \<Rightarrow> Inr
             \<lparr>j_plan =
                \<lparr>pl_video = parse_mode (w_video msg),
                 pl_audio = parse_mode (w_audio msg),
                 pl_audio_track = unat (w_audio_track msg),
                 pl_video_track = unat (w_video_track msg),
                 pl_video_kbps = positive (w_video_kbps msg),
                 pl_max_height = positive (w_max_height msg),
                 pl_max_bit_depth = positive (w_max_bit_depth msg),
                 pl_tone_map = w_tone_map msg,
                 pl_deinterlace = w_deinterlace msg,
                 pl_burn_subtitle = index_of_wire (w_burn_subtitle msg),
                 pl_burn_ass = index_of_wire (w_burn_ass msg),
                 pl_max_channels = positive (w_max_channels msg),
                 pl_stereo_gain_db = Option.bind (w_stereo_gain_db msg) finite_f64,
                 pl_native_gain_db = Option.bind (w_native_gain_db msg) finite_f64,
                 pl_loudness_source_channels = Option.bind (w_loudness_source_channels msg) positive,
                 pl_loudness_gains = slots,
                 pl_video_codec = VideoTarget_from_str (w_video_codec msg),
                 pl_audio_codec = AudioTarget_from_str (w_audio_codec msg),
                 pl_segment_format = SegmentFormat_from_str (w_container msg)\<rparr>,
              j_part_sizes = w_size msg # w_tail_sizes msg,
              j_start_ms = w_start_ms msg,
              j_sink = then_some (w_sink msg \<noteq> []) (w_sink msg),
              j_burn_sets = then_some (w_burn_sets msg \<noteq> []) (PayloadBytes (w_burn_sets msg)),
              j_burn_ass = then_some (w_burn_ass_file msg \<noteq> []) (PayloadBytes (w_burn_ass_file msg)),
              j_target_duration_secs = positive (w_target_duration_secs msg)\<rparr>)"

subsection \<open>What the wire can carry\<close>

text \<open>The jobs whose spelling is unambiguous: zero is the absent value of the ceilings, the empty
  string of the sink and the empty sequence of the payloads, indexes are 1-based in 32 bits, and
  the gains fill the slots from the front with canonical layouts.\<close>

definition nonzero :: "u32 option \<Rightarrow> bool" where
  "nonzero x \<longleftrightarrow> x \<noteq> Some 0"

definition wire_plan :: "RemuxPlan \<Rightarrow> bool" where
  "wire_plan p \<longleftrightarrow>
     pl_audio_track p < 2 ^ 32 \<and> pl_video_track p < 2 ^ 32
   \<and> nonzero (pl_video_kbps p) \<and> nonzero (pl_max_height p) \<and> nonzero (pl_max_bit_depth p)
   \<and> nonzero (pl_max_channels p) \<and> nonzero (pl_loudness_source_channels p)
   \<and> is_none_or (pl_burn_subtitle p) (\<lambda>n. n < 2 ^ 32 - 1)
   \<and> is_none_or (pl_burn_ass p) (\<lambda>n. n < 2 ^ 32 - 1)
   \<and> (\<exists>gains. length gains \<le> MAX_LAYOUT_GAINS
        \<and> (\<forall>g \<in> set gains. layout_new (al_channels (g_layout g)) (al_channel_mask (g_layout g)) = g_layout g)
        \<and> pl_loudness_gains p = map Some gains @ replicate (MAX_LAYOUT_GAINS - length gains) None)"

definition payload_bytes :: "(string \<Rightarrow> 'e + u8 list) \<Rightarrow> Payload option \<Rightarrow> u8 list option \<Rightarrow> bool" where
  "payload_bytes read_file p b \<longleftrightarrow>
     (case p of None \<Rightarrow> b = None
      | Some q \<Rightarrow> (\<exists>bytes. payload_read read_file q = Inr bytes \<and> bytes \<noteq> [] \<and> b = Some bytes))"

text \<open>A run of two parts with a display-set file, a burn pick and a measured gain.\<close>

definition sample_gain :: AudioLayoutGain where
  "sample_gain = \<lparr>g_layout = \<lparr>al_channels = 2, al_channel_mask = 3\<rparr>, g_gain_db = -3\<rparr>"

definition sample_job :: PipelineJob where
  "sample_job =
     \<lparr>j_plan = RemuxPlan_default\<lparr>pl_video := Encode, pl_audio := Encode, pl_max_channels := Some 2,
        pl_burn_subtitle := Some 0, pl_stereo_gain_db := Some (-3),
        pl_loudness_gains := Some sample_gain # replicate (MAX_LAYOUT_GAINS - 1) None\<rparr>,
      j_part_sizes = [700, 900], j_start_ms = 0, j_sink = None,
      j_burn_sets = Some (PayloadPath ''sets''), j_burn_ass = None,
      j_target_duration_secs = Some 2\<rparr>"

section \<open>Lemmas\<close>

lemma positive_wire: "nonzero x \<Longrightarrow> positive (unwrap_or x 0) = x"
  by (cases x) (auto simp: nonzero_def positive_def then_some_def word_gt_0)

lemma finite_wire: "finite_f64 (map_or x NaN Finite) = x"
  by (cases x) simp_all

lemma track_wire: "n < 2 ^ 32 \<Longrightarrow> unat (of_nat n :: u32) = n"
  by (simp add: unat_of_nat take_bit_nat_eq_self)

lemma index_wire:
  assumes "is_none_or i (\<lambda>n. n < 2 ^ 32 - 1)"
  shows "index_of_wire (wire_index i) = i"
proof (cases i)
  case None
  then show ?thesis by (simp add: index_of_wire_def wire_index_def positive_def)
next
  case (Some n)
  then have n: "n < 2 ^ 32 - 1" using assms by simp
  then have "unat (of_nat (n + 1) :: u32) = n + 1" by (intro track_wire) simp
  then have "(of_nat n + 1 :: u32) \<noteq> 0" using unat_eq_0 [of "of_nat (n + 1) :: u32"]
    by (simp add: add.commute)
  moreover have "unat (of_nat n + 1 - 1 :: u32) = n" using n by (simp add: track_wire)
  ultimately show ?thesis
    using Some by (simp add: index_of_wire_def wire_index_def positive_def word_gt_0)
qed

lemma exact_slots:
  "filter_map id (map Some gains @ replicate n None) = gains"
  by (induction gains) (induction n, simp_all)

lemma wire_payload_bytes:
  assumes "payload_bytes read_file p b"
  shows "wire_payload read_file p = Inr (unwrap_or b [])"
    and "then_some (unwrap_or b [] \<noteq> []) (PayloadBytes (unwrap_or b [])) = map_option PayloadBytes b"
  using assms by (auto simp: payload_bytes_def wire_payload_def then_some_def split: option.splits)

lemma layout_gains_wire:
  assumes "length gains \<le> MAX_LAYOUT_GAINS"
    and "\<forall>g \<in> set gains. layout_new (al_channels (g_layout g)) (al_channel_mask (g_layout g)) = g_layout g"
  shows "layout_gains (map (\<lambda>g. \<lparr>g_layout = layout_new (wg_channels g) (wg_channel_mask g), g_gain_db = wg_gain_db g\<rparr>)
           (map (\<lambda>g. \<lparr>wg_channels = al_channels (g_layout g), wg_channel_mask = al_channel_mask (g_layout g),
              wg_gain_db = g_gain_db g\<rparr>) gains))
       = Inr (map Some gains @ replicate (MAX_LAYOUT_GAINS - length gains) None)"
proof -
  have "map (\<lambda>g. \<lparr>g_layout = layout_new (wg_channels g) (wg_channel_mask g), g_gain_db = wg_gain_db g\<rparr>)
           (map (\<lambda>g. \<lparr>wg_channels = al_channels (g_layout g), wg_channel_mask = al_channel_mask (g_layout g),
              wg_gain_db = g_gain_db g\<rparr>) gains) = gains"
    using assms(2) by (induction gains) simp_all
  with assms(1) show ?thesis by (simp only: layout_gains_def not_less [symmetric] if_False simp_thms)
qed

section \<open>Properties\<close>

text \<open>C10. The wire round trip. A job whose values the wire can carry is decoded by the transcoder as
  the job the hub encoded, with the payloads it read in the place of the files: the plan, the part
  sizes and their order, the start, the sink, the burn indexes, the gains and the runway all
  survive.\<close>

theorem start_session_roundtrip:
  assumes "wire_plan (j_plan job)" and "j_part_sizes job \<noteq> []" and "j_sink job \<noteq> Some []"
    and "nonzero (j_target_duration_secs job)"
    and "payload_bytes read_file (j_burn_sets job) sets" and "payload_bytes read_file (j_burn_ass job) ass"
  shows "\<exists>msg. to_start_session read_file job session_id = Inr msg
       \<and> from_start_session msg
           = Inr (job\<lparr>j_burn_sets := map_option PayloadBytes sets, j_burn_ass := map_option PayloadBytes ass\<rparr>)"
proof -
  let ?msg = "start_session_of session_id job (unwrap_or sets []) (unwrap_or ass [])"
  obtain gains where "length gains \<le> MAX_LAYOUT_GAINS"
    "\<forall>g \<in> set gains. layout_new (al_channels (g_layout g)) (al_channel_mask (g_layout g)) = g_layout g"
    and slots: "pl_loudness_gains (j_plan job) = map Some gains @ replicate (MAX_LAYOUT_GAINS - length gains) None"
    using assms(1) by (auto simp: wire_plan_def)
  note gains = layout_gains_wire [OF this(1,2)]
  have exact: "exact_gains job = gains" unfolding exact_gains_def slots by (rule exact_slots)
  have sink: "then_some (unwrap_or (j_sink job) [] \<noteq> []) (unwrap_or (j_sink job) []) = j_sink job"
    using assms(3) by (cases "j_sink job") (auto simp: then_some_def)
  have to: "to_start_session read_file job session_id = Inr ?msg"
    using assms(2) by (simp add: to_start_session_def wire_payload_bytes(1) [OF assms(5)]
        wire_payload_bytes(1) [OF assms(6)])
  have "from_start_session ?msg
      = Inr (job\<lparr>j_burn_sets := map_option PayloadBytes sets, j_burn_ass := map_option PayloadBytes ass\<rparr>)"
    using assms(1,2,4) slots
    unfolding from_start_session_def start_session_of_def Let_def StartSession.simps exact gains sum.case
      wire_payload_bytes(2) [OF assms(5)] wire_payload_bytes(2) [OF assms(6)] sink
    by (simp add: wire_plan_def positive_wire finite_wire track_wire index_wire codec_simps)
  with to show ?thesis by blast
qed

text \<open>Witness of C10.\<close>

theorem start_session_roundtrip_witness:
  "\<exists>msg. to_start_session (\<lambda>_. Inr [1] :: unit + u8 list) sample_job ''s'' = Inr msg
     \<and> from_start_session msg
         = (Inr (sample_job\<lparr>j_burn_sets := Some (PayloadBytes [1])\<rparr>) :: unit job_error + PipelineJob)"
proof -
  have slots: "pl_loudness_gains (j_plan sample_job)
      = map Some [sample_gain] @ replicate (MAX_LAYOUT_GAINS - length [sample_gain]) None"
    by (simp add: sample_job_def)
  have "wire_plan (j_plan sample_job)"
    unfolding wire_plan_def
  proof (intro conjI exI [of _ "[sample_gain]"])
    show "pl_loudness_gains (j_plan sample_job)
      = map Some [sample_gain] @ replicate (MAX_LAYOUT_GAINS - length [sample_gain]) None" by (rule slots)
  qed (simp_all add: sample_job_def RemuxPlan_default_def nonzero_def sample_gain_def layout_new_def
      MAX_LAYOUT_GAINS_def)
  moreover have "j_part_sizes sample_job \<noteq> []" "j_sink sample_job \<noteq> Some []"
    "nonzero (j_target_duration_secs sample_job)"
    "payload_bytes (\<lambda>_. Inr [1] :: unit + u8 list) (j_burn_sets sample_job) (Some [1])"
    "payload_bytes (\<lambda>_. Inr [1] :: unit + u8 list) (j_burn_ass sample_job) None"
    by (simp_all add: sample_job_def nonzero_def payload_bytes_def)
  moreover have "sample_job\<lparr>j_burn_sets := Some (PayloadBytes [1]), j_burn_ass := None\<rparr>
      = sample_job\<lparr>j_burn_sets := Some (PayloadBytes [1])\<rparr>" by (simp add: sample_job_def)
  ultimately show ?thesis
    using start_session_roundtrip [of sample_job "\<lambda>_. Inr [1] :: unit + u8 list" "Some [1]" None "''s''"]
    by simp
qed

end
