(* ===== verification/Timeline.thy ===== *)
theory Timeline
  imports Kahawai_Prelude Media_Model
begin

text \<open>
  Seeking on a multi-part timeline (\<open>crates/kahawai-playback/src/seek.rs\<close>) and the readiness runway
  of a playlist (\<open>crates/kahawai-playback/src/playlist.rs\<close>). The trait \<open>TimelinePart\<close> is a record of
  its two answers.
\<close>

section \<open>Definitions\<close>

record TimelinePart =
  tp_base_ms :: nat
  tp_module_id :: string

text \<open>\<open>Iterator::rposition\<close>.\<close>

fun rposition :: "('a \<Rightarrow> bool) \<Rightarrow> 'a list \<Rightarrow> nat option" where
  "rposition p [] = None"
| "rposition p (x # xs) =
     (case rposition p xs of Some i \<Rightarrow> Some (Suc i) | None \<Rightarrow> if p x then Some 0 else None)"

definition part_index :: "TimelinePart list \<Rightarrow> nat \<Rightarrow> nat" where
  "part_index parts abs_ms = unwrap_or (rposition (\<lambda>part. abs_ms \<ge> tp_base_ms part) parts) 0"

definition reads_from :: "string \<Rightarrow> TimelinePart list \<Rightarrow> string \<Rightarrow> bool" where
  "reads_from start_host parts module_id =
     (start_host = module_id \<or> list_ex (\<lambda>part. tp_module_id part = module_id) parts)"

record PendingSeek =
  ps_generation :: nat
  ps_position_ms :: nat
  ps_audio_track :: "u32 option"
  ps_video_track :: "u32 option"
  ps_replan_subs :: bool

definition merge :: "PendingSeek option \<Rightarrow> PendingSeek \<Rightarrow> PendingSeek" where
  "merge prev next =
     (case prev of
        Some p \<Rightarrow> next\<lparr>ps_audio_track := opt_or (ps_audio_track next) (ps_audio_track p),
                       ps_video_track := opt_or (ps_video_track next) (ps_video_track p),
                       ps_replan_subs := (ps_replan_subs next \<or> ps_replan_subs p)\<rparr>
      | None \<Rightarrow> next)"

text \<open>A burst of intents, oldest first, as the seek handler coalesces it.\<close>

definition coalesce :: "PendingSeek list \<Rightarrow> PendingSeek option" where
  "coalesce intents = foldl (\<lambda>pending intent. Some (merge pending intent)) None intents"

subsection \<open>Runway\<close>

definition MAX_RUNWAY_SECS :: f64 where "MAX_RUNWAY_SECS = 30"
definition FLOOR_RUNWAY_SECS :: f64 where "FLOOR_RUNWAY_SECS = 13 / 2"

definition runway_secs :: "u32 option \<Rightarrow> f64" where
  "runway_secs target_duration_secs =
     (case target_duration_secs of
        Some tgt \<Rightarrow>
          if tgt > 0 then max FLOOR_RUNWAY_SECS (min (3 * of_nat (unat tgt)) MAX_RUNWAY_SECS)
          else FLOOR_RUNWAY_SECS
      | None \<Rightarrow> FLOOR_RUNWAY_SECS)"

section \<open>Lemmas\<close>

lemma rposition_None: "rposition p xs = None \<longleftrightarrow> (\<forall>x \<in> set xs. \<not> p x)"
  by (induction xs) (auto split: option.splits)

lemma rposition_Some:
  "rposition p xs = Some i \<Longrightarrow> i < length xs \<and> p (xs ! i) \<and> (\<forall>j. i < j \<and> j < length xs \<longrightarrow> \<not> p (xs ! j))"
proof (induction xs arbitrary: i)
  case Nil
  then show ?case by simp
next
  case (Cons x xs)
  show ?case
  proof (cases "rposition p xs")
    case None
    then have "\<not> p (xs ! j)" if "j < length xs" for j
      using that rposition_None nth_mem by metis
    with None Cons.prems show ?thesis by (auto simp: nth_Cons split: if_splits nat.splits)
  next
    case (Some k)
    with Cons.prems have "i = Suc k" by simp
    with Cons.IH [OF Some] show ?thesis by (auto simp: nth_Cons split: nat.splits)
  qed
qed

lemma opt_or_assoc: "opt_or (opt_or x y) z = opt_or x (opt_or y z)"
  by (cases x) simp_all

text \<open>The newest explicit choice of a burst.\<close>

definition newest :: "'a option list \<Rightarrow> 'a option" where
  "newest xs = foldl (\<lambda>old new. opt_or new old) None xs"

lemma newest_snoc: "newest (xs @ [x]) = opt_or x (newest xs)"
  by (simp add: newest_def)

lemma coalesce_snoc: "coalesce (xs @ [x]) = Some (merge (coalesce xs) x)"
  by (simp add: coalesce_def)

lemma opt_or_None: "opt_or x None = x"
  by (cases x) simp_all

definition sample_parts :: "TimelinePart list" where
  "sample_parts = [\<lparr>tp_base_ms = 0, tp_module_id = ''a''\<rparr>, \<lparr>tp_base_ms = 3000, tp_module_id = ''b''\<rparr>]"

section \<open>Properties\<close>

text \<open>A seek lands in the part that contains it. On a timeline whose bases ascend from the
  first part, the index is in range and the parts that begin at or before the position are exactly
  those up to it: the boundary belongs to the next part, and a position past the end to the last.\<close>

theorem part_index_exact:
  assumes "sorted (map tp_base_ms parts)" and "parts \<noteq> []" and "tp_base_ms (hd parts) \<le> abs_ms"
  shows "part_index parts abs_ms < length parts
       \<and> (\<forall>j < length parts. j \<le> part_index parts abs_ms \<longleftrightarrow> tp_base_ms (parts ! j) \<le> abs_ms)"
proof -
  have "rposition (\<lambda>part. abs_ms \<ge> tp_base_ms part) parts \<noteq> None"
    unfolding rposition_None using assms(2,3) hd_in_set by blast
  then obtain i where i: "rposition (\<lambda>part. abs_ms \<ge> tp_base_ms part) parts = Some i" by blast
  note at = rposition_Some [OF i]
  have "tp_base_ms (parts ! j) \<le> abs_ms" if "j \<le> i" for j
    using sorted_nth_mono [OF assms(1), of j i] at that by simp
  with at have "\<forall>j < length parts. j \<le> i \<longleftrightarrow> tp_base_ms (parts ! j) \<le> abs_ms"
    using not_le by blast
  with i at show ?thesis by (simp add: part_index_def)
qed

text \<open>Witness.\<close>

theorem part_index_exact_witness: "part_index sample_parts 3000 = 1"
proof -
  have "sorted (map tp_base_ms sample_parts)" "sample_parts \<noteq> []" "tp_base_ms (hd sample_parts) \<le> 3000"
    by (simp_all add: sample_parts_def)
  from part_index_exact [OF this] have "part_index sample_parts 3000 < 2" "1 \<le> part_index sample_parts 3000"
    by (auto simp: sample_parts_def)
  then show ?thesis by simp
qed

text \<open>Coalescing a burst of seeks loses no choice: the result has the position and generation of
  the newest intent, the newest explicit audio and video choice of the whole burst, and re-plans
  subtitles when any intent asked to.\<close>

theorem coalesce_burst:
  "coalesce (intents @ [final]) = Some
     \<lparr>ps_generation = ps_generation final, ps_position_ms = ps_position_ms final,
      ps_audio_track = newest (map ps_audio_track (intents @ [final])),
      ps_video_track = newest (map ps_video_track (intents @ [final])),
      ps_replan_subs = list_ex ps_replan_subs (intents @ [final])\<rparr>"
proof (induction intents arbitrary: final rule: rev_induct)
  case Nil
  then show ?case by (simp add: coalesce_def merge_def newest_def opt_or_None)
next
  case (snoc x xs)
  show ?case
    unfolding coalesce_snoc [of "xs @ [x]"] snoc.IH [of x] merge_def map_append list.map newest_snoc
    by (simp add: disj_commute disj_left_commute)
qed

end
