(* ===== verification/Admission.thy ===== *)
theory Admission
  imports Kahawai_Prelude
begin

text \<open>
  The per-user session cap, \<open>crates/kahawai-hub/src/sessions/admission.rs\<close>: \<open>admit\<close>, \<open>release\<close>, the
  slot guard that \<open>start\<close> (\<open>sessions/start.rs\<close>) holds across every exit, and the inserts into and
  removals from \<open>active\<close>. Both maps are association lists with distinct ids; each operation below is
  one critical section of the source, so any interleaving of concurrent starts is a path of
  \<open>admission_step\<close>.
\<close>

section \<open>Definitions\<close>

datatype session_cap = SessionCap nat

record AdmissionState =
  reserved :: "(string \<times> string) list"
  active :: "(string \<times> string) list"
  max_per_user :: nat

text \<open>\<open>active\<close> holds the user of each session; the rest of a session does not matter here.\<close>

definition held_by :: "AdmissionState \<Rightarrow> string \<Rightarrow> nat" where
  "held_by st user =
     length (filter (\<lambda>(_, u). u = user) (reserved st))
     + length (filter (\<lambda>(i, u). u = user \<and> i \<notin> fst ` set (reserved st)) (active st))"

definition hm_remove :: "string \<Rightarrow> (string \<times> string) list \<Rightarrow> (string \<times> string) list" where
  "hm_remove i m = filter (\<lambda>(k, _). k \<noteq> i) m"

definition hm_insert :: "string \<Rightarrow> string \<Rightarrow> (string \<times> string) list \<Rightarrow> (string \<times> string) list" where
  "hm_insert i u m = (i, u) # hm_remove i m"

definition admit :: "string \<Rightarrow> string \<Rightarrow> AdmissionState \<Rightarrow> session_cap + AdmissionState" where
  "admit i user st =
     (let held = held_by st user in
      if held \<ge> max_per_user st then Inl (SessionCap held)
      else Inr (st\<lparr>reserved := hm_insert i user (reserved st)\<rparr>))"

definition release :: "string \<Rightarrow> AdmissionState \<Rightarrow> AdmissionState" where
  "release i st = st\<lparr>reserved := hm_remove i (reserved st)\<rparr>"

text \<open>The end of \<open>start_inner\<close>: the session enters \<open>active\<close> under its id, while the guard still holds
  the slot that \<open>admit\<close> took for its user.\<close>

definition activate :: "string \<Rightarrow> string \<Rightarrow> AdmissionState \<Rightarrow> AdmissionState" where
  "activate i user st = st\<lparr>active := hm_insert i user (active st)\<rparr>"

definition end_session :: "string \<Rightarrow> AdmissionState \<Rightarrow> AdmissionState" where
  "end_session i st = st\<lparr>active := hm_remove i (active st)\<rparr>"

text \<open>A start mints a fresh id (a ULID), admits it, perhaps activates it, and drops its guard.\<close>

inductive admission_step :: "AdmissionState \<Rightarrow> AdmissionState \<Rightarrow> bool" where
  Admit: "i \<notin> fst ` set (reserved st) \<union> fst ` set (active st) \<Longrightarrow> admit i user st = Inr st'
      \<Longrightarrow> admission_step st st'"
| Activate: "(i, user) \<in> set (reserved st) \<Longrightarrow> i \<notin> fst ` set (active st)
      \<Longrightarrow> admission_step st (activate i user st)"
| Drop: "admission_step st (release i st)"
| End: "admission_step st (end_session i st)"

inductive_cases admission_stepE: "admission_step st st'"

definition admission_init :: "nat \<Rightarrow> AdmissionState \<Rightarrow> bool" where
  "admission_init cap st \<longleftrightarrow> reserved st = [] \<and> active st = [] \<and> max_per_user st = cap"

text \<open>The sessions a user holds: the union of both maps.\<close>

definition sessions_of :: "AdmissionState \<Rightarrow> string \<Rightarrow> string set" where
  "sessions_of st user =
     {i. (i, user) \<in> set (reserved st)} \<union> {i. (i, user) \<in> set (active st)}"

definition admission_ok :: "nat \<Rightarrow> AdmissionState \<Rightarrow> bool" where
  "admission_ok cap st \<longleftrightarrow>
     distinct (map fst (reserved st)) \<and> distinct (map fst (active st))
   \<and> (\<forall>i u v. (i, u) \<in> set (reserved st) \<and> (i, v) \<in> set (active st) \<longrightarrow> u = v)
   \<and> max_per_user st = cap
   \<and> (\<forall>user. card (sessions_of st user) \<le> cap)"

section \<open>Lemmas\<close>

lemma hm_simps [simp]:
  "set (hm_remove i m) = {(k, u) \<in> set m. k \<noteq> i}"
  "set (hm_insert i u m) = insert (i, u) {(k, w) \<in> set m. k \<noteq> i}"
  by (auto simp: hm_remove_def hm_insert_def)

lemma distinct_hm_remove: "distinct (map fst m) \<Longrightarrow> distinct (map fst (hm_remove i m))"
  unfolding hm_remove_def by (rule distinct_map_filter)

lemma distinct_hm_insert: "distinct (map fst m) \<Longrightarrow> distinct (map fst (hm_insert i u m))"
  by (auto simp: hm_insert_def distinct_hm_remove)

lemma length_filter_keys:
  assumes "distinct (map fst m)"
  shows "length (filter P m) = card (fst ` {x \<in> set m. P x})"
proof -
  have "distinct (filter P m)" using assms by (simp add: distinct_map)
  then have "length (filter P m) = card (set (filter P m))" by (metis distinct_card)
  moreover have "inj_on fst (set (filter P m))" using assms by (auto simp: distinct_map inj_on_def)
  ultimately show ?thesis by (simp add: card_image)
qed

lemma finite_sessions: "finite (sessions_of st user)"
proof (rule finite_subset)
  show "sessions_of st user \<subseteq> fst ` (set (reserved st) \<union> set (active st))"
    by (force simp: sessions_of_def)
qed simp

text \<open>The count \<open>admit\<close> takes is the size of the union, as long as a session in both maps has one
  user.\<close>

lemma held_by_card:
  assumes "admission_ok cap st"
  shows "held_by st user = card (sessions_of st user)"
proof -
  let ?R = "{i. (i, user) \<in> set (reserved st)}"
  let ?A = "{i. (i, user) \<in> set (active st) \<and> i \<notin> fst ` set (reserved st)}"
  have R: "fst ` {x \<in> set (reserved st). case x of (_, u) \<Rightarrow> u = user} = ?R" by force
  have A: "fst ` {x \<in> set (active st). case x of (i, u) \<Rightarrow> u = user \<and> i \<notin> fst ` set (reserved st)} = ?A"
    by force
  have "finite ?R" "finite ?A" unfolding R [symmetric] A [symmetric] by simp_all
  moreover have "?R \<inter> ?A = {}" by force
  moreover have "sessions_of st user = ?R \<union> ?A"
    using assms unfolding admission_ok_def sessions_of_def by fastforce
  ultimately have "card (sessions_of st user) = card ?R + card ?A" by (simp add: card_Un_disjoint)
  with assms show ?thesis
    by (simp add: held_by_def admission_ok_def length_filter_keys R A)
qed

lemma admit_ok:
  assumes "admission_ok cap st" and "i \<notin> fst ` set (reserved st) \<union> fst ` set (active st)"
    and "admit i user st = Inr st'"
  shows "admission_ok cap st'"
proof -
  have room: "card (sessions_of st user) < cap"
    and st': "st' = st\<lparr>reserved := hm_insert i user (reserved st)\<rparr>"
    using assms(1,3) held_by_card [OF assms(1), of user]
    by (auto simp: admit_def Let_def admission_ok_def split: if_splits)
  have fresh: "(i, w) \<notin> set (reserved st)" "(i, w) \<notin> set (active st)" for w
    using assms(2) by force+
  have keep: "{(k, w) \<in> set (reserved st). k \<noteq> i} = set (reserved st)" using fresh(1) by auto
  have "sessions_of st' v = (if v = user then insert i (sessions_of st user) else sessions_of st v)" for v
    by (auto simp: sessions_of_def st' keep)
  moreover have "card (insert i (sessions_of st user)) \<le> cap"
    using room by (simp add: card_insert_if [OF finite_sessions])
  moreover have "card (sessions_of st v) \<le> cap" for v using assms(1) by (simp add: admission_ok_def)
  ultimately have "card (sessions_of st' v) \<le> cap" for v by simp
  moreover have "\<forall>k u v. (k, u) \<in> set (reserved st') \<and> (k, v) \<in> set (active st') \<longrightarrow> u = v"
    using assms(1) fresh(2) by (auto simp: admission_ok_def st' keep)
  moreover have "distinct (map fst (reserved st'))" "distinct (map fst (active st'))" "max_per_user st' = cap"
    using assms(1) by (simp_all add: admission_ok_def st' distinct_hm_insert)
  ultimately show ?thesis unfolding admission_ok_def by blast
qed

lemma activate_ok:
  assumes "admission_ok cap st" and "(i, user) \<in> set (reserved st)" and "i \<notin> fst ` set (active st)"
  shows "admission_ok cap (activate i user st)"
proof -
  have keep: "{(k, w) \<in> set (active st). k \<noteq> i} = set (active st)" using assms(3) by force
  have "sessions_of (activate i user st) v = sessions_of st v" for v
    using assms(2) by (auto simp: sessions_of_def activate_def keep)
  moreover have "u = user" if "(i, u) \<in> set (reserved st)" for u
    using assms(1,2) that by (auto simp: admission_ok_def dest: eq_key_imp_eq_value)
  ultimately show ?thesis
    using assms(1) by (auto simp: admission_ok_def activate_def keep distinct_hm_insert)
qed

lemma shrink_ok:
  assumes "admission_ok cap st" and "max_per_user st' = max_per_user st"
    and "set (reserved st') \<subseteq> set (reserved st)" and "set (active st') \<subseteq> set (active st)"
    and "distinct (map fst (reserved st'))" and "distinct (map fst (active st'))"
  shows "admission_ok cap st'"
proof -
  have "sessions_of st' v \<subseteq> sessions_of st v" for v using assms(3,4) by (auto simp: sessions_of_def)
  then have "card (sessions_of st' v) \<le> card (sessions_of st v)" for v
    by (rule card_mono [OF finite_sessions])
  then have "card (sessions_of st' v) \<le> cap" for v
    using assms(1) by (meson admission_ok_def le_trans)
  with assms show ?thesis unfolding admission_ok_def by blast
qed

interpretation admission: guarded_system "admission_init cap" admission_step "admission_ok cap"
proof
  show "admission_init cap s \<Longrightarrow> admission_ok cap s" for s
    by (simp add: admission_init_def admission_ok_def sessions_of_def)
  fix s t
  assume ok: "admission_ok cap s" and "admission_step s t"
  from this(2) show "admission_ok cap t"
  proof cases
    case (Admit i user)
    with ok show ?thesis by (blast intro: admit_ok)
  next
    case (Activate i user)
    with ok show ?thesis by (blast intro: activate_ok)
  next
    case (Drop i)
    show ?thesis unfolding Drop
      by (rule shrink_ok [OF ok]) (use ok in \<open>auto simp: release_def admission_ok_def distinct_hm_remove\<close>)
  next
    case (End i)
    show ?thesis unfolding End
      by (rule shrink_ok [OF ok]) (use ok in \<open>auto simp: end_session_def admission_ok_def distinct_hm_remove\<close>)
  qed
qed

section \<open>Properties\<close>

text \<open>C9. The session cap. No interleaving of concurrent starts and ends lets a user hold more
  sessions than the cap, counting those being started and those running; a start is refused exactly
  when the user holds the cap; and once an admitted start drops its guard without a session, the
  user holds what was held before.\<close>

theorem admission_cap:
  assumes "reachable (admission_init cap) admission_step st"
  shows "card (sessions_of st user) \<le> cap
       \<and> ((\<exists>e. admit i user st = Inl e) \<longleftrightarrow> card (sessions_of st user) = cap)
       \<and> (\<forall>st'. admit i user st = Inr st' \<and> i \<notin> fst ` set (reserved st) \<longrightarrow>
            sessions_of (release i st') v = sessions_of st v)"
proof -
  have ok: "admission_ok cap st" by (rule admission.reachable_inv [OF assms])
  then have le: "card (sessions_of st user) \<le> cap" and cap: "max_per_user st = cap"
    by (simp_all add: admission_ok_def)
  have refuse: "(\<exists>e. admit i user st = Inl e) \<longleftrightarrow> card (sessions_of st user) = cap"
    using le cap by (auto simp: admit_def Let_def held_by_card [OF ok])
  have "sessions_of (release i st') v = sessions_of st v"
    if "admit i user st = Inr st'" "i \<notin> fst ` set (reserved st)" for st'
    using that by (auto simp: admit_def Let_def release_def sessions_of_def image_iff split: if_splits)
  with le refuse show ?thesis by blast
qed

text \<open>Witness of C9.\<close>

theorem admission_cap_witness:
  "\<exists>e. admit ''b'' ''u'' \<lparr>reserved = [(''a'', ''u'')], active = [], max_per_user = 1\<rparr> = Inl e"
proof -
  let ?s0 = "\<lparr>reserved = [], active = [], max_per_user = 1\<rparr>"
  let ?s1 = "\<lparr>reserved = [(''a'', ''u'')], active = [], max_per_user = 1\<rparr>"
  have "reachable (admission_init 1) admission_step ?s0"
    by (rule reach_init) (simp add: admission_init_def)
  moreover have "admission_step ?s0 ?s1"
    by (rule Admit [of "''a''" _ "''u''"]) (simp_all add: admit_def held_by_def hm_insert_def hm_remove_def)
  ultimately have r: "reachable (admission_init 1) admission_step ?s1" by (rule reach_step)
  have "card (sessions_of ?s1 ''u'') = 1" by (simp add: sessions_of_def)
  with admission_cap [OF r, of "''u''" "''b''"] show ?thesis by auto
qed

end
