(* ===== verification/Intro_Chroma.thy ===== *)
theory Intro_Chroma
  imports Kahawai_Prelude Media_Model Segments
begin

text \<open>
  The shared-region search of the intro detector, \<open>crates/kahawai-intro/src/chroma.rs\<close>: what two
  Chromaprint fingerprints have in common. A fingerprint is a list of \<open>u32\<close> points; times are
  \<open>f64\<close> seconds, read as rationals, and \<open>fl\<close> is the rounding of the arithmetic. The iteration order
  of the index's \<open>HashMap\<close> is the argument \<open>order\<close>, so that the answer can be shown not to depend
  on it.
\<close>

unbundle bit_operations_syntax

section \<open>Definitions\<close>

definition SAMPLE_DURATION :: "(f64 \<Rightarrow> f64) \<Rightarrow> f64" where
  "SAMPLE_DURATION fl = fl (fl (4096 / 11025) / 3)"

definition START_SNAP_SECS :: "(f64 \<Rightarrow> f64) \<Rightarrow> f64" where
  "START_SNAP_SECS fl = fl (of_nat INTRO_START_SNAP_MS / 1000)"

record SearchParams =
  max_point_differences :: u32
  inverted_index_shift :: int
  max_time_skip :: f64
  min_region_duration :: f64

definition SearchParams_default :: "(f64 \<Rightarrow> f64) \<Rightarrow> SearchParams" where
  "SearchParams_default fl =
     \<lparr>max_point_differences = 6, inverted_index_shift = 2, max_time_skip = 7 / 2,
      min_region_duration = fl (of_nat SHARED_REGION_MIN_MS / 1000)\<rparr>"

record Range =
  rg_start :: f64
  rg_end :: f64

definition range_new :: "f64 \<Rightarrow> f64 \<Rightarrow> Range" where
  "range_new start stop = \<lparr>rg_start = start, rg_end = stop\<rparr>"

definition range_duration :: "(f64 \<Rightarrow> f64) \<Rightarrow> Range \<Rightarrow> f64" where
  "range_duration fl r = fl (rg_end r - rg_start r)"

definition range_valid :: "Range \<Rightarrow> bool" where
  "range_valid r = (rg_end r > 0)"

subsection \<open>The longest run of timestamps\<close>

text \<open>The choice between the best run so far and the one that just ended.\<close>

definition keep_longer :: "(f64 \<Rightarrow> f64) \<Rightarrow> Range option \<Rightarrow> Range \<Rightarrow> Range" where
  "keep_longer fl best current =
     (case best of
        Some b \<Rightarrow> if range_duration fl b \<ge> range_duration fl current then b else current
      | None \<Rightarrow> current)"

text \<open>The loop over the pairs of neighbours, with its two variables.\<close>

fun scan_runs :: "(f64 \<Rightarrow> f64) \<Rightarrow> f64 \<Rightarrow> f64 list \<Rightarrow> Range \<Rightarrow> Range option \<Rightarrow> Range \<times> Range option" where
  "scan_runs fl max_distance (current_time # next # ts) current best =
     (if fl (next - current_time) \<le> max_distance
      then scan_runs fl max_distance (next # ts) (current\<lparr>rg_end := next\<rparr>) best
      else scan_runs fl max_distance (next # ts) (range_new next next)
             (Some (keep_longer fl best current)))"
| "scan_runs fl max_distance ts current best = (current, best)"

definition find_contiguous :: "(f64 \<Rightarrow> f64) \<Rightarrow> f64 list \<Rightarrow> f64 \<Rightarrow> Range option" where
  "find_contiguous fl ts max_distance =
     (if ts = [] then None
      else let ts = sort ts;
               (current, best) = scan_runs fl max_distance ts (range_new (ts ! 0) (ts ! 0)) None
           in Some (keep_longer fl best current))"

subsection \<open>One alignment\<close>

definition inverted_index :: "u32 list \<Rightarrow> u32 \<rightharpoonup> nat" where
  "inverted_index fingerprint =
     foldl (\<lambda>index (i, point). index(point \<mapsto> i)) Map.empty (List.enumerate 0 fingerprint)"

text \<open>\<open>u32::count_ones\<close>.\<close>

definition count_ones :: "u32 \<Rightarrow> nat" where
  "count_ones w = length (filter (bit w) [0..<32])"

definition left_offset :: "int \<Rightarrow> nat" where
  "left_offset shift = (if shift < 0 then nat (- shift) else 0)"

definition right_offset :: "int \<Rightarrow> nat" where
  "right_offset shift = (if shift < 0 then 0 else nat shift)"

definition overlap :: "u32 list \<Rightarrow> u32 list \<Rightarrow> int \<Rightarrow> nat" where
  "overlap lhs rhs shift = nat (max 0 (int (min (length lhs) (length rhs)) - \<bar>shift\<bar>))"

text \<open>The positions of the overlap the loop does not skip.\<close>

definition matching :: "u32 list \<Rightarrow> u32 list \<Rightarrow> int \<Rightarrow> SearchParams \<Rightarrow> nat list" where
  "matching lhs rhs shift params =
     filter (\<lambda>i. \<not> count_ones (lhs ! (i + left_offset shift) XOR rhs ! (i + right_offset shift))
                    > unat (max_point_differences params))
       [0..<overlap lhs rhs shift]"

definition times_at :: "(f64 \<Rightarrow> f64) \<Rightarrow> nat \<Rightarrow> nat list \<Rightarrow> f64 list" where
  "times_at fl offset positions = map (\<lambda>i. fl (of_nat (i + offset) * SAMPLE_DURATION fl)) positions"

definition contiguous_at_shift ::
    "(f64 \<Rightarrow> f64) \<Rightarrow> u32 list \<Rightarrow> u32 list \<Rightarrow> int \<Rightarrow> SearchParams \<Rightarrow> (Range \<times> Range) option" where
  "contiguous_at_shift fl lhs rhs shift params =
     (let lhs_times = times_at fl (left_offset shift) (matching lhs rhs shift params);
          rhs_times = times_at fl (right_offset shift) (matching lhs rhs shift params)
      in case find_contiguous fl lhs_times (max_time_skip params) of
           None \<Rightarrow> None
         | Some left \<Rightarrow>
             if range_duration fl left < min_region_duration params then None
             else map_option (Pair left) (find_contiguous fl rhs_times (max_time_skip params)))"

subsection \<open>Every alignment the indexes suggest\<close>

text \<open>The contents of the set of shifts, collected in the iteration order of the left index;
  \<open>wrapping_add_signed\<close> is the addition of \<open>u32\<close> words.\<close>

definition shifts_at :: "u32 list \<Rightarrow> u32 list \<Rightarrow> SearchParams \<Rightarrow> u32 \<Rightarrow> int list" where
  "shifts_at lhs rhs params point =
     (case inverted_index lhs point of
        None \<Rightarrow> []
      | Some lhs_first \<Rightarrow>
          filter_map (\<lambda>i. map_option (\<lambda>rhs_first. int rhs_first - int lhs_first)
                            (inverted_index rhs (point + of_int i)))
            [- inverted_index_shift params .. inverted_index_shift params])"

definition shifts :: "u32 list \<Rightarrow> u32 list \<Rightarrow> u32 list \<Rightarrow> SearchParams \<Rightarrow> int list" where
  "shifts order lhs rhs params = sort (remdups (concat (map (shifts_at lhs rhs params) order)))"

definition region_pairs ::
    "(f64 \<Rightarrow> f64) \<Rightarrow> u32 list \<Rightarrow> u32 list \<Rightarrow> u32 list \<Rightarrow> SearchParams \<Rightarrow> (Range \<times> Range) list" where
  "region_pairs fl order lhs rhs params =
     filter_map (\<lambda>shift. opt_filter (\<lambda>(l, r). rg_end l > 0 \<and> rg_end r > 0)
                           (contiguous_at_shift fl lhs rhs shift params))
       (shifts order lhs rhs params)"

definition search ::
    "(f64 \<Rightarrow> f64) \<Rightarrow> u32 list \<Rightarrow> u32 list \<Rightarrow> u32 list \<Rightarrow> SearchParams \<Rightarrow> Range list \<times> Range list" where
  "search fl order lhs rhs params =
     (let pairs = region_pairs fl order lhs rhs params in (map fst pairs, map snd pairs))"

datatype Select = Longest | Earliest

definition snap_start :: "(f64 \<Rightarrow> f64) \<Rightarrow> Range \<Rightarrow> Range" where
  "snap_start fl r = (if rg_start r \<le> START_SNAP_SECS fl then r\<lparr>rg_start := 0\<rparr> else r)"

definition by_duration :: "(f64 \<Rightarrow> f64) \<Rightarrow> Range \<Rightarrow> Range \<Rightarrow> ordering" where
  "by_duration fl a b = cmp_of (range_duration fl b) (range_duration fl a)"

definition compare_with ::
    "(f64 \<Rightarrow> f64) \<Rightarrow> u32 list \<Rightarrow> u32 list \<Rightarrow> u32 list \<Rightarrow> SearchParams \<Rightarrow> Select \<Rightarrow> Range \<times> Range" where
  "compare_with fl order lhs rhs params select =
     (let (lhs_ranges, rhs_ranges) = search fl order lhs rhs params in
      if lhs_ranges = [] \<or> rhs_ranges = [] then (range_new 0 0, range_new 0 0)
      else if select = Earliest then
        (let pairs = min (length lhs_ranges) (length rhs_ranges);
             earliest = the (min_by_key (\<lambda>a. rg_start (lhs_ranges ! a)) [0..<pairs])
         in (snap_start fl (lhs_ranges ! earliest), snap_start fl (rhs_ranges ! earliest)))
      else (snap_start fl (hd (sort_by (by_duration fl) lhs_ranges)),
            snap_start fl (hd (sort_by (by_duration fl) rhs_ranges))))"

definition compare_prints ::
    "(f64 \<Rightarrow> f64) \<Rightarrow> u32 list \<Rightarrow> u32 list \<Rightarrow> u32 list \<Rightarrow> SearchParams \<Rightarrow> Range \<times> Range" where
  "compare_prints fl order lhs rhs params = compare_with fl order lhs rhs params Longest"


section \<open>The longest run\<close>

text \<open>Positions \<open>i\<close> to \<open>j\<close> of a list of times with no gap wider than \<open>d\<close> between them.\<close>

definition linked :: "(f64 \<Rightarrow> f64) \<Rightarrow> f64 \<Rightarrow> f64 list \<Rightarrow> nat \<Rightarrow> nat \<Rightarrow> bool" where
  "linked fl d ts i j \<longleftrightarrow>
     i \<le> j \<and> j < length ts \<and> (\<forall>k \<in> {i..<j}. fl (ts ! Suc k - ts ! k) \<le> d)"

text \<open>\<open>r\<close> is the longest linked stretch that ends before position \<open>n\<close>, and the earliest of them.\<close>

definition longest_before :: "(f64 \<Rightarrow> f64) \<Rightarrow> f64 \<Rightarrow> f64 list \<Rightarrow> nat \<Rightarrow> Range \<Rightarrow> bool" where
  "longest_before fl d ts n r \<longleftrightarrow>
     (\<exists>i j. linked fl d ts i j \<and> j < n \<and> r = range_new (ts ! i) (ts ! j)
        \<and> (\<forall>i' j'. linked fl d ts i' j' \<and> j' < n \<longrightarrow>
             fl (ts ! j' - ts ! i') \<le> fl (ts ! j - ts ! i)
             \<and> (fl (ts ! j' - ts ! i') = fl (ts ! j - ts ! i) \<longrightarrow> i \<le> i')))"

definition run_begins :: "(f64 \<Rightarrow> f64) \<Rightarrow> f64 \<Rightarrow> f64 list \<Rightarrow> nat \<Rightarrow> Range option \<Rightarrow> bool" where
  "run_begins fl d ts i best \<longleftrightarrow>
     (case best of None \<Rightarrow> i = 0
      | Some b \<Rightarrow> i > 0 \<and> \<not> fl (ts ! i - ts ! (i - 1)) \<le> d \<and> longest_before fl d ts i b)"

lemma range_new_sel [simp]: "rg_start (range_new a b) = a" "rg_end (range_new a b) = b"
  by (simp_all add: range_new_def)

lemma range_new_upd [simp]: "range_new a b\<lparr>rg_end := c\<rparr> = range_new a c"
  by (simp add: range_new_def)

lemma range_duration_new [simp]: "range_duration fl (range_new a b) = fl (b - a)"
  by (simp add: range_duration_def)

lemma linked_within:
  assumes "linked fl d ts i' j'" and "i' < i" and "i \<le> j'"
  shows "fl (ts ! i - ts ! (i - 1)) \<le> d"
  using assms by (auto simp: linked_def dest!: bspec [of _ _ "i - 1"])

lemma linked_shorter:
  assumes "mono fl" "sorted ts" "linked fl d ts i' j'" "i \<le> i'" "j' \<le> k" "k < length ts"
  shows "fl (ts ! j' - ts ! i') \<le> fl (ts ! k - ts ! i)"
proof -
  have "ts ! i \<le> ts ! i'" "ts ! j' \<le> ts ! k"
    using assms by (auto simp: linked_def intro!: sorted_nth_mono)
  then show ?thesis using monoD [OF assms(1)] by simp
qed

lemma longest_step:
  assumes fl: "mono fl" and so: "sorted ts" and run: "linked fl d ts i k"
    and best: "run_begins fl d ts i best"
  shows "longest_before fl d ts (Suc k) (keep_longer fl best (range_new (ts ! i) (ts ! k)))"
proof -
  have k: "k < length ts" "i \<le> k" using run by (auto simp: linked_def)
  have inner: "fl (ts ! j' - ts ! i') \<le> fl (ts ! k - ts ! i)"
    if "linked fl d ts i' j'" "j' < Suc k" "i \<le> i'" for i' j'
    using linked_shorter [OF fl so that(1,3) _ k(1)] that(2) by simp
  show ?thesis
  proof (cases best)
    case None
    then have "i = 0" using best by (simp add: run_begins_def)
    then show ?thesis using None run inner unfolding longest_before_def keep_longer_def
      by (intro exI [of _ i] exI [of _ k]) auto
  next
    case (Some b)
    then have gap: "\<not> fl (ts ! i - ts ! (i - 1)) \<le> d" "i > 0" and old: "longest_before fl d ts i b"
      using best by (auto simp: run_begins_def)
    have sides: "j' < i \<or> i \<le> i'" if "linked fl d ts i' j'" for i' j'
      using linked_within [OF that, of i] gap by (meson not_le)
    obtain p q where pq: "linked fl d ts p q" "q < i" "b = range_new (ts ! p) (ts ! q)"
      and best_b: "\<And>i' j'. linked fl d ts i' j' \<Longrightarrow> j' < i \<Longrightarrow>
          fl (ts ! j' - ts ! i') \<le> fl (ts ! q - ts ! p)
          \<and> (fl (ts ! j' - ts ! i') = fl (ts ! q - ts ! p) \<longrightarrow> p \<le> i')"
      using old unfolding longest_before_def by blast
    have p: "p < i" using pq(1,2) by (auto simp: linked_def)
    show ?thesis
    proof (cases "fl (ts ! q - ts ! p) \<ge> fl (ts ! k - ts ! i)")
      case True
      have "fl (ts ! j' - ts ! i') \<le> fl (ts ! q - ts ! p)
          \<and> (fl (ts ! j' - ts ! i') = fl (ts ! q - ts ! p) \<longrightarrow> p \<le> i')"
        if "linked fl d ts i' j'" "j' < Suc k" for i' j'
        using sides [OF that(1)] best_b [OF that(1)] inner [OF that] True p by fastforce
      then show ?thesis using Some True pq k unfolding longest_before_def keep_longer_def
        by (intro exI [of _ p] exI [of _ q]) auto
    next
      case False
      have "fl (ts ! j' - ts ! i') \<le> fl (ts ! k - ts ! i)
          \<and> (fl (ts ! j' - ts ! i') = fl (ts ! k - ts ! i) \<longrightarrow> i \<le> i')"
        if "linked fl d ts i' j'" "j' < Suc k" for i' j'
        using sides [OF that(1)] best_b [OF that(1)] inner [OF that] False by fastforce
      then show ?thesis using Some False pq run unfolding longest_before_def keep_longer_def
        by (intro exI [of _ i] exI [of _ k]) auto
    qed
  qed
qed

lemma scan_runs_longest:
  assumes "mono fl" "sorted ts" "linked fl d ts i k" "run_begins fl d ts i best"
    and "scan_runs fl d (drop k ts) (range_new (ts ! i) (ts ! k)) best = (c, b)"
  shows "longest_before fl d ts (length ts) (keep_longer fl b c)"
  using assms(3-)
proof (induction "length ts - k" arbitrary: i k best)
  case 0
  then show ?case by (simp add: linked_def)
next
  case (Suc n)
  have k: "k < length ts" "i \<le> k" using Suc.prems(1) by (auto simp: linked_def)
  show ?case
  proof (cases "Suc k < length ts")
    case False
    then have "drop k ts = [ts ! k]" using k by (metis Cons_nth_drop_Suc drop_all not_le)
    moreover have "Suc k = length ts" using False k by simp
    ultimately show ?thesis using longest_step [OF assms(1,2) Suc.prems(1,2)] Suc.prems(3) by auto
  next
    case True
    then have tl: "drop k ts = ts ! k # ts ! Suc k # drop (Suc (Suc k)) ts"
      "drop (Suc k) ts = ts ! Suc k # drop (Suc (Suc k)) ts"
      using k by (simp_all add: Cons_nth_drop_Suc)
    have n: "n = length ts - Suc k" using Suc.hyps(2) by simp
    show ?thesis
    proof (cases "fl (ts ! Suc k - ts ! k) \<le> d")
      case near: True
      have "linked fl d ts i (Suc k)" using Suc.prems(1) near True
        by (auto simp: linked_def less_Suc_eq)
      then show ?thesis using Suc.hyps(1) [OF n _ Suc.prems(2)] Suc.prems(3) near by (simp add: tl)
    next
      case far: False
      let ?best = "Some (keep_longer fl best (range_new (ts ! i) (ts ! k)))"
      have "run_begins fl d ts (Suc k) ?best"
        using longest_step [OF assms(1,2) Suc.prems(1,2)] far by (simp add: run_begins_def)
      moreover have "linked fl d ts (Suc k) (Suc k)" using True by (simp add: linked_def)
      ultimately show ?thesis using Suc.hyps(1) [OF n] Suc.prems(3) far by (simp add: tl)
    qed
  qed
qed

lemma find_contiguous_best:
  assumes "mono fl" "find_contiguous fl ts d = Some r"
  shows "longest_before fl d (sort ts) (length ts) r"
proof -
  have ne: "ts \<noteq> []" and r: "(case scan_runs fl d (sort ts) (range_new (sort ts ! 0) (sort ts ! 0)) None of
      (current, best) \<Rightarrow> keep_longer fl best current) = r"
    using assms(2) by (auto simp: find_contiguous_def Let_def split: if_splits prod.splits)
  have "linked fl d (sort ts) 0 0" "run_begins fl d (sort ts) 0 None"
    using ne by (simp_all add: linked_def run_begins_def)
  from scan_runs_longest [OF assms(1) sorted_sort this] r show ?thesis
    by (auto split: prod.splits)
qed

lemma find_contiguous_None [simp]: "find_contiguous fl ts d = None \<longleftrightarrow> ts = []"
  by (auto simp: find_contiguous_def Let_def split: prod.splits)


section \<open>One alignment\<close>

text \<open>No index of the two loops leaves its fingerprint.\<close>

lemma matching_bounds:
  assumes "i \<in> set (matching lhs rhs shift params)"
  shows "i + left_offset shift < length lhs" "i + right_offset shift < length rhs"
  using assms by (auto simp: matching_def overlap_def left_offset_def right_offset_def)

lemma matching_agree:
  "i \<in> set (matching lhs rhs shift params) \<Longrightarrow>
     count_ones (lhs ! (i + left_offset shift) XOR rhs ! (i + right_offset shift))
       \<le> unat (max_point_differences params)"
  by (auto simp: matching_def)

lemma SAMPLE_DURATION_nonneg: "mono fl \<Longrightarrow> fl 0 = 0 \<Longrightarrow> 0 \<le> SAMPLE_DURATION fl"
  using monoD [of fl 0 "4096 / 11025"] monoD [of fl 0 "fl (4096 / 11025) / 3"]
  by (simp add: SAMPLE_DURATION_def)

lemma times_at_mono:
  assumes "mono fl" "fl 0 = 0" "i \<le> j"
  shows "fl (of_nat i * SAMPLE_DURATION fl) \<le> fl (of_nat j * SAMPLE_DURATION fl)"
  using assms(3) SAMPLE_DURATION_nonneg [OF assms(1,2)]
  by (intro monoD [OF assms(1)] mult_right_mono) simp_all

lemma sorted_times_at:
  assumes "mono fl" "fl 0 = 0"
  shows "sorted (times_at fl offset (matching lhs rhs shift params))"
proof -
  have "sorted (matching lhs rhs shift params)" by (simp add: matching_def sorted_wrt_filter)
  then show ?thesis unfolding times_at_def sorted_map
    by (rule sorted_wrt_mono_rel [rotated]) (simp add: times_at_mono [OF assms] del: of_nat_add)
qed

text \<open>A range that is a run of matching positions at one alignment, on the side whose positions
  are offset by \<open>offset\<close>.\<close>

definition shared_at ::
    "(f64 \<Rightarrow> f64) \<Rightarrow> u32 list \<Rightarrow> u32 list \<Rightarrow> SearchParams \<Rightarrow> int \<Rightarrow> nat \<Rightarrow> Range \<Rightarrow> bool" where
  "shared_at fl lhs rhs params shift offset r \<longleftrightarrow>
     longest_before fl (max_time_skip params) (times_at fl offset (matching lhs rhs shift params))
       (length (matching lhs rhs shift params)) r"

lemma contiguous_at_shift_shared:
  assumes "mono fl" "fl 0 = 0" "contiguous_at_shift fl lhs rhs shift params = Some (l, r)"
  shows "shared_at fl lhs rhs params shift (left_offset shift) l"
    "shared_at fl lhs rhs params shift (right_offset shift) r"
    "min_region_duration params \<le> range_duration fl l"
proof -
  let ?m = "matching lhs rhs shift params"
  have l: "find_contiguous fl (times_at fl (left_offset shift) ?m) (max_time_skip params) = Some l"
    and r: "find_contiguous fl (times_at fl (right_offset shift) ?m) (max_time_skip params) = Some r"
    and "min_region_duration params \<le> range_duration fl l"
    using assms(3) by (auto simp: contiguous_at_shift_def Let_def split: option.splits if_splits)
  then show "min_region_duration params \<le> range_duration fl l" by simp
  have len: "length (times_at fl o' ?m) = length ?m" for o' by (simp add: times_at_def)
  show "shared_at fl lhs rhs params shift (left_offset shift) l"
    using find_contiguous_best [OF assms(1) l] sorted_sort_id [OF sorted_times_at [OF assms(1,2)]]
    by (simp add: shared_at_def len)
  show "shared_at fl lhs rhs params shift (right_offset shift) r"
    using find_contiguous_best [OF assms(1) r] sorted_sort_id [OF sorted_times_at [OF assms(1,2)]]
    by (simp add: shared_at_def len)
qed

lemma shared_at_bounds:
  assumes fl: "mono fl" "fl 0 = 0" and sh: "shared_at fl lhs rhs params shift offset r"
    and pos: "\<And>i. i \<in> set (matching lhs rhs shift params) \<Longrightarrow> i + offset < n"
  shows "0 \<le> rg_start r \<and> rg_start r \<le> rg_end r
         \<and> rg_end r \<le> fl (of_nat (n - 1) * SAMPLE_DURATION fl)"
proof -
  let ?m = "matching lhs rhs shift params" let ?ts = "times_at fl offset ?m"
  obtain i j where ij: "linked fl (max_time_skip params) ?ts i j" "r = range_new (?ts ! i) (?ts ! j)"
    using sh by (auto simp: shared_at_def longest_before_def)
  then have b: "i \<le> j" "j < length ?m" by (auto simp: linked_def times_at_def)
  have at_k: "?ts ! k = fl (of_nat (?m ! k + offset) * SAMPLE_DURATION fl)" if "k < length ?m" for k
    using that by (simp add: times_at_def)
  have "0 \<le> ?ts ! i"
    using at_k [of i] b times_at_mono [OF fl, of 0 "?m ! i + offset"] fl(2) by (simp del: of_nat_add)
  moreover have "?ts ! i \<le> ?ts ! j"
    using sorted_times_at [OF fl] b by (intro sorted_nth_mono) (simp_all add: times_at_def)
  moreover have "?ts ! j \<le> fl (of_nat (n - 1) * SAMPLE_DURATION fl)"
  proof -
    have "?m ! j + offset < n" using pos b(2) nth_mem by blast
    then have "?m ! j + offset \<le> n - 1" by simp
    from times_at_mono [OF fl this] at_k [OF b(2)] show ?thesis by metis
  qed
  ultimately show ?thesis using ij(2) by simp
qed

section \<open>The search\<close>

lemma foldl_index_upd:
  "foldl (\<lambda>index (i, point). index(point \<mapsto> i)) m (List.enumerate n xs) p =
     (if p \<in> set xs then Some (n + (GREATEST i. i < length xs \<and> xs ! i = p)) else m p)"
proof (induction xs arbitrary: n m rule: rev_induct)
  case Nil
  then show ?case by simp
next
  case (snoc x xs)
  show ?case
  proof (cases "p = x")
    case True
    have "(GREATEST i. i < length (xs @ [x]) \<and> (xs @ [x]) ! i = x) = length xs"
      by (rule Greatest_equality) auto
    then show ?thesis using True by (simp add: enumerate_append_eq)
  next
    case False
    have "(i < length (xs @ [x]) \<and> (xs @ [x]) ! i = p) = (i < length xs \<and> xs ! i = p)" for i
      using False by (cases "i = length xs") (auto simp: nth_append)
    then show ?thesis using False snoc.IH [of m n] by (simp add: enumerate_append_eq)
  qed
qed

text \<open>The index keeps the last occurrence of a point.\<close>

lemma inverted_index_Some:
  assumes "inverted_index fp p = Some i"
  shows "i < length fp \<and> fp ! i = p \<and> (\<forall>j. i < j \<and> j < length fp \<longrightarrow> fp ! j \<noteq> p)"
proof -
  let ?P = "\<lambda>i. i < length fp \<and> fp ! i = p"
  have mem: "p \<in> set fp" and i: "i = (GREATEST i. ?P i)"
    using assms by (auto simp: inverted_index_def foldl_index_upd split: if_splits)
  obtain k where k: "?P k" using mem by (auto simp: in_set_conv_nth)
  have "?P i" unfolding i by (rule GreatestI_nat [of ?P k "length fp", OF k]) simp
  moreover have "j \<le> i" if "?P j" for j
    unfolding i by (rule Greatest_le_nat [of ?P j "length fp", OF that]) simp
  ultimately show ?thesis by (meson leD)
qed

lemma dom_inverted_index: "dom (inverted_index fp) = set fp"
  by (auto simp: inverted_index_def foldl_index_upd split: if_splits)

text \<open>An iteration order of a map: every key once.\<close>

definition iterates :: "'k list \<Rightarrow> ('k \<rightharpoonup> 'v) \<Rightarrow> bool" where
  "iterates order m \<longleftrightarrow> distinct order \<and> set order = dom m"

lemma set_shifts: "set (shifts order lhs rhs params) = (\<Union>p \<in> set order. set (shifts_at lhs rhs params p))"
  by (auto simp: shifts_def)

lemma shifts_order:
  assumes "iterates order (inverted_index lhs)" "iterates order' (inverted_index lhs)"
  shows "shifts order lhs rhs params = shifts order' lhs rhs params"
proof -
  have "set (concat (map (shifts_at lhs rhs params) order))
      = set (concat (map (shifts_at lhs rhs params) order'))"
    using assms by (simp add: iterates_def)
  then show ?thesis unfolding shifts_def by (metis sorted_list_of_set_sort_remdups)
qed

lemma region_pairs_mem:
  "(l, r) \<in> set (region_pairs fl order lhs rhs params) \<longleftrightarrow>
     (\<exists>s \<in> set (shifts order lhs rhs params).
        contiguous_at_shift fl lhs rhs s params = Some (l, r) \<and> rg_end l > 0 \<and> rg_end r > 0)"
  by (auto simp: region_pairs_def set_filter_map opt_filter_eq_Some)

interpretation durations: cmp_order "by_duration fl" for fl
  unfolding by_duration_def by (rule cmp_order_key_rev)

lemma longest_first:
  assumes "rs \<noteq> []"
  shows "hd (sort_by (by_duration fl) rs) \<in> set rs"
    "\<forall>r \<in> set rs. range_duration fl r \<le> range_duration fl (hd (sort_by (by_duration fl) rs))"
proof -
  obtain y ys where y: "sort_by (by_duration fl) rs = y # ys"
    using assms durations.length_sort_by [of fl rs] by (cases "sort_by (by_duration fl) rs") auto
  show "hd (sort_by (by_duration fl) rs) \<in> set rs"
    using durations.set_sort_by [of fl rs] y by (metis list.sel(1) list.set_intros(1))
  show "\<forall>r \<in> set rs. range_duration fl r \<le> range_duration fl (hd (sort_by (by_duration fl) rs))"
    using durations.sort_by_head [OF y] y by (auto simp: by_duration_def not_less)
qed


lemma search_pairs:
  "search fl order lhs rhs params =
     (map fst (region_pairs fl order lhs rhs params), map snd (region_pairs fl order lhs rhs params))"
  by (simp add: search_def Let_def)

lemma compare_with_none:
  "region_pairs fl order lhs rhs params = [] \<Longrightarrow>
     compare_with fl order lhs rhs params select = (range_new 0 0, range_new 0 0)"
  by (simp add: compare_with_def search_pairs)

lemma compare_with_longest:
  assumes "region_pairs fl order lhs rhs params \<noteq> []"
  shows "compare_with fl order lhs rhs params Longest =
     (snap_start fl (hd (sort_by (by_duration fl) (map fst (region_pairs fl order lhs rhs params)))),
      snap_start fl (hd (sort_by (by_duration fl) (map snd (region_pairs fl order lhs rhs params)))))"
  using assms by (simp add: compare_with_def search_pairs)

lemma compare_with_earliest:
  assumes "region_pairs fl order lhs rhs params \<noteq> []"
  obtains l r where "(l, r) \<in> set (region_pairs fl order lhs rhs params)"
    "compare_with fl order lhs rhs params Earliest = (snap_start fl l, snap_start fl r)"
    "\<And>l' r'. (l', r') \<in> set (region_pairs fl order lhs rhs params) \<Longrightarrow> rg_start l \<le> rg_start l'"
proof -
  let ?ps = "region_pairs fl order lhs rhs params"
  let ?key = "\<lambda>a. rg_start (map fst ?ps ! a)"
  have "min_by_key ?key [0..<length ?ps] \<noteq> None" using assms by simp
  then obtain e where e: "min_by_key ?key [0..<length ?ps] = Some e" by blast
  have len: "e < length ?ps" using min_by_key_mem [OF e] by simp
  show thesis
  proof (rule that)
    show "(fst (?ps ! e), snd (?ps ! e)) \<in> set ?ps" using len by simp
    show "compare_with fl order lhs rhs params Earliest
        = (snap_start fl (fst (?ps ! e)), snap_start fl (snd (?ps ! e)))"
      using assms e len by (simp add: compare_with_def search_pairs)
    fix l' r' assume "(l', r') \<in> set ?ps"
    then obtain k where "k < length ?ps" "?ps ! k = (l', r')" by (auto simp: in_set_conv_nth)
    then show "rg_start (fst (?ps ! e)) \<le> rg_start l'"
      using min_by_key_le [OF e, of k] len by simp
  qed
qed

section \<open>Properties\<close>

text \<open>The longest run: \<open>find_contiguous\<close> answers exactly for non-empty input, with a stretch of
  the sorted times without a gap wider than the limit, which no other such stretch exceeds in
  duration, and which starts first among those as long.\<close>

theorem find_contiguous_longest:
  assumes "mono fl"
  shows "case find_contiguous fl ts d of
           None \<Rightarrow> ts = []
         | Some r \<Rightarrow> longest_before fl d (sort ts) (length ts) r"
  using find_contiguous_best [OF assms, of ts d] by (auto split: option.splits)

text \<open>Witness: of two runs as long, the first is reported.\<close>

theorem find_contiguous_longest_witness:
  "longest_before (\<lambda>x. x) 2 (sort [10, 1, 11, 12, 2, 3]) 6 (range_new 1 3)"
proof -
  have "find_contiguous (\<lambda>x. x) [10, 1, 11, 12, 2, 3] 2 = Some (range_new 1 3)"
    by code_simp
  then show ?thesis
    using find_contiguous_longest [of "\<lambda>x. x" "[10, 1, 11, 12, 2, 3]" 2]
    by (simp add: mono_def eval_nat_numeral)
qed

text \<open>What the search reports does not depend on the iteration order of the hash map.\<close>

theorem compare_order_irrelevant:
  assumes "iterates order (inverted_index lhs)" and "iterates order' (inverted_index lhs)"
  shows "compare_with fl order lhs rhs params select = compare_with fl order' lhs rhs params select"
  unfolding compare_with_def search_pairs region_pairs_def shifts_order [OF assms] ..

text \<open>Witness.\<close>

theorem compare_order_irrelevant_witness:
  "compare_with (\<lambda>x. x) [4, 3] [3, 4] [4, 3] (SearchParams_default (\<lambda>x. x)) Longest
     = compare_with (\<lambda>x. x) [3, 4] [3, 4] [4, 3] (SearchParams_default (\<lambda>x. x)) Longest"
  by (rule compare_order_irrelevant) (auto simp: iterates_def dom_inverted_index)

text \<open>C19. Every reported region is shared audio: either nothing is reported and no alignment has a
  region, or each side is, up to the pull of its start to zero, the longest run of positions at which
  the two fingerprints agree under one of the suggested alignments, it lies inside its fingerprint,
  the left one lasts at least the minimum, and no other alignment has a longer one.\<close>

theorem compare_longest:
  assumes fl: "mono fl" "fl 0 = 0"
    and res: "compare_with fl order lhs rhs params Longest = (l, r)"
  shows "(if region_pairs fl order lhs rhs params = [] then l = range_new 0 0 \<and> r = range_new 0 0
          else \<exists>s \<in> set (shifts order lhs rhs params). \<exists>t \<in> set (shifts order lhs rhs params). \<exists>l0 r0.
            l = snap_start fl l0 \<and> shared_at fl lhs rhs params s (left_offset s) l0
            \<and> r = snap_start fl r0 \<and> shared_at fl lhs rhs params t (right_offset t) r0
            \<and> min_region_duration params \<le> range_duration fl l0
            \<and> 0 \<le> rg_start l0 \<and> rg_end l \<le> fl (of_nat (length lhs - 1) * SAMPLE_DURATION fl)
            \<and> 0 \<le> rg_start r0 \<and> rg_end r \<le> fl (of_nat (length rhs - 1) * SAMPLE_DURATION fl)
            \<and> range_valid l \<and> range_valid r
            \<and> (\<forall>(l', r') \<in> set (region_pairs fl order lhs rhs params).
                 range_duration fl l' \<le> range_duration fl l0
                 \<and> range_duration fl r' \<le> range_duration fl r0))"
proof (cases "region_pairs fl order lhs rhs params = []")
  case True
  then show ?thesis using res by (auto simp: compare_with_none)
next
  case False
  let ?ps = "region_pairs fl order lhs rhs params"
  define l0 where "l0 = hd (sort_by (by_duration fl) (map fst ?ps))"
  define r0 where "r0 = hd (sort_by (by_duration fl) (map snd ?ps))"
  have lr: "l = snap_start fl l0" "r = snap_start fl r0"
    using res compare_with_longest [OF False] by (simp_all add: l0_def r0_def)
  have "l0 \<in> set (map fst ?ps)" "r0 \<in> set (map snd ?ps)"
    using longest_first(1) [of "map fst ?ps" fl] longest_first(1) [of "map snd ?ps" fl] False
    by (auto simp: l0_def r0_def)
  then obtain r1 l1 where mem: "(l0, r1) \<in> set ?ps" "(l1, r0) \<in> set ?ps" by auto
  obtain s where s: "s \<in> set (shifts order lhs rhs params)"
    "contiguous_at_shift fl lhs rhs s params = Some (l0, r1)" "rg_end l0 > 0"
    using mem(1) region_pairs_mem by blast
  obtain t where t: "t \<in> set (shifts order lhs rhs params)"
    "contiguous_at_shift fl lhs rhs t params = Some (l1, r0)" "rg_end r0 > 0"
    using mem(2) region_pairs_mem by blast
  note S = contiguous_at_shift_shared [OF fl s(2)] and T = contiguous_at_shift_shared [OF fl t(2)]
  have SB: "0 \<le> rg_start l0 \<and> rg_start l0 \<le> rg_end l0
      \<and> rg_end l0 \<le> fl (of_nat (length lhs - 1) * SAMPLE_DURATION fl)"
    by (rule shared_at_bounds [OF fl S(1)]) (rule matching_bounds(1))
  have TB: "0 \<le> rg_start r0 \<and> rg_start r0 \<le> rg_end r0
      \<and> rg_end r0 \<le> fl (of_nat (length rhs - 1) * SAMPLE_DURATION fl)"
    by (rule shared_at_bounds [OF fl T(2)]) (rule matching_bounds(2))
  have ends: "rg_end l = rg_end l0" "rg_end r = rg_end r0" by (simp_all add: lr snap_start_def)
  have most: "\<forall>(l', r') \<in> set ?ps. range_duration fl l' \<le> range_duration fl l0
      \<and> range_duration fl r' \<le> range_duration fl r0"
    using longest_first(2) [of "map fst ?ps" fl] longest_first(2) [of "map snd ?ps" fl] False
    by (auto simp: l0_def r0_def)
  show ?thesis
    using False s(1,3) t(1,3) S(1,3) T(2) SB TB ends most lr
    by (intro if_not_P [THEN iffD2]) (auto simp: range_valid_def)
qed


text \<open>Witness: two fingerprints that share their first three points.\<close>

definition sample_params :: SearchParams where
  "sample_params = \<lparr>max_point_differences = 0, inverted_index_shift = 0, max_time_skip = 1,
                    min_region_duration = 1 / 5\<rparr>"

lemma sample_pairs: "region_pairs (\<lambda>x. x) [10, 20, 30, 40] [10, 20, 30, 40] [10, 20, 30, 99] sample_params \<noteq> []"
  by code_simp

theorem compare_longest_witness:
  "range_valid (fst (compare_with (\<lambda>x. x) [10, 20, 30, 40] [10, 20, 30, 40] [10, 20, 30, 99]
     sample_params Longest))"
  using compare_longest [of "\<lambda>x. x" "[10, 20, 30, 40]" "[10, 20, 30, 40]" "[10, 20, 30, 99]" sample_params]
    sample_pairs by (metis (no_types, lifting) monoI prod.collapse)

text \<open>A recap card is the shared region that starts first: both sides come from the same
  alignment, and no alignment has a region that starts before the left one.\<close>

theorem compare_earliest:
  assumes fl: "mono fl" "fl 0 = 0"
    and some: "region_pairs fl order lhs rhs params \<noteq> []"
  shows "\<exists>s \<in> set (shifts order lhs rhs params). \<exists>l r.
      compare_with fl order lhs rhs params Earliest = (snap_start fl l, snap_start fl r)
      \<and> shared_at fl lhs rhs params s (left_offset s) l
      \<and> shared_at fl lhs rhs params s (right_offset s) r
      \<and> min_region_duration params \<le> range_duration fl l
      \<and> (\<forall>(l', r') \<in> set (region_pairs fl order lhs rhs params). rg_start l \<le> rg_start l')"
proof -
  obtain l r where lr: "(l, r) \<in> set (region_pairs fl order lhs rhs params)"
    "compare_with fl order lhs rhs params Earliest = (snap_start fl l, snap_start fl r)"
    "\<And>l' r'. (l', r') \<in> set (region_pairs fl order lhs rhs params) \<Longrightarrow> rg_start l \<le> rg_start l'"
    using compare_with_earliest [OF some] by blast
  obtain s where s: "s \<in> set (shifts order lhs rhs params)"
    "contiguous_at_shift fl lhs rhs s params = Some (l, r)"
    using lr(1) region_pairs_mem by blast
  show ?thesis
    using s(1) contiguous_at_shift_shared [OF fl s(2)] lr(2,3)
    by (intro bexI [OF _ s(1)] exI [of _ l] exI [of _ r]) auto
qed

text \<open>Witness.\<close>

theorem compare_earliest_witness:
  "\<exists>l r. compare_with (\<lambda>x. x) [10, 20, 30, 40] [10, 20, 30, 40] [10, 20, 30, 99] sample_params Earliest
      = (snap_start (\<lambda>x. x) l, snap_start (\<lambda>x. x) r)
    \<and> 1 / 5 \<le> range_duration (\<lambda>x. x) l"
  using compare_earliest [OF monoI, OF _ _ sample_pairs] by (auto simp: sample_params_def)

end
