(* ===== verification/Intro_Credits.thy ===== *)
theory Intro_Credits
  imports Intro_Chroma "HOL-Library.Monad_Syntax"
begin

text \<open>
  Where the end credits begin, \<open>crates/kahawai-intro/src/blackframe.rs\<close>. A probe of the
  picture is a function from a window to an error or the black frames of the window. The two loops of the black-frame search are partial
  functions: that they end is a property and not an assumption. The rounding of \<open>f64\<close> arithmetic is
  the argument \<open>fl\<close>; what the properties use of it is \<open>f64_like\<close>.
\<close>

section \<open>Definitions\<close>

record BlackFrameParams =
  minimum_percentage :: f64
  bf_threshold :: u8
  minimum_credits_duration :: f64
  maximum_error :: f64

definition BlackFrameParams_default :: "(f64 \<Rightarrow> f64) \<Rightarrow> BlackFrameParams" where
  "BlackFrameParams_default fl =
     \<lparr>minimum_percentage = 85, bf_threshold = 28,
      minimum_credits_duration = fl (of_nat BLACK_CREDITS_MIN_MS / 1000), maximum_error = 4\<rparr>"

type_synonym 'e frame_probe = "f64 \<Rightarrow> f64 \<Rightarrow> 'e + f64 list"

record LumaFrame =
  lf_time :: f64
  lf_black_percentage :: f64

text \<open>The probe of the decoder: the frames of the window that are black enough, from its start.\<close>

definition decode_probe ::
    "(f64 \<Rightarrow> f64) \<Rightarrow> (f64 \<Rightarrow> f64 \<Rightarrow> u8 \<Rightarrow> 'e + LumaFrame list) \<Rightarrow> BlackFrameParams \<Rightarrow> 'e frame_probe" where
  "decode_probe fl luma_window params start stop =
     (case luma_window start stop (bf_threshold params) of
        Inl e \<Rightarrow> Inl e
      | Inr frames \<Rightarrow> Inr (map (\<lambda>f. max (fl (lf_time f - start)) 0)
                           (filter (\<lambda>f. lf_black_percentage f \<ge> minimum_percentage params) frames)))"

subsection \<open>Where the search starts\<close>

partial_function (option) search_start_loop ::
    "(f64 \<Rightarrow> f64) \<Rightarrow> 'e frame_probe \<Rightarrow> f64 \<Rightarrow> f64 \<Rightarrow> f64 \<Rightarrow> f64 \<Rightarrow> ('e + f64) option" where
  "search_start_loop fl probe duration step max_search_start search_start =
     (if search_start < max_search_start then
        (let scan_time = fl (duration - search_start) in
         case probe (fl (scan_time - 1)) scan_time of
           Inl e \<Rightarrow> Some (Inl e)
         | Inr black \<Rightarrow>
             if length black < 3 then Some (Inr search_start)
             else search_start_loop fl probe duration step max_search_start (fl (search_start + step)))
      else Some (Inr max_search_start))"

definition find_search_start ::
    "(f64 \<Rightarrow> f64) \<Rightarrow> f64 \<Rightarrow> f64 \<Rightarrow> BlackFrameParams \<Rightarrow> 'e frame_probe \<Rightarrow> ('e + f64) option" where
  "find_search_start fl duration credits_start params probe =
     search_start_loop fl probe duration (fl (2 * minimum_credits_duration params))
       (fl (duration - credits_start)) (fl (3 * minimum_credits_duration params))"

subsection \<open>The binary search\<close>

record Bracket =
  upper_limit :: f64
  lower_limit :: f64
  search_start :: f64
  search_end :: f64
  first_black_frame :: "f64 option"

definition search_distance :: "(f64 \<Rightarrow> f64) \<Rightarrow> BlackFrameParams \<Rightarrow> f64" where
  "search_distance fl params = fl (2 * minimum_credits_duration params)"

definition first_bracket ::
    "(f64 \<Rightarrow> f64) \<Rightarrow> f64 \<Rightarrow> f64 \<Rightarrow> f64 \<Rightarrow> BlackFrameParams \<Rightarrow> Bracket" where
  "first_bracket fl duration credits_start initial_start params =
     (let upper = min initial_start (fl (duration - credits_start));
          lower = max (fl (initial_start - search_distance fl params)) (minimum_credits_duration params)
      in \<lparr>upper_limit = upper, lower_limit = lower, search_start = upper, search_end = lower,
          first_black_frame = None\<rparr>)"

definition midpoint :: "(f64 \<Rightarrow> f64) \<Rightarrow> Bracket \<Rightarrow> f64" where
  "midpoint fl b = fl (fl (search_start b + search_end b) / 2)"

text \<open>What the answer of the probe at the middle does to the bracket.\<close>

definition narrow ::
    "(f64 \<Rightarrow> f64) \<Rightarrow> f64 \<Rightarrow> f64 \<Rightarrow> BlackFrameParams \<Rightarrow> f64 list \<Rightarrow> Bracket \<Rightarrow> Bracket" where
  "narrow fl duration credits_start params black b =
     (let mid = midpoint fl b; scan_time = fl (duration - mid) in
      case black of
        [] \<Rightarrow>
          (let b1 = b\<lparr>search_start := fl (mid - 2)\<rparr> in
           if fl (mid - lower_limit b) < maximum_error params
           then (let lower = max (fl (lower_limit b - fl (1 / 2 * search_distance fl params)))
                               (minimum_credits_duration params)
                 in b1\<lparr>lower_limit := lower, search_end := lower\<rparr>)
           else b1)
      | first # _ \<Rightarrow>
          (let b1 = b\<lparr>search_end := mid, first_black_frame := Some (fl (first + scan_time))\<rparr> in
           if fl (upper_limit b - mid) < maximum_error params
           then (let upper = min (fl (upper_limit b + fl (1 / 2 * search_distance fl params)))
                               (fl (duration - credits_start))
                 in b1\<lparr>upper_limit := upper, search_start := upper\<rparr>)
           else b1))"

partial_function (option) credits_loop ::
    "(f64 \<Rightarrow> f64) \<Rightarrow> f64 \<Rightarrow> f64 \<Rightarrow> BlackFrameParams \<Rightarrow> 'e frame_probe \<Rightarrow> Bracket \<Rightarrow> ('e + f64 option) option" where
  "credits_loop fl duration credits_start params probe b =
     (if fl (search_start b - search_end b) > maximum_error params then
        (let scan_time = fl (duration - midpoint fl b) in
         case probe scan_time (fl (scan_time + 2)) of
           Inl e \<Rightarrow> Some (Inl e)
         | Inr black \<Rightarrow>
             credits_loop fl duration credits_start params probe
               (narrow fl duration credits_start params black b))
      else Some (Inr (first_black_frame b)))"

definition credits_range :: "f64 \<Rightarrow> f64 option \<Rightarrow> Range option" where
  "credits_range duration found =
     (case found of Some t \<Rightarrow> if t > 0 then Some (range_new t duration) else None | None \<Rightarrow> None)"

definition find_credits ::
    "(f64 \<Rightarrow> f64) \<Rightarrow> f64 \<Rightarrow> f64 \<Rightarrow> f64 \<Rightarrow> BlackFrameParams \<Rightarrow> 'e frame_probe \<Rightarrow> ('e + Range option) option" where
  "find_credits fl duration credits_start initial_start params probe =
     map_option (map_sum id (credits_range duration))
       (credits_loop fl duration credits_start params probe
          (first_bracket fl duration credits_start initial_start params))"

section \<open>Rounding\<close>

text \<open>What the properties use of the rounding: it keeps order and zero, and below \<open>2^32\<close> it is off by
  at most \<open>2^-20\<close>, the distance of two neighbouring \<open>f64\<close> values there.\<close>

definition f64_like :: "(f64 \<Rightarrow> f64) \<Rightarrow> bool" where
  "f64_like fl \<longleftrightarrow> mono fl \<and> fl 0 = 0 \<and> (\<forall>x. \<bar>x\<bar> \<le> 4294967296 \<longrightarrow> \<bar>fl x - x\<bar> \<le> 1 / 1048576)"

lemma f64_like_id [simp]: "f64_like (\<lambda>x. x)"
  by (simp add: f64_like_def mono_def)

lemma fl_near:
  assumes "f64_like fl" "- 4294967296 \<le> x" "x \<le> 4294967296"
  shows "x - 1 / 1048576 \<le> fl x" "fl x \<le> x + 1 / 1048576"
proof -
  have "\<bar>fl x - x\<bar> \<le> 1 / 1048576" using assms by (auto simp: f64_like_def)
  then show "x - 1 / 1048576 \<le> fl x" "fl x \<le> x + 1 / 1048576" by linarith+
qed

lemma fl_nonneg: "f64_like fl \<Longrightarrow> 0 \<le> x \<Longrightarrow> 0 \<le> fl x"
  by (auto simp: f64_like_def dest: monoD [of fl 0 x])

lemma fl_mono: "f64_like fl \<Longrightarrow> x \<le> y \<Longrightarrow> fl x \<le> fl y"
  by (auto simp: f64_like_def mono_def)

lemma ceiling_drop:
  fixes x y :: rat
  assumes "0 < x" "y \<le> x - 1"
  shows "nat \<lceil>y\<rceil> < nat \<lceil>x\<rceil>"
  using assms by linarith

lemma ceiling_drop_or_zero:
  fixes x y :: rat
  assumes "0 < x" "y \<le> x - 1 \<or> y \<le> 0"
  shows "nat \<lceil>y\<rceil> < nat \<lceil>x\<rceil>"
  using assms(2)
proof
  assume "y \<le> x - 1"
  with assms(1) show ?thesis by linarith
next
  assume "y \<le> 0"
  then have "nat \<lceil>y\<rceil> = 0" by simp
  moreover have "0 < nat \<lceil>x\<rceil>" using assms(1) by simp
  ultimately show ?thesis by simp
qed

section \<open>The search start\<close>

text \<open>Settings for which the searches make progress: the shortest credits are at least a second,
  the error at least half a second, and a file lasts less than \<open>2^30\<close> seconds.\<close>

definition settings_ok :: "BlackFrameParams \<Rightarrow> bool" where
  "settings_ok params \<longleftrightarrow>
     1 \<le> minimum_credits_duration params \<and> minimum_credits_duration params \<le> 1048576
     \<and> 1 / 2 \<le> maximum_error params \<and> maximum_error params \<le> 1048576"

definition window_ok :: "f64 \<Rightarrow> f64 \<Rightarrow> bool" where
  "window_ok duration credits_start \<longleftrightarrow>
     0 \<le> credits_start \<and> credits_start \<le> duration \<and> duration \<le> 1073741824"

lemma search_start_loop_returns:
  assumes fl: "f64_like fl" and step: "5 / 4 \<le> step" "step \<le> 4194304"
    and top: "m \<le> 2147483648" and low: "- 2147483648 \<le> start"
  shows "\<exists>r. search_start_loop fl probe duration step m start = Some r
    \<and> (case r of Inl e \<Rightarrow> \<exists>s t. probe s t = Inl e
       | Inr v \<Rightarrow> v = m \<or> (start \<le> v \<and> v < m \<and>
           (\<exists>black. probe (fl (fl (duration - v) - 1)) (fl (duration - v)) = Inr black \<and> length black < 3)))"
  using low
proof (induction "nat \<lceil>m - start\<rceil>" arbitrary: start rule: less_induct)
  case less
  show ?case
  proof (cases "start < m")
    case False
    then show ?thesis by (subst search_start_loop.simps) simp
  next
    case True
    let ?scan = "fl (duration - start)"
    show ?thesis
    proof (cases "probe (fl (?scan - 1)) ?scan")
      case (Inl e)
      then show ?thesis using True by (subst search_start_loop.simps) auto
    next
      case (Inr black)
      show ?thesis
      proof (cases "length black < 3")
        case small: True
        then show ?thesis using True Inr by (subst search_start_loop.simps) auto
      next
        case False
        have next_start: "start + 1 \<le> fl (start + step)"
          using fl_near(1) [OF fl, of "start + step"] step top True less.prems by linarith
        have "nat \<lceil>m - fl (start + step)\<rceil> < nat \<lceil>m - start\<rceil>"
          using True next_start by (intro ceiling_drop) linarith+
        from less.hyps [OF this] next_start less.prems obtain r where
          r: "search_start_loop fl probe duration step m (fl (start + step)) = Some r"
          "case r of Inl e \<Rightarrow> \<exists>s t. probe s t = Inl e
           | Inr v \<Rightarrow> v = m \<or> (fl (start + step) \<le> v \<and> v < m \<and>
               (\<exists>black. probe (fl (fl (duration - v) - 1)) (fl (duration - v)) = Inr black
                  \<and> length black < 3))" by fastforce
        have "search_start_loop fl probe duration step m start = Some r"
          using r(1) True Inr False by (subst search_start_loop.simps) (simp add: Let_def)
        then show ?thesis using r(2) next_start by (auto split: sum.splits)
      qed
    qed
  qed
qed

section \<open>The binary search\<close>

definition bracket_ok :: "(f64 \<Rightarrow> f64) \<Rightarrow> f64 \<Rightarrow> f64 \<Rightarrow> BlackFrameParams \<Rightarrow> Bracket \<Rightarrow> bool" where
  "bracket_ok fl duration credits_start params b \<longleftrightarrow>
     minimum_credits_duration params \<le> lower_limit b \<and> lower_limit b \<le> search_end b
     \<and> search_end b \<le> 2147483648 \<and> - 2147483648 \<le> search_start b \<and> search_start b \<le> 2147483648
     \<and> - 2147483648 \<le> upper_limit b \<and> upper_limit b \<le> fl (duration - credits_start)"

lemma cap_bounds:
  assumes "f64_like fl" "window_ok duration credits_start"
  shows "-1 \<le> fl (duration - credits_start)" "fl (duration - credits_start) \<le> 1073741825"
  using fl_near [OF assms(1), of "duration - credits_start"] assms(2)
  by (auto simp: window_ok_def)

lemma midpoint_bounds:
  assumes fl: "f64_like fl" and s: "settings_ok params"
    and ok: "bracket_ok fl duration credits_start params b"
    and go: "fl (search_start b - search_end b) > maximum_error params"
  shows "search_start b / 2 + search_end b / 2 - 1 / 524288 \<le> midpoint fl b"
    "midpoint fl b \<le> search_start b / 2 + search_end b / 2 + 1 / 524288"
    "search_end b < midpoint fl b" "midpoint fl b < search_start b"
    "maximum_error params - 1 / 1048576 \<le> search_start b - search_end b"
proof -
  note ok = ok [unfolded bracket_ok_def] and s = s [unfolded settings_ok_def]
  have gap: "maximum_error params - 1 / 1048576 \<le> search_start b - search_end b"
    using fl_near(2) [OF fl, of "search_start b - search_end b"] go ok s by linarith
  have sum: "search_start b + search_end b - 1 / 1048576 \<le> fl (search_start b + search_end b)"
    "fl (search_start b + search_end b) \<le> search_start b + search_end b + 1 / 1048576"
    using fl_near [OF fl, of "search_start b + search_end b"] ok s by linarith+
  have mid: "fl (search_start b + search_end b) / 2 - 1 / 1048576 \<le> midpoint fl b"
    "midpoint fl b \<le> fl (search_start b + search_end b) / 2 + 1 / 1048576"
    unfolding midpoint_def
    using fl_near [OF fl, of "fl (search_start b + search_end b) / 2"] sum ok s by linarith+
  show lo: "search_start b / 2 + search_end b / 2 - 1 / 524288 \<le> midpoint fl b"
    using sum(1) mid(1) unfolding add_divide_distrib by linarith
  show hi: "midpoint fl b \<le> search_start b / 2 + search_end b / 2 + 1 / 524288"
    using sum(2) mid(2) unfolding add_divide_distrib by linarith
  show "search_end b < midpoint fl b" "midpoint fl b < search_start b"
    using lo hi gap s by linarith+
  show "maximum_error params - 1 / 1048576 \<le> search_start b - search_end b" by (rule gap)
qed

text \<open>Half the distance of a step: what a limit moves by.\<close>

lemma half_distance:
  assumes "f64_like fl" "settings_ok params"
  shows "7 / 8 \<le> fl (1 / 2 * search_distance fl params)"
    "fl (1 / 2 * search_distance fl params) \<le> 1048578"
proof -
  note s = assms(2) [unfolded settings_ok_def]
  have d: "2 * minimum_credits_duration params - 1 / 1048576 \<le> search_distance fl params"
    "search_distance fl params \<le> 2 * minimum_credits_duration params + 1 / 1048576"
    unfolding search_distance_def
    using fl_near [OF assms(1), of "2 * minimum_credits_duration params"] s by linarith+
  show "7 / 8 \<le> fl (1 / 2 * search_distance fl params)"
    "fl (1 / 2 * search_distance fl params) \<le> 1048578"
    using fl_near [OF assms(1), of "1 / 2 * search_distance fl params"] d s by linarith+
qed


text \<open>Progress: how far the two limits can still move, and then how fine the bracket is.\<close>

definition widenings :: "(f64 \<Rightarrow> f64) \<Rightarrow> f64 \<Rightarrow> f64 \<Rightarrow> BlackFrameParams \<Rightarrow> Bracket \<Rightarrow> nat" where
  "widenings fl duration credits_start params b =
     nat \<lceil>2 * (lower_limit b - minimum_credits_duration params)\<rceil>
     + nat \<lceil>2 * (fl (duration - credits_start) - upper_limit b)\<rceil>"

definition resolution :: "(f64 \<Rightarrow> f64) \<Rightarrow> BlackFrameParams \<Rightarrow> Bracket \<Rightarrow> nat" where
  "resolution fl params b =
     (if fl (search_start b - search_end b) > maximum_error params
      then Suc (nat \<lceil>8 * (search_start b - search_end b)\<rceil>) else 0)"

definition closer ::
    "(f64 \<Rightarrow> f64) \<Rightarrow> f64 \<Rightarrow> f64 \<Rightarrow> BlackFrameParams \<Rightarrow> Bracket \<Rightarrow> Bracket \<Rightarrow> bool" where
  "closer fl duration credits_start params b' b \<longleftrightarrow>
     bracket_ok fl duration credits_start params b'
     \<and> (widenings fl duration credits_start params b' < widenings fl duration credits_start params b
        \<or> widenings fl duration credits_start params b' = widenings fl duration credits_start params b
          \<and> resolution fl params b' < resolution fl params b)"

lemma finer:
  assumes go: "fl (search_start b - search_end b) > maximum_error params"
    and pos: "0 < search_start b - search_end b"
    and less: "search_start b' - search_end b' \<le> search_start b - search_end b - 1 / 8"
  shows "resolution fl params b' < resolution fl params b"
proof -
  have "nat \<lceil>8 * (search_start b' - search_end b')\<rceil> < nat \<lceil>8 * (search_start b - search_end b)\<rceil>"
    using pos less by (intro ceiling_drop) (simp_all add: algebra_simps)
  then show ?thesis using go by (simp add: resolution_def)
qed

lemma narrow_empty_far:
  assumes fl: "f64_like fl" and s: "settings_ok params"
    and ok: "bracket_ok fl duration credits_start params b"
    and go: "fl (search_start b - search_end b) > maximum_error params"
    and far: "\<not> fl (midpoint fl b - lower_limit b) < maximum_error params"
  shows "closer fl duration credits_start params (narrow fl duration credits_start params [] b) b"
proof -
  let ?b = "narrow fl duration credits_start params [] b"
  have b: "?b = b\<lparr>search_start := fl (midpoint fl b - 2)\<rparr>"
    using far by (simp add: narrow_def Let_def)
  note mid = midpoint_bounds [OF fl s ok go]
  note ok' = ok [unfolded bracket_ok_def] and s' = s [unfolded settings_ok_def]
  have st: "midpoint fl b - 2 - 1 / 1048576 \<le> fl (midpoint fl b - 2)"
    "fl (midpoint fl b - 2) \<le> midpoint fl b - 2 + 1 / 1048576"
    using fl_near [OF fl, of "midpoint fl b - 2"] mid ok' s' by linarith+
  have "bracket_ok fl duration credits_start params ?b"
    unfolding b bracket_ok_def using ok' mid st s' by simp
  moreover have "resolution fl params ?b < resolution fl params b"
    using mid st s' by (intro finer [of params fl b, OF go]) (simp_all add: b)
  ultimately show ?thesis by (simp add: closer_def widenings_def b)
qed

lemma narrow_black_far:
  assumes fl: "f64_like fl" and s: "settings_ok params"
    and ok: "bracket_ok fl duration credits_start params b"
    and go: "fl (search_start b - search_end b) > maximum_error params"
    and far: "\<not> fl (upper_limit b - midpoint fl b) < maximum_error params"
  shows "closer fl duration credits_start params (narrow fl duration credits_start params (x # xs) b) b"
proof -
  let ?b = "narrow fl duration credits_start params (x # xs) b"
  have b: "search_end ?b = midpoint fl b" "search_start ?b = search_start b"
    "upper_limit ?b = upper_limit b" "lower_limit ?b = lower_limit b"
    using far by (simp_all add: narrow_def Let_def)
  note mid = midpoint_bounds [OF fl s ok go]
  note ok' = ok [unfolded bracket_ok_def] and s' = s [unfolded settings_ok_def]
  have "bracket_ok fl duration credits_start params ?b"
    unfolding b bracket_ok_def using ok' mid s' by simp
  moreover have "resolution fl params ?b < resolution fl params b"
    using mid s' by (intro finer [of params fl b, OF go]) (simp_all add: b)
  ultimately show ?thesis by (simp add: closer_def widenings_def b)
qed

lemma narrow_empty_near:
  assumes fl: "f64_like fl" and s: "settings_ok params"
    and ok: "bracket_ok fl duration credits_start params b"
    and go: "fl (search_start b - search_end b) > maximum_error params"
    and near: "fl (midpoint fl b - lower_limit b) < maximum_error params"
  shows "closer fl duration credits_start params (narrow fl duration credits_start params [] b) b"
proof -
  define h where "h = fl (1 / 2 * search_distance fl params)"
  let ?b = "narrow fl duration credits_start params [] b"
  let ?c = "minimum_credits_duration params"
  let ?low = "max (fl (lower_limit b - h)) ?c"
  have b: "search_start ?b = fl (midpoint fl b - 2)" "search_end ?b = ?low" "lower_limit ?b = ?low"
    "upper_limit ?b = upper_limit b"
    using near by (simp_all add: narrow_def Let_def h_def)
  note mid = midpoint_bounds [OF fl s ok go] and h = half_distance [OF fl s, folded h_def]
  note ok' = ok [unfolded bracket_ok_def] and s' = s [unfolded settings_ok_def]
  have st: "midpoint fl b - 2 - 1 / 1048576 \<le> fl (midpoint fl b - 2)"
    "fl (midpoint fl b - 2) \<le> midpoint fl b - 2 + 1 / 1048576"
    using fl_near [OF fl, of "midpoint fl b - 2"] mid ok' s' by linarith+
  have lw: "fl (lower_limit b - h) \<le> lower_limit b - 3 / 4"
    using fl_near(2) [OF fl, of "lower_limit b - h"] h ok' s' by linarith
  have okb: "bracket_ok fl duration credits_start params ?b"
    unfolding b bracket_ok_def using ok' mid st s' lw by simp
  show ?thesis
  proof (cases "lower_limit b = ?c")
    case True
    then have low: "max (fl (?c - h)) ?c = ?c" using lw by (intro max_absorb2) simp
    have "fl (search_start ?b - search_end ?b) \<le> fl (midpoint fl b - lower_limit b)"
      unfolding b True low using st by (intro fl_mono [OF fl]) simp
    then have "resolution fl params ?b = 0" using near by (simp add: resolution_def)
    moreover have "0 < resolution fl params b" using go by (simp add: resolution_def)
    moreover have "widenings fl duration credits_start params ?b = widenings fl duration credits_start params b"
      unfolding widenings_def b True low by simp
    ultimately show ?thesis using okb by (simp add: closer_def)
  next
    case False
    then have "nat \<lceil>2 * (?low - ?c)\<rceil> < nat \<lceil>2 * (lower_limit b - ?c)\<rceil>"
      using ok' lw by (intro ceiling_drop_or_zero) (auto simp: max_def)
    then have "widenings fl duration credits_start params ?b < widenings fl duration credits_start params b"
      by (simp only: widenings_def b)
    then show ?thesis using okb by (simp add: closer_def)
  qed
qed

lemma narrow_black_near:
  assumes fl: "f64_like fl" and s: "settings_ok params" and w: "window_ok duration credits_start"
    and ok: "bracket_ok fl duration credits_start params b"
    and go: "fl (search_start b - search_end b) > maximum_error params"
    and near: "fl (upper_limit b - midpoint fl b) < maximum_error params"
  shows "closer fl duration credits_start params (narrow fl duration credits_start params (x # xs) b) b"
proof -
  define h where "h = fl (1 / 2 * search_distance fl params)"
  let ?b = "narrow fl duration credits_start params (x # xs) b"
  let ?cap = "fl (duration - credits_start)"
  let ?up = "min (fl (upper_limit b + h)) ?cap"
  have b: "search_start ?b = ?up" "search_end ?b = midpoint fl b" "lower_limit ?b = lower_limit b"
    "upper_limit ?b = ?up"
    using near by (simp_all add: narrow_def Let_def h_def)
  note mid = midpoint_bounds [OF fl s ok go] and h = half_distance [OF fl s, folded h_def]
    and cap = cap_bounds [OF fl w]
  note ok' = ok [unfolded bracket_ok_def] and s' = s [unfolded settings_ok_def]
  have up: "upper_limit b + 3 / 4 \<le> fl (upper_limit b + h)"
    using fl_near(1) [OF fl, of "upper_limit b + h"] h ok' s' cap by linarith
  have okb: "bracket_ok fl duration credits_start params ?b"
    unfolding b bracket_ok_def using ok' mid s' up cap by simp
  show ?thesis
  proof (cases "upper_limit b = ?cap")
    case True
    then have cap': "min (fl (?cap + h)) ?cap = ?cap" using up by (intro min_absorb2) simp
    have "resolution fl params ?b = 0" using near unfolding resolution_def b True cap' by simp
    moreover have "0 < resolution fl params b" using go by (simp add: resolution_def)
    moreover have "widenings fl duration credits_start params ?b = widenings fl duration credits_start params b"
      unfolding widenings_def b True cap' by simp
    ultimately show ?thesis using okb by (simp add: closer_def)
  next
    case False
    then have "nat \<lceil>2 * (?cap - ?up)\<rceil> < nat \<lceil>2 * (?cap - upper_limit b)\<rceil>"
      using ok' up by (intro ceiling_drop_or_zero) (auto simp: min_def)
    then have "widenings fl duration credits_start params ?b < widenings fl duration credits_start params b"
      by (simp only: widenings_def b)
    then show ?thesis using okb by (simp add: closer_def)
  qed
qed

lemma narrow_closer:
  assumes "f64_like fl" "settings_ok params" "window_ok duration credits_start"
    "bracket_ok fl duration credits_start params b"
    "fl (search_start b - search_end b) > maximum_error params"
  shows "closer fl duration credits_start params (narrow fl duration credits_start params black b) b"
proof (cases black)
  case Nil
  then show ?thesis using narrow_empty_far [OF assms(1,2,4,5)] narrow_empty_near [OF assms(1,2,4,5)] by blast
next
  case (Cons x xs)
  then show ?thesis using narrow_black_far [OF assms(1,2,4,5)] narrow_black_near [OF assms] by blast
qed


text \<open>Every bracket the loop visits satisfies a property that the first one has and that \<open>narrow\<close>
  keeps, so the loop returns, and with the property at a bracket that is fine enough.\<close>

lemma credits_loop_returns:
  assumes fl: "f64_like fl" and s: "settings_ok params" and w: "window_ok duration credits_start"
    and ok: "bracket_ok fl duration credits_start params b" and inv: "P b"
    and keep: "\<And>b black. bracket_ok fl duration credits_start params b \<Longrightarrow>
        fl (search_start b - search_end b) > maximum_error params \<Longrightarrow>
        probe (fl (duration - midpoint fl b)) (fl (fl (duration - midpoint fl b) + 2)) = Inr black \<Longrightarrow>
        P b \<Longrightarrow> P (narrow fl duration credits_start params black b)"
  shows "\<exists>r. credits_loop fl duration credits_start params probe b = Some r
    \<and> (case r of Inl e \<Rightarrow> \<exists>s t. probe s t = Inl e
       | Inr found \<Rightarrow> \<exists>b'. P b' \<and> bracket_ok fl duration credits_start params b'
           \<and> fl (search_start b' - search_end b') \<le> maximum_error params
           \<and> found = first_black_frame b')"
  using ok inv
proof (induction "(widenings fl duration credits_start params b, resolution fl params b)"
    arbitrary: b rule: wf_induct_rule [OF wf_lex_prod [OF wf_less_than wf_less_than]])
  case (1 b)
  show ?case
  proof (cases "fl (search_start b - search_end b) > maximum_error params")
    case False
    then show ?thesis using 1(2,3) by (subst credits_loop.simps) auto
  next
    case True
    let ?scan = "fl (duration - midpoint fl b)"
    show ?thesis
    proof (cases "probe ?scan (fl (?scan + 2))")
      case (Inl e)
      then show ?thesis using True by (subst credits_loop.simps) (auto simp: Let_def)
    next
      case (Inr black)
      let ?b = "narrow fl duration credits_start params black b"
      have step: "closer fl duration credits_start params ?b b"
        using narrow_closer [OF fl s w 1(2) True] .
      have "\<exists>r. credits_loop fl duration credits_start params probe ?b = Some r
          \<and> (case r of Inl e \<Rightarrow> \<exists>s t. probe s t = Inl e
             | Inr found \<Rightarrow> \<exists>b'. P b' \<and> bracket_ok fl duration credits_start params b'
                 \<and> fl (search_start b' - search_end b') \<le> maximum_error params
                 \<and> found = first_black_frame b')"
        using step keep [OF 1(2) True Inr 1(3)] by (intro 1(1)) (auto simp: closer_def)
      moreover have "credits_loop fl duration credits_start params probe b
          = credits_loop fl duration credits_start params probe ?b"
        using True Inr by (subst credits_loop.simps) (simp add: Let_def)
      ultimately show ?thesis by simp
    qed
  qed
qed

lemma first_bracket_ok:
  assumes fl: "f64_like fl" and s: "settings_ok params" and w: "window_ok duration credits_start"
    and i: "0 \<le> initial_start" "initial_start \<le> 1073741825"
  shows "bracket_ok fl duration credits_start params
           (first_bracket fl duration credits_start initial_start params)"
proof -
  note s' = s [unfolded settings_ok_def] and cap = cap_bounds [OF fl w]
  have d: "2 * minimum_credits_duration params - 1 / 1048576 \<le> search_distance fl params"
    "search_distance fl params \<le> 2 * minimum_credits_duration params + 1 / 1048576"
    unfolding search_distance_def
    using fl_near [OF fl, of "2 * minimum_credits_duration params"] s' by linarith+
  have "fl (initial_start - search_distance fl params) \<le> initial_start"
    using fl_near(2) [OF fl, of "initial_start - search_distance fl params"] d s' i by linarith
  then show ?thesis using s' cap i
    by (auto simp: bracket_ok_def first_bracket_def Let_def)
qed


lemma scan_bounds:
  assumes fl: "f64_like fl" and w: "window_ok duration credits_start"
    and m: "0 \<le> m" "m \<le> 2147483648"
  shows "duration - m - 1 / 1048576 \<le> fl (duration - m)" "fl (duration - m) \<le> duration - m + 1 / 1048576"
    "fl (duration - m) + 2 - 1 / 1048576 \<le> fl (fl (duration - m) + 2)"
    "fl (fl (duration - m) + 2) \<le> fl (duration - m) + 2 + 1 / 1048576"
proof -
  note w' = w [unfolded window_ok_def]
  show *: "duration - m - 1 / 1048576 \<le> fl (duration - m)" "fl (duration - m) \<le> duration - m + 1 / 1048576"
    using fl_near [OF fl, of "duration - m"] w' m by linarith+
  show "fl (duration - m) + 2 - 1 / 1048576 \<le> fl (fl (duration - m) + 2)"
    "fl (fl (duration - m) + 2) \<le> fl (duration - m) + 2 + 1 / 1048576"
    using fl_near [OF fl, of "fl (duration - m) + 2"] * w' m by linarith+
qed

text \<open>The fields of a narrowed bracket.\<close>

lemma narrow_simps:
  "search_start (narrow fl d cs params [] b) = fl (midpoint fl b - 2)"
  "upper_limit (narrow fl d cs params [] b) = upper_limit b"
  "first_black_frame (narrow fl d cs params [] b) = first_black_frame b"
  "search_end (narrow fl d cs params (x # xs) b) = midpoint fl b"
  "lower_limit (narrow fl d cs params (x # xs) b) = lower_limit b"
  "first_black_frame (narrow fl d cs params (x # xs) b) = Some (fl (x + fl (d - midpoint fl b)))"
  by (simp_all add: narrow_def Let_def)

lemma narrow_limits:
  assumes fl: "f64_like fl" and s: "settings_ok params" and w: "window_ok duration credits_start"
    and ok: "bracket_ok fl duration credits_start params b"
  shows "search_end (narrow fl duration credits_start params [] b) \<le> search_end b"
    "upper_limit b \<le> upper_limit (narrow fl duration credits_start params black b)"
    "search_start (narrow fl duration credits_start params (x # xs) b) = search_start b
     \<or> search_start (narrow fl duration credits_start params (x # xs) b)
         = upper_limit (narrow fl duration credits_start params (x # xs) b)"
proof -
  define h where "h = fl (1 / 2 * search_distance fl params)"
  note h = half_distance [OF fl s, folded h_def] and cap = cap_bounds [OF fl w]
  note ok' = ok [unfolded bracket_ok_def] and s' = s [unfolded settings_ok_def]
  have lw: "fl (lower_limit b - h) \<le> lower_limit b"
    using fl_near(2) [OF fl, of "lower_limit b - h"] h ok' s' by linarith
  have up: "upper_limit b \<le> fl (upper_limit b + h)"
    using fl_near(1) [OF fl, of "upper_limit b + h"] h ok' s' cap by linarith
  show "search_end (narrow fl duration credits_start params [] b) \<le> search_end b"
    using lw ok' by (simp add: narrow_def Let_def h_def)
  show "upper_limit b \<le> upper_limit (narrow fl duration credits_start params black b)"
    using up ok' by (cases black) (simp_all add: narrow_def Let_def h_def)
  show "search_start (narrow fl duration credits_start params (x # xs) b) = search_start b
     \<or> search_start (narrow fl duration credits_start params (x # xs) b)
         = upper_limit (narrow fl duration credits_start params (x # xs) b)"
    by (simp add: narrow_def Let_def)
qed

text \<open>A probe whose black frames lie in the window it was asked for.\<close>

definition probe_in_window :: "'e frame_probe \<Rightarrow> bool" where
  "probe_in_window probe \<longleftrightarrow>
     (\<forall>s t bs x. probe s t = Inr bs \<and> x \<in> set bs \<longrightarrow> 0 \<le> x \<and> s + x \<le> t)"

definition frame_in_window :: "f64 \<Rightarrow> f64 \<Rightarrow> BlackFrameParams \<Rightarrow> Bracket \<Rightarrow> bool" where
  "frame_in_window duration credits_start params b \<longleftrightarrow>
     search_start b \<le> upper_limit b
     \<and> (\<forall>t. first_black_frame b = Some t \<longrightarrow>
          credits_start - 1 / 1000 \<le> t \<and> t \<le> duration - minimum_credits_duration params + 2 + 1 / 1000)"

lemma narrow_in_window:
  assumes fl: "f64_like fl" and s: "settings_ok params" and w: "window_ok duration credits_start"
    and pw: "probe_in_window probe"
    and ok: "bracket_ok fl duration credits_start params b"
    and go: "fl (search_start b - search_end b) > maximum_error params"
    and pr: "probe (fl (duration - midpoint fl b)) (fl (fl (duration - midpoint fl b) + 2)) = Inr black"
    and P: "frame_in_window duration credits_start params b"
  shows "frame_in_window duration credits_start params (narrow fl duration credits_start params black b)"
proof -
  note mid = midpoint_bounds [OF fl s ok go] and cap = cap_bounds [OF fl w]
  note ok' = ok [unfolded bracket_ok_def] and s' = s [unfolded settings_ok_def]
    and w' = w [unfolded window_ok_def] and P' = P [unfolded frame_in_window_def]
  note lims = narrow_limits [OF fl s w ok]
  have m: "0 \<le> midpoint fl b" "midpoint fl b \<le> 2147483648" using mid ok' s' by linarith+
  note scan = scan_bounds [OF fl w m]
  show ?thesis
  proof (cases black)
    case Nil
    have "fl (midpoint fl b - 2) \<le> midpoint fl b"
      using fl_near(2) [OF fl, of "midpoint fl b - 2"] m by linarith
    then have "fl (midpoint fl b - 2) \<le> upper_limit b" using mid P' by linarith
    then show ?thesis using P' Nil by (simp add: frame_in_window_def narrow_simps)
  next
    case (Cons x xs)
    let ?b = "narrow fl duration credits_start params (x # xs) b"
    have x: "0 \<le> x" "fl (duration - midpoint fl b) + x \<le> fl (fl (duration - midpoint fl b) + 2)"
      using pw pr Cons unfolding probe_in_window_def by (meson list.set_intros(1))+
    have t: "x + fl (duration - midpoint fl b) - 1 / 1048576 \<le> fl (x + fl (duration - midpoint fl b))"
      "fl (x + fl (duration - midpoint fl b)) \<le> x + fl (duration - midpoint fl b) + 1 / 1048576"
      using fl_near [OF fl, of "x + fl (duration - midpoint fl b)"] x scan w' m by linarith+
    have capd: "fl (duration - credits_start) \<le> duration - credits_start + 1 / 1048576"
      using fl_near(2) [OF fl, of "duration - credits_start"] w' by linarith
    have "credits_start - 1 / 1000 \<le> fl (x + fl (duration - midpoint fl b))"
      using t(1) x(1) scan(1) mid(4) P' ok' capd by linarith
    moreover have "fl (x + fl (duration - midpoint fl b))
        \<le> duration - minimum_credits_duration params + 2 + 1 / 1000"
      using t(2) x(2) scan mid(3) ok' by linarith
    moreover have "search_start ?b \<le> upper_limit ?b"
      using lims(2) [of "x # xs"] lims(3) [of x xs] P' by linarith
    ultimately show ?thesis using Cons by (simp add: frame_in_window_def narrow_simps)
  qed
qed

text \<open>The picture is black from \<open>T\<close> to the end, with a frame at least every \<open>gap\<close> seconds.\<close>

definition black_tail :: "f64 \<Rightarrow> f64 \<Rightarrow> 'e frame_probe \<Rightarrow> bool" where
  "black_tail T gap probe \<longleftrightarrow>
     (\<forall>s t. \<exists>bs. probe s t = Inr bs
        \<and> (t \<le> T \<longrightarrow> bs = []) \<and> (max s T + gap < t \<longrightarrow> bs \<noteq> [])
        \<and> (bs \<noteq> [] \<longrightarrow> max s T \<le> s + hd bs \<and> s + hd bs \<le> max s T + gap))"

definition frame_near :: "f64 \<Rightarrow> f64 \<Rightarrow> f64 \<Rightarrow> f64 \<Rightarrow> Bracket \<Rightarrow> bool" where
  "frame_near T gap tail_length lower b \<longleftrightarrow>
     tail_length \<le> search_start b + gap + 3 / 1048576 \<and> tail_length \<le> upper_limit b
     \<and> (case first_black_frame b of
          None \<Rightarrow> search_end b \<le> lower
        | Some t \<Rightarrow> T - 1 / 1048576 \<le> t
            \<and> t \<le> T + max 0 (tail_length - search_end b) + gap + 2 / 1048576)"

lemma narrow_near:
  assumes fl: "f64_like fl" and s: "settings_ok params" and w: "window_ok duration credits_start"
    and bt: "black_tail T gap probe" and gap: "0 \<le> gap" "gap \<le> 1" and T: "0 \<le> T" "T \<le> duration"
    and ok: "bracket_ok fl duration credits_start params b"
    and go: "fl (search_start b - search_end b) > maximum_error params"
    and pr: "probe (fl (duration - midpoint fl b)) (fl (fl (duration - midpoint fl b) + 2)) = Inr black"
    and P: "frame_near T gap (duration - T) lower b"
  shows "frame_near T gap (duration - T) lower (narrow fl duration credits_start params black b)"
proof -
  define m where "m = midpoint fl b"
  define scan where "scan = fl (duration - m)"
  note mid = midpoint_bounds [OF fl s ok go, folded m_def]
  note ok' = ok [unfolded bracket_ok_def] and s' = s [unfolded settings_ok_def]
    and w' = w [unfolded window_ok_def] and P' = P [unfolded frame_near_def]
  note lims = narrow_limits [OF fl s w ok]
  have m: "0 \<le> m" "m \<le> 2147483648" using mid ok' s' by linarith+
  note sc = scan_bounds [OF fl w m, folded scan_def]
  have bs: "fl (scan + 2) \<le> T \<Longrightarrow> black = []" "max scan T + gap < fl (scan + 2) \<Longrightarrow> black \<noteq> []"
    "black \<noteq> [] \<Longrightarrow> max scan T \<le> scan + hd black" "black \<noteq> [] \<Longrightarrow> scan + hd black \<le> max scan T + gap"
    using bt [unfolded black_tail_def, THEN spec, THEN spec, of scan "fl (scan + 2)"] pr
    by (auto simp: scan_def m_def)
  show ?thesis
  proof (cases black)
    case Nil
    then have "\<not> max scan T + gap < fl (scan + 2)" using bs(2) by blast
    then have "scan + 2 - 1 / 1048576 \<le> max scan T + gap" using sc(3) by linarith
    then have "scan + 2 - 1 / 1048576 \<le> T + gap" using gap by (auto simp: max_def split: if_splits)
    then have "duration - T \<le> m - 2 + gap + 2 / 1048576" using sc(1) by linarith
    moreover have "m - 2 - 1 / 1048576 \<le> fl (m - 2)"
      using fl_near(1) [OF fl, of "m - 2"] m by linarith
    ultimately have "duration - T \<le> fl (m - 2) + gap + 3 / 1048576" by linarith
    then show ?thesis using P' Nil lims(1)
      by (auto simp: frame_near_def narrow_simps m_def split: option.splits)
  next
    case (Cons x xs)
    have hx: "max scan T \<le> scan + x" "scan + x \<le> max scan T + gap" using bs(3,4) Cons by auto
    have t: "x + scan - 1 / 1048576 \<le> fl (x + scan)" "fl (x + scan) \<le> x + scan + 1 / 1048576"
      using fl_near [OF fl, of "x + scan"] hx sc(1,2) w' m T gap by (auto simp: max_def split: if_splits)
    have top: "max scan T \<le> T + max 0 (duration - T - m) + 1 / 1048576" using sc(2) by simp
    have "T - 1 / 1048576 \<le> fl (x + scan)" using t(1) hx(1) by simp
    moreover have "fl (x + scan) \<le> T + max 0 (duration - T - m) + gap + 2 / 1048576"
      using t(2) hx(2) top by linarith
    moreover have "duration - T \<le> upper_limit (narrow fl duration credits_start params (x # xs) b)"
      using P' lims(2) [of "x # xs"] by linarith
    moreover have "duration - T
        \<le> search_start (narrow fl duration credits_start params (x # xs) b) + gap + 3 / 1048576"
      using P' lims(2) [of "x # xs"] lims(3) [of x xs] gap by linarith
    ultimately show ?thesis using Cons
      by (simp add: frame_near_def narrow_simps scan_def m_def)
  qed
qed


section \<open>The two searches return\<close>

lemma find_search_start_total:
  assumes fl: "f64_like fl" and s: "settings_ok params" and w: "window_ok duration credits_start"
  obtains r where "find_search_start fl duration credits_start params probe = Some r"
    "case r of Inl e \<Rightarrow> \<exists>s t. probe s t = Inl e
     | Inr v \<Rightarrow> 0 \<le> v \<and> v \<le> fl (duration - credits_start) \<and>
         (v = fl (duration - credits_start) \<or>
           (\<exists>black. probe (fl (fl (duration - v) - 1)) (fl (duration - v)) = Inr black \<and> length black < 3))"
proof -
  note s' = s [unfolded settings_ok_def] and cap = cap_bounds [OF fl w]
  have "5 / 4 \<le> fl (2 * minimum_credits_duration params)"
    "fl (2 * minimum_credits_duration params) \<le> 4194304"
    using fl_near [OF fl, of "2 * minimum_credits_duration params"] s' by linarith+
  moreover have "0 \<le> fl (3 * minimum_credits_duration params)"
    "- 2147483648 \<le> fl (3 * minimum_credits_duration params)"
    using fl_nonneg [OF fl, of "3 * minimum_credits_duration params"] s' by linarith+
  moreover have "fl (duration - credits_start) \<le> 2147483648" "0 \<le> fl (duration - credits_start)"
    using cap fl_nonneg [OF fl, of "duration - credits_start"] w [unfolded window_ok_def] by linarith+
  ultimately show thesis
    using search_start_loop_returns [OF fl, of "fl (2 * minimum_credits_duration params)"
        "fl (duration - credits_start)" "fl (3 * minimum_credits_duration params)" probe duration] that
    by (fastforce simp: find_search_start_def split: sum.splits)
qed

lemma find_credits_total:
  assumes fl: "f64_like fl" and s: "settings_ok params" and w: "window_ok duration credits_start"
    and i: "0 \<le> initial_start" "initial_start \<le> 1073741825"
  obtains r where "find_credits fl duration credits_start initial_start params probe = Some r"
    "\<And>c. r = Inr (Some c) \<Longrightarrow> rg_end c = duration \<and> 0 < rg_start c"
    "\<And>e. r = Inl e \<Longrightarrow> \<exists>s t. probe s t = Inl e"
proof -
  from credits_loop_returns [OF fl s w first_bracket_ok [OF fl s w i], of "\<lambda>_. True" probe]
  obtain r where r: "credits_loop fl duration credits_start params probe
      (first_bracket fl duration credits_start initial_start params) = Some r"
    and post: "case r of Inl e \<Rightarrow> \<exists>s t. probe s t = Inl e | Inr _ \<Rightarrow> True"
    by (fastforce split: sum.splits)
  show thesis
  proof (rule that)
    show "find_credits fl duration credits_start initial_start params probe
        = Some (map_sum id (credits_range duration) r)" using r by (simp add: find_credits_def)
    show "rg_end c = duration \<and> 0 < rg_start c" if "map_sum id (credits_range duration) r = Inr (Some c)" for c
      using that by (cases r) (auto simp: credits_range_def split: option.splits if_splits)
    show "\<exists>s t. probe s t = Inl e" if "map_sum id (credits_range duration) r = Inl e" for e
      using that post by (cases r) auto
  qed
qed

section \<open>Properties of the black-frame search\<close>

text \<open>The position the binary search starts from: the walk backwards always returns, an error only
  when a probe fails, and otherwise the tail limit or a position at which fewer than three frames are
  black.\<close>

theorem find_search_start_returns:
  assumes fl: "f64_like fl" and s: "settings_ok params" and w: "window_ok duration credits_start"
  shows "\<exists>r. find_search_start fl duration credits_start params probe = Some r
    \<and> (case r of Inl e \<Rightarrow> \<exists>s t. probe s t = Inl e
       | Inr v \<Rightarrow> v = fl (duration - credits_start) \<or>
           (v \<le> fl (duration - credits_start) \<and>
             (\<exists>black. probe (fl (fl (duration - v) - 1)) (fl (duration - v)) = Inr black
                \<and> length black < 3)))"
proof -
  obtain r where "find_search_start fl duration credits_start params probe = Some r"
    "case r of Inl e \<Rightarrow> \<exists>s t. probe s t = Inl e
     | Inr v \<Rightarrow> 0 \<le> v \<and> v \<le> fl (duration - credits_start) \<and>
         (v = fl (duration - credits_start) \<or>
           (\<exists>black. probe (fl (fl (duration - v) - 1)) (fl (duration - v)) = Inr black \<and> length black < 3))"
    using find_search_start_total [OF fl s w] by blast
  then show ?thesis by (auto split: sum.splits)
qed

text \<open>Witness, with the settings the program ships.\<close>

abbreviation shipped :: BlackFrameParams where
  "shipped \<equiv> BlackFrameParams_default (\<lambda>x. x)"

lemma shipped_ok: "settings_ok shipped"
  by (simp add: settings_ok_def BlackFrameParams_default_def BLACK_CREDITS_MIN_MS_def)

theorem find_search_start_returns_witness:
  "\<exists>r. find_search_start (\<lambda>x. x) 1440 990 shipped (\<lambda>_ _. Inr [] :: unit + f64 list) = Some r"
  using find_search_start_returns [OF f64_like_id shipped_ok, of 1440 990 "\<lambda>_ _. Inr [] :: unit + f64 list"]
  by (auto simp: window_ok_def)

text \<open>The search for the credits always returns: an error only when a probe fails, and otherwise no
  segment or one that ends with the file, begins in the tail that is searched, and is not shorter than
  the shortest credits less the two seconds a probe looks ahead.\<close>

theorem find_credits_returns:
  assumes fl: "f64_like fl" and s: "settings_ok params" and w: "window_ok duration credits_start"
    and i: "0 \<le> initial_start" "initial_start \<le> 1073741825"
    and pw: "probe_in_window probe"
  shows "\<exists>r. find_credits fl duration credits_start initial_start params probe = Some r
    \<and> (case r of Inl e \<Rightarrow> \<exists>s t. probe s t = Inl e
       | Inr None \<Rightarrow> True
       | Inr (Some c) \<Rightarrow> rg_end c = duration \<and> 0 < rg_start c
           \<and> credits_start - 1 / 1000 \<le> rg_start c
           \<and> rg_start c \<le> duration - minimum_credits_duration params + 2 + 1 / 1000)"
proof -
  let ?b = "first_bracket fl duration credits_start initial_start params"
  have "frame_in_window duration credits_start params ?b"
    by (simp add: frame_in_window_def first_bracket_def Let_def)
  from credits_loop_returns [OF fl s w first_bracket_ok [OF fl s w i],
      of "frame_in_window duration credits_start params" probe, OF this]
    narrow_in_window [OF fl s w pw]
  obtain r where r: "credits_loop fl duration credits_start params probe ?b = Some r"
    and post: "case r of Inl e \<Rightarrow> \<exists>s t. probe s t = Inl e
       | Inr found \<Rightarrow> \<exists>b'. frame_in_window duration credits_start params b'
           \<and> bracket_ok fl duration credits_start params b'
           \<and> fl (search_start b' - search_end b') \<le> maximum_error params
           \<and> found = first_black_frame b'" by blast
  then show ?thesis
    by (cases r)
      (auto simp: find_credits_def credits_range_def frame_in_window_def split: option.splits)
qed

text \<open>Witness.\<close>

theorem find_credits_returns_witness:
  "\<exists>r. find_credits (\<lambda>x. x) 1440 990 45 shipped (\<lambda>_ _. Inr [] :: unit + f64 list) = Some r"
  using find_credits_returns [OF f64_like_id shipped_ok, of 1440 990 45 "\<lambda>_ _. Inr [] :: unit + f64 list"]
  by (auto simp: window_ok_def probe_in_window_def)

text \<open>C16. The binary search lands on the credits: when the picture is black from \<open>T\<close> on, with frames no
  more than \<open>gap\<close> apart, and \<open>T\<close> lies inside the first bracket by more than the resolution, the
  segment found starts within the resolution of \<open>T\<close>.\<close>

theorem credits_search_lands:
  assumes fl: "f64_like fl" and s: "settings_ok params" and w: "window_ok duration credits_start"
    and i: "0 \<le> initial_start" "initial_start \<le> 1073741825"
    and bt: "black_tail T gap probe" and gap: "0 \<le> gap" "gap \<le> 1" and T: "1 \<le> T" "T \<le> duration"
    and upper: "duration - T \<le> upper_limit (first_bracket fl duration credits_start initial_start params)"
    and lower: "lower_limit (first_bracket fl duration credits_start initial_start params)
                  + maximum_error params + gap + 1 / 1000 < duration - T"
  shows "\<exists>t. find_credits fl duration credits_start initial_start params probe
               = Some (Inr (Some (range_new t duration)))
             \<and> T - 1 / 1000 \<le> t \<and> t \<le> T + maximum_error params + 2 * gap + 1 / 1000"
proof -
  let ?b = "first_bracket fl duration credits_start initial_start params"
  let ?P = "frame_near T gap (duration - T) (lower_limit ?b)"
  have "?P ?b" using upper gap
    by (auto simp: frame_near_def first_bracket_def Let_def min_def)
  from credits_loop_returns [OF fl s w first_bracket_ok [OF fl s w i], of ?P probe, OF this]
    narrow_near [OF fl s w bt gap _ T(2)] T(1)
  obtain r where r: "credits_loop fl duration credits_start params probe ?b = Some r"
    and post: "case r of Inl e \<Rightarrow> \<exists>s t. probe s t = Inl e
       | Inr found \<Rightarrow> \<exists>b'. ?P b' \<and> bracket_ok fl duration credits_start params b'
           \<and> fl (search_start b' - search_end b') \<le> maximum_error params
           \<and> found = first_black_frame b'" by fastforce
  have "probe s' t \<noteq> Inl e" for s' t e
    using bt unfolding black_tail_def by (metis sum.distinct(1))
  then obtain found b' where found: "r = Inr found" "found = first_black_frame b'" and P: "?P b'"
    and ok: "bracket_ok fl duration credits_start params b'"
    and fine: "fl (search_start b' - search_end b') \<le> maximum_error params"
    using post by (cases r) auto
  note s' = s [unfolded settings_ok_def] and ok' = ok [unfolded bracket_ok_def]
    and P' = P [unfolded frame_near_def]
  have "search_start b' - search_end b' \<le> maximum_error params + 1 / 1048576"
    using fl_near(1) [OF fl, of "search_start b' - search_end b'"] fine ok' s' by linarith
  then have close: "duration - T - search_end b' \<le> maximum_error params + gap + 4 / 1048576"
    using P' by linarith
  show ?thesis
  proof (cases "first_black_frame b'")
    case None
    then have "search_end b' \<le> lower_limit ?b" using P' by simp
    then show ?thesis using close lower by linarith
  next
    case (Some t)
    then have t: "T - 1 / 1048576 \<le> t"
      "t \<le> T + max 0 (duration - T - search_end b') + gap + 2 / 1048576" using P' by simp_all
    moreover have "0 \<le> maximum_error params + gap" using s' gap by linarith
    ultimately have "t \<le> T + maximum_error params + 2 * gap + 1 / 1000" using close by linarith
    moreover have "0 < t" using t(1) T(1) by linarith
    moreover have "T - 1 / 1000 \<le> t" using t(1) by linarith
    moreover have "find_credits fl duration credits_start initial_start params probe
        = Some (Inr (Some (range_new t duration)))"
      using r found Some \<open>0 < t\<close> by (simp add: find_credits_def credits_range_def)
    ultimately show ?thesis by blast
  qed
qed


text \<open>Witness: an episode of 24 minutes whose last 140 seconds are black.\<close>

definition tail_probe :: "f64 \<Rightarrow> unit frame_probe" where
  "tail_probe T start stop = Inr (if stop \<le> max start T then [] else [max start T - start])"

lemma black_tail_probe: "black_tail T 0 (tail_probe T)"
  by (auto simp: black_tail_def tail_probe_def)

theorem credits_search_lands_witness:
  "\<exists>t. find_credits (\<lambda>x. x) 1440 990 145 shipped (tail_probe 1300) = Some (Inr (Some (range_new t 1440)))
     \<and> 1300 - 1 / 1000 \<le> t \<and> t \<le> 1300 + 4 + 1 / 1000"
  using credits_search_lands [OF f64_like_id shipped_ok _ _ _ black_tail_probe, of 1440 990 145 1300]
  by (simp add: window_ok_def first_bracket_def Let_def search_distance_def BlackFrameParams_default_def
      BLACK_CREDITS_MIN_MS_def)


end
