(* ===== verification/Intro_Silence.thy ===== *)
theory Intro_Silence
  imports Intro_Chroma
begin

text \<open>
  Where the sound pauses, \<open>crates/kahawai-intro/src/silence.rs\<close>: the runs of frames in which every
  channel stays below a noise floor. The samples are \<open>i16\<close> words, \<open>fl\<close> is the rounding of \<open>f64\<close> and
  \<open>pow10\<close> is \<open>10f64.powf\<close>. The rate of a decoded window is not zero; a division by zero, which the
  code would carry as an infinity, is outside the model.
\<close>

section \<open>Definitions\<close>

record AudioWindow =
  aw_rate :: u32
  aw_channels :: u32
  aw_samples :: "16 word list"

definition push_run ::
    "(f64 \<Rightarrow> f64) \<Rightarrow> Range list \<Rightarrow> nat \<Rightarrow> nat \<Rightarrow> f64 \<Rightarrow> f64 \<Rightarrow> f64 \<Rightarrow> Range list" where
  "push_run fl out begin_at end_at rate offset minimum =
     (let start = fl (of_nat begin_at / rate); stop = fl (of_nat end_at / rate) in
      if fl (stop - start) \<ge> minimum
      then out @ [range_new (fl (offset + start)) (fl (offset + stop))]
      else out)"

text \<open>Every sample of a frame is below the threshold.\<close>

definition quiet_frame :: "f64 \<Rightarrow> nat \<Rightarrow> 16 word list \<Rightarrow> nat \<Rightarrow> bool" where
  "quiet_frame threshold channels samples frame =
     list_all (\<lambda>s. \<bar>of_int (sint s)\<bar> < threshold) (take channels (drop (frame * channels) samples))"

text \<open>One turn of the loop over the frames, on the ranges found and the start of the open run.\<close>

definition silence_step ::
    "(f64 \<Rightarrow> f64) \<Rightarrow> (nat \<Rightarrow> bool) \<Rightarrow> f64 \<Rightarrow> f64 \<Rightarrow> f64 \<Rightarrow> nat \<Rightarrow> Range list \<times> nat option
       \<Rightarrow> Range list \<times> nat option" where
  "silence_step fl quiet rate offset minimum frame st =
     (case (quiet frame, snd st) of
        (True, None) \<Rightarrow> (fst st, Some frame)
      | (False, Some begin_at) \<Rightarrow> (push_run fl (fst st) begin_at frame rate offset minimum, None)
      | _ \<Rightarrow> st)"

text \<open>\<open>pow10\<close> is \<open>10f64.powf\<close>.\<close>

definition detect_samples ::
    "(f64 \<Rightarrow> f64) \<Rightarrow> (f64 \<Rightarrow> f64) \<Rightarrow> AudioWindow \<Rightarrow> f64 \<Rightarrow> f64 \<Rightarrow> f64 \<Rightarrow> Range list" where
  "detect_samples fl pow10 window offset noise_db minimum =
     (let threshold = fl (pow10 (fl (noise_db / 20)) * 32767);
          channels = unat (max (aw_channels window) 1);
          rate = of_nat (unat (aw_rate window));
          frames = length (aw_samples window) div channels;
          (ranges, run_start) =
            fold (silence_step fl (quiet_frame threshold channels (aw_samples window)) rate offset minimum)
              [0..<frames] ([], None)
      in case run_start of
           Some begin_at \<Rightarrow> push_run fl ranges begin_at frames rate offset minimum
         | None \<Rightarrow> ranges)"


section \<open>Properties of the silence detection\<close>

text \<open>Frames \<open>b\<close> up to, not including, \<open>e\<close> of \<open>n\<close> are quiet, and the run cannot be extended.\<close>

definition maximal_quiet :: "(nat \<Rightarrow> bool) \<Rightarrow> nat \<Rightarrow> nat \<times> nat \<Rightarrow> bool" where
  "maximal_quiet quiet n run =
     (case run of (b, e) \<Rightarrow> b < e \<and> e \<le> n \<and> (\<forall>k \<in> {b..<e}. quiet k)
        \<and> (b = 0 \<or> \<not> quiet (b - 1)) \<and> (e = n \<or> \<not> quiet e))"

definition run_range :: "(f64 \<Rightarrow> f64) \<Rightarrow> f64 \<Rightarrow> f64 \<Rightarrow> nat \<times> nat \<Rightarrow> Range" where
  "run_range fl rate offset run =
     range_new (fl (offset + fl (of_nat (fst run) / rate))) (fl (offset + fl (of_nat (snd run) / rate)))"

definition long_run :: "(f64 \<Rightarrow> f64) \<Rightarrow> f64 \<Rightarrow> f64 \<Rightarrow> nat \<times> nat \<Rightarrow> bool" where
  "long_run fl rate minimum run \<longleftrightarrow>
     minimum \<le> fl (fl (of_nat (snd run) / rate) - fl (of_nat (fst run) / rate))"

lemma push_run_eq:
  "push_run fl out b e rate offset minimum
     = out @ map (run_range fl rate offset) (filter (long_run fl rate minimum) [(b, e)])"
  by (simp add: push_run_def run_range_def long_run_def Let_def)

text \<open>The loop after \<open>k\<close> frames: the runs closed so far, in order, and the open one.\<close>

definition scanned :: "(nat \<Rightarrow> bool) \<Rightarrow> nat \<Rightarrow> (nat \<times> nat) list \<Rightarrow> nat option \<Rightarrow> bool" where
  "scanned quiet k runs open_run \<longleftrightarrow>
     set runs = {(b, e). e < k \<and> \<not> quiet e \<and> maximal_quiet quiet k (b, e)}
     \<and> sorted_wrt (\<lambda>r r'. snd r < fst r') runs
     \<and> (case open_run of
          None \<Rightarrow> k = 0 \<or> \<not> quiet (k - 1)
        | Some b \<Rightarrow> b < k \<and> (\<forall>j \<in> {b..<k}. quiet j) \<and> (b = 0 \<or> \<not> quiet (b - 1)))"

lemma closed_runs_Suc:
  "{(b, e). e < Suc k \<and> \<not> quiet e \<and> maximal_quiet quiet (Suc k) (b, e)}
     = {(b, e). e < k \<and> \<not> quiet e \<and> maximal_quiet quiet k (b, e)}
       \<union> {(b, e). e = k \<and> \<not> quiet k \<and> maximal_quiet quiet k (b, k)}"
  by (auto simp: maximal_quiet_def less_Suc_eq)

lemma open_run_unique:
  assumes "b < k" "\<forall>j \<in> {b..<k}. quiet j" "b = 0 \<or> \<not> quiet (b - 1)"
  shows "maximal_quiet quiet k (b', k) \<longleftrightarrow> b' = b"
proof
  assume m: "maximal_quiet quiet k (b', k)"
  show "b' = b"
  proof (rule ccontr)
    assume "b' \<noteq> b"
    then consider "b' < b" | "b < b'" by linarith
    then show False
    proof cases
      case 1
      then have "b - 1 \<in> {b'..<k}" using assms(1) by auto
      then have "quiet (b - 1)" using m by (simp add: maximal_quiet_def)
      then show False using assms(3) 1 by simp
    next
      case 2
      then have "b' - 1 \<in> {b..<k}" using m by (auto simp: maximal_quiet_def)
      then have "quiet (b' - 1)" using assms(2) by blast
      then show False using m 2 by (auto simp: maximal_quiet_def)
    qed
  qed
qed (use assms in \<open>auto simp: maximal_quiet_def\<close>)

lemma silence_fold:
  "\<exists>runs open_run. fold (silence_step fl quiet rate offset minimum) [0..<k] ([], None)
       = (map (run_range fl rate offset) (filter (long_run fl rate minimum) runs), open_run)
     \<and> scanned quiet k runs open_run"
proof (induction k)
  case 0
  show ?case by (rule exI [of _ "[]"]) (simp add: scanned_def)
next
  case (Suc k)
  let ?out = "\<lambda>runs. map (run_range fl rate offset) (filter (long_run fl rate minimum) runs)"
  obtain runs open_run where
    f: "fold (silence_step fl quiet rate offset minimum) [0..<k] ([], None) = (?out runs, open_run)"
    and sc: "scanned quiet k runs open_run" using Suc by blast
  have step: "fold (silence_step fl quiet rate offset minimum) [0..<Suc k] ([], None)
      = silence_step fl quiet rate offset minimum k (?out runs, open_run)" using f by simp
  show ?case
  proof (cases "quiet k")
    case True
    have closed: "set runs = {(b, e). e < Suc k \<and> \<not> quiet e \<and> maximal_quiet quiet (Suc k) (b, e)}"
      using sc True by (simp add: closed_runs_Suc scanned_def)
    let ?open = "case open_run of None \<Rightarrow> Some k | Some b \<Rightarrow> Some b"
    have "scanned quiet (Suc k) runs ?open"
      using sc True closed by (auto simp: scanned_def less_Suc_eq split: option.splits)
    moreover have "silence_step fl quiet rate offset minimum k (?out runs, open_run) = (?out runs, ?open)"
      using True by (simp add: silence_step_def split: option.splits)
    ultimately show ?thesis unfolding step by blast
  next
    case False
    show ?thesis
    proof (cases open_run)
      case None
      have none: "\<not> maximal_quiet quiet k (b, k)" for b
        using sc None by (auto simp: scanned_def maximal_quiet_def)
      have "scanned quiet (Suc k) runs None"
        using sc None False none by (auto simp: scanned_def closed_runs_Suc)
      moreover have "silence_step fl quiet rate offset minimum k (?out runs, open_run) = (?out runs, None)"
        using False None by (simp add: silence_step_def)
      ultimately show ?thesis unfolding step by blast
    next
      case (Some b)
      then have b: "b < k" "\<forall>j \<in> {b..<k}. quiet j" "b = 0 \<or> \<not> quiet (b - 1)"
        using sc by (auto simp: scanned_def)
      have before: "snd r < b" if "r \<in> set runs" for r
      proof -
        have r: "snd r < k" "\<not> quiet (snd r)" using sc that by (auto simp: scanned_def)
        then show ?thesis using b(2) by (meson atLeastLessThan_iff not_le)
      qed
      have "scanned quiet (Suc k) (runs @ [(b, k)]) None"
        using sc False before open_run_unique [OF b]
        by (auto simp: scanned_def closed_runs_Suc sorted_wrt_append)
      moreover have "silence_step fl quiet rate offset minimum k (?out runs, open_run)
          = (?out (runs @ [(b, k)]), None)"
        using False Some by (simp add: silence_step_def push_run_eq)
      ultimately show ?thesis unfolding step by blast
    qed
  qed
qed

text \<open>The silences reported are exactly the maximal runs of quiet frames that last long enough, in
  order and apart from each other.\<close>

theorem detect_samples_exact:
  fixes window :: AudioWindow and fl pow10 :: "f64 \<Rightarrow> f64" and noise_db :: f64
  defines "channels \<equiv> unat (max (aw_channels window) 1)"
    and "rate \<equiv> of_nat (unat (aw_rate window))"
  defines "frames \<equiv> length (aw_samples window) div channels"
    and "quiet \<equiv> quiet_frame (fl (pow10 (fl (noise_db / 20)) * 32767)) channels (aw_samples window)"
  shows "\<exists>runs. set runs = {run. maximal_quiet quiet frames run}
    \<and> sorted_wrt (\<lambda>r r'. snd r < fst r') runs
    \<and> detect_samples fl pow10 window offset noise_db minimum
        = map (run_range fl rate offset) (filter (long_run fl rate minimum) runs)"
proof -
  obtain runs open_run where
    f: "fold (silence_step fl quiet rate offset minimum) [0..<frames] ([], None)
        = (map (run_range fl rate offset) (filter (long_run fl rate minimum) runs), open_run)"
    and sc: "scanned quiet frames runs open_run" using silence_fold by blast
  have det: "detect_samples fl pow10 window offset noise_db minimum
      = (case open_run of
           Some b \<Rightarrow> push_run fl (map (run_range fl rate offset) (filter (long_run fl rate minimum) runs))
                       b frames rate offset minimum
         | None \<Rightarrow> map (run_range fl rate offset) (filter (long_run fl rate minimum) runs))"
    using f unfolding detect_samples_def Let_def channels_def rate_def frames_def quiet_def
    by (cases open_run) simp_all
  have whole: "{run. maximal_quiet quiet frames run}
      = {(b, e). e < frames \<and> \<not> quiet e \<and> maximal_quiet quiet frames (b, e)}
        \<union> {(b, e). e = frames \<and> maximal_quiet quiet frames (b, frames)}"
    by (auto simp: maximal_quiet_def)
  show ?thesis
  proof (cases open_run)
    case None
    then have "\<not> maximal_quiet quiet frames (b, frames)" for b
      using sc by (auto simp: scanned_def maximal_quiet_def)
    then show ?thesis using None sc det by (intro exI [of _ runs]) (auto simp: scanned_def whole)
  next
    case (Some b)
    then have b: "b < frames" "\<forall>j \<in> {b..<frames}. quiet j" "b = 0 \<or> \<not> quiet (b - 1)"
      using sc by (auto simp: scanned_def)
    have before: "snd r < b" if "r \<in> set runs" for r
    proof -
      have r: "snd r < frames" "\<not> quiet (snd r)" using sc that by (auto simp: scanned_def)
      then show ?thesis using b(2) by (meson atLeastLessThan_iff not_le)
    qed
    show ?thesis using Some sc det before open_run_unique [OF b]
      by (intro exI [of _ "runs @ [(b, frames)]"])
        (auto simp: scanned_def whole push_run_eq sorted_wrt_append)
  qed
qed

end
