(* ===== verification/Intro_Season.thy ===== *)
theory Intro_Season
  imports Intro_Credits Intro_Silence
begin

text \<open>
  A season's analysis, \<open>crates/kahawai-intro/src/season.rs\<close>: the windows, the pairwise search over a
  queue of episodes, the refinement of an end, the credits by black frames with the position carried
  from episode to episode, the recap, and the report. What the decoder and the fingerprinter answer
  is the record \<open>decoder\<close>, with the rounding of the arithmetic, the iteration orders of the hash
  maps and the answers of the \<open>between\<close> callback. A read that fails adds its episode to a set; the
  wall-clock time of the report is left out. A hash map is a map, a lookup that would panic is the
  error \<open>NoPrint\<close>.
\<close>

section \<open>Definitions\<close>

record 'e decoder =
  audio_window :: "string \<Rightarrow> f64 \<Rightarrow> f64 \<Rightarrow> 'e + AudioWindow"
  fingerprint_samples :: "AudioWindow \<Rightarrow> 'e + u32 list"
  luma_window :: "string \<Rightarrow> f64 \<Rightarrow> f64 \<Rightarrow> u8 \<Rightarrow> 'e + LumaFrame list"
  keyframes_window :: "string \<Rightarrow> f64 \<Rightarrow> f64 \<Rightarrow> 'e + f64 list"
  between :: "nat \<Rightarrow> 'e option"
  rounding :: "f64 \<Rightarrow> f64"
  pow10 :: "f64 \<Rightarrow> f64"
  index_order :: "u32 list \<Rightarrow> u32 list"
  key_order :: "(nat \<rightharpoonup> Range) \<Rightarrow> nat list"

definition EPSILON :: "(f64 \<Rightarrow> f64) \<Rightarrow> f64" where
  "EPSILON fl = fl (1 / 1000)"

record Config =
  analysis_percent :: f64
  analysis_length_limit :: f64
  maximum_intro_duration :: f64
  maximum_credits_duration :: f64
  cf_search :: SearchParams
  cf_black :: BlackFrameParams
  silence_noise_db :: f64
  silence_minimum_duration :: f64
  adjust_window_inward :: f64
  adjust_window_outward :: f64
  end_snap_threshold :: f64
  adjust_on_silence :: bool
  snap_to_keyframe :: bool
  anime :: bool
  scan_recap :: bool
  recap_card_minimum_duration :: f64
  minimum_recap_duration :: f64
  maximum_recap_duration :: f64

definition Config_default :: "(f64 \<Rightarrow> f64) \<Rightarrow> Config" where
  "Config_default fl =
     \<lparr>analysis_percent = 1 / 4,
      analysis_length_limit = fl (of_nat INTRO_WINDOW_LIMIT_MS / 1000),
      maximum_intro_duration = fl (of_nat INTRO_MAX_MS / 1000),
      maximum_credits_duration = fl (of_nat CREDITS_WINDOW_MS / 1000),
      cf_search = SearchParams_default fl, cf_black = BlackFrameParams_default fl,
      silence_noise_db = - 50, silence_minimum_duration = fl (33 / 100),
      adjust_window_inward = fl (of_nat END_REFINEMENT_INWARD_MS / 1000),
      adjust_window_outward = fl (of_nat END_REFINEMENT_OUTWARD_MS / 1000),
      end_snap_threshold = 2, adjust_on_silence = True, snap_to_keyframe = True,
      anime = False, scan_recap = True, recap_card_minimum_duration = 3,
      minimum_recap_duration = fl (of_nat RECAP_MIN_MS / 1000),
      maximum_recap_duration = fl (of_nat RECAP_MAX_MS / 1000)\<rparr>"

record Episode =
  ep_media :: string
  ep_name :: string
  ep_duration :: f64
  ep_id :: string
  ep_number :: "u32 option"

definition episode_new :: "string \<Rightarrow> string \<Rightarrow> f64 \<Rightarrow> Episode" where
  "episode_new media name duration =
     \<lparr>ep_media = media, ep_name = name, ep_duration = duration, ep_id = [], ep_number = None\<rparr>"

definition can_compare :: "Episode \<Rightarrow> Episode \<Rightarrow> bool" where
  "can_compare a b = (ep_number a = None \<or> ep_number a \<noteq> ep_number b)"

definition intro_window :: "(f64 \<Rightarrow> f64) \<Rightarrow> Config \<Rightarrow> Episode \<Rightarrow> f64 \<times> f64" where
  "intro_window fl cfg e =
     (let by_percent = (if ep_duration e \<ge> 5 * 60 then fl (ep_duration e * analysis_percent cfg)
                        else ep_duration e)
      in (0, min by_percent (analysis_length_limit cfg)))"

definition credits_window :: "(f64 \<Rightarrow> f64) \<Rightarrow> Config \<Rightarrow> Episode \<Rightarrow> f64 \<times> f64" where
  "credits_window fl cfg e =
     (max (fl (ep_duration e - min (ep_duration e) (maximum_credits_duration cfg))) 0, ep_duration e)"

record EpisodeSegments =
  sg_name :: string
  sg_id :: string
  sg_duration :: f64
  sg_recap :: "Range option"
  sg_intro :: "Range option"
  sg_credits :: "Range option"
  sg_credits_source :: "string option"
  sg_unreadable :: bool

datatype Mode = Intro | Credits

definition windows_for :: "(f64 \<Rightarrow> f64) \<Rightarrow> Config \<Rightarrow> Mode \<Rightarrow> Episode list \<Rightarrow> (f64 \<times> f64) list" where
  "windows_for fl cfg mode episodes =
     map (case mode of Intro \<Rightarrow> intro_window fl cfg | Credits \<Rightarrow> credits_window fl cfg) episodes"

subsection \<open>Reading\<close>

datatype 'e season_error = Cancelled 'e | NoPrint nat

text \<open>What an analysis carries: how often \<open>between\<close> was called, and the episodes a read failed for.\<close>

record pass =
  calls :: nat
  unreadable :: "nat set"

definition mark_unreadable :: "nat \<Rightarrow> pass \<Rightarrow> pass" where
  "mark_unreadable i p = p\<lparr>unreadable := insert i (unreadable p)\<rparr>"

definition pause_between :: "'e decoder \<Rightarrow> pass \<Rightarrow> 'e season_error + pass" where
  "pause_between dec p =
     (case between dec (calls p) of
        Some e \<Rightarrow> Inl (Cancelled e)
      | None \<Rightarrow> Inr (p\<lparr>calls := calls p + 1\<rparr>))"

definition fingerprint :: "'e decoder \<Rightarrow> string \<Rightarrow> f64 \<Rightarrow> f64 \<Rightarrow> 'e + u32 list" where
  "fingerprint dec media start stop =
     (case audio_window dec media start stop of
        Inl e \<Rightarrow> Inl e
      | Inr window \<Rightarrow> fingerprint_samples dec window)"

definition detect_silence :: "'e decoder \<Rightarrow> string \<Rightarrow> f64 \<Rightarrow> f64 \<Rightarrow> f64 \<Rightarrow> f64 \<Rightarrow> 'e + Range list" where
  "detect_silence dec media start stop noise_db minimum =
     (case audio_window dec media start stop of
        Inl e \<Rightarrow> Inl e
      | Inr window \<Rightarrow>
          Inr (detect_samples (rounding dec) (pow10 dec) window start noise_db minimum))"

fun fingerprints ::
    "'e decoder \<Rightarrow> Episode list \<Rightarrow> (f64 \<times> f64) list \<Rightarrow> nat list \<Rightarrow> (nat \<rightharpoonup> u32 list) \<Rightarrow> pass
       \<Rightarrow> 'e season_error + (nat \<rightharpoonup> u32 list) \<times> pass" where
  "fingerprints dec episodes windows [] prints p = Inr (prints, p)"
| "fingerprints dec episodes windows (i # wanted) prints p =
     (case pause_between dec p of
        Inl e \<Rightarrow> Inl e
      | Inr p1 \<Rightarrow>
          (let (start, stop) = windows ! i in
           case fingerprint dec (ep_media (episodes ! i)) start stop of
             Inl _ \<Rightarrow> fingerprints dec episodes windows wanted (prints(i \<mapsto> [])) (mark_unreadable i p1)
           | Inr points \<Rightarrow> fingerprints dec episodes windows wanted (prints(i \<mapsto> points)) p1))"

subsection \<open>The pairwise search\<close>

definition abs_diff :: "nat \<Rightarrow> nat \<Rightarrow> nat" where
  "abs_diff a b = (if a \<le> b then b - a else a - b)"

definition search_queue :: "Episode list \<Rightarrow> nat list \<Rightarrow> nat list" where
  "search_queue episodes wanted =
     (case wanted of
        [] \<Rightarrow> wanted
      | first # _ \<Rightarrow>
          if list_ex (\<lambda>i. i \<noteq> first \<and> can_compare (episodes ! first) (episodes ! i)) wanted then wanted
          else (case min_by_key (\<lambda>i. abs_diff i first)
                       (filter (\<lambda>i. i \<notin> set wanted \<and> can_compare (episodes ! first) (episodes ! i))
                          [0..<length episodes]) of
                  Some neighbour \<Rightarrow> wanted @ [neighbour]
                | None \<Rightarrow> wanted))"

text \<open>How long a region may be: two files whose whole credits agree are duplicates.\<close>

definition maximum_region ::
    "(f64 \<Rightarrow> f64) \<Rightarrow> Config \<Rightarrow> Mode \<Rightarrow> Select \<Rightarrow> Episode list \<Rightarrow> (f64 \<times> f64) list \<Rightarrow> nat \<Rightarrow> f64" where
  "maximum_region fl cfg mode select episodes windows remaining =
     (case mode of
        Intro \<Rightarrow> if select = Earliest then maximum_recap_duration cfg else maximum_intro_duration cfg
      | Credits \<Rightarrow> fl (fl (ep_duration (episodes ! remaining) - fst (windows ! remaining)) - 1))"

definition shift_range :: "(f64 \<Rightarrow> f64) \<Rightarrow> f64 \<Rightarrow> Range \<Rightarrow> Range" where
  "shift_range fl offset r = range_new (fl (rg_start r + offset)) (fl (rg_end r + offset))"

text \<open>The loop over the comparisons up to its \<open>break\<close>: the first pair that yields a region.\<close>

fun first_pair ::
    "'e decoder \<Rightarrow> Config \<Rightarrow> Mode \<Rightarrow> Select \<Rightarrow> SearchParams \<Rightarrow> Episode list \<Rightarrow> (f64 \<times> f64) list
       \<Rightarrow> (nat \<rightharpoonup> u32 list) \<Rightarrow> nat \<Rightarrow> nat list \<Rightarrow> 'e season_error + (nat \<times> Range \<times> Range) option" where
  "first_pair dec cfg mode select params episodes windows prints current [] = Inr None"
| "first_pair dec cfg mode select params episodes windows prints current (remaining # comparisons) =
     (if \<not> can_compare (episodes ! current) (episodes ! remaining)
      then first_pair dec cfg mode select params episodes windows prints current comparisons
      else case (prints current, prints remaining) of
        (None, _) \<Rightarrow> Inl (NoPrint current)
      | (Some _, None) \<Rightarrow> Inl (NoPrint remaining)
      | (Some left, Some right) \<Rightarrow>
          (let (lhs, rhs) = compare_with (rounding dec) (index_order dec left) left right params select in
           if \<not> range_valid rhs
              \<or> range_duration (rounding dec) rhs
                  > maximum_region (rounding dec) cfg mode select episodes windows remaining
           then first_pair dec cfg mode select params episodes windows prints current comparisons
           else if mode = Credits
           then Inr (Some (remaining, shift_range (rounding dec) (fst (windows ! current)) lhs,
                           shift_range (rounding dec) (fst (windows ! remaining)) rhs))
           else Inr (Some (remaining, lhs, rhs))))"

definition store_region ::
    "(f64 \<Rightarrow> f64) \<Rightarrow> Mode \<Rightarrow> Episode list \<Rightarrow> nat \<Rightarrow> nat list \<Rightarrow> nat \<times> Range
       \<Rightarrow> (nat \<rightharpoonup> Range) \<Rightarrow> (nat \<rightharpoonup> Range)" where
  "store_region fl mode episodes current queue entry found =
     (case entry of (index, r) \<Rightarrow>
        if index \<noteq> current \<and> index \<notin> set queue then found
        else if mode = Credits \<and> rg_start r < fl (ep_duration (episodes ! index) / 2) then found
        else (case found index of
                Some saved \<Rightarrow> if range_duration fl saved \<ge> range_duration fl r then found
                              else found(index \<mapsto> r)
              | None \<Rightarrow> found(index \<mapsto> r)))"

subsection \<open>The refinement of an end\<close>

definition adjust_window :: "(f64 \<Rightarrow> f64) \<Rightarrow> Config \<Rightarrow> f64 \<Rightarrow> f64 \<Rightarrow> Range" where
  "adjust_window fl cfg duration stop =
     range_new (max (fl (stop - adjust_window_inward cfg)) 0)
               (min (fl (stop + adjust_window_outward cfg)) duration)"

definition adjust_silence ::
    "'e decoder \<Rightarrow> Config \<Rightarrow> Episode \<Rightarrow> nat \<Rightarrow> Range \<Rightarrow> f64 \<times> pass \<Rightarrow> f64 \<times> pass" where
  "adjust_silence dec cfg episode index window st =
     (if \<not> adjust_on_silence cfg then st
      else case detect_silence dec (ep_media episode) (rg_start window) (rg_end window)
                  (silence_noise_db cfg) (rounding dec (1 / 10)) of
             Inl _ \<Rightarrow> (fst st, mark_unreadable index (snd st))
           | Inr quiet \<Rightarrow>
               (case find (\<lambda>r. rg_start r < rg_end window \<and> rg_start window < rg_end r
                               \<and> range_duration (rounding dec) r \<ge> silence_minimum_duration cfg
                               \<and> rg_start r \<ge> rg_start window) quiet of
                  Some first \<Rightarrow> (rg_start first, snd st)
                | None \<Rightarrow> st))"

definition adjust_keyframe ::
    "'e decoder \<Rightarrow> Config \<Rightarrow> Episode \<Rightarrow> nat \<Rightarrow> Range \<Rightarrow> f64 \<times> pass \<Rightarrow> f64 \<times> pass" where
  "adjust_keyframe dec cfg episode index window st =
     (if \<not> snap_to_keyframe cfg then st
      else case keyframes_window dec (ep_media episode) (rg_start window) (rg_end window) of
             Inl _ \<Rightarrow> (fst st, mark_unreadable index (snd st))
           | Inr keyframes \<Rightarrow>
               (case min_by_key (\<lambda>a. \<bar>rounding dec (a - fst st)\<bar>) keyframes of
                  Some nearest \<Rightarrow> (nearest, snd st)
                | None \<Rightarrow> st))"

definition adjust :: "'e decoder \<Rightarrow> Config \<Rightarrow> Episode \<Rightarrow> nat \<Rightarrow> Range \<Rightarrow> pass \<Rightarrow> Range \<times> pass" where
  "adjust dec cfg episode index region p =
     (let fl = rounding dec; duration = ep_duration episode;
          start = (if rg_start region < 0
                      \<or> rg_start region \<le> fl (end_snap_threshold cfg + EPSILON fl) then 0
                   else rg_start region);
          (stop, p1) =
            (if rg_end region \<ge> fl (fl (duration - end_snap_threshold cfg) - EPSILON fl)
             then (duration, p)
             else let window = adjust_window fl cfg duration (rg_end region) in
                  adjust_keyframe dec cfg episode index window
                    (adjust_silence dec cfg episode index window (rg_end region, p)))
      in (if start \<ge> stop then region else range_new start stop, p1))"


subsection \<open>The season\<close>

text \<open>The walk over the queue: the front is compared with what is behind it, and, while it has no
  answer, with the sources already passed.\<close>

definition comparisons :: "nat list \<Rightarrow> nat list \<Rightarrow> (nat \<rightharpoonup> Range) \<Rightarrow> nat \<Rightarrow> nat list" where
  "comparisons all queue found current =
     queue @ filter (\<lambda>i. found current = None \<and> i \<noteq> current \<and> i \<notin> set queue) all"

definition refine_found ::
    "'e decoder \<Rightarrow> Config \<Rightarrow> bool \<Rightarrow> Episode list \<Rightarrow> nat \<Rightarrow> (nat \<rightharpoonup> Range) \<times> pass
       \<Rightarrow> (nat \<rightharpoonup> Range) \<times> pass" where
  "refine_found dec cfg refine episodes current st =
     (case fst st current of
        Some r \<Rightarrow>
          if refine
          then (let (r1, p1) = adjust dec cfg (episodes ! current) current r (snd st)
                in ((fst st)(current \<mapsto> r1), p1))
          else st
      | None \<Rightarrow> st)"

fun search_loop ::
    "'e decoder \<Rightarrow> Config \<Rightarrow> Mode \<Rightarrow> Select \<Rightarrow> SearchParams \<Rightarrow> bool \<Rightarrow> Episode list \<Rightarrow> (f64 \<times> f64) list
       \<Rightarrow> (nat \<rightharpoonup> u32 list) \<Rightarrow> nat list \<Rightarrow> nat list \<Rightarrow> (nat \<rightharpoonup> Range) \<times> pass
       \<Rightarrow> 'e season_error + (nat \<rightharpoonup> Range) \<times> pass" where
  "search_loop dec cfg mode select params refine episodes windows prints all [] st = Inr st"
| "search_loop dec cfg mode select params refine episodes windows prints all (current # queue) st =
     (case first_pair dec cfg mode select params episodes windows prints current
             (comparisons all queue (fst st) current) of
        Inl e \<Rightarrow> Inl e
      | Inr pair \<Rightarrow>
          (let found = (case pair of
                 None \<Rightarrow> fst st
               | Some (remaining, lhs, rhs) \<Rightarrow>
                   store_region (rounding dec) mode episodes current queue (remaining, rhs)
                     (store_region (rounding dec) mode episodes current queue (current, lhs) (fst st)))
           in search_loop dec cfg mode select params refine episodes windows prints all queue
                (refine_found dec cfg refine episodes current (found, snd st))))"

definition search_regions ::
    "'e decoder \<Rightarrow> Config \<Rightarrow> Mode \<Rightarrow> Select \<Rightarrow> SearchParams \<Rightarrow> bool \<Rightarrow> Episode list \<Rightarrow> (f64 \<times> f64) list
       \<Rightarrow> (nat \<rightharpoonup> u32 list) \<Rightarrow> nat list \<Rightarrow> pass \<Rightarrow> 'e season_error + (nat \<rightharpoonup> Range) \<times> pass" where
  "search_regions dec cfg mode select params refine episodes windows prints queue p =
     search_loop dec cfg mode select params refine episodes windows prints queue queue (Map.empty, p)"

text \<open>The answer and the carried position, a distance from the end of the file.\<close>

definition black_frame_credits ::
    "'e decoder \<Rightarrow> Config \<Rightarrow> Episode \<Rightarrow> f64 \<Rightarrow> (('e + Range option) \<times> f64) option" where
  "black_frame_credits dec cfg episode search_start0 =
     (if ep_duration episode \<le> 0 then Some (Inr None, search_start0)
      else
        let fl = rounding dec;
            credits_start = fst (credits_window fl cfg episode);
            probe = decode_probe fl (luma_window dec (ep_media episode)) (cf_black cfg);
            start1 = (if search_start0 > fl (ep_duration episode - credits_start) then 0
                      else search_start0)
        in do {
          started \<leftarrow> (if start1 < minimum_credits_duration (cf_black cfg)
                      then find_search_start fl (ep_duration episode) credits_start (cf_black cfg) probe
                      else Some (Inr start1));
          (case started of
             Inl e \<Rightarrow> Some (Inl e, start1)
           | Inr start2 \<Rightarrow> do {
               found \<leftarrow> find_credits fl (ep_duration episode) credits_start start2 (cf_black cfg) probe;
               (case found of
                  Inr (Some credit) \<Rightarrow>
                    Some (found, fl (fl (ep_duration episode - rg_start credit)
                                   + minimum_credits_duration (cf_black cfg)))
                | _ \<Rightarrow> Some (found, start2))
             })
        })"

text \<open>One episode of the black-frame pass over the season. The state is the credits found, their
  sources, the carried position and the pass.\<close>

type_synonym credits_state = "(nat \<rightharpoonup> Range) \<times> (nat \<rightharpoonup> string)"

definition record_found :: "(nat \<rightharpoonup> Range) \<Rightarrow> string \<Rightarrow> credits_state \<Rightarrow> credits_state" where
  "record_found found source st =
     (\<lambda>i. if fst st i = None then found i else fst st i,
      \<lambda>i. if fst st i = None \<and> found i \<noteq> None then Some source else snd st i)"

fun black_frame_pass ::
    "'e decoder \<Rightarrow> Config \<Rightarrow> (nat \<times> Episode) list \<Rightarrow> credits_state \<Rightarrow> f64 \<Rightarrow> pass
       \<Rightarrow> ('e season_error + credits_state \<times> pass) option" where
  "black_frame_pass dec cfg [] st start p = Some (Inr (st, p))"
| "black_frame_pass dec cfg ((i, episode) # rest) st start p =
     (if fst st i \<noteq> None then black_frame_pass dec cfg rest st start p
      else case pause_between dec p of
        Inl e \<Rightarrow> Some (Inl e)
      | Inr p1 \<Rightarrow> do {
          (answer, start1) \<leftarrow> black_frame_credits dec cfg episode start;
          (case answer of
             Inr (Some r) \<Rightarrow>
               black_frame_pass dec cfg rest ((fst st)(i \<mapsto> r), (snd st)(i \<mapsto> ''blackframe'')) start1 p1
           | Inr None \<Rightarrow> black_frame_pass dec cfg rest st start1 p1
           | Inl _ \<Rightarrow> black_frame_pass dec cfg rest st start1 (mark_unreadable i p1))
        })"

subsection \<open>The recap\<close>

definition recap_boundary :: "(f64 \<Rightarrow> f64) \<Rightarrow> Config \<Rightarrow> Episode \<Rightarrow> f64 option \<Rightarrow> f64" where
  "recap_boundary fl cfg episode intro_start =
     (let limit = min (ep_duration episode) (maximum_recap_duration cfg) in
      case intro_start of Some s \<Rightarrow> min limit (fl (s + end_snap_threshold cfg)) | None \<Rightarrow> limit)"

definition last_black :: "Config \<Rightarrow> f64 \<Rightarrow> f64 \<Rightarrow> LumaFrame list \<Rightarrow> f64 option" where
  "last_black cfg minimum boundary frames =
     foldl (\<lambda>best t. Some (map_or best t (\<lambda>b. max b t))) None
       (map lf_time
         (filter (\<lambda>f. lf_black_percentage f \<ge> minimum_percentage (cf_black cfg)
                      \<and> lf_time f \<ge> minimum \<and> lf_time f \<le> boundary) frames))"

text \<open>One turn of the loop over the cards: the recap of the episode, if it has one.\<close>

definition recap_of ::
    "'e decoder \<Rightarrow> Config \<Rightarrow> Episode \<Rightarrow> nat \<Rightarrow> Range \<Rightarrow> f64 option \<Rightarrow> pass \<Rightarrow> Range option \<times> pass" where
  "recap_of dec cfg episode i shared_card intro_start p =
     (let boundary = recap_boundary (rounding dec) cfg episode intro_start;
          minimum = max (minimum_recap_duration cfg) (rg_end shared_card)
      in if boundary \<le> minimum then (None, p)
         else case luma_window dec (ep_media episode) 0 boundary (bf_threshold (cf_black cfg)) of
                Inl _ \<Rightarrow> (None, mark_unreadable i p)
              | Inr frames \<Rightarrow>
                  (case last_black cfg minimum boundary frames of
                     None \<Rightarrow> (None, p)
                   | Some stop0 \<Rightarrow>
                       (let stop = (case intro_start of Some s \<Rightarrow> min stop0 s | None \<Rightarrow> stop0)
                        in (if stop > minimum_recap_duration cfg then Some (range_new 0 stop) else None, p))))"

fun recap_loop ::
    "'e decoder \<Rightarrow> Config \<Rightarrow> Episode list \<Rightarrow> (nat \<rightharpoonup> Range) \<Rightarrow> (nat \<rightharpoonup> Range) \<Rightarrow> nat list
       \<Rightarrow> (nat \<rightharpoonup> Range) \<Rightarrow> pass \<Rightarrow> 'e season_error + (nat \<rightharpoonup> Range) \<times> pass" where
  "recap_loop dec cfg episodes intros cards [] found p = Inr (found, p)"
| "recap_loop dec cfg episodes intros cards (i # rest) found p =
     (case (pause_between dec p, cards i) of
        (Inl e, _) \<Rightarrow> Inl e
      | (Inr p1, None) \<Rightarrow> recap_loop dec cfg episodes intros cards rest found p1
      | (Inr p1, Some shared_card) \<Rightarrow>
          (let (r, p2) = recap_of dec cfg (episodes ! i) i shared_card (map_option rg_start (intros i)) p1
           in recap_loop dec cfg episodes intros cards rest
                (case r of Some recap \<Rightarrow> found(i \<mapsto> recap) | None \<Rightarrow> found) p2))"

definition card_params :: "Config \<Rightarrow> SearchParams" where
  "card_params cfg = (cf_search cfg)\<lparr>min_region_duration := recap_card_minimum_duration cfg\<rparr>"

definition recaps ::
    "'e decoder \<Rightarrow> Config \<Rightarrow> Episode list \<Rightarrow> (f64 \<times> f64) list \<Rightarrow> (nat \<rightharpoonup> u32 list) \<Rightarrow> (nat \<rightharpoonup> Range)
       \<Rightarrow> pass \<Rightarrow> 'e season_error + (nat \<rightharpoonup> Range) \<times> pass" where
  "recaps dec cfg episodes windows prints intros p =
     (case search_regions dec cfg Intro Earliest (card_params cfg) False episodes windows prints
             (search_queue episodes [0..<length episodes]) p of
        Inl e \<Rightarrow> Inl e
      | Inr (cards, p1) \<Rightarrow> recap_loop dec cfg episodes intros cards (key_order dec cards) Map.empty p1)"

subsection \<open>The analysis\<close>

definition single :: "Episode list \<Rightarrow> bool" where
  "single episodes = (\<not> list_ex (\<lambda>e. can_compare (episodes ! 0) e) (drop 1 episodes))"

definition credits_regions ::
    "'e decoder \<Rightarrow> Config \<Rightarrow> Episode list \<Rightarrow> nat list \<Rightarrow> pass \<Rightarrow> 'e season_error + (nat \<rightharpoonup> Range) \<times> pass" where
  "credits_regions dec cfg episodes wanted p =
     (if wanted = [] \<or> single episodes then Inr (Map.empty, p)
      else let queue = search_queue episodes wanted;
               windows = windows_for (rounding dec) cfg Credits episodes
           in case fingerprints dec episodes windows queue Map.empty p of
                Inl e \<Rightarrow> Inl e
              | Inr (prints, p1) \<Rightarrow>
                  search_regions dec cfg Credits Longest (cf_search cfg) True episodes windows prints queue p1)"

definition season_opening ::
    "'e decoder \<Rightarrow> Config \<Rightarrow> Episode list \<Rightarrow> pass
       \<Rightarrow> 'e season_error + (nat \<rightharpoonup> Range) \<times> (nat \<rightharpoonup> Range) \<times> pass" where
  "season_opening dec cfg episodes p =
     (let all = [0..<length episodes];
          windows = windows_for (rounding dec) cfg Intro episodes
      in case (if single episodes then Inr (Map.empty, p)
               else fingerprints dec episodes windows all Map.empty p) of
           Inl e \<Rightarrow> Inl e
         | Inr (prints, p1) \<Rightarrow>
             (case search_regions dec cfg Intro Longest (cf_search cfg) True episodes windows prints
                     (search_queue episodes all) p1 of
                Inl e \<Rightarrow> Inl e
              | Inr (intros, p2) \<Rightarrow>
                  (case (if scan_recap cfg then recaps dec cfg episodes windows prints intros p2
                         else Inr (Map.empty, p2)) of
                     Inl e \<Rightarrow> Inl e
                   | Inr (recap_ranges, p3) \<Rightarrow> Inr (intros, recap_ranges, p3))))"

definition season_credits ::
    "'e decoder \<Rightarrow> Config \<Rightarrow> Episode list \<Rightarrow> pass \<Rightarrow> ('e season_error + credits_state \<times> pass) option" where
  "season_credits dec cfg episodes p =
     (let all = [0..<length episodes] in
      case (if anime cfg then credits_regions dec cfg episodes all p else Inr (Map.empty, p)) of
        Inl e \<Rightarrow> Some (Inl e)
      | Inr (first, p1) \<Rightarrow> do {
          pass1 \<leftarrow> black_frame_pass dec cfg (List.enumerate 0 episodes)
                    (record_found first ''chromaprint'' (Map.empty, Map.empty)) 0 p1;
          Some (case pass1 of
                  Inl e \<Rightarrow> Inl e
                | Inr (st, p2) \<Rightarrow>
                    if anime cfg then Inr (st, p2)
                    else case credits_regions dec cfg episodes (filter (\<lambda>i. fst st i = None) all) p2 of
                           Inl e \<Rightarrow> Inl e
                         | Inr (found, p3) \<Rightarrow> Inr (record_found found ''chromaprint'' st, p3))
        })"

definition segments_row ::
    "(nat \<rightharpoonup> Range) \<Rightarrow> (nat \<rightharpoonup> Range) \<Rightarrow> credits_state \<Rightarrow> nat set \<Rightarrow> nat \<times> Episode \<Rightarrow> EpisodeSegments" where
  "segments_row recap_ranges intros st bad entry =
     (case entry of (i, e) \<Rightarrow>
       \<lparr>sg_name = ep_name e, sg_id = ep_id e, sg_duration = ep_duration e, sg_recap = recap_ranges i,
        sg_intro = intros i, sg_credits = fst st i, sg_credits_source = snd st i,
        sg_unreadable = (i \<in> bad)\<rparr>)"

definition analyze ::
    "'e decoder \<Rightarrow> Config \<Rightarrow> Episode list \<Rightarrow> ('e season_error + EpisodeSegments list) option" where
  "analyze dec cfg episodes =
     (case season_opening dec cfg episodes \<lparr>calls = 0, unreadable = {}\<rparr> of
        Inl e \<Rightarrow> Some (Inl e)
      | Inr (intros, recap_ranges, p1) \<Rightarrow> do {
          credits \<leftarrow> season_credits dec cfg episodes p1;
          Some (case credits of
                  Inl e \<Rightarrow> Inl e
                | Inr (st, p2) \<Rightarrow>
                    Inr (map (segments_row recap_ranges intros st (unreadable p2))
                             (List.enumerate 0 episodes)))
        })"

text \<open>Files that cannot be probed are put back at their place in the report.\<close>

definition insert_at :: "nat \<Rightarrow> 'a \<Rightarrow> 'a list \<Rightarrow> 'a list" where
  "insert_at i x xs = take i xs @ x # drop i xs"

definition unprobed_row :: "string \<Rightarrow> EpisodeSegments" where
  "unprobed_row name =
     \<lparr>sg_name = name, sg_id = [], sg_duration = 0, sg_recap = None, sg_intro = None,
      sg_credits = None, sg_credits_source = None, sg_unreadable = True\<rparr>"

definition put_back :: "(nat \<times> EpisodeSegments) list \<Rightarrow> EpisodeSegments list \<Rightarrow> EpisodeSegments list" where
  "put_back rows episodes =
     foldl (\<lambda>rs (index, row). insert_at (min index (length rs)) row rs) episodes rows"

datatype 'e path_error = NothingProbed | Analysis "'e season_error"

definition analyze_paths ::
    "'e decoder \<Rightarrow> (string \<Rightarrow> 'e + Episode) \<Rightarrow> (string \<Rightarrow> string) \<Rightarrow> Config \<Rightarrow> string list
       \<Rightarrow> ('e path_error + EpisodeSegments list) option" where
  "analyze_paths dec probe base_name cfg paths =
     (let bad = filter_map (\<lambda>(index, p). case probe p of
                   Inl _ \<Rightarrow> Some (index, unprobed_row (base_name p)) | Inr _ \<Rightarrow> None)
                  (List.enumerate 0 paths);
          episodes = filter_map (\<lambda>p. case probe p of Inl _ \<Rightarrow> None | Inr e \<Rightarrow> Some e) paths
      in if episodes = [] then Some (Inl NothingProbed)
         else map_option (\<lambda>r. case r of Inl e \<Rightarrow> Inl (Analysis e) | Inr rows \<Rightarrow> Inr (put_back bad rows))
                (analyze dec cfg episodes))"

end
