(* ===== verification/Intro_Season_Props.thy ===== *)
theory Intro_Season_Props
  imports Intro_Season
begin

text \<open>
  What the season's analysis promises: it always reports every episode, a failed read costs only its
  own episode and marks it, what the picture answered is not overwritten, recaps end before intros,
  and regions are refined within bounds.
\<close>

section \<open>The queue\<close>

lemma set_search_queue_bound:
  assumes "set wanted \<subseteq> {..<length episodes}"
  shows "set (search_queue episodes wanted) \<subseteq> {..<length episodes}"
  using assms by (auto simp: search_queue_def split: list.splits option.splits dest!: min_by_key_mem)

lemma search_queue_prefix: "set wanted \<subseteq> set (search_queue episodes wanted)"
  by (auto simp: search_queue_def split: list.splits option.splits)

lemma distinct_search_queue: "distinct wanted \<Longrightarrow> distinct (search_queue episodes wanted)"
  by (auto simp: search_queue_def split: list.splits option.splits dest!: min_by_key_mem)

lemma search_queue_all: "search_queue episodes [0..<length episodes] = [0..<length episodes]"
proof (cases "[0..<length episodes]")
  case Nil
  then show ?thesis by (simp add: search_queue_def)
next
  case (Cons first rest)
  have "filter (\<lambda>i. i \<notin> set [0..<length episodes] \<and> can_compare (episodes ! first) (episodes ! i))
      [0..<length episodes] = []" by (auto simp: filter_empty_conv)
  then show ?thesis unfolding search_queue_def Cons [symmetric] by (simp add: Cons min_by_key_def)
qed

section \<open>The pairwise search\<close>

text \<open>Prints are at hand for every pair that will be compared.\<close>

definition prints_cover :: "Episode list \<Rightarrow> (nat \<rightharpoonup> u32 list) \<Rightarrow> nat set \<Rightarrow> bool" where
  "prints_cover episodes prints A \<longleftrightarrow>
     (\<forall>a b. a \<in> A \<and> b \<in> A \<and> a \<noteq> b \<and> can_compare (episodes ! a) (episodes ! b) \<longrightarrow>
        prints a \<noteq> None \<and> prints b \<noteq> None)"

lemma first_pair_total:
  assumes "prints_cover episodes prints A" "current \<in> A" "set others \<subseteq> A - {current}"
  obtains pair where
    "first_pair dec cfg mode select params episodes windows prints current others = Inr pair"
    "\<And>r lhs rhs. pair = Some (r, lhs, rhs) \<Longrightarrow> r \<in> set others"
proof -
  have "\<exists>pair. first_pair dec cfg mode select params episodes windows prints current others = Inr pair
      \<and> (\<forall>r lhs rhs. pair = Some (r, lhs, rhs) \<longrightarrow> r \<in> set others)"
    using assms(3)
  proof (induction others)
    case Nil
    then show ?case by simp
  next
    case (Cons r rest)
    show ?case
    proof (cases "can_compare (episodes ! current) (episodes ! r)")
      case True
      then obtain pc pr where "prints current = Some pc" "prints r = Some pr"
        using assms(1,2) Cons.prems unfolding prints_cover_def by fastforce
      then show ?thesis using Cons by (auto simp: Let_def split: prod.splits)
    qed (use Cons in auto)
  qed
  then show thesis using that by blast
qed

lemma store_region_dom:
  "dom (store_region fl mode episodes current queue entry found) \<subseteq> insert (fst entry) (dom found)"
  by (auto simp: store_region_def split: prod.splits option.splits if_splits)

lemma store_both_dom:
  "dom (store_region fl mode episodes current queue (a, x)
          (store_region fl mode episodes current queue (b, y) found)) \<subseteq> {a, b} \<union> dom found"
  using store_region_dom [of fl mode episodes current queue "(a, x)"
      "store_region fl mode episodes current queue (b, y) found"]
    store_region_dom [of fl mode episodes current queue "(b, y)" found] by auto

lemma adjust_silence_pass: "unreadable (snd st) \<subseteq> unreadable (snd (adjust_silence dec cfg e i w st))
    \<and> calls (snd (adjust_silence dec cfg e i w st)) = calls (snd st)"
  by (auto simp: adjust_silence_def mark_unreadable_def split: sum.splits option.splits)

lemma adjust_keyframe_pass: "unreadable (snd st) \<subseteq> unreadable (snd (adjust_keyframe dec cfg e i w st))
    \<and> calls (snd (adjust_keyframe dec cfg e i w st)) = calls (snd st)"
  by (auto simp: adjust_keyframe_def mark_unreadable_def split: sum.splits option.splits)

lemma adjust_pass: "unreadable p \<subseteq> unreadable (snd (adjust dec cfg e i r p))
    \<and> calls (snd (adjust dec cfg e i r p)) = calls p"
proof -
  let ?w = "adjust_window (rounding dec) cfg (ep_duration e) (rg_end r)"
  note s = adjust_silence_pass [of "(rg_end r, p)" dec cfg e i ?w]
  note k = adjust_keyframe_pass [of "adjust_silence dec cfg e i ?w (rg_end r, p)" dec cfg e i ?w]
  show ?thesis using s k by (auto simp: adjust_def Let_def split: prod.splits if_splits)
qed

lemma adjust_passD: "adjust dec cfg e i r p = (r1, p1) \<Longrightarrow> unreadable p \<subseteq> unreadable p1"
  using adjust_pass [of p dec cfg e i r] by simp

lemma refine_found_pass:
  "dom (fst (refine_found dec cfg refine episodes current st)) = dom (fst st)
   \<and> unreadable (snd st) \<subseteq> unreadable (snd (refine_found dec cfg refine episodes current st))"
  by (auto simp: refine_found_def Let_def split: option.splits prod.splits if_splits dest: adjust_passD)

lemma search_loop_total:
  assumes "prints_cover episodes prints (set all)" "set queue \<subseteq> set all" "distinct queue"
  obtains found p where
    "search_loop dec cfg mode select params refine episodes windows prints all queue st = Inr (found, p)"
    "dom found \<subseteq> dom (fst st) \<union> set all" "unreadable (snd st) \<subseteq> unreadable p"
proof -
  have "\<exists>found p.
      search_loop dec cfg mode select params refine episodes windows prints all queue st = Inr (found, p)
      \<and> dom found \<subseteq> dom (fst st) \<union> set all \<and> unreadable (snd st) \<subseteq> unreadable p"
    using assms(2,3)
  proof (induction queue arbitrary: st)
    case Nil
    then show ?case by (cases st) auto
  next
    case (Cons current queue)
    have sub: "set (comparisons all queue (fst st) current) \<subseteq> set all - {current}"
      using Cons.prems by (auto simp: comparisons_def)
    have mem: "current \<in> set all" using Cons.prems(1) by simp
    obtain pair where pair: "first_pair dec cfg mode select params episodes windows prints current
        (comparisons all queue (fst st) current) = Inr pair"
      and rest: "\<And>r lhs rhs. pair = Some (r, lhs, rhs) \<Longrightarrow> r \<in> set (comparisons all queue (fst st) current)"
      using first_pair_total [OF assms(1) mem sub, of dec cfg mode select params windows] by blast
    have dom_pair: "\<And>r lhs rhs. pair = Some (r, lhs, rhs) \<Longrightarrow> r \<in> set all"
      using rest sub by blast
    let ?f = "case pair of None \<Rightarrow> fst st
        | Some (remaining, lhs, rhs) \<Rightarrow>
            store_region (rounding dec) mode episodes current queue (remaining, rhs)
              (store_region (rounding dec) mode episodes current queue (current, lhs) (fst st))"
    let ?st = "refine_found dec cfg refine episodes current (?f, snd st)"
    have "dom ?f \<subseteq> dom (fst st) \<union> set all"
    proof (cases pair)
      case None
      then show ?thesis by auto
    next
      case (Some t)
      obtain r lhs rhs where t: "t = (r, lhs, rhs)" by (cases t)
      with Some dom_pair have "{r, current} \<subseteq> set all" using mem by auto
      then show ?thesis
        using store_both_dom [of "rounding dec" mode episodes current queue r rhs current lhs "fst st"] Some t
        by auto
    qed
    then have d: "dom (fst ?st) \<subseteq> dom (fst st) \<union> set all"
      and u: "unreadable (snd st) \<subseteq> unreadable (snd ?st)"
      using refine_found_pass [of dec cfg refine episodes current "(?f, snd st)"] by simp_all
    have "set queue \<subseteq> set all" "distinct queue" using Cons.prems by auto
    from Cons.IH [OF this, of ?st] obtain found p where
      f: "search_loop dec cfg mode select params refine episodes windows prints all queue ?st = Inr (found, p)"
      and d': "dom found \<subseteq> dom (fst ?st) \<union> set all" and u': "unreadable (snd ?st) \<subseteq> unreadable p"
      by blast
    have "search_loop dec cfg mode select params refine episodes windows prints all (current # queue) st
        = Inr (found, p)"
      using pair f by (simp add: Let_def)
    moreover have "dom found \<subseteq> dom (fst st) \<union> set all" using d d' by blast
    moreover have "unreadable (snd st) \<subseteq> unreadable p" using u u' by (rule order_trans)
    ultimately show ?case by blast
  qed
  then show thesis using that by blast
qed

lemma search_regions_total:
  assumes "prints_cover episodes prints (set queue)" "distinct queue"
  obtains found p' where
    "search_regions dec cfg mode select params refine episodes windows prints queue p = Inr (found, p')"
    "dom found \<subseteq> set queue" "unreadable p \<subseteq> unreadable p'"
proof -
  obtain found p' where
    "search_loop dec cfg mode select params refine episodes windows prints queue queue (Map.empty, p)
       = Inr (found, p')"
    "dom found \<subseteq> dom (fst (Map.empty :: nat \<rightharpoonup> Range, p)) \<union> set queue"
    "unreadable (snd (Map.empty :: nat \<rightharpoonup> Range, p)) \<subseteq> unreadable p'"
    using search_loop_total [OF assms(1) order_refl assms(2)] by blast
  then show thesis using that by (simp add: search_regions_def)
qed


section \<open>Every step answers\<close>

text \<open>What the analysis needs to finish: nobody cancels it, and the settings and durations are sane.\<close>

definition season_ok :: "'e decoder \<Rightarrow> Config \<Rightarrow> Episode list \<Rightarrow> bool" where
  "season_ok dec cfg episodes \<longleftrightarrow>
     (\<forall>n. between dec n = None) \<and> f64_like (rounding dec) \<and> settings_ok (cf_black cfg)
     \<and> 1 \<le> maximum_credits_duration cfg \<and> (\<forall>e \<in> set episodes. ep_duration e \<le> 1073741824)"

lemma pause_between_ok:
  "\<forall>n. between dec n = None \<Longrightarrow> pause_between dec p = Inr (p\<lparr>calls := calls p + 1\<rparr>)"
  by (simp add: pause_between_def)

lemma unreadable_mark [simp]: "unreadable (mark_unreadable i p) = insert i (unreadable p)"
  by (simp add: mark_unreadable_def)

text \<open>A fingerprint that fails marks its episode.\<close>

definition print_fails :: "'e decoder \<Rightarrow> Episode list \<Rightarrow> (f64 \<times> f64) list \<Rightarrow> nat \<Rightarrow> bool" where
  "print_fails dec episodes windows i =
     (case fingerprint dec (ep_media (episodes ! i)) (fst (windows ! i)) (snd (windows ! i)) of
        Inl _ \<Rightarrow> True | Inr _ \<Rightarrow> False)"

lemma fingerprints_total:
  assumes "\<forall>n. between dec n = None"
  obtains prints' p' where
    "fingerprints dec episodes windows wanted prints p = Inr (prints', p')"
    "dom prints' = dom prints \<union> set wanted"
    "unreadable p' = unreadable p \<union> {i \<in> set wanted. print_fails dec episodes windows i}"
proof -
  have "\<exists>prints' p'. fingerprints dec episodes windows wanted prints p = Inr (prints', p')
      \<and> dom prints' = dom prints \<union> set wanted
      \<and> unreadable p' = unreadable p \<union> {i \<in> set wanted. print_fails dec episodes windows i}"
  proof (induction wanted arbitrary: prints p)
    case Nil
    then show ?case by simp
  next
    case (Cons i wanted)
    let ?p = "p\<lparr>calls := calls p + 1\<rparr>"
    obtain start stop where w: "windows ! i = (start, stop)" by (cases "windows ! i")
    show ?case
    proof (cases "fingerprint dec (ep_media (episodes ! i)) start stop")
      case (Inl e)
      then have "print_fails dec episodes windows i" by (simp add: print_fails_def w)
      moreover obtain prints' p' where f:
        "fingerprints dec episodes windows wanted (prints(i \<mapsto> [])) (mark_unreadable i ?p) = Inr (prints', p')"
        "dom prints' = dom (prints(i \<mapsto> [])) \<union> set wanted"
        "unreadable p' = unreadable (mark_unreadable i ?p) \<union> {i \<in> set wanted. print_fails dec episodes windows i}"
        using Cons.IH by blast
      ultimately have "unreadable p' = unreadable p \<union> {j \<in> set (i # wanted). print_fails dec episodes windows j}"
        "dom prints' = dom prints \<union> set (i # wanted)" by auto
      then show ?thesis using f(1) Inl by (simp add: pause_between_ok [OF assms] w)
    next
      case (Inr points)
      then have "\<not> print_fails dec episodes windows i" by (simp add: print_fails_def w)
      moreover obtain prints' p' where f:
        "fingerprints dec episodes windows wanted (prints(i \<mapsto> points)) ?p = Inr (prints', p')"
        "dom prints' = dom (prints(i \<mapsto> points)) \<union> set wanted"
        "unreadable p' = unreadable ?p \<union> {i \<in> set wanted. print_fails dec episodes windows i}"
        using Cons.IH by blast
      ultimately have "unreadable p' = unreadable p \<union> {j \<in> set (i # wanted). print_fails dec episodes windows j}"
        "dom prints' = dom prints \<union> set (i # wanted)" by auto
      then show ?thesis using f(1) Inr by (simp add: pause_between_ok [OF assms] w)
    qed
  qed
  then show thesis using that by blast
qed

lemma prints_cover_dom: "A \<subseteq> dom prints \<Longrightarrow> prints_cover episodes prints A"
  by (auto simp: prints_cover_def)

lemma prints_cover_single:
  assumes "single episodes"
  shows "prints_cover episodes prints {..<length episodes}"
proof -
  have other: "ep_number (episodes ! 0) \<noteq> None \<and> ep_number (episodes ! i) = ep_number (episodes ! 0)"
    if "0 < i" "i < length episodes" for i
  proof -
    have "episodes ! i \<in> set (drop 1 episodes)"
      using that by (auto simp: in_set_conv_nth intro!: exI [of _ "i - 1"])
    then have "\<not> can_compare (episodes ! 0) (episodes ! i)"
      using assms by (auto simp: single_def list_ex_iff)
    then show ?thesis by (metis can_compare_def)
  qed
  have "\<not> can_compare (episodes ! a) (episodes ! b)"
    if "a < length episodes" "b < length episodes" "a \<noteq> b" for a b
    using other [of a] other [of b] that by (cases "a = 0"; cases "b = 0") (auto simp: can_compare_def)
  then show ?thesis by (auto simp: prints_cover_def)
qed

lemma recap_of_pass: "unreadable p \<subseteq> unreadable (snd (recap_of dec cfg e i c s p))"
  by (auto simp: recap_of_def Let_def split: sum.splits option.splits)

lemma recap_loop_total:
  assumes "\<forall>n. between dec n = None"
  obtains found' p' where
    "recap_loop dec cfg episodes intros cards order found p = Inr (found', p')"
    "unreadable p \<subseteq> unreadable p'"
proof -
  have "\<exists>found' p'. recap_loop dec cfg episodes intros cards order found p = Inr (found', p')
      \<and> unreadable p \<subseteq> unreadable p'"
  proof (induction order arbitrary: found p)
    case Nil
    then show ?case by simp
  next
    case (Cons i order)
    let ?p = "p\<lparr>calls := calls p + 1\<rparr>"
    show ?case
    proof (cases "cards i")
      case None
      then show ?thesis using Cons [of found ?p] by (simp add: pause_between_ok [OF assms])
    next
      case (Some c)
      obtain r p2 where r: "recap_of dec cfg (episodes ! i) i c (map_option rg_start (intros i)) ?p = (r, p2)"
        by fastforce
      have "unreadable p \<subseteq> unreadable p2"
        using recap_of_pass [of ?p dec cfg "episodes ! i" i c "map_option rg_start (intros i)"] r by simp
      moreover obtain found' p' where
        "recap_loop dec cfg episodes intros cards order
           (case r of Some recap \<Rightarrow> found(i \<mapsto> recap) | None \<Rightarrow> found) p2 = Inr (found', p')"
        "unreadable p2 \<subseteq> unreadable p'"
        using Cons by blast
      ultimately show ?thesis using Some r by (auto simp: pause_between_ok [OF assms] Let_def)
    qed
  qed
  then show thesis using that by blast
qed

lemma recaps_total:
  assumes "\<forall>n. between dec n = None" "prints_cover episodes prints {..<length episodes}"
  obtains found p' where "recaps dec cfg episodes windows prints intros p = Inr (found, p')"
    "unreadable p \<subseteq> unreadable p'"
proof -
  have cover: "prints_cover episodes prints (set [0..<length episodes])" using assms(2) by (simp add: atLeast0LessThan)
  obtain cards p1 where c: "search_regions dec cfg Intro Earliest (card_params cfg) False episodes windows
      prints [0..<length episodes] p = Inr (cards, p1)" "unreadable p \<subseteq> unreadable p1"
    by (rule search_regions_total [OF cover distinct_upt, where dec = dec and cfg = cfg and mode = Intro
        and select = Earliest and params = "card_params cfg" and refine = False and windows = windows
        and p = p]) (rule that)
  obtain found p' where "recap_loop dec cfg episodes intros cards (key_order dec cards) Map.empty p1
      = Inr (found, p')" "unreadable p1 \<subseteq> unreadable p'"
    using recap_loop_total [OF assms(1), of cfg episodes intros cards "key_order dec cards" Map.empty p1]
    by blast
  then show thesis using that c by (auto simp: recaps_def search_queue_all)
qed

text \<open>The opening of the season: no lookup fails, and an episode whose opening could not be
  fingerprinted is marked.\<close>

lemma season_opening_total:
  assumes "\<forall>n. between dec n = None"
  obtains intros recap_ranges p' where
    "season_opening dec cfg episodes p = Inr (intros, recap_ranges, p')"
    "unreadable p \<subseteq> unreadable p'"
    "\<not> single episodes \<Longrightarrow>
       {i. i < length episodes \<and> print_fails dec episodes (windows_for (rounding dec) cfg Intro episodes) i}
         \<subseteq> unreadable p'"
proof -
  let ?w = "windows_for (rounding dec) cfg Intro episodes" and ?all = "[0..<length episodes]"
  obtain prints p1 where
    pr: "(if single episodes then Inr (Map.empty, p)
          else fingerprints dec episodes ?w ?all Map.empty p) = Inr (prints, p1)"
    and cover: "prints_cover episodes prints (set ?all)"
    and up1: "unreadable p \<subseteq> unreadable p1"
    and bad: "\<not> single episodes \<Longrightarrow>
       {i. i < length episodes \<and> print_fails dec episodes ?w i} \<subseteq> unreadable p1"
  proof (cases "single episodes")
    case True
    then show thesis using that [of Map.empty p] prints_cover_single [OF True, of Map.empty]
      by (simp add: atLeast0LessThan)
  next
    case False
    obtain prints p1 where f: "fingerprints dec episodes ?w ?all Map.empty p = Inr (prints, p1)"
      "dom prints = dom (Map.empty :: nat \<rightharpoonup> u32 list) \<union> set ?all"
      "unreadable p1 = unreadable p \<union> {i \<in> set ?all. print_fails dec episodes ?w i}"
      by (rule fingerprints_total [OF assms, of episodes ?w ?all Map.empty p]) (rule that)
    then show thesis using that [of prints p1] False prints_cover_dom [of "set ?all" prints episodes] by auto
  qed
  obtain intros p2 where s: "search_regions dec cfg Intro Longest (cf_search cfg) True episodes ?w prints
      ?all p1 = Inr (intros, p2)" "unreadable p1 \<subseteq> unreadable p2"
    by (rule search_regions_total [OF cover distinct_upt, where dec = dec and cfg = cfg and mode = Intro
        and select = Longest and params = "cf_search cfg" and refine = True and windows = ?w and p = p1])
      (rule that)
  obtain recap_ranges p3 where
    r: "(if scan_recap cfg then recaps dec cfg episodes ?w prints intros p2 else Inr (Map.empty, p2))
         = Inr (recap_ranges, p3)" "unreadable p2 \<subseteq> unreadable p3"
  proof (cases "scan_recap cfg")
    case True
    have "prints_cover episodes prints {..<length episodes}" using cover by (simp add: atLeast0LessThan)
    then obtain found p' where "recaps dec cfg episodes ?w prints intros p2 = Inr (found, p')"
      "unreadable p2 \<subseteq> unreadable p'" by (rule recaps_total [OF assms])
    then show thesis using that [of found p'] True by simp
  next
    case False
    then show thesis using that [of Map.empty p2] by simp
  qed
  have "season_opening dec cfg episodes p = Inr (intros, recap_ranges, p3)"
    using pr s(1) r(1) by (simp add: season_opening_def Let_def search_queue_all)
  then show thesis using that up1 s(2) r(2) bad by blast
qed


section \<open>The credits\<close>

lemma credits_window_ok:
  assumes fl: "f64_like (rounding dec)" and m: "1 \<le> maximum_credits_duration cfg"
    and d: "0 < ep_duration e" "ep_duration e \<le> 1073741824"
  shows "window_ok (ep_duration e) (fst (credits_window (rounding dec) cfg e))"
proof (cases "ep_duration e \<le> maximum_credits_duration cfg")
  case True
  then show ?thesis using fl d
    by (simp add: window_ok_def credits_window_def f64_like_def min_absorb1)
next
  case False
  have "rounding dec (ep_duration e - maximum_credits_duration cfg) \<le> ep_duration e"
    using fl_near(2) [OF fl, of "ep_duration e - maximum_credits_duration cfg"] d m False by linarith
  then show ?thesis using d False by (simp add: window_ok_def credits_window_def min_absorb2)
qed

lemma black_frame_credits_total:
  assumes fl: "f64_like (rounding dec)" and s: "settings_ok (cf_black cfg)"
    and m: "1 \<le> maximum_credits_duration cfg" and d: "ep_duration e \<le> 1073741824"
  obtains answer start' where "black_frame_credits dec cfg e start = Some (answer, start')"
    "\<And>r. answer = Inr (Some r) \<Longrightarrow> rg_end r = ep_duration e \<and> 0 < rg_start r"
proof (cases "ep_duration e \<le> 0")
  case True
  then show thesis using that by (simp add: black_frame_credits_def)
next
  case False
  let ?fl = "rounding dec" let ?cs = "fst (credits_window ?fl cfg e)"
  let ?probe = "decode_probe ?fl (luma_window dec (ep_media e)) (cf_black cfg)"
  let ?cap = "?fl (ep_duration e - ?cs)"
  let ?start1 = "if start > ?cap then 0 else start"
  have w: "window_ok (ep_duration e) ?cs" using credits_window_ok [OF fl m _ d] False by simp
  have "?cap \<le> ?fl 1073741824" using w d by (intro fl_mono [OF fl]) (auto simp: window_ok_def)
  also have "\<dots> \<le> 1073741825" using fl_near(2) [OF fl, of 1073741824] by simp
  finally have cap: "?cap \<le> 1073741825" .
  have c: "1 \<le> minimum_credits_duration (cf_black cfg)" using s by (simp add: settings_ok_def)
  obtain started where st: "(if ?start1 < minimum_credits_duration (cf_black cfg)
        then find_search_start ?fl (ep_duration e) ?cs (cf_black cfg) ?probe else Some (Inr ?start1))
      = Some started" and ok: "\<And>v. started = Inr v \<Longrightarrow> 0 \<le> v \<and> v \<le> 1073741825"
  proof (cases "?start1 < minimum_credits_duration (cf_black cfg)")
    case True
    obtain r where "find_search_start ?fl (ep_duration e) ?cs (cf_black cfg) ?probe = Some r"
      "case r of Inl e' \<Rightarrow> \<exists>s t. ?probe s t = Inl e'
       | Inr v \<Rightarrow> 0 \<le> v \<and> v \<le> ?cap \<and> (v = ?cap \<or> (\<exists>black. ?probe (?fl (?fl (ep_duration e - v) - 1))
           (?fl (ep_duration e - v)) = Inr black \<and> length black < 3))"
      using find_search_start_total [OF fl s w, of ?probe] by blast
    then have "0 \<le> v \<and> v \<le> 1073741825" if "r = Inr v" for v using that cap by auto
    then show thesis using that [of r] True \<open>find_search_start _ _ _ _ _ = _\<close> by auto
  next
    case False
    then show thesis using that [of "Inr ?start1"] c cap by (auto split: if_splits)
  qed
  show thesis
  proof (cases started)
    case (Inl e')
    then show thesis using that [of "Inl e'" ?start1] False st
      by (simp add: black_frame_credits_def Let_def)
  next
    case (Inr v)
    obtain r where r: "find_credits ?fl (ep_duration e) ?cs v (cf_black cfg) ?probe = Some r"
      "\<And>c. r = Inr (Some c) \<Longrightarrow> rg_end c = ep_duration e \<and> 0 < rg_start c"
      using find_credits_total [OF fl s w, of v ?probe] ok [OF Inr] by metis
    have "\<exists>start'. black_frame_credits dec cfg e start = Some (r, start')"
      using False st Inr r(1) by (auto simp: black_frame_credits_def Let_def split: sum.splits option.splits)
    then show thesis using that r(2) by blast
  qed
qed


text \<open>The pass of the black frames keeps what is answered and labels what it adds.\<close>

definition keeps_answers :: "string \<Rightarrow> credits_state \<Rightarrow> credits_state \<Rightarrow> bool" where
  "keeps_answers source st st' \<longleftrightarrow>
     (\<forall>i. fst st i \<noteq> None \<longrightarrow> fst st' i = fst st i \<and> snd st' i = snd st i)
     \<and> (\<forall>i. fst st i = None \<and> fst st' i \<noteq> None \<longrightarrow> snd st' i = Some source)
     \<and> (\<forall>i. fst st' i = None \<longrightarrow> snd st' i = snd st i)"

lemma keeps_answers_refl [simp]: "keeps_answers source st st"
  by (auto simp: keeps_answers_def)

lemma keeps_answers_trans:
  "keeps_answers source st st' \<Longrightarrow> keeps_answers source st' st'' \<Longrightarrow> keeps_answers source st st''"
  unfolding keeps_answers_def by metis

lemma keeps_answers_insert:
  "fst st i = None \<Longrightarrow>
     keeps_answers source st ((fst st)(i \<mapsto> r), (snd st)(i \<mapsto> source))"
  by (auto simp: keeps_answers_def)

lemma keeps_answers_record: "keeps_answers source st (record_found found source st)"
  by (auto simp: keeps_answers_def record_found_def)

lemma black_frame_pass_keeps:
  "black_frame_pass dec cfg entries st start p = Some (Inr (st', p')) \<Longrightarrow>
     keeps_answers ''blackframe'' st st' \<and> unreadable p \<subseteq> unreadable p'"
proof (induction entries arbitrary: st start p)
  case Nil
  then show ?case by simp
next
  case (Cons entry entries)
  obtain i e where entry: "entry = (i, e)" by (cases entry)
  show ?case
  proof (cases "fst st i")
    case (Some r)
    then show ?thesis using Cons by (simp add: entry)
  next
    case None
    then obtain p1 where p1: "pause_between dec p = Inr p1"
      using Cons.prems by (cases "pause_between dec p") (auto simp: entry)
    then have up: "unreadable p1 = unreadable p"
      by (auto simp: pause_between_def split: option.splits)
    obtain answer start1 where bf: "black_frame_credits dec cfg e start = Some (answer, start1)"
      using Cons.prems None p1 by (cases "black_frame_credits dec cfg e start") (auto simp: entry)
    show ?thesis
    proof (cases answer)
      case (Inl err)
      then show ?thesis using Cons.IH [of st start1 "mark_unreadable i p1"] Cons.prems None p1 bf up
        by (simp add: entry)
    next
      case (Inr found)
      show ?thesis
      proof (cases found)
        case none: None
        then show ?thesis using Cons.IH [of st start1 p1] Cons.prems None p1 bf up Inr
          by (simp add: entry)
      next
        case (Some r)
        then show ?thesis
          using Cons.IH [of "((fst st)(i \<mapsto> r), (snd st)(i \<mapsto> ''blackframe''))" start1 p1]
            Cons.prems None p1 bf up Inr keeps_answers_insert [OF None, of "''blackframe''" r]
            keeps_answers_trans
          by (simp add: entry)
      qed
    qed
  qed
qed

lemma black_frame_pass_total:
  assumes b: "\<forall>n. between dec n = None" and fl: "f64_like (rounding dec)"
    and s: "settings_ok (cf_black cfg)" and m: "1 \<le> maximum_credits_duration cfg"
    and d: "\<forall>(i, e) \<in> set entries. ep_duration e \<le> 1073741824"
  shows "\<exists>st' p'. black_frame_pass dec cfg entries st start p = Some (Inr (st', p'))"
  using d
proof (induction entries arbitrary: st start p)
  case Nil
  then show ?case by simp
next
  case (Cons entry entries)
  obtain i e where entry: "entry = (i, e)" by (cases entry)
  have de: "ep_duration e \<le> 1073741824" using Cons.prems by (simp add: entry)
  obtain answer start1 where bf: "black_frame_credits dec cfg e start = Some (answer, start1)"
    using black_frame_credits_total [OF fl s m de] by metis
  show ?case
    using Cons bf by (cases "fst st i"; cases answer)
      (auto simp: entry pause_between_ok [OF b] split: option.splits)
qed

lemma credits_regions_total:
  assumes b: "\<forall>n. between dec n = None" and wanted: "set wanted \<subseteq> {..<length episodes}" "distinct wanted"
  obtains found p' where "credits_regions dec cfg episodes wanted p = Inr (found, p')"
    "unreadable p \<subseteq> unreadable p'"
proof (cases "wanted = [] \<or> single episodes")
  case True
  then show thesis using that [of Map.empty p] by (simp add: credits_regions_def)
next
  case False
  let ?q = "search_queue episodes wanted" let ?w = "windows_for (rounding dec) cfg Credits episodes"
  obtain prints p1 where f: "fingerprints dec episodes ?w ?q Map.empty p = Inr (prints, p1)"
    "dom prints = dom (Map.empty :: nat \<rightharpoonup> u32 list) \<union> set ?q"
    "unreadable p1 = unreadable p \<union> {i \<in> set ?q. print_fails dec episodes ?w i}"
    by (rule fingerprints_total [OF b])
  have "prints_cover episodes prints (set ?q)" using f(2) by (intro prints_cover_dom) simp
  then obtain found p' where "search_regions dec cfg Credits Longest (cf_search cfg) True episodes ?w
      prints ?q p1 = Inr (found, p')" "dom found \<subseteq> set ?q" "unreadable p1 \<subseteq> unreadable p'"
    by (rule search_regions_total [OF _ distinct_search_queue [OF wanted(2)]])
  then show thesis using that [of found p'] f False by (auto simp: credits_regions_def Let_def)
qed

lemma season_credits_total:
  assumes "season_ok dec cfg episodes"
  obtains st p' where "season_credits dec cfg episodes p = Some (Inr (st, p'))"
    "unreadable p \<subseteq> unreadable p'" "\<forall>i. (fst st i = None) = (snd st i = None)"
proof -
  have b: "\<forall>n. between dec n = None" and fl: "f64_like (rounding dec)"
    and s: "settings_ok (cf_black cfg)" and m: "1 \<le> maximum_credits_duration cfg"
    and d: "\<forall>e \<in> set episodes. ep_duration e \<le> 1073741824"
    using assms by (auto simp: season_ok_def)
  have entries: "\<forall>(i, e) \<in> set (List.enumerate 0 episodes). ep_duration e \<le> 1073741824"
    using d by (auto simp: in_set_enumerate_eq)
  obtain found p1 where a: "(if anime cfg then credits_regions dec cfg episodes [0..<length episodes] p
       else Inr (Map.empty, p)) = Inr (found, p1)" "unreadable p \<subseteq> unreadable p1"
  proof (cases "anime cfg")
    case True
    have "set [0..<length episodes] \<subseteq> {..<length episodes}" by auto
    from credits_regions_total [OF b this distinct_upt] obtain found p' where
      "credits_regions dec cfg episodes [0..<length episodes] p = Inr (found, p')"
      "unreadable p \<subseteq> unreadable p'" by metis
    then show thesis using that True by simp
  qed (use that in auto)
  let ?st0 = "record_found found ''chromaprint'' (Map.empty, Map.empty)"
  obtain st1 p2 where bf: "black_frame_pass dec cfg (List.enumerate 0 episodes) ?st0 0 p1 = Some (Inr (st1, p2))"
    using black_frame_pass_total [OF b fl s m entries] by blast
  note k1 = black_frame_pass_keeps [OF bf]
  have c0: "\<forall>i. (fst ?st0 i = None) = (snd ?st0 i = None)" by (simp add: record_found_def)
  have c1: "\<forall>i. (fst st1 i = None) = (snd st1 i = None)"
    using k1 c0 unfolding keeps_answers_def by (metis option.distinct(1))
  show thesis
  proof (cases "anime cfg")
    case True
    then show thesis using that [of st1 p2] a bf k1 c1 by (auto simp: season_credits_def Let_def)
  next
    case False
    let ?left = "filter (\<lambda>i. fst st1 i = None) [0..<length episodes]"
    have "set ?left \<subseteq> {..<length episodes}" "distinct ?left" by auto
    from credits_regions_total [OF b this] obtain found2 p3 where
      r: "credits_regions dec cfg episodes ?left p2 = Inr (found2, p3)" "unreadable p2 \<subseteq> unreadable p3"
      by metis
    have "\<forall>i. (fst (record_found found2 ''chromaprint'' st1) i = None)
        = (snd (record_found found2 ''chromaprint'' st1) i = None)"
      using c1 by (auto simp: record_found_def)
    then show thesis using that [of "record_found found2 ''chromaprint'' st1" p3] a bf k1 r False
      by (auto simp: season_credits_def Let_def)
  qed
qed


section \<open>Regions\<close>

lemma adjust_silence_end:
  assumes "adjust_silence dec cfg e i w (stop, p) = (stop', p')"
  shows "stop' = stop \<or> rg_start w \<le> stop' \<and> stop' < rg_end w"
  using assms by (auto simp: adjust_silence_def find_Some_iff split: if_splits sum.splits option.splits)

lemma adjust_keyframe_end:
  assumes "adjust_keyframe dec cfg e i w (stop, p) = (stop', p')"
    and "\<And>ks k. keyframes_window dec (ep_media e) (rg_start w) (rg_end w) = Inr ks \<Longrightarrow> k \<in> set ks \<Longrightarrow>
           rg_start w \<le> k \<and> k \<le> rg_end w"
  shows "stop' = stop \<or> rg_start w \<le> stop' \<and> stop' \<le> rg_end w"
  using assms by (auto simp: adjust_keyframe_def split: if_splits sum.splits option.splits dest: min_by_key_mem)

lemma foldl_last_black:
  "foldl (\<lambda>best t. Some (map_or best t (\<lambda>b. max b t))) (Some b) ts = Some (foldl max b ts)"
  for b :: f64
  by (induction ts arbitrary: b) simp_all

lemma foldl_max_mem: "foldl max b ts \<in> set (b # ts) \<and> (\<forall>t \<in> set (b # ts). t \<le> foldl max b ts)"
  for b :: f64
proof (induction ts arbitrary: b)
  case Nil
  then show ?case by simp
next
  case (Cons t ts)
  from Cons [of "max b t"] show ?case by (auto simp: max_def split: if_splits)
qed

text \<open>The last black frame is one of the frames that count, and no later one counts.\<close>

lemma last_black_Some:
  assumes "last_black cfg minimum boundary frames = Some t"
  shows "minimum \<le> t \<and> t \<le> boundary
    \<and> (\<exists>f \<in> set frames. lf_time f = t \<and> minimum_percentage (cf_black cfg) \<le> lf_black_percentage f)
    \<and> (\<forall>f \<in> set frames. minimum_percentage (cf_black cfg) \<le> lf_black_percentage f \<longrightarrow>
         minimum \<le> lf_time f \<longrightarrow> lf_time f \<le> boundary \<longrightarrow> lf_time f \<le> t)"
proof -
  let ?fs = "filter (\<lambda>f. lf_black_percentage f \<ge> minimum_percentage (cf_black cfg)
      \<and> lf_time f \<ge> minimum \<and> lf_time f \<le> boundary) frames"
  obtain b ts where ts: "map lf_time ?fs = b # ts"
    using assms by (cases "map lf_time ?fs") (auto simp: last_black_def)
  then have t: "t = foldl max b ts"
    using assms by (simp add: last_black_def foldl_last_black)
  have "t \<in> lf_time ` set ?fs" using foldl_max_mem [of b ts] t ts by (metis list.set_map)
  moreover have "x \<le> t" if "x \<in> lf_time ` set ?fs" for x
    using foldl_max_mem [of b ts] t ts that by (metis list.set_map)
  ultimately show ?thesis by auto
qed

section \<open>The rows\<close>

lemma map_segments_row:
  "map sg_name (map (segments_row recap_ranges intros st bad) (List.enumerate 0 episodes)) = map ep_name episodes"
  "map sg_id (map (segments_row recap_ranges intros st bad) (List.enumerate 0 episodes)) = map ep_id episodes"
  by (auto intro!: nth_equalityI simp: segments_row_def nth_enumerate_eq)

lemma analyze_names:
  assumes "analyze dec cfg episodes = Some (Inr rows)"
  shows "map sg_name rows = map ep_name episodes"
proof -
  obtain intros recap_ranges p1 where
    o1: "season_opening dec cfg episodes \<lparr>calls = 0, unreadable = {}\<rparr> = Inr (intros, recap_ranges, p1)"
    using assms by (cases "season_opening dec cfg episodes \<lparr>calls = 0, unreadable = {}\<rparr>")
      (auto simp: analyze_def)
  then obtain c where "season_credits dec cfg episodes p1 = Some c"
    using assms by (cases "season_credits dec cfg episodes p1") (auto simp: analyze_def)
  then show ?thesis using assms o1
    by (cases c) (auto simp: analyze_def map_segments_row simp del: map_map)
qed

section \<open>Properties\<close>

text \<open>C18. A season is always reported: unless the caller cancels, the analysis returns one row for every
  episode in broadcast order. No lookup of a fingerprint misses and no search runs for ever. Credits
  have a source exactly when there are credits, and, in a season with something to compare, an episode
  whose opening could not be read is marked unreadable.\<close>

theorem analyze_reports:
  assumes "season_ok dec cfg episodes"
  shows "\<exists>rows. analyze dec cfg episodes = Some (Inr rows)
    \<and> map sg_name rows = map ep_name episodes \<and> map sg_id rows = map ep_id episodes
    \<and> list_all (\<lambda>row. (sg_credits row = None) = (sg_credits_source row = None)) rows
    \<and> (single episodes \<or> list_all (\<lambda>i.
         print_fails dec episodes (windows_for (rounding dec) cfg Intro episodes) i \<le> sg_unreadable (rows ! i))
         [0..<length episodes])"
proof -
  let ?p = "\<lparr>calls = 0, unreadable = {}\<rparr>" let ?w = "windows_for (rounding dec) cfg Intro episodes"
  have b: "\<forall>n. between dec n = None" using assms by (simp add: season_ok_def)
  obtain intros recap_ranges p1 where o1: "season_opening dec cfg episodes ?p = Inr (intros, recap_ranges, p1)"
    and "unreadable ?p \<subseteq> unreadable p1"
    and bad: "\<not> single episodes \<Longrightarrow> {i. i < length episodes \<and> print_fails dec episodes ?w i} \<subseteq> unreadable p1"
    by (rule season_opening_total [OF b, where cfg = cfg and episodes = episodes and p = ?p])
      (rule that, assumption, assumption, blast)
  obtain st p2 where c: "season_credits dec cfg episodes p1 = Some (Inr (st, p2))"
    "unreadable p1 \<subseteq> unreadable p2" "\<forall>i. (fst st i = None) = (snd st i = None)"
    by (rule season_credits_total [OF assms])
  let ?rows = "map (segments_row recap_ranges intros st (unreadable p2)) (List.enumerate 0 episodes)"
  have "analyze dec cfg episodes = Some (Inr ?rows)" using o1 c(1) by (simp add: analyze_def)
  moreover note map_segments_row [of recap_ranges intros st "unreadable p2" episodes]
  moreover have "list_all (\<lambda>row. (sg_credits row = None) = (sg_credits_source row = None)) ?rows"
    using c(3) by (auto simp: list_all_iff segments_row_def)
  moreover have "single episodes \<or> list_all (\<lambda>i. print_fails dec episodes ?w i \<le> sg_unreadable (?rows ! i))
      [0..<length episodes]"
    using bad c(2) by (fastforce simp: list_all_iff segments_row_def nth_enumerate_eq)
  ultimately show ?thesis by blast
qed

text \<open>Witness: two episodes none of whose bytes can be read.\<close>

definition gone :: "unit decoder" where
  "gone = \<lparr>audio_window = \<lambda>_ _ _. Inl (), fingerprint_samples = \<lambda>_. Inr [],
           luma_window = \<lambda>_ _ _ _. Inl (), keyframes_window = \<lambda>_ _ _. Inl (), between = \<lambda>_. None,
           rounding = \<lambda>x. x, pow10 = \<lambda>x. x, index_order = remdups, key_order = \<lambda>_. []\<rparr>"

definition two_episodes :: "Episode list" where
  "two_episodes = [episode_new ''a'' ''e1'' 600, episode_new ''b'' ''e2'' 600]"

lemma gone_season_ok: "season_ok gone (Config_default (\<lambda>x. x)) two_episodes"
  by (simp add: season_ok_def gone_def two_episodes_def episode_new_def Config_default_def
      settings_ok_def BlackFrameParams_default_def BLACK_CREDITS_MIN_MS_def CREDITS_WINDOW_MS_def)

lemma not_single_two: "\<not> single two_episodes"
  by (simp add: single_def two_episodes_def can_compare_def episode_new_def)

lemma gone_print_fails: "print_fails gone episodes windows i"
  by (simp add: print_fails_def fingerprint_def gone_def)

theorem analyze_reports_witness:
  "\<exists>rows. analyze gone (Config_default (\<lambda>x. x)) two_episodes = Some (Inr rows)
     \<and> map sg_name rows = [''e1'', ''e2''] \<and> sg_unreadable (rows ! 0) \<and> sg_unreadable (rows ! 1)"
proof -
  obtain rows where r: "analyze gone (Config_default (\<lambda>x. x)) two_episodes = Some (Inr rows)"
    "map sg_name rows = map ep_name two_episodes"
    "single two_episodes \<or> list_all (\<lambda>i. print_fails gone two_episodes
       (windows_for (rounding gone) (Config_default (\<lambda>x. x)) Intro two_episodes) i \<le> sg_unreadable (rows ! i))
       [0..<length two_episodes]"
    using analyze_reports [OF gone_season_ok] by blast
  have "length two_episodes = 2" by (simp add: two_episodes_def)
  then have "list_all (\<lambda>i. sg_unreadable (rows ! i)) [0..<2]"
    using r(3) not_single_two by (simp add: gone_print_fails)
  then have "sg_unreadable (rows ! 0) \<and> sg_unreadable (rows ! 1)"
    by (simp add: upt_rec)
  then show ?thesis using r(1,2) by (auto simp: two_episodes_def episode_new_def)
qed

text \<open>The analyzer that is asked first keeps its answer: outside anime seasons, what the black frames
  answer is in the report under their name, and whatever the search of the music adds is labelled as
  its own.\<close>

theorem credits_not_overwritten:
  assumes "\<not> anime cfg"
    and "season_credits dec cfg episodes p = Some (Inr (st, p'))"
    and "black_frame_pass dec cfg (List.enumerate 0 episodes) (Map.empty, Map.empty) 0 p = Some (Inr (st1, p1))"
  shows "keeps_answers ''chromaprint'' st1 st
    \<and> (case fst st1 i of None \<Rightarrow> True | Some r \<Rightarrow> fst st i = Some r \<and> snd st i = Some ''blackframe'')
    \<and> (if fst st1 i = None \<and> fst st i \<noteq> None then snd st i = Some ''chromaprint'' else True)"
proof -
  have e: "record_found Map.empty s (Map.empty, Map.empty) = (Map.empty, Map.empty)" for s
    by (simp add: record_found_def)
  obtain found where st: "st = record_found found ''chromaprint'' st1"
    using assms by (auto simp: season_credits_def Let_def e split: sum.splits)
  have "keeps_answers ''chromaprint'' st1 st" unfolding st by (rule keeps_answers_record)
  moreover have "keeps_answers ''blackframe'' (Map.empty, Map.empty) st1"
    using black_frame_pass_keeps [OF assms(3)] by simp
  ultimately show ?thesis by (auto simp: keeps_answers_def split: option.splits)
qed

text \<open>Witness: a picture that is black from 570 seconds on answers for the only episode.\<close>

definition dark :: "unit decoder" where
  "dark = gone\<lparr>luma_window := \<lambda>_ s t _. Inr (if t \<le> max s 570 then [] else
     [\<lparr>lf_time = max s 570, lf_black_percentage = 100\<rparr>])\<rparr>"

definition one_episode :: "Episode list" where
  "one_episode = [episode_new ''a'' ''e1'' 600]"

lemma dark_season_ok: "season_ok dark (Config_default (\<lambda>x. x)) one_episode"
  by (simp add: season_ok_def dark_def gone_def one_episode_def episode_new_def Config_default_def
      settings_ok_def BlackFrameParams_default_def BLACK_CREDITS_MIN_MS_def CREDITS_WINDOW_MS_def)

theorem credits_not_overwritten_witness:
  "\<exists>st1 st p1 p'. black_frame_pass dark (Config_default (\<lambda>x. x)) (List.enumerate 0 one_episode)
       (Map.empty, Map.empty) 0 \<lparr>calls = 0, unreadable = {}\<rparr> = Some (Inr (st1, p1))
     \<and> season_credits dark (Config_default (\<lambda>x. x)) one_episode \<lparr>calls = 0, unreadable = {}\<rparr>
         = Some (Inr (st, p')) \<and> keeps_answers ''chromaprint'' st1 st"
proof -
  let ?cfg = "Config_default (\<lambda>x. x)" let ?p = "\<lparr>calls = 0, unreadable = {}\<rparr>"
  note ok = dark_season_ok [unfolded season_ok_def]
  have e: "\<forall>(i, e) \<in> set (List.enumerate 0 one_episode). ep_duration e \<le> 1073741824"
    by (simp add: one_episode_def episode_new_def)
  obtain st1 p1 where b: "black_frame_pass dark ?cfg (List.enumerate 0 one_episode)
      (Map.empty, Map.empty) 0 ?p = Some (Inr (st1, p1))"
    using black_frame_pass_total [of dark ?cfg, OF _ _ _ _ e] ok by blast
  obtain st p' where c: "season_credits dark ?cfg one_episode ?p = Some (Inr (st, p'))"
    by (rule season_credits_total [OF dark_season_ok, of ?p]) (rule that)
  have "\<not> anime ?cfg" by (simp add: Config_default_def)
  from credits_not_overwritten [OF this c b] b c show ?thesis by blast
qed

text \<open>A recap starts the file, is neither shorter nor longer than the settings allow, ends inside the
  file and never runs into the intro.\<close>

theorem recap_sound:
  assumes "recap_of dec cfg e i c intro_start p = (Some r, p')"
  shows "rg_start r = 0 \<and> minimum_recap_duration cfg < rg_end r \<and> rg_end r \<le> maximum_recap_duration cfg
    \<and> rg_end r \<le> ep_duration e \<and> (case intro_start of None \<Rightarrow> True | Some s \<Rightarrow> rg_end r \<le> s)"
proof -
  let ?boundary = "recap_boundary (rounding dec) cfg e intro_start"
  obtain frames stop0 where
    l: "last_black cfg (max (minimum_recap_duration cfg) (rg_end c)) ?boundary frames = Some stop0"
    and r: "r = range_new 0 (case intro_start of Some s \<Rightarrow> min stop0 s | None \<Rightarrow> stop0)"
    and m: "minimum_recap_duration cfg < (case intro_start of Some s \<Rightarrow> min stop0 s | None \<Rightarrow> stop0)"
    using assms by (auto simp: recap_of_def Let_def split: if_splits sum.splits option.splits)
  have "stop0 \<le> ?boundary" using last_black_Some [OF l] by simp
  moreover have "?boundary \<le> ep_duration e" "?boundary \<le> maximum_recap_duration cfg"
    by (auto simp: recap_boundary_def Let_def split: option.splits)
  ultimately show ?thesis using r m by (auto split: option.splits)
qed

text \<open>Witness: a card of ten seconds, black frames at 40 and 100 seconds, and an intro at 90.\<close>

definition carded :: "unit decoder" where
  "carded = gone\<lparr>luma_window := \<lambda>_ _ _ _. Inr [\<lparr>lf_time = 40, lf_black_percentage = 100\<rparr>,
     \<lparr>lf_time = 100, lf_black_percentage = 100\<rparr>]\<rparr>"

lemma carded_recap:
  "recap_of carded (Config_default (\<lambda>x. x)) (episode_new ''a'' ''e1'' 600) 0 (range_new 0 10) (Some 90)
     \<lparr>calls = 0, unreadable = {}\<rparr> = (Some (range_new 0 40), \<lparr>calls = 0, unreadable = {}\<rparr>)"
  by (simp add: recap_of_def carded_def gone_def recap_boundary_def last_black_def episode_new_def
      Config_default_def BlackFrameParams_default_def RECAP_MIN_MS_def RECAP_MAX_MS_def)

theorem recap_sound_witness: "rg_end (range_new 0 40) \<le> (90 :: f64)"
  using recap_sound [OF carded_recap] by simp

text \<open>Refining a region never inverts it and moves its end only inside the refinement window, or to
  the end of the file when it is that close; the start stays or goes to zero.\<close>

theorem adjust_sound:
  assumes "adjust dec cfg e i region p = (r, p')"
    and "\<And>s t ks k. keyframes_window dec (ep_media e) s t = Inr ks \<Longrightarrow> k \<in> set ks \<Longrightarrow> s \<le> k \<and> k \<le> t"
  shows "r = region
    \<or> rg_start r < rg_end r \<and> (rg_start r = rg_start region \<or> rg_start r = 0)
      \<and> (rg_end r = rg_end region \<or> rg_end r = ep_duration e
         \<or> rg_start (adjust_window (rounding dec) cfg (ep_duration e) (rg_end region)) \<le> rg_end r
           \<and> rg_end r \<le> rg_end (adjust_window (rounding dec) cfg (ep_duration e) (rg_end region)))"
proof -
  let ?w = "adjust_window (rounding dec) cfg (ep_duration e) (rg_end region)"
  obtain stop1 p1 where s: "adjust_silence dec cfg e i ?w (rg_end region, p) = (stop1, p1)" by fastforce
  obtain stop2 p2 where k: "adjust_keyframe dec cfg e i ?w (stop1, p1) = (stop2, p2)" by fastforce
  have "stop2 = rg_end region \<or> rg_start ?w \<le> stop2 \<and> stop2 \<le> rg_end ?w"
    using adjust_silence_end [OF s] adjust_keyframe_end [OF k] assms(2) by fastforce
  then show ?thesis using assms(1) s k
    by (auto simp: adjust_def Let_def split: if_splits)
qed


text \<open>Witness: nothing can be read, so the end stays and the start goes to zero.\<close>

lemma gone_adjust:
  "adjust gone (Config_default (\<lambda>x. x)) (episode_new ''a'' ''e1'' 600) 0 (range_new 1 90)
     \<lparr>calls = 0, unreadable = {}\<rparr> = (range_new 0 90, \<lparr>calls = 0, unreadable = {0}\<rparr>)"
  by (simp add: adjust_def Let_def adjust_silence_def adjust_keyframe_def detect_silence_def gone_def
      episode_new_def Config_default_def EPSILON_def mark_unreadable_def)

theorem adjust_sound_witness: "rg_start (range_new 0 90) < rg_end (range_new 0 (90 :: f64))"
  using adjust_sound [OF gone_adjust] by (auto simp: gone_def range_new_def)

text \<open>The queue of a search holds what was asked for, and at most one more episode, the nearest one
  the first can be compared with, exactly when nothing asked for can be compared with the first.\<close>

theorem search_queue_exact:
  "search_queue episodes (first # rest) = first # rest
   \<or> (\<exists>n. search_queue episodes (first # rest) = first # rest @ [n] \<and> n < length episodes
        \<and> n \<notin> set (first # rest) \<and> can_compare (episodes ! first) (episodes ! n)
        \<and> \<not> list_ex (\<lambda>i. i \<noteq> first \<and> can_compare (episodes ! first) (episodes ! i)) (first # rest)
        \<and> list_all (\<lambda>m. m \<in> set (first # rest) \<or> \<not> can_compare (episodes ! first) (episodes ! m)
                        \<or> abs_diff n first \<le> abs_diff m first) [0..<length episodes])"
proof -
  let ?f = "\<lambda>i. abs_diff i first"
  let ?c = "filter (\<lambda>i. i \<notin> set (first # rest) \<and> can_compare (episodes ! first) (episodes ! i))
      [0..<length episodes]"
  show ?thesis
  proof (cases "min_by_key ?f ?c")
    case None
    then show ?thesis unfolding search_queue_def by (simp only: list.case option.case if_cancel) simp
  next
    case (Some n)
    have mem: "n \<in> set ?c" by (rule min_by_key_mem [OF Some])
    have least: "?f n \<le> ?f m" if "m \<in> set ?c" for m by (rule min_by_key_le [OF Some that])
    have "list_all (\<lambda>m. m \<in> set (first # rest) \<or> \<not> can_compare (episodes ! first) (episodes ! m)
        \<or> ?f n \<le> ?f m) [0..<length episodes]"
      unfolding list_all_iff using least by fastforce
    moreover have "search_queue episodes (first # rest) =
        (if list_ex (\<lambda>i. i \<noteq> first \<and> can_compare (episodes ! first) (episodes ! i)) (first # rest)
         then first # rest else first # rest @ [n])"
      unfolding search_queue_def using Some by (simp only: list.case option.case append_Cons)
    ultimately show ?thesis using mem by (auto split: if_splits)
  qed
qed

section \<open>Files that cannot be probed\<close>

fun merge_rows :: "(string \<Rightarrow> 'e + Episode) \<Rightarrow> (string \<Rightarrow> string) \<Rightarrow> string list \<Rightarrow> EpisodeSegments list
    \<Rightarrow> EpisodeSegments list" where
  "merge_rows probe base_name [] rows = rows"
| "merge_rows probe base_name (p # paths) rows =
     (case probe p of
        Inl _ \<Rightarrow> unprobed_row (base_name p) # merge_rows probe base_name paths rows
      | Inr _ \<Rightarrow> hd rows # merge_rows probe base_name paths (tl rows))"

lemma put_back_merge:
  assumes "length rows = length (filter_map (\<lambda>p. case probe p of Inl _ \<Rightarrow> None | Inr e \<Rightarrow> Some e) paths)"
    and "length pre = n"
  shows "put_back (filter_map (\<lambda>(index, p). case probe p of
              Inl _ \<Rightarrow> Some (index, unprobed_row (base_name p)) | Inr _ \<Rightarrow> None) (List.enumerate n paths))
           (pre @ rows) = pre @ merge_rows probe base_name paths rows"
  using assms
proof (induction paths arbitrary: n pre rows)
  case Nil
  then show ?case by (simp add: put_back_def)
next
  case (Cons p paths)
  show ?case
  proof (cases "probe p")
    case (Inl e)
    have "put_back (filter_map (\<lambda>(index, p). case probe p of
            Inl _ \<Rightarrow> Some (index, unprobed_row (base_name p)) | Inr _ \<Rightarrow> None) (List.enumerate (Suc n) paths))
           ((pre @ [unprobed_row (base_name p)]) @ rows)
        = (pre @ [unprobed_row (base_name p)]) @ merge_rows probe base_name paths rows"
      using Cons.prems Inl by (intro Cons.IH) simp_all
    then show ?thesis using Cons.prems Inl by (simp add: put_back_def insert_at_def)
  next
    case (Inr e)
    then obtain r rs where rows: "rows = r # rs" using Cons.prems by (cases rows) auto
    have "put_back (filter_map (\<lambda>(index, p). case probe p of
            Inl _ \<Rightarrow> Some (index, unprobed_row (base_name p)) | Inr _ \<Rightarrow> None) (List.enumerate (Suc n) paths))
           ((pre @ [r]) @ rs) = (pre @ [r]) @ merge_rows probe base_name paths rs"
      using Cons.prems Inr rows by (intro Cons.IH) simp_all
    then show ?thesis using Inr rows by simp
  qed
qed

lemma merge_rows_names:
  assumes "map sg_name rows = map ep_name (filter_map (\<lambda>p. case probe p of Inl _ \<Rightarrow> None | Inr e \<Rightarrow> Some e) paths)"
  shows "map sg_name (merge_rows probe base_name paths rows)
      = map (\<lambda>p. case probe p of Inl _ \<Rightarrow> base_name p | Inr e \<Rightarrow> ep_name e) paths"
  using assms
proof (induction paths arbitrary: rows)
  case Nil
  then show ?case by simp
next
  case (Cons p paths)
  then show ?case by (cases "probe p"; cases rows) (auto simp: unprobed_row_def)
qed

text \<open>The report of a directory reads in the order of its files: every file has its row at its
  place, the ones that could not be probed among them.\<close>

theorem analyze_paths_order:
  assumes "analyze_paths dec probe base_name cfg paths = Some (Inr rows)"
  shows "map sg_name rows = map (\<lambda>p. case probe p of Inl _ \<Rightarrow> base_name p | Inr e \<Rightarrow> ep_name e) paths"
proof -
  let ?eps = "filter_map (\<lambda>p. case probe p of Inl _ \<Rightarrow> None | Inr e \<Rightarrow> Some e) paths"
  let ?bad = "filter_map (\<lambda>(index, p). case probe p of
      Inl _ \<Rightarrow> Some (index, unprobed_row (base_name p)) | Inr _ \<Rightarrow> None) (List.enumerate 0 paths)"
  obtain rows0 where a: "analyze dec cfg ?eps = Some (Inr rows0)" and rows: "rows = put_back ?bad rows0"
  proof -
    have "map_option (\<lambda>r. case r of Inl e \<Rightarrow> Inl (Analysis e) | Inr rows \<Rightarrow> Inr (put_back ?bad rows))
        (analyze dec cfg ?eps) = Some (Inr rows)"
      using assms by (simp add: analyze_paths_def Let_def split: if_splits)
    then obtain r where "analyze dec cfg ?eps = Some r"
      "(case r of Inl e \<Rightarrow> Inl (Analysis e) | Inr rows \<Rightarrow> Inr (put_back ?bad rows)) = Inr rows" by blast
    then show thesis using that by (cases r) auto
  qed
  have names: "map sg_name rows0 = map ep_name ?eps"
    by (rule analyze_names [OF a])
  then have "length rows0 = length ?eps" by (metis length_map)
  from put_back_merge [OF this, of "[]" 0] rows merge_rows_names [OF names] show ?thesis by simp
qed

text \<open>Witness: the second of three files cannot be probed.\<close>

theorem analyze_paths_order_witness:
  "\<exists>rows. analyze_paths gone (\<lambda>p. if p = ''x'' then Inl () else Inr (episode_new p p 600)) (\<lambda>p. p)
       (Config_default (\<lambda>x. x)) [''a'', ''x'', ''b''] = Some (Inr rows)
     \<and> map sg_name rows = [''a'', ''x'', ''b'']"
proof -
  let ?probe = "\<lambda>p. if p = ''x'' then Inl () else Inr (episode_new p p 600)"
  let ?cfg = "Config_default (\<lambda>x. x)"
  have ok: "season_ok gone ?cfg [episode_new ''a'' ''a'' 600, episode_new ''b'' ''b'' 600]"
    using gone_season_ok by (simp add: season_ok_def two_episodes_def episode_new_def)
  obtain intros recap_ranges p1 where
    o1: "season_opening gone ?cfg [episode_new ''a'' ''a'' 600, episode_new ''b'' ''b'' 600]
      \<lparr>calls = 0, unreadable = {}\<rparr> = Inr (intros, recap_ranges, p1)"
    by (rule season_opening_total [of gone, where cfg = ?cfg and p = "\<lparr>calls = 0, unreadable = {}\<rparr>"
          and episodes = "[episode_new ''a'' ''a'' 600, episode_new ''b'' ''b'' 600]"])
      (use ok in \<open>simp add: season_ok_def\<close>, rule that)
  obtain st p' where "season_credits gone ?cfg [episode_new ''a'' ''a'' 600, episode_new ''b'' ''b'' 600] p1
      = Some (Inr (st, p'))"
    by (rule season_credits_total [OF ok, of p1]) (rule that)
  then obtain rows where "analyze_paths gone ?probe (\<lambda>p. p) ?cfg [''a'', ''x'', ''b''] = Some (Inr rows)"
    using o1 by (auto simp: analyze_paths_def analyze_def)
  with analyze_paths_order [OF this] show ?thesis by (auto simp: episode_new_def)
qed

end
