(* ===== verification/Request_Gate.thy ===== *)
theory Request_Gate
  imports Kahawai_Prelude
begin

text \<open>
  The request queues of the metadata providers, \<open>crates/kahawai-hub/src/gate.rs\<close>. Time is in
  milliseconds. One operation per point where \<open>send_inner\<close> can be suspended: entering the queue,
  getting its lock, executing after the sleep, handling the reply, and giving up because the lease of
  the credentials changed. A \<open>watch\<close> channel is the current revision of the provider; the lock of a
  queue is fair, as \<open>tokio::sync::Mutex\<close> documents. The list of executions is kept for the
  properties only; no operation reads it.
\<close>

section \<open>Definitions\<close>

definition DEFAULT_PENALTY :: nat where "DEFAULT_PENALTY = 60"
definition MAX_PENALTY :: nat where "MAX_PENALTY = 3600"
definition THEAUDIODB_PREMIUM_SPACING :: nat where "THEAUDIODB_PREMIUM_SPACING = 650"

record CredentialLease =
  cl_provider :: string
  cl_expected :: u64

definition lease_new :: "(string \<Rightarrow> u64) \<Rightarrow> string \<Rightarrow> CredentialLease" where
  "lease_new revisions provider = \<lparr>cl_provider = provider, cl_expected = revisions provider\<rparr>"

definition lease_check :: "(string \<Rightarrow> u64) \<Rightarrow> CredentialLease \<Rightarrow> bool" where
  "lease_check revisions lease = (revisions (cl_provider lease) = cl_expected lease)"

definition spacing :: "string \<Rightarrow> nat" where
  "spacing host =
     (if host \<in> {''musicbrainz.org'', ''coverartarchive.org''} then 1100
      else if host = ''graphql.anilist.co'' then 2100
      else if host \<in> {''anidb.net'', ''api.anidb.net''} then 2200
      else if host = ''api.opensubtitles.com'' then 1100
      else if host = ''api.themoviedb.org'' then 60
      else if host = ''api4.thetvdb.com'' then 200
      else if host \<in> {''webservice.fanart.tv'', ''assets.fanart.tv''} then 500
      else if host = ''www.theaudiodb.com'' then 2100
      else if host \<in> {''image.tmdb.org'', ''artworks.thetvdb.com'', ''raw.githubusercontent.com'',
                        ''r2.theaudiodb.com''} then 0
      else 500)"

record Response =
  rs_status :: nat
  rs_retry_after :: "string option"
  rs_zone :: "string option"
  rs_who :: "string option"

definition retry_after :: "Response \<Rightarrow> nat option" where
  "retry_after resp = Option.bind (rs_retry_after resp) (\<lambda>v. parse_nat (2 ^ 64) (trim v))"

definition penalty_secs :: "Response \<Rightarrow> nat" where
  "penalty_secs resp =
     min (unwrap_or (opt_filter (\<lambda>d. d \<noteq> 0) (retry_after resp)) DEFAULT_PENALTY) MAX_PENALTY"

definition backoff_reason :: "Response \<Rightarrow> string" where
  "backoff_reason resp =
     (if rs_status resp = 429 then ''rate limit''
      else if rs_zone resp = Some ''global'' \<or> rs_who resp = Some ''global'' then ''global capacity''
      else ''service unavailable'')"

datatype reply = TransportError | Replied Response

datatype outcome =
    Answered Response
  | ProviderBackoff string nat string nat
  | RequestFailed string
  | CredentialsChanged string

text \<open>One request: the host as the URL spells it, its lease and the spacing its caller asked for.\<close>

record Request =
  rq_url_host :: string
  rq_lease :: "CredentialLease option"
  rq_spacing :: "nat option"

definition rq_host :: "Request \<Rightarrow> string" where
  "rq_host r = to_ascii_lowercase (rq_url_host r)"

text \<open>What a reply does: how long the queue stays quiet, and what the caller gets.\<close>

definition quiet_ms :: "Request \<Rightarrow> reply \<Rightarrow> nat" where
  "quiet_ms r rep =
     (case rep of
        Replied resp \<Rightarrow>
          if rs_status resp \<in> {429, 503} then penalty_secs resp * 1000
          else unwrap_or (rq_spacing r) (spacing (rq_host r))
      | TransportError \<Rightarrow> unwrap_or (rq_spacing r) (spacing (rq_host r)))"

definition outcome_of :: "(string \<Rightarrow> u64) \<Rightarrow> Request \<Rightarrow> reply \<Rightarrow> outcome" where
  "outcome_of revisions r rep =
     (case rep of
        TransportError \<Rightarrow>
          (case rq_lease r of
             Some lease \<Rightarrow> if lease_check revisions lease then RequestFailed (rq_host r)
                           else CredentialsChanged (cl_provider lease)
           | None \<Rightarrow> RequestFailed (rq_host r))
      | Replied resp \<Rightarrow>
          if rs_status resp \<in> {429, 503}
          then ProviderBackoff (rq_host r) (rs_status resp) (backoff_reason resp) (penalty_secs resp)
          else Answered resp)"

subsection \<open>The queues\<close>

datatype phase = Waiting | Sleeping | InFlight | Dropped | Finished outcome

record execution =
  ex_host :: string
  ex_request :: nat
  ex_sent :: Request
  ex_at :: nat
  ex_reply :: "(nat \<times> reply) option"

record Gate =
  clock :: nat
  revision :: "string \<Rightarrow> u64"
  next_at :: "string \<rightharpoonup> nat"
  lock_queue :: "string \<Rightarrow> nat list"
  requests :: "nat \<rightharpoonup> Request \<times> phase"
  executions :: "execution list"

definition gate_new :: Gate where
  "gate_new = \<lparr>clock = 0, revision = \<lambda>_. 0, next_at = Map.empty, lock_queue = \<lambda>_. [],
               requests = Map.empty, executions = []\<rparr>"

definition lease_ok :: "Gate \<Rightarrow> Request \<Rightarrow> bool" where
  "lease_ok g r = (case rq_lease r of Some lease \<Rightarrow> lease_check (revision g) lease | None \<Rightarrow> True)"

text \<open>Entering: the queue of a host nobody asked yet is created, and a stale lease is refused.\<close>

definition send_begin :: "nat \<Rightarrow> Request \<Rightarrow> Gate \<Rightarrow> Gate" where
  "send_begin i r g =
     (let h = rq_host r;
          g1 = g\<lparr>next_at := (next_at g)(h \<mapsto> unwrap_or (next_at g h) (clock g))\<rparr>
      in if lease_ok g r
         then g1\<lparr>lock_queue := (lock_queue g1)(h := lock_queue g1 h @ [i]),
                 requests := (requests g1)(i \<mapsto> (r, Waiting))\<rparr>
         else g1\<lparr>requests := (requests g1)(i \<mapsto>
                (r, Finished (CredentialsChanged (map_or (rq_lease r) [] cl_provider))))\<rparr>)"

text \<open>The lock belongs to the first of the queue.\<close>

definition send_locked :: "nat \<Rightarrow> Gate \<Rightarrow> Gate option" where
  "send_locked i g =
     (case requests g i of
        Some (r, Waiting) \<Rightarrow>
          (case lock_queue g (rq_host r) of
             first # _ \<Rightarrow>
               if first = i \<and> lease_ok g r
               then Some (g\<lparr>requests := (requests g)(i \<mapsto> (r, Sleeping))\<rparr>) else None
           | [] \<Rightarrow> None)
      | _ \<Rightarrow> None)"

definition send_execute :: "nat \<Rightarrow> Gate \<Rightarrow> Gate option" where
  "send_execute i g =
     (case requests g i of
        Some (r, Sleeping) \<Rightarrow>
          if unwrap_or (next_at g (rq_host r)) 0 \<le> clock g \<and> lease_ok g r
          then Some (g\<lparr>requests := (requests g)(i \<mapsto> (r, InFlight)),
                       executions := executions g @ [\<lparr>ex_host = rq_host r, ex_request = i, ex_sent = r,
                                                      ex_at = clock g, ex_reply = None\<rparr>]\<rparr>)
          else None
      | _ \<Rightarrow> None)"

definition leave_queue :: "nat \<Rightarrow> string \<Rightarrow> Gate \<Rightarrow> Gate" where
  "leave_queue i h g = g\<lparr>lock_queue := (lock_queue g)(h := remove1 i (lock_queue g h))\<rparr>"

text \<open>The history notes the reply itself and when it came.\<close>

definition settle_execution :: "nat \<Rightarrow> nat \<Rightarrow> reply \<Rightarrow> execution list \<Rightarrow> execution list" where
  "settle_execution i t rep es =
     map (\<lambda>e. if ex_request e = i \<and> ex_reply e = None then e\<lparr>ex_reply := Some (t, rep)\<rparr> else e) es"

definition send_reply :: "nat \<Rightarrow> reply \<Rightarrow> Gate \<Rightarrow> Gate option" where
  "send_reply i rep g =
     (case requests g i of
        Some (r, InFlight) \<Rightarrow>
          (let until = clock g + quiet_ms r rep in
           Some (leave_queue i (rq_host r)
             (g\<lparr>next_at := (next_at g)(rq_host r \<mapsto> until),
                requests := (requests g)(i \<mapsto> (r, Finished (outcome_of (revision g) r rep))),
                executions := settle_execution i (clock g) rep (executions g)\<rparr>)))
      | _ \<Rightarrow> None)"

text \<open>A wait ends early when the revision has moved on.\<close>

definition send_revoked :: "nat \<Rightarrow> Gate \<Rightarrow> Gate option" where
  "send_revoked i g =
     (case requests g i of
        Some (r, p) \<Rightarrow>
          (case rq_lease r of
             Some lease \<Rightarrow>
               if p \<in> {Waiting, Sleeping} \<and> \<not> lease_check (revision g) lease
               then Some (leave_queue i (rq_host r)
                      (g\<lparr>requests := (requests g)(i \<mapsto>
                          (r, Finished (CredentialsChanged (cl_provider lease))))\<rparr>))
               else None
           | None \<Rightarrow> None)
      | None \<Rightarrow> None)"

text \<open>A caller may drop the future: the lock is released and nothing else happens.\<close>

definition send_dropped :: "nat \<Rightarrow> Gate \<Rightarrow> Gate option" where
  "send_dropped i g =
     (case requests g i of
        Some (r, p) \<Rightarrow>
          if p \<in> {Waiting, Sleeping, InFlight}
          then Some (leave_queue i (rq_host r) (g\<lparr>requests := (requests g)(i \<mapsto> (r, Dropped))\<rparr>))
          else None
      | None \<Rightarrow> None)"

inductive gate_step :: "Gate \<Rightarrow> Gate \<Rightarrow> bool" where
  step_begin: "requests g i = None \<Longrightarrow> gate_step g (send_begin i r g)"
| step_locked: "send_locked i g = Some g' \<Longrightarrow> gate_step g g'"
| step_execute: "send_execute i g = Some g' \<Longrightarrow> gate_step g g'"
| step_reply: "send_reply i rep g = Some g' \<Longrightarrow> gate_step g g'"
| step_revoked: "send_revoked i g = Some g' \<Longrightarrow> gate_step g g'"
| step_dropped: "send_dropped i g = Some g' \<Longrightarrow> gate_step g g'"
| step_revise: "gate_step g (g\<lparr>revision := (revision g)(provider := current)\<rparr>)"
| step_tick: "clock g \<le> t \<Longrightarrow> gate_step g (g\<lparr>clock := t\<rparr>)"

abbreviation gate_reachable :: "Gate \<Rightarrow> bool" where
  "gate_reachable \<equiv> reachable (\<lambda>g. g = gate_new) gate_step"


section \<open>The invariant\<close>

definition queued :: "phase \<Rightarrow> bool" where
  "queued p \<longleftrightarrow> p = Waiting \<or> p = Sleeping \<or> p = InFlight"

text \<open>A queue holds the requests of its host that are under way, once each, and whoever is past the
  lock is its first.\<close>

definition queues_ok :: "Gate \<Rightarrow> bool" where
  "queues_ok g \<longleftrightarrow>
     (\<forall>h. distinct (lock_queue g h))
     \<and> (\<forall>h i. i \<in> set (lock_queue g h) \<longleftrightarrow> (\<exists>r p. requests g i = Some (r, p) \<and> rq_host r = h \<and> queued p))
     \<and> (\<forall>i r p. requests g i = Some (r, p) \<and> (p = Sleeping \<or> p = InFlight) \<longrightarrow>
          (\<exists>rest. lock_queue g (rq_host r) = i # rest))"

text \<open>A queue stays quiet for what the settled executions asked, and an execution in flight is the
  last of its host.\<close>

definition in_flight :: "Gate \<Rightarrow> nat \<Rightarrow> bool" where
  "in_flight g i \<longleftrightarrow> (\<exists>r. requests g i = Some (r, InFlight))"

definition ex_quiet_until :: "execution \<Rightarrow> nat option" where
  "ex_quiet_until e = map_option (\<lambda>(t, rep). t + quiet_ms (ex_sent e) rep) (ex_reply e)"

lemma ex_quiet_until_simps [simp]:
  "ex_quiet_until \<lparr>ex_host = h, ex_request = i, ex_sent = r, ex_at = t, ex_reply = None\<rparr> = None"
  "ex_quiet_until (e\<lparr>ex_reply := Some (t, rep)\<rparr>) = Some (t + quiet_ms (ex_sent e) rep)"
  "ex_quiet_until e = None \<longleftrightarrow> ex_reply e = None"
  by (simp_all add: ex_quiet_until_def)

definition before_ok :: "Gate \<Rightarrow> execution \<Rightarrow> execution \<Rightarrow> bool" where
  "before_ok g e e' \<longleftrightarrow> ex_host e = ex_host e' \<longrightarrow>
     \<not> in_flight g (ex_request e) \<and> (\<forall>u. ex_quiet_until e = Some u \<longrightarrow> u \<le> ex_at e')"

definition quiet_kept :: "Gate \<Rightarrow> bool" where
  "quiet_kept g \<longleftrightarrow> (\<forall>e \<in> set (executions g). \<forall>u. ex_quiet_until e = Some u \<longrightarrow>
     (\<exists>n. next_at g (ex_host e) = Some n \<and> u \<le> n))"

definition owned :: "Gate \<Rightarrow> bool" where
  "owned g \<longleftrightarrow> (\<forall>e \<in> set (executions g). \<exists>r p. requests g (ex_request e) = Some (r, p)
     \<and> r = ex_sent e \<and> rq_host r = ex_host e \<and> p \<noteq> Waiting \<and> p \<noteq> Sleeping)"

definition known_hosts :: "Gate \<Rightarrow> bool" where
  "known_hosts g \<longleftrightarrow> (\<forall>i r p. requests g i = Some (r, p) \<longrightarrow> (\<exists>n. next_at g (rq_host r) = Some n
     \<and> (p = InFlight \<longrightarrow> n \<le> clock g)))"

definition paced :: "Gate \<Rightarrow> bool" where
  "paced g \<longleftrightarrow> quiet_kept g \<and> sorted_wrt (before_ok g) (executions g) \<and> owned g \<and> known_hosts g"

lemma queued_simps [simp]:
  "queued Waiting" "queued Sleeping" "queued InFlight" "\<not> queued Dropped" "\<not> queued (Finished f)"
  by (simp_all add: queued_def)

lemma queues_ok_locked:
  assumes "queues_ok g" "send_locked i g = Some g'"
  shows "queues_ok g'"
  using assms unfolding queues_ok_def send_locked_def
  by (auto split: option.splits prod.splits phase.splits list.splits if_splits)

lemma queues_ok_execute:
  assumes "queues_ok g" "send_execute i g = Some g'"
  shows "queues_ok g'"
  using assms unfolding queues_ok_def send_execute_def
  by (auto split: option.splits prod.splits phase.splits if_splits)

text \<open>Leaving a queue with a phase that is no longer under way.\<close>

lemma queues_ok_leave:
  assumes ok: "queues_ok g" and r: "requests g i = Some (r, p)" "queued p" and q: "\<not> queued q"
  shows "queues_ok (leave_queue i (rq_host r) (g\<lparr>next_at := n, requests := (requests g)(i \<mapsto> (r, q)),
           executions := es\<rparr>))"
proof -
  have d: "distinct (lock_queue g h)" for h using ok by (simp add: queues_ok_def)
  have mem: "j \<in> set (lock_queue g h) \<longleftrightarrow> (\<exists>r p. requests g j = Some (r, p) \<and> rq_host r = h \<and> queued p)"
    for j h using ok unfolding queues_ok_def by blast
  have front: "\<exists>rest. lock_queue g (rq_host r') = j # rest"
    if "requests g j = Some (r', p')" "p' = Sleeping \<or> p' = InFlight" for j r' p'
    using ok that unfolding queues_ok_def by blast
  have front': "\<exists>rest. remove1 i (lock_queue g h) = j # rest"
    if "requests g j = Some (r', p')" "p' = Sleeping \<or> p' = InFlight" "j \<noteq> i" "rq_host r' = h" for j r' p' h
    using front [OF that(1,2)] that(3,4) by auto
  show ?thesis
    unfolding queues_ok_def leave_queue_def
    using d mem front front' r q by (auto simp: set_remove1_eq)
qed

lemma queues_ok_begin:
  assumes ok: "queues_ok g" and new: "requests g i = None"
  shows "queues_ok (send_begin i r g)"
proof -
  have "i \<notin> set (lock_queue g h)" for h using ok new unfolding queues_ok_def by fastforce
  then show ?thesis using ok new unfolding queues_ok_def send_begin_def
    by (auto simp: Let_def) (metis append_Cons)+
qed


text \<open>Two gates with the same executions, whose requests in flight are requests in flight before.\<close>

lemma paced_same_executions:
  assumes ok: "paced g" and ex: "executions g' = executions g"
    and fl: "\<And>i. in_flight g' i \<Longrightarrow> in_flight g i"
    and nx: "\<And>h n. next_at g h = Some n \<Longrightarrow> next_at g' h = Some n"
    and own: "owned g'" and kn: "known_hosts g'"
  shows "paced g'"
proof -
  have "quiet_kept g'" using ok ex nx unfolding paced_def quiet_kept_def by metis
  moreover have "sorted_wrt (before_ok g') (executions g')"
    using ok unfolding ex paced_def
    by (auto elim!: sorted_wrt_mono_rel [rotated] simp: before_ok_def dest: fl)
  ultimately show ?thesis using own kn by (simp add: paced_def)
qed

lemma owned_fresh: "owned g \<Longrightarrow> requests g i = None \<or> requests g i = Some (r, Waiting)
    \<or> requests g i = Some (r, Sleeping) \<Longrightarrow> e \<in> set (executions g) \<Longrightarrow> ex_request e \<noteq> i"
  unfolding owned_def by fastforce

lemma owned_phase:
  assumes "owned g" "requests g i = Some (r, p)" "q \<noteq> Waiting" "q \<noteq> Sleeping"
  shows "owned (g\<lparr>requests := (requests g)(i \<mapsto> (r, q))\<rparr>)"
  using assms unfolding owned_def by fastforce

lemma owned_other:
  assumes "owned g" "\<And>e. e \<in> set (executions g) \<Longrightarrow> ex_request e \<noteq> i"
  shows "owned (g\<lparr>requests := (requests g)(i \<mapsto> x)\<rparr>)"
  using assms unfolding owned_def by fastforce

lemma owned_cong: "owned g \<Longrightarrow> executions g' = executions g \<Longrightarrow> requests g' = requests g \<Longrightarrow> owned g'"
  by (simp add: owned_def)

lemma paced_begin:
  assumes ok: "paced g" and new: "requests g i = None"
  shows "paced (send_begin i r g)"
proof (rule paced_same_executions [OF ok])
  let ?g' = "send_begin i r g"
  obtain p where req: "requests ?g' = (requests g)(i \<mapsto> (r, p))" and p: "p \<noteq> InFlight"
    and nxt: "next_at ?g' = (next_at g)(rq_host r \<mapsto> unwrap_or (next_at g (rq_host r)) (clock g))"
    and cl: "clock ?g' = clock g" and ex: "executions ?g' = executions g"
    by (cases "lease_ok g r") (auto simp: send_begin_def Let_def)
  show "executions ?g' = executions g" by (rule ex)
  show "in_flight g j" if "in_flight ?g' j" for j
    using that p unfolding in_flight_def req by (auto split: if_splits)
  show keep: "next_at ?g' h = Some n" if "next_at g h = Some n" for h n
    using that by (auto simp: nxt)
  have "owned (g\<lparr>requests := (requests g)(i \<mapsto> (r, p))\<rparr>)"
    using ok new by (intro owned_other) (auto simp: paced_def dest: owned_fresh)
  then show "owned ?g'" by (rule owned_cong) (simp_all add: ex req)
  show "known_hosts ?g'"
    unfolding known_hosts_def
  proof (intro allI impI)
    fix j r' p' assume j: "requests ?g' j = Some (r', p')"
    show "\<exists>n. next_at ?g' (rq_host r') = Some n \<and> (p' = InFlight \<longrightarrow> n \<le> clock ?g')"
    proof (cases "j = i")
      case True
      then have "r' = r" "p' = p" using j by (simp_all add: req)
      then show ?thesis using p by (simp add: nxt)
    next
      case False
      then have "requests g j = Some (r', p')" using j by (simp add: req)
      then obtain n where "next_at g (rq_host r') = Some n" "p' = InFlight \<longrightarrow> n \<le> clock g"
        using ok unfolding paced_def known_hosts_def by blast
      then show ?thesis using keep by (auto simp: cl)
    qed
  qed
qed

lemma paced_phase:
  assumes ok: "paced g" and r: "requests g i = Some (r, p)" and q: "q \<noteq> InFlight"
    and early: "p \<in> {Waiting, Sleeping} \<or> q \<notin> {Waiting, Sleeping}"
  shows "paced (g\<lparr>lock_queue := l, requests := (requests g)(i \<mapsto> (r, q))\<rparr>)"
proof (rule paced_same_executions [OF ok])
  let ?g1 = "g\<lparr>requests := (requests g)(i \<mapsto> (r, q))\<rparr>"
  have "owned ?g1"
    using early
  proof
    assume "p \<in> {Waiting, Sleeping}"
    then show ?thesis using ok r by (intro owned_other) (auto simp: paced_def dest: owned_fresh)
  next
    assume "q \<notin> {Waiting, Sleeping}"
    then show ?thesis using ok r by (intro owned_phase) (auto simp: paced_def)
  qed
  then show "owned (g\<lparr>lock_queue := l, requests := (requests g)(i \<mapsto> (r, q))\<rparr>)"
    by (rule owned_cong) simp_all
  have "known_hosts g" using ok by (simp add: paced_def)
  then show "known_hosts (g\<lparr>lock_queue := l, requests := (requests g)(i \<mapsto> (r, q))\<rparr>)"
    using r q unfolding known_hosts_def by (auto; blast)
qed (use q in \<open>auto simp: in_flight_def split: if_splits\<close>)

lemma paced_clock: "paced g \<Longrightarrow> clock g \<le> t \<Longrightarrow> paced (g\<lparr>clock := t\<rparr>)"
  by (rule paced_same_executions, assumption)
    (auto simp: paced_def in_flight_def owned_def known_hosts_def, meson le_trans)

lemma paced_revision: "paced g \<Longrightarrow> paced (g\<lparr>revision := v\<rparr>)"
  by (rule paced_same_executions, assumption) (auto simp: paced_def in_flight_def owned_def known_hosts_def)

lemma send_execute_SomeE:
  assumes "send_execute i g = Some g'"
  obtains r where "requests g i = Some (r, Sleeping)" "unwrap_or (next_at g (rq_host r)) 0 \<le> clock g"
    "lease_ok g r"
    "g' = g\<lparr>requests := (requests g)(i \<mapsto> (r, InFlight)),
        executions := executions g @ [\<lparr>ex_host = rq_host r, ex_request = i, ex_sent = r, ex_at = clock g,
                                        ex_reply = None\<rparr>]\<rparr>"
  using assms by (auto simp: send_execute_def split: option.splits prod.splits phase.splits if_splits)

lemma paced_execute:
  assumes ok: "paced g" and qu: "queues_ok g" and step: "send_execute i g = Some g'"
  shows "paced g'"
proof -
  obtain r where r: "requests g i = Some (r, Sleeping)" and due: "unwrap_or (next_at g (rq_host r)) 0 \<le> clock g"
    and g': "g' = g\<lparr>requests := (requests g)(i \<mapsto> (r, InFlight)),
        executions := executions g @ [\<lparr>ex_host = rq_host r, ex_request = i, ex_sent = r, ex_at = clock g,
                                        ex_reply = None\<rparr>]\<rparr>"
    by (rule send_execute_SomeE [OF step])
  have own: "owned g" and kn: "known_hosts g" and qk: "quiet_kept g"
    and so: "sorted_wrt (before_ok g) (executions g)" using ok by (simp_all add: paced_def)
  have fresh: "ex_request e \<noteq> i" if "e \<in> set (executions g)" for e
    using owned_fresh [OF own] r that by blast
  obtain n where n: "next_at g (rq_host r) = Some n" "n \<le> clock g"
    using kn r due unfolding known_hosts_def by fastforce
  have free: "\<not> in_flight g (ex_request e)" if "e \<in> set (executions g)" "ex_host e = rq_host r" for e
  proof
    assume "in_flight g (ex_request e)"
    then obtain r' where r': "requests g (ex_request e) = Some (r', InFlight)" by (auto simp: in_flight_def)
    then have "rq_host r' = rq_host r" using own that unfolding owned_def by fastforce
    then have "ex_request e = i" using qu r r' unfolding queues_ok_def by (metis list.inject)
    then show False using fresh that(1) by blast
  qed
  have fl: "in_flight g' (ex_request e) = in_flight g (ex_request e)" if "e \<in> set (executions g)" for e
    using fresh [OF that] by (simp add: in_flight_def g')
  have early: "u \<le> clock g" if "e \<in> set (executions g)" "ex_host e = rq_host r" "ex_quiet_until e = Some u" for e u
    using qk that n unfolding quiet_kept_def by fastforce
  have "sorted_wrt (before_ok g') (executions g)"
    by (rule sorted_wrt_mono_rel [OF _ so]) (simp add: before_ok_def fl)
  moreover have "\<forall>e \<in> set (executions g). before_ok g' e \<lparr>ex_host = rq_host r, ex_request = i,
      ex_sent = r, ex_at = clock g, ex_reply = None\<rparr>"
    using free early fl by (simp add: before_ok_def)
  ultimately have "sorted_wrt (before_ok g') (executions g')" by (simp add: g' sorted_wrt_append)
  moreover have "quiet_kept g'" using qk by (auto simp: quiet_kept_def g')
  moreover have "owned g'" using own fresh unfolding owned_def g' by fastforce
  moreover have "known_hosts g'" using kn n r unfolding known_hosts_def g' by (auto; blast)
  ultimately show ?thesis by (simp add: paced_def)
qed

lemma send_reply_SomeE:
  assumes "send_reply i rep g = Some g'"
  obtains r where "requests g i = Some (r, InFlight)"
    "g' = leave_queue i (rq_host r)
             (g\<lparr>next_at := (next_at g)(rq_host r \<mapsto> clock g + quiet_ms r rep),
                requests := (requests g)(i \<mapsto> (r, Finished (outcome_of (revision g) r rep))),
                executions := settle_execution i (clock g) rep (executions g)\<rparr>)"
  using assms by (auto simp: send_reply_def Let_def split: option.splits prod.splits phase.splits)

lemma paced_reply:
  assumes ok: "paced g" and qu: "queues_ok g" and step: "send_reply i rep g = Some g'"
  shows "paced g'"
proof -
  obtain r where r: "requests g i = Some (r, InFlight)"
    and g': "g' = leave_queue i (rq_host r)
             (g\<lparr>next_at := (next_at g)(rq_host r \<mapsto> clock g + quiet_ms r rep),
                requests := (requests g)(i \<mapsto> (r, Finished (outcome_of (revision g) r rep))),
                executions := settle_execution i (clock g) rep (executions g)\<rparr>)"
    by (rule send_reply_SomeE [OF step])
  let ?u = "clock g + quiet_ms r rep"
  let ?f = "\<lambda>e. if ex_request e = i \<and> ex_reply e = None then e\<lparr>ex_reply := Some (clock g, rep)\<rparr> else e"
  have own: "owned g" and kn: "known_hosts g" and qk: "quiet_kept g"
    and so: "sorted_wrt (before_ok g) (executions g)" using ok by (simp_all add: paced_def)
  have ex: "executions g' = List.map ?f (executions g)"
    by (simp add: g' leave_queue_def settle_execution_def)
  have f: "ex_host (?f e) = ex_host e" "ex_request (?f e) = ex_request e" "ex_at (?f e) = ex_at e" for e by simp_all
  obtain n where n: "next_at g (rq_host r) = Some n" "n \<le> clock g"
    using kn r unfolding known_hosts_def by blast
  have mine: "in_flight g i" using r by (simp add: in_flight_def)
  have fl: "in_flight g j" if "in_flight g' j" for j
    using that r by (auto simp: in_flight_def g' leave_queue_def split: if_splits)
  have nxt: "next_at g' = (next_at g)(rq_host r \<mapsto> ?u)" by (simp add: g' leave_queue_def)
  have "sorted_wrt (before_ok g') (executions g')"
    unfolding ex sorted_wrt_map
    by (rule sorted_wrt_mono_rel [OF _ so]) (use mine fl in \<open>auto simp: before_ok_def\<close>)
  moreover have "quiet_kept g'"
    unfolding quiet_kept_def ex
  proof (intro ballI allI impI)
    fix x u assume "x \<in> set (List.map ?f (executions g))" and u: "ex_quiet_until x = Some u"
    then obtain e where e: "e \<in> set (executions g)" "x = ?f e" by auto
    obtain r' p' where r': "requests g (ex_request e) = Some (r', p')" "rq_host r' = ex_host e" "r' = ex_sent e"
      using own e(1) unfolding owned_def by blast
    show "\<exists>n. next_at g' (ex_host x) = Some n \<and> u \<le> n"
    proof (cases "ex_quiet_until e")
      case None
      then have "ex_request e = i" "u = ?u" using u e(2) r r' by (auto simp: ex_quiet_until_def split: if_splits)
      then show ?thesis using r r' e(2) by (simp add: nxt)
    next
      case (Some v)
      then have "x = e" using e(2) by (auto simp: ex_quiet_until_def)
      then obtain m where "next_at g (ex_host e) = Some m" "u \<le> m" "x = e"
        using qk e u unfolding quiet_kept_def by fastforce
      then show ?thesis using n by (auto simp: nxt)
    qed
  qed
  moreover have "owned g'"
    using own r unfolding owned_def ex
    by (auto simp: g' leave_queue_def split: if_splits)
  moreover have "known_hosts g'"
    unfolding known_hosts_def
  proof (intro allI impI)
    fix j r' p' assume j: "requests g' j = Some (r', p')"
    show "\<exists>m. next_at g' (rq_host r') = Some m \<and> (p' = InFlight \<longrightarrow> m \<le> clock g')"
    proof (cases "j = i")
      case True
      then show ?thesis using j by (auto simp: g' leave_queue_def)
    next
      case False
      then have j': "requests g j = Some (r', p')" using j by (simp add: g' leave_queue_def)
      have "rq_host r' \<noteq> rq_host r" if "p' = InFlight"
        using qu r j' False that unfolding queues_ok_def by (metis list.inject)
      then show ?thesis using kn j' unfolding known_hosts_def
        by (cases "rq_host r' = rq_host r") (auto simp: nxt g' leave_queue_def)
    qed
  qed
  ultimately show ?thesis by (simp add: paced_def)
qed

lemma leave_queue_id: "leave_queue i h g = g\<lparr>lock_queue := (lock_queue g)(h := remove1 i (lock_queue g h))\<rparr>"
  by (simp add: leave_queue_def)

text \<open>Giving up keeps both halves of the invariant.\<close>

lemma gate_leave_ok:
  assumes "queues_ok g" "paced g" "requests g i = Some (r, p)" "queued p" "\<not> queued q"
  shows "queues_ok (leave_queue i (rq_host r) (g\<lparr>requests := (requests g)(i \<mapsto> (r, q))\<rparr>))"
    and "paced (leave_queue i (rq_host r) (g\<lparr>requests := (requests g)(i \<mapsto> (r, q))\<rparr>))"
proof -
  have "g\<lparr>requests := x\<rparr> = g\<lparr>next_at := next_at g, requests := x, executions := executions g\<rparr>" for x by simp
  then show "queues_ok (leave_queue i (rq_host r) (g\<lparr>requests := (requests g)(i \<mapsto> (r, q))\<rparr>))"
    using queues_ok_leave [OF assms(1,3-5)] by metis
  have "leave_queue i (rq_host r) (g\<lparr>requests := (requests g)(i \<mapsto> (r, q))\<rparr>)
      = g\<lparr>lock_queue := (lock_queue g)(rq_host r := remove1 i (lock_queue g (rq_host r))),
          requests := (requests g)(i \<mapsto> (r, q))\<rparr>"
    by (simp add: leave_queue_def)
  moreover have "paced (g\<lparr>lock_queue := l, requests := (requests g)(i \<mapsto> (r, q))\<rparr>)" for l
    by (rule paced_phase [OF assms(2,3)]) (use assms(5) in auto)
  ultimately show "paced (leave_queue i (rq_host r) (g\<lparr>requests := (requests g)(i \<mapsto> (r, q))\<rparr>))" by simp
qed

lemma send_locked_SomeE:
  assumes "send_locked i g = Some g'"
  obtains r rest where "requests g i = Some (r, Waiting)" "lock_queue g (rq_host r) = i # rest" "lease_ok g r"
    "g' = g\<lparr>requests := (requests g)(i \<mapsto> (r, Sleeping))\<rparr>"
  using assms by (auto simp: send_locked_def split: option.splits prod.splits phase.splits list.splits if_splits)

lemma paced_locked:
  assumes "paced g" "send_locked i g = Some g'"
  shows "paced g'"
proof (rule send_locked_SomeE [OF assms(2)])
  fix r rest assume r: "requests g i = Some (r, Waiting)"
    and g': "g' = g\<lparr>requests := (requests g)(i \<mapsto> (r, Sleeping))\<rparr>"
  have "paced (g\<lparr>lock_queue := lock_queue g, requests := (requests g)(i \<mapsto> (r, Sleeping))\<rparr>)"
    by (rule paced_phase [OF assms(1) r]) simp_all
  then show "paced g'" by (simp add: g')
qed

lemma lease_ok_clock [simp]: "lease_ok (g\<lparr>clock := t\<rparr>) r = lease_ok g r"
  by (simp add: lease_ok_def split: option.splits)

lemma send_locked_clock: "requests g i = Some (r, Waiting) \<Longrightarrow> lock_queue g (rq_host r) = i # rest \<Longrightarrow>
    lease_ok g r \<Longrightarrow> send_locked i (g\<lparr>clock := t\<rparr>) \<noteq> None"
  by (simp add: send_locked_def)

lemma send_execute_due: "requests g i = Some (r, Sleeping) \<Longrightarrow> next_at g (rq_host r) = Some n \<Longrightarrow> n \<le> t \<Longrightarrow>
    lease_ok g r \<Longrightarrow> send_execute i (g\<lparr>clock := t\<rparr>) \<noteq> None"
  by (simp add: send_execute_def)

lemma send_revoked_stale: "requests g i = Some (r, p) \<Longrightarrow> p = Waiting \<or> p = Sleeping \<Longrightarrow>
    \<not> lease_ok g r \<Longrightarrow> send_revoked i (g\<lparr>clock := t\<rparr>) \<noteq> None"
  by (auto simp: send_revoked_def lease_ok_def split: option.splits)

definition gate_ok :: "Gate \<Rightarrow> bool" where
  "gate_ok g \<longleftrightarrow> queues_ok g \<and> paced g"

lemma gate_ok_reply:
  assumes "gate_ok g" "send_reply i rep g = Some g'"
  shows "gate_ok g'"
proof (rule send_reply_SomeE [OF assms(2)])
  fix r assume r: "requests g i = Some (r, InFlight)"
    and g': "g' = leave_queue i (rq_host r)
             (g\<lparr>next_at := (next_at g)(rq_host r \<mapsto> clock g + quiet_ms r rep),
                requests := (requests g)(i \<mapsto> (r, Finished (outcome_of (revision g) r rep))),
                executions := settle_execution i (clock g) rep (executions g)\<rparr>)"
  have "queues_ok g'" unfolding g'
    by (rule queues_ok_leave) (use assms(1) r in \<open>auto simp: gate_ok_def\<close>)
  then show ?thesis using paced_reply assms by (auto simp: gate_ok_def)
qed

lemma send_revoked_SomeE:
  assumes "send_revoked i g = Some g'"
  obtains r p q where "requests g i = Some (r, p)" "queued p" "\<not> queued q"
    "g' = leave_queue i (rq_host r) (g\<lparr>requests := (requests g)(i \<mapsto> (r, q))\<rparr>)"
proof -
  obtain r p where rp: "requests g i = Some (r, p)" using assms by (cases "requests g i") (auto simp: send_revoked_def)
  obtain lease where l: "rq_lease r = Some lease"
    using assms rp by (cases "rq_lease r") (auto simp: send_revoked_def)
  have "p = Waiting \<or> p = Sleeping"
    "g' = leave_queue i (rq_host r)
       (g\<lparr>requests := (requests g)(i \<mapsto> (r, Finished (CredentialsChanged (cl_provider lease))))\<rparr>)"
    using assms by (auto simp: send_revoked_def rp l split: if_splits)
  then show ?thesis using rp by (intro that [of r p "Finished (CredentialsChanged (cl_provider lease))"]) auto
qed

interpretation gate: guarded_system "\<lambda>g. g = gate_new" gate_step gate_ok
proof
  show "gate_ok g" if "g = gate_new" for g
    using that by (simp add: gate_ok_def gate_new_def queues_ok_def paced_def quiet_kept_def owned_def known_hosts_def)
  show "gate_ok g'" if ok: "gate_ok g" and step: "gate_step g g'" for g g'
    using step
  proof (cases rule: gate_step.cases)
    case (step_begin i r)
    then show ?thesis using ok queues_ok_begin paced_begin by (simp add: gate_ok_def)
  next
    case (step_locked i)
    then show ?thesis using ok queues_ok_locked paced_locked by (auto simp: gate_ok_def)
  next
    case (step_execute i)
    then show ?thesis using ok queues_ok_execute paced_execute by (auto simp: gate_ok_def)
  next
    case (step_reply i rep)
    then show ?thesis using ok gate_ok_reply by blast
  next
    case (step_revoked i)
    then obtain r p q where r: "requests g i = Some (r, p)" "queued p" "\<not> queued q"
      "g' = leave_queue i (rq_host r) (g\<lparr>requests := (requests g)(i \<mapsto> (r, q))\<rparr>)"
      by (rule send_revoked_SomeE)
    then show ?thesis using ok gate_leave_ok by (simp add: gate_ok_def)
  next
    case (step_dropped i)
    then obtain r p where r: "requests g i = Some (r, p)" "queued p"
      "g' = leave_queue i (rq_host r) (g\<lparr>requests := (requests g)(i \<mapsto> (r, Dropped))\<rparr>)"
      by (auto simp: send_dropped_def split: option.splits prod.splits if_splits)
    then show ?thesis using ok gate_leave_ok by (simp add: gate_ok_def)
  next
    case (step_revise provider current)
    then show ?thesis using ok paced_revision by (auto simp: gate_ok_def queues_ok_def)
  next
    case (step_tick t)
    then show ?thesis using ok paced_clock by (auto simp: gate_ok_def queues_ok_def)
  qed
qed

section \<open>A run of the queue of AniDB\<close>

text \<open>Two requests enter, the first is told at once to come back in five seconds, and the second goes out then.\<close>

definition anidb_request :: Request where
  "anidb_request = \<lparr>rq_url_host = ''anidb.net'', rq_lease = None, rq_spacing = None\<rparr>"

definition slow_down :: Response where
  "slow_down = \<lparr>rs_status = 429, rs_retry_after = Some ''5'', rs_zone = None, rs_who = None\<rparr>"

lemma slow_down_after: "retry_after slow_down = Some 5"
proof -
  have "trim ''5'' = ''5''" "digits_val 0 ''5'' = 5" "is_ascii_digit (CHR ''5'')" by code_simp+
  then show ?thesis by (simp add: slow_down_def retry_after_def parse_nat_def)
qed

definition sample_entered :: Gate where
  "sample_entered = send_begin 1 anidb_request (send_begin 0 anidb_request gate_new)"

definition sample_flying :: Gate where
  "sample_flying = the (send_execute 0 (the (send_locked 0 sample_entered)))"


lemma anidb_facts [simp]:
  "rq_host anidb_request = ''anidb.net''" "lease_ok g anidb_request"
  "quiet_ms anidb_request (Replied slow_down) = 5000"
proof -
  show "rq_host anidb_request = ''anidb.net''" by code_simp
  show "lease_ok g anidb_request" by (simp add: anidb_request_def lease_ok_def)
  have "rs_status slow_down = 429" by (simp add: slow_down_def)
  then show "quiet_ms anidb_request (Replied slow_down) = 5000"
    by (simp add: quiet_ms_def penalty_secs_def slow_down_after opt_filter_def MAX_PENALTY_def)
qed

lemma sample_reach_entered: "gate_reachable sample_entered"
proof -
  have "gate_reachable gate_new" by (rule reach_init) simp
  moreover have "gate_step gate_new (send_begin 0 anidb_request gate_new)"
    by (rule step_begin) (simp add: gate_new_def)
  ultimately have "gate_reachable (send_begin 0 anidb_request gate_new)" by (rule reach_step)
  moreover have "gate_step (send_begin 0 anidb_request gate_new) sample_entered"
    unfolding sample_entered_def by (rule step_begin) (simp add: gate_new_def send_begin_def Let_def)
  ultimately show ?thesis by (rule reach_step)
qed

lemma sample_entered_eq:
  "sample_entered = \<lparr>clock = 0, revision = \<lambda>_. 0, next_at = [''anidb.net'' \<mapsto> 0],
     lock_queue = (\<lambda>_. [])(''anidb.net'' := [0, 1]),
     requests = [0 \<mapsto> (anidb_request, Waiting), 1 \<mapsto> (anidb_request, Waiting)], executions = []\<rparr>"
  by (simp add: sample_entered_def gate_new_def send_begin_def Let_def)

lemma sample_locked_Some: "send_locked 0 sample_entered \<noteq> None"
  by (simp add: sample_entered_eq send_locked_def)

lemma sample_flying_eq:
  "send_execute 0 (the (send_locked 0 sample_entered)) = Some sample_flying"
  "sample_flying = \<lparr>clock = 0, revision = \<lambda>_. 0, next_at = [''anidb.net'' \<mapsto> 0],
     lock_queue = (\<lambda>_. [])(''anidb.net'' := [0, 1]),
     requests = [0 \<mapsto> (anidb_request, InFlight), 1 \<mapsto> (anidb_request, Waiting)],
     executions = [\<lparr>ex_host = ''anidb.net'', ex_request = 0, ex_sent = anidb_request, ex_at = 0, ex_reply = None\<rparr>]\<rparr>"
  by (simp_all add: sample_flying_def sample_entered_eq send_locked_def send_execute_def fun_upd_twist)

lemma sample_reach_flying: "gate_reachable sample_flying"
  using sample_locked_Some
  by (auto intro: reach_step [OF reach_step [OF sample_reach_entered step_locked]
      step_execute [OF sample_flying_eq(1)]])



section \<open>Properties\<close>



text \<open>One request is in flight per provider: two requests in flight at one host are the same request.
\<close>

theorem gate_one_in_flight:
  assumes "gate_reachable g"
    and "requests g i = Some (r, InFlight)" "requests g j = Some (r', InFlight)" "rq_host r = rq_host r'"
  shows "i = j"
proof -
  have "queues_ok g" using gate.reachable_inv [OF assms(1)] by (simp add: gate_ok_def)
  then show ?thesis using assms(2-4) unfolding queues_ok_def by (metis list.inject)
qed

text \<open>
  Witness: the run, with the first request in flight.
\<close>

theorem gate_one_in_flight_witness: "requests sample_flying 1 \<noteq> Some (anidb_request, InFlight)"
proof
  assume two: "requests sample_flying 1 = Some (anidb_request, InFlight)"
  have "requests sample_flying 0 = Some (anidb_request, InFlight)" by (simp add: sample_flying_eq(2))
  from gate_one_in_flight [OF sample_reach_flying this two refl] show False by simp
qed

text \<open>No queue is stuck: its first request can take its own next step, at the latest when the
  clock has reached the end of the silence, and that step is to get the lock, to go out, to be
  answered, or to give up because its credentials changed.
\<close>

theorem gate_head_progresses:
  assumes "gate_reachable g" and "lock_queue g h = i # rest"
  shows "\<exists>r p t. requests g i = Some (r, p) \<and> rq_host r = h \<and> clock g \<le> t
     \<and> (let g1 = g\<lparr>clock := t\<rparr>
        in send_locked i g1 \<noteq> None \<or> send_execute i g1 \<noteq> None \<or> send_reply i rep g1 \<noteq> None
           \<or> send_revoked i g1 \<noteq> None)"
proof -
  have ok: "queues_ok g" "known_hosts g"
    using gate.reachable_inv [OF assms(1)] by (simp_all add: gate_ok_def paced_def)
  have "i \<in> set (lock_queue g h)" using assms(2) by simp
  then obtain r p where r: "requests g i = Some (r, p)" "rq_host r = h" "queued p"
    using ok(1) unfolding queues_ok_def by blast
  obtain n where n: "next_at g (rq_host r) = Some n" using ok(2) r(1) unfolding known_hosts_def by blast
  let ?t = "max (clock g) n"
  let ?g = "g\<lparr>clock := ?t\<rparr>"
  have "send_locked i ?g \<noteq> None \<or> send_execute i ?g \<noteq> None \<or> send_reply i rep ?g \<noteq> None
      \<or> send_revoked i ?g \<noteq> None"
  proof (cases "p = InFlight")
    case True
    then have "send_reply i rep ?g \<noteq> None" using r by (simp add: send_reply_def Let_def)
    then show ?thesis by blast
  next
    case False
    then have p: "p = Waiting \<or> p = Sleeping" using r(3) by (simp add: queued_def)
    show ?thesis
    proof (cases "lease_ok g r")
      case True
      then show ?thesis
        using p r send_locked_clock [of g i r rest ?t] send_execute_due [of g i r n ?t] n assms(2)
        by auto
    next
      case False
      then show ?thesis using send_revoked_stale [OF r(1) p] by blast
    qed
  qed
  then show ?thesis using r(1,2) by (intro exI [of _ r] exI [of _ p] exI [of _ ?t]) (simp add: Let_def)
qed

text \<open>
  Witness: the run, with both requests in the queue.
\<close>

theorem gate_head_progresses_witness:
  "\<exists>r p t. requests sample_entered 0 = Some (r, p) \<and> rq_host r = ''anidb.net'' \<and> clock sample_entered \<le> t
     \<and> (let g1 = sample_entered\<lparr>clock := t\<rparr>
        in send_locked 0 g1 \<noteq> None \<or> send_execute 0 g1 \<noteq> None
           \<or> send_reply 0 TransportError g1 \<noteq> None \<or> send_revoked 0 g1 \<noteq> None)"
  by (rule gate_head_progresses [OF sample_reach_entered, of _ _ "[1]"]) (simp add: sample_entered_eq)

text \<open>
  How long a provider stays quiet after a 429 or 503: the seconds of its \<open>Retry-After\<close>, a minute
  when that is absent, unreadable or zero, at least a second and never more than an hour.
\<close>

theorem gate_quiet_bounds:
  assumes "rs_status resp \<in> {429, 503}"
  shows "1000 \<le> quiet_ms rq (Replied resp) \<and> quiet_ms rq (Replied resp) \<le> 3600 * 1000
     \<and> (retry_after resp \<in> {None, Some 0} \<longrightarrow> quiet_ms rq (Replied resp) = 60000)
     \<and> (\<forall>s. retry_after resp = Some s \<and> 0 < s \<and> s \<le> 3600 \<longrightarrow> quiet_ms rq (Replied resp) = s * 1000)"
  using assms by (cases "retry_after resp")
    (auto simp: quiet_ms_def penalty_secs_def opt_filter_def DEFAULT_PENALTY_def MAX_PENALTY_def)

text \<open>
  Witness: a 429 without \<open>Retry-After\<close> parks AniDB for a minute.
\<close>

theorem gate_quiet_bounds_witness:
  "quiet_ms anidb_request (Replied \<lparr>rs_status = 429, rs_retry_after = None, rs_zone = None, rs_who = None\<rparr>) = 60000"
  using gate_quiet_bounds [of "\<lparr>rs_status = 429, rs_retry_after = None, rs_zone = None, rs_who = None\<rparr>" anidb_request]
  by (simp add: retry_after_def)

text \<open>A back-off can be shorter than the pace: a 503 of AniDB that names one second makes the next
  request go out 1.2 seconds earlier than the limit of the host allows, as the penalty replaces the
  spacing instead of extending it.
\<close>

theorem backoff_can_shorten:
  "quiet_ms \<lparr>rq_url_host = ''API.anidb.net'', rq_lease = None, rq_spacing = None\<rparr>
     (Replied \<lparr>rs_status = 503, rs_retry_after = Some ''1'', rs_zone = None, rs_who = None\<rparr>) + 1200
   = spacing ''api.anidb.net''"
proof -
  have "retry_after \<lparr>rs_status = 503, rs_retry_after = Some ''1'', rs_zone = None, rs_who = None\<rparr> = Some 1"
  proof -
    have "trim ''1'' = ''1''" "digits_val 0 ''1'' = 1" "is_ascii_digit (CHR ''1'')" by code_simp+
    then show ?thesis by (simp add: retry_after_def parse_nat_def)
  qed
  moreover have "rq_host \<lparr>rq_url_host = ''API.anidb.net'', rq_lease = None, rq_spacing = None\<rparr>
      = ''api.anidb.net''" by code_simp
  moreover have "spacing ''api.anidb.net'' = 2200" by (simp add: spacing_def)
  ultimately show ?thesis
    by (simp add: quiet_ms_def penalty_secs_def opt_filter_def DEFAULT_PENALTY_def MAX_PENALTY_def)
qed

end
