(* ===== verification/Bytes.thy ===== *)
theory Bytes
  imports Kahawai_Prelude
begin

text \<open>
  Byte strings, as the container parsers of \<open>crates/kahawai-media/src\<close> use them: slices that may be out
  of range, big-endian integers, and the two conversions of bytes to text.

  A parser fails in one of three ways: the storage misbehaves (\<open>Io\<close>), the bytes are wrong (\<open>Shape\<close>), or
  the program panics (\<open>Panicked\<close>: a slice out of range, or an addition beyond 64 bits in a build with
  overflow checks).
\<close>

section \<open>Definitions\<close>

unbundle bit_operations_syntax

datatype read_error = Io | Shape | Panicked

definition slice :: "nat \<Rightarrow> nat \<Rightarrow> 'a list \<Rightarrow> read_error + 'a list" where
  "slice a b xs = (if a \<le> b \<and> b \<le> length xs then Inr (take (b - a) (drop a xs)) else Inl Panicked)"

text \<open>\<open>slice::get\<close> of a range.\<close>

definition get_range :: "nat \<Rightarrow> nat \<Rightarrow> 'a list \<Rightarrow> 'a list option" where
  "get_range a b xs = (if a \<le> b \<and> b \<le> length xs then Some (take (b - a) (drop a xs)) else None)"

text \<open>\<open>chunks_exact\<close>: what is left over is dropped.\<close>

function chunks_exact :: "nat \<Rightarrow> 'a list \<Rightarrow> 'a list list" where
  "chunks_exact n xs = (if n = 0 \<or> length xs < n then [] else take n xs # chunks_exact n (drop n xs))"
  by auto
termination
  by (relation "measure (\<lambda>(n, xs). length xs)") auto

declare chunks_exact.simps [simp del]

definition checked_add :: "nat \<Rightarrow> nat \<Rightarrow> nat option" where
  "checked_add a b = (if a + b < 2 ^ 64 then Some (a + b) else None)"

definition leading_zeros :: "u8 \<Rightarrow> nat" where
  "leading_zeros b = length (takeWhile (\<lambda>i. \<not> bit b i) [7, 6, 5, 4, 3, 2, 1, 0])"

text \<open>\<open>to_be_bytes\<close> and \<open>from_be_bytes\<close>.\<close>

definition u64_to_be_bytes :: "u64 \<Rightarrow> u8 list" where
  "u64_to_be_bytes v = map (\<lambda>i. ucast (drop_bit (8 * i) v)) [7, 6, 5, 4, 3, 2, 1, 0]"

definition u32_to_be_bytes :: "u32 \<Rightarrow> u8 list" where
  "u32_to_be_bytes v = map (\<lambda>i. ucast (drop_bit (8 * i) v)) [3, 2, 1, 0]"

definition push_byte :: "'a::len word \<Rightarrow> u8 \<Rightarrow> 'a word" where
  "push_byte acc b = push_bit 8 acc OR ucast b"

definition be_val :: "u8 list \<Rightarrow> nat" where
  "be_val bs = foldl (\<lambda>a b. a * 256 + unat b) 0 bs"

subsection \<open>Text\<close>

definition byte_char :: "u8 \<Rightarrow> char" where
  "byte_char b = char_of (unat b)"

definition char_byte :: "char \<Rightarrow> u8" where "char_byte c = of_nat (of_char c)"

definition cont_byte :: "u8 \<Rightarrow> bool" where
  "cont_byte b \<longleftrightarrow> 0x80 \<le> b \<and> b \<le> 0xBF"

text \<open>The next sequence of UTF-8: whether it is valid, and its length. An invalid one ends where the
  bytes stop being the beginning of a valid one.\<close>

definition second_ok :: "u8 \<Rightarrow> u8 \<Rightarrow> bool" where
  "second_ok a b =
     (if a = 0xE0 then 0xA0 \<le> b \<and> b \<le> 0xBF
      else if a = 0xED then 0x80 \<le> b \<and> b \<le> 0x9F
      else if a = 0xF0 then 0x90 \<le> b \<and> b \<le> 0xBF
      else if a = 0xF4 then 0x80 \<le> b \<and> b \<le> 0x8F
      else cont_byte b)"

definition utf8_width :: "u8 \<Rightarrow> nat" where
  "utf8_width a =
     (if a < 0x80 then 1
      else if 0xC2 \<le> a \<and> a \<le> 0xDF then 2
      else if 0xE0 \<le> a \<and> a \<le> 0xEF then 3
      else if 0xF0 \<le> a \<and> a \<le> 0xF4 then 4
      else 0)"

fun utf8_next :: "u8 list \<Rightarrow> bool \<times> nat" where
  "utf8_next [] = (False, 0)"
| "utf8_next (a # rest) =
     (let w = utf8_width a in
      if w = 1 then (True, 1)
      else if w = 0 \<or> rest = [] \<or> \<not> second_ok a (rest ! 0) then (False, 1)
      else if w = 2 then (True, 2)
      else if length rest < 2 \<or> \<not> cont_byte (rest ! 1) then (False, 2)
      else if w = 3 then (True, 3)
      else if length rest < 3 \<or> \<not> cont_byte (rest ! 2) then (False, 3)
      else (True, 4))"

lemma utf8_next_pos: "bs \<noteq> [] \<Longrightarrow> 0 < snd (utf8_next bs)"
  by (cases bs) (simp_all add: Let_def)

text \<open>\<open>std::str::from_utf8\<close> and \<open>String::from_utf8_lossy\<close>.\<close>

function is_utf8 :: "u8 list \<Rightarrow> bool" where
  "is_utf8 bs = (if bs = [] then True
     else fst (utf8_next bs) \<and> is_utf8 (drop (snd (utf8_next bs)) bs))"
  by auto
termination
  by (relation "measure length") (use utf8_next_pos in \<open>auto simp: Suc_le_eq intro: diff_less\<close>)

function from_utf8_lossy :: "u8 list \<Rightarrow> string" where
  "from_utf8_lossy bs = (if bs = [] then []
     else (if fst (utf8_next bs) then map byte_char (take (snd (utf8_next bs)) bs)
           else [CHR 0xEF, CHR 0xBF, CHR 0xBD])
          @ from_utf8_lossy (drop (snd (utf8_next bs)) bs))"
  by auto
termination
  by (relation "measure length") (use utf8_next_pos in \<open>auto simp: Suc_le_eq intro: diff_less\<close>)

declare is_utf8.simps [simp del] from_utf8_lossy.simps [simp del]

section \<open>Lemmas\<close>

lemma byte_char_byte [simp]: "byte_char (char_byte c) = c"
proof -
  have "(of_char c :: nat) < 256" by simp
  then show ?thesis by (simp add: byte_char_def char_byte_def unsigned_of_nat take_bit_nat_eq_self)
qed

lemma slice_simps:
  "a \<le> b \<Longrightarrow> b \<le> length xs \<Longrightarrow> slice a b xs = Inr (take (b - a) (drop a xs))"
  by (simp add: slice_def)

lemma leading_zeros_le: "leading_zeros b \<le> 8"
  unfolding leading_zeros_def using length_takeWhile_le [of "\<lambda>i. \<not> bit b i" "[7, 6, 5, 4, 3, 2, 1, 0]"] by simp

text \<open>The value of a byte with \<open>n\<close> leading zeros.\<close>

lemma bit_u8_high: "bit (b :: u8) n \<Longrightarrow> n < 8"
  using bit_imp_le_length by fastforce

lemma leading_zeros_bits: "i < leading_zeros b \<Longrightarrow> \<not> bit b (7 - i)"
proof -
  assume i: "i < leading_zeros b"
  have "[7, 6, 5, 4, 3, 2, 1, 0] ! i = 7 - i" if "i < 8" for i :: nat
    using that by (auto simp: less_Suc_eq eval_nat_numeral)
  moreover have "i < 8" using i leading_zeros_le [of b] by simp
  moreover have "\<not> bit b ([7, 6, 5, 4, 3, 2, 1, 0] ! i)"
    using i unfolding leading_zeros_def
    by (metis (no_types, lifting) nth_mem set_takeWhileD takeWhile_nth)
  ultimately show ?thesis by simp
qed

lemma leading_zeros_first: "leading_zeros b < 8 \<Longrightarrow> bit b (7 - leading_zeros b)"
proof -
  assume l: "leading_zeros b < 8"
  have n: "[7, 6, 5, 4, 3, 2, 1, 0] ! i = 7 - i" if "i < 8" for i :: nat
    using that by (auto simp: less_Suc_eq eval_nat_numeral)
  have "bit b ([7, 6, 5, 4, 3, 2, 1, 0] ! leading_zeros b)"
    using l unfolding leading_zeros_def
    using nth_length_takeWhile [of "\<lambda>i. \<not> bit b i" "[7, 6, 5, 4, 3, 2, 1, 0]"] by simp
  then show ?thesis using n [OF l] by simp
qed

lemma push_byte_unat:
  fixes acc :: "'a::len word"
  assumes "unat acc < 2 ^ (LENGTH('a) - 8)" and "8 < LENGTH('a)"
  shows "unat (push_byte acc b) = unat acc * 256 + unat b"
proof -
  have "(2::nat) ^ LENGTH('a) = 2 ^ (LENGTH('a) - 8) * 2 ^ 8"
    using assms(2) by (subst power_add [symmetric]) simp
  then have split: "(2::nat) ^ LENGTH('a) = 2 ^ (LENGTH('a) - 8) * 256" by simp
  have b: "unat b < 256" using unsigned_less [of b] by simp
  have room: "unat acc * 256 + 256 \<le> 2 ^ LENGTH('a)" using assms(1) unfolding split by linarith
  have "(2::nat) ^ 8 < 2 ^ LENGTH('a)" using assms(2) by (intro power_strict_increasing) auto
  then have byte: "(256::nat) mod 2 ^ LENGTH('a) = 256" by simp
  have "push_byte acc b = push_bit 8 acc + ucast b"
    unfolding push_byte_def
    by (rule disjunctive_add [symmetric]) (auto simp: bit_push_bit_iff bit_ucast_iff dest: bit_u8_high)
  moreover have "unat (push_bit 8 acc) = unat acc * 256"
    using room by (simp only: unsigned_push_bit_eq) (simp add: take_bit_eq_mod push_bit_eq_mult)
  moreover have "unat (ucast b :: 'a word) = unat b"
    using b byte by (simp add: unsigned_ucast_eq take_bit_nat_eq_self mod_eq_self_iff_div_eq_0 div_eq_0_iff)
  moreover have "unat acc * 256 + unat b < 2 ^ LENGTH('a)" using room b by linarith
  ultimately show ?thesis by (metis unat_add_lem)
qed

lemma be_val_Cons: "be_val (b # bs) = unat b * 256 ^ length bs + be_val bs"
proof -
  have "foldl (\<lambda>a b. a * 256 + unat b) a bs = a * 256 ^ length bs + be_val bs" for a
    unfolding be_val_def
  proof (induction bs arbitrary: a)
    case (Cons c cs)
    show ?case using Cons.IH [of "a * 256 + unat c"] Cons.IH [of "unat c"] by (simp add: algebra_simps)
  qed simp
  from this [of "unat b"] show ?thesis by (simp add: be_val_def)
qed

lemma be_val_Nil [simp]: "be_val [] = 0"
  by (simp add: be_val_def)

lemma be_val_bound: "be_val bs < 256 ^ length bs"
proof (induction bs)
  case (Cons b bs)
  have "unat b < 256" using unsigned_less [of b] by simp
  then have "(unat b + 1) * 256 ^ length bs \<le> 256 * 256 ^ length bs" by (intro mult_le_mono1) simp
  then have "unat b * 256 ^ length bs + 256 ^ length bs \<le> 256 * 256 ^ length bs"
    by (simp only: add_mult_distrib mult_1)
  then show ?case using Cons unfolding be_val_Cons length_Cons power_Suc by linarith
qed simp

lemma be_val_append: "be_val (xs @ ys) = be_val xs * 256 ^ length ys + be_val ys"
  by (induction xs) (simp_all add: be_val_Cons power_add algebra_simps)

lemma foldl_push_byte:
  fixes acc :: "'a::len word"
  assumes "unat acc < 2 ^ m" and "m + 8 * length bs \<le> LENGTH('a)" and "8 < LENGTH('a)"
  shows "unat (foldl push_byte acc bs) = unat acc * 256 ^ length bs + be_val bs"
  using assms(1,2)
proof (induction bs arbitrary: acc m)
  case (Cons b bs)
  have "m \<le> LENGTH('a) - 8" using Cons.prems(2) by simp
  then have "(2::nat) ^ m \<le> 2 ^ (LENGTH('a) - 8)" by (intro power_increasing) auto
  then have "unat acc < 2 ^ (LENGTH('a) - 8)" by (rule order.strict_trans2 [OF Cons.prems(1)])
  then have u: "unat (push_byte acc b) = unat acc * 256 + unat b"
    using assms(3) by (rule push_byte_unat)
  have "unat b < 256" using unsigned_less [of b] by simp
  then have "unat (push_byte acc b) < 2 ^ (m + 8)"
    using Cons.prems(1) unfolding u power_add by simp
  then have "unat (foldl push_byte (push_byte acc b) bs)
      = unat (push_byte acc b) * 256 ^ length bs + be_val bs"
    using Cons.prems(2) by (intro Cons.IH) auto
  then show ?case by (simp add: u be_val_Cons algebra_simps)
qed simp

text \<open>The bytes of an integer.\<close>

lemma unat_byte_of:
  fixes v :: "'a::len word"
  shows "unat (ucast (drop_bit (8 * i) v) :: u8) = unat v div 256 ^ i mod 256"
proof -
  have "unat (ucast (drop_bit (8 * i) v) :: u8) = unat (drop_bit (8 * i) v) mod 256"
    by (simp add: unsigned_ucast_eq take_bit_eq_mod)
  also have "unat (drop_bit (8 * i) v) = unat v div 2 ^ (8 * i)"
    by (subst unat_drop_bit_eq) (simp only: drop_bit_eq_div)
  finally show ?thesis by (simp add: power_mult)
qed

lemma be_val_bytes: "be_val (map f (rev [0..<k])) = n mod 256 ^ k"
  if "\<And>i. unat (f i) = n div 256 ^ i mod 256" for f :: "nat \<Rightarrow> u8"
proof (induction k)
  case (Suc k)
  have "be_val (map f (rev [0..<Suc k])) = (n div 256 ^ k mod 256) * 256 ^ k + n mod 256 ^ k"
    using Suc by (simp add: be_val_Cons that)
  also have "\<dots> = n mod 256 ^ Suc k"
    by (metis add.commute mod_mult2_eq mult.commute power_Suc2)
  finally show ?case .
qed simp

lemma rev_upt_8: "rev [0..<8] = [7, 6, 5, 4, 3, 2, 1, 0 :: nat]" and rev_upt_4: "rev [0..<4] = [3, 2, 1, 0 :: nat]"
  by (simp_all add: upt_rec)

lemma be_val_u64: "be_val (u64_to_be_bytes v) = unat v"
proof -
  have "unat v < 256 ^ 8" using unsigned_less [of v] by simp
  then show ?thesis
    using be_val_bytes [OF unat_byte_of [of _ v], of 8] by (simp add: u64_to_be_bytes_def rev_upt_8)
qed

lemma be_val_u32: "be_val (u32_to_be_bytes v) = unat v"
proof -
  have "unat v < 256 ^ 4" using unsigned_less [of v] by simp
  then show ?thesis
    using be_val_bytes [OF unat_byte_of [of _ v], of 4] by (simp add: u32_to_be_bytes_def rev_upt_4)
qed

lemma length_be_bytes [simp]: "length (u64_to_be_bytes v) = 8" "length (u32_to_be_bytes w) = 4"
  by (simp_all add: u64_to_be_bytes_def u32_to_be_bytes_def)

lemma be_val_zeros: "(\<forall>b \<in> set zs. b = 0) \<Longrightarrow> be_val (zs @ bs) = be_val bs"
  by (induction zs) (simp_all add: be_val_Cons)

end
