(* ===== verification/Rust_Strings.thy ===== *)
theory Rust_Strings
  imports Kahawai_Prelude
begin

text \<open>
  The string functions of the Rust standard library that the parsers of names and subtitles share, over
  strings of UTF-8 bytes: splitting on text, on a set of characters and on white space, trimming, and the
  Unicode scalars of a string. The Unicode tables beyond ASCII are a parameter.
\<close>

section \<open>Splitting\<close>

text \<open>\<open>split_once\<close> on a text and on a set of characters, \<open>rsplit_once\<close> on a set, \<open>splitn\<close>.\<close>

fun split_once :: "string \<Rightarrow> string \<Rightarrow> (string \<times> string) option" where
  "split_once p [] = None"
| "split_once p (c # s) =
     (if starts_with (c # s) p then Some ([], drop (length p) (c # s))
      else map_option (\<lambda>(a, b). (c # a, b)) (split_once p s))"

definition split_once_at :: "char list \<Rightarrow> string \<Rightarrow> (string \<times> string) option" where
  "split_once_at ds s =
     (case dropWhile (\<lambda>c. c \<notin> set ds) s of
        [] \<Rightarrow> None
      | _ # behind \<Rightarrow> Some (takeWhile (\<lambda>c. c \<notin> set ds) s, behind))"

definition rsplit_once :: "char list \<Rightarrow> string \<Rightarrow> (string \<times> string) option" where
  "rsplit_once ds s =
     (case dropWhile (\<lambda>c. c \<notin> set ds) (rev s) of
        [] \<Rightarrow> None
      | _ # front \<Rightarrow> Some (rev front, rev (takeWhile (\<lambda>c. c \<notin> set ds) (rev s))))"

fun splitn :: "nat \<Rightarrow> char \<Rightarrow> string \<Rightarrow> string list" where
  "splitn 0 d s = []"
| "splitn (Suc 0) d s = [s]"
| "splitn (Suc (Suc n)) d s =
     (case split_once [d] s of None \<Rightarrow> [s] | Some (a, b) \<Rightarrow> a # splitn (Suc n) d b)"

text \<open>\<open>split\<close> on a predicate, \<open>split_whitespace\<close>, and the pieces that are not empty.\<close>

fun split_where :: "('a \<Rightarrow> bool) \<Rightarrow> 'a list \<Rightarrow> 'a list list" where
  "split_where p [] = [[]]"
| "split_where p (c # s) =
     (if p c then [] # split_where p s
      else (case split_where p s of [] \<Rightarrow> [[c]] | w # ws \<Rightarrow> (c # w) # ws))"

definition pieces :: "('a \<Rightarrow> bool) \<Rightarrow> 'a list \<Rightarrow> 'a list list" where
  "pieces p s = filter (\<lambda>w. w \<noteq> []) (split_where p s)"

definition split_whitespace :: "string \<Rightarrow> string list" where
  "split_whitespace s = pieces is_ws s"

text \<open>\<open>split\<close> on a text.\<close>

lemma split_once_shorter: "split_once p s = Some (a, b) \<Longrightarrow> length b < length s \<or> p = []"
proof (induction s arbitrary: a)
  case (Cons c s)
  then show ?case by (cases p) (auto split: if_splits)
qed simp

function split_text :: "string \<Rightarrow> string \<Rightarrow> string list" where
  "split_text p s =
     (if p = [] then [s]
      else (case split_once p s of None \<Rightarrow> [s] | Some (a, b) \<Rightarrow> a # split_text p b))"
  by auto
termination
  by (relation "measure (\<lambda>(p, s). length s)") (auto dest: split_once_shorter)

declare split_text.simps [simp del]

section \<open>Trimming\<close>

definition is_ascii_alpha :: "char \<Rightarrow> bool" where
  "is_ascii_alpha c \<longleftrightarrow> CHR ''a'' \<le> ascii_lower c \<and> ascii_lower c \<le> CHR ''z''"

definition is_ascii_alnum :: "char \<Rightarrow> bool" where
  "is_ascii_alnum c \<longleftrightarrow> is_ascii_digit c \<or> is_ascii_alpha c"

definition trim_end_matches :: "(char \<Rightarrow> bool) \<Rightarrow> string \<Rightarrow> string" where
  "trim_end_matches p s = rev (dropWhile p (rev s))"

definition trim_matches :: "(char \<Rightarrow> bool) \<Rightarrow> string \<Rightarrow> string" where
  "trim_matches p s = trim_end_matches p (dropWhile p s)"

definition trim_end :: "string \<Rightarrow> string" where
  "trim_end s = trim_end_matches is_ws s"

definition ascii_upper :: "char \<Rightarrow> char" where
  "ascii_upper c = (if CHR ''a'' \<le> c \<and> c \<le> CHR ''z'' then char_of (of_char c - 32 :: nat) else c)"

definition to_ascii_uppercase :: "string \<Rightarrow> string" where
  "to_ascii_uppercase s = map ascii_upper s"

text \<open>\<open>strip_prefix\<close> of one character out of a set.\<close>

definition strip_char :: "char list \<Rightarrow> string \<Rightarrow> string option" where
  "strip_char cs s = (case s of c # r \<Rightarrow> if c \<in> set cs then Some r else None | [] \<Rightarrow> None)"

definition all_digits :: "string \<Rightarrow> bool" where
  "all_digits s = list_all is_ascii_digit s"

text \<open>\<open>{:02}\<close> and \<open>{:03}\<close>.\<close>

definition pad0 :: "nat \<Rightarrow> nat \<Rightarrow> string" where
  "pad0 w n = replicate (w - length (show_nat n)) (CHR ''0'') @ show_nat n"

section \<open>Unicode scalars\<close>

text \<open>\<open>char::is_alphanumeric\<close> and \<open>char::to_lowercase\<close> of a scalar beyond ASCII (as its bytes), and
  \<open>str::to_lowercase\<close> of a text with such scalars.\<close>

record Unicode =
  ext_alnum :: "string \<Rightarrow> bool"
  ext_lower :: "string \<Rightarrow> string"
  ext_str_lower :: "string \<Rightarrow> string"

definition is_continuation :: "char \<Rightarrow> bool" where
  "is_continuation c \<longleftrightarrow> 128 \<le> (of_char c :: nat) \<and> (of_char c :: nat) < 192"

function scalars :: "string \<Rightarrow> string list" where
  "scalars [] = []"
| "scalars (c # s) = (c # takeWhile is_continuation s) # scalars (dropWhile is_continuation s)"
  by pat_completeness auto
termination
  by (relation "measure length") (auto simp: le_imp_less_Suc length_dropWhile_le)

definition is_ascii :: "char \<Rightarrow> bool" where
  "is_ascii c \<longleftrightarrow> (of_char c :: nat) < 128"

definition scalar_alnum :: "Unicode \<Rightarrow> string \<Rightarrow> bool" where
  "scalar_alnum uni u = (case u of [c] \<Rightarrow> if is_ascii c then is_ascii_alnum c else ext_alnum uni u | _ \<Rightarrow> ext_alnum uni u)"

definition scalar_lower :: "Unicode \<Rightarrow> string \<Rightarrow> string" where
  "scalar_lower uni u = (case u of [c] \<Rightarrow> if is_ascii c then [ascii_lower c] else ext_lower uni u | _ \<Rightarrow> ext_lower uni u)"

definition str_lower :: "Unicode \<Rightarrow> string \<Rightarrow> string" where
  "str_lower uni s = (if list_all is_ascii s then to_ascii_lowercase s else ext_str_lower uni s)"

section \<open>Lemmas\<close>

lemma split_on_front: "d \<notin> set a \<Longrightarrow> split_on d (a @ d # b) = a # split_on d b"
  by (induction a) auto

lemma split_on_single: "d \<notin> set a \<Longrightarrow> split_on d a = [a]"
  by (induction a) auto

lemma join_split: "join_str [d] (split_on d s) = s"
proof (induction s)
  case (Cons c s)
  then show ?case by (cases "split_on d s"; cases "tl (split_on d s)") auto
qed simp

lemma last_split_on: "s \<noteq> [] \<Longrightarrow> last s \<noteq> d \<Longrightarrow> last (split_on d s) \<noteq> []"
proof (induction s)
  case (Cons c s)
  show ?case
  proof (cases "s = []")
    case False
    then have "last (split_on d s) \<noteq> []" using Cons by simp
    then show ?thesis by (cases "split_on d s") (auto split: if_splits)
  qed (use Cons in simp)
qed simp

lemma set_split_on: "w \<in> set (split_on d s) \<Longrightarrow> set w \<subseteq> set s"
  by (induction s arbitrary: w) (force split: if_splits list.splits)+

lemma starts_with_append [simp]: "starts_with (p @ s) p"
  by (simp add: starts_with_def)

lemma starts_with_diff: "c \<noteq> d \<Longrightarrow> \<not> starts_with (c # s) (d # p)"
  by (simp add: starts_with_def)

lemma split_once_front: "d \<notin> set a \<Longrightarrow> split_once (d # p) (a @ (d # p) @ b) = Some (a, b)"
  by (induction a) (auto simp: starts_with_def)

lemma contains_str_infix: "p \<noteq> [] \<Longrightarrow> contains_str (a @ p @ b) p"
proof (induction a)
  case Nil
  then show ?case by (cases p) (auto simp: starts_with_def)
qed simp

lemma trim_start_id: "s \<noteq> [] \<Longrightarrow> \<not> is_ws (hd s) \<Longrightarrow> trim_start s = s"
  by (cases s) (auto simp: trim_start_def)

lemma trim_id: "s \<noteq> [] \<Longrightarrow> \<not> is_ws (hd s) \<Longrightarrow> \<not> is_ws (last s) \<Longrightarrow> trim s = s"
  by (simp add: trim_def trim_start_id hd_rev)

lemma trim_ends:
  assumes "trim s \<noteq> []"
  shows "\<not> is_ws (hd (trim s))" "\<not> is_ws (last (trim s))"
proof -
  let ?t = "trim_start s"
  have r: "rev (trim s) = dropWhile is_ws (rev ?t)" by (simp add: trim_def trim_start_def)
  then have "\<not> is_ws (hd (rev (trim s)))" using assms hd_dropWhile by (metis rev_is_Nil_conv)
  then show "\<not> is_ws (last (trim s))" using assms by (simp add: hd_rev)
  obtain w where w: "rev ?t = w @ rev (trim s)" using r by (metis takeWhile_dropWhile_id)
  then have t: "?t = trim s @ rev w" by (metis rev_append rev_rev_ident)
  then have "hd ?t = hd (trim s)" using assms by simp
  moreover have "?t \<noteq> []" using t assms by simp
  ultimately show "\<not> is_ws (hd (trim s))" unfolding trim_start_def by (metis hd_dropWhile)
qed

lemma digit_not: "is_ascii_digit c \<Longrightarrow> c \<noteq> CHR '':'' \<and> c \<noteq> CHR ''.'' \<and> c \<noteq> CHR '','' \<and> c \<noteq> CHR ''+''"
  by (auto simp: is_ascii_digit_def less_eq_char_def)

lemma pad0_digits: "list_all is_ascii_digit (pad0 w n)" and pad0_nonempty: "pad0 w n \<noteq> []"
  using show_nat_digits [of n] by (auto simp: pad0_def list_all_iff is_ascii_digit_def)

lemma digits_val_zeros: "digits_val 0 (replicate k (CHR ''0'') @ s) = digits_val 0 s"
  by (induction k) (simp_all add: digit_val_def)

lemma parse_nat_pad0: "n < b \<Longrightarrow> parse_nat b (pad0 w n) = Some n"
proof -
  assume n: "n < b"
  have v: "digits_val 0 (pad0 w n) = n" using show_nat_digits [of n] by (simp add: pad0_def digits_val_zeros)
  obtain c s where c: "pad0 w n = c # s" using pad0_nonempty [of w n] by (cases "pad0 w n") auto
  then have "c \<noteq> CHR ''+''" using pad0_digits [of w n] digit_not by auto
  then show ?thesis
    using n v c pad0_digits [of w n] by (simp add: parse_nat_def Let_def)
qed

lemma rsplit_once_last:
  assumes "d \<in> set ds" "\<forall>c \<in> set b. c \<notin> set ds"
  shows "rsplit_once ds (a @ d # b) = Some (a, b)"
proof -
  have "dropWhile (\<lambda>c. c \<notin> set ds) (rev b @ d # rev a) = d # rev a"
    using assms by (subst dropWhile_append2) auto
  moreover have "takeWhile (\<lambda>c. c \<notin> set ds) (rev b @ d # rev a) = rev b"
    using assms by (subst takeWhile_append2) auto
  ultimately show ?thesis by (simp add: rsplit_once_def)
qed

lemma split_once_at_front: "\<forall>c \<in> set a. c \<notin> set ds \<Longrightarrow> d \<in> set ds \<Longrightarrow> split_once_at ds (a @ d # b) = Some (a, b)"
  by (simp add: split_once_at_def dropWhile_append2 takeWhile_append2)

end
