(* ===== verification/Subtitle_Text.thy ===== *)
theory Subtitle_Text
  imports Bytes Rust_Strings
begin

text \<open>
  Text subtitles, the pure part of \<open>crates/kahawai-media/src/subtitles.rs\<close>: decoding of subtitle
  bytes, SRT, WebVTT and ASS parsing, markup cleaning, WebVTT output and the rebuilding of ASS scripts.
  Times are milliseconds below \<open>2^64\<close>; the arithmetic on them wraps, as in a release build. The loops
  of the parsers over blocks and lines are functions of one block or line.
\<close>

section \<open>Definitions\<close>

record Cue =
  cue_start_ms :: nat
  cue_end_ms :: nat
  cue_text :: string

abbreviation NL :: char where "NL \<equiv> CHR 0x0A"
abbreviation CR :: char where "CR \<equiv> CHR 0x0D"

definition is_text_format :: "string \<Rightarrow> bool" where
  "is_text_format format \<longleftrightarrow>
     format \<in> {''srt'', ''subrip'', ''ass'', ''ssa'', ''webvtt'', ''vtt'', ''text''}"

subsection \<open>Decoding\<close>

definition latin1_char :: "u8 \<Rightarrow> string" where
  "latin1_char b =
     (if b < 0x80 then [byte_char b]
      else [byte_char (0xC0 + drop_bit 6 b), byte_char (0x80 + take_bit 6 b)])"

text \<open>\<open>char::is_control\<close> on UTF-8 text: the C0 controls, DEL and the two bytes of a C1 control.\<close>

definition line_char :: "char \<Rightarrow> bool" where
  "line_char c \<longleftrightarrow> c = NL \<or> c = CR \<or> c = CHR 0x09"

fun strip_controls :: "string \<Rightarrow> string" where
  "strip_controls [] = []"
| "strip_controls [c] = (if (of_char c < (32::nat) \<and> \<not> line_char c) \<or> of_char c = (127::nat) then [] else [c])"
| "strip_controls (c # d # s) =
     (if (of_char c < (32::nat) \<and> \<not> line_char c) \<or> of_char c = (127::nat) then strip_controls (d # s)
      else if of_char c = (0xC2::nat) \<and> of_char d < (0xA0::nat) then strip_controls s
      else c # strip_controls (d # s))"

definition decode_text :: "u8 list \<Rightarrow> string" where
  "decode_text bytes0 =
     (let bytes = (if take 3 bytes0 = [0xEF, 0xBB, 0xBF] then drop 3 bytes0 else bytes0);
          text = (if is_utf8 bytes then map byte_char bytes else concat (map latin1_char bytes))
      in if list_ex (\<lambda>c. of_char c < (32::nat) \<and> \<not> line_char c) text then strip_controls text else text)"

subsection \<open>Splitting\<close>

text \<open>\<open>split("\n\n")\<close> and \<open>lines\<close>.\<close>

fun split_blank :: "string \<Rightarrow> string list" where
  "split_blank [] = [[]]"
| "split_blank [c] = [[c]]"
| "split_blank (c # d # s) =
     (if c = NL \<and> d = NL then [] # split_blank s
      else (case split_blank (d # s) of [] \<Rightarrow> [[c]] | w # ws \<Rightarrow> (c # w) # ws))"

definition strip_cr :: "string \<Rightarrow> string" where
  "strip_cr l = (if l \<noteq> [] \<and> last l = CR then butlast l else l)"

definition str_lines :: "string \<Rightarrow> string list" where
  "str_lines s =
     (let ls = split_on NL s in map strip_cr (if last ls = [] then butlast ls else ls))"

subsection \<open>Timestamps\<close>

definition parse_u64 :: "string \<Rightarrow> nat option" where
  "parse_u64 s = parse_nat (2 ^ 64) s"

definition clock_ms :: "nat \<Rightarrow> nat \<Rightarrow> nat \<Rightarrow> nat \<Rightarrow> nat" where
  "clock_ms h m sec ms = (((h * 60 + m) * 60 + sec) * 1000 + ms) mod 2 ^ 64"

definition parse_timestamp :: "string \<Rightarrow> nat option" where
  "parse_timestamp s =
     Option.bind (rsplit_once [CHR '','', CHR ''.''] (trim s)) (\<lambda>(hms, ms_part).
     Option.bind (get_range 0 3 ms_part) (\<lambda>ms3.
     Option.bind (parse_u64 ms3) (\<lambda>ms.
       case split_on (CHR '':'') hms of
         [h, m, sec] \<Rightarrow>
           Option.bind (parse_u64 h) (\<lambda>h. Option.bind (parse_u64 m) (\<lambda>m.
           Option.bind (parse_u64 sec) (\<lambda>sec. Some (clock_ms h m sec ms))))
       | [m, sec] \<Rightarrow>
           Option.bind (parse_u64 m) (\<lambda>m. Option.bind (parse_u64 sec) (\<lambda>sec. Some (clock_ms 0 m sec ms)))
       | _ \<Rightarrow> None)))"

definition ass_ts :: "string \<Rightarrow> nat option" where
  "ass_ts s =
     Option.bind (rsplit_once [CHR ''.''] (trim s)) (\<lambda>(hms, cc).
     Option.bind (parse_u64 cc) (\<lambda>cc.
       case split_on (CHR '':'') hms of
         [h, m, sec] \<Rightarrow>
           Option.bind (parse_u64 h) (\<lambda>h. Option.bind (parse_u64 m) (\<lambda>m.
           Option.bind (parse_u64 sec) (\<lambda>sec. Some (clock_ms h m sec (cc * 10)))))
       | _ \<Rightarrow> None))"

definition vtt_ts :: "nat \<Rightarrow> string" where
  "vtt_ts ms =
     pad0 2 (ms div 3600000) @ '':'' @ pad0 2 (ms div 60000 mod 60) @ '':''
       @ pad0 2 (ms div 1000 mod 60) @ ''.'' @ pad0 3 (ms mod 1000)"

definition ass_ts_out :: "nat \<Rightarrow> string" where
  "ass_ts_out ms =
     show_nat (ms div 3600000) @ '':'' @ pad0 2 (ms div 60000 mod 60) @ '':''
       @ pad0 2 (ms div 1000 mod 60) @ ''.'' @ pad0 2 (ms mod 1000 div 10)"

subsection \<open>Markup\<close>

function clean_chars :: "string \<Rightarrow> string" where
  "clean_chars s =
     (case s of
        [] \<Rightarrow> []
      | c # r \<Rightarrow>
          if c = CHR ''{'' then clean_chars (drop 1 (dropWhile (\<lambda>x. x \<noteq> CHR ''}'') r))
          else if c = CHR ''<'' then
            (let tag = takeWhile (\<lambda>x. x \<noteq> CHR ''>'') r;
                 kept = dropWhile (\<lambda>x. x = CHR ''/'') tag \<in> {''i'', ''b'', ''u''};
                 behind = clean_chars (drop 1 (dropWhile (\<lambda>x. x \<noteq> CHR ''>'') r))
             in if kept then ''<'' @ tag @ ''>'' @ behind else behind)
          else if c = CHR 0x5C then
            (case r of
               n # q \<Rightarrow>
                 if n = CHR ''N'' \<or> n = CHR ''n'' then NL # clean_chars q
                 else if n = CHR ''h'' then CHR '' '' # clean_chars q
                 else c # clean_chars r
             | [] \<Rightarrow> c # clean_chars r)
          else c # clean_chars r)"
  by auto
termination
proof (relation "measure length", goal_cases)
  have d: "length (drop 1 (dropWhile P r)) < length (c # r)" for P r and c :: char
    using length_dropWhile_le [of P r] by simp
  case (2 s c r) then show ?case using d by simp
next
  have d: "length (drop 1 (dropWhile P r)) < length (c # r)" for P r and c :: char
    using length_dropWhile_le [of P r] by simp
  case (3 s c r) then show ?case using d by simp
qed auto

declare clean_chars.simps [simp del]

definition clean_cue_text :: "string \<Rightarrow> string" where
  "clean_cue_text text = trim (clean_chars text)"

subsection \<open>SRT and WebVTT\<close>

definition timed_cue :: "string \<Rightarrow> string \<Rightarrow> string list \<Rightarrow> Cue option" where
  "timed_cue start stop lines =
     (case (parse_timestamp start, parse_timestamp stop) of
        (Some s, Some e) \<Rightarrow>
          (let text = clean_cue_text (join_str [NL] lines) in
           if text \<noteq> [] then Some \<lparr>cue_start_ms = s, cue_end_ms = e, cue_text = text\<rparr> else None)
      | _ \<Rightarrow> None)"

definition srt_block :: "string \<Rightarrow> Cue option" where
  "srt_block block =
     (let lines = str_lines block;
          lines = (case lines of l # r \<Rightarrow> if parse_u64 (trim l) \<noteq> None then r else lines | [] \<Rightarrow> [])
      in case lines of
           [] \<Rightarrow> None
         | timing # rest \<Rightarrow>
             (case split_once ''-->'' timing of
                None \<Rightarrow> None
              | Some (start, stop) \<Rightarrow> timed_cue start stop rest))"

definition parse_srt :: "string \<Rightarrow> Cue list" where
  "parse_srt content = filter_map srt_block (split_blank (filter (\<lambda>c. c \<noteq> CR) content))"

definition first_word :: "string \<Rightarrow> string" where
  "first_word s = takeWhile (\<lambda>c. \<not> is_ws c) (dropWhile is_ws s)"

definition vtt_block :: "string \<Rightarrow> Cue option" where
  "vtt_block block0 =
     (let block = trim block0 in
      if block = [] \<or> starts_with block ''WEBVTT'' \<or> starts_with block ''NOTE''
         \<or> starts_with block ''STYLE'' \<or> starts_with block ''REGION'' then None
      else
        (let lines = str_lines block;
             lines = (case lines of l # r \<Rightarrow> if \<not> contains_str l ''-->'' then r else lines | [] \<Rightarrow> [])
         in case lines of
              [] \<Rightarrow> None
            | timing # rest \<Rightarrow>
                (case split_once ''-->'' timing of
                   None \<Rightarrow> None
                 | Some (start, behind) \<Rightarrow> timed_cue start (first_word behind) rest)))"

definition parse_vtt :: "string \<Rightarrow> Cue list" where
  "parse_vtt content = filter_map vtt_block (split_blank (filter (\<lambda>c. c \<noteq> CR) content))"

text \<open>\<open>as i64\<close> and the addition of the shift wrap.\<close>

definition shifted :: "nat \<Rightarrow> int \<Rightarrow> int" where
  "shifted ms shift_ms = sint (of_nat ms + word_of_int shift_ms :: u64)"

definition vtt_cue :: "int \<Rightarrow> Cue \<Rightarrow> string" where
  "vtt_cue shift_ms cue =
     (let start = shifted (cue_start_ms cue) shift_ms; stop = shifted (cue_end_ms cue) shift_ms in
      if stop \<le> 0 then []
      else vtt_ts (nat (max start 0)) @ '' --> '' @ vtt_ts (nat (max stop 0)) @ [NL] @ cue_text cue @ [NL, NL])"

definition to_vtt :: "Cue list \<Rightarrow> int \<Rightarrow> string" where
  "to_vtt cues shift_ms = ''WEBVTT'' @ [NL, NL] @ concat (map (vtt_cue shift_ms) cues)"

subsection \<open>ASS\<close>

definition eq_ignore_ascii_case :: "string \<Rightarrow> string \<Rightarrow> bool" where
  "eq_ignore_ascii_case a b \<longleftrightarrow> to_ascii_lowercase a = to_ascii_lowercase b"

definition ass_fields :: "string \<Rightarrow> string list" where
  "ass_fields fmt = map (\<lambda>f. to_ascii_lowercase (trim f)) (split_on (CHR '','') fmt)"

definition field_of :: "string list \<Rightarrow> string list \<Rightarrow> string \<Rightarrow> string option" where
  "field_of names parts name = Option.bind (position (\<lambda>f. f = name) names) (get parts)"

definition trim_end_cr :: "string \<Rightarrow> string" where
  "trim_end_cr l = rev (dropWhile (\<lambda>c. c = CR) (rev l))"

definition ass_cue :: "string list \<Rightarrow> string \<Rightarrow> Cue option" where
  "ass_cue names dialogue =
     (if names = [] then None
      else (let parts = splitn (length names) (CHR '','') dialogue; field = field_of names parts in
        Option.bind (field ''start'') (\<lambda>start. Option.bind (field ''end'') (\<lambda>stop.
        Option.bind (field ''text'') (\<lambda>text.
        Option.bind (ass_ts start) (\<lambda>start. Option.bind (ass_ts stop) (\<lambda>stop.
          (let text = clean_cue_text text in
           if text \<noteq> [] then Some \<lparr>cue_start_ms = start, cue_end_ms = stop, cue_text = text\<rparr> else None))))))))"

record AssState =
  in_events :: bool
  as_fields :: "string list"
  ass_cues :: "Cue list"

definition ass_line :: "string \<Rightarrow> AssState \<Rightarrow> AssState" where
  "ass_line line0 st =
     (let line = trim_end_cr line0 in
      if starts_with (trim line) ''['' then st\<lparr>in_events := eq_ignore_ascii_case (trim line) ''[events]''\<rparr>
      else if \<not> in_events st then st
      else (case strip_prefix ''Format:'' line of
              Some fmt \<Rightarrow> st\<lparr>as_fields := ass_fields fmt\<rparr>
            | None \<Rightarrow>
                (case Option.bind (strip_prefix ''Dialogue:'' line) (ass_cue (as_fields st)) of
                   None \<Rightarrow> st
                 | Some cue \<Rightarrow> st\<lparr>ass_cues := ass_cues st @ [cue]\<rparr>)))"

definition parse_ass :: "string \<Rightarrow> Cue list" where
  "parse_ass content =
     sort_key cue_start_ms
       (ass_cues (fold ass_line (str_lines content) \<lparr>in_events = False, as_fields = [], ass_cues = []\<rparr>))"

definition parse_subtitles :: "string \<Rightarrow> string \<Rightarrow> string + Cue list" where
  "parse_subtitles format content =
     (if format \<in> {''srt'', ''subrip''} then Inr (parse_srt content)
      else if format \<in> {''ass'', ''ssa''} then Inr (parse_ass content)
      else if format \<in> {''webvtt'', ''vtt''} then Inr (parse_vtt content)
      else Inl format)"

definition ass_dialogue :: "string \<Rightarrow> nat \<Rightarrow> nat \<Rightarrow> string option" where
  "ass_dialogue raw start_ms end_ms =
     Option.bind (split_once '','' raw) (\<lambda>(_, rest).
     Option.bind (split_once '','' rest) (\<lambda>(layer, rest).
       Some (''Dialogue: '' @ layer @ '','' @ ass_ts_out start_ms @ '','' @ ass_ts_out end_ms @ '','' @ rest)))"

definition compose_header :: "string \<Rightarrow> string" where
  "compose_header h =
     (let out = rev (trim_start (rev h)) in
      (if contains_str (to_ascii_lowercase out) ''[events]'' then out
       else out @ [NL, NL] @ ''[Events]'' @ [NL]
              @ ''Format: Layer, Start, End, Style, Name, MarginL, MarginR, MarginV, Effect, Text'') @ [NL])"

record AssFile =
  af_header :: string
  af_events :: "(nat \<times> nat \<times> string) list"
  af_fields :: "string list"
  af_in_events :: bool

definition ass_event :: "AssFile \<Rightarrow> string \<Rightarrow> (nat \<times> nat \<times> string) option" where
  "ass_event st dialogue =
     (if af_fields st = [] then None
      else (let parts = splitn (length (af_fields st)) (CHR '','') dialogue;
                field = (\<lambda>name. unwrap_or (map_option trim (field_of (af_fields st) parts name)) [])
            in Option.bind (ass_ts (field ''start'')) (\<lambda>start. Option.bind (ass_ts (field ''end'')) (\<lambda>stop.
                 Some (start, stop,
                   join_str '','' [show_nat (length (af_events st)), field ''layer'', field ''style'', field ''name'',
                     field ''marginl'', field ''marginr'', field ''marginv'', field ''effect'',
                     unwrap_or (field_of (af_fields st) parts ''text'') []])))))"

definition ass_file_line :: "string \<Rightarrow> AssFile \<Rightarrow> AssFile" where
  "ass_file_line line0 st0 =
     (let line = trim_end_cr line0;
          st = (if starts_with (trim line) ''['' then
                  st0\<lparr>af_in_events := eq_ignore_ascii_case (trim line) ''[events]''\<rparr>
                else if af_in_events st0 then
                  (case strip_prefix ''Format:'' line of
                     Some fmt \<Rightarrow> st0\<lparr>af_fields := ass_fields fmt\<rparr> | None \<Rightarrow> st0)
                else st0)
      in case opt_filter (\<lambda>_. af_in_events st) (strip_prefix ''Dialogue:'' line) of
           None \<Rightarrow> if af_events st = [] then st\<lparr>af_header := af_header st @ line @ [NL]\<rparr> else st
         | Some dialogue \<Rightarrow>
             (case ass_event st dialogue of None \<Rightarrow> st | Some ev \<Rightarrow> st\<lparr>af_events := af_events st @ [ev]\<rparr>))"

definition ass_file_events :: "string \<Rightarrow> string \<times> (nat \<times> nat \<times> string) list" where
  "ass_file_events content =
     (let st = fold ass_file_line (str_lines content)
                 \<lparr>af_header = [], af_events = [], af_fields = [], af_in_events = False\<rparr>
      in (af_header st, af_events st))"

end
