(* ===== verification/Subtitle_Props.thy ===== *)
theory Subtitle_Props
  imports Subtitle_Text
begin

text \<open>
  What the subtitle functions promise: written WebVTT reads back, decoded text has no control characters
  but the line structure, and cue text with a blank line does not survive WebVTT.
\<close>

section \<open>Timestamps\<close>

definition ts_char :: "char \<Rightarrow> bool" where
  "ts_char c \<longleftrightarrow> is_ascii_digit c \<or> c = CHR '':'' \<or> c = CHR ''.''"

lemma ts_char_not: "ts_char c \<Longrightarrow> c \<noteq> CHR ''-'' \<and> c \<noteq> NL \<and> c \<noteq> CR \<and> \<not> is_ws c
    \<and> c \<noteq> CHR ''W'' \<and> c \<noteq> CHR ''N'' \<and> c \<noteq> CHR ''S'' \<and> c \<noteq> CHR ''R''"
  by (auto simp: ts_char_def is_ascii_digit_def is_ws_def is_ascii_ws_def less_eq_char_def)

lemma pad0_ts: "c \<in> set (pad0 w n) \<Longrightarrow> ts_char c \<and> c \<noteq> CHR '':'' \<and> c \<noteq> CHR ''.'' \<and> c \<noteq> CHR '',''"
  using pad0_digits [of w n] digit_not by (auto simp: list_all_iff ts_char_def)

lemma parse_pad0: "n < 2 ^ 64 \<Longrightarrow> parse_u64 (pad0 w n) = Some n"
  by (simp add: parse_u64_def parse_nat_pad0)

lemma length_show_nat_small: "n < 1000 \<Longrightarrow> length (show_nat n) \<le> 3"
  by (simp add: show_nat.simps [of n] show_nat.simps [of "n div 10"] show_nat.simps [of "n div 10 div 10"])

lemma length_pad0: "n < 1000 \<Longrightarrow> length (pad0 3 n) = 3"
  using length_show_nat_small [of n] by (simp add: pad0_def)

lemma vtt_ts_chars: "c \<in> set (vtt_ts ms) \<Longrightarrow> ts_char c"
  using pad0_ts by (auto simp: vtt_ts_def ts_char_def)

lemma vtt_ts_nonempty: "vtt_ts ms \<noteq> []"
  by (simp add: vtt_ts_def)

lemma clock_parts:
  "((ms div 3600000 * 60 + ms div 60000 mod 60) * 60 + ms div 1000 mod 60) * 1000 + ms mod 1000 = (ms :: nat)"
proof -
  have a: "ms div 60000 = ms div 1000 div 60" and b: "ms div 3600000 = ms div 1000 div 60 div 60"
    by (simp_all add: div_mult2_eq [symmetric])
  define s where "s = ms div 1000"
  have "s div 60 div 60 * 60 + s div 60 mod 60 = s div 60" "s div 60 * 60 + s mod 60 = s"
    "s * 1000 + ms mod 1000 = ms" by (simp_all add: s_def)
  then show ?thesis unfolding a b s_def [symmetric] by presburger
qed

lemma parse_vtt_ts:
  assumes "ms < 2 ^ 64" "trim s = vtt_ts ms"
  shows "parse_timestamp s = Some ms"
proof -
  let ?h = "ms div 3600000" let ?m = "ms div 60000 mod 60" let ?s = "ms div 1000 mod 60" let ?f = "ms mod 1000"
  have "rsplit_once [CHR '','', CHR ''.''] (vtt_ts ms)
      = Some (pad0 2 ?h @ '':'' @ pad0 2 ?m @ '':'' @ pad0 2 ?s, pad0 3 ?f)"
    using rsplit_once_last [of "CHR ''.''" "[CHR '','', CHR ''.'']" "pad0 3 ?f"
        "pad0 2 ?h @ '':'' @ pad0 2 ?m @ '':'' @ pad0 2 ?s"] pad0_ts
    by (auto simp: vtt_ts_def)
  moreover have "get_range 0 3 (pad0 3 ?f) = Some (pad0 3 ?f)"
    using length_pad0 [of ?f] by (simp add: get_range_def)
  moreover have "split_on (CHR '':'') (pad0 2 ?h @ '':'' @ pad0 2 ?m @ '':'' @ pad0 2 ?s)
      = [pad0 2 ?h, pad0 2 ?m, pad0 2 ?s]"
  proof -
    have "CHR '':'' \<notin> set (pad0 2 n)" for n using pad0_ts by blast
    then show ?thesis by (simp add: split_on_front split_on_single)
  qed
  moreover have "?h < 2 ^ 64" "?m < 2 ^ 64" "?s < 2 ^ 64" "?f < 2 ^ 64"
    using assms(1) by (auto intro: order.strict_trans1 [OF div_le_dividend] order.strict_trans [OF mod_less_divisor])
  moreover have "clock_ms ?h ?m ?s ?f = ms"
    using assms(1) by (simp only: clock_ms_def clock_parts mod_less)
  ultimately show ?thesis using assms(2) by (simp add: parse_timestamp_def parse_pad0)
qed

section \<open>Blocks\<close>

text \<open>Text that holds no blank line and does not end a line.\<close>

fun one_block :: "string \<Rightarrow> bool" where
  "one_block [] = True"
| "one_block [c] = (c \<noteq> NL)"
| "one_block (c # d # s) = (\<not> (c = NL \<and> d = NL) \<and> one_block (d # s))"

lemma split_blank_front: "b \<noteq> [] \<Longrightarrow> one_block b \<Longrightarrow> split_blank (b @ NL # NL # r) = b # split_blank r"
proof (induction b rule: one_block.induct)
  case (2 c)
  then show ?case by (cases "split_blank r") auto
next
  case (3 c d s)
  then show ?case by auto
qed simp

lemma one_block_last: "one_block b \<Longrightarrow> b \<noteq> [] \<Longrightarrow> last b \<noteq> NL"
  by (induction b rule: one_block.induct) auto

lemma one_block_append: "NL \<notin> set a \<Longrightarrow> one_block b \<Longrightarrow> b \<noteq> [] \<Longrightarrow> hd b \<noteq> NL \<Longrightarrow> one_block (a @ NL # b)"
proof (induction a)
  case Nil
  then show ?case by (cases b) auto
next
  case (Cons c a)
  then show ?case by (cases a) auto
qed

definition cue_ok :: "Cue \<Rightarrow> bool" where
  "cue_ok c \<longleftrightarrow> cue_start_ms c < 2 ^ 62 \<and> cue_end_ms c < 2 ^ 62 \<and> cue_text c \<noteq> []
     \<and> clean_cue_text (cue_text c) = cue_text c \<and> CR \<notin> set (cue_text c) \<and> one_block (cue_text c)"

lemma cue_text_ends:
  assumes "cue_ok c"
  shows "\<not> is_ws (hd (cue_text c))" "\<not> is_ws (last (cue_text c))"
  using assms trim_ends [of "clean_chars (cue_text c)"] by (auto simp: cue_ok_def clean_cue_text_def)

definition timing :: "nat \<Rightarrow> nat \<Rightarrow> string" where
  "timing s e = vtt_ts s @ '' --> '' @ vtt_ts e"

lemma timing_chars: "c \<in> set (timing s e) \<Longrightarrow> c \<noteq> NL \<and> c \<noteq> CR"
  using vtt_ts_chars ts_char_not by (auto simp: timing_def)

lemma timing_hd: "timing s e \<noteq> []" "ts_char (hd (timing s e))"
  using vtt_ts_chars [of "hd (vtt_ts s)" s] vtt_ts_nonempty [of s] by (auto simp: timing_def)

lemma split_timing: "split_once ''-->'' (timing s e) = Some (vtt_ts s @ '' '', '' '' @ vtt_ts e)"
proof -
  have "CHR ''-'' \<notin> set (vtt_ts s @ '' '')" using vtt_ts_chars ts_char_not by auto
  then have "split_once ''-->'' ((vtt_ts s @ '' '') @ ''-->'' @ ('' '' @ vtt_ts e))
      = Some (vtt_ts s @ '' '', '' '' @ vtt_ts e)"
    by (rule split_once_front)
  then show ?thesis by (simp add: timing_def)
qed

lemma trim_vtt_ts: "trim (vtt_ts s) = vtt_ts s" "trim (vtt_ts s @ '' '') = vtt_ts s"
proof -
  have w: "\<not> is_ws (hd (vtt_ts s))" "\<not> is_ws (last (vtt_ts s))"
    using vtt_ts_nonempty [of s] vtt_ts_chars ts_char_not by (meson hd_in_set last_in_set)+
  then show 1: "trim (vtt_ts s) = vtt_ts s" using vtt_ts_nonempty by (intro trim_id)
  have "trim_start (vtt_ts s @ '' '') = vtt_ts s @ '' ''" and "trim_start (vtt_ts s) = vtt_ts s"
    using w(1) vtt_ts_nonempty [of s] by (cases "vtt_ts s"; simp add: trim_start_def)+
  moreover have "is_ws (CHR '' '')" by code_simp
  ultimately show "trim (vtt_ts s @ '' '') = vtt_ts s" using 1 by (simp add: trim_def trim_start_def)
qed

lemma first_word_ts: "first_word ('' '' @ vtt_ts e) = vtt_ts e"
proof -
  have n: "\<not> is_ws c" if "c \<in> set (vtt_ts e)" for c using that vtt_ts_chars ts_char_not by blast
  then have "dropWhile is_ws (vtt_ts e) = vtt_ts e" using vtt_ts_nonempty [of e] by (cases "vtt_ts e") auto
  moreover have "is_ws (CHR '' '')" by code_simp
  moreover have "takeWhile (\<lambda>c. \<not> is_ws c) (vtt_ts e) = vtt_ts e" using n by (simp add: takeWhile_eq_all_conv)
  ultimately show ?thesis by (simp add: first_word_def)
qed

lemma strip_cr_id: "CR \<notin> set l \<Longrightarrow> strip_cr l = l"
  by (auto simp: strip_cr_def dest: last_in_set)

lemma vtt_block_cue:
  assumes t: "t \<noteq> []" "\<not> is_ws (hd t)" "\<not> is_ws (last t)" "clean_cue_text t = t" "CR \<notin> set t"
    and se: "s < 2 ^ 64" "e < 2 ^ 64"
  shows "vtt_block (timing s e @ NL # t) = Some \<lparr>cue_start_ms = s, cue_end_ms = e, cue_text = t\<rparr>"
proof -
  let ?b = "timing s e @ NL # t"
  obtain c r where cr: "timing s e = c # r" using timing_hd(1) [of s e] by (cases "timing s e") auto
  have c: "ts_char c" using timing_hd(2) [of s e] cr by simp
  have "trim ?b = ?b" using c cr t ts_char_not by (intro trim_id) auto
  moreover have "\<not> starts_with ?b ''WEBVTT''" "\<not> starts_with ?b ''NOTE''" "\<not> starts_with ?b ''STYLE''"
    "\<not> starts_with ?b ''REGION''"
    using ts_char_not [OF c] by (simp_all add: cr starts_with_diff)
  moreover have "str_lines ?b = timing s e # split_on NL t"
  proof -
    have "split_on NL ?b = timing s e # split_on NL t" using timing_chars by (intro split_on_front) blast
    moreover have "last t \<noteq> NL"
    proof
      assume "last t = NL"
      then show False using t(3) by (simp add: is_ws_def is_ascii_ws_def)
    qed
    then have "last (split_on NL t) \<noteq> []" using t(1) last_split_on by blast
    moreover have "map strip_cr (split_on NL t) = split_on NL t"
      by (rule map_idI) (use t(5) set_split_on strip_cr_id in blast)
    moreover have "strip_cr (timing s e) = timing s e" using timing_chars by (intro strip_cr_id) blast
    ultimately show ?thesis by (simp add: str_lines_def)
  qed
  moreover have "contains_str (timing s e) ''-->''"
    using contains_str_infix [of "''-->''" "vtt_ts s @ '' ''" "'' '' @ vtt_ts e"] by (simp add: timing_def)
  ultimately show ?thesis
    using t(1,4) se split_timing [of s e] first_word_ts [of e] parse_vtt_ts [OF _ trim_vtt_ts(2), of s]
      parse_vtt_ts [OF _ trim_vtt_ts(1), of e]
    by (simp add: vtt_block_def timed_cue_def join_split)
qed

section \<open>Properties\<close>

text \<open>What a cue is after a shift of the timeline: dropped when it ends before zero.\<close>

definition shift_cue :: "int \<Rightarrow> Cue \<Rightarrow> Cue option" where
  "shift_cue d c =
     (if int (cue_end_ms c) + d \<le> 0 then None
      else Some (c\<lparr>cue_start_ms := nat (max 0 (int (cue_start_ms c) + d)),
                   cue_end_ms := nat (int (cue_end_ms c) + d)\<rparr>))"

lemma shifted_exact: "ms < 2 ^ 62 \<Longrightarrow> \<bar>d\<bar> < 2 ^ 62 \<Longrightarrow> shifted ms d = int ms + d"
proof -
  assume a: "ms < 2 ^ 62" "\<bar>d\<bar> < 2 ^ 62"
  have "(of_nat ms + word_of_int d :: u64) = word_of_int (int ms + d)" by simp
  moreover have "sint (word_of_int (int ms + d) :: u64) = signed_take_bit 63 (int ms + d)"
    using sint_sbintrunc' [of "int ms + d", where 'a = 64] by simp
  moreover have "int ms < 2 ^ 62" using a(1) by (simp add: nat_less_iff [symmetric] zless_nat_eq_int_zless)
  then have "signed_take_bit 63 (int ms + d) = int ms + d"
    using a(2) by (intro signed_take_bit_int_eq_self) auto
  ultimately show ?thesis unfolding shifted_def by simp
qed

lemma vtt_cue_shift:
  assumes "cue_ok c" "\<bar>d\<bar> < 2 ^ 62"
  shows "vtt_cue d c = (case shift_cue d c of None \<Rightarrow> [] | Some c' \<Rightarrow>
      timing (cue_start_ms c') (cue_end_ms c') @ NL # cue_text c' @ [NL, NL])"
proof -
  have "shifted (cue_start_ms c) d = int (cue_start_ms c) + d" "shifted (cue_end_ms c) d = int (cue_end_ms c) + d"
    using assms by (auto simp: cue_ok_def intro: shifted_exact)
  then show ?thesis by (simp add: vtt_cue_def shift_cue_def timing_def max.commute)
qed

lemma vtt_cue_block:
  assumes c: "cue_ok c" and d: "\<bar>d\<bar> < 2 ^ 62" and s: "shift_cue d c = Some c'"
  shows "vtt_block (timing (cue_start_ms c') (cue_end_ms c') @ NL # cue_text c') = Some c'"
    and "one_block (timing (cue_start_ms c') (cue_end_ms c') @ NL # cue_text c')"
proof -
  have c': "cue_start_ms c' < 2 ^ 64" "cue_end_ms c' < 2 ^ 64" "cue_text c' = cue_text c"
    using c d s by (auto simp: cue_ok_def shift_cue_def nat_less_iff split: if_splits)
  have "vtt_block (timing (cue_start_ms c') (cue_end_ms c') @ NL # cue_text c)
      = Some \<lparr>cue_start_ms = cue_start_ms c', cue_end_ms = cue_end_ms c', cue_text = cue_text c\<rparr>"
    using c c' cue_text_ends [OF c] by (intro vtt_block_cue) (auto simp: cue_ok_def)
  then show "vtt_block (timing (cue_start_ms c') (cue_end_ms c') @ NL # cue_text c') = Some c'"
    using c'(3) by (metis Cue.surjective old.unit.exhaust)
  have "hd (cue_text c) \<noteq> NL"
  proof
    assume "hd (cue_text c) = NL"
    then show False using cue_text_ends(1) [OF c] by (simp add: is_ws_def is_ascii_ws_def)
  qed
  then show "one_block (timing (cue_start_ms c') (cue_end_ms c') @ NL # cue_text c')"
    using c c' timing_chars by (intro one_block_append) (auto simp: cue_ok_def)
qed

lemma vtt_cue_no_cr: "cue_ok c \<Longrightarrow> \<bar>d\<bar> < 2 ^ 62 \<Longrightarrow> CR \<notin> set (vtt_cue d c)"
  using timing_chars by (auto simp: vtt_cue_shift cue_ok_def shift_cue_def split: option.splits if_splits)

text \<open>Written WebVTT reads back: parsing what \<open>to_vtt\<close> wrote gives the cues at the shifted times, without
  those that end before zero and with the starts cut at zero. The cues are clean (what the parsers
  themselves return as text is cleaned the same way) and hold no blank line.
\<close>

theorem vtt_roundtrip:
  assumes "list_all cue_ok cues" "\<bar>d\<bar> < 2 ^ 62"
  shows "parse_vtt (to_vtt cues d) = filter_map (shift_cue d) cues"
proof -
  let ?s = "concat (map (vtt_cue d) cues)"
  have "filter (\<lambda>c. c \<noteq> CR) (to_vtt cues d) = ''WEBVTT'' @ NL # NL # ?s"
  proof -
    have "CR \<notin> set ?s" using assms vtt_cue_no_cr by (auto simp: list_all_iff)
    then show ?thesis by (auto simp: to_vtt_def filter_id_conv)
  qed
  moreover have "split_blank (''WEBVTT'' @ NL # NL # ?s) = ''WEBVTT'' # split_blank ?s"
    by (rule split_blank_front) simp_all
  moreover have "vtt_block ''WEBVTT'' = None" by code_simp
  moreover have "filter_map vtt_block (split_blank ?s) = filter_map (shift_cue d) cues"
    using assms(1)
  proof (induction cues)
    case Nil
    have "vtt_block [] = None" by code_simp
    then show ?case by simp
  next
    case (Cons c cues)
    show ?case
    proof (cases "shift_cue d c")
      case None
      then show ?thesis using Cons assms(2) vtt_cue_shift [of c d] by simp
    next
      case (Some c')
      let ?b = "timing (cue_start_ms c') (cue_end_ms c') @ NL # cue_text c'"
      have "vtt_cue d c = ?b @ NL # NL # []" using vtt_cue_shift [of c d] Cons.prems assms(2) Some by simp
      moreover have "one_block ?b" "?b \<noteq> []" "vtt_block ?b = Some c'"
        using vtt_cue_block [of c d c'] Cons.prems assms(2) Some by auto
      ultimately show ?thesis using Cons Some split_blank_front [of ?b "concat (map (vtt_cue d) cues)"] by simp
    qed
  qed
  ultimately show ?thesis by (simp add: parse_vtt_def)
qed

text \<open>Witness: the first cue is over before the new start of the timeline.\<close>

theorem vtt_roundtrip_witness:
  "parse_vtt (to_vtt [\<lparr>cue_start_ms = 1000, cue_end_ms = 2000, cue_text = ''gone''\<rparr>,
                      \<lparr>cue_start_ms = 5000, cue_end_ms = 7000, cue_text = ''kept''\<rparr>] (- 3000))
   = [\<lparr>cue_start_ms = 2000, cue_end_ms = 4000, cue_text = ''kept''\<rparr>]"
proof -
  have "clean_cue_text ''gone'' = ''gone''" "clean_cue_text ''kept'' = ''kept''" by code_simp+
  then have "list_all cue_ok [\<lparr>cue_start_ms = 1000, cue_end_ms = 2000, cue_text = ''gone''\<rparr>,
      \<lparr>cue_start_ms = 5000, cue_end_ms = 7000, cue_text = ''kept''\<rparr>]"
    by (simp add: cue_ok_def)
  from vtt_roundtrip [OF this, of "- 3000"] show ?thesis by (simp add: shift_cue_def)
qed

text \<open>A cue with a blank line in it, which \<open>\N\N\<close> in an ASS event makes, loses what follows the blank
  line when it is served as WebVTT: the blank line ends the cue.
\<close>

theorem blank_line_cuts_cue:
  "clean_cue_text (''a'' @ [CHR 0x5C] @ ''N'' @ [CHR 0x5C] @ ''Nb'') = ''a'' @ [NL, NL] @ ''b''
   \<and> parse_vtt (to_vtt [\<lparr>cue_start_ms = 1000, cue_end_ms = 2000, cue_text = ''a'' @ [NL, NL] @ ''b''\<rparr>] 0)
     = [\<lparr>cue_start_ms = 1000, cue_end_ms = 2000, cue_text = ''a''\<rparr>]"
proof
  show "clean_cue_text (''a'' @ [CHR 0x5C] @ ''N'' @ [CHR 0x5C] @ ''Nb'') = ''a'' @ [NL, NL] @ ''b''"
    by code_simp
  let ?b = "timing 1000 2000 @ NL # ''a''"
  have "shifted 1000 0 = 1000" "shifted 2000 0 = 2000" by (simp_all add: shifted_exact)
  then have "to_vtt [\<lparr>cue_start_ms = 1000, cue_end_ms = 2000, cue_text = ''a'' @ [NL, NL] @ ''b''\<rparr>] 0
      = ''WEBVTT'' @ NL # NL # ?b @ NL # NL # ''b'' @ NL # NL # []"
    by (simp add: to_vtt_def vtt_cue_def timing_def)
  then have w: "filter (\<lambda>c. c \<noteq> CR)
      (to_vtt [\<lparr>cue_start_ms = 1000, cue_end_ms = 2000, cue_text = ''a'' @ [NL, NL] @ ''b''\<rparr>] 0)
      = ''WEBVTT'' @ NL # NL # ?b @ NL # NL # ''b'' @ NL # NL # []"
    using timing_chars by (auto simp: filter_id_conv)
  have "one_block ?b" using timing_chars by (intro one_block_append) auto
  then have "split_blank (''WEBVTT'' @ NL # NL # ?b @ NL # NL # ''b'' @ NL # NL # []) = [''WEBVTT'', ?b, ''b'', []]"
    using split_blank_front [of ?b] split_blank_front [of "''b''" "[]"]
      split_blank_front [of "''WEBVTT''" "?b @ NL # NL # ''b'' @ NL # NL # []"] by simp
  moreover have "vtt_block ?b = Some \<lparr>cue_start_ms = 1000, cue_end_ms = 2000, cue_text = ''a''\<rparr>"
  proof (rule vtt_block_cue)
    show "clean_cue_text ''a'' = ''a''" by code_simp
  qed (simp_all add: is_ws_def is_ascii_ws_def)
  moreover have "vtt_block ''WEBVTT'' = None" "vtt_block ''b'' = None" "vtt_block [] = None" by code_simp+
  ultimately show "parse_vtt (to_vtt [\<lparr>cue_start_ms = 1000, cue_end_ms = 2000,
      cue_text = ''a'' @ [NL, NL] @ ''b''\<rparr>] 0)
     = [\<lparr>cue_start_ms = 1000, cue_end_ms = 2000, cue_text = ''a''\<rparr>]"
    unfolding parse_vtt_def w by simp
qed

text \<open>Decoded subtitle text holds no control character below the space but tab, line feed and carriage
  return, whatever the bytes: no NUL of a padded block reaches a script.
\<close>

theorem decode_text_clean:
  "list_all (\<lambda>c. (32 :: nat) \<le> of_char c \<or> line_char c) (decode_text bytes)"
proof -
  have "list_all (\<lambda>c. (32 :: nat) \<le> of_char c \<or> line_char c) (strip_controls s)" for s
    by (induction s rule: strip_controls.induct) (auto simp: line_char_def)
  then have "list_all (\<lambda>c. (32 :: nat) \<le> of_char c \<or> line_char c)
      (if list_ex (\<lambda>c. of_char c < (32::nat) \<and> \<not> line_char c) t then strip_controls t else t)" for t
    by (simp add: list_ex_iff list_all_iff not_less)
  then show ?thesis unfolding decode_text_def Let_def .
qed

end
