(* ===== verification/Ebml.thy ===== *)
theory Ebml
  imports Bytes
begin

text \<open>
  The EBML primitives of \<open>crates/kahawai-media/src/subindex.rs\<close>: element ids and sizes, the walk over
  the children of an element, block headers, and the writers. A visitor is a function over the
  variables it captures; what it has changed stays changed when the walk fails later.
\<close>

section \<open>Definitions\<close>

unbundle bit_operations_syntax

definition EBML_HEADER :: u32 where "EBML_HEADER = 0x1A45DFA3"
definition SEGMENT :: u32 where "SEGMENT = 0x18538067"
definition SEEK_HEAD :: u32 where "SEEK_HEAD = 0x114D9B74"
definition SEEK :: u32 where "SEEK = 0x4DBB"
definition SEEK_ID :: u32 where "SEEK_ID = 0x53AB"
definition SEEK_POSITION :: u32 where "SEEK_POSITION = 0x53AC"
definition INFO :: u32 where "INFO = 0x1549A966"
definition TIMESTAMP_SCALE :: u32 where "TIMESTAMP_SCALE = 0x2AD7B1"
definition TRACKS :: u32 where "TRACKS = 0x1654AE6B"
definition TRACK_ENTRY :: u32 where "TRACK_ENTRY = 0xAE"
definition TRACK_NUMBER :: u32 where "TRACK_NUMBER = 0xD7"
definition TRACK_TYPE :: u32 where "TRACK_TYPE = 0x83"
definition CODEC_ID :: u32 where "CODEC_ID = 0x86"
definition CODEC_PRIVATE :: u32 where "CODEC_PRIVATE = 0x63A2"
definition TRACK_NAME :: u32 where "TRACK_NAME = 0x536E"
definition FLAG_FORCED :: u32 where "FLAG_FORCED = 0x55AA"
definition FLAG_HEARING_IMPAIRED :: u32 where "FLAG_HEARING_IMPAIRED = 0x55AB"
definition FLAG_TEXT_DESCRIPTIONS :: u32 where "FLAG_TEXT_DESCRIPTIONS = 0x55AD"
definition FLAG_COMMENTARY :: u32 where "FLAG_COMMENTARY = 0x55AF"
definition CUES :: u32 where "CUES = 0x1C53BB6B"
definition CUE_POINT :: u32 where "CUE_POINT = 0xBB"
definition CUE_TIME :: u32 where "CUE_TIME = 0xB3"
definition CUE_TRACK_POSITIONS :: u32 where "CUE_TRACK_POSITIONS = 0xB7"
definition CUE_TRACK :: u32 where "CUE_TRACK = 0xF7"
definition CUE_CLUSTER_POSITION :: u32 where "CUE_CLUSTER_POSITION = 0xF1"
definition CUE_RELATIVE_POSITION :: u32 where "CUE_RELATIVE_POSITION = 0xF0"
definition ATTACHMENTS :: u32 where "ATTACHMENTS = 0x1941A469"
definition ATTACHED_FILE :: u32 where "ATTACHED_FILE = 0x61A7"
definition FILE_NAME :: u32 where "FILE_NAME = 0x466E"
definition FILE_MIME :: u32 where "FILE_MIME = 0x4660"
definition FILE_DATA :: u32 where "FILE_DATA = 0x465C"
definition CHAPTERS :: u32 where "CHAPTERS = 0x1043A770"
definition MAX_HEADER_ELEMENT :: nat where "MAX_HEADER_ELEMENT = 4 * 1024 * 1024"
definition EDITION_ENTRY :: u32 where "EDITION_ENTRY = 0x45B9"
definition EDITION_FLAG_HIDDEN :: u32 where "EDITION_FLAG_HIDDEN = 0x45BD"
definition EDITION_FLAG_DEFAULT :: u32 where "EDITION_FLAG_DEFAULT = 0x45DB"
definition CHAPTER_ATOM :: u32 where "CHAPTER_ATOM = 0xB6"
definition CHAPTER_TIME_START :: u32 where "CHAPTER_TIME_START = 0x91"
definition CHAPTER_TIME_END :: u32 where "CHAPTER_TIME_END = 0x92"
definition CHAPTER_FLAG_HIDDEN :: u32 where "CHAPTER_FLAG_HIDDEN = 0x98"
definition CHAPTER_FLAG_ENABLED :: u32 where "CHAPTER_FLAG_ENABLED = 0x4598"
definition CHAPTER_SEGMENT_UID :: u32 where "CHAPTER_SEGMENT_UID = 0x6E67"
definition CHAPTER_DISPLAY :: u32 where "CHAPTER_DISPLAY = 0x80"
definition CHAP_STRING :: u32 where "CHAP_STRING = 0x85"
definition CONTENT_ENCODINGS :: u32 where "CONTENT_ENCODINGS = 0x6D80"
definition CONTENT_ENCODING :: u32 where "CONTENT_ENCODING = 0x6240"
definition CONTENT_COMPRESSION :: u32 where "CONTENT_COMPRESSION = 0x5034"
definition CONTENT_COMP_ALGO :: u32 where "CONTENT_COMP_ALGO = 0x4254"
definition CONTENT_COMP_SETTINGS :: u32 where "CONTENT_COMP_SETTINGS = 0x4255"
definition CLUSTER :: u32 where "CLUSTER = 0x1F43B675"
definition CLUSTER_TIMESTAMP :: u32 where "CLUSTER_TIMESTAMP = 0xE7"
definition SIMPLE_BLOCK :: u32 where "SIMPLE_BLOCK = 0xA3"
definition BLOCK_GROUP :: u32 where "BLOCK_GROUP = 0xA0"
definition BLOCK :: u32 where "BLOCK = 0xA1"
definition BLOCK_DURATION :: u32 where "BLOCK_DURATION = 0x9B"

subsection \<open>Ids, sizes and integers\<close>

definition ebml_id :: "u8 list \<Rightarrow> read_error + (u32 \<times> nat)" where
  "ebml_id buf =
     (case buf of
        [] \<Rightarrow> Inl Shape
      | first # _ \<Rightarrow>
          (let len = leading_zeros first + 1 in
           if len > 4 \<or> length buf < len then Inl Shape
           else Inr (foldl push_byte 0 (take len buf), len)))"

text \<open>The bits of the first byte that belong to the value.\<close>

definition vint_mask :: "nat \<Rightarrow> u8" where
  "vint_mask len = (if len < 8 then drop_bit len 0xFF else 0)"

definition vint_value :: "nat \<Rightarrow> u8 list \<Rightarrow> u64" where
  "vint_value len buf = foldl push_byte (ucast (hd buf AND vint_mask len)) (take (len - 1) (tl buf))"

definition ebml_size :: "u8 list \<Rightarrow> read_error + (u64 option \<times> nat)" where
  "ebml_size buf =
     (case buf of
        [] \<Rightarrow> Inl Shape
      | first # _ \<Rightarrow>
          if first = 0 then Inl Shape
          else (let len = leading_zeros first + 1 in
                if len > 8 \<or> length buf < len then Inl Shape
                else (let val = vint_value len buf; all_ones = push_bit (7 * len) 1 - 1 in
                      Inr (then_some (val \<noteq> all_ones) val, len))))"

definition uint_of :: "u8 list \<Rightarrow> u64" where
  "uint_of data = foldl push_byte 0 data"

subsection \<open>Children\<close>

text \<open>The first child of \<open>data\<close>, and what follows it.\<close>

definition next_child :: "u8 list \<Rightarrow> read_error + (u32 \<times> u8 list \<times> u8 list)" where
  "next_child data =
     (case ebml_id data of
        Inl e \<Rightarrow> Inl e
      | Inr (eid, il) \<Rightarrow>
          (case ebml_size (drop il data) of
             Inl e \<Rightarrow> Inl e
           | Inr (None, sl) \<Rightarrow> Inl Shape
           | Inr (Some sz, sl) \<Rightarrow>
               if il + sl + unat sz > length data then Inl Shape
               else Inr (eid, take (unat sz) (drop (il + sl) data), drop (il + sl + unat sz) data)))"

lemma next_child_shorter: "next_child data = Inr (eid, body, rest) \<Longrightarrow> length rest < length data"
  by (auto simp: next_child_def ebml_id_def Let_def split: sum.splits prod.splits option.splits if_splits list.splits)

type_synonym 's visitor = "u32 \<Rightarrow> u8 list \<Rightarrow> 's \<Rightarrow> 's \<times> (read_error + bool)"

function walk_children :: "'s visitor \<Rightarrow> u8 list \<Rightarrow> 's \<Rightarrow> 's \<times> (read_error + unit)" where
  "walk_children f data s =
     (if data = [] then (s, Inr ())
      else (case next_child data of
              Inl e \<Rightarrow> (s, Inl e)
            | Inr (eid, body, rest) \<Rightarrow>
                (case f eid body s of
                   (s', Inl e) \<Rightarrow> (s', Inl e)
                 | (s', Inr go) \<Rightarrow> if go then walk_children f rest s' else (s', Inr ()))))"
  by auto
termination
  by (relation "measure (\<lambda>(f, data, s). length data)") (auto dest: next_child_shorter)

declare walk_children.simps [simp del]

text \<open>A visitor that only changes what it captures, and goes on.\<close>

definition collecting :: "(u32 \<Rightarrow> u8 list \<Rightarrow> 's \<Rightarrow> 's) \<Rightarrow> 's visitor" where
  "collecting f eid v s = (f eid v s, Inr True)"

text \<open>One whose own walk may fail: \<open>?\<close> inside the closure.\<close>

definition trying :: "(u32 \<Rightarrow> u8 list \<Rightarrow> 's \<Rightarrow> 's \<times> (read_error + unit)) \<Rightarrow> 's visitor" where
  "trying f eid v s = (case f eid v s of (s', Inl e) \<Rightarrow> (s', Inl e) | (s', Inr _) \<Rightarrow> (s', Inr True))"

subsection \<open>Blocks\<close>

definition block_vint :: "u8 list \<Rightarrow> (u64 \<times> nat) option" where
  "block_vint data =
     (case data of
        [] \<Rightarrow> None
      | first # _ \<Rightarrow>
          (let len = leading_zeros first + 1 in
           if len > 8 \<or> length data < len then None else Some (vint_value len data, len)))"

definition parse_block :: "u8 list \<Rightarrow> u64 list \<Rightarrow> (u64 \<times> 16 word \<times> nat) option" where
  "parse_block data wanted =
     (case block_vint data of
        None \<Rightarrow> None
      | Some (track, tn) \<Rightarrow>
          if track \<notin> set wanted \<or> length data < tn + 3 then None
          else (let rel = push_byte (ucast (data ! tn)) (data ! (tn + 1)); flags = data ! (tn + 2) in
                if flags AND 0x06 \<noteq> 0 then None else Some (track, rel, tn + 3)))"

definition block_track :: "u8 list \<Rightarrow> u64 option" where
  "block_track data = map_option fst (block_vint data)"

record SubBlock =
  sb_track :: u64
  sb_rel_time :: "16 word"
  sb_payload :: "u8 list"
  sb_duration :: "u64 option"

text \<open>The blocks of one cluster, by reading all of it.\<close>

definition simple_block :: "u64 list \<Rightarrow> u8 list \<Rightarrow> SubBlock option" where
  "simple_block wanted body =
     (case parse_block body wanted of
        None \<Rightarrow> None
      | Some (track, rel, off) \<Rightarrow>
          Some \<lparr>sb_track = track, sb_rel_time = rel, sb_payload = drop off body, sb_duration = None\<rparr>)"

definition group_child :: "u64 list \<Rightarrow> u32 \<Rightarrow> u8 list \<Rightarrow> SubBlock option \<times> u64 option
    \<Rightarrow> SubBlock option \<times> u64 option" where
  "group_child wanted eid v s =
     (if eid = BLOCK then
        (case simple_block wanted v of None \<Rightarrow> s | Some b \<Rightarrow> (Some b, snd s))
      else if eid = BLOCK_DURATION then (fst s, Some (uint_of v))
      else s)"

definition scan_child :: "u64 list \<Rightarrow> u32 \<Rightarrow> u8 list \<Rightarrow> u64 \<times> (u64 \<times> SubBlock) list
    \<Rightarrow> (u64 \<times> (u64 \<times> SubBlock) list) \<times> (read_error + unit)" where
  "scan_child wanted eid body s =
     (case s of (cluster_ts, out) \<Rightarrow>
        if eid = CLUSTER_TIMESTAMP then ((uint_of body, out), Inr ())
        else if eid = SIMPLE_BLOCK then
          (case simple_block wanted body of
             None \<Rightarrow> (s, Inr ()) | Some b \<Rightarrow> ((cluster_ts, out @ [(cluster_ts, b)]), Inr ()))
        else if eid = BLOCK_GROUP then
          (case walk_children (collecting (group_child wanted)) body (None, None) of
             (_, Inl e) \<Rightarrow> (s, Inl e)
           | ((blk, duration), Inr _) \<Rightarrow>
               (case blk of
                  None \<Rightarrow> (s, Inr ())
                | Some b \<Rightarrow> ((cluster_ts, out @ [(cluster_ts, b\<lparr>sb_duration := duration\<rparr>)]), Inr ())))
        else (s, Inr ()))"

definition scan_cluster :: "u8 list \<Rightarrow> u64 list \<Rightarrow> (u64 \<times> SubBlock) list
    \<Rightarrow> (u64 \<times> SubBlock) list \<times> (read_error + unit)" where
  "scan_cluster data wanted out =
     (case walk_children (trying (scan_child wanted)) data (0, out) of ((_, out'), r) \<Rightarrow> (out', r))"

subsection \<open>Writers\<close>

definition encode_uint :: "u64 \<Rightarrow> u8 list" where
  "encode_uint v =
     (let bytes = u64_to_be_bytes v; skip = min (length (takeWhile (\<lambda>b. b = 0) bytes)) 7 in drop skip bytes)"

definition encode_size :: "u64 \<Rightarrow> u8 list" where
  "encode_size n = 0x01 # tl (u64_to_be_bytes n)"

definition encode_element :: "u32 \<Rightarrow> u8 list \<Rightarrow> u8 list" where
  "encode_element eid body =
     dropWhile (\<lambda>b. b = 0) (u32_to_be_bytes eid) @ encode_size (of_nat (length body)) @ body"

section \<open>Lemmas\<close>

lemma unat_uint_of: "length data \<le> 8 \<Longrightarrow> unat (uint_of data) = be_val data"
  using foldl_push_byte [of "0 :: u64" 0 data] by (simp add: uint_of_def)

lemma be_val_drop_zeros: "k \<le> length (takeWhile (\<lambda>b. b = 0) bs) \<Longrightarrow> be_val (drop k bs) = be_val bs"
proof (induction bs arbitrary: k)
  case (Cons b bs)
  then show ?case by (cases k) (auto simp: be_val_Cons split: if_splits)
qed simp

lemma be_val_dropWhile: "be_val (dropWhile (\<lambda>b. b = 0) bs) = be_val bs"
  by (simp add: dropWhile_eq_drop be_val_drop_zeros)

lemma length_encode_uint: "length (encode_uint v) \<le> 8"
  by (simp add: encode_uint_def Let_def)

text \<open>Reading back what the writers wrote.\<close>

lemma uint_encode_uint: "uint_of (encode_uint v) = v"
proof -
  have "be_val (encode_uint v) = unat v"
    unfolding encode_uint_def Let_def by (subst be_val_drop_zeros) (auto simp: be_val_u64)
  then show ?thesis using unat_uint_of [OF length_encode_uint] by (metis word_unat_eq_iff)
qed

definition valid_id :: "u32 \<Rightarrow> bool" where
  "valid_id eid \<longleftrightarrow>
     (let bs = dropWhile (\<lambda>b. b = 0) (u32_to_be_bytes eid) in
      bs \<noteq> [] \<and> leading_zeros (hd bs) + 1 = length bs)"

lemma ebml_id_encode:
  assumes "valid_id eid"
  shows "ebml_id (dropWhile (\<lambda>b. b = 0) (u32_to_be_bytes eid) @ r)
    = Inr (eid, length (dropWhile (\<lambda>b. b = 0) (u32_to_be_bytes eid)))"
proof -
  define bs where "bs = dropWhile (\<lambda>b. b = 0) (u32_to_be_bytes eid)"
  have bs: "bs \<noteq> []" "leading_zeros (hd bs) + 1 = length bs"
    using assms by (simp_all add: valid_id_def bs_def Let_def)
  have "length bs \<le> length (u32_to_be_bytes eid)" unfolding bs_def by (rule length_dropWhile_le)
  then have len: "length bs \<le> 4" by simp
  have "unat (foldl push_byte (0 :: u32) bs) = be_val bs"
    using foldl_push_byte [of "0 :: u32" 0 bs] len by simp
  also have "\<dots> = unat eid" by (simp add: bs_def be_val_dropWhile be_val_u32)
  finally have "foldl push_byte 0 bs = eid" by (rule word_unat_eq_iff [THEN iffD2])
  then have "ebml_id (bs @ r) = Inr (eid, length bs)"
    using bs len by (cases bs) (auto simp: ebml_id_def Let_def)
  then show ?thesis by (simp add: bs_def)
qed

lemma leading_zeros_one: "leading_zeros 1 = 7"
  by code_simp

lemma length_encode_size [simp]: "length (encode_size n) = 8"
  by (simp add: encode_size_def)

lemma ebml_size_encode:
  assumes "unat n < 2 ^ 56 - 1"
  shows "ebml_size (encode_size n @ r) = Inr (Some n, 8)"
proof -
  define bs where "bs = tl (u64_to_be_bytes n)"
  have len: "length bs = 7" by (simp add: bs_def)
  have "u64_to_be_bytes n = hd (u64_to_be_bytes n) # bs"
    unfolding bs_def by (cases "u64_to_be_bytes n") (auto dest: arg_cong [of _ _ length])
  then have split: "unat n = unat (hd (u64_to_be_bytes n)) * 256 ^ 7 + be_val bs"
    using be_val_u64 [of n] be_val_Cons [of _ bs] len by metis
  have "unat (hd (u64_to_be_bytes n)) = 0"
  proof (rule ccontr)
    assume "unat (hd (u64_to_be_bytes n)) \<noteq> 0"
    then have "1 * 256 ^ 7 \<le> unat (hd (u64_to_be_bytes n)) * 256 ^ 7" by (intro mult_le_mono1) simp
    then show False using split assms by simp
  qed
  then have val: "be_val bs = unat n" using split by simp
  have "unat (foldl push_byte (0 :: u64) bs) = be_val bs"
    using foldl_push_byte [of "0 :: u64" 0 bs] len by simp
  then have "foldl push_byte (0 :: u64) bs = n" unfolding val by (rule word_unat_eq_iff [THEN iffD2])
  moreover have "n \<noteq> push_bit 56 1 - 1"
  proof
    assume "n = push_bit 56 1 - 1"
    moreover have "unat (push_bit 56 1 - 1 :: u64) = 2 ^ 56 - 1" by (simp add: push_bit_eq_mult)
    ultimately show False using assms by simp
  qed
  ultimately show ?thesis
    using len by (simp add: ebml_size_def encode_size_def leading_zeros_one vint_value_def vint_mask_def
        Let_def then_some_def flip: bs_def)
qed

lemma next_child_encode:
  assumes "valid_id eid" "length body < 2 ^ 56 - 1"
  shows "next_child (encode_element eid body @ rest) = Inr (eid, body, rest)"
proof -
  define bs where "bs = dropWhile (\<lambda>b. b = 0) (u32_to_be_bytes eid)"
  have u: "unat (of_nat (length body) :: u64) = length body"
    using assms(2) by (simp add: unsigned_of_nat take_bit_nat_eq_self)
  have "ebml_id (bs @ encode_size (of_nat (length body)) @ body @ rest) = Inr (eid, length bs)"
    unfolding bs_def by (rule ebml_id_encode [OF assms(1)])
  moreover have "ebml_size (encode_size (of_nat (length body)) @ body @ rest)
      = Inr (Some (of_nat (length body)), 8)"
    by (rule ebml_size_encode) (use assms(2) u in simp)
  ultimately show ?thesis
    by (simp add: next_child_def encode_element_def u flip: bs_def)
qed

text \<open>The children of an element, and the error the list ends with.\<close>

function children :: "u8 list \<Rightarrow> (u32 \<times> u8 list) list \<times> read_error option" where
  "children data =
     (if data = [] then ([], None)
      else (case next_child data of
              Inl e \<Rightarrow> ([], Some e)
            | Inr (eid, body, rest) \<Rightarrow> ((eid, body) # fst (children rest), snd (children rest))))"
  by auto
termination
  by (relation "measure length") (auto dest: next_child_shorter)

declare children.simps [simp del]

fun visit :: "'s visitor \<Rightarrow> (u32 \<times> u8 list) list \<times> read_error option \<Rightarrow> 's \<Rightarrow> 's \<times> (read_error + unit)" where
  "visit f ([], None) s = (s, Inr ())"
| "visit f ([], Some e) s = (s, Inl e)"
| "visit f ((eid, body) # cs, e) s =
     (case f eid body s of
        (s', Inl e') \<Rightarrow> (s', Inl e')
      | (s', Inr go) \<Rightarrow> if go then visit f (cs, e) s' else (s', Inr ()))"

lemma walk_children_visit: "walk_children f data s = visit f (children data) s"
proof (induction data arbitrary: s rule: children.induct)
  case (1 data)
  show ?case
  proof (cases "data = []")
    case True
    then show ?thesis by (simp add: walk_children.simps children.simps)
  next
    case False
    show ?thesis
    proof (cases "next_child data")
      case (Inl e)
      then show ?thesis using False by (simp add: walk_children.simps [of f data] children.simps [of data])
    next
      case (Inr x)
      obtain eid body rest where x: "x = (eid, body, rest)" by (cases x)
      have IH: "walk_children f rest s' = visit f (children rest) s'" for s'
        by (rule "1.IH" [OF False Inr [unfolded x]]) simp_all
      then show ?thesis
        using False Inr x
        by (simp add: walk_children.simps [of f data] children.simps [of data] split: prod.splits sum.splits)
    qed
  qed
qed

lemma visit_collecting: "visit (collecting f) (cs, e) s
    = (fold (\<lambda>(eid, body). f eid body) cs s, case e of None \<Rightarrow> Inr () | Some e \<Rightarrow> Inl e)"
proof (induction cs arbitrary: s)
  case Nil
  then show ?case by (cases e) simp_all
next
  case (Cons c cs)
  then show ?case by (cases c) (simp add: collecting_def)
qed

lemma walk_collecting: "walk_children (collecting f) data s
    = (fold (\<lambda>(eid, body). f eid body) (fst (children data)) s,
       case snd (children data) of None \<Rightarrow> Inr () | Some e \<Rightarrow> Inl e)"
  using visit_collecting [of f "fst (children data)" "snd (children data)"] by (simp add: walk_children_visit)

definition encode_elements :: "(u32 \<times> u8 list) list \<Rightarrow> u8 list" where
  "encode_elements cs = concat (map (\<lambda>(eid, body). encode_element eid body) cs)"

definition encodable :: "u32 \<times> u8 list \<Rightarrow> bool" where
  "encodable c \<longleftrightarrow> valid_id (fst c) \<and> length (snd c) < 2 ^ 56 - 1"

lemma children_encode: "list_all encodable cs \<Longrightarrow> children (encode_elements cs) = (cs, None)"
proof (induction cs)
  case Nil
  then show ?case by (simp add: encode_elements_def children.simps)
next
  case (Cons c cs)
  obtain eid body where c: "c = (eid, body)" by (cases c)
  have "encode_elements (c # cs) = encode_element eid body @ encode_elements cs"
    by (simp add: encode_elements_def c)
  moreover have "next_child (encode_element eid body @ encode_elements cs) = Inr (eid, body, encode_elements cs)"
    by (rule next_child_encode) (use Cons.prems in \<open>simp_all add: c encodable_def\<close>)
  moreover have "encode_element eid body @ encode_elements cs \<noteq> []" by (simp add: encode_element_def encode_size_def)
  ultimately show ?case using Cons by (simp add: children.simps [of "encode_element eid body @ encode_elements cs"] c)
qed

section \<open>Properties\<close>

text \<open>C23. What the writers write, the walk reads: over the encoding of a list of elements with valid ids, a
  visitor sees exactly those elements, with their bodies, in order, until it stops or fails.
\<close>

theorem walk_encoded:
  assumes "list_all encodable cs"
  shows "walk_children f (encode_elements cs) s = visit f (cs, None) s"
  using children_encode [OF assms] by (simp add: walk_children_visit)

text \<open>Witness of C23: the timestamp and the group a block is wrapped in again.\<close>

theorem walk_encoded_witness:
  "walk_children (collecting (\<lambda>eid body seen. seen @ [eid]))
     (encode_elements [(CLUSTER_TIMESTAMP, encode_uint 7), (BLOCK_GROUP, [])]) []
   = ([CLUSTER_TIMESTAMP, BLOCK_GROUP], Inr ())"
proof -
  have "valid_id CLUSTER_TIMESTAMP" "valid_id BLOCK_GROUP" by code_simp+
  then have "list_all encodable [(CLUSTER_TIMESTAMP, encode_uint 7), (BLOCK_GROUP, [])]"
    using length_encode_uint [of 7] by (simp add: encodable_def)
  from walk_encoded [OF this, of "collecting (\<lambda>eid body seen. seen @ [eid])" "[]"]
  show ?thesis by (simp add: collecting_def)
qed

end
