(* ===== verification/Mkv_Reader.thy ===== *)
theory Mkv_Reader
  imports Ebml
begin

text \<open>
  The reader of \<open>crates/kahawai-media/src/subindex.rs\<close>: reads at computed offsets through a readahead
  window, over a byte source that may be slow, short or failing. Offsets are 64-bit; a read whose end is
  beyond \<open>2^64\<close> panics (on the addition, or in a release build on the slice of the window).
\<close>

section \<open>Definitions\<close>

text \<open>A \<open>RemuxSource\<close>: its size, what its \<open>c\<close>-th read gives for an offset and a length (\<open>None\<close> for an
  I/O error, no bytes at the end), and whether the budget is spent or the checkpoint fails at the \<open>c\<close>-th
  read of the reader.\<close>

record Source =
  so_size :: nat
  so_read :: "nat \<Rightarrow> nat \<Rightarrow> nat \<Rightarrow> u8 list option"
  so_stop :: "nat \<Rightarrow> bool"

definition file_source :: "u8 list \<Rightarrow> Source" where
  "file_source content =
     \<lparr>so_size = length content, so_read = (\<lambda>c off n. Some (take n (drop off content))), so_stop = (\<lambda>c. False)\<rparr>"

record Reader =
  rd_reads :: nat
  rd_calls :: nat
  win_start :: nat
  win :: "u8 list"

definition reader_new :: Reader where
  "reader_new = \<lparr>rd_reads = 0, rd_calls = 0, win_start = 0, win = []\<rparr>"

definition READAHEAD :: nat where "READAHEAD = 256 * 1024"

text \<open>The loop that fills a buffer of \<open>want\<close> bytes.\<close>

function fill :: "Source \<Rightarrow> nat \<Rightarrow> nat \<Rightarrow> u8 list \<Rightarrow> nat \<Rightarrow> nat \<times> (read_error + u8 list)" where
  "fill src off want buf calls =
     (if want \<le> length buf then (calls, Inr buf)
      else (case so_read src calls (off + length buf) (want - length buf) of
              None \<Rightarrow> (Suc calls, Inl Io)
            | Some bs \<Rightarrow>
                if bs = [] then (Suc calls, Inl Shape)
                else fill src off want (buf @ bs) (Suc calls)))"
  by auto
termination
  by (relation "measure (\<lambda>(src, off, want, buf, calls). want - length buf)")
    (auto intro: diff_less_mono2 simp: not_le)

declare fill.simps [simp del]

text \<open>How much a refill asks for: a lot when it is near the window, little after a far jump.\<close>

definition read_want :: "Source \<Rightarrow> nat \<Rightarrow> nat \<Rightarrow> Reader \<Rightarrow> nat" where
  "read_want src off n r =
     (let near = win_start r \<le> off \<and> off \<le> win_start r + length (win r) + 65536 in
      min (max n (if near then READAHEAD else 4096)) (so_size src - off))"

definition in_window :: "nat \<Rightarrow> nat \<Rightarrow> Reader \<Rightarrow> bool" where
  "in_window off stop r \<longleftrightarrow> win_start r \<le> off \<and> stop \<le> win_start r + length (win r)"

definition refill :: "Source \<Rightarrow> nat \<Rightarrow> nat \<Rightarrow> Reader \<Rightarrow> Reader \<times> (read_error + unit)" where
  "refill src off n r =
     (let want = read_want src off n r in
      if want < n then (r, Inl Shape)
      else (case fill src off want [] (rd_calls r) of
              (calls, Inl e) \<Rightarrow> (r\<lparr>rd_calls := calls\<rparr>, Inl e)
            | (calls, Inr buf) \<Rightarrow> (r\<lparr>rd_calls := calls, win_start := off, win := buf\<rparr>, Inr ())))"

definition read_at :: "Source \<Rightarrow> nat \<Rightarrow> nat \<Rightarrow> Reader \<Rightarrow> Reader \<times> (read_error + u8 list)" where
  "read_at src off n r0 =
     (let r = r0\<lparr>rd_reads := Suc (rd_reads r0)\<rparr> in
      if so_stop src (rd_reads r0) then (r, Inl Io)
      else (case checked_add off n of
              None \<Rightarrow> (r, Inl Panicked)
            | Some stop \<Rightarrow>
                (case (if in_window off stop r then (r, Inr ()) else refill src off n r) of
                   (r, Inl e) \<Rightarrow> (r, Inl e)
                 | (r, Inr _) \<Rightarrow> (r, slice (off - win_start r) (off - win_start r + n) (win r)))))"

text \<open>The \<open>?\<close> operator.\<close>

definition and_then :: "'r \<times> (read_error + 'a) \<Rightarrow> ('r \<Rightarrow> 'a \<Rightarrow> 'r \<times> (read_error + 'b)) \<Rightarrow> 'r \<times> (read_error + 'b)" where
  "and_then m f = (case m of (r, Inl e) \<Rightarrow> (r, Inl e) | (r, Inr v) \<Rightarrow> f r v)"

text \<open>The header of the element at \<open>pos\<close>: its id, where its body starts, and its size.\<close>

definition element_header :: "u8 list \<Rightarrow> read_error + (u32 \<times> nat \<times> u64 option)" where
  "element_header head =
     (case ebml_id head of
        Inl e \<Rightarrow> Inl e
      | Inr (eid, il) \<Rightarrow>
          (case ebml_size (drop il head) of Inl e \<Rightarrow> Inl e | Inr (sz, sn) \<Rightarrow> Inr (eid, il + sn, sz)))"

section \<open>The window is transparent\<close>

text \<open>What a read of a plain file gives.\<close>

definition peek :: "u8 list \<Rightarrow> nat \<Rightarrow> nat \<Rightarrow> read_error + u8 list" where
  "peek content off n =
     (if 2 ^ 64 \<le> off + n then Inl Panicked
      else if off + n \<le> length content then Inr (take n (drop off content))
      else Inl Shape)"

lemma fill_length: "fill src off want buf calls = (calls', Inr out) \<Longrightarrow> want \<le> length out"
proof (induction src off want buf calls rule: fill.induct)
  case (1 src off want buf calls)
  then show ?case
    by (subst (asm) fill.simps) (auto split: if_splits option.splits)
qed

lemma fill_error: "fill src off want buf calls = (calls', Inl e) \<Longrightarrow> e \<noteq> Panicked"
proof (induction src off want buf calls rule: fill.induct)
  case (1 src off want buf calls)
  then show ?case
    by (subst (asm) fill.simps) (auto split: if_splits option.splits)
qed

lemma refill_Inr: "refill src off n r = (r', Inr u) \<Longrightarrow> win_start r' = off \<and> n \<le> length (win r')"
  using fill_length by (fastforce simp: refill_def Let_def split: if_splits prod.splits sum.splits)

lemma refill_Inl: "refill src off n r = (r', Inl e) \<Longrightarrow> e \<noteq> Panicked \<and> win r' = win r \<and> win_start r' = win_start r"
  using fill_error by (fastforce simp: refill_def Let_def split: if_splits prod.splits sum.splits)

lemma in_window_reads [simp]: "in_window off stop (r\<lparr>rd_reads := k\<rparr>) = in_window off stop r"
  by (simp add: in_window_def)

text \<open>A read in one of three ways: refused, from the window after a refill, or a refill that failed.\<close>

lemma read_at_cases [consumes 0, case_names stopped overflow window failed]:
  obtains "so_stop src (rd_reads r)" "read_at src off n r = (r\<lparr>rd_reads := Suc (rd_reads r)\<rparr>, Inl Io)"
  | "\<not> so_stop src (rd_reads r)" "2 ^ 64 \<le> off + n"
      "read_at src off n r = (r\<lparr>rd_reads := Suc (rd_reads r)\<rparr>, Inl Panicked)"
  | r' where "off + n < 2 ^ 64" "win_start r' \<le> off" "off + n \<le> win_start r' + length (win r')"
      "win r' = win r \<and> win_start r' = win_start r \<or> refill src off n (r\<lparr>rd_reads := Suc (rd_reads r)\<rparr>) = (r', Inr ())"
      "read_at src off n r = (r', Inr (take n (drop (off - win_start r') (win r'))))"
  | r' e where "off + n < 2 ^ 64" "\<not> so_stop src (rd_reads r)" "refill src off n (r\<lparr>rd_reads := Suc (rd_reads r)\<rparr>) = (r', Inl e)"
      "\<not> in_window off (off + n) r" "read_at src off n r = (r', Inl e)"
proof -
  let ?r = "r\<lparr>rd_reads := Suc (rd_reads r)\<rparr>"
  consider "so_stop src (rd_reads r)" | "\<not> so_stop src (rd_reads r)" "2 ^ 64 \<le> off + n"
    | "\<not> so_stop src (rd_reads r)" "off + n < 2 ^ 64" "in_window off (off + n) ?r"
    | "\<not> so_stop src (rd_reads r)" "off + n < 2 ^ 64" "\<not> in_window off (off + n) ?r" by linarith
  then show thesis
  proof cases
    case 1
    then show thesis using that(1) by (simp add: read_at_def Let_def)
  next
    case 2
    then show thesis using that(2) by (simp add: read_at_def Let_def checked_add_def)
  next
    case 3
    then have "slice (off - win_start r) (off - win_start r + n) (win r)
        = Inr (take n (drop (off - win_start r) (win r)))"
      by (auto simp: slice_def in_window_def)
    then show thesis using that(3) [of ?r] 3 by (simp add: read_at_def Let_def checked_add_def in_window_def)
  next
    case 4
    obtain r' res where rf: "refill src off n ?r = (r', res)" by fastforce
    show thesis
    proof (cases res)
      case (Inl e)
      then show thesis using that(4) [of r' e] 4 rf by (simp add: read_at_def Let_def checked_add_def)
    next
      case (Inr u)
      then show thesis using that(3) [of r'] 4 rf refill_Inr [of src off n ?r r' u]
        by (simp add: read_at_def Let_def checked_add_def slice_def)
    qed
  qed
qed

text \<open>Only an end beyond 64 bits makes a read panic, whatever the source does.\<close>

lemma read_at_no_panic: "off + n < 2 ^ 64 \<Longrightarrow> snd (read_at src off n r) \<noteq> Inl Panicked"
  by (cases rule: read_at_cases [of src r off n]) (auto dest: refill_Inl)

lemma read_at_panics:
  "2 ^ 64 \<le> off + n \<Longrightarrow> \<not> so_stop src (rd_reads r) \<Longrightarrow> snd (read_at src off n r) = Inl Panicked"
  by (simp add: read_at_def Let_def checked_add_def)

lemma read_at_length: "snd (read_at src off n r) = Inr bs \<Longrightarrow> length bs = n"
  by (cases rule: read_at_cases [of src r off n]) auto

text \<open>Reads count, and an interruption elsewhere does not matter.\<close>

lemma refill_reads: "rd_reads (fst (refill src off n r)) = rd_reads r"
  by (auto simp: refill_def Let_def split: prod.splits sum.splits)

lemma read_at_reads: "rd_reads (fst (read_at src off n r)) = Suc (rd_reads r)"
  using refill_reads [of src off n "r\<lparr>rd_reads := Suc (rd_reads r)\<rparr>"]
  by (auto simp: read_at_def Let_def split: option.splits prod.splits sum.splits)

lemma fill_stop: "fill (src\<lparr>so_stop := s\<rparr>) off want buf calls = fill src off want buf calls"
proof (induction src off want buf calls rule: fill.induct)
  case (1 src off want buf calls)
  then show ?case
    by (subst (1 2) fill.simps) (auto split: option.splits)
qed

lemma refill_stop: "refill (src\<lparr>so_stop := s\<rparr>) off n r = refill src off n r"
  by (simp add: refill_def read_want_def fill_stop Let_def cong: if_cong)

lemma read_at_stop:
  "\<not> s (rd_reads r) \<Longrightarrow> \<not> so_stop src (rd_reads r) \<Longrightarrow> read_at (src\<lparr>so_stop := s\<rparr>) off n r = read_at src off n r"
  by (simp add: read_at_def refill_stop Let_def cong: if_cong option.case_cong)

lemma read_at_stopped: "so_stop src (rd_reads r) \<Longrightarrow> snd (read_at src off n r) = Inl Io"
  by (simp add: read_at_def Let_def)

text \<open>A source that tells the truth about \<open>content\<close>: what it gives is there, if not always all of it.\<close>

locale byte_source =
  fixes content :: "u8 list" and src :: Source
  assumes honest: "so_read src c off n = Some bs \<Longrightarrow> bs = take (length bs) (drop off content) \<and> length bs \<le> n"
begin

definition window_ok :: "Reader \<Rightarrow> bool" where
  "window_ok r \<longleftrightarrow> win r = take (length (win r)) (drop (win_start r) content)"

lemma window_new: "window_ok reader_new"
  by (simp add: window_ok_def reader_new_def)

lemma fill_content:
  assumes "buf = take (length buf) (drop off content)" "length buf \<le> want"
    and "fill src off want buf calls = (calls', Inr out)"
  shows "out = take want (drop off content) \<and> length out = want"
  using assms
proof (induction "want - length buf" arbitrary: buf calls rule: less_induct)
  case less
  show ?case
  proof (cases "want \<le> length buf")
    case True
    then show ?thesis using less.prems by (subst (asm) fill.simps) auto
  next
    case False
    then obtain bs where bs: "so_read src calls (off + length buf) (want - length buf) = Some bs" "bs \<noteq> []"
      and step: "fill src off want (buf @ bs) (Suc calls) = (calls', Inr out)"
      using less.prems(3) by (subst (asm) fill.simps) (auto split: option.splits if_splits)
    have b: "bs = take (length bs) (drop (off + length buf) content)" "length bs \<le> want - length buf"
      using honest [OF bs(1)] by auto
    have "take (length buf + length bs) (drop off content)
        = take (length buf) (drop off content) @ take (length bs) (drop (off + length buf) content)"
      unfolding take_add drop_drop by (simp add: add.commute)
    then have "buf @ bs = take (length (buf @ bs)) (drop off content)"
      using b(1) less.prems(1) by simp
    moreover have "want - length (buf @ bs) < want - length buf" using False bs(2) by (cases bs) auto
    moreover have "length (buf @ bs) \<le> want" using b(2) False by simp
    ultimately show ?thesis using less.hyps step by blast
  qed
qed

lemma window_slice:
  assumes "window_ok r" "win_start r \<le> off" "off + n \<le> win_start r + length (win r)"
  shows "take n (drop (off - win_start r) (win r)) = take n (drop off content)"
    and "off + n \<le> length content \<or> n = 0 \<and> length (win r) = 0"
proof -
  let ?w = "length (win r)" let ?k = "off - win_start r"
  have w: "win r = take ?w (drop (win_start r) content)" using assms(1) by (simp add: window_ok_def)
  have "drop ?k (win r) = take (?w - ?k) (drop (?k + win_start r) content)"
    by (subst w) (simp add: drop_take)
  then have "take n (drop ?k (win r)) = take (min n (?w - ?k)) (drop off content)"
    using assms(2) by simp
  moreover have "min n (?w - ?k) = n" using assms(2,3) by auto
  ultimately show "take n (drop ?k (win r)) = take n (drop off content)" by simp
  have "?w \<le> length content - win_start r" using arg_cong [OF w, of length] by simp
  then show "off + n \<le> length content \<or> n = 0 \<and> ?w = 0" using assms(2,3) by arith
qed

text \<open>Whatever the window and the source did before, a read that succeeds gives the bytes of the file.\<close>

lemma refill_content: "window_ok r \<Longrightarrow> window_ok (fst (refill src off n r))"
  using fill_content [of "[]" off]
  by (fastforce simp: refill_def Let_def window_ok_def split: if_splits prod.splits sum.splits)

lemma read_at_content:
  assumes "window_ok r"
  shows "window_ok (fst (read_at src off n r))
    \<and> (case snd (read_at src off n r) of Inl e \<Rightarrow> True | Inr bs \<Rightarrow> bs = take n (drop off content))"
proof (cases rule: read_at_cases [of src r off n])
  case (window r')
  have "window_ok (r\<lparr>rd_reads := Suc (rd_reads r)\<rparr>)" using assms by (simp add: window_ok_def)
  then have "window_ok r'" using window(4) assms refill_content [of "r\<lparr>rd_reads := Suc (rd_reads r)\<rparr>" off n]
    by (auto simp: window_ok_def)
  then show ?thesis using window window_slice(1) [of r' off n] by simp
next
  case (failed r' e)
  then show ?thesis using assms refill_Inl [OF failed(3)] by (simp add: window_ok_def)
qed (use assms in \<open>simp_all add: window_ok_def\<close>)

end

text \<open>A local file: every byte is there, at once or in pieces, and nobody interrupts.\<close>

locale complete_source = byte_source +
  assumes sized: "so_size src = length content"
    and gives: "n > 0 \<Longrightarrow> off + n \<le> length content \<Longrightarrow> \<exists>bs. so_read src c off n = Some bs \<and> bs \<noteq> []"
    and calm: "\<not> so_stop src c"
begin

lemma fill_total:
  assumes "off + want \<le> length content"
    and "buf = take (length buf) (drop off content)" "length buf \<le> want"
  shows "\<exists>calls' out. fill src off want buf calls = (calls', Inr out)"
  using assms(2,3)
proof (induction "want - length buf" arbitrary: buf calls rule: less_induct)
  case less
  show ?case
  proof (cases "want \<le> length buf")
    case True
    then show ?thesis by (subst fill.simps) auto
  next
    case False
    then obtain bs where bs: "so_read src calls (off + length buf) (want - length buf) = Some bs" "bs \<noteq> []"
      using gives [of "want - length buf" "off + length buf" calls] assms(1) by auto
    have b: "bs = take (length bs) (drop (off + length buf) content)" "length bs \<le> want - length buf"
      using honest [OF bs(1)] by auto
    have "take (length buf + length bs) (drop off content)
        = take (length buf) (drop off content) @ take (length bs) (drop (off + length buf) content)"
      unfolding take_add drop_drop by (simp add: add.commute)
    then have "buf @ bs = take (length (buf @ bs)) (drop off content)"
      using b(1) less.prems(1) by simp
    moreover have "want - length (buf @ bs) < want - length buf" using False bs(2) by (cases bs) auto
    moreover have "length (buf @ bs) \<le> want" using b(2) False by simp
    ultimately have "\<exists>calls' out. fill src off want (buf @ bs) (Suc calls) = (calls', Inr out)"
      using less.hyps by blast
    then show ?thesis using False bs by (subst fill.simps) simp
  qed
qed

lemma refill_total:
  assumes "n > 0"
  shows "snd (refill src off n r) = (if off + n \<le> length content then Inr () else Inl Shape)"
proof -
  have want: "read_want src off n r < n \<longleftrightarrow> \<not> off + n \<le> length content"
    using assms by (auto simp: read_want_def sized Let_def)
  show ?thesis
  proof (cases "off + n \<le> length content")
    case True
    then have "off + read_want src off n r \<le> length content"
      using assms by (auto simp: read_want_def sized Let_def)
    then have "\<exists>calls out. fill src off (read_want src off n r) [] (rd_calls r) = (calls, Inr out)"
      by (rule fill_total) simp_all
    then obtain calls out where "fill src off (read_want src off n r) [] (rd_calls r) = (calls, Inr out)" by blast
    then show ?thesis using True want by (simp add: refill_def Let_def)
  next
    case False
    then show ?thesis using want by (simp add: refill_def Let_def)
  qed
qed

lemma read_at_peek:
  assumes "window_ok r" "n > 0"
  shows "snd (read_at src off n r) = peek content off n"
proof (cases rule: read_at_cases [of src r off n])
  case (window r')
  have res: "snd (read_at src off n r) = Inr (take n (drop (off - win_start r') (win r')))"
    using window(5) by simp
  then have bytes: "take n (drop (off - win_start r') (win r')) = take n (drop off content)"
    using read_at_content [OF assms(1), of off n] by simp
  then have "length (take n (drop off content)) = n" using read_at_length [OF res] by simp
  then have "off + n \<le> length content" using assms(2) by simp
  then show ?thesis using window(1) res bytes by (simp add: peek_def)
next
  case (failed r' e)
  then show ?thesis using refill_total [OF assms(2), of off "r\<lparr>rd_reads := Suc (rd_reads r)\<rparr>"]
    by (simp add: peek_def split: if_splits)
qed (use calm in \<open>auto simp: peek_def\<close>)

lemma refill_here:
  assumes "off + n \<le> length content"
  shows "snd (refill src off n r) = Inr ()"
proof (cases "n > 0")
  case True
  then show ?thesis using refill_total assms by simp
next
  case False
  have "off + read_want src off n r \<le> length content" using assms by (auto simp: read_want_def sized Let_def)
  then have "\<exists>calls out. fill src off (read_want src off n r) [] (rd_calls r) = (calls, Inr out)"
    by (rule fill_total) simp_all
  then obtain calls out where "fill src off (read_want src off n r) [] (rd_calls r) = (calls, Inr out)" by blast
  then show ?thesis using False by (simp add: refill_def Let_def)
qed

lemma read_here:
  assumes "window_ok r" "off + n \<le> length content" "length content < 2 ^ 64"
  shows "\<exists>r'. read_at src off n r = (r', Inr (take n (drop off content))) \<and> window_ok r'"
proof (cases rule: read_at_cases [of src r off n])
  case (window r')
  then show ?thesis using read_at_content [OF assms(1), of off n] by simp
next
  case (failed r' e)
  then show ?thesis using refill_here [OF assms(2), of "r\<lparr>rd_reads := Suc (rd_reads r)\<rparr>"] by simp
qed (use assms calm in auto)

end

interpretation local_file: complete_source content "file_source content" for content
  by unfold_locales (auto simp: file_source_def min_def)

end
