(* ===== verification/Mkv_Index.thy ===== *)
theory Mkv_Index
  imports Mkv_Reader Subtitle_Text
begin

text \<open>
  Sparse subtitle extraction from Matroska, \<open>crates/kahawai-media/src/subindex.rs\<close>: the index, the
  header walk over the clusters, the cue-addressed reads, and the assembly of the tracks. The zlib
  decoder is a parameter. Positions are sums of a position inside the file and a size below \<open>2^56\<close>, so
  they stay below \<open>2^64\<close>; where the code checks or may miss an overflow the model has the check.
\<close>

section \<open>The walk over one cluster\<close>

text \<open>Whether a block group may hold a wanted block, from a prefix of its body.\<close>

definition group_ours :: "u64 list \<Rightarrow> u8 list \<Rightarrow> bool" where
  "group_ours wanted inner =
     unwrap_or
       (case ebml_id inner of
          Inl e \<Rightarrow> None
        | Inr (cid, cil) \<Rightarrow>
            if cid \<noteq> BLOCK then None
            else (case ebml_size (drop cil inner) of
                    Inl e \<Rightarrow> None
                  | Inr (_, csl) \<Rightarrow>
                      Option.bind (get_range (cil + csl) (length inner) inner)
                        (\<lambda>p. map_option (\<lambda>t. t \<in> set wanted) (block_track p)))) True"

type_synonym blocks = "(u64 \<times> SubBlock) list"

definition rewrap :: "u64 \<Rightarrow> u32 \<Rightarrow> u8 list \<Rightarrow> u8 list" where
  "rewrap ts eid body = encode_element CLUSTER_TIMESTAMP (encode_uint ts) @ encode_element eid body"

text \<open>One element of the cluster: the timestamp after it, and the blocks it adds.\<close>

definition sparse_element :: "Source \<Rightarrow> u64 list \<Rightarrow> u8 list \<Rightarrow> u32 \<Rightarrow> nat \<Rightarrow> nat \<Rightarrow> nat \<Rightarrow> u64 \<Rightarrow> Reader
    \<Rightarrow> Reader \<times> (read_error + u64 \<times> blocks)" where
  "sparse_element src wanted head eid hl sz body ts r =
     (if eid = CLUSTER_TIMESTAMP then
        (case get_range hl (hl + sz) head of
           Some v \<Rightarrow> (r, Inr (uint_of v, []))
         | None \<Rightarrow> and_then (read_at src body sz r) (\<lambda>r v. (r, Inr (uint_of v, []))))
      else if eid = SIMPLE_BLOCK then
        (if map_or (block_track (drop hl head)) True (\<lambda>t. t \<in> set wanted)
         then and_then (read_at src body sz r) (\<lambda>r data. (r, Inr (ts,
                case simple_block wanted data of None \<Rightarrow> [] | Some b \<Rightarrow> [(ts, b)])))
         else (r, Inr (ts, [])))
      else if eid = BLOCK_GROUP then
        (if group_ours wanted (drop hl head)
         then and_then (read_at src body sz r) (\<lambda>r data.
                case scan_cluster (rewrap ts BLOCK_GROUP data) wanted [] of
                  (tmp, Inl e) \<Rightarrow> (r, Inl e)
                | (tmp, Inr _) \<Rightarrow> (r, Inr (ts, tmp)))
         else (r, Inr (ts, [])))
      else (r, Inr (ts, [])))"

lemma element_header_pos: "element_header head = Inr (eid, hl, sz) \<Longrightarrow> 2 \<le> hl"
  by (auto simp: element_header_def ebml_id_def ebml_size_def Let_def
      split: sum.splits prod.splits list.splits if_splits)

function walk_cluster_sparse :: "Source \<Rightarrow> u64 list \<Rightarrow> nat \<Rightarrow> nat \<Rightarrow> u64 \<Rightarrow> blocks \<Rightarrow> Reader
    \<Rightarrow> Reader \<times> (read_error + blocks)" where
  "walk_cluster_sparse src wanted stop p ts out r =
     (if stop \<le> p then (r, Inr out)
      else if so_size src < p then (r, Inl Panicked)
      else (let peek_n = min (min 48 (stop - p)) (so_size src - p) in
        if peek_n < 2 then (r, Inr out)
        else (case read_at src p peek_n r of
                (r, Inl e) \<Rightarrow> (r, Inl e)
              | (r, Inr head) \<Rightarrow>
                  (case element_header head of
                     Inl e \<Rightarrow> (r, Inr out)
                   | Inr (eid, hl, None) \<Rightarrow> (r, Inr out)
                   | Inr (eid, hl, Some sz) \<Rightarrow>
                       (case sparse_element src wanted head eid hl (unat sz) (p + hl) ts r of
                          (r, Inl e) \<Rightarrow> (r, Inl e)
                        | (r, Inr (ts, new)) \<Rightarrow>
                            walk_cluster_sparse src wanted stop (p + hl + unat sz) ts (out @ new) r)))))"
  by auto
termination
  by (relation "measure (\<lambda>(src, wanted, stop, p, ts, out, r). stop - p)") (auto dest: element_header_pos)

declare walk_cluster_sparse.simps [simp del]

section \<open>The index\<close>

datatype Compression = Zlib | HeaderStrip "u8 list"

record MkvTrack =
  mt_number :: u64
  mt_sub_index :: nat
  mt_codec :: string
  mt_is_ass :: bool
  mt_header :: "string option"
  mt_private :: "u8 list option"
  mt_compression :: "Compression option"

definition is_text :: "MkvTrack \<Rightarrow> bool" where
  "is_text t = starts_with (mt_codec t) ''S_TEXT/''"

record MkvIndex =
  mx_segment_start :: nat
  mx_timestamp_scale :: u64
  mx_tracks :: "MkvTrack list"
  mx_sub_cues :: "(u64 \<times> u64 \<times> u64 option \<times> u64) list"
  mx_first_cluster :: "nat option"

definition comp_setting :: "u32 \<Rightarrow> u8 list \<Rightarrow> u64 \<times> u8 list \<Rightarrow> u64 \<times> u8 list" where
  "comp_setting eid v s =
     (if eid = CONTENT_COMP_ALGO then (uint_of v, snd s)
      else if eid = CONTENT_COMP_SETTINGS then (fst s, v) else s)"

definition comp_encoding :: "u32 \<Rightarrow> u8 list \<Rightarrow> Compression option \<Rightarrow> Compression option" where
  "comp_encoding eid v out =
     (if eid = CONTENT_COMPRESSION then
        (let (algo, settings) = fst (walk_children (collecting comp_setting) v (0, [])) in
         if algo = 0 then Some Zlib else if algo = 3 then Some (HeaderStrip settings) else None)
      else out)"

definition read_compression :: "u8 list \<Rightarrow> Compression option" where
  "read_compression data =
     fst (walk_children (collecting (\<lambda>eid v out.
       if eid = CONTENT_ENCODING then fst (walk_children (collecting comp_encoding) v out) else out)) data None)"

definition decompress :: "(u8 list \<Rightarrow> u8 list option) \<Rightarrow> u8 list \<Rightarrow> Compression option \<Rightarrow> u8 list" where
  "decompress inflate payload how =
     (case how of
        Some Zlib \<Rightarrow> unwrap_or (inflate payload) payload
      | Some (HeaderStrip prefix) \<Rightarrow> prefix @ payload
      | None \<Rightarrow> payload)"

text \<open>A SeekHead: the positions it promises of the wanted elements.\<close>

definition seek_entry :: "u32 \<Rightarrow> u8 list \<Rightarrow> u32 \<times> u64 option \<Rightarrow> u32 \<times> u64 option" where
  "seek_entry eid v s =
     (if eid = SEEK_ID then (ucast (uint_of v), snd s)
      else if eid = SEEK_POSITION then (fst s, Some (uint_of v)) else s)"

definition seek_visitor :: "u32 list \<Rightarrow> nat \<Rightarrow> u32 \<Rightarrow> u8 list \<Rightarrow> nat list \<Rightarrow> nat list \<times> (read_error + unit)" where
  "seek_visitor targets segment_start eid seek pending =
     (if eid = SEEK then
        (case walk_children (collecting seek_entry) seek (0, None) of
           (_, Inl e) \<Rightarrow> (pending, Inl e)
         | ((target, place), Inr _) \<Rightarrow>
             (case place of
                Some p \<Rightarrow>
                  if target \<in> set targets
                  then (case checked_add segment_start (unat p) of
                          Some t \<Rightarrow> (pending @ [t], Inr ()) | None \<Rightarrow> (pending, Inr ()))
                  else (pending, Inr ())
              | None \<Rightarrow> (pending, Inr ())))
      else (pending, Inr ()))"

definition read_seek_head :: "u32 list \<Rightarrow> nat \<Rightarrow> u8 list \<Rightarrow> nat list \<Rightarrow> nat list \<times> (read_error + unit)" where
  "read_seek_head targets segment_start data pending =
     walk_children (trying (seek_visitor targets segment_start)) data pending"

definition info_entry :: "u32 \<Rightarrow> u8 list \<Rightarrow> u64 \<Rightarrow> u64" where
  "info_entry eid v scale = (if eid = TIMESTAMP_SCALE then max (uint_of v) 1 else scale)"

record TrackVars =
  tv_number :: u64
  tv_type :: u64
  tv_codec :: string
  tv_private :: "u8 list option"
  tv_compression :: "Compression option"

definition track_entry :: "u32 \<Rightarrow> u8 list \<Rightarrow> TrackVars \<Rightarrow> TrackVars" where
  "track_entry eid v s =
     (if eid = TRACK_NUMBER then s\<lparr>tv_number := uint_of v\<rparr>
      else if eid = TRACK_TYPE then s\<lparr>tv_type := uint_of v\<rparr>
      else if eid = CODEC_ID then s\<lparr>tv_codec := from_utf8_lossy v\<rparr>
      else if eid = CODEC_PRIVATE then s\<lparr>tv_private := Some v\<rparr>
      else if eid = CONTENT_ENCODINGS then s\<lparr>tv_compression := read_compression v\<rparr>
      else s)"

definition tracks_visitor :: "u32 \<Rightarrow> u8 list \<Rightarrow> nat \<times> MkvTrack list \<Rightarrow> (nat \<times> MkvTrack list) \<times> (read_error + unit)" where
  "tracks_visitor eid entry s =
     (if eid = TRACK_ENTRY then
        (case walk_children (collecting track_entry) entry
                \<lparr>tv_number = 0, tv_type = 0, tv_codec = [], tv_private = None, tv_compression = None\<rparr> of
           (_, Inl e) \<Rightarrow> (s, Inl e)
         | (v, Inr _) \<Rightarrow>
             if tv_type v = 0x11 then
               (let ass = contains_str (tv_codec v) ''ASS'' \<or> contains_str (tv_codec v) ''SSA'' in
                ((fst s + 1, snd s @ [\<lparr>mt_number = tv_number v, mt_sub_index = fst s, mt_codec = tv_codec v,
                   mt_is_ass = ass, mt_header = (if ass then map_option decode_text (tv_private v) else None),
                   mt_private = tv_private v, mt_compression = tv_compression v\<rparr>]), Inr ()))
             else (s, Inr ()))
      else (s, Inr ()))"

definition cue_entry :: "u32 \<Rightarrow> u8 list \<Rightarrow> u64 \<times> u64 \<times> u64 option \<Rightarrow> u64 \<times> u64 \<times> u64 option" where
  "cue_entry eid w s =
     (case s of (track, cluster, rel) \<Rightarrow>
        if eid = CUE_TRACK then (uint_of w, cluster, rel)
        else if eid = CUE_CLUSTER_POSITION then (track, uint_of w, rel)
        else if eid = CUE_RELATIVE_POSITION then (track, cluster, Some (uint_of w))
        else s)"

definition cue_point :: "u64 list \<Rightarrow> u32 \<Rightarrow> u8 list \<Rightarrow> u64 \<times> (u64 \<times> u64 \<times> u64 option \<times> u64) list
    \<Rightarrow> (u64 \<times> (u64 \<times> u64 \<times> u64 option \<times> u64) list) \<times> (read_error + unit)" where
  "cue_point wanted eid v s =
     (case s of (time, cues) \<Rightarrow>
        if eid = CUE_TIME then ((uint_of v, cues), Inr ())
        else if eid = CUE_TRACK_POSITIONS then
          (case walk_children (collecting cue_entry) v (0, 0, None) of
             (_, Inl e) \<Rightarrow> (s, Inl e)
           | ((track, cluster, rel), Inr _) \<Rightarrow>
               ((time, if track \<in> set wanted then cues @ [(time, cluster, rel, track)] else cues), Inr ()))
        else (s, Inr ()))"

definition cues_visitor :: "u64 list \<Rightarrow> u32 \<Rightarrow> u8 list \<Rightarrow> (u64 \<times> u64 \<times> u64 option \<times> u64) list
    \<Rightarrow> (u64 \<times> u64 \<times> u64 option \<times> u64) list \<times> (read_error + unit)" where
  "cues_visitor wanted eid point cues =
     (if eid = CUE_POINT then
        (case walk_children (trying (cue_point wanted)) point (0, cues) of ((_, cues'), res) \<Rightarrow> (cues', res))
      else (cues, Inr ()))"

text \<open>What the element at \<open>pos\<close> adds to the index.\<close>

definition index_element :: "Source \<Rightarrow> u32 \<Rightarrow> nat \<Rightarrow> nat \<Rightarrow> nat \<Rightarrow> MkvIndex \<Rightarrow> nat list \<Rightarrow> Reader
    \<Rightarrow> Reader \<times> (read_error + MkvIndex \<times> nat list)" where
  "index_element src eid pos body sz idx pending r =
     (if eid = SEEK_HEAD then
        and_then (read_at src body sz r) (\<lambda>r data.
          case read_seek_head [TRACKS, CUES, INFO] (mx_segment_start idx) data pending of
            (_, Inl e) \<Rightarrow> (r, Inl e) | (pending', Inr _) \<Rightarrow> (r, Inr (idx, pending')))
      else if eid = INFO then
        and_then (read_at src body sz r) (\<lambda>r data.
          case walk_children (collecting info_entry) data (mx_timestamp_scale idx) of
            (_, Inl e) \<Rightarrow> (r, Inl e) | (scale, Inr _) \<Rightarrow> (r, Inr (idx\<lparr>mx_timestamp_scale := scale\<rparr>, pending)))
      else if eid = TRACKS then
        and_then (read_at src body sz r) (\<lambda>r data.
          case walk_children (trying tracks_visitor) data (0, mx_tracks idx) of
            (_, Inl e) \<Rightarrow> (r, Inl e) | ((_, ts), Inr _) \<Rightarrow> (r, Inr (idx\<lparr>mx_tracks := ts\<rparr>, pending)))
      else if eid = CUES then
        and_then (read_at src body sz r) (\<lambda>r data.
          case walk_children (trying (cues_visitor (map mt_number (mx_tracks idx)))) data (mx_sub_cues idx) of
            (_, Inl e) \<Rightarrow> (r, Inl e) | (cs, Inr _) \<Rightarrow> (r, Inr (idx\<lparr>mx_sub_cues := cs\<rparr>, pending)))
      else if eid = CLUSTER \<and> mx_first_cluster idx = None then
        (r, Inr (idx\<lparr>mx_first_cluster := Some pos\<rparr>, pending))
      else (r, Inr (idx, pending)))"

text \<open>Where the walk goes on after the element: nowhere, to a promised position, or linearly.\<close>

definition index_next :: "u32 \<Rightarrow> MkvIndex \<Rightarrow> nat list \<Rightarrow> nat list \<Rightarrow> nat \<Rightarrow> nat option" where
  "index_next eid idx pending visited onward =
     (if eid = CLUSTER \<and> mx_tracks idx \<noteq> [] \<and> mx_first_cluster idx \<noteq> None \<and> mx_sub_cues idx \<noteq> []
         \<and> list_all (\<lambda>p. p \<in> set visited) pending then None
      else (case find (\<lambda>p. p \<notin> set visited) pending of
              Some n \<Rightarrow> Some (if mx_first_cluster idx \<noteq> None then n else onward)
            | None \<Rightarrow> Some onward))"

lemma unvisited_less:
  assumes "p < n" "p \<notin> set visited"
  shows "card ({0..<n} - set (p # visited)) < card ({0..<n :: nat} - set visited)"
proof -
  have "{0..<n} - set (p # visited) = ({0..<n} - set visited) - {p}" by auto
  moreover have "p \<in> {0..<n} - set visited" using assms by simp
  ultimately show ?thesis by (metis card_Diff1_less finite_Diff finite_atLeastLessThan)
qed

function index_loop :: "Source \<Rightarrow> nat \<Rightarrow> MkvIndex \<Rightarrow> nat list \<Rightarrow> nat list \<Rightarrow> nat \<Rightarrow> Reader
    \<Rightarrow> Reader \<times> (read_error + MkvIndex)" where
  "index_loop src stop idx pending visited pos r =
     (if min stop (so_size src) \<le> pos then (r, Inr idx)
      else if pos \<in> set visited then (r, Inr idx)
      else (case read_at src pos 16 r of
              (r, Inl e) \<Rightarrow> (r, Inr idx)
            | (r, Inr head) \<Rightarrow>
                (case element_header head of
                   Inl e \<Rightarrow> (r, Inr idx)
                 | Inr (eid, hl, None) \<Rightarrow> (r, Inr idx)
                 | Inr (eid, hl, Some sz) \<Rightarrow>
                     (case index_element src eid pos (pos + hl) (unat sz) idx pending r of
                        (r, Inl e) \<Rightarrow> (r, Inl e)
                      | (r, Inr (idx, pending)) \<Rightarrow>
                          (case index_next eid idx pending (pos # visited) (pos + hl + unat sz) of
                             None \<Rightarrow> (r, Inr idx)
                           | Some n \<Rightarrow> index_loop src stop idx pending (pos # visited) n r)))))"
  by auto
termination
  by (relation "measure (\<lambda>(src, stop, idx, pending, visited, pos, r). card ({0..<so_size src} - set visited))")
    (auto simp del: set_simps intro: unvisited_less)

declare index_loop.simps [simp del]

text \<open>Where the segment starts: the header of the file, shared by both walks.\<close>

definition segment_bounds :: "Source \<Rightarrow> nat \<Rightarrow> u64 option \<Rightarrow> nat" where
  "segment_bounds src start seg_size =
     unwrap_or (Option.bind seg_size (\<lambda>s. checked_add start (unat s))) (so_size src)"

definition segment_after :: "Source \<Rightarrow> u8 list \<Rightarrow> nat \<Rightarrow> Reader \<Rightarrow> Reader \<times> (read_error + nat \<times> nat)" where
  "segment_after src head il r =
     (case ebml_size (drop il head) of
        Inl e \<Rightarrow> (r, Inl e)
      | Inr (None, _) \<Rightarrow> (r, Inl Shape)
      | Inr (Some hsize, hsl) \<Rightarrow>
          (let pos = il + hsl + unat hsize in
           and_then (read_at src pos 16 r) (\<lambda>r seg.
             case ebml_id seg of
               Inl e \<Rightarrow> (r, Inl e)
             | Inr (eid, il) \<Rightarrow>
                 if eid \<noteq> SEGMENT then (r, Inl Shape)
                 else (case ebml_size (drop il seg) of
                         Inl e \<Rightarrow> (r, Inl e)
                       | Inr (seg_size, sn) \<Rightarrow>
                           (let start = pos + il + sn in
                            (r, Inr (start, segment_bounds src start seg_size)))))))"

definition mkv_read_index :: "Source \<Rightarrow> Reader \<Rightarrow> Reader \<times> (read_error + MkvIndex)" where
  "mkv_read_index src r =
     and_then (read_at src 0 (min 32 (so_size src)) r) (\<lambda>r head.
       case ebml_id head of
         Inl e \<Rightarrow> (r, Inl e)
       | Inr (eid, il) \<Rightarrow>
           if eid \<noteq> EBML_HEADER then (r, Inl Shape)
           else and_then (segment_after src head il r) (\<lambda>r (start, stop).
             index_loop src stop
               \<lparr>mx_segment_start = start, mx_timestamp_scale = 1000000, mx_tracks = [], mx_sub_cues = [],
                mx_first_cluster = None\<rparr> [] [] start r))"

section \<open>The walk\<close>

text \<open>The timestamp of a cluster, read once: its cue reads share a cache.\<close>

definition first_timestamp :: "u32 \<Rightarrow> u8 list \<Rightarrow> u64 \<Rightarrow> u64 \<times> (read_error + bool)" where
  "first_timestamp eid v ts = (if eid = CLUSTER_TIMESTAMP then (uint_of v, Inr False) else (ts, Inr True))"

definition cluster_ts :: "Source \<Rightarrow> nat \<Rightarrow> (nat \<rightharpoonup> u64) \<Rightarrow> Reader \<Rightarrow> Reader \<times> (read_error + u64 \<times> (nat \<rightharpoonup> u64))" where
  "cluster_ts src pos cache r =
     (case cache pos of
        Some t \<Rightarrow> (r, Inr (t, cache))
      | None \<Rightarrow>
          and_then (read_at src pos 64 r) (\<lambda>r head.
            case ebml_id head of
              Inl e \<Rightarrow> (r, Inl e)
            | Inr (eid, il) \<Rightarrow>
                if eid \<noteq> CLUSTER then (r, Inl Shape)
                else (case ebml_size (drop il head) of
                        Inl e \<Rightarrow> (r, Inl e)
                      | Inr (_, sn) \<Rightarrow>
                          (case slice (il + sn) (il + sn + 16) head of
                             Inl e \<Rightarrow> (r, Inl e)
                           | Inr first \<Rightarrow>
                               (let ts = fst (walk_children first_timestamp first 0) in
                                (r, Inr (ts, cache(pos \<mapsto> ts))))))))"

text \<open>One cue: the blocks it addresses.\<close>

definition cue_block :: "Source \<Rightarrow> u64 list \<Rightarrow> nat \<Rightarrow> u64 \<Rightarrow> nat \<Rightarrow> Reader \<Rightarrow> Reader \<times> (read_error + blocks)" where
  "cue_block src wanted cluster_pos ts rel r =
     and_then (read_at src cluster_pos 16 r) (\<lambda>r head.
       case element_header head of
         Inl e \<Rightarrow> (r, Inl e)
       | Inr (_, hl, _) \<Rightarrow>
           (case checked_add (cluster_pos + hl) rel of
              None \<Rightarrow> (r, Inl Shape)
            | Some block_at \<Rightarrow>
                and_then (read_at src block_at 16 r) (\<lambda>r bh.
                  case element_header bh of
                    Inl e \<Rightarrow> (r, Inl e)
                  | Inr (_, _, None) \<Rightarrow> (r, Inl Shape)
                  | Inr (bid, bhl, Some bsize) \<Rightarrow>
                      and_then (read_at src (block_at + bhl) (unat bsize) r) (\<lambda>r body.
                        if bid = BLOCK_GROUP \<or> bid = SIMPLE_BLOCK
                        then (case scan_cluster (rewrap ts bid body) wanted [] of
                                (_, Inl e) \<Rightarrow> (r, Inl e) | (tmp, Inr _) \<Rightarrow> (r, Inr tmp))
                        else (r, Inr [])))))"

fun exact_cues :: "Source \<Rightarrow> nat \<Rightarrow> u64 list \<Rightarrow> (u64 \<times> u64 \<times> u64 option \<times> u64) list \<Rightarrow> (nat \<rightharpoonup> u64) \<Rightarrow> blocks
    \<Rightarrow> Reader \<Rightarrow> Reader \<times> (read_error + blocks)" where
  "exact_cues src start wanted [] cache out r = (r, Inr out)"
| "exact_cues src start wanted ((_, cluster_rel, rel, _) # cues) cache out r =
     (case checked_add start (unat cluster_rel) of
        None \<Rightarrow> (r, Inl Shape)
      | Some cluster_pos \<Rightarrow>
          (case cluster_ts src cluster_pos cache r of
             (r, Inl e) \<Rightarrow> (r, Inl e)
           | (r, Inr (ts, cache)) \<Rightarrow>
               (case cue_block src wanted cluster_pos ts (map_or rel 0 unat) r of
                  (r, Inl e) \<Rightarrow> (r, Inl e)
                | (r, Inr tmp) \<Rightarrow> exact_cues src start wanted cues cache (out @ tmp) r)))"

function walk_clusters :: "Source \<Rightarrow> u64 list \<Rightarrow> nat \<Rightarrow> blocks \<Rightarrow> Reader \<Rightarrow> Reader \<times> (read_error + blocks)" where
  "walk_clusters src wanted pos out r =
     (if so_size src \<le> pos then (r, Inr out)
      else (case read_at src pos (min 16 (so_size src - pos)) r of
              (r, Inl e) \<Rightarrow> (r, Inr out)
            | (r, Inr head) \<Rightarrow>
                (case element_header head of
                   Inl e \<Rightarrow> (r, Inr out)
                 | Inr (eid, hl, None) \<Rightarrow> (r, Inr out)
                 | Inr (eid, hl, Some sz) \<Rightarrow>
                     (case (if eid = CLUSTER
                            then walk_cluster_sparse src wanted (pos + hl + unat sz) (pos + hl) 0 out r
                            else (r, Inr out)) of
                        (r, Inl e) \<Rightarrow> (r, Inl e)
                      | (r, Inr out) \<Rightarrow> walk_clusters src wanted (pos + hl + unat sz) out r))))"
  by auto
termination
  by (relation "measure (\<lambda>(src, wanted, pos, out, r). so_size src - pos)") (auto dest: element_header_pos)

declare walk_clusters.simps [simp del]

subsection \<open>Assembly\<close>

text \<open>\<open>saturating_add_signed\<close> of a 16-bit offset, and ticks in milliseconds.\<close>

definition block_ticks :: "u64 \<Rightarrow> SubBlock \<Rightarrow> nat" where
  "block_ticks ts b = nat (min (2 ^ 64 - 1) (max 0 (uint ts + sint (sb_rel_time b))))"

definition to_ms :: "u64 \<Rightarrow> nat \<Rightarrow> nat" where
  "to_ms scale ticks = min (ticks * unat scale) (2 ^ 64 - 1) div 1000000"

record ImageTrack =
  it_codec :: string
  it_codec_private :: "u8 list option"
  it_blocks :: "(nat \<times> nat option \<times> u8 list) list"

definition image_track :: "(u8 list \<Rightarrow> u8 list option) \<Rightarrow> u64 \<Rightarrow> MkvTrack \<Rightarrow> blocks \<Rightarrow> ImageTrack" where
  "image_track inflate scale t blocks =
     \<lparr>it_codec = mt_codec t, it_codec_private = mt_private t,
      it_blocks = sort_key fst (map (\<lambda>(ts, b). (to_ms scale (block_ticks ts b),
        map_option (\<lambda>d. to_ms scale (unat d)) (sb_duration b),
        decompress inflate (sb_payload b) (mt_compression t)))
        (filter (\<lambda>(ts, b). sb_track b = mt_number t) blocks))\<rparr>"

record Extracted =
  ex_cues :: "Cue list"
  ex_ass :: "string option"

definition text_event :: "(u8 list \<Rightarrow> u8 list option) \<Rightarrow> u64 \<Rightarrow> MkvTrack \<Rightarrow> u64 \<times> SubBlock
    \<Rightarrow> read_error + (nat \<times> nat \<times> string)" where
  "text_event inflate scale t block =
     (case block of (ts, b) \<Rightarrow>
        (let start_ticks = block_ticks ts b; start = to_ms scale start_ticks;
             raw = decode_text (decompress inflate (sb_payload b) (mt_compression t))
         in case sb_duration b of
              None \<Rightarrow> Inr (start, start + 3000, raw)
            | Some d \<Rightarrow>
                (case checked_add start_ticks (unat d) of
                   None \<Rightarrow> Inl Panicked
                 | Some stop \<Rightarrow> Inr (start, to_ms scale stop, raw))))"

fun text_events :: "(u8 list \<Rightarrow> u8 list option) \<Rightarrow> u64 \<Rightarrow> MkvTrack \<Rightarrow> blocks
    \<Rightarrow> read_error + (nat \<times> nat \<times> string) list" where
  "text_events inflate scale t [] = Inr []"
| "text_events inflate scale t (b # bs) =
     (case text_event inflate scale t b of
        Inl e \<Rightarrow> Inl e
      | Inr ev \<Rightarrow> (case text_events inflate scale t bs of Inl e \<Rightarrow> Inl e | Inr evs \<Rightarrow> Inr (ev # evs)))"

definition event_cue :: "bool \<Rightarrow> nat \<times> nat \<times> string \<Rightarrow> Cue option" where
  "event_cue ass ev =
     (case ev of (start, stop, raw) \<Rightarrow>
        (let text = clean_cue_text (if ass then last (splitn 9 (CHR '','') raw) else raw) in
         if text = [] then None else Some \<lparr>cue_start_ms = start, cue_end_ms = stop, cue_text = text\<rparr>))"

definition ass_script :: "string \<Rightarrow> (nat \<times> nat \<times> string) list \<Rightarrow> string" where
  "ass_script header evs =
     compose_header header @ concat (filter_map (\<lambda>(start, stop, raw).
       map_option (\<lambda>line. line @ [NL]) (ass_dialogue raw start stop)) (sort_key fst evs))"

definition text_track :: "(u8 list \<Rightarrow> u8 list option) \<Rightarrow> u64 \<Rightarrow> blocks \<Rightarrow> MkvTrack
    \<Rightarrow> read_error + (nat \<times> Extracted)" where
  "text_track inflate scale blocks t =
     (case text_events inflate scale t (filter (\<lambda>(ts, b). sb_track b = mt_number t) blocks) of
        Inl e \<Rightarrow> Inl e
      | Inr evs \<Rightarrow>
          Inr (mt_sub_index t,
            \<lparr>ex_cues = sort_key cue_start_ms (filter_map (event_cue (mt_is_ass t)) evs),
             ex_ass = (if mt_is_ass t \<and> evs \<noteq> [] then map_option (\<lambda>h. ass_script h evs) (mt_header t) else None)\<rparr>))"

fun text_tracks :: "(u8 list \<Rightarrow> u8 list option) \<Rightarrow> u64 \<Rightarrow> blocks \<Rightarrow> MkvTrack list
    \<Rightarrow> read_error + (nat \<times> Extracted) list" where
  "text_tracks inflate scale blocks [] = Inr []"
| "text_tracks inflate scale blocks (t # ts) =
     (case text_track inflate scale blocks t of
        Inl e \<Rightarrow> Inl e
      | Inr x \<Rightarrow> (case text_tracks inflate scale blocks ts of Inl e \<Rightarrow> Inl e | Inr xs \<Rightarrow> Inr (x # xs)))"

record MkvOut =
  mo_text :: "(nat \<times> Extracted) list"
  mo_image :: "ImageTrack option"

definition nothing_found :: MkvOut where
  "nothing_found = \<lparr>mo_text = [], mo_image = None\<rparr>"

definition wanted_tracks :: "nat option \<Rightarrow> MkvTrack list \<Rightarrow> MkvTrack list" where
  "wanted_tracks pick tracks =
     (case pick of
        Some want \<Rightarrow> filter (\<lambda>t. mt_sub_index t = want \<and> \<not> is_text t) tracks
      | None \<Rightarrow> filter is_text tracks)"

definition collect_blocks :: "Source \<Rightarrow> MkvIndex \<Rightarrow> u64 list \<Rightarrow> Reader \<Rightarrow> Reader \<times> (read_error + blocks option)" where
  "collect_blocks src idx wanted r =
     (if mx_sub_cues idx \<noteq> [] \<and> list_all (\<lambda>(_, _, rel, _). rel \<noteq> None) (mx_sub_cues idx)
      then and_then (exact_cues src (mx_segment_start idx) wanted (mx_sub_cues idx) Map.empty [] r)
             (\<lambda>r bs. (r, Inr (Some bs)))
      else (case mx_first_cluster idx of
              None \<Rightarrow> (r, Inr None)
            | Some pos \<Rightarrow> and_then (walk_clusters src wanted pos [] r) (\<lambda>r bs. (r, Inr (Some bs)))))"

definition assemble :: "(u8 list \<Rightarrow> u8 list option) \<Rightarrow> MkvIndex \<Rightarrow> nat option \<Rightarrow> blocks
    \<Rightarrow> read_error + MkvOut" where
  "assemble inflate idx pick blocks =
     (case pick of
        Some want \<Rightarrow> Inr (nothing_found\<lparr>mo_image := map_option (\<lambda>t. image_track inflate (mx_timestamp_scale idx) t blocks)
                       (find (\<lambda>t. mt_sub_index t = want \<and> \<not> is_text t) (mx_tracks idx))\<rparr>)
      | None \<Rightarrow> (case text_tracks inflate (mx_timestamp_scale idx) blocks (filter is_text (mx_tracks idx)) of
                   Inl e \<Rightarrow> Inl e | Inr xs \<Rightarrow> Inr (nothing_found\<lparr>mo_text := xs\<rparr>)))"

definition mkv_walk :: "(u8 list \<Rightarrow> u8 list option) \<Rightarrow> Source \<Rightarrow> nat option \<Rightarrow> Reader \<Rightarrow> Reader \<times> (read_error + MkvOut)" where
  "mkv_walk inflate src pick r =
     and_then (mkv_read_index src r) (\<lambda>r idx.
       let wanted = wanted_tracks pick (mx_tracks idx) in
       if mx_tracks idx = [] \<or> wanted = [] then (r, Inr nothing_found)
       else and_then (collect_blocks src idx (map mt_number wanted) r) (\<lambda>r blocks.
         case blocks of
           None \<Rightarrow> (r, Inr nothing_found)
         | Some bs \<Rightarrow> (r, assemble inflate idx pick bs)))"

text \<open>An image track, for burn-in and for the background walk: \<open>None\<close> is "no such track".\<close>

definition extract_image_track :: "(u8 list \<Rightarrow> u8 list option) \<Rightarrow> Source \<Rightarrow> nat \<Rightarrow> read_error + ImageTrack option" where
  "extract_image_track inflate src sub_index =
     (case read_at src 0 4 reader_new of
        (r, Inl e) \<Rightarrow> Inl e
      | (r, Inr magic) \<Rightarrow>
          if magic \<noteq> [0x1A, 0x45, 0xDF, 0xA3] then Inr None
          else (case snd (mkv_walk inflate src (Some sub_index) r) of
                  Inr out \<Rightarrow> Inr (mo_image out)
                | Inl Panicked \<Rightarrow> Inl Panicked
                | Inl e \<Rightarrow> Inr None))"

definition mkv_extract :: "(u8 list \<Rightarrow> u8 list option) \<Rightarrow> Source \<Rightarrow> read_error + (nat \<times> Extracted) list" where
  "mkv_extract inflate src =
     (case snd (mkv_walk inflate src None reader_new) of
        Inl e \<Rightarrow> Inl e | Inr out \<Rightarrow> Inr (mo_text out))"

end
