(* ===== verification/Mkv_Props.thy ===== *)
theory Mkv_Props
  imports Mkv_Index
begin

text \<open>
  What sparse extraction from Matroska promises: reads through the window are reads of the file, the
  header walk finds the blocks a full scan of the cluster finds, and three ways a crafted or truncated
  file, or an interrupted walk, gets an answer the comments of the code rule out.
\<close>

section \<open>Prefixes\<close>

lemma ebml_id_prefix: "ebml_id (take k (f # t)) =
    (let len = leading_zeros f + 1 in
     if k = 0 \<or> len > 4 \<or> min k (length (f # t)) < len then Inl Shape
     else Inr (foldl push_byte 0 (take len (f # t)), len))"
  by (cases k) (auto simp: ebml_id_def Let_def min_def)

lemma ebml_size_prefix: "ebml_size (take k (f # t)) =
    (let len = leading_zeros f + 1 in
     if k = 0 \<or> f = 0 \<or> len > 8 \<or> min k (length (f # t)) < len then Inl Shape
     else Inr (then_some (vint_value len (f # t) \<noteq> push_bit (7 * len) 1 - 1) (vint_value len (f # t)), len))"
  by (cases k) (auto simp: ebml_size_def Let_def min_def vint_value_def)

lemma block_vint_prefix: "block_vint (take k (f # t)) =
    (let len = leading_zeros f + 1 in
     if k = 0 \<or> len > 8 \<or> min k (length (f # t)) < len then None
     else Some (vint_value len (f # t), len))"
  by (cases k) (auto simp: block_vint_def Let_def min_def vint_value_def)

lemma ebml_nil: "ebml_id [] = Inl Shape" "ebml_size [] = Inl Shape" "block_vint [] = None"
  by (simp_all add: ebml_id_def ebml_size_def block_vint_def)

lemma ebml_id_len: "ebml_id data = Inr (eid, il) \<Longrightarrow> 1 \<le> il \<and> il \<le> 4 \<and> il \<le> length data"
  by (auto simp: ebml_id_def Let_def split: list.splits if_splits)

lemma ebml_size_len: "ebml_size data = Inr (sz, sn) \<Longrightarrow> 1 \<le> sn \<and> sn \<le> 8 \<and> sn \<le> length data"
  by (auto simp: ebml_size_def Let_def split: list.splits if_splits)

text \<open>Of two prefixes of the same bytes, what one reads the other reads too, when it reads anything.\<close>

lemma ebml_id_prefixes:
  "ebml_id (take a xs) = Inr x \<Longrightarrow> ebml_id (take b xs) = Inr y \<Longrightarrow> x = y"
  by (cases xs) (auto simp: ebml_nil ebml_id_prefix Let_def simp del: take_Cons split: if_splits)

lemma ebml_size_prefixes:
  "ebml_size (take a xs) = Inr x \<Longrightarrow> ebml_size (take b xs) = Inr y \<Longrightarrow> x = y"
  by (cases xs) (auto simp: ebml_nil ebml_size_prefix Let_def simp del: take_Cons split: if_splits)

lemma block_vint_prefixes:
  "block_vint (take a xs) = Some x \<Longrightarrow> block_vint (take b xs) = Some y \<Longrightarrow> x = y"
  by (cases xs) (auto simp: ebml_nil block_vint_prefix Let_def simp del: take_Cons split: if_splits)

lemma ebml_id_take:
  assumes "ebml_id data = Inr (eid, il)" "il \<le> k"
  shows "ebml_id (take k data) = Inr (eid, il)"
proof (cases data)
  case (Cons f t)
  then show ?thesis using assms ebml_id_prefix [of k f t] ebml_id_prefix [of "length data" f t]
    by (simp add: Let_def del: take_Cons' split: if_splits)
qed (use assms in \<open>simp add: ebml_nil\<close>)

lemma ebml_size_take:
  assumes "ebml_size data = Inr (sz, sn)" "sn \<le> k"
  shows "ebml_size (take k data) = Inr (sz, sn)"
proof (cases data)
  case (Cons f t)
  then show ?thesis using assms ebml_size_prefix [of k f t] ebml_size_prefix [of "length data" f t]
    by (simp add: Let_def del: take_Cons' split: if_splits)
qed (use assms in \<open>simp add: ebml_nil\<close>)

lemma next_childE:
  assumes "next_child data = Inr (eid, body, rest)"
  obtains il sz sn where "ebml_id data = Inr (eid, il)" "ebml_size (drop il data) = Inr (Some sz, sn)"
    "il + sn + unat sz \<le> length data" "body = take (unat sz) (drop (il + sn) data)"
    "rest = drop (il + sn + unat sz) data"
  using assms by (auto simp: next_child_def not_less split: sum.splits prod.splits option.splits if_splits)

section \<open>The header walk finds what a full scan finds\<close>

text \<open>At most one block in a group, as the format has it.\<close>

definition one_block_group :: "u32 \<times> u8 list \<Rightarrow> bool" where
  "one_block_group c \<longleftrightarrow>
     fst c \<noteq> BLOCK_GROUP \<or> length (filter (\<lambda>(i, _). i = BLOCK) (fst (children (snd c)))) \<le> 1"

lemma simple_block_other:
  assumes "block_track (take a xs) = Some t" "t \<notin> set wanted"
  shows "simple_block wanted (take b xs) = None"
proof -
  obtain n where n: "block_vint (take a xs) = Some (t, n)" using assms(1) by (auto simp: block_track_def)
  show ?thesis
  proof (cases "block_vint (take b xs)")
    case None
    then show ?thesis by (simp add: simple_block_def parse_block_def)
  next
    case (Some y)
    then have "y = (t, n)" using block_vint_prefixes n by blast
    then show ?thesis using Some assms(2) by (simp add: simple_block_def parse_block_def)
  qed
qed

lemma group_child_fold:
  assumes "list_all (\<lambda>(i, v). i \<noteq> BLOCK) cs"
  shows "fst (fold (\<lambda>(i, v). group_child wanted i v) cs s) = fst s"
  using assms by (induction cs arbitrary: s) (auto simp: group_child_def)

text \<open>A group the peek refuses has no wanted block.\<close>

lemma group_not_ours:
  assumes no: "\<not> group_ours wanted (take a xs)" and one: "one_block_group (BLOCK_GROUP, take b xs)"
    and walk: "walk_children (collecting (group_child wanted)) (take b xs) (None, None) = ((blk, d), Inr u)"
  shows "blk = None"
proof -
  obtain cil where cid: "ebml_id (take a xs) = Inr (BLOCK, cil)"
    using no by (auto simp: group_ours_def split: sum.splits prod.splits if_splits)
  then obtain sz csl where cs: "ebml_size (drop cil (take a xs)) = Inr (sz, csl)"
    using no by (auto simp: group_ours_def split: sum.splits prod.splits if_splits)
  obtain t where t: "block_track (drop (cil + csl) (take a xs)) = Some t" "t \<notin> set wanted"
    using no cid cs by (auto simp: group_ours_def get_range_def map_option_case split: if_splits option.splits)
  let ?b = "take b xs"
  have blk: "blk = fst (fold (\<lambda>(i, v). group_child wanted i v) (fst (children ?b)) (None, None))"
    using walk by (auto simp: walk_collecting)
  show ?thesis
  proof (cases "?b = [] \<or> (\<exists>e. next_child ?b = Inl e)")
    case True
    then have "fst (children ?b) = []" by (subst children.simps) auto
    then show ?thesis using blk by simp
  next
    case False
    then obtain i v rest where nc: "next_child ?b = Inr (i, v, rest)" "?b \<noteq> []" by (cases "next_child ?b") auto
    then obtain il sz' sn where p: "ebml_id ?b = Inr (i, il)" "ebml_size (drop il ?b) = Inr (Some sz', sn)"
      "v = take (unat sz') (drop (il + sn) ?b)"
      by (auto simp: next_child_def split: sum.splits prod.splits option.splits if_splits)
    have i: "i = BLOCK" "il = cil" using ebml_id_prefixes [OF cid p(1)] by simp_all
    have "sn = csl" using ebml_size_prefixes [of "a - cil" "drop cil xs"] cs p(2) i
      by (simp add: drop_take) blast
    then have "v = take (min (unat sz') (b - (cil + csl))) (drop (cil + csl) xs)"
      using p(3) i by (simp add: drop_take)
    then have v: "simple_block wanted v = None"
      using simple_block_other [of "a - (cil + csl)" "drop (cil + csl) xs" t wanted] t by (simp add: drop_take)
    have ch: "fst (children ?b) = (i, v) # fst (children rest)"
      using nc by (subst children.simps) simp
    then have "list_all (\<lambda>(i, v). i \<noteq> BLOCK) (fst (children rest))"
      using one i by (auto simp: one_block_group_def list_all_iff filter_empty_conv)
    then show ?thesis using blk ch v i group_child_fold by (simp add: group_child_def)
  qed
qed

text \<open>A group wrapped again.\<close>

lemma scan_rewrap:
  assumes "length body < 2 ^ 56 - 1"
  shows "scan_cluster (rewrap ts BLOCK_GROUP body) wanted []
    = (case scan_child wanted BLOCK_GROUP body (ts, []) of (s, res) \<Rightarrow> (snd s, res))"
proof -
  have v: "valid_id CLUSTER_TIMESTAMP" "valid_id BLOCK_GROUP" by code_simp+
  have "list_all encodable [(CLUSTER_TIMESTAMP, encode_uint ts), (BLOCK_GROUP, body)]"
    using v length_encode_uint [of ts] assms by (simp add: encodable_def)
  from children_encode [OF this]
  have "children (rewrap ts BLOCK_GROUP body) = ([(CLUSTER_TIMESTAMP, encode_uint ts), (BLOCK_GROUP, body)], None)"
    by (simp add: rewrap_def encode_elements_def)
  then show ?thesis
    by (simp add: scan_cluster_def walk_children_visit trying_def scan_child_def [of wanted CLUSTER_TIMESTAMP]
        uint_encode_uint split: prod.splits sum.splits)
qed

lemma scan_child_extends:
  assumes "scan_child wanted eid body (ts, out) = ((ts', out'), Inr u)"
  shows "\<exists>new. out' = out @ new \<and> scan_child wanted eid body (ts, []) = ((ts', new), Inr u)"
  using assms by (auto simp: scan_child_def split: if_splits option.splits prod.splits sum.splits)

context complete_source
begin

text \<open>One element: the peek sees its header, and what it adds is what the scan adds.\<close>

lemma sparse_element_scan:
  assumes w: "window_ok r" and small: "length content < 2 ^ 56 - 1"
    and data: "data = take (stop - p) (drop p content)" "stop \<le> length content" "p < stop"
    and child: "ebml_id data = Inr (eid, il)" "ebml_size (drop il data) = Inr (Some sz, sn)"
      "il + sn + unat sz \<le> length data"
    and body: "body = take (unat sz) (drop (il + sn) data)" and one: "one_block_group (eid, body)"
    and scan: "scan_child wanted eid body (ts, []) = ((ts', new), Inr u)"
  shows "\<exists>r'. sparse_element src wanted (take 48 data) eid (il + sn) (unat sz) (p + (il + sn)) ts r
    = (r', Inr (ts', new)) \<and> window_ok r'"
proof -
  let ?head = "take 48 data" and ?hl = "il + sn" and ?n = "unat sz"
  have dl: "length data = stop - p" using data by simp
  have here: "p + ?hl + ?n \<le> length content" using child(3) dl data(2,3) by simp
  have at: "take ?n (drop (p + ?hl) content) = body"
    using child(3) dl by (simp add: body data(1) drop_take min_def add.commute)
  have small64: "length content < 2 ^ 64" using small by simp
  obtain r1 where r1: "read_at src (p + ?hl) ?n r = (r1, Inr body)" "window_ok r1"
    using read_here [OF w here small64] at by auto
  have hd: "drop ?hl ?head = take (48 - ?hl) (drop ?hl data)" by (simp add: drop_take)
  show ?thesis
  proof (cases "eid = CLUSTER_TIMESTAMP")
    case True
    have "get_range ?hl (?hl + ?n) ?head = Some v \<Longrightarrow> v = body" for v
      by (auto simp: get_range_def body drop_take min_def split: if_splits)
    then show ?thesis
      using True scan r1 w by (cases "get_range ?hl (?hl + ?n) ?head")
        (auto simp: sparse_element_def scan_child_def and_then_def)
  next
    case ts: False
    show ?thesis
    proof (cases "eid = SIMPLE_BLOCK")
      case True
      have no: "simple_block wanted body = None" if "block_track (drop ?hl ?head) = Some t" "t \<notin> set wanted" for t
        using simple_block_other that unfolding hd body by blast
      show ?thesis
        using True ts scan r1 w no
        by (cases "block_track (drop ?hl ?head)"; cases "simple_block wanted body")
          (auto simp: sparse_element_def scan_child_def and_then_def map_or_def)
    next
      case simple: False
      show ?thesis
      proof (cases "eid = BLOCK_GROUP")
        case True
        obtain blk d res where walk: "walk_children (collecting (group_child wanted)) body (None, None) = ((blk, d), res)"
          by (metis prod.exhaust)
        then obtain u' where res: "res = Inr u'" using scan True ts simple by (cases res) (auto simp: scan_child_def)
        show ?thesis
        proof (cases "group_ours wanted (drop ?hl ?head)")
          case ours: True
          have "length body < 2 ^ 56 - 1" using here small by (simp add: body)
          then have "scan_cluster (rewrap ts BLOCK_GROUP body) wanted [] = (new, Inr u)" and "ts' = ts"
            using scan_rewrap scan True ts simple by (auto simp: scan_child_def split: prod.splits sum.splits option.splits)
          then show ?thesis using ours True ts simple r1 by (auto simp: sparse_element_def and_then_def)
        next
          case False
          then have "blk = None"
            using group_not_ours [of wanted "48 - ?hl" "drop ?hl data" ?n] one walk res
            unfolding hd body True by blast
          then show ?thesis using False True ts simple scan walk res w
            by (auto simp: sparse_element_def scan_child_def)
        qed
      next
        case False
        then show ?thesis using ts simple scan w by (auto simp: sparse_element_def scan_child_def)
      qed
    qed
  qed
qed

lemma sparse_walk_scan:
  assumes "window_ok r" "length content < 2 ^ 56 - 1" "stop \<le> length content" "p \<le> stop"
    and "list_all one_block_group (fst (children (take (stop - p) (drop p content))))"
    and "visit (trying (scan_child wanted)) (children (take (stop - p) (drop p content))) (ts, out)
      = ((ts', out'), Inr u)"
  shows "\<exists>r'. walk_cluster_sparse src wanted stop p ts out r = (r', Inr out')"
  using assms(1,4-)
proof (induction "stop - p" arbitrary: p ts out r rule: less_induct)
  case less
  let ?data = "take (stop - p) (drop p content)"
  show ?case
  proof (cases "p = stop")
    case True
    then show ?thesis using less.prems(4) by (simp add: children.simps walk_cluster_sparse.simps [of _ _ stop])
  next
    case False
    then have p: "p < stop" using less.prems(2) by simp
    have dl: "length ?data = stop - p" using assms(3) by simp
    then have ne: "?data \<noteq> []" using p by (metis list.size(3) less_numeral_extra(3) zero_less_diff)
    obtain eid body rest where nc: "next_child ?data = Inr (eid, body, rest)"
      using less.prems(4) ne by (cases "next_child ?data") (auto simp: children.simps [of ?data])
    have ch: "children ?data = ((eid, body) # fst (children rest), snd (children rest))"
      using nc ne by (simp add: children.simps [of ?data])
    obtain il sz sn where hdr: "ebml_id ?data = Inr (eid, il)" "ebml_size (drop il ?data) = Inr (Some sz, sn)"
      "il + sn + unat sz \<le> length ?data" "body = take (unat sz) (drop (il + sn) ?data)"
      "rest = drop (il + sn + unat sz) ?data"
      by (rule next_childE [OF nc])
    have len: "1 \<le> il" "il \<le> 4" "1 \<le> sn" "sn \<le> 8"
      using ebml_id_len [OF hdr(1)] ebml_size_len [OF hdr(2)] by auto
    let ?p = "p + (il + sn) + unat sz"
    have rest: "rest = take (stop - ?p) (drop ?p content)"
      using hdr(5) by (simp add: drop_take add.commute add.left_commute)
    have eh: "element_header (take 48 ?data) = Inr (eid, il + sn, Some sz)"
      using ebml_id_take [OF hdr(1), of 48] ebml_size_take [OF hdr(2), of "48 - il"] len
      by (simp add: element_header_def drop_take del: take_take)
    obtain ts1 out1 u1 where step: "scan_child wanted eid body (ts, out) = ((ts1, out1), Inr u1)"
      and later: "visit (trying (scan_child wanted)) (children rest) (ts1, out1) = ((ts', out'), Inr u)"
      using less.prems(4) ch by (auto simp: trying_def split: prod.splits sum.splits)
    obtain new where new: "out1 = out @ new" "scan_child wanted eid body (ts, []) = ((ts1, new), Inr u1)"
      using scan_child_extends [OF step] by blast
    have one: "one_block_group (eid, body)" "list_all one_block_group (fst (children rest))"
      using less.prems(3) ch by simp_all
    have peek: "min (min 48 (stop - p)) (so_size src - p) = min 48 (stop - p)" using assms(3) p by (simp add: sized)
    have "il + sn \<le> stop - p" using hdr(3) dl by simp
    then have two: "\<not> min 48 (stop - p) < 2" using len by simp
    have small: "length content < 2 ^ 64" using assms(2) by simp
    have hd: "take (min 48 (stop - p)) (drop p content) = take 48 ?data" by (simp add: min.commute)
    obtain r1 where r1: "read_at src p (min 48 (stop - p)) r = (r1, Inr (take 48 ?data))" "window_ok r1"
    proof -
      have "p + min 48 (stop - p) \<le> length content" using assms(3) p by simp
      from read_here [OF less.prems(1) this small] show thesis unfolding hd by (blast intro: that)
    qed
    obtain r2 where r2: "sparse_element src wanted (take 48 ?data) eid (il + sn) (unat sz) (p + (il + sn)) ts r1
        = (r2, Inr (ts1, new))" "window_ok r2"
      using sparse_element_scan [OF r1(2) assms(2) refl assms(3) p hdr(1,2,3,4) one(1) new(2)] by blast
    have "\<exists>r'. walk_cluster_sparse src wanted stop ?p ts1 out1 r2 = (r', Inr out')"
    proof (rule less.hyps)
      show "stop - ?p < stop - p" using p len by simp
      show "?p \<le> stop" using hdr(3) p unfolding dl by simp
    qed (use r2 one later rest in simp_all)
    moreover have "walk_cluster_sparse src wanted stop p ts out r
        = walk_cluster_sparse src wanted stop ?p ts1 out1 r2"
      using p assms(3) r1(1) r2(1) eh two peek new(1)
      by (subst walk_cluster_sparse.simps) (simp add: sized Let_def)
    ultimately show ?thesis by simp
  qed
qed

end

section \<open>Properties\<close>

text \<open>A series of reads through one reader.\<close>

fun run_reads :: "Source \<Rightarrow> (nat \<times> nat) list \<Rightarrow> Reader \<Rightarrow> (read_error + u8 list) list" where
  "run_reads src [] r = []"
| "run_reads src ((off, n) # ops) r =
     (case read_at src off n r of (r', res) \<Rightarrow> res # run_reads src ops r')"

text \<open>C21. The readahead window cannot be seen: whatever non-empty reads went before, a read of a local file
  gives the bytes of the file at that place, fails where the file ends, and panics only when its end is
  beyond 64 bits.
\<close>

theorem reads_are_slices:
  assumes "list_all (\<lambda>(off, n). 0 < n) ops"
  shows "run_reads (file_source content) ops reader_new = map (\<lambda>(off, n). peek content off n) ops"
proof -
  have "run_reads (file_source content) ops r = map (\<lambda>(off, n). peek content off n) ops"
    if "local_file.window_ok content r" for r
    using assms that
  proof (induction ops arbitrary: r)
    case (Cons q ops)
    obtain off n where q: "q = (off, n)" by (cases q)
    obtain r' res where rd: "read_at (file_source content) off n r = (r', res)" by fastforce
    have "res = peek content off n" using local_file.read_at_peek [OF Cons.prems(2), of n off] Cons.prems(1) q rd by simp
    moreover have "local_file.window_ok content r'" using local_file.read_at_content [OF Cons.prems(2), of off n] rd by simp
    ultimately show ?case using Cons q rd by simp
  qed simp
  then show ?thesis using local_file.window_new by blast
qed

text \<open>Witness of C21: a read beyond the end, and two overlapping ones.\<close>

theorem reads_are_slices_witness:
  "run_reads (file_source [1, 2, 3, 4]) [(3, 2), (0, 3), (1, 2)] reader_new = [Inl Shape, Inr [1, 2, 3], Inr [2, 3]]"
  using reads_are_slices [of "[(3, 2), (0, 3), (1, 2)]" "[1, 2, 3, 4]"] by (simp add: peek_def)

text \<open>C20. The header walk over a cluster collects exactly the blocks a full scan of the cluster collects, in
  the same order with the same times and durations, when the cluster lies in the file, the scan
  succeeds, and no block group holds two blocks. It reads a payload only when the peek cannot exclude it.
\<close>

theorem sparse_walk_full_scan:
  assumes "length content < 2 ^ 56 - 1" "start + n \<le> length content"
    and "list_all one_block_group (fst (children (take n (drop start content))))"
    and "scan_cluster (take n (drop start content)) wanted [] = (found, Inr u)"
  shows "snd (walk_cluster_sparse (file_source content) wanted (start + n) start 0 [] reader_new) = Inr found"
proof -
  obtain ts where "visit (trying (scan_child wanted)) (children (take n (drop start content))) (0, [])
      = ((ts, found), Inr u)"
    using assms(4) by (auto simp: scan_cluster_def walk_children_visit split: prod.splits)
  then show ?thesis
    using local_file.sparse_walk_scan [OF local_file.window_new assms(1), of "start + n" start wanted 0 "[]"] assms(2,3)
    by auto
qed

text \<open>Witness: a timestamp and a simple block of the wanted track.\<close>

definition sample_cluster :: "u8 list" where
  "sample_cluster = [0xE7, 0x81, 5, 0xA3, 0x86, 0x81, 0, 2, 0, 0x48, 0x69]"

theorem sparse_walk_full_scan_witness:
  "snd (walk_cluster_sparse (file_source sample_cluster) [1] 11 0 0 [] reader_new)
   = Inr [(5, \<lparr>sb_track = 1, sb_rel_time = 2, sb_payload = [0x48, 0x69], sb_duration = None\<rparr>)]"
proof -
  have "scan_cluster sample_cluster [1] []
      = ([(5, \<lparr>sb_track = 1, sb_rel_time = 2, sb_payload = [0x48, 0x69], sb_duration = None\<rparr>)], Inr ())"
    by code_simp
  moreover have "list_all one_block_group (fst (children sample_cluster))" by code_simp
  moreover have "length sample_cluster = 11" by (simp add: sample_cluster_def)
  ultimately show ?thesis using sparse_walk_full_scan [of sample_cluster 0 11 "[1]"] by simp
qed

text \<open>
  In a cluster cut off by the end of the file, a block of another track that overruns the end makes
  the header walk panic: it computes how much of the file is left from a position behind the end.
  The bound on the peek was there to end the walk.
\<close>

theorem truncated_cluster_panics:
  "snd (walk_cluster_sparse (file_source [0xA3, 0x90, 0x82, 0, 0, 0]) [1] 40 0 0 [] reader_new) = Inl Panicked"
proof -
  let ?content = "[0xA3, 0x90, 0x82, 0, 0, 0] :: u8 list"
  obtain r1 where r1: "read_at (file_source ?content) 0 6 reader_new = (r1, Inr ?content)"
    using local_file.read_here [OF local_file.window_new, of 0 6 ?content] by auto
  have "element_header ?content = Inr (SIMPLE_BLOCK, 2, Some 16)" by code_simp
  moreover have "block_track (drop 2 ?content) = Some 2" by code_simp
  then have "sparse_element (file_source ?content) [1] ?content SIMPLE_BLOCK 2 16 2 0 r1 = (r1, Inr (0, []))"
    by (simp add: sparse_element_def map_or_def CLUSTER_TIMESTAMP_def SIMPLE_BLOCK_def)
  moreover have size: "so_size (file_source ?content) = 6" by (simp add: file_source_def)
  ultimately have "walk_cluster_sparse (file_source ?content) [1] 40 0 0 [] reader_new
      = walk_cluster_sparse (file_source ?content) [1] 40 18 0 [] r1"
    using r1 by (subst walk_cluster_sparse.simps) (simp add: Let_def)
  moreover have "walk_cluster_sparse (file_source ?content) [1] 40 18 0 [] r1 = (r1, Inl Panicked)"
    using size by (subst walk_cluster_sparse.simps) simp
  ultimately show ?thesis by simp
qed

text \<open>A cue whose cluster position is the last bytes below \<open>2^64\<close> passes the check of its addition and
  panics in the read behind it: a crafted file stops the extraction with a panic instead of an error.
\<close>

theorem hostile_cue_panics:
  assumes "start + unat cluster_rel < 2 ^ 64" "2 ^ 64 \<le> start + unat cluster_rel + 64"
    and "\<not> so_stop src (rd_reads r)"
  shows "snd (exact_cues src start wanted ((time, cluster_rel, Some rel, track) # cues) Map.empty out r) = Inl Panicked"
proof -
  obtain r' where "read_at src (start + unat cluster_rel) 64 r = (r', Inl Panicked)"
    using read_at_panics [OF assms(2,3)] by (metis prod.collapse)
  then show ?thesis using assms(1) by (simp add: checked_add_def cluster_ts_def and_then_def)
qed

text \<open>Witness: the greatest position.\<close>

theorem hostile_cue_panics_witness:
  "snd (exact_cues (file_source []) 0 [1] [(0, - 1, Some 0, 1)] Map.empty [] reader_new) = Inl Panicked"
proof -
  have "unat (- 1 :: u64) = 2 ^ 64 - 1" by (simp add: unsigned_minus_1_eq_mask mask_eq_exp_minus_1)
  then show ?thesis using hostile_cue_panics [of 0 "- 1" "file_source []" reader_new]
    by (simp add: file_source_def)
qed

text \<open>A walk for an image track that is interrupted after its first read answers that the file has no
  such track, the answer of a finished walk that found none; only an interruption before the first
  read is an error.
\<close>

theorem interrupted_walk_is_none:
  assumes "take 4 content = [0x1A, 0x45, 0xDF, 0xA3]"
  shows "extract_image_track inflate ((file_source content)\<lparr>so_stop := \<lambda>c. 1 \<le> c\<rparr>) sub_index = Inr None
    \<and> extract_image_track inflate ((file_source content)\<lparr>so_stop := \<lambda>c. True\<rparr>) sub_index = Inl Io"
proof
  let ?src = "(file_source content)\<lparr>so_stop := \<lambda>c. 1 \<le> c\<rparr>"
  show "extract_image_track inflate ((file_source content)\<lparr>so_stop := \<lambda>c. True\<rparr>) sub_index = Inl Io"
    by (simp add: extract_image_track_def read_at_def Let_def)
  have "4 \<le> length content" using arg_cong [OF assms, of length] by simp
  then have "snd (read_at (file_source content) 0 4 reader_new) = Inr (take 4 content)"
    using local_file.read_at_peek [OF local_file.window_new, of 4 content 0] by (simp add: peek_def)
  then obtain r where r: "read_at ?src 0 4 reader_new = (r, Inr (take 4 content))" "rd_reads r = 1"
    using read_at_stop [of "\<lambda>c. 1 \<le> c" reader_new "file_source content" 0 4]
      read_at_reads [of "file_source content" 0 4 reader_new]
    by (cases "read_at (file_source content) 0 4 reader_new") (simp add: reader_new_def file_source_def)
  have "snd (read_at ?src 0 (min 32 (so_size ?src)) r) = Inl Io" using r(2) by (intro read_at_stopped) simp
  then have "snd (mkv_walk inflate ?src (Some sub_index) r) = Inl Io"
    by (auto simp: mkv_walk_def mkv_read_index_def and_then_def split: prod.splits sum.splits)
  then show "extract_image_track inflate ?src sub_index = Inr None"
    using r(1) assms by (simp add: extract_image_track_def)
qed

text \<open>Witness: a file that is nothing but its magic number.\<close>

theorem interrupted_walk_is_none_witness:
  "extract_image_track Some ((file_source [0x1A, 0x45, 0xDF, 0xA3])\<lparr>so_stop := \<lambda>c. 1 \<le> c\<rparr>) 0 = Inr None"
  using interrupted_walk_is_none [of "[0x1A, 0x45, 0xDF, 0xA3]" Some 0] by simp

end
