(* ===== verification/Mkv_Declare.thy ===== *)
theory Mkv_Declare
  imports Mkv_Index Media_Model
begin

text \<open>
  What a Matroska header declares, \<open>crates/kahawai-media/src/subindex.rs\<close>: chapters, attachments and the
  flags of the subtitle tracks, from one walk that follows SeekHeads, and \<open>dedup_chapters\<close> of
  \<open>crates/kahawai-media/src/lib.rs\<close>. An I/O error makes the walk fail, wrong bytes only cost what they
  hold.
\<close>

section \<open>Chapters\<close>

record AtomVars =
  at_start :: "nat option"
  at_end :: "nat option"
  at_title :: "string option"
  at_hidden :: bool
  at_enabled :: bool
  at_linked :: bool

definition chap_string :: "u32 \<Rightarrow> u8 list \<Rightarrow> string option \<Rightarrow> string option" where
  "chap_string eid s t = (if eid = CHAP_STRING then Some (trim (from_utf8_lossy s)) else t)"

definition atom_entry :: "u32 \<Rightarrow> u8 list \<Rightarrow> AtomVars \<Rightarrow> AtomVars \<times> (read_error + unit)" where
  "atom_entry eid v a =
     (if eid = CHAPTER_TIME_START then (a\<lparr>at_start := Some (unat (uint_of v) div 1000000)\<rparr>, Inr ())
      else if eid = CHAPTER_TIME_END then (a\<lparr>at_end := Some (unat (uint_of v) div 1000000)\<rparr>, Inr ())
      else if eid = CHAPTER_FLAG_HIDDEN then (a\<lparr>at_hidden := uint_of v = 1\<rparr>, Inr ())
      else if eid = CHAPTER_FLAG_ENABLED then (a\<lparr>at_enabled := uint_of v \<noteq> 0\<rparr>, Inr ())
      else if eid = CHAPTER_SEGMENT_UID then (a\<lparr>at_linked := True\<rparr>, Inr ())
      else if eid = CHAPTER_DISPLAY \<and> at_title a = None then
        (case walk_children (collecting chap_string) v None of (t, res) \<Rightarrow> (a\<lparr>at_title := t\<rparr>, res))
      else (a, Inr ()))"

definition atom_vars :: "u8 list \<Rightarrow> AtomVars \<times> (read_error + unit)" where
  "atom_vars atom =
     walk_children (trying atom_entry) atom
       \<lparr>at_start = None, at_end = None, at_title = None, at_hidden = False, at_enabled = True, at_linked = False\<rparr>"

definition atom_chapter :: "AtomVars \<Rightarrow> Chapter list" where
  "atom_chapter a =
     (case at_start a of
        None \<Rightarrow> []
      | Some s \<Rightarrow>
          if \<not> at_hidden a \<and> at_enabled a \<and> \<not> at_linked a
          then [\<lparr>start_ms = s, end_ms = at_end a, title = opt_filter (\<lambda>t. t \<noteq> []) (at_title a)\<rparr>]
          else [])"

text \<open>The recursion over nested atoms, for as many levels as are left of the 17 the code follows.\<close>

primrec collect_atoms :: "nat \<Rightarrow> u8 list \<Rightarrow> Chapter list \<Rightarrow> Chapter list \<times> (read_error + unit)" where
  "collect_atoms 0 data out = (out, Inr ())"
| "collect_atoms (Suc n) data out =
     walk_children (trying (\<lambda>eid atom out.
       if eid \<noteq> CHAPTER_ATOM then (out, Inr ())
       else (case atom_vars atom of
               (_, Inl e) \<Rightarrow> (out, Inl e)
             | (a, Inr _) \<Rightarrow>
                 if at_linked a then (out @ atom_chapter a, Inr ())
                 else collect_atoms n atom (out @ atom_chapter a)))) data out"

definition edition_flag :: "u32 \<Rightarrow> u8 list \<Rightarrow> bool \<times> bool \<Rightarrow> bool \<times> bool" where
  "edition_flag eid v s =
     (if eid = EDITION_FLAG_HIDDEN then (uint_of v = 1, snd s)
      else if eid = EDITION_FLAG_DEFAULT then (fst s, uint_of v = 1) else s)"

definition edition_visitor :: "u32 \<Rightarrow> u8 list \<Rightarrow> Chapter list \<times> bool \<Rightarrow> (Chapter list \<times> bool) \<times> (read_error + unit)" where
  "edition_visitor eid edition s =
     (case s of (out, out_is_default) \<Rightarrow>
        if eid \<noteq> EDITION_ENTRY \<or> out_is_default then (s, Inr ())
        else (case walk_children (collecting edition_flag) edition (False, False) of
                (_, Inl e) \<Rightarrow> (s, Inl e)
              | ((hidden, dflt), Inr _) \<Rightarrow>
                  if hidden \<or> (out \<noteq> [] \<and> \<not> dflt) then (s, Inr ())
                  else (case collect_atoms 17 edition [] of
                          (_, Inl e) \<Rightarrow> (s, Inl e)
                        | (found, Inr _) \<Rightarrow> (if found \<noteq> [] then (found, dflt) else s, Inr ()))))"

text \<open>\<open>dedup_by\<close> with the merge of a duplicate into the chapter that is kept.\<close>

definition merge_chapter :: "Chapter \<Rightarrow> Chapter \<Rightarrow> Chapter option" where
  "merge_chapter kept next =
     (if start_ms next \<noteq> start_ms kept then None
      else if title kept = None then Some (next\<lparr>end_ms := opt_or (end_ms next) (end_ms kept)\<rparr>)
      else if title next \<noteq> None \<and> title next \<noteq> title kept then None
      else Some (kept\<lparr>end_ms := opt_or (end_ms kept) (end_ms next)\<rparr>))"

fun dedup_from :: "Chapter \<Rightarrow> Chapter list \<Rightarrow> Chapter list" where
  "dedup_from kept [] = [kept]"
| "dedup_from kept (c # cs) =
     (case merge_chapter kept c of
        None \<Rightarrow> kept # dedup_from c cs
      | Some k \<Rightarrow> dedup_from k cs)"

definition dedup_chapters :: "Chapter list \<Rightarrow> Chapter list" where
  "dedup_chapters cs = (case cs of [] \<Rightarrow> [] | c # cs \<Rightarrow> dedup_from c cs)"

definition read_chapters :: "u8 list \<Rightarrow> read_error + Chapter list" where
  "read_chapters data =
     (case walk_children (trying edition_visitor) data ([], False) of
        (_, Inl e) \<Rightarrow> Inl e
      | ((out, _), Inr _) \<Rightarrow> Inr (dedup_chapters (sort_key start_ms out)))"

section \<open>Subtitle tracks\<close>

record DeclaredSubtitle =
  ds_name :: "string option"
  ds_forced :: bool
  ds_hearing_impaired :: bool
  ds_commentary :: bool

definition trim_nuls :: "string \<Rightarrow> string" where
  "trim_nuls s = rev (dropWhile (\<lambda>c. c = CHR 0x00) (rev s))"

definition subtitle_entry :: "u32 \<Rightarrow> u8 list \<Rightarrow> u64 \<times> DeclaredSubtitle \<Rightarrow> u64 \<times> DeclaredSubtitle" where
  "subtitle_entry eid v s =
     (case s of (ttype, track) \<Rightarrow>
        if eid = TRACK_TYPE then (uint_of v, track)
        else if eid = TRACK_NAME then
          (let name = trim (trim_nuls (from_utf8_lossy v)) in
           (ttype, track\<lparr>ds_name := then_some (name \<noteq> []) name\<rparr>))
        else if eid = FLAG_FORCED then (ttype, track\<lparr>ds_forced := uint_of v \<noteq> 0\<rparr>)
        else if eid = FLAG_HEARING_IMPAIRED \<or> eid = FLAG_TEXT_DESCRIPTIONS then
          (ttype, track\<lparr>ds_hearing_impaired := ds_hearing_impaired track \<or> uint_of v \<noteq> 0\<rparr>)
        else if eid = FLAG_COMMENTARY then (ttype, track\<lparr>ds_commentary := uint_of v \<noteq> 0\<rparr>)
        else s)"

definition subtitle_visitor :: "u32 \<Rightarrow> u8 list \<Rightarrow> DeclaredSubtitle list \<Rightarrow> DeclaredSubtitle list \<times> (read_error + unit)" where
  "subtitle_visitor eid entry out =
     (if eid \<noteq> TRACK_ENTRY then (out, Inr ())
      else (case walk_children (collecting subtitle_entry) entry
                   (0, \<lparr>ds_name = None, ds_forced = False, ds_hearing_impaired = False, ds_commentary = False\<rparr>) of
              (_, Inl e) \<Rightarrow> (out, Inl e)
            | ((ttype, track), Inr _) \<Rightarrow> (if ttype = 0x11 then out @ [track] else out, Inr ())))"

definition read_subtitle_tracks :: "u8 list \<Rightarrow> read_error + DeclaredSubtitle list" where
  "read_subtitle_tracks data =
     (case walk_children (trying subtitle_visitor) data [] of
        (_, Inl e) \<Rightarrow> Inl e | (out, Inr _) \<Rightarrow> Inr out)"

section \<open>Attachments\<close>

record FileVars =
  fv_name :: string
  fv_mime :: string
  fv_off :: nat
  fv_len :: nat

text \<open>A child header read in place; an unknown size is an error.\<close>

definition sized_header :: "Source \<Rightarrow> nat \<Rightarrow> Reader \<Rightarrow> Reader \<times> (read_error + u32 \<times> nat \<times> nat)" where
  "sized_header src pos r =
     and_then (read_at src pos 16 r) (\<lambda>r head.
       case element_header head of
         Inl e \<Rightarrow> (r, Inl e)
       | Inr (_, _, None) \<Rightarrow> (r, Inl Shape)
       | Inr (eid, hl, Some sz) \<Rightarrow> (r, Inr (eid, pos + hl, unat sz)))"

definition attached_child :: "Source \<Rightarrow> u32 \<Rightarrow> nat \<Rightarrow> nat \<Rightarrow> FileVars \<Rightarrow> Reader \<Rightarrow> Reader \<times> (read_error + FileVars)" where
  "attached_child src eid body sz fv r =
     (if eid = FILE_NAME \<and> sz \<le> MAX_HEADER_ELEMENT then
        and_then (read_at src body sz r) (\<lambda>r v. (r, Inr (fv\<lparr>fv_name := from_utf8_lossy v\<rparr>)))
      else if eid = FILE_MIME \<and> sz \<le> MAX_HEADER_ELEMENT then
        and_then (read_at src body sz r) (\<lambda>r v. (r, Inr (fv\<lparr>fv_mime := from_utf8_lossy v\<rparr>)))
      else if eid = FILE_DATA then (r, Inr (fv\<lparr>fv_off := body, fv_len := sz\<rparr>))
      else (r, Inr fv))"

lemma sized_header_pos: "sized_header src pos r = (r', Inr (eid, body, sz)) \<Longrightarrow> pos < body"
  by (auto simp: sized_header_def and_then_def dest: element_header_pos
      split: prod.splits sum.splits option.splits)

function attached_children :: "Source \<Rightarrow> nat \<Rightarrow> nat \<Rightarrow> FileVars \<Rightarrow> Reader \<Rightarrow> Reader \<times> (read_error + FileVars)" where
  "attached_children src stop pos fv r =
     (if stop \<le> pos then (r, Inr fv)
      else (case sized_header src pos r of
              (r, Inl e) \<Rightarrow> (r, Inl e)
            | (r, Inr (eid, body, sz)) \<Rightarrow>
                (case attached_child src eid body sz fv r of
                   (r, Inl e) \<Rightarrow> (r, Inl e)
                 | (r, Inr fv) \<Rightarrow> attached_children src stop (body + sz) fv r)))"
  by auto
termination
  by (relation "measure (\<lambda>(src, stop, pos, fv, r). stop - pos)") (auto dest!: sized_header_pos [OF sym])

declare attached_children.simps [simp del]

definition file_attachment :: "FileVars \<Rightarrow> Attachment list" where
  "file_attachment fv =
     (if 0 < fv_len fv
      then [\<lparr>file_name = fv_name fv, mime_type = fv_mime fv, att_offset = fv_off fv, att_size = fv_len fv\<rparr>]
      else [])"

function attached_files :: "Source \<Rightarrow> nat \<Rightarrow> nat \<Rightarrow> Attachment list \<Rightarrow> Reader \<Rightarrow> Reader \<times> (read_error + Attachment list)" where
  "attached_files src stop pos out r =
     (if stop \<le> pos then (r, Inr out)
      else (case sized_header src pos r of
              (r, Inl e) \<Rightarrow> (r, Inl e)
            | (r, Inr (eid, body, sz)) \<Rightarrow>
                (case (if eid = ATTACHED_FILE
                       then and_then (attached_children src (body + sz) body
                              \<lparr>fv_name = [], fv_mime = [], fv_off = 0, fv_len = 0\<rparr> r)
                              (\<lambda>r fv. (r, Inr (out @ file_attachment fv)))
                       else (r, Inr out)) of
                   (r, Inl e) \<Rightarrow> (r, Inl e)
                 | (r, Inr out) \<Rightarrow> attached_files src stop (body + sz) out r)))"
  by auto
termination
  by (relation "measure (\<lambda>(src, stop, pos, out, r). stop - pos)") (auto dest!: sized_header_pos [OF sym])

declare attached_files.simps [simp del]

definition read_attached_files :: "Source \<Rightarrow> nat \<Rightarrow> nat \<Rightarrow> Reader \<Rightarrow> Reader \<times> (read_error + Attachment list)" where
  "read_attached_files src body sz r = attached_files src (body + sz) body [] r"

section \<open>The walk\<close>

record Found =
  fo_attachments :: "Attachment list option"
  fo_chapters :: "Chapter list option"
  fo_subtitles :: "DeclaredSubtitle list option"
  fo_pending :: "nat list"
  fo_saw_seekhead :: bool

text \<open>Weather fails, shape settles: what is unreadable by shape is not there.\<close>

definition settle :: "'r \<times> (read_error + 'a) \<Rightarrow> 'r \<times> (read_error + 'a option)" where
  "settle m =
     (case m of
        (r, Inl e) \<Rightarrow> (r, if e = Shape then Inr None else Inl e)
      | (r, Inr v) \<Rightarrow> (r, Inr (Some v)))"

definition inr_or :: "'a \<Rightarrow> read_error + 'a \<Rightarrow> 'a" where
  "inr_or d x = (case x of Inl _ \<Rightarrow> d | Inr v \<Rightarrow> v)"

fun take_pending :: "nat \<Rightarrow> nat list \<Rightarrow> nat list \<Rightarrow> nat list \<times> nat option" where
  "take_pending stop [] visited = (visited, None)"
| "take_pending stop (p # ps) visited =
     (if stop \<le> p then take_pending stop ps (p # visited)
      else if p \<notin> set visited then (visited, Some p)
      else take_pending stop ps visited)"

definition declare_element :: "Source \<Rightarrow> nat \<Rightarrow> u32 \<Rightarrow> nat \<Rightarrow> nat \<Rightarrow> Found \<Rightarrow> Reader \<Rightarrow> Reader \<times> (read_error + Found)" where
  "declare_element src segment_start eid body sz st r =
     (if eid = SEEK_HEAD then
        (if MAX_HEADER_ELEMENT < sz then (r, Inr st)
         else and_then (settle (read_at src body sz r)) (\<lambda>r data.
           case data of
             None \<Rightarrow> (r, Inr st)
           | Some data \<Rightarrow>
               (case read_seek_head [ATTACHMENTS, CHAPTERS, TRACKS, SEEK_HEAD] segment_start data (fo_pending st) of
                  (pending, Inl e) \<Rightarrow> (r, Inr (st\<lparr>fo_pending := pending\<rparr>))
                | (pending, Inr _) \<Rightarrow> (r, Inr (st\<lparr>fo_pending := pending, fo_saw_seekhead := True\<rparr>)))))
      else if eid = ATTACHMENTS \<and> fo_attachments st = None then
        and_then (settle (read_attached_files src body sz r)) (\<lambda>r found.
          (r, Inr (st\<lparr>fo_attachments := Some (unwrap_or found [])\<rparr>)))
      else if eid = CHAPTERS \<and> fo_chapters st = None then
        (if sz \<le> MAX_HEADER_ELEMENT then
           and_then (settle (read_at src body sz r)) (\<lambda>r data.
             (r, Inr (st\<lparr>fo_chapters := Some (map_or data [] (\<lambda>d. inr_or [] (read_chapters d)))\<rparr>)))
         else (r, Inr (st\<lparr>fo_chapters := Some []\<rparr>)))
      else if eid = TRACKS \<and> fo_subtitles st = None \<and> sz \<le> MAX_HEADER_ELEMENT then
        and_then (settle (read_at src body sz r)) (\<lambda>r data.
          (r, Inr (case Option.bind data (\<lambda>d. case read_subtitle_tracks d of Inl e \<Rightarrow> None | Inr found \<Rightarrow> Some found) of
                     None \<Rightarrow> st | Some found \<Rightarrow> st\<lparr>fo_subtitles := Some found\<rparr>)))
      else (r, Inr st))"

definition all_found :: "Found \<Rightarrow> bool" where
  "all_found st \<longleftrightarrow> fo_attachments st \<noteq> None \<and> fo_chapters st \<noteq> None \<and> fo_subtitles st \<noteq> None"

lemma take_pending_Some:
  "take_pending stop ps visited = (v, Some n) \<Longrightarrow>
     n < stop \<and> n \<notin> set v \<and> {0..<stop} - set v = {0..<stop} - set visited"
  by (induction ps arbitrary: visited) (auto split: if_splits)

lemma take_pending_visited:
  "take_pending stop ps visited = (v, x) \<Longrightarrow> {0..<stop} - set v = {0..<stop} - set visited"
  by (induction ps arbitrary: visited) (auto split: if_splits)

text \<open>Where to go after an element: a promised position, onward, or nowhere.\<close>

definition declare_next :: "nat \<Rightarrow> u32 \<Rightarrow> Found \<Rightarrow> nat list \<Rightarrow> nat \<Rightarrow> nat list \<times> nat option" where
  "declare_next stop eid st visited onward =
     (let go = (if all_found st then None else Some onward) in
      if eid = CLUSTER then
        (case take_pending stop (fo_pending st) visited of
           (v, Some n) \<Rightarrow> (v, Some n)
         | (v, None) \<Rightarrow> (v, if fo_saw_seekhead st then None else go))
      else (visited, go))"

lemma declare_next_visited:
  "declare_next stop eid st visited onward = (v, x) \<Longrightarrow> {0..<stop} - set v = {0..<stop} - set visited"
  by (auto simp: declare_next_def Let_def dest: take_pending_visited split: if_splits prod.splits option.splits)

lemma visited_grows:
  "{0..<stop} - set v = {0..<stop} - set (pos # visited) \<Longrightarrow> pos < stop \<Longrightarrow> pos \<notin> set visited \<Longrightarrow>
     card ({0..<stop :: nat} - set v) < card ({0..<stop} - set visited)"
  using unvisited_less [of pos stop visited] by simp

lemma pending_grows:
  assumes "\<not> (stop \<le> pos \<or> pos \<in> set visited)" "(v, x) = take_pending stop ps (pos # visited)"
  shows "card ({0..<stop} - set v) < card ({0..<stop} - set visited)"
  by (rule visited_grows [OF take_pending_visited [OF assms(2) [symmetric]]]) (use assms(1) in simp_all)

lemma pending_same:
  assumes "(v, Some n) = take_pending stop ps visited"
  shows "card ({0..<stop} - set v) = card ({0..<stop} - set visited)" "\<not> (stop \<le> n \<or> n \<in> set v)"
  using take_pending_Some [OF assms [symmetric]] by simp_all

lemma next_grows:
  assumes "\<not> (stop \<le> pos \<or> pos \<in> set visited)" "(v, x) = declare_next stop eid st (pos # visited) onward"
  shows "card ({0..<stop} - set v) < card ({0..<stop} - set visited)"
  by (rule visited_grows [OF declare_next_visited [OF assms(2) [symmetric]]]) (use assms(1) in simp_all)

function declare_loop :: "Source \<Rightarrow> nat \<Rightarrow> nat \<Rightarrow> Found \<Rightarrow> nat list \<Rightarrow> nat \<Rightarrow> Reader \<Rightarrow> Reader \<times> (read_error + Found)" where
  "declare_loop src segment_start stop st visited pos r =
     (if stop \<le> pos \<or> pos \<in> set visited then
        (case take_pending stop (fo_pending st) visited of
           (v, Some n) \<Rightarrow> declare_loop src segment_start stop st v n r
         | (v, None) \<Rightarrow> (r, Inr st))
      else (case settle (sized_header src pos r) of
              (r, Inl e) \<Rightarrow> (r, Inl e)
            | (r, Inr None) \<Rightarrow>
                (case take_pending stop (fo_pending st) (pos # visited) of
                   (v, Some n) \<Rightarrow> declare_loop src segment_start stop st v n r
                 | (v, None) \<Rightarrow> (r, Inr st))
            | (r, Inr (Some (eid, body, sz))) \<Rightarrow>
                (case declare_element src segment_start eid body sz st r of
                   (r, Inl e) \<Rightarrow> (r, Inl e)
                 | (r, Inr st) \<Rightarrow>
                     (case declare_next stop eid st (pos # visited) (body + sz) of
                        (v, Some n) \<Rightarrow> declare_loop src segment_start stop st v n r
                      | (v, None) \<Rightarrow> (r, Inr st)))))"
  by auto
termination
proof (relation "measures [\<lambda>(src, segment_start, stop, st, visited, pos, r). card ({0..<stop} - set visited),
    \<lambda>(src, segment_start, stop, st, visited, pos, r). if stop \<le> pos \<or> pos \<in> set visited then 1 else 0]", goal_cases)
  case (2 src segment_start stop st visited pos r)
  then show ?case using pending_same [of _ _ stop] by (auto simp del: not_le)
next
  case (3 src segment_start stop st visited pos r)
  then show ?case using pending_grows [of stop pos visited] by (simp only: in_measures prod.case) blast
next
  case (4 src segment_start stop st visited pos r)
  note go = this
  have "card ({0..<stop} - set v) < card ({0..<stop} - set visited)"
    if "(v, x) = declare_next stop eid s (pos # visited) onward" for v x eid s onward
    using next_grows [OF go(1) that] .
  with go(7-) show ?case by (simp only: in_measures prod.case) blast
qed simp

declare declare_loop.simps [simp del]

text \<open>Where the Segment's body is, or that this is no Matroska file.\<close>

definition segment_span :: "Source \<Rightarrow> Reader \<Rightarrow> Reader \<times> (read_error + (nat \<times> nat) option)" where
  "segment_span src r =
     and_then (read_at src 0 (min 32 (so_size src)) r) (\<lambda>r head.
       case ebml_id head of
         Inl e \<Rightarrow> (r, Inr None)
       | Inr (eid, il) \<Rightarrow>
           if eid \<noteq> EBML_HEADER then (r, Inr None)
           else and_then (segment_after src head il r) (\<lambda>r span. (r, Inr (Some span))))"

record Declaration =
  dc_attachments :: "Attachment list"
  dc_chapters :: "Chapter list"
  dc_subtitles :: "DeclaredSubtitle list option"

definition no_declaration :: Declaration where
  "no_declaration = \<lparr>dc_attachments = [], dc_chapters = [], dc_subtitles = None\<rparr>"

definition declaration_of :: "Found \<Rightarrow> Declaration" where
  "declaration_of st =
     \<lparr>dc_attachments = unwrap_or (fo_attachments st) [], dc_chapters = unwrap_or (fo_chapters st) [],
      dc_subtitles = fo_subtitles st\<rparr>"

definition found_nothing :: Found where
  "found_nothing =
     \<lparr>fo_attachments = None, fo_chapters = None, fo_subtitles = None, fo_pending = [], fo_saw_seekhead = False\<rparr>"

definition declare_walk :: "Source \<Rightarrow> Reader \<times> (read_error + Declaration)" where
  "declare_walk src =
     and_then (settle (segment_span src reader_new)) (\<lambda>r span.
       case Option.bind span id of
         None \<Rightarrow> (r, Inr no_declaration)
       | Some (start, stop) \<Rightarrow>
           and_then (declare_loop src start (min stop (so_size src)) found_nothing [] start r)
             (\<lambda>r st. (r, Inr (declaration_of st))))"

definition declare_container :: "Source \<Rightarrow> read_error + (Attachment list \<times> Chapter list)" where
  "declare_container src =
     (case snd (declare_walk src) of
        Inl e \<Rightarrow> Inl e | Inr d \<Rightarrow> Inr (dc_attachments d, dc_chapters d))"

end
