(* ===== verification/Mkv_Declare_Props.thy ===== *)
theory Mkv_Declare_Props
  imports Mkv_Declare
begin

text \<open>
  What the declaration walk promises: it settles on any content, and the chapters it gives are in order
  and told apart.
\<close>

section \<open>How the walk fails\<close>

definition calm :: "Source \<Rightarrow> bool" where
  "calm src \<longleftrightarrow> (\<forall>c. \<not> so_stop src c) \<and> (\<forall>c off n. so_read src c off n \<noteq> None)"

text \<open>A failure that is allowed: of the bytes, or of a source that does fail.\<close>

definition mild :: "Source \<Rightarrow> 'r \<times> (read_error + 'a) \<Rightarrow> bool" where
  "mild src m \<longleftrightarrow> (case snd m of Inl e \<Rightarrow> e = Shape \<or> e = Io \<and> \<not> calm src | Inr _ \<Rightarrow> True)"

lemma fill_mild: "mild src (fill src off want buf calls)"
proof (induction src off want buf calls rule: fill.induct)
  case (1 src off want buf calls)
  then show ?case
    by (subst fill.simps) (fastforce simp: mild_def calm_def split: option.splits)
qed

lemma refill_mild: "mild src (refill src off n r)"
  using fill_mild [of src off "read_want src off n r" "[]" "rd_calls r"]
  by (auto simp: refill_def mild_def Let_def split: prod.splits sum.splits)

lemma read_at_mild: "off + n < 2 ^ 64 \<Longrightarrow> mild src (read_at src off n r)"
proof (cases rule: read_at_cases [of src r off n])
  case (failed r' e)
  then show ?thesis using refill_mild [of src off n "r\<lparr>rd_reads := Suc (rd_reads r)\<rparr>"] by (simp add: mild_def)
qed (auto simp: mild_def calm_def)

lemma mild_Inr [simp]: "mild src (r, Inr v)"
  by (simp add: mild_def)

lemma mild_Shape [simp]: "mild src (r, Inl Shape)"
  by (simp add: mild_def)

lemma mild_and_then:
  "mild src m \<Longrightarrow> (\<And>r v. m = (r, Inr v) \<Longrightarrow> mild src (f r v)) \<Longrightarrow> mild src (and_then m f)"
  by (auto simp: and_then_def mild_def split: prod.splits sum.splits)

text \<open>What can fail mildly fails with an I/O error only once it is settled.\<close>

definition weather :: "Source \<Rightarrow> 'r \<times> (read_error + 'a) \<Rightarrow> bool" where
  "weather src m \<longleftrightarrow> (case snd m of Inl e \<Rightarrow> e = Io \<and> \<not> calm src | Inr _ \<Rightarrow> True)"

lemma weather_Inr [simp]: "weather src (r, Inr v)"
  by (simp add: weather_def)

lemma weather_settle: "mild src m \<Longrightarrow> weather src (settle m)"
  by (auto simp: settle_def weather_def mild_def split: prod.splits sum.splits)

lemma weather_and_then:
  "weather src m \<Longrightarrow> (\<And>r v. m = (r, Inr v) \<Longrightarrow> weather src (f r v)) \<Longrightarrow> weather src (and_then m f)"
  by (auto simp: and_then_def weather_def split: prod.splits sum.splits)

section \<open>Header sizes\<close>

lemma ebml_id_error: "ebml_id buf = Inl e \<Longrightarrow> e = Shape"
  by (auto simp: ebml_id_def Let_def split: list.splits if_splits)

lemma ebml_size_error: "ebml_size buf = Inl e \<Longrightarrow> e = Shape"
  by (auto simp: ebml_size_def Let_def split: list.splits if_splits)

lemma element_header_error: "element_header buf = Inl e \<Longrightarrow> e = Shape"
  by (auto simp: element_header_def dest: ebml_id_error ebml_size_error split: sum.splits prod.splits)

lemma mild_header:
  "ebml_id buf = Inl e \<Longrightarrow> mild src (r, Inl e)" "ebml_size buf = Inl e \<Longrightarrow> mild src (r, Inl e)"
  "element_header buf = Inl e \<Longrightarrow> mild src (r, Inl e)"
  using ebml_id_error ebml_size_error element_header_error by fastforce+

text \<open>A header is at most twelve bytes, and a declared size is less than \<open>2^56\<close>.\<close>

lemma vint_value_less:
  assumes "0 < len" "len \<le> 8" "len \<le> length buf"
  shows "unat (vint_value len buf) < 2 ^ 56"
proof -
  define bs where "bs = take (len - 1) (tl buf)"
  define acc :: u64 where "acc = ucast (hd buf AND vint_mask len)"
  have len: "length bs = len - 1" using assms by (simp add: bs_def)
  have "unat (hd buf AND vint_mask len) < 256" using unsigned_less [of "hd buf AND vint_mask len"] by simp
  then have "unat (hd buf AND vint_mask len) mod 18446744073709551616 < 256"
    by (rule le_less_trans [OF mod_less_eq_dividend])
  then have acc: "unat acc < 2 ^ 8" by (simp add: acc_def unsigned_ucast_eq take_bit_eq_mod)
  have val: "unat (vint_value len buf) = unat acc * 256 ^ length bs + be_val bs" if "len \<le> 7 \<or> unat acc = 0"
  proof (cases "len \<le> 7")
    case True
    then show ?thesis unfolding vint_value_def acc_def [symmetric] bs_def [symmetric]
      by (intro foldl_push_byte [OF acc]) (simp_all add: len)
  next
    case False
    then have "unat acc < 2 ^ 0" using that by simp
    then show ?thesis unfolding vint_value_def acc_def [symmetric] bs_def [symmetric]
      by (rule foldl_push_byte) (use len assms(2) in simp_all)
  qed
  have pow: "(256::nat) ^ k \<le> 256 ^ m" if "k \<le> m" for k m using that by (intro power_increasing) auto
  show ?thesis
  proof (cases "len \<le> 7")
    case True
    have "unat acc * 256 ^ length bs + be_val bs < (unat acc + 1) * 256 ^ length bs"
      using be_val_bound [of bs] by simp
    also have "\<dots> \<le> 2 ^ 8 * 256 ^ 6"
      using acc pow [of "length bs" 6] True len by (intro mult_le_mono) auto
    finally show ?thesis using val True by simp
  next
    case False
    then have "acc = 0" using assms(2) by (simp add: acc_def vint_mask_def)
    moreover have "(256::nat) ^ length bs \<le> 256 ^ 7" using len assms(2) by (intro pow) simp
    ultimately show ?thesis using val be_val_bound [of bs] by simp
  qed
qed

lemma ebml_size_less: "ebml_size buf = Inr (Some sz, n) \<Longrightarrow> unat sz < 2 ^ 56 \<and> n \<le> 8"
  using vint_value_less [of n buf]
  by (auto simp: ebml_size_def Let_def then_some_def split: list.splits if_splits)

lemma ebml_size_width: "ebml_size buf = Inr (s, n) \<Longrightarrow> n \<le> 8"
  by (auto simp: ebml_size_def Let_def split: list.splits if_splits)

lemma ebml_id_width: "ebml_id buf = Inr (i, n) \<Longrightarrow> n \<le> 4"
  by (auto simp: ebml_id_def Let_def split: list.splits if_splits)

lemma element_header_less:
  "element_header head = Inr (eid, hl, s) \<Longrightarrow> hl \<le> 12 \<and> (case s of None \<Rightarrow> True | Some sz \<Rightarrow> unat sz < 2 ^ 56)"
  by (fastforce simp: element_header_def dest: ebml_id_width ebml_size_width ebml_size_less
      split: sum.splits prod.splits option.splits)

lemma sized_header_less:
  "sized_header src pos r = (r', Inr (eid, body, sz)) \<Longrightarrow> body \<le> pos + 12 \<and> sz < 2 ^ 56"
  by (auto simp: sized_header_def and_then_def dest: element_header_less
      split: prod.splits sum.splits option.splits)

lemma sized_header_mild: "pos + 16 < 2 ^ 64 \<Longrightarrow> mild src (sized_header src pos r)"
  unfolding sized_header_def
  by (intro mild_and_then read_at_mild) (auto dest: element_header_error split: sum.splits option.splits)

section \<open>Attachments\<close>

lemma MAX_HEADER_less: "sz \<le> MAX_HEADER_ELEMENT \<Longrightarrow> sz < 2 ^ 23"
  by (simp add: MAX_HEADER_ELEMENT_def)

lemma attached_child_mild: "body < 2 ^ 63 + 12 \<Longrightarrow> mild src (attached_child src eid body sz fv r)"
  unfolding attached_child_def
  by (auto intro!: mild_and_then read_at_mild dest: MAX_HEADER_less)

lemma mild_case:
  "mild src m \<Longrightarrow> (\<And>r v. m = (r, Inr v) \<Longrightarrow> mild src (f r v)) \<Longrightarrow>
     mild src (case m of (r, Inl e) \<Rightarrow> (r, Inl e) | (r, Inr v) \<Rightarrow> f r v)"
  using mild_and_then [of src m f] by (simp add: and_then_def)

lemma attached_children_mild: "stop \<le> 2 ^ 63 \<Longrightarrow> mild src (attached_children src stop pos fv r)"
proof (induction src stop pos fv r rule: attached_children.induct)
  case (1 src stop pos fv r)
  show ?case
  proof (cases "stop \<le> pos")
    case True
    then show ?thesis by (subst attached_children.simps) simp
  next
    case False
    have "mild src (case sized_header src pos r of (r, Inl e) \<Rightarrow> (r, Inl e)
        | (r, Inr (eid, body, sz)) \<Rightarrow>
            (case attached_child src eid body sz fv r of
               (r, Inl e) \<Rightarrow> (r, Inl e)
             | (r, Inr fv) \<Rightarrow> attached_children src stop (body + sz) fv r))"
    proof (rule mild_case)
      show "mild src (sized_header src pos r)" using False 1 by (intro sized_header_mild) simp
    next
      fix r' v assume step: "sized_header src pos r = (r', Inr v)"
      obtain eid body sz where v: "v = (eid, body, sz)" by (cases v)
      have "body < 2 ^ 63 + 12" using sized_header_less [OF step [unfolded v]] False 1 by linarith
      then have "mild src (case attached_child src eid body sz fv r' of
               (r, Inl e) \<Rightarrow> (r, Inl e)
             | (r, Inr fv) \<Rightarrow> attached_children src stop (body + sz) fv r)"
        by (intro mild_case attached_child_mild) (use 1 False step v in auto)
      then show "mild src (case v of (eid, body, sz) \<Rightarrow>
            (case attached_child src eid body sz fv r' of
               (r, Inl e) \<Rightarrow> (r, Inl e)
             | (r, Inr fv) \<Rightarrow> attached_children src stop (body + sz) fv r))"
        by (simp add: v)
    qed
    then show ?thesis using False by (subst attached_children.simps) simp
  qed
qed

lemma attached_files_mild: "stop \<le> 2 ^ 62 + 2 ^ 58 \<Longrightarrow> mild src (attached_files src stop pos out r)"
proof (induction src stop pos out r rule: attached_files.induct)
  case (1 src stop pos out r)
  let ?child = "\<lambda>eid body sz r. if eid = ATTACHED_FILE
      then and_then (attached_children src (body + sz) body \<lparr>fv_name = [], fv_mime = [], fv_off = 0, fv_len = 0\<rparr> r)
             (\<lambda>r fv. (r, Inr (out @ file_attachment fv)))
      else (r, Inr out)"
  show ?case
  proof (cases "stop \<le> pos")
    case True
    then show ?thesis by (subst attached_files.simps) simp
  next
    case False
    have "mild src (case sized_header src pos r of (r, Inl e) \<Rightarrow> (r, Inl e)
        | (r, Inr (eid, body, sz)) \<Rightarrow>
            (case ?child eid body sz r of
               (r, Inl e) \<Rightarrow> (r, Inl e)
             | (r, Inr out) \<Rightarrow> attached_files src stop (body + sz) out r))"
    proof (rule mild_case)
      show "mild src (sized_header src pos r)" using False 1 by (intro sized_header_mild) simp
    next
      fix r' v assume step: "sized_header src pos r = (r', Inr v)"
      obtain eid body sz where v: "v = (eid, body, sz)" by (cases v)
      have "body + sz \<le> 2 ^ 63" using sized_header_less [OF step [unfolded v]] False 1(2) by simp
      then have "mild src (?child eid body sz r')"
        by (auto intro!: mild_and_then attached_children_mild)
      then have "mild src (case ?child eid body sz r' of
               (r, Inl e) \<Rightarrow> (r, Inl e)
             | (r, Inr out) \<Rightarrow> attached_files src stop (body + sz) out r)"
        by (intro mild_case 1) (use 1 False step v in auto)
      then show "mild src (case v of (eid, body, sz) \<Rightarrow>
            (case ?child eid body sz r' of
               (r, Inl e) \<Rightarrow> (r, Inl e)
             | (r, Inr out) \<Rightarrow> attached_files src stop (body + sz) out r))"
        by (simp add: v)
    qed
    then show ?thesis using False by (subst attached_files.simps) simp
  qed
qed

section \<open>The walk\<close>

lemma declare_element_weather:
  assumes "body \<le> 2 ^ 62 + 12" "sz < 2 ^ 56"
  shows "weather src (declare_element src segment_start eid body sz st r)"
proof -
  have read: "mild src (read_at src body sz r)" if "sz \<le> MAX_HEADER_ELEMENT"
    using MAX_HEADER_less [OF that] assms by (intro read_at_mild) simp
  have files: "mild src (read_attached_files src body sz r)"
    unfolding read_attached_files_def using assms by (intro attached_files_mild) simp
  show ?thesis
    unfolding declare_element_def
    by (auto intro!: weather_and_then weather_settle read files split: option.splits prod.splits sum.splits)
qed

lemma weather_case:
  "weather src m \<Longrightarrow> (\<And>r v. m = (r, Inr v) \<Longrightarrow> weather src (f r v)) \<Longrightarrow>
     weather src (case m of (r, Inl e) \<Rightarrow> (r, Inl e) | (r, Inr v) \<Rightarrow> f r v)"
  using weather_and_then [of src m f] by (simp add: and_then_def)

lemma settle_Some: "settle m = (r, Inr (Some v)) \<Longrightarrow> m = (r, Inr v)"
  by (auto simp: settle_def split: prod.splits sum.splits if_splits)

lemma declare_loop_weather:
  "stop \<le> 2 ^ 62 \<Longrightarrow> weather src (declare_loop src segment_start stop st visited pos r)"
proof (induction src segment_start stop st visited pos r rule: declare_loop.induct)
  case (1 src segment_start stop st visited pos r)
  show ?case
  proof (cases "stop \<le> pos \<or> pos \<in> set visited")
    case True
    then show ?thesis using 1
      by (subst declare_loop.simps) (auto split: prod.splits option.splits)
  next
    case False
    have "weather src (case settle (sized_header src pos r) of
              (r, Inl e) \<Rightarrow> (r, Inl e)
            | (r, Inr v) \<Rightarrow> (case v of None \<Rightarrow>
                (case take_pending stop (fo_pending st) (pos # visited) of
                   (v, Some n) \<Rightarrow> declare_loop src segment_start stop st v n r
                 | (v, None) \<Rightarrow> (r, Inr st))
            | Some (eid, body, sz) \<Rightarrow>
                (case declare_element src segment_start eid body sz st r of
                   (r, Inl e) \<Rightarrow> (r, Inl e)
                 | (r, Inr st) \<Rightarrow>
                     (case declare_next stop eid st (pos # visited) (body + sz) of
                        (v, Some n) \<Rightarrow> declare_loop src segment_start stop st v n r
                      | (v, None) \<Rightarrow> (r, Inr st)))))" (is "weather src ?walk")
    proof (rule weather_case)
      show "weather src (settle (sized_header src pos r))"
        using False 1 by (intro weather_settle sized_header_mild) simp
    next
      fix r' v assume step: "settle (sized_header src pos r) = (r', Inr v)"
      show "weather src (case v of None \<Rightarrow>
                (case take_pending stop (fo_pending st) (pos # visited) of
                   (v, Some n) \<Rightarrow> declare_loop src segment_start stop st v n r'
                 | (v, None) \<Rightarrow> (r', Inr st))
            | Some (eid, body, sz) \<Rightarrow>
                (case declare_element src segment_start eid body sz st r' of
                   (r, Inl e) \<Rightarrow> (r, Inl e)
                 | (r, Inr st) \<Rightarrow>
                     (case declare_next stop eid st (pos # visited) (body + sz) of
                        (v, Some n) \<Rightarrow> declare_loop src segment_start stop st v n r
                      | (v, None) \<Rightarrow> (r, Inr st))))"
      proof (cases v)
        case None
        then show ?thesis using 1 False step by (auto split: prod.splits option.splits)
      next
        case (Some h)
        obtain eid body sz where h: "h = (eid, body, sz)" by (cases h)
        have "body \<le> 2 ^ 62 + 12 \<and> sz < 2 ^ 56"
          using sized_header_less [OF settle_Some [OF step [unfolded Some h]]] False 1 by linarith
        then have "weather src (case declare_element src segment_start eid body sz st r' of
                   (r, Inl e) \<Rightarrow> (r, Inl e)
                 | (r, Inr st) \<Rightarrow>
                     (case declare_next stop eid st (pos # visited) (body + sz) of
                        (v, Some n) \<Rightarrow> declare_loop src segment_start stop st v n r
                      | (v, None) \<Rightarrow> (r, Inr st)))"
          by (intro weather_case declare_element_weather) (use 1 False step Some h in \<open>auto split: prod.splits option.splits\<close>)
        then show ?thesis by (simp add: Some h)
      qed
    qed
    moreover have "declare_loop src segment_start stop st visited pos r = ?walk"
      using False by (subst declare_loop.simps) (auto split: prod.splits sum.splits option.splits)
    ultimately show ?thesis by simp
  qed
qed

lemma segment_after_mild:
  assumes "il \<le> 4"
  shows "mild src (segment_after src head il r)"
proof (cases "ebml_size (drop il head)")
  case (Inl e)
  then show ?thesis by (auto simp: segment_after_def dest: ebml_size_error)
next
  case (Inr v)
  obtain s hsl where v: "v = (s, hsl)" by (cases v)
  show ?thesis
  proof (cases s)
    case None
    then show ?thesis by (simp add: segment_after_def Inr v)
  next
    case (Some sz)
    have "il + hsl + unat sz + 16 < 2 ^ 64" using ebml_size_less Inr v Some assms by fastforce
    then show ?thesis
      by (auto simp: segment_after_def Inr v Some Let_def intro: mild_header
          intro!: mild_and_then read_at_mild split: sum.splits)
  qed
qed

lemma segment_span_mild: "mild src (segment_span src r)"
  unfolding segment_span_def
  by (auto intro!: mild_and_then read_at_mild segment_after_mild dest: ebml_id_width split: sum.splits)

text \<open>C22. Declaring what a container holds settles on any bytes: on a source of less than \<open>2^62\<close> bytes,
  whatever they are and however the source cuts its answers up, the walk neither panics nor runs away nor
  reports malformed content as a failure. It fails only with an I/O error, and only when the source did
  fail or the time budget ran out.\<close>

theorem declare_settles:
  assumes "so_size src < 2 ^ 62"
  shows "case snd (declare_walk src) of Inl e \<Rightarrow> e = Io \<and> \<not> calm src | Inr d \<Rightarrow> True"
proof -
  have "weather src (declare_walk src)"
    unfolding declare_walk_def
    by (auto intro!: weather_and_then weather_settle segment_span_mild declare_loop_weather
        split: option.splits) (use assms in simp)
  then show ?thesis by (simp add: weather_def)
qed

text \<open>Witness of C22: any file of up to three bytes.\<close>

theorem declare_settles_witness:
  "case snd (declare_walk (file_source [0x1A, 0x45, 0xDF])) of Inl e \<Rightarrow> e = Io \<and> \<not> calm (file_source [0x1A, 0x45, 0xDF])
   | Inr d \<Rightarrow> True"
  by (rule declare_settles) (simp add: file_source_def)

section \<open>Chapters\<close>

text \<open>Two neighbours at one start are told apart by their titles.\<close>

definition told_apart :: "Chapter \<Rightarrow> Chapter \<Rightarrow> bool" where
  "told_apart a b \<longleftrightarrow> (start_ms a = start_ms b \<longrightarrow> title a \<noteq> None \<and> title b \<noteq> None \<and> title a \<noteq> title b)"

text \<open>\<open>d\<close> stands for \<open>c\<close>: same start, and the title of \<open>c\<close> if it has one.\<close>

definition stands_for :: "Chapter \<Rightarrow> Chapter \<Rightarrow> bool" where
  "stands_for d c \<longleftrightarrow> start_ms d = start_ms c \<and> (title c \<noteq> None \<longrightarrow> title d = title c)"

lemma merge_SomeD:
  "merge_chapter kept c = Some k \<Longrightarrow> stands_for k kept \<and> stands_for k c \<and> start_ms c = start_ms kept"
  by (auto simp: merge_chapter_def stands_for_def split: if_splits)

lemma merge_NoneD: "merge_chapter kept c = None \<Longrightarrow> told_apart kept c"
  by (auto simp: merge_chapter_def told_apart_def split: if_splits)

lemma stands_for_trans: "stands_for a b \<Longrightarrow> stands_for b c \<Longrightarrow> stands_for a c"
  by (auto simp: stands_for_def)

lemma stands_for_refl [simp]: "stands_for a a"
  by (simp add: stands_for_def)

lemma told_apart_stands: "told_apart a b \<Longrightarrow> stands_for c b \<Longrightarrow> told_apart a c"
  by (auto simp: told_apart_def stands_for_def)

lemma dedup_from_head: "\<exists>d ds. dedup_from kept cs = d # ds \<and> stands_for d kept"
proof (induction cs arbitrary: kept)
  case (Cons c cs)
  show ?case
  proof (cases "merge_chapter kept c")
    case (Some k)
    obtain d ds where "dedup_from k cs = d # ds" "stands_for d k" using Cons.IH [of k] by blast
    then show ?thesis using Some stands_for_trans [of d k kept] merge_SomeD [OF Some] by simp
  qed simp
qed simp

lemma dedup_from_apart: "successively told_apart (dedup_from kept cs)"
proof (induction cs arbitrary: kept)
  case (Cons c cs)
  show ?case
  proof (cases "merge_chapter kept c")
    case None
    obtain d ds where d: "dedup_from c cs = d # ds" "stands_for d c" using dedup_from_head by blast
    then have "told_apart kept d" using told_apart_stands [OF merge_NoneD [OF None]] by simp
    then show ?thesis using Cons.IH [of c] d None by (simp add: successively_Cons)
  qed (use Cons.IH in simp)
qed simp

lemma dedup_from_covers: "c \<in> set (kept # cs) \<Longrightarrow> \<exists>d \<in> set (dedup_from kept cs). stands_for d c"
proof (induction cs arbitrary: kept)
  case (Cons x cs)
  show ?case
  proof (cases "merge_chapter kept x")
    case None
    then show ?thesis using Cons by auto
  next
    case (Some k)
    show ?thesis
    proof (cases "c \<in> set cs")
      case True
      then show ?thesis using Cons.IH [of k] Some by simp
    next
      case False
      then have "stands_for k c" using Cons.prems merge_SomeD [OF Some] by auto
      moreover obtain d ds where "dedup_from k cs = d # ds" "stands_for d k" using dedup_from_head by blast
      ultimately show ?thesis using Some stands_for_trans [of d k c] by auto
    qed
  qed
qed simp

lemma dedup_from_starts: "d \<in> set (dedup_from kept cs) \<Longrightarrow> start_ms d \<in> start_ms ` set (kept # cs)"
proof (induction cs arbitrary: kept)
  case (Cons x cs)
  show ?case
  proof (cases "merge_chapter kept x")
    case None
    then show ?thesis using Cons.prems Cons.IH [of x] by auto
  next
    case (Some k)
    then have "start_ms k = start_ms kept" using merge_SomeD [OF Some] by (simp add: stands_for_def)
    then show ?thesis using Cons.prems Cons.IH [of k] Some by auto
  qed
qed simp

lemma dedup_from_sorted: "sorted (map start_ms (kept # cs)) \<Longrightarrow> sorted (map start_ms (dedup_from kept cs))"
proof (induction cs arbitrary: kept)
  case (Cons x cs)
  show ?case
  proof (cases "merge_chapter kept x")
    case None
    then show ?thesis using Cons dedup_from_starts [of _ x cs] by fastforce
  next
    case (Some k)
    then show ?thesis using Cons merge_SomeD [OF Some] by (simp add: stands_for_def)
  qed
qed simp

text \<open>The chapters of a container or of a demuxer's table of contents, once sorted: what deduplication
  leaves is still sorted, neighbours that share a start are both titled and titled differently, and no
  chapter is lost - each has one left at its start, with its title if it has one.\<close>

theorem chapters_deduped:
  assumes "sorted (map start_ms cs)"
  shows "sorted (map start_ms (dedup_chapters cs)) \<and> successively told_apart (dedup_chapters cs)
    \<and> (\<forall>c \<in> set cs. \<exists>d \<in> set (dedup_chapters cs). stands_for d c)"
  using assms dedup_from_sorted dedup_from_apart dedup_from_covers
  by (cases cs) (simp add: dedup_chapters_def, simp add: dedup_chapters_def del: dedup_from.simps list.set)

text \<open>Witness: an untitled chapter beside a titled one that has no end of its own.\<close>

theorem chapters_deduped_witness:
  "sorted (map start_ms (dedup_chapters [\<lparr>start_ms = 0, end_ms = Some 9, title = None\<rparr>, \<lparr>start_ms = 0, end_ms = None, title = Some ''Intro''\<rparr>]))
   \<and> dedup_chapters [\<lparr>start_ms = 0, end_ms = Some 9, title = None\<rparr>, \<lparr>start_ms = 0, end_ms = None, title = Some ''Intro''\<rparr>]
     = [\<lparr>start_ms = 0, end_ms = Some 9, title = Some ''Intro''\<rparr>]"
  using chapters_deduped [of "[\<lparr>start_ms = 0, end_ms = Some 9, title = None\<rparr>, \<lparr>start_ms = 0, end_ms = None, title = Some ''Intro''\<rparr>]"]
  by (simp add: dedup_chapters_def merge_chapter_def)

text \<open>Deduplication only looks at neighbours: of three chapters at one start the first and the last keep
  their places, with one title, when another title stands between them, although the routine means to leave
  one chapter per start and title.\<close>

theorem split_duplicates_stay:
  assumes "a \<noteq> b"
  shows "dedup_chapters [\<lparr>start_ms = s, end_ms = None, title = Some a\<rparr>, \<lparr>start_ms = s, end_ms = None, title = Some b\<rparr>,
      \<lparr>start_ms = s, end_ms = None, title = Some a\<rparr>]
    = [\<lparr>start_ms = s, end_ms = None, title = Some a\<rparr>, \<lparr>start_ms = s, end_ms = None, title = Some b\<rparr>,
      \<lparr>start_ms = s, end_ms = None, title = Some a\<rparr>]"
  using assms by (simp add: dedup_chapters_def merge_chapter_def)

text \<open>Witness: a grouping atom whose scenes repeat its title.\<close>

theorem split_duplicates_stay_witness:
  "length (dedup_chapters [\<lparr>start_ms = 0, end_ms = None, title = Some ''Film''\<rparr>,
     \<lparr>start_ms = 0, end_ms = None, title = Some ''Intro''\<rparr>, \<lparr>start_ms = 0, end_ms = None, title = Some ''Film''\<rparr>]) = 3"
  using split_duplicates_stay [of "''Film''" "''Intro''" 0] by simp

text \<open>The parsers of one element fail by shape only: what the walk settles hides no panic.\<close>

definition by_shape :: "'s \<times> (read_error + 'a) \<Rightarrow> bool" where
  "by_shape m \<longleftrightarrow> (case snd m of Inl e \<Rightarrow> e = Shape | Inr _ \<Rightarrow> True)"

lemma by_shape_simps [simp]: "by_shape (s, Inr v)" "by_shape (s, Inl e) \<longleftrightarrow> e = Shape"
  by (simp_all add: by_shape_def)

lemma next_child_shape: "next_child data = Inl e \<Longrightarrow> e = Shape"
  by (auto simp: next_child_def dest: ebml_id_error ebml_size_error split: sum.splits prod.splits option.splits if_splits)

lemma walk_children_shape:
  assumes "\<And>eid v s. by_shape (f eid v s)"
  shows "by_shape (walk_children f data s)"
proof (induction data arbitrary: s rule: length_induct)
  case (1 data)
  have "by_shape (case f eid v s of (s', Inl e) \<Rightarrow> (s', Inl e)
      | (s', Inr go) \<Rightarrow> if go then walk_children f rest s' else (s', Inr ()))"
    if "next_child data = Inr (eid, v, rest)" for eid v rest
    using assms [of eid v s] 1 next_child_shorter [OF that] by (auto split: prod.splits sum.splits)
  then show ?case
    by (subst walk_children.simps) (auto dest: next_child_shape split: sum.splits prod.splits)
qed

lemma collecting_shape [intro]: "by_shape (collecting f eid v s)"
  by (simp add: collecting_def)

lemma trying_shape [intro]: "by_shape (f eid v s) \<Longrightarrow> by_shape (trying f eid v s)"
  by (auto simp: trying_def split: prod.splits sum.splits)

lemma by_shape_case:
  "by_shape m \<Longrightarrow> (\<And>r v. m = (r, Inr v) \<Longrightarrow> by_shape (g r v)) \<Longrightarrow>
     by_shape (case m of (r, Inl e) \<Rightarrow> (h r, Inl e) | (r, Inr v) \<Rightarrow> g r v)"
  by (auto simp: by_shape_def split: prod.splits sum.splits)

lemma atom_vars_shape: "by_shape (atom_vars atom)"
proof -
  have "by_shape (atom_entry eid v a)" for eid v a
    using walk_children_shape [of "collecting chap_string" v None, OF collecting_shape]
    by (auto simp: atom_entry_def by_shape_def split: prod.splits)
  then show ?thesis unfolding atom_vars_def by (intro walk_children_shape trying_shape)
qed

lemma collect_atoms_shape: "by_shape (collect_atoms n data out)"
proof (induction n arbitrary: data out)
  case (Suc n)
  show ?case
    using atom_vars_shape Suc
    by (auto intro!: walk_children_shape trying_shape split: prod.splits sum.splits)
      (metis by_shape_simps(2))
qed simp

lemma read_chapters_shape: "read_chapters data = Inl e \<Longrightarrow> e = Shape"
proof -
  have "by_shape (edition_visitor eid v s)" for eid v s
  proof -
    have flags: "by_shape (walk_children (collecting edition_flag) v (False, False))"
      by (intro walk_children_shape collecting_shape)
    show ?thesis
      unfolding edition_visitor_def using flags collect_atoms_shape [of 17 v "[]"]
      by (auto simp del: collect_atoms.simps split: prod.splits sum.splits)
  qed
  then have "by_shape (walk_children (trying edition_visitor) data ([], False))"
    by (intro walk_children_shape trying_shape)
  then show "read_chapters data = Inl e \<Longrightarrow> e = Shape"
    by (auto simp: read_chapters_def split: prod.splits sum.splits)
qed

end
