(* ===== verification/Names.thy ===== *)
theory Names
  imports Rust_Strings
begin

text \<open>
  File names to identities, \<open>crates/kahawai-core/src/names.rs\<close>: films, their parts and rendition families,
  music, episodes of series and of anime, title keys and release revisions. Paths are relative, with
  slashes between normal components. Additions of parsed numbers wrap at 32 bits, as in a release build.
\<close>

section \<open>Films\<close>

record MovieGuess =
  mg_title :: string
  mg_year :: "nat option"
  mg_part :: "nat option"

definition RELEASE_TAGS :: "string list" where
  "RELEASE_TAGS =
     [''dual'', ''audio'', ''dub'', ''dubbed'', ''sub'', ''subbed'', ''subs'', ''eng'', ''uncut'', ''ova'', ''ona'',
      ''remaster'', ''remastered'', ''batch'', ''uncensored'']"

definition releaseish :: "string \<Rightarrow> bool" where
  "releaseish inner =
     list_ex (\<lambda>w. to_ascii_lowercase w \<in> set RELEASE_TAGS) (pieces (\<lambda>c. \<not> is_ascii_alnum c) inner)"

lemma rsplit_once_shorter: "rsplit_once ds s = Some (a, b) \<Longrightarrow> length a < length s"
proof -
  assume "rsplit_once ds s = Some (a, b)"
  then obtain c r where "dropWhile (\<lambda>c. c \<notin> set ds) (rev s) = c # r" and a: "a = rev r"
    by (auto simp: rsplit_once_def split: list.splits)
  moreover have "length (dropWhile (\<lambda>c. c \<notin> set ds) (rev s)) \<le> length (rev s)" by (rule length_dropWhile_le)
  ultimately show ?thesis by simp
qed

lemma length_trim_end: "length (trim_end s) \<le> length s"
  using length_dropWhile_le [of is_ws "rev s"] by (simp add: trim_end_def trim_end_matches_def)

function strip_tags_loop :: "string \<Rightarrow> string" where
  "strip_tags_loop out =
     (case rsplit_once [CHR ''(''] out of
        None \<Rightarrow> out
      | Some (front, back) \<Rightarrow>
          if ends_with out '')'' \<and> releaseish (butlast back) then strip_tags_loop (trim_end front) else out)"
  by auto
termination
  by (relation "measure length") (auto dest!: rsplit_once_shorter intro: le_less_trans [OF length_trim_end])

declare strip_tags_loop.simps [simp del]

definition strip_release_tags :: "string \<Rightarrow> string" where
  "strip_release_tags name = strip_tags_loop (trim_end name)"

definition plausible_extension :: "string \<Rightarrow> bool" where
  "plausible_extension ext \<longleftrightarrow>
     2 \<le> length ext \<and> length ext \<le> 4 \<and> list_all is_ascii_alnum ext \<and> list_ex is_ascii_alpha ext"

definition dots_to_spaces :: "string \<Rightarrow> string" where
  "dots_to_spaces s = map (\<lambda>c. if c = CHR ''.'' \<or> c = CHR ''_'' then CHR '' '' else c) s"

definition DISC_MARKERS :: "string list" where "DISC_MARKERS = [''cd'', ''disc'', ''disk'']"

definition part_of :: "string \<Rightarrow> nat option" where
  "part_of tok =
     (let t = to_ascii_lowercase tok in
      case filter_map (\<lambda>marker. opt_filter (\<lambda>rest. rest \<noteq> [] \<and> length rest \<le> 2 \<and> all_digits rest) (strip_prefix marker t))
             DISC_MARKERS of
        [] \<Rightarrow> None
      | rest # _ \<Rightarrow> parse_nat (2 ^ 32) rest)"

text \<open>The loop that takes the part markers out of the words of a name.\<close>

fun take_parts :: "string list \<Rightarrow> nat option \<Rightarrow> string list \<times> nat option" where
  "take_parts [] part = ([], part)"
| "take_parts [t] part =
     (case part_of (trim_matches (\<lambda>c. c \<in> set ''()[]-'') t) of
        Some n \<Rightarrow> ([], Some n) | None \<Rightarrow> ([t], part))"
| "take_parts (t # d # ts) part =
     (let tok = trim_matches (\<lambda>c. c \<in> set ''()[]-'') t in
      case part_of tok of
        Some n \<Rightarrow> take_parts (d # ts) (Some n)
      | None \<Rightarrow>
          if to_ascii_lowercase tok \<in> set DISC_MARKERS \<and> length d \<le> 2 \<and> all_digits d
          then take_parts ts (parse_nat (2 ^ 32) d)
          else (case take_parts (d # ts) part of (ws, p) \<Rightarrow> (t # ws, p)))"

definition parse_year_token :: "string \<Rightarrow> nat option" where
  "parse_year_token tok =
     (let t = trim_matches (\<lambda>c. c \<in> set ''()[]'') tok in
      if length t \<noteq> 4 then None
      else opt_filter (\<lambda>y. 1900 \<le> y \<and> y \<le> 2099) (parse_nat (2 ^ 16) t))"

text \<open>The last year that is not the first word.\<close>

definition last_year :: "string list \<Rightarrow> (nat \<times> nat) option" where
  "last_year tokens =
     (case rev (filter_map (\<lambda>(i, t). if 0 < i then map_option (\<lambda>y. (i, y)) (parse_year_token t) else None)
                  (enumerate 0 tokens)) of
        [] \<Rightarrow> None | x # _ \<Rightarrow> Some x)"

definition strip_junk :: "string \<Rightarrow> string" where
  "strip_junk s = trim_end_matches (\<lambda>c. c \<in> set ''([- '') s"

definition parse_movie_stem :: "string \<Rightarrow> MovieGuess" where
  "parse_movie_stem stem =
     (let (tokens, part) = take_parts (split_whitespace (dots_to_spaces stem)) None;
          found = last_year tokens;
          title_end = map_or found (length tokens) fst;
          title0 = strip_junk (join_str '' '' (take title_end tokens))
      in \<lparr>mg_title = (if title0 = [] then join_str '' '' tokens else title0),
          mg_year = map_option snd found, mg_part = part\<rparr>)"

definition parse_movie :: "string \<Rightarrow> MovieGuess" where
  "parse_movie filename0 =
     (let filename = strip_release_tags filename0 in
      parse_movie_stem
        (case rsplit_once [CHR ''.''] filename of
           Some (s, ext) \<Rightarrow> if plausible_extension ext then s else filename
         | None \<Rightarrow> filename))"

definition parse_movie_dir :: "string \<Rightarrow> MovieGuess" where
  "parse_movie_dir name = parse_movie_stem (strip_release_tags name)"

definition bare_part :: "string \<Rightarrow> nat option" where
  "bare_part title =
     Option.bind (strip_prefix ''part'' (filter (\<lambda>c. c \<noteq> CHR '' '') (to_ascii_lowercase (trim title)))) (\<lambda>n.
       if n = [] \<or> 2 < length n \<or> \<not> all_digits n then None else parse_nat (2 ^ 32) n)"

definition parse_movie_file :: "string \<Rightarrow> MovieGuess option" where
  "parse_movie_file path_rel =
     (let dirs = rev (split_on (CHR ''/'') path_rel); mg = parse_movie (hd dirs) in
      case bare_part (mg_title mg) of
        Some n \<Rightarrow>
          Option.bind (get dirs 1) (\<lambda>dir.
            let d = parse_movie_dir dir in
            if mg_title d = [] then None
            else Some \<lparr>mg_title = mg_title d, mg_year = mg_year d, mg_part = Some n\<rparr>)
      | None \<Rightarrow> then_some (mg_title mg \<noteq> []) mg)"

section \<open>Rendition families\<close>

definition path_parent :: "string \<Rightarrow> string" where
  "path_parent path = map_or (rsplit_once [CHR ''/''] path) [] fst"

definition path_stem :: "string \<Rightarrow> string" where
  "path_stem path =
     (let name = map_or (rsplit_once [CHR ''/''] path) path snd in
      case rsplit_once [CHR ''.''] name of
        Some (s, _) \<Rightarrow> if s = [] then name else s
      | None \<Rightarrow> name)"

definition family_number :: "string \<Rightarrow> bool" where
  "family_number word \<longleftrightarrow> word \<noteq> [] \<and> length word \<le> 2 \<and> all_digits word"

definition attached_marker :: "string \<Rightarrow> bool" where
  "attached_marker word = list_ex (\<lambda>marker. is_some_and (strip_prefix marker word) family_number) DISC_MARKERS"

fun family_words :: "string list \<Rightarrow> string list" where
  "family_words [] = []"
| "family_words [w] = (if attached_marker w then [] else [w])"
| "family_words (w # n # ws) =
     (if attached_marker w then family_words (n # ws)
      else if w \<in> set DISC_MARKERS \<and> family_number n then family_words ws
      else w # family_words (n # ws))"

definition rendition_family_key :: "Unicode \<Rightarrow> string \<Rightarrow> string" where
  "rendition_family_key uni path_rel =
     (let words = map (\<lambda>w. str_lower uni (concat w)) (pieces (\<lambda>u. \<not> scalar_alnum uni u) (scalars (path_stem path_rel)));
          bare = length words = 1 \<and> is_some_and (strip_prefix ''part'' (hd words)) family_number;
          kept = family_words words;
          release = (if bare \<or> kept = [] then ''@parts'' else join_str ''-'' kept)
      in path_parent path_rel @ [CHR 0x0A] @ release)"

section \<open>Music\<close>

record MusicGuess =
  mu_artist :: string
  mu_album :: string
  mu_album_year :: "nat option"
  mu_disc :: "nat option"
  mu_track :: nat
  mu_title :: string

definition album_of :: "string \<Rightarrow> string \<times> nat option" where
  "album_of album_dir =
     (case rsplit_once [CHR ''(''] album_dir of
        Some (name, back) \<Rightarrow>
          if ends_with album_dir '')'' then
            (case opt_filter (\<lambda>y. 1900 \<le> y \<and> y < 2100) (parse_nat (2 ^ 63) (butlast back)) of
               Some y \<Rightarrow> (trim name, Some y)
             | None \<Rightarrow> (trim album_dir, None))
          else (trim album_dir, None)
      | None \<Rightarrow> (trim album_dir, None))"

definition track_segment :: "string \<Rightarrow> bool" where
  "track_segment s \<longleftrightarrow> (let t = trim s in t \<noteq> [] \<and> length t \<le> 4 \<and> all_digits t)"

definition parse_music :: "string \<Rightarrow> MusicGuess option" where
  "parse_music path_rel =
     (case rsplit_once [CHR ''/''] path_rel of
        None \<Rightarrow> None
      | Some (dirs, file) \<Rightarrow>
          (let (artist_dir, album_dir) = unwrap_or (rsplit_once [CHR ''/''] dirs) ([], dirs);
               stem = map_or (rsplit_once [CHR ''.''] file) file fst;
               (album, album_year) = album_of album_dir;
               segs = split_text '' - '' stem
           in if album = [] then None
              else Option.bind (position track_segment segs) (\<lambda>num_at.
                Option.bind (parse_nat (2 ^ 32) (trim (segs ! num_at))) (\<lambda>track.
                  let title = trim (join_str '' - '' (drop (num_at + 1) segs)) in
                  if title = [] then None
                  else map_option (\<lambda>artist.
                         \<lparr>mu_artist = artist, mu_album = album, mu_album_year = album_year, mu_disc = None,
                          mu_track = track, mu_title = title\<rparr>)
                       (if artist_dir = [] then opt_filter (\<lambda>s. s \<noteq> []) (Some (trim (hd segs)))
                        else Some (trim artist_dir))))))"

section \<open>Episode markers\<close>

record EpisodeGuess =
  eg_show_title :: string
  eg_show_year :: "nat option"
  eg_season :: "nat option"
  eg_episode :: nat
  eg_episode_end :: "nat option"
  eg_episode_title :: "string option"

definition parse_nnxnn :: "string \<Rightarrow> (nat \<times> nat) option" where
  "parse_nnxnn tok =
     Option.bind (split_once_at ''xX'' (trim_matches (\<lambda>c. \<not> is_ascii_alnum c) tok)) (\<lambda>(s, e).
       if s = [] \<or> e = [] \<or> 2 < length s \<or> 3 < length e then None
       else Option.bind (parse_nat (2 ^ 32) s) (\<lambda>s. map_option (\<lambda>e. (s, e)) (parse_nat (2 ^ 32) e)))"

definition parse_sxxeyy :: "string \<Rightarrow> (nat \<times> nat \<times> nat option) option" where
  "parse_sxxeyy tok =
     Option.bind (strip_char ''sS'' (trim_matches (\<lambda>c. \<not> is_ascii_alnum c) tok)) (\<lambda>rest.
     Option.bind (split_once_at ''eE'' rest) (\<lambda>(s, e).
       let e_first = takeWhile is_ascii_digit e in
       if s = [] \<or> e_first = [] \<or> \<not> all_digits s then None
       else Option.bind (parse_nat (2 ^ 32) e_first) (\<lambda>first.
         let tail = drop (length e_first) e;
             tail = unwrap_or (strip_char ''-'' tail) tail;
             tail = unwrap_or (strip_char ''eE'' tail) tail;
             stop = opt_filter (\<lambda>n. first < n) (parse_nat (2 ^ 32) (takeWhile is_ascii_digit tail))
         in map_option (\<lambda>s. (s, first, stop)) (parse_nat (2 ^ 32) s))))"

definition is_season_token :: "string \<Rightarrow> bool" where
  "is_season_token t =
     is_some_and (strip_char ''sS'' t) (\<lambda>d. 1 \<le> length d \<and> length d \<le> 2 \<and> all_digits d)"

definition episode_digits :: "string \<Rightarrow> bool" where
  "episode_digits d \<longleftrightarrow> 1 \<le> length d \<and> length d \<le> 3 \<and> all_digits d"

definition is_episode_token :: "string \<Rightarrow> bool" where
  "is_episode_token t =
     (case strip_char ''eE'' t of
        None \<Rightarrow> False
      | Some rest \<Rightarrow>
          (case split_once_at ''-'' rest of
             Some (first, tail) \<Rightarrow> episode_digits first \<and> episode_digits (unwrap_or (strip_char ''eE'' tail) tail)
           | None \<Rightarrow> episode_digits rest))"

text \<open>The three repairs of a glued or split marker.\<close>

definition is_marker :: "string \<Rightarrow> bool" where
  "is_marker tok \<longleftrightarrow> parse_sxxeyy tok \<noteq> None \<or> parse_nnxnn tok \<noteq> None"

fun unglue :: "bool \<Rightarrow> string \<Rightarrow> string" where
  "unglue inside [] = []"
| "unglue inside (c # rest) =
     (if c = CHR ''-'' \<and> inside \<and> is_marker (takeWhile (\<lambda>c. c \<noteq> CHR '' '') rest) then CHR '' '' # unglue True rest
      else c # unglue True rest)"

definition split_glued_marker :: "string \<Rightarrow> string" where
  "split_glued_marker s = unglue False s"

fun join_markers :: "string list \<Rightarrow> string list" where
  "join_markers [] = []"
| "join_markers [t] = [t]"
| "join_markers (t # u # ts) =
     (if is_season_token t \<and> is_episode_token u then (t @ u) # join_markers ts
      else t # join_markers (u # ts))"

definition join_split_marker :: "string \<Rightarrow> string" where
  "join_split_marker s = join_str '' '' (join_markers (split_whitespace s))"

definition glued_marker :: "string \<Rightarrow> bool" where
  "glued_marker m \<longleftrightarrow>
     (case m of
        [a, b, c, d, e, f] \<Rightarrow>
          ascii_lower a = CHR ''s'' \<and> is_ascii_digit b \<and> is_ascii_digit c
          \<and> ascii_lower d = CHR ''e'' \<and> is_ascii_digit e \<and> is_ascii_digit f
      | _ \<Rightarrow> False)"

definition split_trailing_marker :: "string \<Rightarrow> string" where
  "split_trailing_marker s =
     (let n = length s in
      if n < 7 then s
      else if glued_marker (drop (n - 6) s) \<and> is_ascii_alnum (s ! (n - 7))
      then take (n - 6) s @ '' '' @ drop (n - 6) s
      else s)"

definition parse_scene_compact :: "string \<Rightarrow> string list \<Rightarrow> (nat \<times> nat \<times> nat) option" where
  "parse_scene_compact stem tokens =
     (if list_ex is_ws stem \<or> list_ex (\<lambda>c. c \<in> set ''[]()'') stem \<or> CHR ''.'' \<notin> set stem
         \<or> CHR ''-'' \<notin> set (last (split_on (CHR ''.'') stem)) then None
      else (case filter_map (\<lambda>(i, t).
                   case t of
                     [a, b, c] \<Rightarrow>
                       if 0 < i \<and> is_ascii_digit a \<and> is_ascii_digit b \<and> is_ascii_digit c \<and> a \<noteq> CHR ''0''
                          \<and> i + 1 < length tokens
                       then Some (i, digit_val a, digit_val b * 10 + digit_val c) else None
                   | _ \<Rightarrow> None) (enumerate 0 tokens) of
              [] \<Rightarrow> None | x # _ \<Rightarrow> Some x))"

definition is_season_dir :: "string \<Rightarrow> bool" where
  "is_season_dir dir \<longleftrightarrow>
     (let d = to_ascii_lowercase dir in
      starts_with d ''season'' \<or> starts_with d ''staffel'' \<or> starts_with d ''series ''
      \<or> parse_nat (2 ^ 32) (trim d) \<noteq> None \<or> starts_with d ''specials'')"

section \<open>Series\<close>

definition find_marker :: "string list \<Rightarrow> (nat \<times> nat \<times> nat \<times> nat option) option" where
  "find_marker tokens =
     (case filter_map (\<lambda>(i, t). map_option (\<lambda>(s, e, stop). (i, s, e, stop))
              (opt_or (parse_sxxeyy t) (map_option (\<lambda>(s, e). (s, e, None)) (parse_nnxnn t))))
            (enumerate 0 tokens) of
        [] \<Rightarrow> None | x # _ \<Rightarrow> Some x)"

definition file_stem :: "string \<Rightarrow> string" where
  "file_stem filename = map_or (rsplit_once [CHR ''.''] filename) filename fst"

definition episode_tokens :: "string \<Rightarrow> string list" where
  "episode_tokens stem =
     split_whitespace (split_trailing_marker (join_split_marker (split_glued_marker (dots_to_spaces stem))))"

definition text_or :: "string \<Rightarrow> string \<Rightarrow> string" where
  "text_or s d = (if s = [] then d else s)"

definition parse_episode :: "string \<Rightarrow> EpisodeGuess option" where
  "parse_episode path_rel =
     (let parts = split_on (CHR ''/'') path_rel; stem = file_stem (last parts); tokens = episode_tokens stem in
      Option.bind (opt_or (find_marker tokens)
          (map_option (\<lambda>(i, s, e). (i, s, e, None)) (parse_scene_compact stem tokens))) (\<lambda>(idx, season, episode, stop).
        let show = (case find (\<lambda>d. \<not> is_season_dir d) (rev (butlast parts)) of
                      Some dir \<Rightarrow> parse_movie_dir dir
                    | None \<Rightarrow> parse_movie_dir (join_str '' '' (take idx tokens)));
            ep_title = strip_junk (dropWhile (\<lambda>c. c = CHR ''-'' \<or> c = CHR '' '') (join_str '' '' (drop (idx + 1) tokens)))
        in Some \<lparr>eg_show_title = text_or (mg_title show) ''Unknown Show'', eg_show_year = mg_year show,
              eg_season = Some season, eg_episode = episode, eg_episode_end = stop,
              eg_episode_title = then_some (ep_title \<noteq> []) ep_title\<rparr>))"

section \<open>Anime\<close>

definition top_dir :: "string \<Rightarrow> string option" where
  "top_dir path_rel = (case split_on (CHR ''/'') path_rel of d # _ # _ \<Rightarrow> Some d | _ \<Rightarrow> None)"

definition num_range :: "string \<Rightarrow> (nat \<times> nat) option" where
  "num_range t =
     Option.bind (split_once_at ''-'' t) (\<lambda>(a, b).
       if a = [] \<or> b = [] \<or> 3 < length a \<or> 3 < length b \<or> \<not> all_digits a \<or> \<not> all_digits b then None
       else Option.bind (parse_nat (2 ^ 32) a) (\<lambda>a. Option.bind (parse_nat (2 ^ 32) b) (\<lambda>b.
              then_some (a < b) (a, b))))"

definition lettered_part :: "string \<Rightarrow> string option" where
  "lettered_part t =
     Option.bind (split_once_at ''-'' t) (\<lambda>(num, tail).
       then_some ((case tail of [c] \<Rightarrow> is_ascii_alpha c | _ \<Rightarrow> False)
                  \<and> num \<noteq> [] \<and> length num \<le> 4 \<and> all_digits num) num)"

definition ROMAN :: "string list" where
  "ROMAN = [''I'', ''II'', ''III'', ''IV'', ''V'', ''VI'', ''VII'', ''VIII'', ''IX'', ''X'', ''XI'', ''XII'', ''XIII'']"

definition roman :: "string \<Rightarrow> nat option" where
  "roman t = map_option Suc (position (\<lambda>r. r = t) ROMAN)"

definition is_year :: "nat \<Rightarrow> bool" where
  "is_year n \<longleftrightarrow> 1900 \<le> n \<and> n \<le> 2099"

text \<open>The text outside brackets.\<close>

fun outside_brackets :: "nat \<Rightarrow> string \<Rightarrow> string" where
  "outside_brackets depth [] = []"
| "outside_brackets depth (c # s) =
     (if c = CHR ''['' \<or> c = CHR ''('' then outside_brackets (depth + 1) s
      else if c = CHR '']'' \<or> c = CHR '')'' then outside_brackets (depth - 1) s
      else if depth = 0 then (if c = CHR ''.'' \<or> c = CHR ''_'' then CHR '' '' else c) # outside_brackets depth s
      else outside_brackets depth s)"

definition anime_tokens :: "string \<Rightarrow> string list" where
  "anime_tokens stem = filter (\<lambda>t. t \<noteq> ''-'') (split_whitespace (outside_brackets 0 stem))"

text \<open>A release designation: where it stands, its band of season zero (\<open>None\<close> for a film), its index,
  the token consumed as index, the end of its span, and whether the index is explicit.\<close>

record Designator =
  dg_at :: nat
  dg_band :: "nat option"
  dg_index :: nat
  dg_consumed :: "nat option"
  dg_span :: "nat option"
  dg_explicit :: bool

definition designator_band :: "string \<Rightarrow> nat option option" where
  "designator_band word =
     (let base = to_ascii_uppercase word in
      if base = ''NCOP'' then Some (Some 100)
      else if base = ''NCED'' then Some (Some 120)
      else if base \<in> set [''OVA'', ''OAV'', ''ONA'', ''SP'', ''SPECIAL'', ''SPECIALS''] then Some (Some 0)
      else if base \<in> set [''MOVIE'', ''GEKIJOUBAN''] then Some None
      else None)"

text \<open>The index behind a designation without digits of its own.\<close>

definition next_index :: "string list \<Rightarrow> nat \<Rightarrow> nat option \<times> nat option \<times> nat option" where
  "next_index tokens i =
     (case get tokens (i + 1) of
        None \<Rightarrow> (Some 1, None, None)
      | Some n \<Rightarrow>
          if length n \<le> 4 \<and> all_digits n \<and> \<not> is_year (unwrap_or (parse_nat (2 ^ 32) n) 0)
          then (parse_nat (2 ^ 32) n, Some (i + 1), None)
          else (case num_range n of
                  Some (a, b) \<Rightarrow> (Some a, Some (i + 1), Some b)
                | None \<Rightarrow>
                    (case roman n of
                       Some r \<Rightarrow> (Some r, Some (i + 1), None)
                     | None \<Rightarrow> (Some 1, None, None))))"

definition designator_at :: "string list \<Rightarrow> nat \<times> string \<Rightarrow> Designator option" where
  "designator_at tokens it =
     (case it of (i, t) \<Rightarrow>
        let base = trim_end_matches is_ascii_digit t; digits = drop (length base) t in
        map_option (\<lambda>band.
          let (index, consumed, span) =
                (if digits \<noteq> [] then (parse_nat (2 ^ 32) digits, None, None) else next_index tokens i)
          in \<lparr>dg_at = i, dg_band = band, dg_index = unwrap_or index 1, dg_consumed = consumed, dg_span = span,
              dg_explicit = (digits \<noteq> [] \<or> consumed \<noteq> None)\<rparr>) (designator_band base))"

definition designator :: "string list \<Rightarrow> Designator option" where
  "designator tokens =
     (let all = filter_map (designator_at tokens) (enumerate 0 tokens) in
      opt_or (find dg_explicit all) (get all 0))"

text \<open>How many of the tokens spell the name of the show.\<close>

definition squash :: "Unicode \<Rightarrow> string \<Rightarrow> string" where
  "squash uni s = concat (map (scalar_lower uni) (filter (scalar_alnum uni) (scalars s)))"

fun covered :: "Unicode \<Rightarrow> string \<Rightarrow> string \<Rightarrow> nat \<Rightarrow> string list \<Rightarrow> nat" where
  "covered uni w seen i [] = 0"
| "covered uni w seen i (t # ts) =
     (let seen = seen @ squash uni t in
      if \<not> starts_with w seen then 0
      else if seen = w then i + 1
      else covered uni w seen (i + 1) ts)"

definition title_tokens :: "Unicode \<Rightarrow> string \<Rightarrow> string list \<Rightarrow> nat" where
  "title_tokens uni path_rel tokens =
     (case map_option (\<lambda>d. squash uni (mg_title (parse_movie_dir d))) (top_dir path_rel) of
        Some w \<Rightarrow> if w \<noteq> [] then covered uni w [] 0 tokens else 0
      | None \<Rightarrow> 0)"

definition e_token :: "string list \<Rightarrow> (nat \<times> nat) option" where
  "e_token tokens =
     (case filter_map (\<lambda>(i, t).
              Option.bind (strip_char ''eE'' t) (\<lambda>r.
                let rest = unwrap_or (strip_char ''pP'' r) r in
                if rest = [] \<or> 4 < length rest \<or> \<not> all_digits rest then None
                else map_option (\<lambda>n. (i, n)) (parse_nat (2 ^ 32) rest))) (enumerate 0 tokens) of
        [] \<Rightarrow> None | x # _ \<Rightarrow> Some x)"

definition number_at :: "Unicode \<Rightarrow> string \<Rightarrow> string list \<Rightarrow> nat \<times> string \<Rightarrow> (nat \<times> nat \<times> nat option) option" where
  "number_at uni path_rel tokens it =
     (case it of (i, t) \<Rightarrow>
        if is_some_and (designator tokens) (\<lambda>d. dg_consumed d = Some i) \<or> i < title_tokens uni path_rel tokens then None
        else if i + 1 = length tokens \<and> num_range t \<noteq> None
        then map_option (\<lambda>(a, b). (i, a, Some b)) (num_range t)
        else (let num = (case lettered_part t of Some n \<Rightarrow> n | None \<Rightarrow> takeWhile (\<lambda>c. c \<notin> set ''vV'') t) in
              if num = [] \<or> 4 < length num \<or> \<not> all_digits num then None
              else Option.bind (parse_nat (2 ^ 32) num) (\<lambda>n. if is_year n then None else Some (i, n, None))))"

definition episode_number :: "Unicode \<Rightarrow> string \<Rightarrow> string list \<Rightarrow> (nat \<times> nat \<times> nat option) option" where
  "episode_number uni path_rel tokens =
     opt_or (map_option (\<lambda>(i, n). (i, n, None)) (e_token tokens))
       (case filter_map (number_at uni path_rel tokens) (rev (enumerate 0 tokens)) of
          [] \<Rightarrow> None | x # _ \<Rightarrow> Some x)"

text \<open>The show: of the directory, or of the words in front.\<close>

definition anime_show :: "string \<Rightarrow> string list \<Rightarrow> nat \<Rightarrow> string \<times> nat option" where
  "anime_show path_rel tokens i =
     (let title = text_or (join_str '' '' (take i tokens)) (unwrap_or (top_dir path_rel) ''Unknown Show'');
          guess = parse_movie_dir (unwrap_or (top_dir path_rel) title)
      in (text_or (mg_title guess) title, mg_year guess))"

definition special_of :: "string \<Rightarrow> string list \<Rightarrow> Designator \<Rightarrow> EpisodeGuess option" where
  "special_of path_rel tokens d =
     map_option (\<lambda>band.
       let (title, year) = anime_show path_rel tokens (dg_at d) in
       \<lparr>eg_show_title = title, eg_show_year = year, eg_season = Some 0,
        eg_episode = (band + dg_index d) mod 2 ^ 32,
        eg_episode_end = map_option (\<lambda>s. (band + s) mod 2 ^ 32) (dg_span d),
        eg_episode_title = None\<rparr>) (dg_band d)"

definition absolute_of :: "string \<Rightarrow> string list \<Rightarrow> nat \<times> nat \<times> nat option \<Rightarrow> EpisodeGuess" where
  "absolute_of path_rel tokens found =
     (case found of (idx, episode, stop) \<Rightarrow>
        let (title, year) = anime_show path_rel tokens idx; ep_title = join_str '' '' (drop (idx + 1) tokens) in
        \<lparr>eg_show_title = title, eg_show_year = year, eg_season = None, eg_episode = episode, eg_episode_end = stop,
         eg_episode_title = then_some (ep_title \<noteq> []) ep_title\<rparr>)"

definition explicit_index :: "string list \<Rightarrow> Designator \<Rightarrow> bool" where
  "explicit_index tokens d \<longleftrightarrow>
     dg_consumed d \<noteq> None \<or> (tokens ! dg_at d \<noteq> [] \<and> is_ascii_digit (last (tokens ! dg_at d)))"

definition parse_anime :: "Unicode \<Rightarrow> string \<Rightarrow> EpisodeGuess option" where
  "parse_anime uni path_rel =
     (case parse_episode path_rel of
        Some g \<Rightarrow>
          Some (case top_dir path_rel of
                  None \<Rightarrow> g
                | Some dir \<Rightarrow>
                    let tg = parse_movie_dir dir in
                    g\<lparr>eg_show_title := mg_title tg, eg_show_year := opt_or (mg_year tg) (eg_show_year g)\<rparr>)
      | None \<Rightarrow>
          (let tokens = anime_tokens (file_stem (last (split_on (CHR ''/'') path_rel)));
               found = episode_number uni path_rel tokens; des = designator tokens
           in case opt_filter (explicit_index tokens) des of
                Some d \<Rightarrow> special_of path_rel tokens d
              | None \<Rightarrow>
                  (case found of
                     Some x \<Rightarrow> Some (absolute_of path_rel tokens x)
                   | None \<Rightarrow> Option.bind des (special_of path_rel tokens))))"

section \<open>Title keys and release revisions\<close>

fun normalize_scalars :: "Unicode \<Rightarrow> bool \<Rightarrow> string list \<Rightarrow> string" where
  "normalize_scalars uni last_space [] = []"
| "normalize_scalars uni last_space (u # us) =
     (if scalar_alnum uni u then scalar_lower uni u @ normalize_scalars uni False us
      else if \<not> last_space then CHR '' '' # normalize_scalars uni True us
      else normalize_scalars uni True us)"

definition normalize_title :: "Unicode \<Rightarrow> string \<Rightarrow> string" where
  "normalize_title uni title = trim_end (normalize_scalars uni True (scalars title))"

record Revision =
  rv_version :: nat
  rv_repack :: bool
  rv_proper :: bool
  rv_rerip :: bool

definition revision_token :: "string \<Rightarrow> Revision \<Rightarrow> Revision" where
  "revision_token token rv =
     (if to_ascii_lowercase token = ''repack'' then rv\<lparr>rv_repack := True\<rparr>
      else if to_ascii_lowercase token = ''rerip'' then rv\<lparr>rv_rerip := True\<rparr>
      else if token = ''PROPER'' then rv\<lparr>rv_proper := True\<rparr>
      else (case split_once_at ''vV'' token of
              None \<Rightarrow> rv
            | Some (ep, v) \<Rightarrow>
                if ep \<noteq> [] \<and> all_digits ep \<and> v \<noteq> [] \<and> all_digits v
                then (case parse_nat (2 ^ 32) v of
                        None \<Rightarrow> rv | Some n \<Rightarrow> rv\<lparr>rv_version := max (rv_version rv) n\<rparr>)
                else rv))"

definition release_revision :: "string \<Rightarrow> nat" where
  "release_revision path_rel =
     (let name = last (split_on (CHR ''/'') path_rel);
          rv = fold revision_token (split_where (\<lambda>c. c \<in> set ''._-[]() '') name)
                 \<lparr>rv_version = 1, rv_repack = False, rv_proper = False, rv_rerip = False\<rparr>
      in (rv_version rv + of_bool (rv_repack rv) + of_bool (rv_proper rv) + of_bool (rv_rerip rv)) mod 2 ^ 32)"

end
