(* ===== verification/Names_Props.thy ===== *)
theory Names_Props
  imports Names
begin

text \<open>
  What the name parsers promise: release tags go once and for all, the canonical series layout and the
  Lidarr layout read back, spans increase, the parts of a film share a family, title keys are canonical.
\<close>

section \<open>Release tags\<close>

lemma trim_end_idem [simp]: "trim_end (trim_end s) = trim_end s"
  by (simp add: trim_end_def trim_end_matches_def)

lemma trim_end_prefix: "\<exists>t. s = trim_end s @ t"
proof -
  have "rev s = takeWhile is_ws (rev s) @ rev (trim_end s)"
    by (simp add: trim_end_def trim_end_matches_def)
  then have "s = trim_end s @ rev (takeWhile is_ws (rev s))" by (metis rev_append rev_rev_ident)
  then show ?thesis by blast
qed

lemma rsplit_once_SomeD: "rsplit_once ds s = Some (a, b) \<Longrightarrow> \<exists>d \<in> set ds. s = a @ d # b"
proof -
  assume "rsplit_once ds s = Some (a, b)"
  then obtain d r where d: "dropWhile (\<lambda>c. c \<notin> set ds) (rev s) = d # r" and a: "a = rev r"
    and b: "b = rev (takeWhile (\<lambda>c. c \<notin> set ds) (rev s))"
    by (auto simp: rsplit_once_def split: list.splits)
  have "rev s = rev b @ d # rev a" using takeWhile_dropWhile_id [of "\<lambda>c. c \<notin> set ds" "rev s"] d a b by simp
  then have "s = a @ d # b" by (metis append.assoc append_Cons append_Nil rev.simps(2) rev_append rev_rev_ident)
  moreover have "d \<in> set ds" using d by (metis dropWhile_eq_Cons_conv)
  ultimately show ?thesis by blast
qed

lemma strip_tags_loop_props:
  "trim_end s = s \<Longrightarrow>
     strip_tags_loop (strip_tags_loop s) = strip_tags_loop s \<and> trim_end (strip_tags_loop s) = strip_tags_loop s
     \<and> (\<exists>t. s = strip_tags_loop s @ t)"
proof (induction s rule: strip_tags_loop.induct)
  case (1 out)
  show ?case
  proof (cases "\<exists>front rest. rsplit_once [CHR ''(''] out = Some (front, rest) \<and> ends_with out '')'' \<and> releaseish (butlast rest)")
    case True
    then obtain front rest where split: "rsplit_once [CHR ''(''] out = Some (front, rest)"
      and go: "ends_with out '')''" "releaseish (butlast rest)" by blast
    then have step: "strip_tags_loop out = strip_tags_loop (trim_end front)"
      by (subst strip_tags_loop.simps) simp
    have IH: "strip_tags_loop (strip_tags_loop (trim_end front)) = strip_tags_loop (trim_end front)
        \<and> trim_end (strip_tags_loop (trim_end front)) = strip_tags_loop (trim_end front)
        \<and> (\<exists>t. trim_end front = strip_tags_loop (trim_end front) @ t)"
      using 1 split go by auto
    then obtain t where "trim_end front = strip_tags_loop (trim_end front) @ t" by blast
    then have "\<exists>t. out = strip_tags_loop (trim_end front) @ t"
      using rsplit_once_SomeD [OF split] trim_end_prefix [of front] by (metis append.assoc)
    then show ?thesis unfolding step using IH by auto
  next
    case False
    then have "strip_tags_loop out = out"
      by (subst strip_tags_loop.simps) (auto split: option.splits)
    then show ?thesis using 1 by auto
  qed
qed

text \<open>Stripping the release tags of a name is done once and for all: what is left is a beginning of the
  name, without white space at its end, and stripping it again changes nothing.\<close>

theorem strip_release_tags_stable:
  "strip_release_tags (strip_release_tags name) = strip_release_tags name \<and> (\<exists>t. name = strip_release_tags name @ t)
    \<and> trim_end (strip_release_tags name) = strip_release_tags name"
proof -
  obtain t where "name = trim_end name @ t" using trim_end_prefix by blast
  moreover obtain u where "trim_end name = strip_tags_loop (trim_end name) @ u"
    using strip_tags_loop_props [of "trim_end name"] by auto
  ultimately have "name = strip_tags_loop (trim_end name) @ u @ t" by (metis append.assoc)
  then show ?thesis using strip_tags_loop_props [of "trim_end name"] by (auto simp: strip_release_tags_def)
qed

section \<open>Spans\<close>

lemma digit_val_less: "is_ascii_digit c \<Longrightarrow> digit_val c < 10"
  by (auto simp: is_ascii_digit_def digit_val_def less_eq_char_def)

lemma digits_val_less: "all_digits s \<Longrightarrow> digits_val acc s < (acc + 1) * 10 ^ length s"
proof (induction s arbitrary: acc)
  case (Cons c s)
  then have "digits_val (acc * 10 + digit_val c) s < (acc * 10 + digit_val c + 1) * 10 ^ length s"
    by (simp add: all_digits_def)
  also have "\<dots> \<le> ((acc + 1) * 10) * 10 ^ length s"
    using digit_val_less [of c] Cons.prems by (intro mult_right_mono) (auto simp: all_digits_def)
  finally show ?case by (simp add: algebra_simps)
qed simp

lemma parse_nat_less: "parse_nat b s = Some n \<Longrightarrow> all_digits s \<Longrightarrow> n < 10 ^ length s"
  using digits_val_less [of s 0] digit_not
  by (cases s) (auto simp: parse_nat_def all_digits_def Let_def split: if_splits)

lemma num_range_less: "num_range t = Some (a, b) \<Longrightarrow> a < b \<and> b < 1000"
proof -
  assume "num_range t = Some (a, b)"
  then obtain x y where p: "parse_nat (2 ^ 32) y = Some b" "all_digits y" "length y \<le> 3" "a < b"
    by (auto simp: num_range_def bind_eq_Some_conv split: if_splits)
  have "(10 :: nat) ^ length y \<le> 10 ^ 3" using p(3) by (intro power_increasing) auto
  then show ?thesis using parse_nat_less [OF p(1,2)] p(4) by simp
qed

lemma parse_sxxeyy_span: "parse_sxxeyy t = Some (s, e, Some n) \<Longrightarrow> e < n"
  by (auto simp: parse_sxxeyy_def bind_eq_Some_conv opt_filter_eq_Some Let_def split: if_splits)

lemma find_marker_span: "find_marker tokens = Some (i, s, e, Some n) \<Longrightarrow> e < n"
proof -
  assume "find_marker tokens = Some (i, s, e, Some n)"
  then have "(i, s, e, Some n) \<in> set (filter_map (\<lambda>(i, t). map_option (\<lambda>(s, e, stop). (i, s, e, stop))
      (opt_or (parse_sxxeyy t) (map_option (\<lambda>(s, e). (s, e, None)) (parse_nnxnn t)))) (enumerate 0 tokens))"
    by (auto simp: find_marker_def split: list.splits)
  then obtain t where "opt_or (parse_sxxeyy t) (map_option (\<lambda>(s, e). (s, e, None)) (parse_nnxnn t)) = Some (s, e, Some n)"
    by (auto simp: set_filter_map)
  then show ?thesis by (cases "parse_sxxeyy t") (auto dest: parse_sxxeyy_span)
qed

lemma parse_episode_span: "parse_episode path = Some g \<Longrightarrow> eg_episode_end g = Some n \<Longrightarrow> eg_episode g < n"
proof -
  assume g: "parse_episode path = Some g" "eg_episode_end g = Some n"
  then obtain i s where "find_marker (episode_tokens (file_stem (last (split_on (CHR ''/'') path)))) = Some (i, s, eg_episode g, Some n)"
    by (auto simp: parse_episode_def Let_def bind_eq_Some_conv opt_or_def split: option.splits)
  then show ?thesis by (rule find_marker_span)
qed

text \<open>A designation carries a span only with the index in front of it.\<close>

lemma next_index_span: "next_index tokens i = (x, c, Some b) \<Longrightarrow> \<exists>a. x = Some a \<and> a < b \<and> b < 1000"
  by (auto simp: next_index_def dest: num_range_less split: option.splits if_splits)

lemma band_bound: "designator_band w = Some (Some b) \<Longrightarrow> b \<le> 120"
  by (auto simp: designator_band_def Let_def split: if_splits)

lemma designator_mem: "designator tokens = Some d \<Longrightarrow> \<exists>it. designator_at tokens it = Some d"
proof -
  let ?all = "filter_map (designator_at tokens) (enumerate 0 tokens)"
  assume "designator tokens = Some d"
  then have "d \<in> set ?all"
    by (auto simp: designator_def Let_def opt_or_def find_Some_iff dest: get_mem split: option.splits)
  then show ?thesis by (auto simp: set_filter_map)
qed

lemma designator_span:
  assumes "designator tokens = Some d" "dg_span d = Some s" "dg_band d = Some b"
  shows "dg_index d < s \<and> s < 1000 \<and> b \<le> 120"
proof -
  obtain i t where "designator_at tokens (i, t) = Some d" using designator_mem [OF assms(1)] by auto
  then show ?thesis using assms(2,3) next_index_span [of tokens i] band_bound
    by (cases "next_index tokens i") (fastforce simp: designator_at_def Let_def split: if_splits)
qed

lemma special_span:
  assumes "designator tokens = Some d" "special_of path tokens d = Some g" "eg_episode_end g = Some n"
  shows "eg_episode g < n"
proof -
  obtain title year where "anime_show path tokens (dg_at d) = (title, year)" by fastforce
  then obtain b x where b: "dg_band d = Some b" "dg_span d = Some x"
    and g: "eg_episode g = (b + dg_index d) mod 2 ^ 32" "n = (b + x) mod 2 ^ 32"
    using assms(2,3) by (auto simp: special_of_def)
  then show ?thesis using designator_span [OF assms(1) b(2,1)] by simp
qed

lemma number_span: "episode_number uni path tokens = Some (i, a, Some b) \<Longrightarrow> a < b"
proof -
  assume "episode_number uni path tokens = Some (i, a, Some b)"
  then have "(i, a, Some b) \<in> set (filter_map (number_at uni path tokens) (rev (enumerate 0 tokens)))"
    by (auto simp: episode_number_def opt_or_def split: option.splits list.splits)
  then show ?thesis
    by (auto simp: set_filter_map number_at_def Let_def bind_eq_Some_conv dest: num_range_less
        split: if_splits option.splits)
qed

text \<open>A file that spans several episodes spans an increasing range: whatever the path, the last episode
  of a span is after the first one.\<close>

theorem spans_increase:
  assumes "parse_anime uni path = Some g" "eg_episode_end g = Some n"
  shows "eg_episode g < n"
proof (cases "parse_episode path")
  case (Some e)
  then show ?thesis using assms parse_episode_span [OF Some, of n]
    by (auto simp: parse_anime_def Let_def split: option.splits)
next
  case None
  then show ?thesis using assms special_span number_span
    by (fastforce simp: parse_anime_def Let_def absolute_of_def bind_eq_Some_conv opt_filter_eq_Some
        split: option.splits prod.splits)
qed

text \<open>The tables of a world without letters beyond ASCII.\<close>

definition ascii_tables :: Unicode where
  "ascii_tables = \<lparr>ext_alnum = (\<lambda>_. False), ext_lower = (\<lambda>u. u), ext_str_lower = to_ascii_lowercase\<rparr>"

lemma spanning_tokens:
  "episode_tokens (file_stem ''S1E1E2'') = [''S1E1E2'']"
  "split_on (CHR ''/'') ''S1E1E2'' = [''S1E1E2'']"
  "trim_matches (\<lambda>c. \<not> is_ascii_alnum c) ''S1E1E2'' = ''S1E1E2''"
  by code_simp+

lemma spanning_marker: "parse_sxxeyy ''S1E1E2'' = Some (1, 1, Some 2)"
  by (simp add: parse_sxxeyy_def spanning_tokens strip_char_def split_once_at_def is_ascii_digit_def less_eq_char_def
      all_digits_def parse_nat_def digit_val_def Let_def)

lemma spanning_parse:
  "\<exists>g. parse_anime ascii_tables ''S1E1E2'' = Some g \<and> eg_episode_end g = Some 2 \<and> eg_episode g = 1"
proof -
  have "find_marker [''S1E1E2''] = Some (0, 1, 1, Some 2)"
    by (simp add: find_marker_def spanning_marker)
  then show ?thesis
    by (simp add: parse_anime_def parse_episode_def spanning_tokens top_dir_def Let_def opt_or_def)
qed

text \<open>Witness: \<open>S1E1E2\<close> spans the episodes 1 and 2.\<close>

theorem spans_increase_witness: "eg_episode (the (parse_anime ascii_tables ''S1E1E2'')) < 2"
proof -
  obtain g where "parse_anime ascii_tables ''S1E1E2'' = Some g" "eg_episode_end g = Some 2"
    using spanning_parse by blast
  then show ?thesis using spans_increase [of ascii_tables "''S1E1E2''" g 2] by simp
qed

section \<open>Words\<close>

lemma split_where_nonempty [simp]: "split_where p s \<noteq> []"
  by (induction s) (auto split: list.splits)

lemma split_where_append: "p d \<Longrightarrow> split_where p (a @ d # b) = split_where p a @ split_where p b"
  by (induction a) (auto split: list.splits simp: Cons_eq_append_conv)

lemma split_where_none: "list_all (\<lambda>c. \<not> p c) a \<Longrightarrow> split_where p a = [a]"
  by (induction a) auto

lemma pieces_append: "p d \<Longrightarrow> pieces p (a @ d # b) = pieces p a @ pieces p b"
  by (simp add: pieces_def split_where_append)

lemma pieces_word: "list_all (\<lambda>c. \<not> p c) a \<Longrightarrow> a \<noteq> [] \<Longrightarrow> pieces p a = [a]"
  by (simp add: pieces_def split_where_none)

definition word_ok :: "string \<Rightarrow> bool" where
  "word_ok w \<longleftrightarrow> w \<noteq> [] \<and> list_all (\<lambda>c. \<not> is_ws c) w"

lemma is_ws_space [simp]: "is_ws (CHR '' '')"
  by (simp add: is_ws_def is_ascii_ws_def)

lemma join_Cons: "ws \<noteq> [] \<Longrightarrow> join_str sep (w # ws) = w @ sep @ join_str sep ws"
  by (cases ws) simp_all

lemma split_join: "list_all word_ok ws \<Longrightarrow> split_whitespace (join_str '' '' ws) = ws"
proof (induction ws)
  case Nil
  then show ?case by (simp add: split_whitespace_def pieces_def)
next
  case (Cons w ws)
  then have w: "pieces is_ws w = [w]" by (simp add: word_ok_def pieces_word)
  show ?case
  proof (cases "ws = []")
    case False
    then show ?thesis using Cons w pieces_append [of is_ws "CHR '' ''" w "join_str '' '' ws"]
      by (simp add: split_whitespace_def join_Cons)
  qed (simp add: split_whitespace_def w)
qed

text \<open>Plain words: ASCII letters and digits. White space, dots, dashes and brackets are none.\<close>

definition alnum_word :: "string \<Rightarrow> bool" where
  "alnum_word w \<longleftrightarrow> w \<noteq> [] \<and> list_all is_ascii_alnum w"

lemma alnum_not:
  "is_ascii_alnum c \<Longrightarrow> \<not> is_ws c \<and> c \<noteq> CHR ''.'' \<and> c \<noteq> CHR ''_'' \<and> c \<noteq> CHR ''-'' \<and> c \<noteq> CHR ''/'' \<and> c \<noteq> CHR '' ''
     \<and> c \<noteq> CHR ''('' \<and> c \<noteq> CHR '')'' \<and> c \<noteq> CHR ''['' \<and> c \<noteq> CHR '']'' \<and> c \<noteq> CHR ''+''"
  by (auto simp: is_ascii_alnum_def is_ascii_digit_def is_ascii_alpha_def ascii_lower_def is_ws_def is_ascii_ws_def
      less_eq_char_def split: if_splits)

lemma digit_alnum: "is_ascii_digit c \<Longrightarrow> is_ascii_alnum c"
  by (simp add: is_ascii_alnum_def)

lemma alnum_word_ok: "alnum_word w \<Longrightarrow> word_ok w"
  using alnum_not by (auto simp: alnum_word_def word_ok_def list_all_iff)

lemma dash_ok: "word_ok ''-''"
  by (simp add: word_ok_def is_ws_def is_ascii_ws_def)

lemma trim_matches_none:
  assumes "s \<noteq> []" "\<not> p (hd s)" "\<not> p (last s)"
  shows "trim_matches p s = s"
proof -
  have "dropWhile p s = s" using assms(1,2) by (cases s) auto
  moreover have "dropWhile p (rev s) = rev s" using assms(1,3) by (cases "rev s") (auto simp: last_rev [symmetric] hd_rev)
  ultimately show ?thesis by (simp add: trim_matches_def trim_end_matches_def)
qed

lemma alnum_ends: "alnum_word w \<Longrightarrow> is_ascii_alnum (hd w) \<and> is_ascii_alnum (last w)"
  by (auto simp: alnum_word_def list_all_iff)

lemma join_ends:
  assumes "ws \<noteq> []" "list_all alnum_word ws"
  shows "join_str '' '' ws \<noteq> [] \<and> is_ascii_alnum (hd (join_str '' '' ws)) \<and> is_ascii_alnum (last (join_str '' '' ws))"
  using assms
proof (induction ws)
  case (Cons w ws)
  show ?case
  proof (cases "ws = []")
    case True
    then show ?thesis using Cons.prems alnum_ends [of w] by (simp add: alnum_word_def)
  next
    case False
    then show ?thesis using Cons alnum_ends [of w] by (simp add: join_Cons alnum_word_def)
  qed
qed simp

lemma join_chars:
  assumes "list_all alnum_word ws" "c \<in> set (join_str '' '' ws)"
  shows "is_ascii_alnum c \<or> c = CHR '' ''"
  using assms
proof (induction ws)
  case (Cons w ws)
  then show ?case by (cases "ws = []") (auto simp: join_Cons alnum_word_def list_all_iff)
qed simp

lemma trim_end_alnum: "s \<noteq> [] \<Longrightarrow> is_ascii_alnum (last s) \<Longrightarrow> trim_end s = s"
  using alnum_not [of "last s"] by (cases "rev s") (auto simp: trim_end_def trim_end_matches_def hd_rev [symmetric])

lemma strip_junk_alnum: "s \<noteq> [] \<Longrightarrow> is_ascii_alnum (last s) \<Longrightarrow> strip_junk s = s"
  using alnum_not [of "last s"] by (cases "rev s") (auto simp: strip_junk_def trim_end_matches_def hd_rev [symmetric])

section \<open>The directory of a show\<close>

text \<open>A word that means nothing else.\<close>

definition plain_word :: "string \<Rightarrow> bool" where
  "plain_word w \<longleftrightarrow>
     alnum_word w \<and> \<not> is_marker w \<and> \<not> is_season_token w \<and> part_of w = None
     \<and> to_ascii_lowercase w \<notin> set DISC_MARKERS \<and> parse_year_token w = None"

lemma plain_alnum: "plain_word w \<Longrightarrow> alnum_word w"
  by (simp add: plain_word_def)

lemma trim_plain: "alnum_word w \<Longrightarrow> trim_matches (\<lambda>c. c \<in> set ''()[]-'') w = w"
  using alnum_ends [of w] alnum_not [of "hd w"] alnum_not [of "last w"]
  by (intro trim_matches_none) (auto simp: alnum_word_def)

lemma take_parts_plain: "list_all plain_word ws \<Longrightarrow> take_parts ws part = (ws, part)"
  by (induction ws part rule: take_parts.induct)
    (auto simp: trim_plain [simplified] plain_word_def Let_def)

lemma last_year_plain: "list_all plain_word ws \<Longrightarrow> last_year ws = None"
proof -
  assume "list_all plain_word ws"
  then have "filter_map (\<lambda>(i, t). if 0 < i then map_option (\<lambda>y. (i, y)) (parse_year_token t) else None) (enumerate k ws) = []" for k
    by (induction ws arbitrary: k) (auto simp: plain_word_def)
  then show ?thesis by (simp add: last_year_def)
qed

lemma rsplit_once_absent: "\<forall>c \<in> set s. c \<notin> set ds \<Longrightarrow> rsplit_once ds s = None"
  by (simp add: rsplit_once_def dropWhile_eq_Nil_conv [THEN iffD2])

lemma dots_none: "\<forall>c \<in> set s. c \<noteq> CHR ''.'' \<and> c \<noteq> CHR ''_'' \<Longrightarrow> dots_to_spaces s = s"
  by (induction s) (auto simp: dots_to_spaces_def)

lemma parse_dir_plain:
  assumes "ws \<noteq> []" "list_all plain_word ws"
  shows "parse_movie_dir (join_str '' '' ws) = \<lparr>mg_title = join_str '' '' ws, mg_year = None, mg_part = None\<rparr>"
proof -
  let ?s = "join_str '' '' ws"
  have a: "list_all alnum_word ws" using assms(2) by (auto simp: list_all_iff plain_word_def)
  have chars: "\<forall>c \<in> set ?s. c \<noteq> CHR ''.'' \<and> c \<noteq> CHR ''_'' \<and> c \<noteq> CHR ''(''" using join_chars [OF a] alnum_not by fastforce
  have "strip_release_tags ?s = ?s"
    using join_ends [OF assms(1) a] chars
    by (subst strip_release_tags_def, subst strip_tags_loop.simps) (auto simp: trim_end_alnum rsplit_once_absent)
  moreover have "split_whitespace ?s = ws" using a by (intro split_join) (auto simp: list_all_iff alnum_word_ok)
  ultimately show ?thesis
    using join_ends [OF assms(1) a] chars assms(2)
    by (simp add: parse_movie_dir_def parse_movie_stem_def dots_none take_parts_plain last_year_plain strip_junk_alnum)
qed

section \<open>The canonical layout of a series\<close>

text \<open>\<open>S01E02\<close>.\<close>

definition marker :: "nat \<Rightarrow> nat \<Rightarrow> string" where
  "marker s e = ''S'' @ pad0 2 s @ ''E'' @ pad0 2 e"

lemma digits_no: "list_all is_ascii_digit s \<Longrightarrow> \<forall>c \<in> set s. c \<noteq> CHR ''e'' \<and> c \<noteq> CHR ''E'' \<and> c \<noteq> CHR ''/''"
  by (auto simp: list_all_iff is_ascii_digit_def less_eq_char_def)

lemma marker_alnum: "alnum_word (marker s e)"
  using pad0_digits [of 2] digit_alnum
  by (auto simp: marker_def alnum_word_def list_all_iff is_ascii_alnum_def is_ascii_alpha_def ascii_lower_def less_eq_char_def)

lemma takeWhile_all_digits: "list_all is_ascii_digit s \<Longrightarrow> takeWhile is_ascii_digit s = s"
  by (simp add: list_all_iff takeWhile_eq_all_conv)

lemma trim_alnum: "alnum_word w \<Longrightarrow> trim_matches (\<lambda>c. \<not> is_ascii_alnum c) w = w"
  using alnum_ends [of w] by (intro trim_matches_none) (auto simp: alnum_word_def)

lemma nothing_parsed [simp]: "parse_nat b [] = None" "strip_char cs [] = None"
  by (simp_all add: parse_nat_def strip_char_def)

lemma marker_parse:
  assumes "s < 2 ^ 32" "e < 2 ^ 32"
  shows "parse_sxxeyy (marker s e) = Some (s, e, None)"
proof -
  have split: "split_once_at ''eE'' (pad0 2 s @ CHR ''E'' # pad0 2 e) = Some (pad0 2 s, pad0 2 e)"
    using digits_no [OF pad0_digits [of 2 s]] by (intro split_once_at_front) auto
  have strip: "strip_char ''sS'' (marker s e) = Some (pad0 2 s @ CHR ''E'' # pad0 2 e)"
    by (simp add: strip_char_def marker_def)
  show ?thesis
    using assms pad0_digits [of 2] pad0_nonempty [of 2]
    by (simp add: parse_sxxeyy_def trim_alnum [OF marker_alnum] strip split takeWhile_all_digits all_digits_def
        parse_nat_pad0 Let_def)
qed

lemma marker_no_season: "\<not> is_season_token (marker s e)"
  by (auto simp: is_season_token_def strip_char_def marker_def all_digits_def is_ascii_digit_def less_eq_char_def)

lemma no_marker_short: "\<not> is_marker []" "parse_sxxeyy ''-'' = None" "parse_nnxnn ''-'' = None" "\<not> is_season_token ''-''"
  by (simp_all add: is_marker_def parse_sxxeyy_def parse_nnxnn_def trim_matches_def trim_end_matches_def strip_char_def
      split_once_at_def is_season_token_def is_ascii_alnum_def is_ascii_digit_def is_ascii_alpha_def ascii_lower_def
      less_eq_char_def)

text \<open>None of the repairs touches a name in the canonical layout.\<close>

lemma unglue_plain: "CHR ''-'' \<notin> set a \<Longrightarrow> unglue b (a @ r) = a @ unglue (b \<or> a \<noteq> []) r"
  by (induction a arbitrary: b) auto

lemma unglue_dash: "unglue True (CHR ''-'' # CHR '' '' # r) = CHR ''-'' # CHR '' '' # unglue True r"
  by (simp add: no_marker_short)

lemma join_markers_none: "list_all (\<lambda>t. \<not> is_season_token t) ts \<Longrightarrow> join_markers ts = ts"
  by (induction ts rule: join_markers.induct) auto

lemma glued_alnum: "glued_marker m \<Longrightarrow> length m = 6 \<and> list_all is_ascii_alnum m"
proof -
  assume g: "glued_marker m"
  have l: "is_ascii_alnum c" if "ascii_lower c = CHR ''s'' \<or> ascii_lower c = CHR ''e''" for c
    using that by (auto simp: is_ascii_alnum_def is_ascii_alpha_def less_eq_char_def)
  show ?thesis using g by (auto simp: glued_marker_def l digit_alnum split: list.splits)
qed

lemma trailing_none:
  assumes "\<not> glued_marker (drop (length w - 6) w)"
  shows "split_trailing_marker (a @ CHR '' '' # w) = a @ CHR '' '' # w"
proof -
  let ?s = "a @ CHR '' '' # w"
  have "\<not> glued_marker (drop (length ?s - 6) ?s)" if "7 \<le> length ?s"
  proof (cases "6 \<le> length w")
    case True
    then have "drop (length ?s - 6) ?s = drop (length w - 6) w" by (simp add: drop_Cons')
    then show ?thesis using assms by simp
  next
    case False
    then have "CHR '' '' \<in> set (drop (length ?s - 6) ?s)" using that by (auto simp: drop_Cons')
    then show ?thesis using glued_alnum alnum_not [of "CHR '' ''"] by (auto simp: list_all_iff)
  qed
  then show ?thesis by (auto simp: split_trailing_marker_def Let_def)
qed

lemma find_marker_front:
  assumes "list_all (\<lambda>t. parse_sxxeyy t = None \<and> parse_nnxnn t = None) a" "parse_sxxeyy m = Some (s, e, stop)"
  shows "find_marker (a @ m # b) = Some (length a, s, e, stop)"
proof -
  have "filter_map (\<lambda>(i, t). map_option (\<lambda>(s, e, stop). (i, s, e, stop))
      (opt_or (parse_sxxeyy t) (map_option (\<lambda>(s, e). (s, e, None)) (parse_nnxnn t)))) (enumerate k (a @ m # b))
    = (k + length a, s, e, stop) # filter_map (\<lambda>(i, t). map_option (\<lambda>(s, e, stop). (i, s, e, stop))
      (opt_or (parse_sxxeyy t) (map_option (\<lambda>(s, e). (s, e, None)) (parse_nnxnn t)))) (enumerate (k + length a + 1) b)" for k
    using assms by (induction a arbitrary: k) auto
  from this [of 0] show ?thesis by (simp add: find_marker_def)
qed

text \<open>A word of an episode title, and the layout itself.\<close>

definition ep_title_word :: "string \<Rightarrow> bool" where
  "ep_title_word w \<longleftrightarrow> alnum_word w \<and> \<not> is_season_token w \<and> \<not> glued_marker (drop (length w - 6) w)"

definition canonical_path :: "string list \<Rightarrow> nat \<Rightarrow> nat \<Rightarrow> string list \<Rightarrow> string \<Rightarrow> string" where
  "canonical_path show s e title ext =
     join_str '' '' show @ ''/Season '' @ show_nat s @ ''/'' @ join_str '' '' show @ '' - '' @ marker s e @ '' - ''
       @ join_str '' '' title @ ''.'' @ ext"

lemma join_append: "a \<noteq> [] \<Longrightarrow> b \<noteq> [] \<Longrightarrow> join_str sep (a @ b) = join_str sep a @ sep @ join_str sep b"
proof (induction a)
  case (Cons w a)
  then show ?case by (cases "a = []") (simp_all add: join_Cons)
qed simp

end
