(* ===== verification/Names_Canonical.thy ===== *)
theory Names_Canonical
  imports Names_Props
begin

text \<open>
  The canonical layout of a series reads back, and the parts of a film share the family of its extras.
\<close>

section \<open>The tokens of a canonical stem\<close>

text \<open>\<open>Show - S01E02 - Title\<close>, with the marker a word of its own.\<close>

abbreviation dashed :: "string list \<Rightarrow> string \<Rightarrow> string list \<Rightarrow> string" where
  "dashed ws m ts \<equiv> join_str '' '' ws @ '' - '' @ m @ '' - '' @ join_str '' '' ts"

lemma dashed_join:
  assumes "ws \<noteq> []" "ts \<noteq> []"
  shows "join_str '' '' (ws @ [''-'', m, ''-''] @ ts) = dashed ws m ts"
  using assms by (simp only: join_append join_Cons join_str.simps append_Cons append_Nil append_assoc list.simps simp_thms)

lemma dashed_chars:
  assumes "list_all alnum_word ws" "alnum_word m" "list_all alnum_word ts" "c \<in> set (dashed ws m ts)"
  shows "is_ascii_alnum c \<or> c = CHR '' '' \<or> c = CHR ''-''"
proof -
  have "c \<in> set (join_str '' '' ws) \<or> c \<in> set m \<or> c \<in> set (join_str '' '' ts) \<or> c = CHR '' '' \<or> c = CHR ''-''"
    using assms(4) by simp blast
  then show ?thesis
    using join_chars [OF assms(1)] join_chars [OF assms(3)] assms(2) by (simp add: alnum_word_def list_all_iff) blast
qed

lemma dash_absent:
  assumes "list_all alnum_word ws"
  shows "CHR ''-'' \<notin> set (join_str '' '' ws)"
  using join_chars [OF assms, of "CHR ''-''"] alnum_not [of "CHR ''-''"] by auto

lemma dash_absent_word:
  assumes "alnum_word m"
  shows "CHR ''-'' \<notin> set m"
  using assms alnum_not [of "CHR ''-''"] by (auto simp: alnum_word_def list_all_iff)

lemma dashed_unglue:
  assumes "list_all alnum_word ws" "alnum_word m" "list_all alnum_word ts"
  shows "unglue False (dashed ws m ts) = dashed ws m ts"
proof -
  have "CHR ''-'' \<notin> set (join_str '' '' ws @ '' '')" using dash_absent [OF assms(1)] by simp
  note A = unglue_plain [OF this, of False "CHR ''-'' # CHR '' '' # m @ '' - '' @ join_str '' '' ts"]
  have "CHR ''-'' \<notin> set (m @ '' '')" using dash_absent_word [OF assms(2)] by simp
  note B = unglue_plain [OF this, of True "CHR ''-'' # CHR '' '' # join_str '' '' ts"]
  note C = unglue_plain [OF dash_absent [OF assms(3)], of True "[]"]
  show ?thesis
    using A B C unglue_dash [of "m @ '' - '' @ join_str '' '' ts"] unglue_dash [of "join_str '' '' ts"]
    by (simp del: unglue.simps(2))
qed

lemma dashed_trailing:
  assumes "ts \<noteq> []" "list_all ep_title_word ts"
  shows "split_trailing_marker (dashed ws m ts) = dashed ws m ts"
proof -
  obtain us w where ts: "ts = us @ [w]" using assms(1) by (metis rev_exhaust)
  then have w: "\<not> glued_marker (drop (length w - 6) w)" using assms(2) by (simp add: ep_title_word_def)
  have "\<exists>b. dashed ws m ts = b @ CHR '' '' # w"
  proof (cases "us = []")
    case True
    then show ?thesis using ts by (intro exI [of _ "join_str '' '' ws @ '' - '' @ m @ '' -''"]) simp
  next
    case False
    then show ?thesis using ts
      by (intro exI [of _ "join_str '' '' ws @ '' - '' @ m @ '' - '' @ join_str '' '' us"]) (simp add: join_append)
  qed
  then show ?thesis using trailing_none [OF w] by metis
qed

lemma canonical_tokens:
  assumes "ws \<noteq> []" "list_all plain_word ws" "ts \<noteq> []" "list_all ep_title_word ts"
  shows "episode_tokens (dashed ws (marker s e) ts) = ws @ [''-'', marker s e, ''-''] @ ts"
proof -
  let ?toks = "ws @ [''-'', marker s e, ''-''] @ ts"
  let ?stem = "dashed ws (marker s e) ts"
  have a: "list_all alnum_word ws" "list_all alnum_word ts"
    using assms(2,4) by (simp_all add: list_all_iff plain_word_def ep_title_word_def)
  have ok: "list_all word_ok ?toks"
    using a marker_alnum dash_ok alnum_word_ok by (auto simp: list_all_iff)
  have "CHR ''.'' \<notin> set ?stem \<and> CHR ''_'' \<notin> set ?stem"
    using dashed_chars [OF a(1) marker_alnum a(2), of "CHR ''.''" s e] dashed_chars [OF a(1) marker_alnum a(2), of "CHR ''_''" s e]
      alnum_not [of "CHR ''.''"] alnum_not [of "CHR ''_''"] by blast
  then have chars: "\<forall>c \<in> set ?stem. c \<noteq> CHR ''.'' \<and> c \<noteq> CHR ''_''" by blast
  have join: "join_markers ?toks = ?toks"
    using assms(2,4) marker_no_season no_marker_short(4)
    by (intro join_markers_none) (auto simp: list_all_iff plain_word_def ep_title_word_def)
  note words = split_join [OF ok, unfolded dashed_join [OF assms(1,3)]]
  show ?thesis
    unfolding episode_tokens_def split_glued_marker_def join_split_marker_def dots_none [OF chars]
      dashed_unglue [OF a(1) marker_alnum a(2)] words join dashed_join [OF assms(1,3)]
      dashed_trailing [OF assms(3,4)] ..
qed

lemma rsplit_dot: "\<forall>c \<in> set ext. c \<noteq> CHR ''.'' \<Longrightarrow> rsplit_once [CHR ''.''] (a @ CHR ''.'' # ext) = Some (a, ext)"
  by (rule rsplit_once_last) auto

lemma not_marker: "\<not> is_marker t \<Longrightarrow> parse_sxxeyy t = None \<and> parse_nnxnn t = None"
  by (metis is_marker_def)

lemma season_dir: "is_season_dir (''Season '' @ s)"
proof -
  have "map ascii_lower ''Season'' = ''season''" by code_simp
  then have "starts_with (to_ascii_lowercase (''Season'' @ r)) ''season''" for r
    by (simp only: to_ascii_lowercase_def map_append starts_with_append)
  from this [of "'' '' @ s"] show ?thesis by (simp add: is_season_dir_def Let_def)
qed

text \<open>C24. A series in the canonical layout - the directory of the show, a season directory, and
  \<open>Show - S01E02 - Title.ext\<close> - reads back: show, season, episode and episode title are the ones the path was
  made of. The words of the show are ASCII words that mean nothing else (no marker, no year, no disc), the
  words of the title are ASCII words that are no season token and do not end like a glued marker.\<close>

theorem canonical_path_parses:
  assumes "ws \<noteq> []" "list_all plain_word ws" "ts \<noteq> []" "list_all ep_title_word ts"
    and "s < 2 ^ 32" "e < 2 ^ 32" "\<not> is_season_dir (join_str '' '' ws)"
    and "\<forall>c \<in> set ext. c \<noteq> CHR ''.'' \<and> c \<noteq> CHR ''/''"
  shows "parse_episode (canonical_path ws s e ts ext)
    = Some \<lparr>eg_show_title = join_str '' '' ws, eg_show_year = None, eg_season = Some s, eg_episode = e,
        eg_episode_end = None, eg_episode_title = Some (join_str '' '' ts)\<rparr>"
proof -
  let ?stem = "join_str '' '' ws @ '' - '' @ marker s e @ '' - '' @ join_str '' '' ts"
  let ?file = "?stem @ ''.'' @ ext"
  have a: "list_all alnum_word ws" "list_all alnum_word ts"
    using assms(2,4) by (auto simp: list_all_iff plain_word_def ep_title_word_def)
  have m: "is_ascii_alnum c" if "c \<in> set (marker s e)" for c
    using marker_alnum [of s e] that by (simp add: alnum_word_def list_all_iff)
  have "is_ascii_alnum c \<or> c = CHR '' ''" if "c \<in> set (join_str '' '' ws) \<or> c \<in> set (join_str '' '' ts)" for c
    using that join_chars [OF a(1)] join_chars [OF a(2)] by auto
  then have slash: "CHR ''/'' \<notin> set (join_str '' '' ws)" "CHR ''/'' \<notin> set (join_str '' '' ts)" "CHR ''/'' \<notin> set (marker s e)"
    using m alnum_not by fastforce+
  have digits: "CHR ''/'' \<notin> set (show_nat s)" using digits_no show_nat_digits [of s] by blast
  have path: "canonical_path ws s e ts ext = join_str '' '' ws @ CHR ''/'' # (''Season '' @ show_nat s) @ CHR ''/'' # ?file"
    by (simp add: canonical_path_def)
  have single: "CHR ''/'' \<notin> set ?file" "CHR ''/'' \<notin> set (''Season '' @ show_nat s)" using slash digits assms(8) by auto
  have parts: "split_on (CHR ''/'') (canonical_path ws s e ts ext) = [join_str '' '' ws, ''Season '' @ show_nat s, ?file]"
    unfolding path split_on_front [OF slash(1)] split_on_front [OF single(2)] split_on_single [OF single(1)] ..
  have stem: "file_stem ?file = ?stem" using rsplit_dot [of ext ?stem] assms(8) by (simp add: file_stem_def)
  have tokens: "episode_tokens ?stem = ws @ marker_toks" if "marker_toks = [''-'', marker s e, ''-''] @ ts" for marker_toks
    using canonical_tokens [OF assms(1-4)] that by simp
  have none: "list_all (\<lambda>t. parse_sxxeyy t = None \<and> parse_nnxnn t = None) (ws @ [''-''])"
    using assms(2) no_marker_short by (auto simp: list_all_iff plain_word_def dest: not_marker)
  have found: "find_marker (ws @ [''-'', marker s e, ''-''] @ ts) = Some (length ws + 1, s, e, None)"
    using find_marker_front [OF none marker_parse [OF assms(5,6)], of "''-'' # ts"] by simp
  have title: "strip_junk (dropWhile (\<lambda>c. c = CHR ''-'' \<or> c = CHR '' '') (''- '' @ join_str '' '' ts)) = join_str '' '' ts"
  proof -
    have "dropWhile (\<lambda>c. c = CHR ''-'' \<or> c = CHR '' '') (join_str '' '' ts) = join_str '' '' ts"
      using join_ends [OF assms(3) a(2)] alnum_not [of "hd (join_str '' '' ts)"] by (cases "join_str '' '' ts") auto
    then show ?thesis using join_ends [OF assms(3) a(2)] by (simp add: strip_junk_alnum)
  qed
  have rest: "join_str '' '' (drop (length ws + 1 + 1) (ws @ [''-'', marker s e, ''-''] @ ts)) = ''- '' @ join_str '' '' ts"
    using assms(3) by (simp add: join_Cons)
  have nonempty: "join_str '' '' ws \<noteq> []" "join_str '' '' ts \<noteq> []" using join_ends assms(1,3) a by blast+
  have "find (\<lambda>d. \<not> is_season_dir d) (rev (butlast [join_str '' '' ws, ''Season '' @ show_nat s, ?file])) = Some (join_str '' '' ws)"
    using assms(7) season_dir [of "show_nat s"] by simp
  then show ?thesis
    unfolding parse_episode_def parts
    using nonempty tokens [OF refl] found rest title stem parse_dir_plain [OF assms(1,2)]
    by (simp add: Let_def text_or_def)
qed

text \<open>Witness of C24.\<close>

theorem canonical_path_parses_witness:
  "parse_episode (canonical_path [''Andor''] 1 2 [''Home''] ''mkv'')
    = Some \<lparr>eg_show_title = ''Andor'', eg_show_year = None, eg_season = Some 1, eg_episode = 2,
        eg_episode_end = None, eg_episode_title = Some ''Home''\<rparr>"
proof -
  have a: "alnum_word ''Andor''" by code_simp
  have "strip_char ''sS'' ''Andor'' = None" "split_once_at ''xX'' ''Andor'' = None"
    and low: "to_ascii_lowercase ''Andor'' = ''andor''" "trim ''andor'' = ''andor''" by code_simp+
  moreover have "filter_map (\<lambda>marker. opt_filter (\<lambda>rest. rest \<noteq> [] \<and> length rest \<le> 2 \<and> all_digits rest) (strip_prefix marker ''andor''))
      DISC_MARKERS = []" "''andor'' \<notin> set DISC_MARKERS" by code_simp+
  ultimately have "plain_word ''Andor''"
    by (simp add: plain_word_def a is_marker_def parse_sxxeyy_def parse_nnxnn_def trim_alnum is_season_token_def
        part_of_def parse_year_token_def trim_matches_none)
  moreover have "ep_title_word ''Home''" by code_simp
  moreover have "\<not> is_season_dir ''Andor''"
    by (simp add: is_season_dir_def low Let_def starts_with_def parse_nat_def is_ascii_digit_def less_eq_char_def)
  ultimately show ?thesis using canonical_path_parses [of "[''Andor'']" "[''Home'']" 1 2 "''mkv''"] by simp
qed

section \<open>Rendition families\<close>

lemma ascii_no_continuation: "is_ascii c \<Longrightarrow> \<not> is_continuation c"
  by (simp add: is_ascii_def is_continuation_def)

lemma scalars_append: "is_ascii c \<Longrightarrow> scalars (a @ c # b) = scalars a @ scalars (c # b)"
proof (induction a rule: scalars.induct)
  case (2 d s)
  have c: "\<not> is_continuation c" using 2(2) by (rule ascii_no_continuation)
  have "takeWhile is_continuation (s @ c # b) = takeWhile is_continuation s"
    using c by (induction s) auto
  moreover have "dropWhile is_continuation (s @ c # b) = dropWhile is_continuation s @ c # b"
    using c by (induction s) auto
  ultimately show ?case using 2 by simp
qed simp

lemma scalars_ascii: "list_all is_ascii s \<Longrightarrow> scalars s = map (\<lambda>c. [c]) s"
proof (induction s)
  case (Cons c s)
  have "takeWhile is_continuation s = [] \<and> dropWhile is_continuation s = s"
    using Cons.prems ascii_no_continuation by (cases s) auto
  then show ?case using Cons by simp
qed simp

lemma alnum_ascii: "is_ascii_alnum c \<Longrightarrow> is_ascii c"
  by (auto simp: is_ascii_alnum_def is_ascii_digit_def is_ascii_alpha_def ascii_lower_def is_ascii_def
      less_eq_char_def split: if_splits)

lemma scalar_alnum_ascii: "is_ascii c \<Longrightarrow> scalar_alnum uni [c] = is_ascii_alnum c"
  by (simp add: scalar_alnum_def)

lemma pieces_scalars:
  assumes "alnum_word w"
  shows "pieces (\<lambda>u. \<not> scalar_alnum uni u) (scalars (base @ CHR '' '' # w))
    = pieces (\<lambda>u. \<not> scalar_alnum uni u) (scalars base) @ [map (\<lambda>c. [c]) w]"
proof -
  have w: "list_all is_ascii w" using assms alnum_ascii by (auto simp: alnum_word_def list_all_iff)
  have space: "is_ascii (CHR '' '')" "\<not> is_ascii_alnum (CHR '' '')" by code_simp+
  have "scalars (base @ CHR '' '' # w) = scalars base @ [CHR '' ''] # map (\<lambda>c. [c]) w"
    using scalars_append [OF space(1), of base w] scalars_ascii [of "CHR '' '' # w"] w space(1) by simp
  moreover have "pieces (\<lambda>u. \<not> scalar_alnum uni u) (map (\<lambda>c. [c]) w) = [map (\<lambda>c. [c]) w]"
    using assms w scalar_alnum_ascii by (intro pieces_word) (auto simp: alnum_word_def list_all_iff)
  ultimately show ?thesis
    using pieces_append [of "\<lambda>u. \<not> scalar_alnum uni u" "[CHR '' '']"] scalar_alnum_ascii [OF space(1), of uni] space(2) by simp
qed

lemma family_words_last:
  "attached_marker w \<Longrightarrow> \<not> family_number w \<Longrightarrow> family_words (ws @ [w]) = family_words ws"
  by (induction ws rule: family_words.induct) auto

lemma concat_singles [simp]: "concat (map (\<lambda>c. [c]) w) = w"
  by (induction w) auto

lemma lower_digits: "all_digits d \<Longrightarrow> to_ascii_lowercase d = d"
  by (induction d) (auto simp: to_ascii_lowercase_def all_digits_def is_ascii_digit_def ascii_lower_def less_eq_char_def)

text \<open>The parts of a film are of one rendition family: two files of one directory whose names differ in
  the number behind their disc marker (\<open>Film CD1.avi\<close>, \<open>Film CD2.avi\<close>) have one key, whatever the rest of
  the name is.\<close>

theorem parts_share_family:
  assumes "to_ascii_lowercase m \<in> set DISC_MARKERS" "family_number d1" "family_number d2"
    and "CHR ''/'' \<notin> set base" "\<forall>c \<in> set ext. c \<noteq> CHR ''.'' \<and> c \<noteq> CHR ''/''"
  shows "rendition_family_key uni (dir @ ''/'' @ base @ '' '' @ m @ d1 @ ''.'' @ ext)
    = rendition_family_key uni (dir @ ''/'' @ base @ '' '' @ m @ d2 @ ''.'' @ ext)"
proof -
  let ?ws = "map (\<lambda>w. str_lower uni (concat w)) (pieces (\<lambda>u. \<not> scalar_alnum uni u) (scalars base))"
  let ?key = "dir @ [CHR 0x0A] @ (if family_words ?ws = [] then ''@parts'' else join_str ''-'' (family_words ?ws))"
  have m: "to_ascii_lowercase m \<in> {''cd'', ''disc'', ''disk''}" using assms(1) by (simp add: DISC_MARKERS_def)
  have alpha: "is_ascii_alnum c" if "c \<in> set m" for c
  proof -
    have "ascii_lower c \<in> set (to_ascii_lowercase m)" using that by (simp add: to_ascii_lowercase_def)
    then have "ascii_lower c \<in> set ''cdisk''" using m by auto
    then show ?thesis by (auto simp: is_ascii_alnum_def is_ascii_alpha_def less_eq_char_def)
  qed
  have key: "rendition_family_key uni (dir @ ''/'' @ base @ '' '' @ m @ d @ ''.'' @ ext) = ?key" if "family_number d" for d
  proof -
    let ?w = "to_ascii_lowercase m @ d"
    have d: "d \<noteq> []" "all_digits d" using that by (auto simp: family_number_def)
    have word: "alnum_word (m @ d)"
      using alpha d digit_alnum by (auto simp: alnum_word_def all_digits_def list_all_iff)
    then have ascii: "list_all is_ascii (m @ d)" using alnum_ascii by (auto simp: alnum_word_def list_all_iff)
    have low: "str_lower uni (m @ d) = ?w"
      using ascii lower_digits [OF d(2)] by (simp add: str_lower_def) (simp add: to_ascii_lowercase_def)
    have no: "CHR ''/'' \<notin> set (m @ d)" "CHR ''.'' \<notin> set (m @ d)"
      using word alnum_not [of "CHR ''/''"] alnum_not [of "CHR ''.''"] by (auto simp: alnum_word_def list_all_iff)
    have split: "rsplit_once [CHR ''/''] (dir @ ''/'' @ base @ '' '' @ m @ d @ ''.'' @ ext)
        = Some (dir, (base @ '' '' @ m @ d) @ ''.'' @ ext)"
      using rsplit_once_last [of "CHR ''/''" "[CHR ''/'']" "base @ '' '' @ m @ d @ ''.'' @ ext" dir] assms(4,5) no(1) by auto
    have stem: "path_stem (dir @ ''/'' @ base @ '' '' @ m @ d @ ''.'' @ ext) = base @ CHR '' '' # m @ d"
      using rsplit_dot [of ext "base @ '' '' @ m @ d"] assms(5) by (simp add: path_stem_def split [simplified])
    have words: "map (\<lambda>w. str_lower uni (concat w)) (pieces (\<lambda>u. \<not> scalar_alnum uni u) (scalars (base @ CHR '' '' # m @ d))) = ?ws @ [?w]"
      by (simp only: pieces_scalars [OF word]) (simp add: low)
    have "attached_marker ?w"
      using m that by (auto simp: attached_marker_def DISC_MARKERS_def strip_prefix_def starts_with_def)
    moreover have "\<not> family_number ?w" using m d by (cases d) (auto simp: family_number_def)
    ultimately have kept: "family_words (?ws @ [?w]) = family_words ?ws" by (rule family_words_last)
    have "\<not> (length (?ws @ [?w]) = 1 \<and> is_some_and (strip_prefix ''part'' (hd (?ws @ [?w]))) family_number)"
      using m by (auto simp: strip_prefix_def starts_with_def)
    then show ?thesis
      unfolding rendition_family_key_def stem words Let_def kept
      by (simp only: path_parent_def split map_or_simps fst_conv) simp
  qed
  show ?thesis using key [OF assms(2)] key [OF assms(3)] by simp
qed

text \<open>Witness.\<close>

theorem parts_share_family_witness:
  "rendition_family_key ascii_tables ''Cut A/Movie REPACK CD1.avi'' = rendition_family_key ascii_tables ''Cut A/Movie REPACK CD12.avi''"
proof -
  have "to_ascii_lowercase ''CD'' \<in> set DISC_MARKERS" "family_number ''1''" "family_number ''12''"
    "CHR ''/'' \<notin> set ''Movie REPACK''" "\<forall>c \<in> set ''avi''. c \<noteq> CHR ''.'' \<and> c \<noteq> CHR ''/''" by code_simp+
  from parts_share_family [OF this, of ascii_tables "''Cut A''"] show ?thesis by simp
qed

end
