(* ===== verification/Names_Keys.thy ===== *)
theory Names_Keys
  imports Names_Props
begin

text \<open>
  More of what the parsers of \<open>crates/kahawai-core/src/names.rs\<close> promise: what the music fallback reads from its
  canonical layout, and when two titles have the same key.
\<close>

lemma no_plus_digits: "all_digits s \<Longrightarrow> s \<noteq> [] \<Longrightarrow> digits_val 0 s < b \<Longrightarrow> parse_nat b s = Some (digits_val 0 s)"
  using digit_not by (cases s) (auto simp: parse_nat_def all_digits_def Let_def)

section \<open>Music\<close>

lemma split_once_dash: "CHR ''-'' \<notin> set a \<Longrightarrow> split_once '' - '' (a @ CHR '' '' # CHR ''-'' # CHR '' '' # b) = Some (a, b)"
proof (induction a)
  case (Cons c a)
  have "\<not> starts_with ((c # a) @ CHR '' '' # CHR ''-'' # CHR '' '' # b) '' - ''"
    using Cons.prems by (cases a) (auto simp: starts_with_def)
  then show ?case using Cons by simp
qed (simp add: starts_with_def)

lemma split_once_no_dash: "CHR ''-'' \<notin> set a \<Longrightarrow> split_once '' - '' a = None"
proof (induction a)
  case (Cons c a)
  have "\<not> starts_with (c # a) '' - ''"
    using Cons.prems by (cases a) (auto simp: starts_with_def)
  then show ?case using Cons by simp
qed simp

lemma split_text_dash:
  "CHR ''-'' \<notin> set a \<Longrightarrow> split_text '' - '' (a @ '' - '' @ b) = a # split_text '' - '' b"
  "CHR ''-'' \<notin> set a \<Longrightarrow> split_text '' - '' a = [a]"
  by (subst split_text.simps, simp add: split_once_dash split_once_no_dash)+

text \<open>A name that trims to itself and holds no separator.\<close>

definition clean_name :: "string \<Rightarrow> bool" where
  "clean_name s \<longleftrightarrow>
     s \<noteq> [] \<and> trim s = s \<and> CHR ''-'' \<notin> set s \<and> CHR ''/'' \<notin> set s \<and> CHR ''('' \<notin> set s"

lemma digits_word: "list_all is_ascii_digit s \<Longrightarrow> s \<noteq> [] \<Longrightarrow> alnum_word s"
  using digit_alnum by (auto simp: alnum_word_def list_all_iff)

lemma alnum_no_dash: "alnum_word s \<Longrightarrow> CHR ''-'' \<notin> set s \<and> CHR ''/'' \<notin> set s \<and> \<not> is_ws (hd s) \<and> \<not> is_ws (last s)"
  using alnum_ends [of s] alnum_not by (fastforce simp: alnum_word_def list_all_iff)

lemma trim_digits: "list_all is_ascii_digit s \<Longrightarrow> s \<noteq> [] \<Longrightarrow> trim s = s"
  using alnum_no_dash [OF digits_word] by (intro trim_id) auto

text \<open>The Lidarr layout \<open>Artist/Album/Artist - Album - NN - Title.ext\<close> reads back: artist, album, track and
  title - except that an album named by up to four digits is taken for the track number, and the real track
  number becomes part of the title.\<close>

theorem music_layout:
  assumes "clean_name artist" "clean_name album" "clean_name title" "\<not> track_segment artist" "n < 100"
    and "\<forall>c \<in> set ext. c \<noteq> CHR ''.'' \<and> c \<noteq> CHR ''/''"
  shows "parse_music (artist @ ''/'' @ album @ ''/'' @ artist @ '' - '' @ album @ '' - '' @ pad0 2 n @ '' - '' @ title @ ''.'' @ ext)
    = Some \<lparr>mu_artist = artist, mu_album = album, mu_album_year = None, mu_disc = None,
        mu_track = (if track_segment album then digits_val 0 album else n),
        mu_title = (if track_segment album then pad0 2 n @ '' - '' @ title else title)\<rparr>"
proof -
  let ?nn = "pad0 2 n"
  let ?stem = "artist @ '' - '' @ album @ '' - '' @ ?nn @ '' - '' @ title"
  have nn: "list_all is_ascii_digit ?nn" "?nn \<noteq> []" using pad0_digits pad0_nonempty by auto
  have "n div 10 < 10" using assms(5) by simp
  then have len: "length ?nn = 2" by (simp add: pad0_def show_nat.simps [of n] show_nat.simps [of "n div 10"])
  have nn_seg: "track_segment ?nn"
    using nn trim_digits len by (simp add: track_segment_def all_digits_def)
  have slash: "CHR ''/'' \<notin> set (?stem @ ''.'' @ ext)"
    using assms alnum_no_dash [OF digits_word [OF nn]] by (auto simp: clean_name_def)
  have filed: "rsplit_once [CHR ''/''] ((artist @ ''/'' @ album) @ CHR ''/'' # (?stem @ ''.'' @ ext))
      = Some (artist @ ''/'' @ album, ?stem @ ''.'' @ ext)"
    using slash by (intro rsplit_once_last) auto
  have dirs: "rsplit_once [CHR ''/''] (artist @ CHR ''/'' # album) = Some (artist, album)"
    using assms(2) by (intro rsplit_once_last) (auto simp: clean_name_def)
  have stem: "rsplit_once [CHR ''.''] (?stem @ CHR ''.'' # ext) = Some (?stem, ext)"
    using assms(6) by (intro rsplit_once_last) auto
  have "rsplit_once [CHR ''(''] album = None" using assms(2) by (intro rsplit_once_absent) (auto simp: clean_name_def)
  then have album: "album_of album = (album, None)" using assms(2) by (simp add: album_of_def clean_name_def)
  have nd: "CHR ''-'' \<notin> set artist" "CHR ''-'' \<notin> set album" "CHR ''-'' \<notin> set ?nn" "CHR ''-'' \<notin> set title"
    using assms alnum_no_dash [OF digits_word [OF nn]] by (auto simp: clean_name_def)
  have segs: "split_text '' - '' ?stem = [artist, album, ?nn, title]"
    unfolding split_text_dash(1) [OF nd(1)] split_text_dash(1) [OF nd(2)] split_text_dash(1) [OF nd(3)] split_text_dash(2) [OF nd(4)] ..
  have trims: "trim artist = artist" "trim album = album" "trim title = title" "trim ?nn = ?nn"
    using assms trim_digits [OF nn] by (auto simp: clean_name_def)
  have path: "artist @ ''/'' @ album @ ''/'' @ artist @ '' - '' @ album @ '' - '' @ ?nn @ '' - '' @ title @ ''.'' @ ext
      = (artist @ ''/'' @ album) @ CHR ''/'' # (?stem @ ''.'' @ ext)" by simp
  have names: "artist \<noteq> []" "album \<noteq> []" "title \<noteq> []" using assms by (auto simp: clean_name_def)
  have number: "parse_nat (2 ^ 32) ?nn = Some n" using assms(5) by (intro parse_nat_pad0) simp
  show ?thesis
  proof (cases "track_segment album")
    case True
    then have d: "all_digits album" "length album \<le> 4" using trims(2) by (auto simp: track_segment_def)
    have "digits_val 0 album < 10 ^ length album" using digits_val_less [OF d(1), of 0] by simp
    also have "\<dots> \<le> (10 :: nat) ^ 4" using d(2) by (intro power_increasing) auto
    finally have v: "parse_nat (2 ^ 32) album = Some (digits_val 0 album)" using no_plus_digits [OF d(1) names(2)] by simp
    have "trim (?nn @ '' - '' @ title) = ?nn @ '' - '' @ title"
    proof (rule trim_id)
      show "\<not> is_ws (hd (?nn @ '' - '' @ title))" using alnum_no_dash [OF digits_word [OF nn]] nn(2) by (cases ?nn) auto
      show "\<not> is_ws (last (?nn @ '' - '' @ title))"
        using trim_ends(2) [of title] trims(3) names(3) by simp
    qed (use nn in simp)
    then show ?thesis
      unfolding path parse_music_def filed using True assms(4) v stem dirs album segs trims names
      by (simp add: map_or_def)
  next
    case False
    then show ?thesis
      unfolding path parse_music_def filed using assms(4) nn_seg number stem dirs album segs trims names
      by (simp add: map_or_def)
  qed
qed

text \<open>Witness: an album that is a number.\<close>

theorem music_layout_witness:
  "map_option mu_track (parse_music ''Adele/21/Adele - 21 - 01 - Turning Tables.flac'') = Some 21"
proof -
  have "clean_name ''Adele''" "clean_name ''21''" "clean_name ''Turning Tables''" "\<not> track_segment ''Adele''"
    "\<forall>c \<in> set ''flac''. c \<noteq> CHR ''.'' \<and> c \<noteq> CHR ''/''" "track_segment ''21''" "digits_val 0 ''21'' = 21"
    "pad0 2 1 = ''01''" by code_simp+
  with music_layout [of "''Adele''" "''21''" "''Turning Tables''" 1 "''flac''"] show ?thesis by simp
qed

section \<open>Title keys\<close>

definition title_words :: "Unicode \<Rightarrow> string \<Rightarrow> string list" where
  "title_words uni title =
     map (\<lambda>w. concat (map (scalar_lower uni) w)) (pieces (\<lambda>u. \<not> scalar_alnum uni u) (scalars title))"

text \<open>The tables lower a letter to letters without white space.\<close>

definition lower_ok :: "Unicode \<Rightarrow> bool" where
  "lower_ok uni \<longleftrightarrow> (\<forall>u. ext_alnum uni u \<longrightarrow> ext_lower uni u \<noteq> [] \<and> (\<forall>c \<in> set (ext_lower uni u). \<not> is_ws c))"

lemma ascii_lower_ws: "is_ascii_alnum c \<Longrightarrow> \<not> is_ws (ascii_lower c)"
proof -
  assume "is_ascii_alnum c"
  then have "is_ascii_alnum (ascii_lower c)"
    by (auto simp: is_ascii_alnum_def is_ascii_digit_def is_ascii_alpha_def ascii_lower_def less_eq_char_def split: if_splits)
  then show ?thesis using alnum_not by blast
qed

lemma scalar_lower_ok:
  "lower_ok uni \<Longrightarrow> scalar_alnum uni u \<Longrightarrow> scalar_lower uni u \<noteq> [] \<and> (\<forall>c \<in> set (scalar_lower uni u). \<not> is_ws c)"
  using ascii_lower_ws
  by (auto simp: lower_ok_def scalar_alnum_def scalar_lower_def split: list.splits if_splits)

lemma pieces_props: "w \<in> set (pieces p s) \<Longrightarrow> w \<noteq> [] \<and> (\<forall>u \<in> set w. \<not> p u)"
proof -
  have "\<forall>w \<in> set (split_where p s). \<forall>u \<in> set w. \<not> p u"
    by (induction s) (auto split: list.splits)
  then show "w \<in> set (pieces p s) \<Longrightarrow> w \<noteq> [] \<and> (\<forall>u \<in> set w. \<not> p u)" by (auto simp: pieces_def)
qed

lemma title_words_ok:
  assumes "lower_ok uni"
  shows "list_all word_ok (title_words uni title)"
  unfolding list_all_iff
proof
  fix v assume "v \<in> set (title_words uni title)"
  then obtain w where w: "v = concat (map (scalar_lower uni) w)" "w \<noteq> []" "\<forall>u \<in> set w. scalar_alnum uni u"
    using pieces_props unfolding title_words_def by fastforce
  then have "\<forall>u \<in> set w. scalar_lower uni u \<noteq> [] \<and> (\<forall>c \<in> set (scalar_lower uni u). \<not> is_ws c)"
    using scalar_lower_ok [OF assms] by blast
  then show "word_ok v" using w(1,2) by (cases w) (auto simp: word_ok_def list_all_iff)
qed

lemma pieces_Nil_iff: "pieces p s = [] \<longleftrightarrow> list_all p s"
proof (induction s)
  case (Cons c s)
  then show ?case
    by (cases "split_where p s") (auto simp: pieces_def)
qed (simp add: pieces_def)

lemma pieces_skip: "p c \<Longrightarrow> pieces p (c # s) = pieces p s"
  by (simp add: pieces_def)

text \<open>The loop, from behind a space and from inside a word: the words, and a space behind the last of them when
  something follows it.\<close>

lemma normalize_loop:
  fixes uni
  defines "words \<equiv> \<lambda>us. map (\<lambda>w. concat (map (scalar_lower uni) w)) (pieces (\<lambda>u. \<not> scalar_alnum uni u) us)"
  defines "tail \<equiv> \<lambda>us. if words us \<noteq> [] \<and> \<not> scalar_alnum uni (last us) then '' '' else []"
  shows "normalize_scalars uni True us = join_str '' '' (words us) @ tail us
    \<and> (\<forall>w. w \<noteq> [] \<longrightarrow> list_all (scalar_alnum uni) w \<longrightarrow>
        concat (map (scalar_lower uni) w) @ normalize_scalars uni False us = join_str '' '' (words (w @ us)) @ tail (w @ us))"
proof (induction us)
  case Nil
  have "words w = [concat (map (scalar_lower uni) w)]" if "w \<noteq> []" "list_all (scalar_alnum uni) w" for w
    using that by (simp add: words_def pieces_word)
  then show ?case by (auto simp: tail_def list_all_iff) (simp_all add: words_def pieces_def)
next
  case (Cons u us)
  show ?case
  proof (cases "scalar_alnum uni u")
    case True
    have "scalar_lower uni u @ normalize_scalars uni False us = join_str '' '' (words (u # us)) @ tail (u # us)"
      using conjunct2 [OF Cons, rule_format, of "[u]"] True by simp
    moreover have "concat (map (scalar_lower uni) w) @ scalar_lower uni u @ normalize_scalars uni False us
        = join_str '' '' (words (w @ u # us)) @ tail (w @ u # us)" if "list_all (scalar_alnum uni) w" for w
      using conjunct2 [OF Cons, rule_format, of "w @ [u]"] True that by simp
    ultimately show ?thesis using True by simp
  next
    case False
    have skip: "words (u # us) = words us" using False by (simp add: words_def pieces_skip)
    have all: "words us = [] \<longleftrightarrow> list_all (\<lambda>u. \<not> scalar_alnum uni u) us" by (simp add: words_def pieces_Nil_iff)
    have tail: "tail (u # us) = tail us" using skip by (auto simp: tail_def words_def pieces_def)
    have "concat (map (scalar_lower uni) w) @ '' '' @ normalize_scalars uni True us
        = join_str '' '' (words (w @ u # us)) @ tail (w @ u # us)" if w: "w \<noteq> []" "list_all (scalar_alnum uni) w" for w
    proof -
      have ws: "words (w @ u # us) = concat (map (scalar_lower uni) w) # words us"
        using w False pieces_append [of "\<lambda>u. \<not> scalar_alnum uni u" u w us] by (simp add: words_def pieces_word)
      show ?thesis
      proof (cases "words us = []")
        case True
        then have "\<not> scalar_alnum uni (last (u # us))" using all False by (auto simp: list_all_iff)
        then show ?thesis using Cons True ws by (simp add: tail_def split: if_splits)
      next
        case f2: False
        then have "us \<noteq> []" by (auto simp: words_def pieces_def)
        then show ?thesis using Cons f2 ws by (simp add: tail_def join_Cons)
      qed
    qed
    then show ?thesis using False Cons skip tail by simp
  qed
qed

lemma join_words_end: "list_all word_ok ws \<Longrightarrow> ws \<noteq> [] \<Longrightarrow> join_str '' '' ws \<noteq> [] \<and> \<not> is_ws (last (join_str '' '' ws))"
proof (induction ws)
  case (Cons w ws)
  then show ?case by (cases "ws = []") (auto simp: join_Cons word_ok_def list_all_iff)
qed simp

lemma trim_end_space: "trim_end (s @ '' '') = trim_end s"
  by (simp add: trim_end_def trim_end_matches_def)

lemma trim_end_none: "s = [] \<or> \<not> is_ws (last s) \<Longrightarrow> trim_end s = s"
  by (cases "rev s") (auto simp: trim_end_def trim_end_matches_def hd_rev [symmetric])

lemma normalize_words:
  assumes "lower_ok uni"
  shows "normalize_title uni title = join_str '' '' (title_words uni title)"
proof -
  have "trim_end (join_str '' '' (title_words uni title)) = join_str '' '' (title_words uni title)"
    using join_words_end [OF title_words_ok [OF assms]] by (intro trim_end_none) (cases "title_words uni title = []"; auto)
  then show ?thesis
    using normalize_loop [of uni "scalars title"]
    by (auto simp: normalize_title_def title_words_def trim_end_space)
qed

text \<open>The title key is what deduplication needs: the lowered words of the title with single spaces between
  them, so two titles have one key exactly when they have the same words in the same order - whatever stands
  between the words, and whatever the case.\<close>

theorem title_key_exact:
  assumes "lower_ok uni"
  shows "normalize_title uni a = join_str '' '' (title_words uni a)
    \<and> (normalize_title uni a = normalize_title uni b \<longleftrightarrow> title_words uni a = title_words uni b)"
  using normalize_words [OF assms] split_join [OF title_words_ok [OF assms]] by metis

text \<open>Witness.\<close>

theorem title_key_exact_witness:
  "normalize_title \<lparr>ext_alnum = \<lambda>u. True, ext_lower = \<lambda>u. ''x'', ext_str_lower = \<lambda>s. s\<rparr> ''The Matrix!''
    = normalize_title \<lparr>ext_alnum = \<lambda>u. True, ext_lower = \<lambda>u. ''x'', ext_str_lower = \<lambda>s. s\<rparr> ''THE: matrix''"
proof -
  let ?uni = "\<lparr>ext_alnum = \<lambda>u. True, ext_lower = \<lambda>u. ''x'', ext_str_lower = \<lambda>s. s\<rparr>"
  have "\<not> is_ws (CHR ''x'')" by code_simp
  then have ok: "lower_ok ?uni" by (simp add: lower_ok_def)
  have "title_words ?uni ''The Matrix!'' = title_words ?uni ''THE: matrix''" by code_simp
  then show ?thesis using title_key_exact [OF ok] by blast
qed

end
