(* ===== verification/Mp4.thy ===== *)
theory Mp4
  imports Mkv_Index
begin

text \<open>
  Sparse subtitle extraction from MP4, \<open>crates/kahawai-media/src/subindex.rs\<close>: boxes, the sample table
  of a track, and its text samples. Box sizes may be 64 bits wide: an addition of positions beyond \<open>2^64\<close>
  and a slice out of range panic. Times are 64-bit and wrap, as in a release build.
\<close>

section \<open>Boxes\<close>

definition be_at :: "nat \<Rightarrow> nat \<Rightarrow> u8 list \<Rightarrow> nat option" where
  "be_at i n xs = map_option be_val (get_range i (i + n) xs)"

definition be_slice :: "nat \<Rightarrow> nat \<Rightarrow> u8 list \<Rightarrow> read_error + nat" where
  "be_slice i n xs = map_sum (\<lambda>e. e) be_val (slice i (i + n) xs)"

definition kind_at :: "nat \<Rightarrow> u8 list \<Rightarrow> string" where
  "kind_at i xs = map byte_char (take 4 (drop i xs))"

text \<open>Size and header length of the box at \<open>pos\<close> with \<open>rest\<close> bytes from there on, from its header: a size of one
  means 64 bits follow, a size of zero means the rest. \<open>None\<close> when the 64 bits are not there.\<close>

definition box_size :: "nat \<Rightarrow> u8 list \<Rightarrow> (nat \<times> nat) option" where
  "box_size rest head =
     (let size32 = be_val (take 4 head) in
      if size32 = 1 then map_option (\<lambda>n. (n, 16)) (be_at 8 8 head)
      else if size32 = 0 then Some (rest, 8)
      else Some (size32, 8))"

lemma box_size_32: "box_size rest head \<noteq> None \<or> be_val (take 4 head) = 1"
  by (simp add: box_size_def Let_def)

type_synonym 's box_visitor = "string \<Rightarrow> u8 list \<Rightarrow> 's \<Rightarrow> 's \<times> (read_error + unit)"

function walk_boxes :: "'s box_visitor \<Rightarrow> u8 list \<Rightarrow> nat \<Rightarrow> 's \<Rightarrow> 's \<times> (read_error + unit)" where
  "walk_boxes f data pos s =
     (if length data < pos + 8 then (s, Inr ())
      else (case box_size (length data - pos) (drop pos data) of
              None \<Rightarrow> (s, Inr ())
            | Some (sz, hdr) \<Rightarrow>
                if sz < hdr then (s, Inr ())
                else if 2 ^ 64 \<le> pos + sz then (s, Inl Panicked)
                else if length data < pos + sz then (s, Inr ())
                else (case f (kind_at (pos + 4) data) (take (sz - hdr) (drop (pos + hdr) data)) s of
                        (s, Inl e) \<Rightarrow> (s, Inl e)
                      | (s, Inr _) \<Rightarrow> walk_boxes f data (pos + sz) s)))"
  by auto
termination
  by (relation "measure (\<lambda>(f, data, pos, s). length data - pos)")
    (auto simp: box_size_def Let_def split: if_splits option.splits)

declare walk_boxes.simps [simp del]

text \<open>\<open>find_box\<close>: the first box of a kind. It walks on behind it, so a hostile size there still panics.\<close>

definition find_visitor :: "string \<Rightarrow> u8 list option box_visitor" where
  "find_visitor kind k body found = (if k = kind \<and> found = None then Some body else found, Inr ())"

definition find_box :: "u8 list \<Rightarrow> string \<Rightarrow> read_error + u8 list option" where
  "find_box data kind =
     (case walk_boxes (find_visitor kind) data 0 None of
        (found, Inl Panicked) \<Rightarrow> Inl Panicked
      | (found, _) \<Rightarrow> Inr found)"

text \<open>Going into a box: nothing when it is not there.\<close>

definition into_box :: "u8 list \<Rightarrow> string \<Rightarrow> (u8 list \<Rightarrow> read_error + 'a option) \<Rightarrow> read_error + 'a option" where
  "into_box data kind f =
     (case find_box data kind of
        Inl e \<Rightarrow> Inl e | Inr None \<Rightarrow> Inr None | Inr (Some b) \<Rightarrow> f b)"

definition bind_read :: "read_error + 'a \<Rightarrow> ('a \<Rightarrow> read_error + 'b) \<Rightarrow> read_error + 'b" where
  "bind_read m f = (case m of Inl e \<Rightarrow> Inl e | Inr v \<Rightarrow> f v)"

section \<open>The movie box\<close>

text \<open>The walk over the top-level boxes, shared by the extraction and by the keyframe interval: the body
  of \<open>moov\<close>, nothing, or a box smaller than its header.\<close>

datatype Moov = Movie "u8 list" | NoMovie | BadBox

function find_moov :: "Source \<Rightarrow> nat \<Rightarrow> Reader \<Rightarrow> Reader \<times> (read_error + Moov)" where
  "find_moov src pos r =
     (if 2 ^ 64 \<le> pos + 8 then (r, Inl Panicked)
      else if so_size src < pos + 8 then (r, Inr NoMovie)
      else (case read_at src pos 16 r of
              (r, Inl e) \<Rightarrow> (r, Inl e)
            | (r, Inr head) \<Rightarrow>
                (case box_size (so_size src - pos) head of
                   None \<Rightarrow> (r, Inl Panicked)
                 | Some (sz, hdr) \<Rightarrow>
                     if sz < hdr then (r, Inr BadBox)
                     else if kind_at 4 head = ''moov''
                     then and_then (read_at src (pos + hdr) (sz - hdr) r) (\<lambda>r body. (r, Inr (Movie body)))
                     else if 2 ^ 64 \<le> pos + sz then (r, Inl Panicked)
                     else find_moov src (pos + sz) r)))"
  by auto
termination
  by (relation "measure (\<lambda>(src, pos, r). 2 ^ 64 - pos)")
    (auto simp: box_size_def Let_def split: if_splits option.splits intro!: diff_less_mono2)

declare find_moov.simps [simp del]

section \<open>The sample table\<close>

text \<open>Offset, size, start and duration of a sample.\<close>

type_synonym Sample = "nat \<times> nat \<times> u64 \<times> u64"

definition size_of :: "u8 list \<Rightarrow> nat \<Rightarrow> nat \<Rightarrow> nat option" where
  "size_of stsz uniform i = (if uniform \<noteq> 0 then Some uniform else be_at (12 + i * 4) 4 stsz)"

text \<open>The times, one entry of \<open>stts\<close> after another: \<open>None\<close> where an entry is cut off.\<close>

fun run_times :: "u64 \<Rightarrow> u64 \<Rightarrow> nat \<Rightarrow> u64 \<Rightarrow> (u64 \<times> u64) list" where
  "run_times timescale delta 0 t = []"
| "run_times timescale delta (Suc cnt) t =
     (t * 1000 div max timescale 1, delta * 1000 div max timescale 1) # run_times timescale delta cnt (t + delta)"

function stts_times :: "u8 list \<Rightarrow> u64 \<Rightarrow> nat \<Rightarrow> nat \<Rightarrow> u64 \<Rightarrow> (u64 \<times> u64) list option" where
  "stts_times stts timescale n e t =
     (if n \<le> e then Some []
      else Option.bind (be_at (8 + e * 8) 4 stts) (\<lambda>cnt.
           Option.bind (be_at (12 + e * 8) 4 stts) (\<lambda>delta.
           map_option ((@) (run_times timescale (of_nat delta) cnt t))
             (stts_times stts timescale n (Suc e) (t + of_nat cnt * of_nat delta)))))"
  by auto
termination
  by (relation "measure (\<lambda>(stts, timescale, n, e, t). n - e)") auto

declare stts_times.simps [simp del]

definition stsc_entry :: "u8 list \<Rightarrow> nat \<Rightarrow> (nat \<times> nat) option" where
  "stsc_entry stsc i =
     Option.bind (be_at (8 + i * 12) 4 stsc) (\<lambda>first. map_option (\<lambda>per. (first, per)) (be_at (12 + i * 12) 4 stsc))"

definition chunk_off :: "bool \<Rightarrow> u8 list \<Rightarrow> nat \<Rightarrow> nat option" where
  "chunk_off co64 offsets i = (if co64 then be_at (8 + i * 8) 8 offsets else be_at (8 + i * 4) 4 offsets)"

text \<open>The entry of \<open>stsc\<close> for a chunk: the walk moves on while the next one has begun.\<close>

function advance :: "u8 list \<Rightarrow> nat \<Rightarrow> nat \<Rightarrow> nat \<Rightarrow> nat" where
  "advance stsc n chunk entry =
     (if entry + 1 < n \<and> is_some_and (stsc_entry stsc (entry + 1)) (\<lambda>(first, _). first \<le> chunk + 1)
      then advance stsc n chunk (entry + 1) else entry)"
  by auto
termination
  by (relation "measure (\<lambda>(stsc, n, chunk, entry). n - entry)") auto

declare advance.simps [simp del]

text \<open>The samples of one chunk: the next sample, and what it adds.\<close>

fun chunk_samples :: "(nat \<Rightarrow> nat option) \<Rightarrow> (u64 \<times> u64) list \<Rightarrow> nat \<Rightarrow> nat \<Rightarrow> nat \<Rightarrow> nat
    \<Rightarrow> read_error + (nat \<times> Sample list) option" where
  "chunk_samples sizes ts many 0 off k = Inr (Some (k, []))"
| "chunk_samples sizes ts many (Suc per) off k =
     (if many \<le> k \<or> length ts \<le> k then Inr (Some (k, []))
      else (case sizes k of
              None \<Rightarrow> Inr None
            | Some sz \<Rightarrow>
                if 2 ^ 64 \<le> off + sz then Inl Panicked
                else bind_read (chunk_samples sizes ts many per (off + sz) (Suc k))
                       (\<lambda>x. Inr (map_option (\<lambda>(n, ss). (n, (off, sz, fst (ts ! k), snd (ts ! k)) # ss)) x))))"

function chunks_from :: "u8 list \<Rightarrow> nat \<Rightarrow> (nat \<Rightarrow> nat option) \<Rightarrow> (nat \<Rightarrow> nat option) \<Rightarrow> (u64 \<times> u64) list \<Rightarrow> nat
    \<Rightarrow> nat \<Rightarrow> nat \<Rightarrow> nat \<Rightarrow> nat \<Rightarrow> read_error + Sample list option" where
  "chunks_from stsc n offs sizes ts many nchunks chunk entry0 k =
     (if nchunks \<le> chunk then Inr (Some [])
      else (let entry = advance stsc n chunk entry0 in
            case (stsc_entry stsc entry, offs chunk) of
              (Some (_, per), Some off) \<Rightarrow>
                (case chunk_samples sizes ts many per off k of
                   Inl e \<Rightarrow> Inl e
                 | Inr None \<Rightarrow> Inr None
                 | Inr (Some (k, ss)) \<Rightarrow>
                     bind_read (chunks_from stsc n offs sizes ts many nchunks (Suc chunk) entry k)
                       (\<lambda>x. Inr (map_option ((@) ss) x)))
            | _ \<Rightarrow> Inr None))"
  by pat_completeness auto
termination
  by (relation "measure (\<lambda>(stsc, n, offs, sizes, ts, many, nchunks, chunk, entry, k). nchunks - chunk)") auto

declare chunks_from.simps [simp del]

definition chunk_table :: "u8 list \<Rightarrow> read_error + (bool \<times> u8 list) option" where
  "chunk_table stbl =
     (case find_box stbl ''co64'' of
        Inl e \<Rightarrow> Inl e
      | Inr (Some b) \<Rightarrow> Inr (Some (True, b))
      | Inr None \<Rightarrow> into_box stbl ''stco'' (\<lambda>b. Inr (Some (False, b))))"

definition samples_of :: "u8 list \<Rightarrow> u8 list \<Rightarrow> u8 list \<Rightarrow> bool \<Rightarrow> u8 list \<Rightarrow> u64 \<Rightarrow> read_error + Sample list option" where
  "samples_of stts stsz stsc co64 offsets timescale =
     (case (be_at 4 4 stsz, be_at 8 4 stsz, Option.bind (be_at 4 4 stts) (\<lambda>n. stts_times stts timescale n 0 0),
            be_at 4 4 stsc, be_at 4 4 offsets) of
        (Some uniform, Some many, Some ts, Some n, Some nchunks) \<Rightarrow>
          chunks_from stsc n (chunk_off co64 offsets) (size_of stsz uniform) ts many nchunks 0 0 0
      | _ \<Rightarrow> Inr None)"

definition mp4_sample_table :: "u8 list \<Rightarrow> u64 \<Rightarrow> read_error + Sample list option" where
  "mp4_sample_table stbl timescale =
     into_box stbl ''stts'' (\<lambda>stts. into_box stbl ''stsz'' (\<lambda>stsz. into_box stbl ''stsc'' (\<lambda>stsc.
       bind_read (chunk_table stbl) (\<lambda>x. case x of
           None \<Rightarrow> Inr None
         | Some (co64, offsets) \<Rightarrow> samples_of stts stsz stsc co64 offsets timescale))))"

section \<open>Text tracks\<close>

text \<open>\<open>mdhd\<close>: the time scale, in one of two versions.\<close>

definition mdhd_timescale :: "u8 list \<Rightarrow> read_error + u64" where
  "mdhd_timescale mdhd =
     bind_read (slice 0 1 mdhd) (\<lambda>version.
       map_sum (\<lambda>e. e) of_nat (if version = [1] then be_slice 20 4 mdhd else be_slice 12 4 mdhd))"

definition subtitle_mdia :: "u8 list \<Rightarrow> read_error + u8 list option" where
  "subtitle_mdia trak =
     into_box trak ''mdia'' (\<lambda>mdia. into_box mdia ''hdlr'' (\<lambda>hdlr.
       Inr (then_some (12 \<le> length hdlr \<and> kind_at 8 hdlr \<in> {''text'', ''sbtl'', ''subt''}) mdia)))"

definition track_samples :: "u8 list \<Rightarrow> read_error + Sample list option" where
  "track_samples mdia =
     into_box mdia ''mdhd'' (\<lambda>mdhd. bind_read (mdhd_timescale mdhd) (\<lambda>timescale.
       into_box mdia ''minf'' (\<lambda>minf. into_box minf ''stbl'' (\<lambda>stbl.
         bind_read (find_box stbl ''stsd'') (\<lambda>stsd.
           let format = map_option (map byte_char) (Option.bind stsd (get_range 12 16)) in
           if format \<in> {Some ''tx3g'', Some ''text''} then mp4_sample_table stbl timescale else Inr None)))))"

text \<open>One sample: its cue, if it has text. A sample that cannot be read is skipped.\<close>

definition text_of_sample :: "u8 list \<Rightarrow> string" where
  "text_of_sample data =
     (let tlen = be_val (take 2 data) in
      if tlen = 0 \<or> length data < 2 + tlen then [] else clean_cue_text (decode_text (take tlen (drop 2 data))))"

definition sample_cue :: "Source \<Rightarrow> Sample \<Rightarrow> Reader \<Rightarrow> Reader \<times> (read_error + Cue list)" where
  "sample_cue src s r =
     (case s of (off, sz, start, dur) \<Rightarrow>
        if sz < 2 \<or> 2 ^ 20 < sz then (r, Inr [])
        else (case read_at src off sz r of
                (r, Inl Panicked) \<Rightarrow> (r, Inl Panicked)
              | (r, Inl _) \<Rightarrow> (r, Inr [])
              | (r, Inr data) \<Rightarrow>
                  (let text = text_of_sample data in
                   (r, Inr (if text = [] then []
                      else [\<lparr>cue_start_ms = unat start, cue_end_ms = unat (start + max dur 1), cue_text = text\<rparr>])))))"

fun sample_cues :: "Source \<Rightarrow> Sample list \<Rightarrow> Reader \<Rightarrow> Reader \<times> (read_error + Cue list)" where
  "sample_cues src [] r = (r, Inr [])"
| "sample_cues src (s # ss) r =
     and_then (sample_cue src s r) (\<lambda>r cs. and_then (sample_cues src ss r) (\<lambda>r more. (r, Inr (cs @ more))))"

text \<open>One track: the variables are the subtitle tracks seen, the tracks found, and the reader.\<close>

definition text_trak :: "Source \<Rightarrow> (nat \<times> (nat \<times> Extracted) list \<times> Reader) box_visitor" where
  "text_trak src kind body s =
     (case s of (seen, out, r) \<Rightarrow>
        if kind \<noteq> ''trak'' then (s, Inr ())
        else (case subtitle_mdia body of
                Inl e \<Rightarrow> (s, Inl e)
              | Inr None \<Rightarrow> (s, Inr ())
              | Inr (Some mdia) \<Rightarrow>
                  (case track_samples mdia of
                     Inl e \<Rightarrow> ((Suc seen, out, r), Inl e)
                   | Inr None \<Rightarrow> ((Suc seen, out, r), Inr ())
                   | Inr (Some samples) \<Rightarrow>
                       (case sample_cues src samples r of
                          (r, Inl e) \<Rightarrow> ((Suc seen, out, r), Inl e)
                        | (r, Inr cues) \<Rightarrow>
                            ((Suc seen, out @ [(seen, \<lparr>ex_cues = sort_key cue_start_ms cues, ex_ass = None\<rparr>)], r),
                             Inr ())))))"

definition mp4_extract :: "Source \<Rightarrow> read_error + (nat \<times> Extracted) list" where
  "mp4_extract src =
     (case find_moov src 0 reader_new of
        (r, Inl e) \<Rightarrow> Inl e
      | (r, Inr NoMovie) \<Rightarrow> Inl Shape
      | (r, Inr BadBox) \<Rightarrow> Inl Shape
      | (r, Inr (Movie moov)) \<Rightarrow>
          (case walk_boxes (text_trak src) moov 0 (0, [], r) of
             (_, Inl e) \<Rightarrow> Inl e
           | ((_, out, _), Inr _) \<Rightarrow> Inr out))"

text \<open>\<open>extract_sparse\<close>: by the magic bytes, and \<open>None\<close> (fall back) for every failure short of a panic.\<close>

definition extract_sparse :: "(u8 list \<Rightarrow> u8 list option) \<Rightarrow> u8 list \<Rightarrow> Source \<Rightarrow> read_error + (nat \<times> Extracted) list option" where
  "extract_sparse inflate content src =
     (let settle_all = (\<lambda>x. case x of
              Inr out \<Rightarrow> Inr (Some out) | Inl Panicked \<Rightarrow> Inl Panicked | Inl _ \<Rightarrow> Inr None) in
      if length content < 12 then Inr None
      else if take 4 content = [0x1A, 0x45, 0xDF, 0xA3] then settle_all (mkv_extract inflate src)
      else if kind_at 4 content = ''ftyp'' then settle_all (mp4_extract src)
      else Inr None)"

end
