(* ===== verification/Mp4_Props.thy ===== *)
theory Mp4_Props
  imports Mp4
begin

text \<open>
  What the MP4 index promises: boxes and tables that a muxer writes read back, every sample where the
  tables put it; and what a hostile size does.
\<close>

section \<open>Boxes read back\<close>

definition be32 :: "nat \<Rightarrow> u8 list" where "be32 n = u32_to_be_bytes (of_nat n)"
definition be64 :: "nat \<Rightarrow> u8 list" where "be64 n = u64_to_be_bytes (of_nat n)"

definition make_box :: "string \<times> u8 list \<Rightarrow> u8 list" where
  "make_box b = be32 (8 + length (snd b)) @ map char_byte (fst b) @ snd b"

definition boxable :: "string \<times> u8 list \<Rightarrow> bool" where
  "boxable b \<longleftrightarrow> length (fst b) = 4 \<and> 8 + length (snd b) < 2 ^ 32"

lemma be32_val: "n < 2 ^ 32 \<Longrightarrow> be_val (be32 n) = n"
  by (simp add: be32_def be_val_u32 unsigned_of_nat take_bit_nat_eq_self)

lemma be64_val: "n < 2 ^ 64 \<Longrightarrow> be_val (be64 n) = n"
  by (simp add: be64_def be_val_u64 unsigned_of_nat take_bit_nat_eq_self)

lemma length_be [simp]: "length (be32 n) = 4" "length (be64 n) = 8"
  by (simp_all add: be32_def be64_def)

lemma length_make_box [simp]: "length (make_box b) = 4 + length (fst b) + length (snd b)"
  by (simp add: make_box_def)

text \<open>The visitor over a list of boxes.\<close>

fun visit_boxes :: "'s box_visitor \<Rightarrow> (string \<times> u8 list) list \<Rightarrow> 's \<Rightarrow> 's \<times> (read_error + unit)" where
  "visit_boxes f [] s = (s, Inr ())"
| "visit_boxes f ((kind, body) # bs) s =
     (case f kind body s of (s, Inl e) \<Rightarrow> (s, Inl e) | (s, Inr _) \<Rightarrow> visit_boxes f bs s)"

lemma walk_make_boxes:
  assumes "list_all boxable bs" "length pre + length (concat (map make_box bs)) < 2 ^ 64"
  shows "walk_boxes f (pre @ concat (map make_box bs)) (length pre) s = visit_boxes f bs s"
  using assms
proof (induction bs arbitrary: pre s)
  case Nil
  then show ?case by (subst walk_boxes.simps) simp
next
  case (Cons b bs)
  obtain kind body where b: "b = (kind, body)" by fastforce
  have ok: "length kind = 4" "8 + length body < 2 ^ 32" using Cons.prems(1) b by (simp_all add: boxable_def)
  define data where "data = pre @ make_box (kind, body) @ concat (map make_box bs)"
  have data: "data = pre @ concat (map make_box (b # bs))" by (simp add: data_def b)
  have len: "length data = length pre + (8 + length body) + length (concat (map make_box bs))"
    using ok by (simp add: data_def)
  have box: "box_size (length data - length pre) (drop (length pre) data) = Some (8 + length body, 8)"
    using be32_val [OF ok(2)] by (simp add: data_def make_box_def box_size_def Let_def)
  have kind: "kind_at (length pre + 4) data = kind"
    using ok by (simp add: data_def kind_at_def make_box_def comp_def)
  have body: "take (8 + length body - 8) (drop (length pre + 8) data) = body"
    using ok by (simp add: data_def make_box_def)
  have onward: "walk_boxes f data (length pre + (8 + length body)) s' = visit_boxes f bs s'" for s'
    using Cons.IH [of "pre @ make_box b" s'] Cons.prems ok b by (simp add: add.assoc data_def)
  have "length data < 2 ^ 64" using Cons.prems(2) unfolding data by simp
  then have fits: "\<not> length data < length pre + 8" "\<not> 2 ^ 64 \<le> length pre + (8 + length body)"
      "\<not> length data < length pre + (8 + length body)" using len by linarith+
  have "walk_boxes f data (length pre) s
      = (case f kind body s of (s, Inl e) \<Rightarrow> (s, Inl e) | (s, Inr _) \<Rightarrow> visit_boxes f bs s)"
    using fits(2) by (subst walk_boxes.simps) (simp add: box kind body [simplified] onward fits)
  then show ?case unfolding data b by simp
qed

lemma visit_find: "visit_boxes (find_visitor kind) bs found
    = (case found of Some b \<Rightarrow> Some b | None \<Rightarrow> map_of bs kind, Inr ())"
  by (induction bs arbitrary: found) (auto simp: find_visitor_def split: option.splits)

lemma find_make_box:
  assumes "list_all boxable bs" "length (concat (map make_box bs)) < 2 ^ 64"
  shows "find_box (concat (map make_box bs)) kind = Inr (map_of bs kind)"
  using walk_make_boxes [OF assms(1), of "[]" "find_visitor kind" None] assms(2)
  by (simp add: find_box_def visit_find)

section \<open>Tables read back\<close>

text \<open>Entries of \<open>w\<close> bytes behind a head.\<close>

lemma concat_entries:
  assumes "\<forall>x \<in> set xs. length (enc x) = w"
  shows "length (concat (map enc xs)) = length xs * w"
    and "i < length xs \<Longrightarrow> take w (drop (i * w) (concat (map enc xs))) = enc (xs ! i)"
proof -
  show len: "length (concat (map enc xs)) = length xs * w" using assms by (induction xs) auto
  show "take w (drop (i * w) (concat (map enc xs))) = enc (xs ! i)" if "i < length xs"
    using that assms
  proof (induction xs arbitrary: i)
    case (Cons x xs)
    then show ?case by (cases i) simp_all
  qed simp
qed

lemma table_entry:
  assumes "\<forall>x \<in> set xs. length (enc x) = w" "length pre = k" "a + n \<le> w" "0 < n"
  shows "be_at (k + i * w + a) n (pre @ concat (map enc xs))
    = (if i < length xs then Some (be_val (take n (drop a (enc (xs ! i))))) else None)"
proof (cases "i < length xs")
  case True
  have "Suc i * w \<le> length xs * w" using True by (intro mult_right_mono) auto
  then have room: "k + i * w + a + n \<le> k + length xs * w" using assms(3) by simp
  have "take n (drop (k + i * w + a) (pre @ concat (map enc xs))) = take n (drop a (drop (i * w) (concat (map enc xs))))"
    using assms(2) by (simp add: add.commute add.left_commute)
  also have "\<dots> = take n (drop a (take w (drop (i * w) (concat (map enc xs)))))"
    using assms(3) by (simp add: drop_take)
  also have "\<dots> = take n (drop a (enc (xs ! i)))" using concat_entries(2) [OF assms(1) True] by simp
  finally show ?thesis using room True assms(2) concat_entries(1) [OF assms(1)]
    by (simp add: be_at_def get_range_def)
next
  case False
  then have "length xs * w \<le> i * w" by (intro mult_right_mono) auto
  then have "\<not> i * w + (a + n) \<le> length xs * w" using assms(4) by linarith
  then show ?thesis using False assms(2,4) concat_entries(1) [OF assms(1)]
    by (simp add: be_at_def get_range_def del: mult_le_cancel2)
qed

text \<open>The tables.\<close>

definition stts_table :: "(nat \<times> nat) list \<Rightarrow> u8 list" where
  "stts_table runs = be32 0 @ be32 (length runs) @ concat (map (\<lambda>(cnt, delta). be32 cnt @ be32 delta) runs)"

definition stsz_table :: "nat list \<Rightarrow> u8 list" where
  "stsz_table sizes = be32 0 @ be32 0 @ be32 (length sizes) @ concat (map be32 sizes)"

definition stsc_table :: "(nat \<times> nat) list \<Rightarrow> u8 list" where
  "stsc_table es = be32 0 @ be32 (length es) @ concat (map (\<lambda>(first, per). be32 first @ be32 per @ be32 1) es)"

definition co64_table :: "nat list \<Rightarrow> u8 list" where
  "co64_table offs = be32 0 @ be32 (length offs) @ concat (map be64 offs)"

lemma table_count: "length pre = 4 \<Longrightarrow> length xs < 2 ^ 32 \<Longrightarrow> be_at 4 4 (pre @ be32 (length xs) @ rest) = Some (length xs)"
  by (simp add: be_at_def get_range_def be32_val)

lemma stts_entry:
  assumes "\<forall>x \<in> set runs. fst x < 2 ^ 32 \<and> snd x < 2 ^ 32"
  shows "be_at (8 + e * 8) 4 (stts_table runs) = (if e < length runs then Some (fst (runs ! e)) else None)"
    and "be_at (12 + e * 8) 4 (stts_table runs) = (if e < length runs then Some (snd (runs ! e)) else None)"
proof -
  let ?enc = "\<lambda>(cnt, delta). be32 cnt @ be32 delta"
  have w: "\<forall>x \<in> set runs. length (?enc x) = 8" by auto
  have v: "fst (runs ! e) < 2 ^ 32 \<and> snd (runs ! e) < 2 ^ 32" if "e < length runs"
    using assms nth_mem [OF that] by auto
  show "be_at (8 + e * 8) 4 (stts_table runs) = (if e < length runs then Some (fst (runs ! e)) else None)"
    using table_entry [OF w, of "be32 0 @ be32 (length runs)" 8 0 4 e] v
    by (simp add: stts_table_def be32_val split: prod.splits)
  show "be_at (12 + e * 8) 4 (stts_table runs) = (if e < length runs then Some (snd (runs ! e)) else None)"
    using table_entry [OF w, of "be32 0 @ be32 (length runs)" 8 4 4 e] v
    by (simp add: stts_table_def be32_val add.commute add.left_commute split: prod.splits)
qed

lemma stsc_entry_table:
  assumes "\<forall>x \<in> set es. fst x < 2 ^ 32 \<and> snd x < 2 ^ 32"
  shows "stsc_entry (stsc_table es) i = (if i < length es then Some (es ! i) else None)"
proof -
  let ?enc = "\<lambda>(first, per). be32 first @ be32 per @ be32 1"
  have w: "\<forall>x \<in> set es. length (?enc x) = 12" by auto
  have v: "fst (es ! i) < 2 ^ 32 \<and> snd (es ! i) < 2 ^ 32" if "i < length es"
    using assms nth_mem [OF that] by auto
  have "be_at (8 + i * 12) 4 (stsc_table es) = (if i < length es then Some (fst (es ! i)) else None)"
    using table_entry [OF w, of "be32 0 @ be32 (length es)" 8 0 4 i] v
    by (simp add: stsc_table_def be32_val split: prod.splits)
  moreover have "be_at (12 + i * 12) 4 (stsc_table es) = (if i < length es then Some (snd (es ! i)) else None)"
    using table_entry [OF w, of "be32 0 @ be32 (length es)" 8 4 4 i] v
    by (simp add: stsc_table_def be32_val add.commute add.left_commute split: prod.splits)
  ultimately show ?thesis by (simp add: stsc_entry_def)
qed

lemma chunk_off_table:
  assumes "\<forall>off \<in> set offs. off < 2 ^ 64"
  shows "chunk_off True (co64_table offs) i = get offs i"
proof -
  have w: "\<forall>x \<in> set offs. length (be64 x) = 8" by auto
  have "offs ! i < 2 ^ 64" if "i < length offs" using assms nth_mem [OF that] by auto
  then show ?thesis
    using table_entry [OF w, of "be32 0 @ be32 (length offs)" 8 0 8 i]
    by (simp add: chunk_off_def co64_table_def be64_val get_def)
qed

lemma size_of_table:
  assumes "\<forall>n \<in> set sizes. n < 2 ^ 32"
  shows "size_of (stsz_table sizes) 0 i = get sizes i"
proof -
  have w: "\<forall>x \<in> set sizes. length (be32 x) = 4" by auto
  have "sizes ! i < 2 ^ 32" if "i < length sizes" using assms nth_mem [OF that] by auto
  then show ?thesis
    using table_entry [OF w, of "be32 0 @ be32 0 @ be32 (length sizes)" 12 0 4 i]
    by (simp add: size_of_def stsz_table_def be32_val get_def)
qed


section \<open>The sample table reads back\<close>

text \<open>The times of samples: the sum of the durations before, by the clock of the track.\<close>

definition sample_times :: "u64 \<Rightarrow> u64 list \<Rightarrow> (u64 \<times> u64) list" where
  "sample_times timescale ds =
     map (\<lambda>i. (sum_list (take i ds) * 1000 div max timescale 1, ds ! i * 1000 div max timescale 1)) [0..<length ds]"

definition durations :: "(nat \<times> nat) list \<Rightarrow> u64 list" where
  "durations runs = concat (map (\<lambda>(cnt, delta). replicate cnt (of_nat delta)) runs)"

text \<open>The samples of a chunk lie one behind the other; a chunk takes as many as the entry in force says.\<close>

fun place_samples :: "nat \<Rightarrow> (nat \<times> u64 \<times> u64) list \<Rightarrow> Sample list" where
  "place_samples off [] = []"
| "place_samples off ((sz, t, d) # ss) = (off, sz, t, d) # place_samples (off + sz) ss"

fun layout :: "(nat \<times> nat) list \<Rightarrow> (nat \<times> u64 \<times> u64) list \<Rightarrow> Sample list" where
  "layout [] ss = []"
| "layout ((per, off) # cs) ss = place_samples off (take per ss) @ layout cs (drop per ss)"

definition in_force :: "(nat \<times> nat) list \<Rightarrow> nat \<Rightarrow> nat" where
  "in_force es chunk = snd (last (takeWhile (\<lambda>(first, _). first \<le> chunk + 1) es))"

definition shifted_times :: "u64 \<Rightarrow> u64 \<Rightarrow> u64 list \<Rightarrow> (u64 \<times> u64) list" where
  "shifted_times timescale t ds =
     map (\<lambda>i. ((t + sum_list (take i ds)) * 1000 div max timescale 1, ds ! i * 1000 div max timescale 1)) [0..<length ds]"

lemma shifted_Nil [simp]: "shifted_times ts t [] = []"
  by (simp add: shifted_times_def)

lemma shifted_Cons [simp]:
  "shifted_times ts t (d # r) = (t * 1000 div max ts 1, d * 1000 div max ts 1) # shifted_times ts (t + d) r"
  by (simp add: shifted_times_def upt_rec [of 0 "Suc _"] map_Suc_upt [symmetric] add.assoc comp_def del: upt_Suc)

lemma shifted_append: "shifted_times ts t (a @ b) = shifted_times ts t a @ shifted_times ts (t + sum_list a) b"
  by (induction a arbitrary: t) (simp_all add: add.assoc)

lemma shifted_zero: "shifted_times ts 0 ds = sample_times ts ds"
  by (simp add: shifted_times_def sample_times_def)

lemma run_times_eq: "run_times ts d cnt t = shifted_times ts t (replicate cnt d)"
  by (induction cnt arbitrary: t) simp_all

lemma stts_times_table:
  assumes "\<forall>x \<in> set runs. fst x < 2 ^ 32 \<and> snd x < 2 ^ 32" "e \<le> length runs"
  shows "stts_times (stts_table runs) ts (length runs) e t = Some (shifted_times ts t (durations (drop e runs)))"
  using assms(2)
proof (induction "length runs - e" arbitrary: e t)
  case 0
  then show ?case by (subst stts_times.simps) (simp add: durations_def)
next
  case (Suc n)
  then have e: "e < length runs" by simp
  obtain c d where cd: "runs ! e = (c, d)" by fastforce
  have runs: "drop e runs = (c, d) # drop (Suc e) runs" using Cons_nth_drop_Suc [OF e] cd by simp
  have IH: "stts_times (stts_table runs) ts (length runs) (Suc e) t'
      = Some (shifted_times ts t' (durations (drop (Suc e) runs)))" for t'
    using Suc.hyps(1) [of "Suc e"] Suc.hyps(2) e by simp
  show ?case using e
    by (subst stts_times.simps)
      (simp add: stts_entry [OF assms(1)] cd runs IH run_times_eq durations_def shifted_append sum_list_replicate)
qed

text \<open>One chunk.\<close>

lemma chunk_samples_place:
  assumes "k \<le> length zs" "zs = zip sizes tm" "off + sum_list (map fst (drop k zs)) < 2 ^ 64"
  shows "chunk_samples (get sizes) tm (length sizes) per off k
    = Inr (Some (min (k + per) (length zs), place_samples off (take per (drop k zs))))"
  using assms(1,3)
proof (induction per arbitrary: off k)
  case (Suc per)
  show ?case
  proof (cases "k < length zs")
    case True
    have zs: "drop k zs = (sizes ! k, tm ! k) # drop (Suc k) zs"
      using Cons_nth_drop_Suc [OF True] assms(2) True by simp
    then have small: "off + sizes ! k + sum_list (map fst (drop (Suc k) zs)) < 2 ^ 64" using Suc.prems(2) by simp
    have "chunk_samples (get sizes) tm (length sizes) per (off + sizes ! k) (Suc k)
        = Inr (Some (min (Suc k + per) (length zs), place_samples (off + sizes ! k) (take per (drop (Suc k) zs))))"
      using Suc.IH [OF _ small] True by simp
    moreover have "get sizes k = Some (sizes ! k)" using True assms(2) by (simp add: get_def)
    ultimately show ?thesis using True assms(2) small
      by (cases "tm ! k") (simp add: zs [unfolded assms(2)] bind_read_def)
  next
    case False
    then show ?thesis using Suc.prems(1) assms(2) by (auto simp: min_def split: if_splits)
  qed
qed simp

text \<open>The entry in force.\<close>

definition entry_at :: "(nat \<times> nat) list \<Rightarrow> nat \<Rightarrow> nat" where
  "entry_at es chunk = length (takeWhile (\<lambda>(first, _). first \<le> chunk + 1) es) - 1"

lemma entry_begun:
  fixes es :: "(nat \<times> nat) list"
  assumes "es \<noteq> []" "fst (hd es) \<le> 1"
  shows "0 < length (takeWhile (\<lambda>(first, _). first \<le> chunk + 1) es)"
  using assms by (cases es) auto

lemma in_force_nth:
  assumes "es \<noteq> []" "fst (hd es) \<le> 1"
  shows "in_force es chunk = snd (es ! entry_at es chunk)" "entry_at es chunk < length es"
proof -
  let ?tw = "takeWhile (\<lambda>(first, _). first \<le> chunk + 1) es"
  have "?tw \<noteq> []" using entry_begun [OF assms, of chunk] by simp
  then have "last ?tw = ?tw ! (length ?tw - 1)" by (rule last_conv_nth)
  also have "\<dots> = es ! (length ?tw - 1)" using \<open>?tw \<noteq> []\<close> by (intro takeWhile_nth) simp
  finally show "in_force es chunk = snd (es ! entry_at es chunk)" by (simp add: in_force_def entry_at_def)
  show "entry_at es chunk < length es"
    using length_takeWhile_le [of "\<lambda>(first, _). first \<le> chunk + 1" es] entry_begun [OF assms, of chunk]
    unfolding entry_at_def by linarith
qed

lemma entry_mono: "entry_at es chunk \<le> entry_at es (Suc chunk)"
proof -
  have "length (takeWhile (\<lambda>(first, _). first \<le> chunk + 1) es)
      \<le> length (takeWhile (\<lambda>(first, _). first \<le> Suc chunk + 1) es)"
    by (induction es) auto
  then show ?thesis by (simp add: entry_at_def)
qed

lemma advance_table:
  assumes es: "\<forall>x \<in> set es. fst x < 2 ^ 32 \<and> snd x < 2 ^ 32" "es \<noteq> []" "fst (hd es) \<le> 1"
    and "entry \<le> entry_at es chunk"
  shows "advance (stsc_table es) (length es) chunk entry = entry_at es chunk"
  using assms(4)
proof (induction "entry_at es chunk - entry" arbitrary: entry)
  case 0
  let ?tw = "takeWhile (\<lambda>(first, _). first \<le> chunk + 1) es"
  have e: "entry + 1 = length ?tw" using 0 entry_begun [OF es(2,3), of chunk] unfolding entry_at_def by linarith
  have "\<not> fst (es ! (entry + 1)) \<le> chunk + 1" if "entry + 1 < length es"
    using nth_length_takeWhile [of "\<lambda>(first, _). first \<le> chunk + 1" es] that e by (auto simp: split_beta)
  then show ?case using 0
    by (subst advance.simps) (auto simp: stsc_entry_table [OF es(1)] split: prod.splits)
next
  case (Suc n)
  let ?tw = "takeWhile (\<lambda>(first, _). first \<le> chunk + 1) es"
  have less: "Suc entry < length ?tw" using Suc.hyps(2) by (simp add: entry_at_def)
  then have "?tw ! Suc entry \<in> set ?tw" by (rule nth_mem)
  then have "fst (es ! Suc entry) \<le> chunk + 1"
    using takeWhile_nth [OF less] by (auto dest: set_takeWhileD)
  moreover have "Suc entry < length es" using less length_takeWhile_le [of "\<lambda>(first, _). first \<le> chunk + 1" es] by linarith
  moreover have "advance (stsc_table es) (length es) chunk (Suc entry) = entry_at es chunk"
    using Suc.hyps by simp
  ultimately show ?case
    by (subst advance.simps) (simp add: stsc_entry_table [OF es(1)] split_beta)
qed

text \<open>All chunks.\<close>

lemma chunks_layout:
  assumes es: "\<forall>x \<in> set es. fst x < 2 ^ 32 \<and> snd x < 2 ^ 32" "es \<noteq> []" "fst (hd es) \<le> 1"
    and offs: "\<forall>off \<in> set offs. off + sum_list sizes < 2 ^ 64" and zs: "zs = zip sizes tm"
    and "chunk \<le> length offs" "k \<le> length zs" "entry \<le> entry_at es chunk"
  shows "chunks_from (stsc_table es) (length es) (get offs) (get sizes) tm (length sizes) (length offs) chunk entry k
    = Inr (Some (layout (map (\<lambda>c. (in_force es c, offs ! c)) [chunk..<length offs]) (drop k zs)))"
  using assms(6-8)
proof (induction "length offs - chunk" arbitrary: chunk k entry)
  case 0
  then show ?case by (subst chunks_from.simps) simp
next
  case (Suc n)
  then have c: "chunk < length offs" by simp
  let ?k = "min (k + in_force es chunk) (length zs)"
  obtain f where e: "stsc_entry (stsc_table es) (entry_at es chunk) = Some (f, in_force es chunk)"
    using in_force_nth [OF es(2,3), of chunk] stsc_entry_table [OF es(1)] by (metis prod.collapse)
  have "sum_list (map fst (drop k zs)) \<le> sum_list sizes"
  proof -
    have "map fst (drop k zs) = drop k (take (length zs) sizes)" using zs by (simp add: drop_map [symmetric] map_fst_zip_take)
    moreover have "sum_list (drop k (take m sizes)) \<le> sum_list sizes" for m
    proof -
      have "sum_list sizes = sum_list (take m sizes) + sum_list (drop m sizes)"
        by (metis append_take_drop_id sum_list_append)
      moreover have "sum_list (take m sizes) = sum_list (take k (take m sizes)) + sum_list (drop k (take m sizes))"
        by (metis append_take_drop_id sum_list_append)
      ultimately show ?thesis by linarith
    qed
    ultimately show ?thesis by simp
  qed
  moreover have "offs ! chunk + sum_list sizes < 2 ^ 64" using offs c by simp
  ultimately have "offs ! chunk + sum_list (map fst (drop k zs)) < 2 ^ 64" by linarith
  note samples = chunk_samples_place [OF Suc.prems(2) zs this, of "in_force es chunk"]
  have IH: "chunks_from (stsc_table es) (length es) (get offs) (get sizes) tm (length sizes) (length offs) (Suc chunk)
        (entry_at es chunk) ?k
      = Inr (Some (layout (map (\<lambda>c. (in_force es c, offs ! c)) [Suc chunk..<length offs]) (drop ?k zs)))"
    using Suc.hyps(1) [of "Suc chunk" ?k "entry_at es chunk"] Suc.hyps(2) c entry_mono [of es chunk] by simp
  have "drop ?k zs = drop (in_force es chunk) (drop k zs)" by (simp add: min_def add.commute)
  moreover have "get offs chunk = Some (offs ! chunk)" using c by (simp add: get_def)
  ultimately show ?case using c Suc.prems
    by (subst chunks_from.simps)
      (simp add: advance_table [OF es] e samples IH bind_read_def upt_conv_Cons)
qed

text \<open>The four boxes of a sample table.\<close>

definition sample_boxes :: "(nat \<times> nat) list \<Rightarrow> nat list \<Rightarrow> (nat \<times> nat) list \<Rightarrow> nat list \<Rightarrow> u8 list" where
  "sample_boxes runs sizes es offs =
     concat (map make_box [(''stts'', stts_table runs), (''stsc'', stsc_table es), (''stsz'', stsz_table sizes),
       (''co64'', co64_table offs)])"

lemma length_tables:
  "length (stts_table runs) = 8 + length runs * 8" "length (stsc_table es) = 8 + length es * 12"
  "length (stsz_table sizes) = 12 + length sizes * 4" "length (co64_table offs) = 8 + length offs * 8"
proof -
  have "length (concat (map (\<lambda>(cnt, delta). be32 cnt @ be32 delta) runs)) = length runs * 8"
    by (induction runs) auto
  then show "length (stts_table runs) = 8 + length runs * 8" by (simp add: stts_table_def)
  have "length (concat (map (\<lambda>(first, per). be32 first @ be32 per @ be32 1) es)) = length es * 12"
    by (induction es) auto
  then show "length (stsc_table es) = 8 + length es * 12" by (simp add: stsc_table_def)
  have "length (concat (map be32 sizes)) = length sizes * 4" by (induction sizes) auto
  then show "length (stsz_table sizes) = 12 + length sizes * 4" by (simp add: stsz_table_def)
  have "length (concat (map be64 offs)) = length offs * 8" by (induction offs) auto
  then show "length (co64_table offs) = 8 + length offs * 8" by (simp add: co64_table_def)
qed

lemma be_counts:
  "length runs < 2 ^ 32 \<Longrightarrow> be_at 4 4 (stts_table runs) = Some (length runs)"
  "length es < 2 ^ 32 \<Longrightarrow> be_at 4 4 (stsc_table es) = Some (length es)"
  "length offs < 2 ^ 32 \<Longrightarrow> be_at 4 4 (co64_table offs) = Some (length offs)"
  "be_at 4 4 (stsz_table sizes) = Some 0"
  "length sizes < 2 ^ 32 \<Longrightarrow> be_at 8 4 (stsz_table sizes) = Some (length sizes)"
  by (simp_all add: stts_table_def stsc_table_def stsz_table_def co64_table_def be_at_def get_range_def be32_val)

text \<open>C25. The sample table of an MP4 track reads back: from the boxes a muxer writes for its runs of durations,
  its sample sizes, its chunk offsets and the samples per chunk, every sample gets the offset behind the one
  before it in its chunk, as many samples per chunk as the entry in force says, and the start that the
  durations before it add up to, on the clock of the track.\<close>

theorem sample_table_reads_back:
  assumes runs: "\<forall>x \<in> set runs. fst x < 2 ^ 32 \<and> snd x < 2 ^ 32" "length runs < 2 ^ 28"
    and sizes: "\<forall>n \<in> set sizes. n < 2 ^ 32" "length sizes < 2 ^ 28"
    and es: "\<forall>x \<in> set es. fst x < 2 ^ 32 \<and> snd x < 2 ^ 32" "es \<noteq> []" "fst (hd es) \<le> 1" "length es < 2 ^ 28"
    and offs: "\<forall>off \<in> set offs. off + sum_list sizes < 2 ^ 64" "length offs < 2 ^ 28"
  shows "mp4_sample_table (sample_boxes runs sizes es offs) timescale
    = Inr (Some (layout (map (\<lambda>c. (in_force es c, offs ! c)) [0..<length offs])
        (zip sizes (sample_times timescale (durations runs)))))"
proof -
  let ?bs = "[(''stts'', stts_table runs), (''stsc'', stsc_table es), (''stsz'', stsz_table sizes),
       (''co64'', co64_table offs)]"
  let ?tm = "sample_times timescale (durations runs)"
  have "list_all boxable ?bs" using runs(2) sizes(2) es(4) offs(2) by (simp add: boxable_def length_tables)
  moreover have "length (concat (map make_box ?bs)) < 2 ^ 64"
    using runs(2) sizes(2) es(4) offs(2) by (simp add: length_tables)
  ultimately have find: "find_box (sample_boxes runs sizes es offs) kind = Inr (map_of ?bs kind)" for kind
    unfolding sample_boxes_def by (rule find_make_box)
  have small: "\<forall>off \<in> set offs. off < 2 ^ 64" using offs(1) by auto
  have offsets: "chunk_off True (co64_table offs) = get offs" using chunk_off_table [OF small] by (intro ext)
  have sizes_at: "size_of (stsz_table sizes) 0 = get sizes" using size_of_table [OF sizes(1)] by (intro ext)
  have tm: "stts_times (stts_table runs) timescale (length runs) 0 0 = Some ?tm"
    using stts_times_table [OF runs(1), of 0 timescale 0] by (simp add: shifted_zero)
  have "samples_of (stts_table runs) (stsz_table sizes) (stsc_table es) True (co64_table offs) timescale
      = chunks_from (stsc_table es) (length es) (get offs) (get sizes) ?tm (length sizes) (length offs) 0 0 0"
    using runs(2) sizes(2) es(4) offs(2) by (simp add: samples_of_def be_counts tm offsets sizes_at)
  also have "\<dots> = Inr (Some (layout (map (\<lambda>c. (in_force es c, offs ! c)) [0..<length offs]) (zip sizes ?tm)))"
    using chunks_layout [OF es(1-3) offs(1) refl, of 0 0 ?tm 0] by simp
  finally show ?thesis
    by (simp add: mp4_sample_table_def into_box_def bind_read_def chunk_table_def find)
qed

text \<open>Witness of C25: three samples, two in the first chunk.\<close>

theorem sample_table_reads_back_witness:
  "mp4_sample_table (sample_boxes [(2, 500), (1, 250)] [10, 20, 30] [(1, 2), (2, 1)] [1000, 5000]) 1000
    = Inr (Some [(1000, 10, 0, 500), (1010, 20, 500, 500), (5000, 30, 1000, 250)])"
proof -
  have "layout (map (\<lambda>c. (in_force [(1, 2), (2, 1)] c, [1000, 5000] ! c)) [0..<length [1000, 5000 :: nat]])
      (zip [10, 20, 30] (sample_times 1000 (durations [(2, 500), (1, 250)])))
    = [(1000, 10, 0, 500), (1010, 20, 500, 500), (5000, 30, 1000, 250)]"
    by code_simp
  moreover have "fst (hd [(1, 2), (2, 1 :: nat)]) \<le> (1 :: nat)" by simp
  ultimately show ?thesis
    using sample_table_reads_back [of "[(2, 500), (1, 250)]" "[10, 20, 30]" "[(1, 2), (2, 1)]" "[1000, 5000]" 1000]
    by simp
qed

section \<open>Hostile boxes\<close>

text \<open>A box that declares a 64-bit size up to the end of the address space.\<close>

definition hostile_box :: "u8 list" where
  "hostile_box = be32 1 @ map char_byte ''evil'' @ be64 (2 ^ 64 - 8)"

lemma hostile_box_panics: "find_box (make_box (''free'', []) @ hostile_box) kind = Inl Panicked"
proof -
  have sizes: "box_size 24 (make_box (''free'', []) @ hostile_box) = Some (8, 8)"
    "box_size 16 hostile_box = Some (2 ^ 64 - 8, 16)"
    by (simp_all add: box_size_def make_box_def hostile_box_def be32_val be64_val Let_def be_at_def get_range_def)
  have len: "length hostile_box = 16" by (simp add: hostile_box_def)
  have walk: "walk_boxes f (make_box (''free'', []) @ hostile_box) 8 s = (s, Inl Panicked)"
    for f :: "u8 list option box_visitor" and s
    by (subst walk_boxes.simps) (simp add: len sizes)
  have "\<exists>s. walk_boxes (find_visitor kind) (make_box (''free'', []) @ hostile_box) 0 None = (s, Inl Panicked)"
    by (subst walk_boxes.simps) (simp add: len sizes walk find_visitor_def)
  then show ?thesis by (auto simp: find_box_def)
qed

end
