(* ===== verification/Keyframes.thy ===== *)
theory Keyframes
  imports Mp4
begin

text \<open>
  The longest gap between keyframes, read from the index of the container
  (\<open>crates/kahawai-media/src/subindex.rs\<close>, \<open>max_keyframe_interval_ms\<close>): the cues of Matroska, the sync
  samples of MP4, \<open>idx1\<close> of AVI. Files are shorter than \<open>2^63\<close> bytes, so positions do not overflow where
  the sizes have 32 or 56 bits; times wrap at 64 bits. \<open>f64\<close> results are rounded by the parameter \<open>fl\<close>.
\<close>

section \<open>The gap\<close>

text \<open>\<open>windows(2)\<close>.\<close>

fun neighbours :: "'a list \<Rightarrow> ('a \<times> 'a) list" where
  "neighbours [] = []"
| "neighbours [a] = []"
| "neighbours (a # b # xs) = (a, b) # neighbours (b # xs)"

definition gap_ms :: "u64 list \<Rightarrow> (u64 \<Rightarrow> u64) \<Rightarrow> u32 option" where
  "gap_ms keys clock =
     (if length keys < 2 then None
      else Some (ucast (min (foldl max 0 (map (\<lambda>(a, b). clock b - clock a) (neighbours (sort_key unat keys))))
                   0xFFFFFFFF)))"

section \<open>Matroska\<close>

text \<open>A track entry: its number, and its type.\<close>

definition kind_entry :: "u32 \<Rightarrow> u8 list \<Rightarrow> u64 option \<times> u64 \<Rightarrow> u64 option \<times> u64" where
  "kind_entry eid v s =
     (if eid = TRACK_NUMBER then (Some (uint_of v), snd s)
      else if eid = TRACK_TYPE then (fst s, uint_of v) else s)"

definition video_visitor :: "u32 \<Rightarrow> u8 list \<Rightarrow> u64 option \<Rightarrow> u64 option \<times> (read_error + unit)" where
  "video_visitor eid entry video =
     (if eid = TRACK_ENTRY then
        (case walk_children (collecting kind_entry) entry (None, 0) of
           (_, Inl e) \<Rightarrow> (video, Inl e)
         | ((num, kind), Inr _) \<Rightarrow> (if kind = 1 \<and> video = None then num else video, Inr ()))
      else (video, Inr ()))"

record GapIndex =
  gx_scale :: u64
  gx_video :: "u64 option"
  gx_cues :: "(nat \<times> nat) option"
  gx_pending :: "nat list"
  gx_seekhead :: bool

text \<open>One element of the segment: \<open>None\<close> where the walk stops at a cluster.\<close>

definition gap_element :: "Source \<Rightarrow> nat \<Rightarrow> u32 \<Rightarrow> nat \<Rightarrow> nat \<Rightarrow> GapIndex \<Rightarrow> Reader
    \<Rightarrow> Reader \<times> (read_error + GapIndex option)" where
  "gap_element src start eid body sz gx r =
     (if eid = SEEK_HEAD then
        and_then (read_at src body sz r) (\<lambda>r data.
          case read_seek_head [CUES, TRACKS, INFO] start data (gx_pending gx) of
            (_, Inl e) \<Rightarrow> (r, Inl e)
          | (pending, Inr _) \<Rightarrow> (r, Inr (Some (gx\<lparr>gx_pending := pending, gx_seekhead := True\<rparr>))))
      else if eid = INFO then
        and_then (read_at src body sz r) (\<lambda>r data.
          case walk_children (collecting info_entry) data (gx_scale gx) of
            (_, Inl e) \<Rightarrow> (r, Inl e) | (scale, Inr _) \<Rightarrow> (r, Inr (Some (gx\<lparr>gx_scale := scale\<rparr>))))
      else if eid = TRACKS then
        and_then (read_at src body sz r) (\<lambda>r data.
          case walk_children (trying video_visitor) data (gx_video gx) of
            (_, Inl e) \<Rightarrow> (r, Inl e) | (video, Inr _) \<Rightarrow> (r, Inr (Some (gx\<lparr>gx_video := video\<rparr>))))
      else if eid = CUES then (r, Inr (Some (gx\<lparr>gx_cues := Some (body, sz)\<rparr>)))
      else if eid = CLUSTER \<and> gx_seekhead gx \<and> gx_pending gx = [] then (r, Inr None)
      else (r, Inr (Some gx)))"

function gap_loop :: "Source \<Rightarrow> nat \<Rightarrow> nat \<Rightarrow> GapIndex \<Rightarrow> nat list \<Rightarrow> nat \<Rightarrow> Reader
    \<Rightarrow> Reader \<times> (read_error + GapIndex)" where
  "gap_loop src start stop gx visited pos r =
     (if min stop (so_size src) \<le> pos then (r, Inr gx)
      else if pos \<in> set visited then (r, Inr gx)
      else (case read_at src pos 16 r of
              (r, Inl Panicked) \<Rightarrow> (r, Inl Panicked)
            | (r, Inl _) \<Rightarrow> (r, Inr gx)
            | (r, Inr head) \<Rightarrow>
                (case element_header head of
                   Inl e \<Rightarrow> (r, Inr gx)
                 | Inr (eid, hl, None) \<Rightarrow> (r, Inr gx)
                 | Inr (eid, hl, Some sz) \<Rightarrow>
                     (case gap_element src start eid (pos + hl) (unat sz) gx r of
                        (r, Inl e) \<Rightarrow> (r, Inl e)
                      | (r, Inr None) \<Rightarrow> (r, Inr gx)
                      | (r, Inr (Some gx)) \<Rightarrow>
                          if gx_cues gx \<noteq> None \<and> gx_video gx \<noteq> None then (r, Inr gx)
                          else gap_loop src start stop gx (pos # visited)
                                 (unwrap_or (find (\<lambda>p. p \<notin> set (pos # visited)) (gx_pending gx)) (pos + hl + unat sz)) r))))"
  by auto
termination
  by (relation "measure (\<lambda>(src, start, stop, gx, visited, pos, r). card ({0..<so_size src} - set visited))")
    (auto simp del: set_simps intro: unvisited_less)

declare gap_loop.simps [simp del]

text \<open>A cue point: its time, and its track.\<close>

definition cue_track_entry :: "u32 \<Rightarrow> u8 list \<Rightarrow> u64 option \<Rightarrow> u64 option" where
  "cue_track_entry eid w track = (if eid = CUE_TRACK then Some (uint_of w) else track)"

definition cue_time_entry :: "u32 \<Rightarrow> u8 list \<Rightarrow> u64 option \<times> u64 option
    \<Rightarrow> (u64 option \<times> u64 option) \<times> (read_error + unit)" where
  "cue_time_entry eid v s =
     (if eid = CUE_TIME then ((Some (uint_of v), snd s), Inr ())
      else if eid = CUE_TRACK_POSITIONS then
        (case walk_children (collecting cue_track_entry) v (snd s) of (track, res) \<Rightarrow> ((fst s, track), res))
      else (s, Inr ()))"

definition key_visitor :: "u64 option \<Rightarrow> u32 \<Rightarrow> u8 list \<Rightarrow> u64 list \<Rightarrow> u64 list \<times> (read_error + unit)" where
  "key_visitor video eid point keys =
     (if eid = CUE_POINT then
        (case walk_children (trying cue_time_entry) point (None, None) of
           (_, Inl e) \<Rightarrow> (keys, Inl e)
         | ((time, track), Inr _) \<Rightarrow>
             (case time of
                Some t \<Rightarrow>
                  (if (case (track, video) of (Some k, Some v) \<Rightarrow> k = v | _ \<Rightarrow> True)
                   then (keys @ [t], Inr ()) else (keys, Inr ()))
              | None \<Rightarrow> (keys, Inr ())))
      else (keys, Inr ()))"

definition gap_of_cues :: "Source \<Rightarrow> GapIndex \<Rightarrow> Reader \<Rightarrow> Reader \<times> (read_error + u32 option)" where
  "gap_of_cues src gx r =
     (case gx_cues gx of
        None \<Rightarrow> (r, Inr None)
      | Some (body, sz) \<Rightarrow>
          and_then (read_at src body sz r) (\<lambda>r data.
            case walk_children (trying (key_visitor (gx_video gx))) data [] of
              (_, Inl e) \<Rightarrow> (r, Inl e)
            | (keys, Inr _) \<Rightarrow> (r, Inr (gap_ms keys (\<lambda>ticks. ticks * gx_scale gx div 1000000)))))"

definition mkv_max_keyframe_gap :: "Source \<Rightarrow> Reader \<Rightarrow> Reader \<times> (read_error + u32 option)" where
  "mkv_max_keyframe_gap src r =
     and_then (read_at src 0 (min 32 (so_size src)) r) (\<lambda>r head.
       case ebml_id head of
         Inl e \<Rightarrow> (r, Inr None)
       | Inr (eid, il) \<Rightarrow>
           if eid \<noteq> EBML_HEADER then (r, Inr None)
           else (case ebml_size (drop il head) of
                   Inl e \<Rightarrow> (r, Inl e)
                 | Inr (None, _) \<Rightarrow> (r, Inl Shape)
                 | Inr (Some hsize, hsl) \<Rightarrow>
                     (let pos = il + hsl + unat hsize in
                      and_then (read_at src pos 16 r) (\<lambda>r seg.
                        case ebml_id seg of
                          Inl e \<Rightarrow> (r, Inl e)
                        | Inr (eid, il) \<Rightarrow>
                            if eid \<noteq> SEGMENT then (r, Inr None)
                            else (case ebml_size (drop il seg) of
                                    Inl e \<Rightarrow> (r, Inl e)
                                  | Inr (seg_size, sn) \<Rightarrow>
                                      (let start = pos + il + sn in
                                       and_then (gap_loop src start (segment_bounds src start seg_size)
                                           \<lparr>gx_scale = 1000000, gx_video = None, gx_cues = None, gx_pending = [],
                                            gx_seekhead = False\<rparr> [] start r)
                                         (\<lambda>r gx. gap_of_cues src gx r)))))))"

section \<open>MP4\<close>

text \<open>The times of the sync samples: the entries of \<open>stts\<close> in order, up to one that is cut off.\<close>

fun sync_run :: "u32 set \<Rightarrow> u64 \<Rightarrow> nat \<Rightarrow> u64 \<times> u32 \<Rightarrow> u64 list" where
  "sync_run syncs delta 0 st = []"
| "sync_run syncs delta (Suc cnt) (t, k) =
     (if k \<in> syncs then [t] else []) @ sync_run syncs delta cnt (t + delta, k + 1)"

function sync_times :: "u32 set \<Rightarrow> u8 list \<Rightarrow> nat \<Rightarrow> nat \<Rightarrow> u64 \<times> u32 \<Rightarrow> u64 list" where
  "sync_times syncs stts n e st =
     (if n \<le> e then []
      else (case (be_at (8 + e * 8) 4 stts, be_at (12 + e * 8) 4 stts) of
              (Some cnt, Some delta) \<Rightarrow>
                sync_run syncs (of_nat delta) cnt st
                  @ sync_times syncs stts n (Suc e) (fst st + of_nat cnt * of_nat delta, snd st + of_nat cnt)
            | _ \<Rightarrow> []))"
  by auto
termination
  by (relation "measure (\<lambda>(syncs, stts, n, e, st). n - e)") auto

declare sync_times.simps [simp del]

definition sync_set :: "u8 list \<Rightarrow> nat \<Rightarrow> u32 set" where
  "sync_set stss n = set (map of_nat (filter_map (\<lambda>i. be_at (8 + i * 4) 4 stss) [0..<n]))"

text \<open>The gap of one video track: \<open>None\<close> when the track does not tell.\<close>

definition gap_of_stbl :: "u8 list \<Rightarrow> u64 \<Rightarrow> u8 list \<Rightarrow> read_error + u32 option option" where
  "gap_of_stbl moov timescale stbl =
     into_box stbl ''stts'' (\<lambda>stts. bind_read (be_slice 4 4 stts) (\<lambda>entries.
       if entries = 0 then Inr None
       else bind_read (find_box moov ''mvex'') (\<lambda>mvex.
         if mvex \<noteq> None then Inr None
         else (case find_box stbl ''stss'' of
                 Inl e \<Rightarrow> Inl e
               | Inr None \<Rightarrow> Inr (Some (Some 0))
               | Inr (Some stss) \<Rightarrow>
                   bind_read (be_slice 4 4 stss) (\<lambda>n.
                     Inr (Some (gap_ms (sync_times (sync_set stss n) stts entries 0 (0, 1))
                       (\<lambda>t. t * 1000 div max timescale 1))))))))"

definition gap_trak :: "u8 list \<Rightarrow> u32 option option box_visitor" where
  "gap_trak moov kind body out =
     (if kind \<noteq> ''trak'' \<or> out \<noteq> None then (out, Inr ())
      else (case into_box body ''mdia'' (\<lambda>mdia. into_box mdia ''hdlr'' (\<lambda>hdlr.
                   if length hdlr < 12 \<or> kind_at 8 hdlr \<noteq> ''vide'' then Inr None
                   else into_box mdia ''mdhd'' (\<lambda>mdhd. bind_read (mdhd_timescale mdhd) (\<lambda>timescale.
                          into_box mdia ''minf'' (\<lambda>minf. into_box minf ''stbl'' (gap_of_stbl moov timescale)))))) of
              Inl e \<Rightarrow> (out, Inl e)
            | Inr x \<Rightarrow> (x, Inr ())))"

definition mp4_max_keyframe_gap :: "Source \<Rightarrow> Reader \<Rightarrow> Reader \<times> (read_error + u32 option)" where
  "mp4_max_keyframe_gap src r =
     and_then (find_moov src 0 r) (\<lambda>r m.
       case m of
         NoMovie \<Rightarrow> (r, Inr None)
       | BadBox \<Rightarrow> (r, Inr None)
       | Movie moov \<Rightarrow>
           (case walk_boxes (gap_trak moov) moov 0 None of
              (_, Inl e) \<Rightarrow> (r, Inl e)
            | (out, Inr _) \<Rightarrow> (r, Inr (unwrap_or out None))))"

section \<open>AVI\<close>

definition le_at :: "nat \<Rightarrow> nat \<Rightarrow> u8 list \<Rightarrow> nat" where
  "le_at i n xs = be_val (rev (take n (drop i xs)))"

record AviIndex =
  av_stream_no :: nat
  av_video :: "nat option"
  av_spf :: "rat option"
  av_idx1 :: "(nat \<times> nat) option"

text \<open>The header of a stream: the first video stream, and the seconds of one of its frames.\<close>

definition stream_header :: "(rat \<Rightarrow> rat) \<Rightarrow> u8 list \<Rightarrow> AviIndex \<Rightarrow> AviIndex" where
  "stream_header fl b av =
     (let av' = av\<lparr>av_stream_no := Suc (av_stream_no av)\<rparr>; scale = le_at 20 4 b; rate = le_at 24 4 b in
      if 32 \<le> length b \<and> kind_at 0 b = ''vids'' \<and> av_video av = None
      then av'\<lparr>av_video := Some (av_stream_no av),
               av_spf := (if 0 < rate then Some (fl (of_nat scale / of_nat rate)) else av_spf av)\<rparr>
      else av')"

function avi_walk :: "(rat \<Rightarrow> rat) \<Rightarrow> Source \<Rightarrow> nat \<Rightarrow> AviIndex \<Rightarrow> Reader \<Rightarrow> Reader \<times> (read_error + AviIndex)" where
  "avi_walk fl src pos av r =
     (if so_size src < pos + 8 then (r, Inr av)
      else (case read_at src pos 8 r of
              (r, Inl e) \<Rightarrow> (r, Inl e)
            | (r, Inr head) \<Rightarrow>
                (let kind = kind_at 0 head; sz = le_at 4 4 head; onward = pos + 8 + sz + sz mod 2 in
                 if kind = ''LIST'' then
                   (case read_at src (pos + 8) 4 r of
                      (r, Inl e) \<Rightarrow> (r, Inl e)
                    | (r, Inr sub) \<Rightarrow>
                        if kind_at 0 sub \<in> {''hdrl'', ''strl''} then avi_walk fl src (pos + 12) av r
                        else avi_walk fl src onward av r)
                 else if kind = ''strh'' then
                   (case read_at src (pos + 8) (min 32 sz) r of
                      (r, Inl e) \<Rightarrow> (r, Inl e)
                    | (r, Inr b) \<Rightarrow> avi_walk fl src onward (stream_header fl b av) r)
                 else if kind = ''idx1'' then (r, Inr (av\<lparr>av_idx1 := Some (pos + 8, sz)\<rparr>))
                 else avi_walk fl src onward av r)))"
  by auto
termination
  by (relation "measure (\<lambda>(fl, src, pos, av, r). so_size src - pos)") auto

declare avi_walk.simps [simp del]

text \<open>The entries of \<open>idx1\<close>: how many frames of the video stream, and which are keyframes.\<close>

definition idx1_entry :: "nat \<Rightarrow> u8 list \<Rightarrow> u64 \<times> u64 list \<Rightarrow> u64 \<times> u64 list" where
  "idx1_entry stream e s =
     (case s of (frames, keys) \<Rightarrow>
        if take 2 (kind_at 0 e) \<noteq> take 2 (pad0 2 stream) \<or> drop 2 (kind_at 0 e) \<notin> {''dc'', ''db''} then s
        else (frames + 1, if bit (le_at 4 4 e) 4 then keys @ [frames] else keys))"

function idx1_loop :: "Source \<Rightarrow> nat \<Rightarrow> nat \<Rightarrow> nat \<Rightarrow> nat \<Rightarrow> u64 \<times> u64 list \<Rightarrow> Reader
    \<Rightarrow> Reader \<times> (read_error + u64 list)" where
  "idx1_loop src stream body sz off s r =
     (if sz < off + 16 then (r, Inr (snd s))
      else (let n = min (16 * 4096) (sz - off) div 16 * 16 in
            case read_at src (body + off) n r of
              (r, Inl e) \<Rightarrow> (r, Inl e)
            | (r, Inr buf) \<Rightarrow> idx1_loop src stream body sz (off + n) (fold (idx1_entry stream) (chunks_exact 16 buf) s) r))"
  by auto
termination
  by (relation "measure (\<lambda>(src, stream, body, sz, off, s, r). sz - off)") (auto intro!: diff_less_mono2)

declare idx1_loop.simps [simp del]

text \<open>The time of a frame: a float to an integer, cut and saturated.\<close>

definition frame_ms :: "(rat \<Rightarrow> rat) \<Rightarrow> rat \<Rightarrow> u64 \<Rightarrow> u64" where
  "frame_ms fl spf f =
     of_nat (min (nat \<lfloor>fl (fl (fl (of_nat (unat f)) * spf) * 1000)\<rfloor>) (2 ^ 64 - 1))"

definition avi_max_keyframe_gap :: "(rat \<Rightarrow> rat) \<Rightarrow> Source \<Rightarrow> Reader \<Rightarrow> Reader \<times> (read_error + u32 option)" where
  "avi_max_keyframe_gap fl src r =
     and_then (avi_walk fl src 12 \<lparr>av_stream_no = 0, av_video = None, av_spf = None, av_idx1 = None\<rparr> r) (\<lambda>r av.
       case (av_idx1 av, av_video av, av_spf av) of
         (Some (body, sz), Some stream, Some spf) \<Rightarrow>
           and_then (idx1_loop src stream body sz 0 (0, []) r) (\<lambda>r keys. (r, Inr (gap_ms keys (frame_ms fl spf))))
       | _ \<Rightarrow> (r, Inr None))"

definition max_keyframe_interval_ms :: "(rat \<Rightarrow> rat) \<Rightarrow> u8 list \<Rightarrow> Source \<Rightarrow> read_error + u32 option" where
  "max_keyframe_interval_ms fl content src =
     (if length content < 12 then Inr None
      else if take 4 content = [0x1A, 0x45, 0xDF, 0xA3] then snd (mkv_max_keyframe_gap src reader_new)
      else if kind_at 4 content = ''ftyp'' then snd (mp4_max_keyframe_gap src reader_new)
      else if kind_at 0 content = ''RIFF'' \<and> kind_at 8 content = ''AVI '' then snd (avi_max_keyframe_gap fl src reader_new)
      else Inr None)"


section \<open>What the gap says\<close>

lemma key_max_ge: "(acc :: 'a::linorder) \<le> foldl max acc ds \<and> (\<forall>d \<in> set ds. d \<le> foldl max acc ds)"
proof (induction ds arbitrary: acc)
  case (Cons d ds)
  from Cons [of "max acc d"] show ?case by auto
qed simp

lemma key_max_mem: "foldl max (acc :: 'a::linorder) ds \<in> insert acc (set ds)"
proof (induction ds arbitrary: acc)
  case (Cons d ds)
  from Cons [of "max acc d"] show ?case by (auto simp: max_def split: if_splits)
qed simp

lemma key_max_word:
  fixes ds :: "u64 list"
  assumes "ds \<noteq> []"
  shows "foldl max 0 ds \<in> set ds"
proof (cases "foldl max 0 ds = 0")
  case True
  obtain d where d: "d \<in> set ds" using assms by (cases ds) auto
  then have "d = 0" using key_max_ge [of 0 ds] True by (auto simp: word_le_0_iff)
  then show ?thesis using True d by simp
next
  case False
  then show ?thesis using key_max_mem [of 0 ds] by auto
qed

lemma neighbours_mem: "(a, b) \<in> set (neighbours xs) \<Longrightarrow> a \<in> set xs \<and> b \<in> set xs"
  by (induction xs rule: neighbours.induct) auto

lemma neighbours_sorted:
  "sorted (map unat (xs :: u64 list)) \<Longrightarrow> (a, b) \<in> set (neighbours xs)
    \<Longrightarrow> a \<le> b \<and> (\<forall>k \<in> set xs. k \<le> a \<or> b \<le> k)"
proof (induction xs rule: neighbours.induct)
  case (3 c d xs)
  show ?case
  proof (cases "(a, b) = (c, d)")
    case True
    then show ?thesis using 3 by (auto simp: word_le_nat_alt)
  next
    case False
    then have "(a, b) \<in> set (neighbours (d # xs))" using "3.prems"(2) by auto
    moreover from neighbours_mem [OF this] have "c \<le> a" using 3 by (auto simp: word_le_nat_alt)
    ultimately show ?thesis using 3 by simp
  qed
qed auto

lemma keys_cover:
  fixes t m :: u64
  assumes "sorted (map unat xs)" "\<forall>a \<in> set xs. \<forall>b \<in> set xs. a \<le> b \<longrightarrow> clock a \<le> clock b"
    and "\<forall>(a, b) \<in> set (neighbours xs). clock b - clock a \<le> m"
    and "xs \<noteq> []" "clock (hd xs) \<le> t" "t \<le> clock (last xs)"
  shows "\<exists>k \<in> set xs. t \<le> clock k \<and> unat (clock k) \<le> unat t + unat m"
  using assms
proof (induction xs rule: neighbours.induct)
  case (3 a b xs)
  show ?case
  proof (cases "t \<le> clock b")
    case True
    have "a \<le> b" using "3.prems"(1) by (simp add: word_le_nat_alt)
    then have "clock a \<le> clock b" using "3.prems"(2) by simp
    then have "unat (clock b) = unat (clock a) + unat (clock b - clock a)" by (simp add: unat_sub word_le_nat_alt)
    moreover have "unat (clock b - clock a) \<le> unat m" using "3.prems"(3) by (simp add: word_le_nat_alt)
    moreover have "unat (clock a) \<le> unat t" using "3.prems"(5) by (simp add: word_le_nat_alt)
    ultimately have "unat (clock b) \<le> unat t + unat m" by linarith
    then show ?thesis using True by auto
  next
    case False
    then show ?thesis using 3 by auto
  qed
next
  case (2 a)
  then show ?case by auto
qed auto

lemma gap_ms_max:
  assumes "gap_ms keys clock = Some g" "g \<noteq> 0xFFFFFFFF"
  shows "2 \<le> length keys"
    and "unat (foldl max 0 (map (\<lambda>(a, b). clock b - clock a) (neighbours (sort_key unat keys)))) = unat g"
proof -
  let ?m = "foldl max 0 (map (\<lambda>(a, b). clock b - clock a) (neighbours (sort_key unat keys)))"
  have g: "2 \<le> length keys" "g = ucast (min ?m 0xFFFFFFFF)"
    using assms(1) by (auto simp: gap_ms_def split: if_splits)
  show "2 \<le> length keys" by (rule g(1))
  have "\<not> 0xFFFFFFFF \<le> ?m"
  proof
    assume "0xFFFFFFFF \<le> ?m"
    then have "min ?m 0xFFFFFFFF = 0xFFFFFFFF" by (rule min_absorb2)
    then show False using g(2) assms(2) by simp
  qed
  then have less: "?m < 0xFFFFFFFF" by simp
  then have "min ?m 0xFFFFFFFF = ?m" by (intro min_absorb1) simp
  with less g(2) have less: "?m < 0xFFFFFFFF" "g = ucast ?m" by simp_all
  then have "unat ?m < 2 ^ 32" by (simp add: word_less_nat_alt)
  then show "unat ?m = unat g" using less(2) by (simp add: unsigned_ucast_eq take_bit_nat_eq_self)
qed

text \<open>The measured keyframe gap is the longest one: unless it is cut at \<open>2^32 - 1\<close>, every moment between two
  keyframes has a keyframe no further ahead than the gap, and two keyframes with none between them are that
  far apart. The clock of the index must not run backwards on the keyframes, which holds as long as its
  product stays below \<open>2^64\<close>.\<close>

theorem keyframe_gap_covers:
  fixes t g and keys :: "u64 list"
  assumes "gap_ms keys clock = Some g" "g \<noteq> 0xFFFFFFFF"
    and "\<forall>a \<in> set keys. \<forall>b \<in> set keys. a \<le> b \<longrightarrow> clock a \<le> clock b"
    and "k1 \<in> set keys" "clock k1 \<le> t" "k2 \<in> set keys" "t \<le> clock k2"
  shows "(\<exists>k \<in> set keys. t \<le> clock k \<and> unat (clock k) \<le> unat t + unat g)
    \<and> (\<exists>a \<in> set keys. \<exists>b \<in> set keys. a \<le> b \<and> unat (clock b - clock a) = unat g \<and> (\<forall>k \<in> set keys. k \<le> a \<or> b \<le> k))"
proof -
  let ?xs = "sort_key unat keys"
  let ?ds = "map (\<lambda>(a, b). clock b - clock a) (neighbours ?xs)"
  note m = gap_ms_max [OF assms(1,2)]
  have xs: "length ?xs = length keys" "set ?xs = set keys" "sorted (map unat ?xs)" by simp_all
  have nonempty: "?xs \<noteq> []" using m(1) xs(1) by (metis list.size(3) not_numeral_le_zero)
  have ends: "clock (hd ?xs) \<le> t \<and> t \<le> clock (last ?xs)"
  proof -
    have lo: "unat (hd ?xs) \<le> unat k" if "k \<in> set ?xs" for k
      using xs(3) that nonempty by (cases ?xs) auto
    have hi: "unat k \<le> unat (last ?xs)" if "k \<in> set ?xs" for k
      using xs(3) that nonempty by (cases ?xs rule: rev_cases) (auto simp: sorted_append)
    have "clock (hd ?xs) \<le> clock k1"
      using lo [of k1] assms(3,4) nonempty xs(2) by (metis hd_in_set word_le_nat_alt)
    moreover have "clock k2 \<le> clock (last ?xs)"
      using hi [of k2] assms(3,6) nonempty xs(2) by (metis last_in_set word_le_nat_alt)
    ultimately show ?thesis using assms(5,7) by (blast intro: order_trans)
  qed
  have each: "\<forall>(a, b) \<in> set (neighbours ?xs). clock b - clock a \<le> foldl max 0 ?ds"
    using key_max_ge [of 0 ?ds] by auto
  have cover: "\<exists>k \<in> set keys. t \<le> clock k \<and> unat (clock k) \<le> unat t + unat g"
    using keys_cover [OF xs(3) _ each nonempty, of t] ends assms(3) m(2) by simp
  have "neighbours ?xs \<noteq> []"
  proof -
    obtain a b r where "?xs = a # b # r" using m(1) xs(1) by (metis Suc_le_length_iff numeral_2_eq_2)
    then show ?thesis by simp
  qed
  then have "foldl max 0 ?ds \<in> set ?ds" by (intro key_max_word) simp
  then obtain a b where ab: "(a, b) \<in> set (neighbours ?xs)" "clock b - clock a = foldl max 0 ?ds" by auto
  then have "a \<le> b \<and> unat (clock b - clock a) = unat g \<and> (\<forall>k \<in> set keys. k \<le> a \<or> b \<le> k)"
    using neighbours_sorted [OF xs(3)] m(2) xs(2) by auto
  then show ?thesis using cover neighbours_mem [OF ab(1)] xs(2) by blast
qed

text \<open>Witness: keyframes at 0, 2 and 5 seconds.\<close>

theorem keyframe_gap_covers_witness:
  "\<exists>k. k \<in> set [0, 5, 2 :: u64] \<and> 2500 \<le> k * 1000 div 1 \<and> unat (k * 1000 div 1) \<le> 2500 + 3000"
proof -
  have "gap_ms [0, 5, 2] (\<lambda>t. t * 1000 div 1) = Some 3000" by code_simp
  from keyframe_gap_covers [OF this, of 0 2500 5] show ?thesis by auto
qed

end
