(* ===== verification/Image_Subs.thy ===== *)
theory Image_Subs
  imports Subtitle_Text
begin

text \<open>
  Image subtitles, \<open>crates/kahawai-media/src/imagesubs.rs\<close>: the stateful PGS decoder with its palettes,
  objects and fragments, the run lengths of PGS, and the decoder of VobSub units. A picture is the list of
  its RGBA pixels, line by line. The decoders run inside a C callback, where a panic would abort the
  process: every index and subtraction that could panic is a case of the model. \<open>f32\<close> results are rounded
  by the parameter \<open>fl\<close>.
\<close>

section \<open>Pictures\<close>

unbundle bit_operations_syntax

type_synonym Pixel = "u8 \<times> u8 \<times> u8 \<times> u8"
type_synonym Rgb = "u8 \<times> u8 \<times> u8"
type_synonym u16 = "16 word"

record ImageObject =
  im_x :: nat
  im_y :: nat
  im_w :: nat
  im_h :: nat
  im_rgba :: "Pixel list"

record DisplaySet =
  ds_canvas_w :: nat
  ds_canvas_h :: nat
  ds_objects :: "ImageObject list"

text \<open>A pixel written out of the picture panics.\<close>

definition write_px :: "nat \<Rightarrow> Pixel \<Rightarrow> Pixel list \<Rightarrow> read_error + Pixel list" where
  "write_px i px out = (if i < length out then Inr (out[i := px]) else Inl Panicked)"

section \<open>Run lengths of PGS\<close>

fun put_run :: "nat \<Rightarrow> nat \<Rightarrow> nat \<Rightarrow> Pixel \<Rightarrow> nat \<Rightarrow> nat \<Rightarrow> Pixel list \<Rightarrow> read_error + Pixel list" where
  "put_run w h y px 0 x out = Inr out"
| "put_run w h y px (Suc run) x out =
     (if x < w \<and> y < h
      then (case write_px (y * w + x) px out of Inl e \<Rightarrow> Inl e | Inr out \<Rightarrow> put_run w h y px run (Suc x) out)
      else put_run w h y px run (Suc x) out)"

definition palette_px :: "Pixel list \<Rightarrow> u8 \<Rightarrow> Pixel" where
  "palette_px palette color = unwrap_or (get palette (unat color)) (0, 0, 0, 0)"

text \<open>What follows the flag byte of a run: its length, its colour, and the bytes behind.\<close>

definition run_code :: "u8 \<Rightarrow> u8 list \<Rightarrow> (nat \<times> u8 \<times> u8 list) option" where
  "run_code f bs =
     (let low = unat (f AND 0x3F) in
      Option.bind (if f AND 0x40 \<noteq> 0
                   then (case bs of [] \<Rightarrow> None | b # bs \<Rightarrow> Some (low * 256 + unat b, bs)) else Some (low, bs)) (\<lambda>(run, bs).
      if f AND 0x80 \<noteq> 0 then (case bs of [] \<Rightarrow> None | c # bs \<Rightarrow> Some (run, c, bs)) else Some (run, 0, bs)))"

lemma run_code_shorter: "run_code f bs = Some (run, color, rest) \<Longrightarrow> length rest \<le> length bs"
  by (auto simp: run_code_def Let_def bind_eq_Some_conv split: if_splits list.splits)

function pgs_lines :: "nat \<Rightarrow> nat \<Rightarrow> Pixel list \<Rightarrow> u8 list \<Rightarrow> nat \<Rightarrow> nat \<Rightarrow> Pixel list \<Rightarrow> read_error + Pixel list" where
  "pgs_lines w h palette rle x y out =
     (if h \<le> y then Inr out
      else (case rle of
              [] \<Rightarrow> Inr out
            | c # rest \<Rightarrow>
                if c \<noteq> 0 then
                  (case put_run w h y (palette_px palette c) 1 x out of
                     Inl e \<Rightarrow> Inl e | Inr out \<Rightarrow> pgs_lines w h palette rest (x + 1) y out)
                else (case rest of
                        [] \<Rightarrow> Inr out
                      | f # rest \<Rightarrow>
                          if f = 0 then pgs_lines w h palette rest 0 (y + 1) out
                          else (case run_code f rest of
                                  None \<Rightarrow> Inl Shape
                                | Some (run, color, rest) \<Rightarrow>
                                    (case put_run w h y (palette_px palette color) run x out of
                                       Inl e \<Rightarrow> Inl e
                                     | Inr out \<Rightarrow> pgs_lines w h palette rest (x + run) y out)))))"
  by auto
termination
  by (relation "measure (\<lambda>(w, h, palette, rle, x, y, out). length rle)") (auto dest!: run_code_shorter)

declare pgs_lines.simps [simp del]

definition pgs_rle_decode :: "u8 list \<Rightarrow> nat \<Rightarrow> nat \<Rightarrow> Pixel list \<Rightarrow> read_error + Pixel list" where
  "pgs_rle_decode rle w h palette = pgs_lines w h palette rle 0 0 (replicate (w * h) (0, 0, 0, 0))"

section \<open>The PGS decoder\<close>

record PgsObject =
  po_w :: nat
  po_h :: nat
  po_rle :: "u8 list"
  po_declared :: nat

record PgsDecoder =
  pd_palettes :: "u8 \<Rightarrow> Pixel list option"
  pd_objects :: "u16 \<Rightarrow> PgsObject option"
  pd_pending :: "u16 \<Rightarrow> PgsObject option"

definition pgs_new :: PgsDecoder where
  "pgs_new = \<lparr>pd_palettes = (\<lambda>_. None), pd_objects = (\<lambda>_. None), pd_pending = (\<lambda>_. None)\<rparr>"

definition be16 :: "nat \<Rightarrow> u8 list \<Rightarrow> nat" where
  "be16 i xs = be_val (take 2 (drop i xs))"

text \<open>A float clamped to a byte: cut, or rounded.\<close>

definition clamp_cut :: "rat \<Rightarrow> u8" where
  "clamp_cut v = of_nat (nat \<lfloor>max 0 (min 255 v)\<rfloor>)"

definition clamp_round :: "rat \<Rightarrow> u8" where
  "clamp_round v = of_nat (nat \<lfloor>max 0 (min 255 v) + 1 / 2\<rfloor>)"

text \<open>An entry of a palette: limited-range BT.709.\<close>

definition pgs_color :: "(rat \<Rightarrow> rat) \<Rightarrow> u8 \<Rightarrow> u8 \<Rightarrow> u8 \<Rightarrow> u8 \<Rightarrow> Pixel" where
  "pgs_color fl y cr cb a =
     (let yl = fl (fl (1164 / 1000) * (of_nat (unat y) - 16));
          u = of_nat (unat cb) - 128; v = of_nat (unat cr) - 128;
          r = fl (yl + fl (fl (1793 / 1000) * v));
          g = fl (fl (yl - fl (fl (213 / 1000) * u)) - fl (fl (533 / 1000) * v));
          b = fl (yl + fl (fl (2112 / 1000) * u))
      in (clamp_cut r, clamp_cut g, clamp_cut b, a))"

definition palette_entry :: "(rat \<Rightarrow> rat) \<Rightarrow> u8 list \<Rightarrow> Pixel list \<Rightarrow> Pixel list" where
  "palette_entry fl e palette = palette[unat (e ! 0) := pgs_color fl (e ! 1) (e ! 2) (e ! 3) (e ! 4)]"

definition no_palette :: "Pixel list" where
  "no_palette = replicate 256 (0, 0, 0, 0)"

definition palette_segment :: "(rat \<Rightarrow> rat) \<Rightarrow> u8 list \<Rightarrow> PgsDecoder \<Rightarrow> PgsDecoder" where
  "palette_segment fl body d =
     (if length body < 2 then d
      else (let palette = unwrap_or (pd_palettes d (body ! 0)) no_palette in
            d\<lparr>pd_palettes := (pd_palettes d)(body ! 0 \<mapsto> fold (palette_entry fl) (chunks_exact 5 (drop 2 body)) palette)\<rparr>))"

text \<open>A fragment of an object: the first one opens it, the last one publishes it.\<close>

definition object_id :: "u8 list \<Rightarrow> u16" where
  "object_id body = of_nat (be16 0 body)"

definition open_object :: "u8 list \<Rightarrow> PgsObject" where
  "open_object body =
     \<lparr>po_w = be16 7 body, po_h = be16 9 body, po_rle = drop 11 body,
      po_declared = be_val (take 3 (drop 4 body)) - 4\<rparr>"

definition publish :: "u16 \<Rightarrow> PgsDecoder \<Rightarrow> PgsDecoder" where
  "publish oid d =
     (case pd_pending d oid of
        None \<Rightarrow> d
      | Some p \<Rightarrow> d\<lparr>pd_pending := (pd_pending d)(oid := None), pd_objects := (pd_objects d)(oid \<mapsto> p)\<rparr>)"

definition object_segment :: "u8 list \<Rightarrow> PgsDecoder \<Rightarrow> PgsDecoder" where
  "object_segment body d =
     (if length body < 4 \<or> (body ! 3 AND 0x80 \<noteq> 0 \<and> length body < 11) then d
      else (let oid = object_id body; seq = body ! 3;
                d = (if seq AND 0x80 \<noteq> 0 then d\<lparr>pd_pending := (pd_pending d)(oid \<mapsto> open_object body)\<rparr>
                     else (case pd_pending d oid of
                             Some p \<Rightarrow> d\<lparr>pd_pending := (pd_pending d)(oid \<mapsto> p\<lparr>po_rle := po_rle p @ drop 4 body\<rparr>)\<rparr>
                           | None \<Rightarrow> d))
            in if seq AND 0x40 \<noteq> 0 then publish oid d else d))"

text \<open>A composition: canvas, palette and references; the start of an epoch resets everything.\<close>

type_synonym Composition = "nat \<times> nat \<times> u8 \<times> (u16 \<times> nat \<times> nat) list"

fun composition_refs :: "u8 list \<Rightarrow> nat \<Rightarrow> nat \<Rightarrow> (u16 \<times> nat \<times> nat) list" where
  "composition_refs body 0 i = []"
| "composition_refs body (Suc n) i =
     (if length body < i + 8 then []
      else (of_nat (be16 i body), be16 (i + 4) body, be16 (i + 6) body)
        # composition_refs body n (if body ! (i + 3) AND 0x80 \<noteq> 0 then i + 16 else i + 8))"

definition composition_segment :: "u8 list \<Rightarrow> PgsDecoder \<Rightarrow> PgsDecoder \<times> Composition" where
  "composition_segment body d =
     ((if body ! 7 AND 0x80 \<noteq> 0 then pgs_new else d),
      (be16 0 body, be16 2 body, body ! 9, composition_refs body (unat (body ! 10)) 11))"

text \<open>The segments of one block: an error keeps what the segments before it defined.\<close>

function pgs_segments :: "(rat \<Rightarrow> rat) \<Rightarrow> u8 list \<Rightarrow> PgsDecoder \<Rightarrow> Composition option
    \<Rightarrow> PgsDecoder \<times> (read_error + Composition option)" where
  "pgs_segments fl data d seen =
     (if length data < 3 then (d, Inr seen)
      else (case get_range 3 (3 + be16 1 data) data of
              None \<Rightarrow> (d, Inl Shape)
            | Some body \<Rightarrow>
                let rest = drop (3 + be16 1 data) data; kind = data ! 0 in
                if kind = 0x16 then
                  (if length body < 11 then (d, Inl Shape)
                   else (case composition_segment body d of (d, c) \<Rightarrow> pgs_segments fl rest d (Some c)))
                else if kind = 0x14 then pgs_segments fl rest (palette_segment fl body d) seen
                else if kind = 0x15 then pgs_segments fl rest (object_segment body d) seen
                else pgs_segments fl rest d seen))"
  by auto
termination
  by (relation "measure (\<lambda>(fl, data, d, seen). length data)") auto

declare pgs_segments.simps [simp del]

definition shown_object :: "PgsDecoder \<Rightarrow> Pixel list \<Rightarrow> u16 \<times> nat \<times> nat \<Rightarrow> read_error + ImageObject option" where
  "shown_object d palette ref =
     (case ref of (oid, x, y) \<Rightarrow>
        (case pd_objects d oid of
           None \<Rightarrow> Inr None
         | Some p \<Rightarrow>
             if length (po_rle p) < po_declared p then Inr None
             else (case pgs_rle_decode (po_rle p) (po_w p) (po_h p) palette of
                     Inr rgba \<Rightarrow> Inr (Some \<lparr>im_x = x, im_y = y, im_w = po_w p, im_h = po_h p, im_rgba = rgba\<rparr>)
                   | Inl Panicked \<Rightarrow> Inl Panicked
                   | Inl _ \<Rightarrow> Inr None)))"

fun shown_objects :: "PgsDecoder \<Rightarrow> Pixel list \<Rightarrow> (u16 \<times> nat \<times> nat) list \<Rightarrow> read_error + ImageObject list" where
  "shown_objects d palette [] = Inr []"
| "shown_objects d palette (ref # refs) =
     (case shown_object d palette ref of
        Inl e \<Rightarrow> Inl e
      | Inr im \<Rightarrow>
          (case shown_objects d palette refs of
             Inl e \<Rightarrow> Inl e | Inr ims \<Rightarrow> Inr ((case im of None \<Rightarrow> [] | Some i \<Rightarrow> [i]) @ ims)))"

definition pgs_feed :: "(rat \<Rightarrow> rat) \<Rightarrow> u8 list \<Rightarrow> PgsDecoder \<Rightarrow> PgsDecoder \<times> (read_error + DisplaySet option)" where
  "pgs_feed fl data d =
     (case pgs_segments fl data d None of
        (d, Inl e) \<Rightarrow> (d, Inl e)
      | (d, Inr None) \<Rightarrow> (d, Inr None)
      | (d, Inr (Some (w, h, palette_id, refs))) \<Rightarrow>
          (d, map_sum (\<lambda>e. e) (\<lambda>objects. Some \<lparr>ds_canvas_w = w, ds_canvas_h = h, ds_objects = objects\<rparr>)
                (shown_objects d (unwrap_or (pd_palettes d palette_id) no_palette) refs)))"

section \<open>VobSub\<close>

text \<open>\<open>u32::from_str_radix(_, 16)\<close>.\<close>

definition parse_hex :: "nat \<Rightarrow> string \<Rightarrow> nat option" where
  "parse_hex bound s =
     (let ds = (case s of c # r \<Rightarrow> if c = CHR ''+'' then r else s | [] \<Rightarrow> s) in
      if ds = [] \<or> list_ex (\<lambda>c. hex_val c = None) ds then None
      else opt_filter (\<lambda>n. n < bound) (Some (foldl (\<lambda>a c. a * 16 + unwrap_or (hex_val c) 0) 0 ds)))"

definition rgb_of :: "nat \<Rightarrow> Rgb" where
  "rgb_of v = (of_nat (v div 65536), of_nat (v div 256), of_nat v)"

definition vobsub_palette :: "string \<Rightarrow> Rgb list" where
  "vobsub_palette codec_private =
     (case filter_map (\<lambda>l. strip_prefix ''palette:'' (trim l)) (str_lines codec_private) of
        [] \<Rightarrow> []
      | rest # _ \<Rightarrow> map rgb_of (filter_map (\<lambda>c. parse_hex (2 ^ 32) (trim c)) (split_on (CHR '','') rest)))"

definition vobsub_size :: "string \<Rightarrow> (nat \<times> nat) option" where
  "vobsub_size codec_private =
     (case filter_map (\<lambda>l.
         Option.bind (strip_prefix ''size:'' (trim l)) (\<lambda>rest.
         Option.bind (split_once_at ''x'' (trim rest)) (\<lambda>(w, h).
         Option.bind (parse_nat (2 ^ 32) (trim w)) (\<lambda>w.
         map_option (\<lambda>h. (w, h)) (parse_nat (2 ^ 32) (trim h)))))) (str_lines codec_private) of
        [] \<Rightarrow> None | x # _ \<Rightarrow> Some x)"

text \<open>An entry of a DVD palette: limited-range BT.601.\<close>

definition dvd_color :: "(rat \<Rightarrow> rat) \<Rightarrow> u32 \<Rightarrow> Rgb" where
  "dvd_color fl value =
     (let y = of_nat (unat (drop_bit 16 value AND 0xFF)); cr = of_nat (unat (drop_bit 8 value AND 0xFF)) - 128;
          cb = of_nat (unat (value AND 0xFF)) - 128; yl = fl (fl (1164 / 1000) * (y - 16))
      in (clamp_round (fl (yl + fl (fl (1596 / 1000) * cr))),
          clamp_round (fl (fl (yl - fl (fl (392 / 1000) * cb)) - fl (fl (813 / 1000) * cr))),
          clamp_round (fl (yl + fl (fl (2017 / 1000) * cb)))))"

definition vobsub_dvd_clut :: "(rat \<Rightarrow> rat) \<Rightarrow> u32 list \<Rightarrow> Rgb list" where
  "vobsub_dvd_clut fl clut = map (dvd_color fl) clut"

text \<open>The control sequence of a unit: what its commands set, up to a stop or a cut record.\<close>

record SpuControl =
  sc_palette :: "nat list"
  sc_alpha :: "nat list"
  sc_x1 :: nat
  sc_x2 :: nat
  sc_y1 :: nat
  sc_y2 :: nat
  sc_top :: nat
  sc_bottom :: nat

definition control_new :: SpuControl where
  "control_new = \<lparr>sc_palette = [0, 0, 0, 0], sc_alpha = [0, 0, 0, 0], sc_x1 = 0, sc_x2 = 0, sc_y1 = 0, sc_y2 = 0,
     sc_top = 0, sc_bottom = 0\<rparr>"

definition nibbles :: "u8 list \<Rightarrow> nat list" where
  "nibbles bs = concat (map (\<lambda>b. [unat b div 16, unat b mod 16]) bs)"

definition set_area :: "u8 list \<Rightarrow> SpuControl \<Rightarrow> SpuControl" where
  "set_area b sc =
     (let n = nibbles b; v = (\<lambda>i. n ! i * 256 + n ! (i + 1) * 16 + n ! (i + 2)) in
      sc\<lparr>sc_x1 := v 0, sc_x2 := v 3, sc_y1 := v 6, sc_y2 := v 9\<rparr>)"

text \<open>A command with operands: how many bytes, and what it sets.\<close>

definition command :: "u8 \<Rightarrow> (nat \<times> (u8 list \<Rightarrow> SpuControl \<Rightarrow> SpuControl)) option" where
  "command c =
     (if c = 0x03 then Some (2, \<lambda>b sc. sc\<lparr>sc_palette := nibbles b\<rparr>)
      else if c = 0x04 then Some (2, \<lambda>b sc. sc\<lparr>sc_alpha := nibbles b\<rparr>)
      else if c = 0x05 then Some (6, set_area)
      else if c = 0x06 then Some (4, \<lambda>b sc. sc\<lparr>sc_top := be16 0 b, sc_bottom := be16 2 b\<rparr>)
      else None)"

function control_walk :: "u8 list \<Rightarrow> nat \<Rightarrow> SpuControl \<Rightarrow> SpuControl" where
  "control_walk spu pos sc =
     (if length spu \<le> pos then sc
      else if spu ! pos = 0x02 \<or> spu ! pos = 0xFF then sc
      else (case command (spu ! pos) of
              None \<Rightarrow> control_walk spu (pos + 1) sc
            | Some (n, assign) \<Rightarrow>
                (case get_range (pos + 1) (pos + 1 + n) spu of
                   None \<Rightarrow> sc
                 | Some b \<Rightarrow> control_walk spu (pos + 1 + n) (assign b sc))))"
  by auto
termination
  by (relation "measure (\<lambda>(spu, pos, sc). length spu - pos)") auto

declare control_walk.simps [simp del]

text \<open>The next run: two bits of colour behind a length of one to four nibbles; zero means the rest of the line.\<close>

definition nibble :: "u8 list \<Rightarrow> nat \<Rightarrow> nat" where
  "nibble spu n =
     (let byte = unat (unwrap_or (get spu (n div 2)) 0) in if even n then byte div 16 else byte mod 16)"

definition spu_code :: "u8 list \<Rightarrow> nat \<Rightarrow> nat \<Rightarrow> nat \<times> nat" where
  "spu_code spu room n =
     (let v1 = nibble spu n in
      if 4 \<le> v1 then (v1, n + 1)
      else (let v2 = v1 * 16 + nibble spu (n + 1) in
      if 16 \<le> v2 then (v2, n + 2)
      else (let v3 = v2 * 16 + nibble spu (n + 2) in
      if 64 \<le> v3 then (v3, n + 3)
      else (let v4 = v3 * 16 + nibble spu (n + 3) in
      (if v4 < 4 then room * 4 + v4 else v4, n + 4)))))"

fun write_run :: "nat \<Rightarrow> Pixel \<Rightarrow> nat \<Rightarrow> Pixel list \<Rightarrow> read_error + Pixel list" where
  "write_run i px 0 out = Inr out"
| "write_run i px (Suc run) out =
     (case write_px i px out of Inl e \<Rightarrow> Inl e | Inr out \<Rightarrow> write_run (Suc i) px run out)"

definition spu_px :: "SpuControl \<Rightarrow> Rgb list \<Rightarrow> nat \<Rightarrow> Pixel" where
  "spu_px sc palette16 color =
     (let (r, g, b) = unwrap_or (get palette16 (sc_palette sc ! (3 - color))) (0, 0, 0); a = sc_alpha sc ! (3 - color)
      in (r, g, b, of_nat (a * 16 + a)))"

lemma spu_code_pos: "snd (spu_code spu room n) > n"
  by (simp add: spu_code_def Let_def)

text \<open>The lines of one field: every other one, each beginning on a byte.\<close>

function field_lines :: "u8 list \<Rightarrow> (nat \<Rightarrow> Pixel) \<Rightarrow> nat \<Rightarrow> nat \<Rightarrow> nat \<Rightarrow> nat \<Rightarrow> nat \<Rightarrow> Pixel list
    \<Rightarrow> read_error + Pixel list" where
  "field_lines spu px w h n x y out =
     (if h \<le> y \<or> length spu \<le> n div 2 then Inr out
      else if w < x then Inl Panicked
      else (let (v, n') = spu_code spu (w - x) n; run = min (v div 4) (w - x) in
            case write_run (y * w + x) (px (v mod 4)) run out of
              Inl e \<Rightarrow> Inl e
            | Inr out \<Rightarrow>
                if w \<le> x + run then field_lines spu px w h ((n' + 1) div 2 * 2) 0 (y + 2) out
                else field_lines spu px w h n' (x + run) y out))"
  by auto
termination
proof (relation "measure (\<lambda>(spu, px, w, h, n, x, y, out). 2 * length spu - n)", goal_cases)
  case (2 spu px w h n x y out z v n' run out')
  then have "n < n'" using spu_code_pos [of n spu "w - x"] by (auto dest: sym)
  then have "n < (n' + 1) div 2 * 2" by linarith
  then show ?case using 2(1) by auto
next
  case (3 spu px w h n x y out z v n' run out')
  then have "n < n'" using spu_code_pos [of n spu "w - x"] by (auto dest: sym)
  then show ?case using 3(1) by auto
qed simp

declare field_lines.simps [simp del]

definition vobsub_decode :: "u8 list \<Rightarrow> Rgb list \<Rightarrow> read_error + ImageObject option" where
  "vobsub_decode spu palette16 =
     (if length spu < 6 then Inr None
      else (let ctrl_at = be16 2 spu in
      if length spu \<le> ctrl_at then Inl Shape
      else (let sc = control_walk spu (ctrl_at + 4) control_new; w = sc_x2 sc - sc_x1 sc + 1; h = sc_y2 sc - sc_y1 sc + 1 in
      if sc_x2 sc < sc_x1 sc \<or> sc_y2 sc < sc_y1 sc \<or> sc_top sc = 0 \<or> w = 0 \<or> h = 0 \<or> 4096 < w \<or> 4096 < h then Inr None
      else (case field_lines spu (spu_px sc palette16) w h (sc_top sc * 2) 0 0 (replicate (w * h) (0, 0, 0, 0)) of
              Inl e \<Rightarrow> Inl e
            | Inr out \<Rightarrow>
                (case field_lines spu (spu_px sc palette16) w h (sc_bottom sc * 2) 0 1 out of
                   Inl e \<Rightarrow> Inl e
                 | Inr out \<Rightarrow>
                     Inr (Some \<lparr>im_x = sc_x1 sc, im_y = sc_y1 sc, im_w = w, im_h = h, im_rgba = out\<rparr>))))))"

end
