(* ===== verification/Image_Subs_Props.thy ===== *)
theory Image_Subs_Props
  imports Image_Subs
begin

text \<open>
  What the image decoders promise: no unit makes the VobSub decoder panic, and a picture run-length encoded
  for PGS is the picture that is shown.
\<close>

unbundle bit_operations_syntax

section \<open>VobSub units\<close>

lemma write_run_total: "i + run \<le> length out \<Longrightarrow> \<exists>out'. write_run i px run out = Inr out' \<and> length out' = length out"
proof (induction run arbitrary: i out)
  case (Suc run)
  then show ?case using Suc.IH [of "Suc i" "out[i := px]"] by (simp add: write_px_def)
qed simp

lemma line_fits: "y < h \<Longrightarrow> x + run \<le> w \<Longrightarrow> y * w + x + run \<le> w * (h :: nat)"
proof -
  assume y: "y < h" and x: "x + run \<le> w"
  then have "Suc y * w \<le> h * w" by (intro mult_right_mono) auto
  then show ?thesis using x by (simp add: mult.commute)
qed

lemma field_lines_total:
  "x < w \<Longrightarrow> length out = w * h \<Longrightarrow>
     \<exists>out'. field_lines spu px w h n x y out = Inr out' \<and> length out' = w * h"
proof (induction spu px w h n x y out rule: field_lines.induct)
  case (1 spu px w h n x y out)
  show ?case
  proof (cases "h \<le> y \<or> length spu \<le> n div 2")
    case True
    then show ?thesis using 1 by (subst field_lines.simps) simp
  next
    case False
    obtain v n' where code: "spu_code spu (w - x) n = (v, n')" by fastforce
    let ?run = "min (v div 4) (w - x)"
    obtain out' where out': "write_run (y * w + x) (px (v mod 4)) ?run out = Inr out'" "length out' = w * h"
      using write_run_total [of "y * w + x" ?run out "px (v mod 4)"] line_fits [of y h x ?run w] False "1.prems" by auto
    have ih: "\<exists>o2. field_lines spu px w h ((n' + 1) div 2 * 2) 0 (y + 2) out' = Inr o2 \<and> length o2 = w * h" if "w \<le> x + ?run"
      using "1.IH"(1) [OF False _ code [symmetric] _ refl out'(1) that] "1.prems" out'(2) by simp
    have ih2: "\<exists>o2. field_lines spu px w h n' (x + ?run) y out' = Inr o2 \<and> length o2 = w * h" if "\<not> w \<le> x + ?run"
      using "1.IH"(2) [OF False _ code [symmetric] _ refl out'(1) that] "1.prems" out'(2) that by simp
    show ?thesis using False "1.prems" ih ih2
      by (subst field_lines.simps) (simp add: code out'(1) Let_def)
  qed
qed

text \<open>The tables of palette and alpha always have their four entries.\<close>

definition control_ok :: "SpuControl \<Rightarrow> bool" where
  "control_ok sc \<longleftrightarrow> length (sc_palette sc) = 4 \<and> length (sc_alpha sc) = 4"

lemma length_nibbles: "length (nibbles bs) = 2 * length bs"
  by (induction bs) (simp_all add: nibbles_def)

lemma command_ok: "command c = Some (n, assign) \<Longrightarrow> length b = n \<Longrightarrow> control_ok sc \<Longrightarrow> control_ok (assign b sc)"
  by (auto simp: command_def control_ok_def length_nibbles set_area_def Let_def split: if_splits)

lemma get_range_length: "get_range a (a + n) xs = Some b \<Longrightarrow> length b = n"
  by (auto simp: get_range_def split: if_splits)

lemma control_walk_ok: "control_ok sc \<Longrightarrow> control_ok (control_walk spu pos sc)"
proof (induction spu pos sc rule: control_walk.induct)
  case (1 spu pos sc)
  show ?case
  proof (cases "length spu \<le> pos \<or> spu ! pos = 0x02 \<or> spu ! pos = 0xFF")
    case True
    then show ?thesis using "1.prems" by (subst control_walk.simps) auto
  next
    case False
    then have on: "\<not> length spu \<le> pos" "\<not> (spu ! pos = 0x02 \<or> spu ! pos = 0xFF)" by simp_all
    show ?thesis
    proof (cases "command (spu ! pos)")
      case None
      then show ?thesis using on "1.IH"(1) [OF on None] "1.prems" by (subst control_walk.simps) simp
    next
      case (Some c)
      obtain n assign where c: "c = (n, assign)" by fastforce
      show ?thesis
      proof (cases "get_range (pos + 1) (pos + 1 + n) spu")
        case None
        then show ?thesis using on Some c "1.prems" by (subst control_walk.simps) simp
      next
        case (Some b)
        have "control_ok (assign b sc)"
          using command_ok [of "spu ! pos" n assign b sc] get_range_length [OF Some] \<open>command _ = Some c\<close> c "1.prems" by simp
        then have "control_ok (control_walk spu (pos + 1 + n) (assign b sc))"
          using "1.IH"(2) [OF on \<open>command _ = Some c\<close> c [symmetric] Some] by simp
        then show ?thesis using on \<open>command _ = Some c\<close> c Some by (subst control_walk.simps) simp
      qed
    qed
  qed
qed

text \<open>C26. No VobSub unit, however cut or hostile, makes the decoder panic: it fails, shows nothing, or gives a
  picture of at most 4096 by 4096 with exactly the pixels of its size, out of tables of four entries.\<close>

theorem vobsub_never_panics:
  "(case vobsub_decode spu palette16 of
      Inl e \<Rightarrow> e = Shape
    | Inr None \<Rightarrow> True
    | Inr (Some im) \<Rightarrow>
        0 < im_w im \<and> im_w im \<le> 4096 \<and> 0 < im_h im \<and> im_h im \<le> 4096 \<and> length (im_rgba im) = im_w im * im_h im)
   \<and> control_ok (control_walk spu pos control_new)"
proof -
  let ?sc = "control_walk spu (be16 2 spu + 4) control_new"
  let ?w = "sc_x2 ?sc - sc_x1 ?sc + 1" let ?h = "sc_y2 ?sc - sc_y1 ?sc + 1"
  let ?px = "spu_px ?sc palette16" let ?blank = "replicate (?w * ?h) (0, 0, 0, 0) :: Pixel list"
  obtain o1 where o1: "field_lines spu ?px ?w ?h (sc_top ?sc * 2) 0 0 ?blank = Inr o1" "length o1 = ?w * ?h"
    using field_lines_total [of 0 ?w ?blank ?h spu ?px "sc_top ?sc * 2" 0] by auto
  obtain o2 where o2: "field_lines spu ?px ?w ?h (sc_bottom ?sc * 2) 0 1 o1 = Inr o2" "length o2 = ?w * ?h"
    using field_lines_total [of 0 ?w o1 ?h spu ?px "sc_bottom ?sc * 2" 1] o1(2) by auto
  have "control_ok (control_walk spu pos control_new)"
    by (rule control_walk_ok) (simp add: control_ok_def control_new_def)
  then show ?thesis using o1 o2 by (auto simp: vobsub_decode_def Let_def)
qed

section \<open>PGS run lengths\<close>

text \<open>A run of one colour as an encoder writes it.\<close>

definition rle_run :: "u8 \<times> nat \<Rightarrow> u8 list" where
  "rle_run r =
     (case r of (c, n) \<Rightarrow>
        if c \<noteq> 0 \<and> n = 1 then [c]
        else (let flag = (if c = 0 then 0 else 128); color = (if c = 0 then [] else [c]) in
              if n < 64 then [0, of_nat (flag + n)] @ color
              else [0, of_nat (flag + 64 + n div 256), of_nat (n mod 256)] @ color))"

definition rle_line :: "(u8 \<times> nat) list \<Rightarrow> u8 list" where
  "rle_line runs = concat (map rle_run runs) @ [0, 0]"

definition line_px :: "Pixel list \<Rightarrow> (u8 \<times> nat) list \<Rightarrow> Pixel list" where
  "line_px palette runs = concat (map (\<lambda>(c, n). replicate n (palette_px palette c)) runs)"

lemma flag_low: "unat ((f :: u8) AND 0x3F) = unat f mod 64"
proof -
  have "(0x3F :: u8) = mask 6" by (simp add: mask_eq_exp_minus_1)
  then have "f AND 0x3F = take_bit 6 f" by (simp only: take_bit_eq_mask)
  then have "unat (f AND 0x3F) = take_bit 6 (unat f)" by (simp only: unsigned_take_bit_eq)
  then show ?thesis by (simp only: take_bit_eq_mod) simp
qed

lemma flag_bit: "((f :: u8) AND 2 ^ i \<noteq> 0) = odd (unat f div 2 ^ i)"
proof -
  have "((f :: u8) AND 2 ^ i \<noteq> 0) = bit f i" by (simp only: and_exp_eq_0_iff_not_bit not_not)
  also have "\<dots> = bit (unat f) i" by (cases "i < 8") (auto simp: bit_unsigned_iff dest: bit_imp_le_length)
  finally show ?thesis by (simp only: bit_iff_odd)
qed

lemma flag_40: "((f :: u8) AND 0x40 = 0) = even (unat f div 64)"
  and flag_80: "((f :: u8) AND 0x80 = 0) = even (unat f div 128)"
  using flag_bit [of f 6] flag_bit [of f 7] by auto

lemma unat_byte: "k < 256 \<Longrightarrow> unat (of_nat k :: u8) = k"
  by (simp add: unsigned_of_nat take_bit_nat_eq_self)

lemma unat_byte_nonzero: "0 < k \<Longrightarrow> k < 256 \<Longrightarrow> (of_nat k :: u8) \<noteq> 0"
  using unat_byte [of k] by auto

lemma palette_px_run:
  assumes "length D = y * w + x" "x + n \<le> w" "y < h" "n \<le> k"
  shows "put_run w h y px n x (D @ replicate k z) = Inr (D @ replicate n px @ replicate (k - n) z)"
  using assms
proof (induction n arbitrary: D x k)
  case (Suc n)
  obtain k' where k: "k = Suc k'" using Suc.prems(4) by (cases k) auto
  have "write_px (y * w + x) px (D @ replicate k z) = Inr ((D @ [px]) @ replicate k' z)"
    using Suc.prems(1) k by (simp add: write_px_def list_update_append)
  then show ?case using Suc.IH [of "D @ [px]" "Suc x" k'] Suc.prems k by simp
qed simp

lemma flag_arith:
  fixes m :: nat
  assumes "m < 64"
  shows "(128 + m) mod 64 = m" "(128 + m) div 64 = 2" "(128 + m) div 128 = 1"
    and "(192 + m) mod 64 = m" "(192 + m) div 64 = 3" "(192 + m) div 128 = 1"
proof -
  have "128 + m = m + 2 * 64" "192 + m = m + 3 * 64" by simp_all
  then show "(128 + m) mod 64 = m" "(192 + m) mod 64 = m" using assms by (simp_all only: mod_mult_self1 mod_less)
  show "(128 + m) div 64 = 2" "(192 + m) div 64 = 3" "(128 + m) div 128 = 1" "(192 + m) div 128 = 1"
    using assms by (auto intro: div_nat_eqI)
qed

lemma run_code_short:
  assumes "unat f = (if c = 0 then 0 else 128) + n" "n < 64"
  shows "run_code f ((if c = 0 then [] else [c]) @ rest) = Some (n, c, rest)"
proof (cases "c = 0")
  case True
  then have "unat f mod 64 = n" "even (unat f div 64)" "even (unat f div 128)" using assms by auto
  then show ?thesis using True by (simp add: run_code_def flag_low flag_40 flag_80 Let_def)
next
  case False
  then have "unat f = 128 + n" using assms by simp
  then have "unat f mod 64 = n" "unat f div 64 = 2" "unat f div 128 = 1" using flag_arith(1-3) [OF assms(2)] by simp_all
  then show ?thesis using False by (simp add: run_code_def flag_low flag_40 flag_80 Let_def)
qed

lemma run_code_long:
  assumes "unat f = (if c = 0 then 0 else 128) + 64 + m" "m < 64"
  shows "run_code f (b # (if c = 0 then [] else [c]) @ rest) = Some (m * 256 + unat b, c, rest)"
proof (cases "c = 0")
  case True
  then have "unat f mod 64 = m" "unat f div 64 = 1" "unat f div 128 = 0" using assms by auto
  then show ?thesis using True by (simp add: run_code_def flag_low flag_40 flag_80 Let_def)
next
  case False
  then have "unat f = 192 + m" using assms by simp
  then have "unat f mod 64 = m" "unat f div 64 = 3" "unat f div 128 = 1" using flag_arith(4-6) [OF assms(2)] by simp_all
  then show ?thesis using False by (simp add: run_code_def flag_low flag_40 flag_80 Let_def)
qed

lemma rle_run_code:
  assumes "0 < n" "n < 16384" "\<not> (c \<noteq> 0 \<and> n = 1)"
  shows "\<exists>f bs. rle_run (c, n) = 0 # f # bs \<and> f \<noteq> 0 \<and> run_code f (bs @ rest) = Some (n, c, rest)"
proof (cases "n < 64")
  case True
  define k where "k = (if c = 0 then 0 else 128) + n"
  have k: "0 < k" "k < 256" using True assms(1) by (simp_all add: k_def)
  have "unat (of_nat k :: u8) = (if c = 0 then 0 else 128) + n" unfolding unat_byte [OF k(2)] by (rule k_def)
  note code = run_code_short [OF this True, of rest]
  have "rle_run (c, n) = 0 # of_nat k # (if c = 0 then [] else [c])"
    using assms(3) True by (simp add: rle_run_def Let_def k_def del: of_nat_add)
  then show ?thesis using unat_byte_nonzero [OF k] code by blast
next
  case False
  define k where "k = (if c = 0 then 0 else 128) + 64 + n div 256"
  have hi: "n div 256 < 64" using assms(2) by (simp add: less_mult_imp_div_less)
  then have k: "0 < k" "k < 256" by (simp_all add: k_def)
  have "unat (of_nat k :: u8) = (if c = 0 then 0 else 128) + 64 + n div 256" unfolding unat_byte [OF k(2)] by (rule k_def)
  note code = run_code_long [OF this hi, of "of_nat (n mod 256)" rest]
  have "unat (of_nat (n mod 256) :: u8) = n mod 256" by (intro unat_byte) simp
  then have code: "run_code (of_nat k) (of_nat (n mod 256) # (if c = 0 then [] else [c]) @ rest) = Some (n, c, rest)"
    using code by simp
  have "rle_run (c, n) = 0 # of_nat k # of_nat (n mod 256) # (if c = 0 then [] else [c])"
    using assms(3) False by (simp add: rle_run_def Let_def k_def del: of_nat_add)
  then show ?thesis using unat_byte_nonzero [OF k] code by (metis append_Cons)
qed

text \<open>One run, one line, all lines.\<close>

lemma pgs_run:
  assumes "0 < n" "n < 16384" "length D = y * w + x" "x + n \<le> w" "y < h" "n \<le> k"
  shows "pgs_lines w h palette (rle_run (c, n) @ rest) x y (D @ replicate k z)
    = pgs_lines w h palette rest (x + n) y ((D @ replicate n (palette_px palette c)) @ replicate (k - n) z)"
proof (cases "c \<noteq> 0 \<and> n = 1")
  case True
  then show ?thesis
    using palette_px_run [OF assms(3-6), of "palette_px palette c" z] assms(5)
    by (subst pgs_lines.simps) (simp add: rle_run_def)
next
  case False
  obtain f bs where code: "rle_run (c, n) = 0 # f # bs" "f \<noteq> 0" "run_code f (bs @ rest) = Some (n, c, rest)"
    using rle_run_code [OF assms(1,2) False, of rest] by blast
  show ?thesis
    using palette_px_run [OF assms(3-6), of "palette_px palette c" z] assms(5)
    by (subst pgs_lines.simps) (simp add: code)
qed

lemma length_line_px: "length (line_px palette runs) = sum_list (map snd runs)"
  by (induction runs) (auto simp: line_px_def)

lemma pgs_line:
  assumes "\<forall>r \<in> set runs. 0 < snd r \<and> snd r < 16384" "length D = y * w + x" "x + sum_list (map snd runs) \<le> w"
    and "y < h" "sum_list (map snd runs) \<le> k"
  shows "pgs_lines w h palette (rle_line runs @ rest) x y (D @ replicate k z)
    = pgs_lines w h palette rest 0 (y + 1) (D @ line_px palette runs @ replicate (k - sum_list (map snd runs)) z)"
  using assms
proof (induction runs arbitrary: D x k)
  case Nil
  have "pgs_lines w h palette ([0, 0] @ rest) x y (D @ replicate k z) = pgs_lines w h palette rest 0 (y + 1) (D @ replicate k z)"
    using Nil.prems(4) by (subst pgs_lines.simps) simp
  then show ?case by (simp add: rle_line_def line_px_def)
next
  case (Cons r runs)
  obtain c n where r: "r = (c, n)" by fastforce
  have n: "0 < n" "n < 16384" "x + n \<le> w" "n \<le> k" using Cons.prems r by auto
  have "pgs_lines w h palette (rle_line (r # runs) @ rest) x y (D @ replicate k z)
      = pgs_lines w h palette (rle_line runs @ rest) (x + n) y
          ((D @ replicate n (palette_px palette c)) @ replicate (k - n) z)"
    using pgs_run [OF n(1,2) Cons.prems(2) n(3) Cons.prems(4) n(4), of palette c "rle_line runs @ rest" z]
    by (simp add: rle_line_def r)
  also have "\<dots> = pgs_lines w h palette rest 0 (y + 1) ((D @ replicate n (palette_px palette c)) @ line_px palette runs
      @ replicate (k - n - sum_list (map snd runs)) z)"
    by (rule Cons.IH) (use Cons.prems r in auto)
  finally show ?case by (simp add: line_px_def r)
qed

lemma pgs_picture:
  assumes "\<forall>l \<in> set ls. sum_list (map snd l) = w \<and> (\<forall>r \<in> set l. 0 < snd r \<and> snd r < 16384)"
    and "length D = y * w" "y + length ls = h"
  shows "pgs_lines w h palette (concat (map rle_line ls)) 0 y (D @ replicate (length ls * w) z)
    = Inr (D @ concat (map (line_px palette) ls))"
  using assms
proof (induction ls arbitrary: D y)
  case Nil
  then show ?case by (subst pgs_lines.simps) simp
next
  case (Cons l ls)
  have l: "sum_list (map snd l) = w" "\<forall>r \<in> set l. 0 < snd r \<and> snd r < 16384" using Cons.prems(1) by auto
  have "pgs_lines w h palette (concat (map rle_line (l # ls))) 0 y (D @ replicate (length (l # ls) * w) z)
      = pgs_lines w h palette (concat (map rle_line ls)) 0 (y + 1) ((D @ line_px palette l) @ replicate (length ls * w) z)"
    using pgs_line [OF l(2), of D y w 0 h "length (l # ls) * w" palette "concat (map rle_line ls)" z] Cons.prems l(1) by simp
  also have "\<dots> = Inr ((D @ line_px palette l) @ concat (map (line_px palette) ls))"
    by (rule Cons.IH) (use Cons.prems l(1) in \<open>auto simp: length_line_px\<close>)
  finally show ?case by simp
qed

text \<open>C27. A picture that is run-length encoded for PGS decodes to itself: whatever its lines, as runs of up to
  16383 pixels of one colour that fill the width, the decoder gives the pixels of the palette, line by line.\<close>

theorem pgs_roundtrip:
  assumes "length ls = h"
    and "\<forall>l \<in> set ls. sum_list (map snd l) = w \<and> (\<forall>r \<in> set l. 0 < snd r \<and> snd r < 16384)"
  shows "pgs_rle_decode (concat (map rle_line ls)) w h palette = Inr (concat (map (line_px palette) ls))"
  using pgs_picture [OF assms(2), of "[]" 0 h palette "(0, 0, 0, 0)"] assms(1)
  by (simp add: pgs_rle_decode_def mult.commute)

text \<open>Witness of C27: a line of one colour, and a line with a short run, a dot and a gap.\<close>

theorem pgs_roundtrip_witness:
  "pgs_rle_decode (concat (map rle_line [[(1, 100)], [(2, 3), (1, 1), (0, 96)]])) 100 2 no_palette
    = Inr (concat (map (line_px no_palette) [[(1, 100)], [(2, 3), (1, 1), (0, 96)]]))"
  by (rule pgs_roundtrip) simp_all

end
