(* ===== verification/Vobsub_File.thy ===== *)
theory Vobsub_File
  imports Image_Subs
begin

text \<open>
  VobSub sidecar files, \<open>crates/kahawai-media/src/vobsub_file.rs\<close>: the track list of an \<open>.idx\<close> text, the
  units of a track out of the program stream of the \<open>.sub\<close> file, and their display time. An offset whose
  pack would end beyond \<open>2^64\<close> panics in a build with overflow checks; times wrap.
\<close>

section \<open>The index\<close>

record IdxTrack =
  ix_id :: nat
  ix_language :: "string option"
  ix_entries :: "(nat \<times> nat) list"

definition id_part :: "Unicode \<Rightarrow> string \<Rightarrow> nat \<times> string option \<Rightarrow> nat \<times> string option" where
  "id_part uni part0 s =
     (let part = trim part0 in
      case strip_prefix ''index:'' part of
        Some n \<Rightarrow> (unwrap_or (parse_nat (2 ^ 32) (trim n)) (fst s), snd s)
      | None \<Rightarrow> if part \<noteq> [] \<and> snd s = None then (fst s, Some (str_lower uni part)) else s)"

definition idx_track :: "Unicode \<Rightarrow> nat \<Rightarrow> string \<Rightarrow> IdxTrack" where
  "idx_track uni seen rest =
     (case fold (id_part uni) (split_on (CHR '','') rest) (seen mod 2 ^ 32, None) of
        (n, lang) \<Rightarrow> \<lparr>ix_id = n, ix_language = lang, ix_entries = []\<rparr>)"

definition idx_time :: "string \<Rightarrow> nat option" where
  "idx_time ts =
     (case map parse_u64 (split_on (CHR '':'') (trim ts)) of
        [Some h, Some m, Some s, Some ms] \<Rightarrow> Some (clock_ms h m s ms)
      | _ \<Rightarrow> None)"

definition idx_entry :: "string \<Rightarrow> (nat \<times> nat) option" where
  "idx_entry rest =
     Option.bind (split_once_at '','' rest) (\<lambda>(ts, fp).
     Option.bind (strip_prefix ''filepos:'' (trim fp)) (\<lambda>place.
     Option.bind (idx_time ts) (\<lambda>t. map_option (\<lambda>p. (t, p)) (parse_hex (2 ^ 64) (trim place)))))"

definition idx_line :: "Unicode \<Rightarrow> string \<Rightarrow> IdxTrack list \<Rightarrow> IdxTrack list" where
  "idx_line uni line0 tracks =
     (let line = trim line0 in
      case strip_prefix ''id:'' line of
        Some rest \<Rightarrow> tracks @ [idx_track uni (length tracks) rest]
      | None \<Rightarrow>
          (case Option.bind (strip_prefix ''timestamp:'' line) idx_entry of
             None \<Rightarrow> tracks
           | Some e \<Rightarrow>
               if tracks = [] then []
               else butlast tracks @ [(last tracks)\<lparr>ix_entries := ix_entries (last tracks) @ [e]\<rparr>]))"

definition parse_idx :: "Unicode \<Rightarrow> string \<Rightarrow> IdxTrack list" where
  "parse_idx uni txt = fold (idx_line uni) (str_lines txt) []"

section \<open>The program stream\<close>

definition PACK :: nat where "PACK = 2048"

text \<open>The payload of a private packet behind its header: substream and data, or an empty packet.\<close>

definition pes_payload :: "u8 list \<Rightarrow> (u8 \<times> u8 list) option option" where
  "pes_payload body =
     Option.bind (get body 2) (\<lambda>n. map_option (\<lambda>data. case data of [] \<Rightarrow> None | ss # rest \<Rightarrow> Some (ss, rest))
       (get_range (3 + unat n) (length body) body))"

text \<open>The packets of one pack: the unit so far, and the size it declares.\<close>

function pes_walk :: "u8 \<Rightarrow> u8 list \<Rightarrow> nat \<Rightarrow> u8 list \<times> nat \<Rightarrow> read_error + u8 list \<times> nat" where
  "pes_walk substream pack p st =
     (if PACK < p + 6 \<or> take 3 (drop p pack) \<noteq> [0, 0, 1] then Inr st
      else (let len = be16 (p + 4) pack in
            case get_range (p + 6) (p + 6 + len) pack of
              None \<Rightarrow> Inl Shape
            | Some body \<Rightarrow>
                if pack ! (p + 3) \<noteq> 0xBD then pes_walk substream pack (p + 6 + len) st
                else (case pes_payload body of
                        None \<Rightarrow> Inl Shape
                      | Some None \<Rightarrow> pes_walk substream pack (p + 6 + len) st
                      | Some (Some (ss, rest)) \<Rightarrow>
                          if ss \<noteq> substream then pes_walk substream pack (p + 6 + len) st
                          else if fst st = [] \<and> length rest < 2 then Inl Shape
                          else pes_walk substream pack (p + 6 + len)
                                 (fst st @ rest, if fst st = [] then be16 0 rest else snd st))))"
  by auto
termination
  by (relation "measure (\<lambda>(substream, pack, p, st). Suc PACK - p)") auto

declare pes_walk.simps [simp del]

fun pack_walk :: "u8 list \<Rightarrow> u8 \<Rightarrow> nat \<Rightarrow> nat \<Rightarrow> u8 list \<times> nat \<Rightarrow> read_error + u8 list \<times> nat" where
  "pack_walk sub substream 0 at_byte st = Inr st"
| "pack_walk sub substream (Suc n) at_byte st =
     (if snd st \<le> length (fst st) \<and> 0 < snd st then Inr st
      else if 2 ^ 64 \<le> at_byte + PACK then Inl Panicked
      else (case get_range at_byte (at_byte + PACK) sub of
              None \<Rightarrow> Inl Shape
            | Some pack \<Rightarrow>
                if take 4 pack \<noteq> [0, 0, 1, 0xBA] then Inl Shape
                else (case pes_walk substream pack (14 + unat (pack ! 13) mod 8) st of
                        Inl e \<Rightarrow> Inl e
                      | Inr st \<Rightarrow> pack_walk sub substream n (at_byte + PACK) st)))"

definition assemble_spu :: "u8 list \<Rightarrow> nat \<Rightarrow> u8 \<Rightarrow> read_error + u8 list" where
  "assemble_spu sub at_byte substream =
     (case pack_walk sub substream 64 at_byte ([], 0) of
        Inl e \<Rightarrow> Inl e
      | Inr (spu, want) \<Rightarrow> if 0 < want \<and> want \<le> length spu then Inr (take want spu) else Inl Shape)"

section \<open>The display time\<close>

text \<open>The commands of a control block: \<open>Some True\<close> for a stop, \<open>Some False\<close> for the end.\<close>

function stop_command :: "u8 list \<Rightarrow> nat \<Rightarrow> bool option" where
  "stop_command spu p =
     (case get spu p of
        None \<Rightarrow> None
      | Some c \<Rightarrow>
          if c = 0x00 \<or> c = 0x01 then stop_command spu (p + 1)
          else if c = 0x02 then Some True
          else if c = 0x03 \<or> c = 0x04 then stop_command spu (p + 3)
          else if c = 0x05 then stop_command spu (p + 7)
          else if c = 0x06 then stop_command spu (p + 5)
          else if c = 0xFF then Some False
          else None)"
  by auto
termination
  by (relation "measure (\<lambda>(spu, p). length spu - p)") (auto simp: get_eq_Some)

declare stop_command.simps [simp del]

fun stop_blocks :: "u8 list \<Rightarrow> nat \<Rightarrow> nat \<Rightarrow> nat option" where
  "stop_blocks spu 0 block = None"
| "stop_blocks spu (Suc n) block =
     (if length spu < block + 4 then None
      else (let date = be16 block spu; next_block = be16 (block + 2) spu in
            case stop_command spu (block + 4) of
              None \<Rightarrow> None
            | Some True \<Rightarrow> Some (date * 1024 div 90)
            | Some False \<Rightarrow> if next_block = block then None else stop_blocks spu n next_block))"

definition spu_stop_ms :: "u8 list \<Rightarrow> nat option" where
  "spu_stop_ms spu = (if length spu < 4 then None else stop_blocks spu 64 (be16 2 spu))"

section \<open>One track\<close>

fun track_blocks :: "u8 list \<Rightarrow> u8 \<Rightarrow> (nat \<times> nat) list \<Rightarrow> read_error + (nat \<times> nat option \<times> u8 list) list" where
  "track_blocks sub substream [] = Inr []"
| "track_blocks sub substream ((start, filepos) # es) =
     (case assemble_spu sub filepos substream of
        Inl Panicked \<Rightarrow> Inl Panicked
      | Inl _ \<Rightarrow> track_blocks sub substream es
      | Inr spu \<Rightarrow> map_sum (\<lambda>e. e) ((#) (start, spu_stop_ms spu, spu)) (track_blocks sub substream es))"

definition substream_of :: "nat \<Rightarrow> u8" where
  "substream_of track_id = 0x20 + of_nat (track_id mod 32)"

definition extract_track :: "Unicode \<Rightarrow> string \<Rightarrow> u8 list \<Rightarrow> nat \<Rightarrow> read_error + (nat \<times> nat option \<times> u8 list) list" where
  "extract_track uni idx_text sub track_id =
     (case find (\<lambda>t. ix_id t = track_id) (parse_idx uni idx_text) of
        None \<Rightarrow> Inl Shape
      | Some t \<Rightarrow>
          (case track_blocks sub (substream_of track_id) (ix_entries t) of
             Inl e \<Rightarrow> Inl e
           | Inr blocks \<Rightarrow> if blocks = [] then Inl Shape else Inr blocks))"

end
