(* ===== verification/Vobsub_File_Props.thy ===== *)
theory Vobsub_File_Props
  imports Vobsub_File
begin

text \<open>
  What the VobSub sidecar reader promises: a unit multiplexed into packs, between the packets of other
  streams and tracks, is put together again.
\<close>

section \<open>A multiplexer\<close>

text \<open>A packet: a piece of our unit behind a header of its own, one of another track, or one of another
  stream.\<close>

datatype Pes = Ours "u8 list" "u8 list" | Track u8 "u8 list" "u8 list" | Stream u8 "u8 list"

definition be16_bytes :: "nat \<Rightarrow> u8 list" where
  "be16_bytes n = [of_nat (n div 256), of_nat (n mod 256)]"

definition private_body :: "u8 list \<Rightarrow> u8 \<Rightarrow> u8 list \<Rightarrow> u8 list" where
  "private_body hdr ss data = [0x81, 0x80, of_nat (length hdr)] @ hdr @ ss # data"

fun pes_sid :: "Pes \<Rightarrow> u8" where
  "pes_sid (Ours hdr data) = 0xBD"
| "pes_sid (Track ss hdr data) = 0xBD"
| "pes_sid (Stream sid data) = sid"

fun pes_body :: "u8 \<Rightarrow> Pes \<Rightarrow> u8 list" where
  "pes_body substream (Ours hdr data) = private_body hdr substream data"
| "pes_body substream (Track ss hdr data) = private_body hdr ss data"
| "pes_body substream (Stream sid data) = data"

definition pes_bytes :: "u8 \<Rightarrow> Pes \<Rightarrow> u8 list" where
  "pes_bytes substream p =
     [0, 0, 1, pes_sid p] @ be16_bytes (length (pes_body substream p)) @ pes_body substream p"

fun pes_ok :: "u8 \<Rightarrow> Pes \<Rightarrow> bool" where
  "pes_ok substream (Ours hdr data) \<longleftrightarrow> length hdr < 256 \<and> 2 \<le> length data"
| "pes_ok substream (Track ss hdr data) \<longleftrightarrow> length hdr < 256 \<and> ss \<noteq> substream"
| "pes_ok substream (Stream sid data) \<longleftrightarrow> sid \<noteq> 0xBD"

fun pes_data :: "Pes \<Rightarrow> u8 list" where
  "pes_data (Ours hdr data) = data"
| "pes_data _ = []"

definition make_pack :: "u8 \<Rightarrow> Pes list \<Rightarrow> u8 list" where
  "make_pack substream ps =
     (let body = concat (map (pes_bytes substream) ps) in
      [0, 0, 1, 0xBA] @ replicate 10 0 @ body @ replicate (PACK - 14 - length body) 0xFF)"

definition pack_fits :: "u8 \<Rightarrow> Pes list \<Rightarrow> bool" where
  "pack_fits substream ps \<longleftrightarrow>
     list_all (pes_ok substream) ps \<and> length (concat (map (pes_bytes substream) ps)) + 14 \<le> PACK"

section \<open>The packets read back\<close>

lemma be16_bytes_val: "n < 65536 \<Longrightarrow> be_val (be16_bytes n) = n"
proof -
  assume n: "n < 65536"
  then have "n div 256 < 256" by (simp add: less_mult_imp_div_less)
  then show ?thesis by (simp add: be16_bytes_def be_val_Cons unsigned_of_nat take_bit_nat_eq_self)
qed

lemma length_be16 [simp]: "length (be16_bytes n) = 2"
  by (simp add: be16_bytes_def)

lemma payload_private: "length hdr < 256 \<Longrightarrow> pes_payload (private_body hdr ss data) = Some (Some (ss, data))"
  by (simp add: pes_payload_def private_body_def get_def get_range_def unsigned_of_nat take_bit_nat_eq_self
      drop_Cons' del: drop_Suc_Cons)

text \<open>What is put together after a piece: the declared size comes with the first two bytes.\<close>

definition gathered :: "u8 list \<Rightarrow> u8 list \<times> nat" where
  "gathered spu = (spu, if spu = [] then 0 else be16 0 spu)"

lemma gathered_add:
  assumes "spu = [] \<or> 2 \<le> length spu" "2 \<le> length data"
  shows "gathered (spu @ data) = (spu @ data, if spu = [] then be16 0 data else snd (gathered spu))"
  using assms by (auto simp: gathered_def be16_def)

lemma pes_walk_one:
  assumes "pes_ok substream q" "length pack = PACK" "pack = H @ pes_bytes substream q @ T" "length H = p"
    and "spu = [] \<or> 2 \<le> length spu"
  shows "pes_walk substream pack p (gathered spu)
    = pes_walk substream pack (p + length (pes_bytes substream q)) (gathered (spu @ pes_data q))"
proof -
  let ?body = "pes_body substream q"
  have len: "length (pes_bytes substream q) = 6 + length ?body" by (simp add: pes_bytes_def)
  have room: "\<not> PACK < p + 6" "length ?body < 65536"
    using assms(2-4) len by (simp_all add: PACK_def)
  have start: "take 3 (drop p pack) = [0, 0, 1]" "pack ! (p + 3) = pes_sid q"
    using assms(3,4) by (auto simp: pes_bytes_def nth_append)
  have size: "be16 (p + 4) pack = length ?body"
    using assms(3,4) be16_bytes_val [OF room(2)] by (simp add: be16_def pes_bytes_def)
  have body: "get_range (p + 6) (p + 6 + length ?body) pack = Some ?body"
    using assms(3,4) by (simp add: get_range_def pes_bytes_def)
  show ?thesis
  proof (cases q)
    case (Ours hdr data)
    then show ?thesis
      using assms(1) room start size body payload_private [of hdr substream data] len
        gathered_add [OF assms(5), of data]
      by (subst pes_walk.simps) (simp add: gathered_def add.assoc not_less split: if_splits)
  next
    case (Track ss hdr data)
    then show ?thesis
      using assms(1) room start size body payload_private [of hdr ss data] len
      by (subst pes_walk.simps) (simp add: add.assoc not_less)
  next
    case (Stream sid data)
    then show ?thesis
      using assms(1) room start size body len by (subst pes_walk.simps) (simp add: add.assoc not_less)
  qed
qed

lemma pes_walk_all:
  assumes "list_all (pes_ok substream) ps" "length pack = PACK"
    and "pack = H @ concat (map (pes_bytes substream) ps) @ replicate k 0xFF" "length H = p"
    and "spu = [] \<or> 2 \<le> length spu"
  shows "pes_walk substream pack p (gathered spu) = Inr (gathered (spu @ concat (map pes_data ps)))"
  using assms
proof (induction ps arbitrary: H p spu)
  case Nil
  then have "PACK < p + 6 \<or> take 3 (drop p pack) \<noteq> [0, 0, 1]" by (cases k) auto
  then show ?case by (subst pes_walk.simps) simp
next
  case (Cons q ps)
  let ?H = "H @ pes_bytes substream q"
  have next_spu: "spu @ pes_data q = [] \<or> 2 \<le> length (spu @ pes_data q)"
    using Cons.prems(1,5) by (cases q) auto
  have "pes_walk substream pack p (gathered spu)
      = pes_walk substream pack (p + length (pes_bytes substream q)) (gathered (spu @ pes_data q))"
    by (rule pes_walk_one [where H = H and T = "concat (map (pes_bytes substream) ps) @ replicate k 0xFF"])
      (use Cons.prems in auto)
  also have "\<dots> = Inr (gathered ((spu @ pes_data q) @ concat (map pes_data ps)))"
    by (rule Cons.IH [of ?H]) (use Cons.prems next_spu in auto)
  finally show ?case by simp
qed

lemma length_make_pack: "pack_fits substream ps \<Longrightarrow> length (make_pack substream ps) = PACK"
  by (simp add: make_pack_def pack_fits_def Let_def PACK_def)

lemma pes_walk_pack:
  assumes "pack_fits substream ps" "spu = [] \<or> 2 \<le> length spu"
  shows "take 4 (make_pack substream ps) = [0, 0, 1, 0xBA]"
    and "pes_walk substream (make_pack substream ps) (14 + unat (make_pack substream ps ! 13) mod 8) (gathered spu)
      = Inr (gathered (spu @ concat (map pes_data ps)))"
proof -
  let ?body = "concat (map (pes_bytes substream) ps)"
  have pack: "make_pack substream ps
      = ([0, 0, 1, 0xBA] @ replicate 10 0) @ ?body @ replicate (PACK - 14 - length ?body) 0xFF"
    by (simp add: make_pack_def Let_def)
  show "take 4 (make_pack substream ps) = [0, 0, 1, 0xBA]" by (simp add: pack)
  have "make_pack substream ps ! 13 = 0" by (simp add: make_pack_def Let_def nth_append)
  then show "pes_walk substream (make_pack substream ps) (14 + unat (make_pack substream ps ! 13) mod 8) (gathered spu)
      = Inr (gathered (spu @ concat (map pes_data ps)))"
    using pes_walk_all [OF _ length_make_pack [OF assms(1)] pack, of 14 spu] assms by (simp add: pack_fits_def)
qed

section \<open>The unit reads back\<close>

definition unit_data :: "Pes list list \<Rightarrow> u8 list" where
  "unit_data packs = concat (map (\<lambda>ps. concat (map pes_data ps)) packs)"

lemma data_two: "list_all (pes_ok substream) ps \<Longrightarrow> concat (map pes_data ps) = [] \<or> 2 \<le> length (concat (map pes_data ps))"
proof (induction ps)
  case (Cons q ps)
  then show ?case by (cases q) auto
qed simp

text \<open>The walk over the packs: as long as the unit is not complete it needs the next one.\<close>

lemma pack_walk_packs:
  assumes "list_all (pack_fits substream) packs" "sub = pre @ concat (map (make_pack substream) packs) @ post"
    and "length pre = i" "length sub < 2 ^ 64" "length packs \<le> n"
    and "spu = [] \<or> 2 \<le> length spu"
    and "be16 0 (spu @ unit_data packs) = length (spu @ unit_data packs)" "spu @ unit_data packs \<noteq> []"
  shows "pack_walk sub substream n i (gathered spu) = Inr (gathered (spu @ unit_data packs))
    \<or> spu = [] \<and> packs = []"
  using assms
proof (induction packs arbitrary: pre i n spu)
  case Nil
  then show ?case by (cases n) (auto simp: unit_data_def gathered_def)
next
  case (Cons ps packs)
  obtain n' where n: "n = Suc n'" using Cons.prems(5) by (cases n) auto
  let ?d = "concat (map pes_data ps)"
  have fits: "pack_fits substream ps" using Cons.prems(1) by simp
  have data: "?d = [] \<or> 2 \<le> length ?d" using data_two [of substream ps] fits unfolding pack_fits_def by blast
  have unit: "spu @ unit_data (ps # packs) = (spu @ ?d) @ unit_data packs" by (simp add: unit_data_def)
  have big: "spu \<noteq> [] \<Longrightarrow> be16 0 spu = length spu + length (unit_data (ps # packs))"
    using Cons.prems(6,7) by (auto simp: be16_def)
  show ?case
  proof (cases "spu \<noteq> [] \<and> unit_data (ps # packs) = []")
    case True
    then show ?thesis using big n Cons.prems(6) by (auto simp: gathered_def)
  next
    case False
    then have more: "\<not> (snd (gathered spu) \<le> length (fst (gathered spu)) \<and> 0 < snd (gathered spu))"
      using big by (auto simp: gathered_def)
    have len: "length (make_pack substream ps) = PACK" by (rule length_make_pack [OF fits])
    have "i + PACK \<le> length sub" using Cons.prems(2,3) len by simp
    then have here: "\<not> 2 ^ 64 \<le> i + PACK" "get_range i (i + PACK) sub = Some (make_pack substream ps)"
      using Cons.prems(2-4) len by (auto simp: get_range_def)
    have step: "pack_walk sub substream n i (gathered spu) = pack_walk sub substream n' (i + PACK) (gathered (spu @ ?d))"
      unfolding n pack_walk.simps(2) if_not_P [OF more] if_not_P [OF here(1)]
      by (simp add: here(2) pes_walk_pack [OF fits Cons.prems(6)])
    have spu': "spu @ ?d = [] \<or> 2 \<le> length (spu @ ?d)" using Cons.prems(6) data by auto
    have "pack_walk sub substream n' (i + PACK) (gathered (spu @ ?d)) = Inr (gathered ((spu @ ?d) @ unit_data packs))
        \<or> spu @ ?d = [] \<and> packs = []"
      by (rule Cons.IH [of "pre @ make_pack substream ps"])
        (use Cons.prems len n spu' unit in auto)
    moreover have "\<not> (spu @ ?d = [] \<and> packs = [])" using Cons.prems(8) by (auto simp: unit_data_def)
    ultimately have "pack_walk sub substream n' (i + PACK) (gathered (spu @ ?d)) = Inr (gathered ((spu @ ?d) @ unit_data packs))"
      by blast
    then show ?thesis unfolding step unit by blast
  qed
qed

text \<open>C28. A unit of a VobSub track is put together from the packs it was multiplexed into: whatever the packets
  of other tracks and streams between its pieces and whatever lies before and behind, the reader that starts
  at its first pack gives the bytes of the unit, when they fill at most 64 packs and begin with their number.\<close>

theorem spu_demultiplexed:
  assumes "list_all (pack_fits substream) packs" "length packs \<le> 64"
    and "be16 0 (unit_data packs) = length (unit_data packs)" "unit_data packs \<noteq> []"
    and "length (pre @ concat (map (make_pack substream) packs) @ post) < 2 ^ 64"
  shows "assemble_spu (pre @ concat (map (make_pack substream) packs) @ post) (length pre) substream
    = Inr (unit_data packs)"
proof -
  have "packs \<noteq> []" using assms(4) by (auto simp: unit_data_def)
  then have "pack_walk (pre @ concat (map (make_pack substream) packs) @ post) substream 64 (length pre) (gathered [])
      = Inr (gathered (unit_data packs))"
    using pack_walk_packs [OF assms(1) refl refl assms(5,2), of "[]"] assms(3,4) by simp
  then show ?thesis using assms(3,4) by (simp add: assemble_spu_def gathered_def)
qed

text \<open>Witness of C28: six bytes in two packs, with a packet of another track and padding.\<close>

theorem spu_demultiplexed_witness:
  "assemble_spu ([9, 9] @ concat (map (make_pack 0x20) [[Ours [] [0, 6, 1]], [Track 0x21 [] [7], Ours [5] [2, 3, 4], Stream 0xBE [1]]]) @ [8])
     (length [9, 9 :: u8]) 0x20 = Inr [0, 6, 1, 2, 3, 4]"
proof -
  let ?packs = "[[Ours [] [0, 6, 1]], [Track 0x21 [] [7], Ours [5] [2, 3, 4], Stream 0xBE [1]]]"
  have fits: "list_all (pack_fits 0x20) ?packs" by code_simp
  have data: "unit_data ?packs = [0, 6, 1, 2, 3, 4]" by code_simp
  have len: "length (make_pack 0x20 (?packs ! 0)) = PACK" "length (make_pack 0x20 (?packs ! 1)) = PACK"
    using fits length_make_pack by simp_all
  have "be16 0 [0, 6, 1, 2, 3, 4] = 6" by code_simp
  then show ?thesis
    using spu_demultiplexed [OF fits, of "[9, 9]" "[8]"] len by (simp add: data PACK_def)
qed

end
