(* ===== verification/Seek_Handler.thy ===== *)
theory Seek_Handler
  imports Timeline
begin

text \<open>
  Seek-restarts of a running session, \<open>crates/kahawai-hub/src/sessions/seek.rs\<close>: a request numbers its
  intent, merges it into the pending one, spawns a detached executor and waits for an outcome that covers
  its number; the executors take turns under \<open>seek_lock\<close>, each taking whatever intent is newest. One
  operation per critical section or suspension point, so any interleaving of requests, executors and the
  end of the session is a path of \<open>seek_step\<close>. The restart itself (\<open>execute_seek\<close>) is the parameter of
  its outcomes; \<open>sk_polled\<close> lists the restarts that began, for the properties only. Request \<open>r\<close> spawns
  executor \<open>r\<close>. The counter of generations is unbounded.
\<close>

section \<open>Definitions\<close>

datatype seek_request =
    Fresh
  | Seek_Numbered PendingSeek
  | Seek_Merged nat
  | Seek_Waiting nat
  | Seek_Answered "string + nat"
  | Seek_Dropped

datatype seek_executor =
    Not_Spawned
  | Spawned
  | Holding
  | Seek_Taken PendingSeek
  | Restarting PendingSeek
  | Restarted PendingSeek "string + nat"
  | Seek_Ended

datatype seek_holder = Nobody | Executor nat | Teardown

record SeekState =
  sk_gen :: nat
  sk_pending :: "PendingSeek option"
  sk_lock :: seek_holder
  sk_done :: "nat \<times> (string + nat)"
  sk_ended :: bool
  sk_requests :: "nat \<Rightarrow> seek_request"
  sk_executors :: "nat \<Rightarrow> seek_executor"
  sk_polled :: "PendingSeek list"

definition seek_new :: SeekState where
  "seek_new = \<lparr>sk_gen = 0, sk_pending = None, sk_lock = Nobody, sk_done = (0, Inr 0), sk_ended = False,
     sk_requests = (\<lambda>_. Fresh), sk_executors = (\<lambda>_. Not_Spawned), sk_polled = []\<rparr>"

definition set_request :: "nat \<Rightarrow> seek_request \<Rightarrow> SeekState \<Rightarrow> SeekState" where
  "set_request r q st = st\<lparr>sk_requests := (sk_requests st)(r := q)\<rparr>"

definition set_executor :: "nat \<Rightarrow> seek_executor \<Rightarrow> SeekState \<Rightarrow> SeekState" where
  "set_executor e x st = st\<lparr>sk_executors := (sk_executors st)(e := x)\<rparr>"

text \<open>\<open>fetch_add(1) + 1\<close>, before the lock of the pending intent is taken.\<close>

definition seek_number :: "nat \<Rightarrow> PendingSeek \<Rightarrow> SeekState \<Rightarrow> SeekState" where
  "seek_number r intent st =
     set_request r (Seek_Numbered (intent\<lparr>ps_generation := sk_gen st + 1\<rparr>)) (st\<lparr>sk_gen := sk_gen st + 1\<rparr>)"

definition seek_merge :: "nat \<Rightarrow> PendingSeek \<Rightarrow> SeekState \<Rightarrow> SeekState" where
  "seek_merge r p st =
     set_request r (Seek_Merged (ps_generation p)) (st\<lparr>sk_pending := Some (merge (sk_pending st) p)\<rparr>)"

definition seek_spawn :: "nat \<Rightarrow> nat \<Rightarrow> SeekState \<Rightarrow> SeekState" where
  "seek_spawn r g st = set_executor r Spawned (set_request r (Seek_Waiting g) st)"

text \<open>The loop of the request over \<open>seek_done\<close>: the first outcome at or past its generation.\<close>

definition seek_observe :: "nat \<Rightarrow> SeekState \<Rightarrow> SeekState" where
  "seek_observe r st = set_request r (Seek_Answered (snd (sk_done st))) st"

definition seek_timeout :: "nat \<Rightarrow> SeekState \<Rightarrow> SeekState" where
  "seek_timeout r st = set_request r (Seek_Answered (Inl ''seek restart did not settle within 60s'')) st"

definition seek_acquire :: "nat \<Rightarrow> SeekState \<Rightarrow> SeekState" where
  "seek_acquire e st = set_executor e Holding (st\<lparr>sk_lock := Executor e\<rparr>)"

text \<open>\<open>pending_seek.take()\<close>: nothing means an earlier executor covered it.\<close>

definition seek_take :: "nat \<Rightarrow> SeekState \<Rightarrow> SeekState" where
  "seek_take e st =
     (case sk_pending st of
        None \<Rightarrow> set_executor e Seek_Ended (st\<lparr>sk_lock := Nobody\<rparr>)
      | Some todo \<Rightarrow> set_executor e (Seek_Taken todo) (st\<lparr>sk_pending := None\<rparr>))"

definition session_ended_error :: "string + nat" where
  "session_ended_error = Inl ''session ended during seek''"

text \<open>\<open>until_session_ends\<close>, biased: a poll looks at the end of the session first, and only then
  polls the restart. The two are one step here; a session that ends between them is one that ends just after
  the poll.\<close>

definition poll_first :: "nat \<Rightarrow> PendingSeek \<Rightarrow> SeekState \<Rightarrow> SeekState" where
  "poll_first e todo st =
     (if sk_ended st then set_executor e (Restarted todo session_ended_error) st
      else set_executor e (Restarting todo) (st\<lparr>sk_polled := sk_polled st @ [todo]\<rparr>))"

definition poll_again :: "nat \<Rightarrow> PendingSeek \<Rightarrow> string + nat \<Rightarrow> SeekState \<Rightarrow> SeekState" where
  "poll_again e todo outcome st =
     set_executor e (Restarted todo (if sk_ended st then session_ended_error else outcome)) st"

definition seek_publish :: "nat \<Rightarrow> PendingSeek \<Rightarrow> string + nat \<Rightarrow> SeekState \<Rightarrow> SeekState" where
  "seek_publish e todo outcome st =
     set_executor e Seek_Ended (st\<lparr>sk_done := (ps_generation todo, outcome), sk_lock := Nobody\<rparr>)"

text \<open>\<open>Sessions::end\<close>: the flag first, then the lock, held until the session is gone.\<close>

definition session_end :: "SeekState \<Rightarrow> SeekState" where
  "session_end st = st\<lparr>sk_ended := True\<rparr>"

definition teardown_lock :: "SeekState \<Rightarrow> SeekState" where
  "teardown_lock st = st\<lparr>sk_lock := Teardown\<rparr>"

definition teardown_done :: "SeekState \<Rightarrow> SeekState" where
  "teardown_done st = st\<lparr>sk_lock := Nobody\<rparr>"

inductive seek_step :: "SeekState \<Rightarrow> SeekState \<Rightarrow> bool" where
  Number: "sk_requests st r = Fresh \<Longrightarrow> seek_step st (seek_number r intent st)"
| Merge: "sk_requests st r = Seek_Numbered p \<Longrightarrow> seek_step st (seek_merge r p st)"
| Spawn: "sk_requests st r = Seek_Merged g \<Longrightarrow> seek_step st (seek_spawn r g st)"
| Observe: "sk_requests st r = Seek_Waiting g \<Longrightarrow> fst (sk_done st) \<ge> g \<Longrightarrow> seek_step st (seek_observe r st)"
| Timeout: "sk_requests st r = Seek_Waiting g \<Longrightarrow> seek_step st (seek_timeout r st)"
| Disconnect: "sk_requests st r = Seek_Waiting g \<Longrightarrow> seek_step st (set_request r Seek_Dropped st)"
| Acquire: "sk_executors st e = Spawned \<Longrightarrow> sk_lock st = Nobody \<Longrightarrow> seek_step st (seek_acquire e st)"
| Take: "sk_executors st e = Holding \<Longrightarrow> seek_step st (seek_take e st)"
| Poll_First: "sk_executors st e = Seek_Taken todo \<Longrightarrow> seek_step st (poll_first e todo st)"
| Poll_Again: "sk_executors st e = Restarting todo \<Longrightarrow> seek_step st (poll_again e todo outcome st)"
| Publish: "sk_executors st e = Restarted todo outcome \<Longrightarrow> seek_step st (seek_publish e todo outcome st)"
| End: "seek_step st (session_end st)"
| Teardown_Lock: "sk_ended st \<Longrightarrow> sk_lock st = Nobody \<Longrightarrow> seek_step st (teardown_lock st)"
| Teardown_Done: "sk_lock st = Teardown \<Longrightarrow> seek_step st (teardown_done st)"

text \<open>The same steps when no request numbers its intent while another is between its number and its
  merge, as on a runtime with one thread: there is no suspension point in between.\<close>

definition numbering :: "SeekState \<Rightarrow> bool" where
  "numbering st \<longleftrightarrow> (\<exists>r p. sk_requests st r = Seek_Numbered p)"

definition ordered_step :: "SeekState \<Rightarrow> SeekState \<Rightarrow> bool" where
  "ordered_step st st' \<longleftrightarrow> seek_step st st' \<and> (numbering st \<longrightarrow> sk_gen st' = sk_gen st)"

inductive_cases seek_stepE: "seek_step st st'"

text \<open>Nothing of any seek is under way, but requests may wait.\<close>

definition seek_quiet :: "SeekState \<Rightarrow> bool" where
  "seek_quiet st \<longleftrightarrow>
     (\<forall>r. \<not> (\<exists>p. sk_requests st r = Seek_Numbered p) \<and> \<not> (\<exists>g. sk_requests st r = Seek_Merged g))
   \<and> (\<forall>e. sk_executors st e \<in> {Not_Spawned, Seek_Ended})"

fun in_hand :: "seek_executor \<Rightarrow> PendingSeek option" where
  "in_hand (Seek_Taken todo) = Some todo"
| "in_hand (Restarting todo) = Some todo"
| "in_hand (Restarted todo _) = Some todo"
| "in_hand _ = None"

fun holds_lock :: "seek_executor \<Rightarrow> bool" where
  "holds_lock Not_Spawned = False"
| "holds_lock Spawned = False"
| "holds_lock Seek_Ended = False"
| "holds_lock _ = True"

fun unspawned :: "seek_request \<Rightarrow> bool" where
  "unspawned Fresh = True"
| "unspawned (Seek_Numbered _) = True"
| "unspawned (Seek_Merged _) = True"
| "unspawned _ = False"

section \<open>The lock\<close>

lemmas seek_ops = seek_number_def seek_merge_def seek_spawn_def seek_observe_def seek_timeout_def
  seek_acquire_def seek_take_def poll_first_def poll_again_def seek_publish_def session_end_def
  teardown_lock_def teardown_done_def set_request_def set_executor_def

text \<open>An executor exists from the spawn on.\<close>

definition spawn_ok :: "SeekState \<Rightarrow> bool" where
  "spawn_ok st \<longleftrightarrow> (\<forall>r. unspawned (sk_requests st r) \<longrightarrow> sk_executors st r = Not_Spawned)"

lemma spawn_set_executor:
  "spawn_ok st \<Longrightarrow> sk_requests st' = sk_requests st \<Longrightarrow> sk_executors st' = (sk_executors st)(e := x)
    \<Longrightarrow> sk_executors st e \<noteq> Not_Spawned \<Longrightarrow> spawn_ok st'"
  by (auto simp: spawn_ok_def)

lemma spawn_frame:
  "spawn_ok st \<Longrightarrow> sk_requests st' = sk_requests st \<Longrightarrow> sk_executors st' = sk_executors st \<Longrightarrow> spawn_ok st'"
  by (simp add: spawn_ok_def)

definition lock_ok :: "SeekState \<Rightarrow> bool" where
  "lock_ok st \<longleftrightarrow> (\<forall>e. holds_lock (sk_executors st e) \<longleftrightarrow> sk_lock st = Executor e)"

lemma lock_at: "lock_ok st \<Longrightarrow> holds_lock (sk_executors st e) \<longleftrightarrow> sk_lock st = Executor e"
  by (simp add: lock_ok_def)

text \<open>An executor that keeps its hold, gives it up, or takes the free lock.\<close>

lemma lock_keep:
  assumes "lock_ok st" "holds_lock x = holds_lock (sk_executors st e)"
    and "sk_executors st' = (sk_executors st)(e := x)" "sk_lock st' = sk_lock st"
  shows "lock_ok st'"
  using assms by (simp add: lock_ok_def)

lemma lock_give:
  assumes "lock_ok st" "holds_lock (sk_executors st e)" "\<not> holds_lock x"
    and "sk_executors st' = (sk_executors st)(e := x)" "sk_lock st' = Nobody"
  shows "lock_ok st'"
proof -
  have "sk_lock st = Executor e" using assms(1,2) by (simp add: lock_at)
  then show ?thesis using assms by (simp add: lock_ok_def)
qed

lemma lock_get:
  assumes "lock_ok st" "sk_lock st = Nobody" "holds_lock x"
    and "sk_executors st' = (sk_executors st)(e := x)" "sk_lock st' = Executor e"
  shows "lock_ok st'"
  using assms by (auto simp: lock_ok_def)

lemma lock_frame:
  assumes "lock_ok st" "sk_executors st' = sk_executors st"
    and "sk_lock st' = sk_lock st \<or> sk_lock st \<in> {Nobody, Teardown} \<and> sk_lock st' \<in> {Nobody, Teardown}"
  shows "lock_ok st'"
  using assms(3)
proof (elim disjE conjE)
  assume "sk_lock st \<in> {Nobody, Teardown}" "sk_lock st' \<in> {Nobody, Teardown}"
  then have "sk_lock st \<noteq> Executor e" "sk_lock st' \<noteq> Executor e" for e by auto
  then show ?thesis using assms(1,2) by (simp add: lock_ok_def)
qed (use assms(1,2) in \<open>simp add: lock_ok_def\<close>)

definition turns_ok :: "SeekState \<Rightarrow> bool" where
  "turns_ok st \<longleftrightarrow> spawn_ok st \<and> lock_ok st"

lemma turns_init: "turns_ok seek_new"
  by (simp add: turns_ok_def spawn_ok_def lock_ok_def seek_new_def)

lemma spawn_step:
  assumes "spawn_ok st" "seek_step st st'"
  shows "spawn_ok st'"
  using assms(2)
proof (cases rule: seek_step.cases)
  case (Spawn r g)
  then show ?thesis using assms(1) by (simp add: spawn_ok_def seek_ops)
next
  case (Take e)
  then show ?thesis
    by (cases "sk_pending st"; intro spawn_set_executor [OF assms(1), of _ e]) (simp_all add: seek_ops)
next
  case (Acquire e)
  then show ?thesis by (intro spawn_set_executor [OF assms(1), of _ e]) (simp_all add: seek_ops)
next
  case (Poll_First e todo)
  then show ?thesis
    by (cases "sk_ended st"; intro spawn_set_executor [OF assms(1), of _ e]) (simp_all add: seek_ops)
next
  case (Poll_Again e todo outcome)
  then show ?thesis by (intro spawn_set_executor [OF assms(1), of _ e]) (simp_all add: seek_ops)
next
  case (Publish e todo outcome)
  then show ?thesis by (intro spawn_set_executor [OF assms(1), of _ e]) (simp_all add: seek_ops)
next
  case (Number r intent)
  then show ?thesis using assms(1) by (auto simp: spawn_ok_def seek_ops)
next
  case (Merge r p)
  then show ?thesis using assms(1) by (auto simp: spawn_ok_def seek_ops)
next
  case (Observe r g)
  then show ?thesis using assms(1) by (auto simp: spawn_ok_def seek_ops)
next
  case (Timeout r g)
  then show ?thesis using assms(1) by (auto simp: spawn_ok_def seek_ops)
next
  case (Disconnect r g)
  then show ?thesis using assms(1) by (auto simp: spawn_ok_def seek_ops)
qed (use assms(1) in \<open>simp_all add: spawn_ok_def seek_ops\<close>)

lemma lock_step:
  assumes "lock_ok st" "spawn_ok st" "seek_step st st'"
  shows "lock_ok st'"
  using assms(3)
proof (cases rule: seek_step.cases)
  case (Spawn r g)
  then have "sk_executors st r = Not_Spawned" using assms(2) by (simp add: spawn_ok_def)
  then show ?thesis by (intro lock_keep [OF assms(1), of Spawned r]) (use Spawn in \<open>simp_all add: seek_ops\<close>)
next
  case (Acquire e)
  show ?thesis by (rule lock_get [OF assms(1), of Holding _ e]) (use Acquire in \<open>simp_all add: seek_ops\<close>)
next
  case (Take e)
  show ?thesis
  proof (cases "sk_pending st")
    case None
    show ?thesis
      by (rule lock_give [OF assms(1), of e Seek_Ended]) (use Take None in \<open>simp_all add: seek_ops\<close>)
  next
    case (Some todo)
    show ?thesis
      by (rule lock_keep [OF assms(1), of "Seek_Taken todo" e]) (use Take Some in \<open>simp_all add: seek_ops\<close>)
  qed
next
  case (Poll_First e todo)
  show ?thesis
    by (rule lock_keep [OF assms(1), of "if sk_ended st then Restarted todo session_ended_error else Restarting todo" e])
      (use Poll_First in \<open>simp_all add: seek_ops\<close>)
next
  case (Poll_Again e todo outcome)
  show ?thesis
    by (rule lock_keep [OF assms(1), of "Restarted todo (if sk_ended st then session_ended_error else outcome)" e])
      (use Poll_Again in \<open>simp_all add: seek_ops\<close>)
next
  case (Publish e todo outcome)
  show ?thesis
    by (rule lock_give [OF assms(1), of e Seek_Ended]) (use Publish in \<open>simp_all add: seek_ops\<close>)
qed (rule lock_frame [OF assms(1)], simp_all add: seek_ops)+

interpretation seek_turns: guarded_system "\<lambda>st. st = seek_new" seek_step turns_ok
  proof
  fix st show "st = seek_new \<Longrightarrow> turns_ok st" using turns_init by simp
next
  fix st st' show "turns_ok st \<Longrightarrow> seek_step st st' \<Longrightarrow> turns_ok st'"
    unfolding turns_ok_def by (blast intro: spawn_step lock_step)
qed


lemma one_in_hand:
  assumes "turns_ok st" "in_hand (sk_executors st e) = Some t" "in_hand (sk_executors st e') = Some t'"
  shows "e = e'"
proof -
  have "in_hand x = Some y \<Longrightarrow> holds_lock x" for x y by (cases x) auto
  then have "holds_lock (sk_executors st e)" "holds_lock (sk_executors st e')" using assms(2,3) by blast+
  then show ?thesis using assms(1) by (auto simp: turns_ok_def lock_at)
qed

section \<open>Seeks in order\<close>

text \<open>An intent is covered by an outcome, by a restart in hand or by the pending intent, whose number is
  not below its own.\<close>

definition covered_by :: "SeekState \<Rightarrow> nat \<Rightarrow> bool" where
  "covered_by st g \<longleftrightarrow> g \<le> fst (sk_done st)
     \<or> (\<exists>e t. in_hand (sk_executors st e) = Some t \<and> g \<le> ps_generation t)
     \<or> (\<exists>p. sk_pending st = Some p \<and> g \<le> ps_generation p)"

definition numbers_ok :: "SeekState \<Rightarrow> bool" where
  "numbers_ok st \<longleftrightarrow>
     (\<forall>r p. sk_requests st r = Seek_Numbered p \<longrightarrow> ps_generation p = sk_gen st)
   \<and> (\<forall>r r' p p'. sk_requests st r = Seek_Numbered p \<and> sk_requests st r' = Seek_Numbered p' \<longrightarrow> r = r')
   \<and> (\<forall>p. sk_pending st = Some p \<longrightarrow> fst (sk_done st) \<le> ps_generation p \<and> ps_generation p \<le> sk_gen st)
   \<and> (\<forall>e t. in_hand (sk_executors st e) = Some t \<longrightarrow> fst (sk_done st) \<le> ps_generation t \<and> ps_generation t \<le> sk_gen st
        \<and> (\<forall>p. sk_pending st = Some p \<longrightarrow> ps_generation t \<le> ps_generation p))
   \<and> fst (sk_done st) \<le> sk_gen st"

definition covers_ok :: "SeekState \<Rightarrow> bool" where
  "covers_ok st \<longleftrightarrow>
     (\<forall>r g. sk_requests st r \<in> {Seek_Merged g, Seek_Waiting g} \<longrightarrow> g \<le> sk_gen st \<and> covered_by st g)
   \<and> (sk_pending st \<noteq> None \<longrightarrow>
        (\<exists>e. sk_executors st e \<in> {Spawned, Holding}) \<or> (\<exists>r g. sk_requests st r = Seek_Merged g))"

lemma numbers_frame:
  assumes "numbers_ok st" "sk_gen st' = sk_gen st" "sk_pending st' = sk_pending st" "sk_done st' = sk_done st"
    and "\<And>r p. sk_requests st' r = Seek_Numbered p \<Longrightarrow> sk_requests st r = Seek_Numbered p"
    and "\<And>e. in_hand (sk_executors st' e) = in_hand (sk_executors st e)"
  shows "numbers_ok st'"
  using assms(1) unfolding numbers_ok_def assms(2,3,4,6) by (meson assms(5))

lemma numbers_step:
  assumes "turns_ok st" "numbers_ok st" "ordered_step st st'"
  shows "numbers_ok st'"
proof -
  have step: "seek_step st st'" and ord: "numbering st \<Longrightarrow> sk_gen st' = sk_gen st"
    using assms(3) by (simp_all add: ordered_step_def)
  note N = assms(2) [unfolded numbers_ok_def]
  from step show ?thesis
  proof (cases rule: seek_step.cases)
    case (Number r intent)
    then have "\<not> numbering st" using ord by (auto simp: seek_ops)
    then have no: "sk_requests st r \<noteq> Seek_Numbered p" for r p by (auto simp: numbering_def)
    then show ?thesis using Number N unfolding numbers_ok_def seek_ops by (auto intro: le_SucI split: if_splits)
  next
    case (Take e)
    show ?thesis
    proof (cases "sk_pending st")
      case None
      then show ?thesis using Take N unfolding numbers_ok_def seek_ops by (auto split: if_splits)
    next
      case (Some todo)
      then show ?thesis using Take N unfolding numbers_ok_def seek_ops by (auto split: if_splits)
    qed
  next
    case (Publish e todo outcome)
    have me: "in_hand (sk_executors st e) = Some todo" using Publish by simp
    then have "in_hand (sk_executors st e') = Some t \<Longrightarrow> e' = e" for e' t
      using one_in_hand [OF assms(1)] by blast
    moreover have "ps_generation todo \<le> sk_gen st" "sk_pending st = Some p \<Longrightarrow> ps_generation todo \<le> ps_generation p" for p
      using N me by blast+
    ultimately show ?thesis using Publish N unfolding numbers_ok_def seek_ops by (auto split: if_splits)
  next
    case (Merge r p)
    then show ?thesis using N unfolding numbers_ok_def seek_ops merge_def by (auto split: if_splits option.splits)
  next
    case (Spawn r g)
    then have "sk_executors st r = Not_Spawned" using assms(1) by (simp add: turns_ok_def spawn_ok_def)
    then show ?thesis
      by (intro numbers_frame [OF assms(2)]) (use Spawn in \<open>simp_all add: seek_ops split: if_splits\<close>)
  qed (rule numbers_frame [OF assms(2)]; auto simp: seek_ops split: if_splits)+
qed


lemma coveredI:
  "g \<le> fst (sk_done st) \<Longrightarrow> covered_by st g"
  "in_hand (sk_executors st e) = Some t \<Longrightarrow> g \<le> ps_generation t \<Longrightarrow> covered_by st g"
  "sk_pending st = Some p \<Longrightarrow> g \<le> ps_generation p \<Longrightarrow> covered_by st g"
  by (auto simp: covered_by_def)

lemma covered_frame:
  assumes "covered_by st g" "sk_done st' = sk_done st" "sk_pending st' = sk_pending st"
    and "\<And>e. in_hand (sk_executors st' e) = in_hand (sk_executors st e)"
  shows "covered_by st' g"
  using assms by (simp add: covered_by_def)

text \<open>A step keeps what it covered.\<close>

lemma covered_step:
  assumes "turns_ok st" "numbers_ok st" "seek_step st st'" "covered_by st g"
  shows "covered_by st' g"
  using assms(3)
proof (cases rule: seek_step.cases)
  case (Merge r p)
  have "sk_pending st = Some q \<Longrightarrow> ps_generation q \<le> ps_generation p" for q
    using Merge(2) assms(2) by (simp add: numbers_ok_def)
  with assms(4) Merge show ?thesis
    unfolding covered_by_def seek_ops by (auto simp: merge_def split: option.splits)
next
  case (Take e)
  have other: "in_hand (sk_executors st e') = Some t \<Longrightarrow> in_hand (sk_executors st' e') = Some t" for e' t
    using Take by (cases "e' = e"; cases "sk_pending st") (auto simp: seek_ops)
  from assms(4) consider "g \<le> fst (sk_done st)"
    | e' t where "in_hand (sk_executors st e') = Some t" "g \<le> ps_generation t"
    | p where "sk_pending st = Some p" "g \<le> ps_generation p"
    unfolding covered_by_def by blast
  then show ?thesis
  proof cases
    case 1
    then show ?thesis using Take by (cases "sk_pending st") (auto simp: covered_by_def seek_ops)
  next
    case 2
    then show ?thesis using other coveredI(2) by blast
  next
    case 3
    then have "in_hand (sk_executors st' e) = Some p" using Take by (simp add: seek_ops)
    then show ?thesis using 3(2) by (rule coveredI(2))
  qed
next
  case (Publish e todo outcome)
  have me: "in_hand (sk_executors st e) = Some todo" using Publish by simp
  then have "in_hand (sk_executors st e') = Some t \<Longrightarrow> e' = e" for e' t
    using one_in_hand [OF assms(1)] by blast
  moreover have "fst (sk_done st) \<le> ps_generation todo" using assms(2) me by (simp add: numbers_ok_def)
  ultimately show ?thesis using assms(4) Publish me unfolding covered_by_def seek_ops by fastforce
next
  case (Spawn r h)
  then have "sk_executors st r = Not_Spawned" using assms(1) by (simp add: turns_ok_def spawn_ok_def)
  with Spawn show ?thesis by (intro covered_frame [OF assms(4)]) (simp_all add: seek_ops)
qed (rule covered_frame [OF assms(4)]; auto simp: seek_ops)+

lemma ready_frame:
  assumes "covers_ok st" "sk_pending st \<noteq> None"
    and "\<And>e. sk_executors st e \<in> {Spawned, Holding} \<Longrightarrow> sk_executors st' e = sk_executors st e"
    and "\<And>r g. sk_requests st r = Seek_Merged g \<Longrightarrow> sk_requests st' r = Seek_Merged g"
  shows "(\<exists>e. sk_executors st' e \<in> {Spawned, Holding}) \<or> (\<exists>r g. sk_requests st' r = Seek_Merged g)"
proof -
  from assms(1,2) consider e where "sk_executors st e \<in> {Spawned, Holding}" | r g where "sk_requests st r = Seek_Merged g"
    unfolding covers_ok_def by blast
  then show ?thesis
  proof cases
    case 1
    then have "sk_executors st' e \<in> {Spawned, Holding}" using assms(3) [OF 1] by simp
    then show ?thesis by (intro disjI1 exI)
  next
    case 2
    then show ?thesis using assms(4) by blast
  qed
qed

lemma covers_step:
  assumes "turns_ok st" "numbers_ok st" "covers_ok st" "ordered_step st st'"
  shows "covers_ok st'"
proof -
  have step: "seek_step st st'" using assms(4) by (simp add: ordered_step_def)
  note keep = covered_step [OF assms(1,2) step]
  have mono: "sk_gen st \<le> sk_gen st'"
    using step by (cases rule: seek_step.cases) (auto simp: seek_ops split: option.splits)
  have old: "g \<le> sk_gen st' \<and> covered_by st' g" if "sk_requests st r \<in> {Seek_Merged g, Seek_Waiting g}" for r g
    using assms(3) keep mono that unfolding covers_ok_def by (meson le_trans)
  have requests: "g \<le> sk_gen st' \<and> covered_by st' g" if new: "sk_requests st' r \<in> {Seek_Merged g, Seek_Waiting g}" for r g
    using step
  proof (cases rule: seek_step.cases)
    case (Merge q p)
    show ?thesis
    proof (cases "r = q")
      case True
      then have g: "g = ps_generation p" using Merge new by (auto simp: seek_ops)
      have "ps_generation p = sk_gen st" using assms(2) Merge by (simp add: numbers_ok_def)
      moreover have "sk_pending st' = Some (merge (sk_pending st) p)" using Merge by (simp add: seek_ops)
      ultimately show ?thesis
        using g mono coveredI(3) by (auto simp: merge_def split: option.splits)
    qed (use Merge new old in \<open>simp add: seek_ops\<close>)
  next
    case (Spawn q h)
    show ?thesis
    proof (cases "r = q")
      case True
      then show ?thesis using Spawn new old [of q g] by (auto simp: seek_ops)
    qed (use Spawn new old in \<open>simp add: seek_ops\<close>)
  next
    case (Take e)
    then show ?thesis using new old by (auto simp: seek_ops split: option.splits)
  qed (use new old in \<open>auto simp: seek_ops split: if_splits\<close>)
  have "(\<exists>e. sk_executors st' e \<in> {Spawned, Holding}) \<or> (\<exists>r g. sk_requests st' r = Seek_Merged g)"
    if "sk_pending st' \<noteq> None"
    using step
  proof (cases rule: seek_step.cases)
    case (Merge q p)
    then have "sk_requests st' q = Seek_Merged (ps_generation p)" by (simp add: seek_ops)
    then show ?thesis by blast
  next
    case (Spawn q h)
    then have "sk_executors st' q = Spawned" by (simp add: seek_ops)
    then show ?thesis by blast
  next
    case (Acquire e)
    then have "sk_executors st' e = Holding" by (simp add: seek_ops)
    then show ?thesis by blast
  next
    case (Take e)
    then show ?thesis using that by (simp add: seek_ops split: option.splits)
  qed (rule ready_frame [OF assms(3)]; use that in \<open>auto simp: seek_ops split: if_splits\<close>)+
  with requests show ?thesis by (auto simp: covers_ok_def)
qed

definition seeks_ok :: "SeekState \<Rightarrow> bool" where
  "seeks_ok st \<longleftrightarrow> turns_ok st \<and> numbers_ok st \<and> covers_ok st"

lemma seeks_init: "seeks_ok seek_new"
  using turns_init by (simp add: seeks_ok_def numbers_ok_def covers_ok_def seek_new_def)

lemma seeks_step: "seeks_ok st \<Longrightarrow> ordered_step st st' \<Longrightarrow> seeks_ok st'"
  unfolding seeks_ok_def
  by (intro conjI; elim conjE)
    (erule seek_turns.step_inv, simp add: ordered_step_def, erule (2) numbers_step, erule (3) covers_step)

interpretation seeks: guarded_system "\<lambda>st. st = seek_new" ordered_step seeks_ok
proof
  fix st show "st = seek_new \<Longrightarrow> seeks_ok st" using seeks_init by simp
next
  fix st st' show "seeks_ok st \<Longrightarrow> ordered_step st st' \<Longrightarrow> seeks_ok st'" by (rule seeks_step)
qed

section \<open>Sample runs\<close>

definition sample_intent :: "nat \<Rightarrow> PendingSeek" where
  "sample_intent ms =
     \<lparr>ps_generation = 0, ps_position_ms = ms, ps_audio_track = None, ps_video_track = None,
      ps_replan_subs = False\<rparr>"

definition numbered :: "nat \<Rightarrow> nat \<Rightarrow> PendingSeek" where
  "numbered g ms = (sample_intent ms)\<lparr>ps_generation := g\<rparr>"

text \<open>One seek, up to its restart; and its rest.\<close>

definition one_seek :: SeekState where
  "one_seek = poll_first 0 (numbered 1 10) (seek_take 0 (seek_acquire 0 (seek_spawn 0 1
     (seek_merge 0 (numbered 1 10) (seek_number 0 (sample_intent 10) seek_new)))))"

definition one_seek_done :: SeekState where
  "one_seek_done = seek_publish 0 (numbered 1 10) (Inr 0) (poll_again 0 (numbered 1 10) (Inr 0) one_seek)"

text \<open>Two seeks, the first numbered first and merged last.\<close>

definition race_merged :: SeekState where
  "race_merged = seek_spawn 1 2 (seek_spawn 0 1 (seek_merge 0 (numbered 1 10) (seek_merge 1 (numbered 2 20)
     (seek_number 1 (sample_intent 20) (seek_number 0 (sample_intent 10) seek_new)))))"

definition race_done :: SeekState where
  "race_done = seek_take 1 (seek_acquire 1 (seek_publish 0 (numbered 1 10) (Inr 0)
     (poll_again 0 (numbered 1 10) (Inr 0) (poll_first 0 (numbered 1 10) (seek_take 0 (seek_acquire 0 race_merged))))))"

lemmas sample_defs = numbered_def sample_intent_def seek_new_def merge_def

lemma ordered_stepI: "seek_step st st' \<Longrightarrow> \<not> numbering st \<or> sk_gen st' = sk_gen st \<Longrightarrow> ordered_step st st'"
  by (auto simp: ordered_step_def)

lemma one_seek_reachable: "reachable (\<lambda>st. st = seek_new) ordered_step one_seek"
  unfolding one_seek_def
  by ((rule reach_step [rotated], (rule ordered_stepI, (rule seek_step.intros; simp add: seek_ops sample_defs),
          simp add: numbering_def seek_ops sample_defs))+)
    (simp add: reach_init)

lemma ordered_reachable:
  "reachable init ordered_step st \<Longrightarrow> reachable init seek_step st"
  by (induction rule: reachable.induct) (auto simp: ordered_step_def intro: reach_init reach_step)

lemma one_seek_done_reachable: "reachable (\<lambda>st. st = seek_new) ordered_step one_seek_done"
  unfolding one_seek_done_def
  by ((rule reach_step [rotated], (rule ordered_stepI, (rule seek_step.intros; simp add: one_seek_def seek_ops sample_defs),
          simp add: seek_ops))+)
    (rule one_seek_reachable)

lemma race_reachable: "reachable (\<lambda>st. st = seek_new) seek_step race_done"
  unfolding race_done_def race_merged_def
  by ((rule reach_step [rotated], (rule seek_step.intros; simp add: seek_ops sample_defs))+)
    (simp add: reach_init)

section \<open>Properties\<close>

text \<open>C33. Whatever the interleaving, no two restarts of a session are in hand at once, none is while the
  teardown holds the lock, and once the session has ended no step polls a restart that had not begun: the
  scratch directory of a run has one owner, and a queued seek does not start a pipeline for a session that
  is gone.\<close>

theorem restarts_exclusive:
  assumes "reachable (\<lambda>st. st = seek_new) seek_step st"
  shows "(in_hand (sk_executors st e) \<noteq> None \<and> in_hand (sk_executors st e') \<noteq> None \<longrightarrow> e = e')
       \<and> (sk_lock st = Teardown \<longrightarrow> in_hand (sk_executors st e) = None)
       \<and> (sk_ended st \<longrightarrow> seek_step st st' \<longrightarrow> sk_ended st' \<and> sk_polled st' = sk_polled st)"
proof (intro conjI impI)
  have ok: "turns_ok st" using assms by (rule seek_turns.reachable_inv)
  show "e = e'" if "in_hand (sk_executors st e) \<noteq> None \<and> in_hand (sk_executors st e') \<noteq> None"
    using that one_in_hand [OF ok] by blast
  show "in_hand (sk_executors st e) = None" if "sk_lock st = Teardown"
  proof -
    have "\<not> holds_lock (sk_executors st e)" using ok that by (simp add: turns_ok_def lock_at)
    then show ?thesis by (cases "sk_executors st e") auto
  qed
next
  assume "sk_ended st" "seek_step st st'"
  from this(2,1) show "sk_ended st'" "sk_polled st' = sk_polled st"
    by (cases rule: seek_step.cases; auto simp: seek_ops split: option.splits)+
qed

text \<open>Witness of C33: the session ends while a restart is in hand.\<close>

theorem restarts_exclusive_witness:
  "in_hand (sk_executors one_seek 0) \<noteq> None \<and> sk_polled (session_end one_seek) = [numbered 1 10]
   \<and> sk_polled (poll_again 0 (numbered 1 10) (Inr 0) (session_end one_seek)) = [numbered 1 10]"
proof -
  have r: "reachable (\<lambda>st. st = seek_new) seek_step (session_end one_seek)"
    using reach_step [OF ordered_reachable [OF one_seek_reachable] seek_step.End] .
  have h: "in_hand (sk_executors one_seek 0) \<noteq> None" "sk_polled (session_end one_seek) = [numbered 1 10]"
    by (simp_all add: one_seek_def seek_ops sample_defs)
  have "sk_ended (session_end one_seek)" by (simp add: session_end_def)
  moreover have "seek_step (session_end one_seek) (poll_again 0 (numbered 1 10) (Inr 0) (session_end one_seek))"
    by (rule seek_step.Poll_Again) (simp add: one_seek_def seek_ops sample_defs)
  ultimately show ?thesis using restarts_exclusive [OF r] h by simp
qed

text \<open>C34. Every seek is answered, when intents are merged in the order of their numbers. In a state that has
  an executor left, some executor or the teardown can go on; and once none is left, the last outcome is
  that of a restart no older than any request still waiting, which so returns at its next look.\<close>

theorem seeks_settle:
  assumes "reachable (\<lambda>st. st = seek_new) ordered_step st"
  shows "(sk_executors st e \<notin> {Not_Spawned, Seek_Ended} \<longrightarrow>
            (\<exists>st'. seek_step st st' \<and> (sk_executors st' \<noteq> sk_executors st \<or> sk_lock st = Teardown)))
       \<and> (seek_quiet st \<longrightarrow> sk_requests st r = Seek_Waiting g \<longrightarrow>
            sk_pending st = None \<and> g \<le> fst (sk_done st) \<and> seek_step st (seek_observe r st))"
proof (intro conjI impI)
  have ok: "turns_ok st" "covers_ok st" using seeks.reachable_inv [OF assms] by (simp_all add: seeks_ok_def)
  have go: "\<exists>st'. seek_step st st' \<and> (sk_executors st' \<noteq> sk_executors st \<or> sk_lock st = Teardown)"
    if "holds_lock (sk_executors st h)" for h
  proof (cases "sk_executors st h")
    case Holding
    have "sk_executors (seek_take h st) h \<noteq> Holding" by (auto simp: seek_ops split: option.splits)
    then show ?thesis using seek_step.Take [OF Holding] Holding by metis
  next
    case (Seek_Taken todo)
    have "sk_executors (poll_first h todo st) h \<noteq> Seek_Taken todo" by (auto simp: seek_ops)
    then show ?thesis using seek_step.Poll_First [OF Seek_Taken] Seek_Taken by metis
  next
    case (Restarting todo)
    have "sk_executors (poll_again h todo (Inr 0) st) h \<noteq> Restarting todo" by (auto simp: seek_ops)
    then show ?thesis using seek_step.Poll_Again [OF Restarting] Restarting by metis
  next
    case (Restarted todo outcome)
    have "sk_executors (seek_publish h todo outcome st) h \<noteq> Restarted todo outcome" by (auto simp: seek_ops)
    then show ?thesis using seek_step.Publish [OF Restarted] Restarted by metis
  qed (use that in simp_all)
  show "\<exists>st'. seek_step st st' \<and> (sk_executors st' \<noteq> sk_executors st \<or> sk_lock st = Teardown)"
    if "sk_executors st e \<notin> {Not_Spawned, Seek_Ended}"
  proof (cases "sk_lock st")
    case Nobody
    then have "\<not> holds_lock (sk_executors st e)" using ok by (simp add: turns_ok_def lock_at)
    then have "sk_executors st e = Spawned" using that by (cases "sk_executors st e") auto
    then show ?thesis using seek_step.Acquire [OF _ Nobody, of e] by (auto simp: seek_ops fun_eq_iff intro!: exI [of _ e])
  next
    case (Executor h)
    then have "holds_lock (sk_executors st h)" using ok by (simp add: turns_ok_def lock_at)
    then show ?thesis by (rule go)
  next
    case Teardown
    then show ?thesis using seek_step.Teardown_Done by blast
  qed
next
  have ok: "covers_ok st" using seeks.reachable_inv [OF assms] by (simp add: seeks_ok_def)
  assume quiet: "seek_quiet st" and r: "sk_requests st r = Seek_Waiting g"
  have none: "in_hand (sk_executors st e) = None" "sk_executors st e \<notin> {Spawned, Holding}" for e
    using quiet by (auto simp: seek_quiet_def dest: spec [of _ e])
  have "\<not> (\<exists>r g. sk_requests st r = Seek_Merged g)" using quiet by (simp add: seek_quiet_def)
  with ok none(2) show p: "sk_pending st = None" unfolding covers_ok_def by blast
  have "covered_by st g" using ok r by (auto simp: covers_ok_def)
  then show d: "g \<le> fst (sk_done st)" using none(1) p by (simp add: covered_by_def)
  show "seek_step st (seek_observe r st)" using r d by (rule seek_step.Observe)
qed

text \<open>Witness of C34: one seek, restarted and published.\<close>

theorem seeks_settle_witness:
  "sk_requests one_seek_done 0 = Seek_Waiting 1 \<and> 1 \<le> fst (sk_done one_seek_done)
   \<and> seek_step one_seek_done (seek_observe 0 one_seek_done)"
proof -
  have w: "sk_requests one_seek_done 0 = Seek_Waiting 1"
    by (simp add: one_seek_done_def one_seek_def seek_ops sample_defs)
  have "seek_quiet one_seek_done"
    by (simp add: seek_quiet_def one_seek_done_def one_seek_def seek_ops sample_defs)
  then show ?thesis using seeks_settle [OF one_seek_done_reachable] w by blast
qed

text \<open>The hypothesis on the order is needed, and the code does not give it: the number is taken before the
  lock of the pending intent. When the first of two concurrent seeks is merged last, the merged intent
  carries the older number and the older position. It is restarted at that position, published under that
  number, and the newer request waits with no restart left to come, until its 60 seconds are over.\<close>

theorem seek_race_strands:
  "\<exists>st. reachable (\<lambda>st. st = seek_new) seek_step st \<and> seek_quiet st \<and> sk_pending st = None
     \<and> sk_requests st 1 = Seek_Waiting 2 \<and> fst (sk_done st) = 1
     \<and> map ps_position_ms (sk_polled st) = [10]"
proof (intro exI conjI)
  show "reachable (\<lambda>st. st = seek_new) seek_step race_done" by (rule race_reachable)
  show "seek_quiet race_done"
    by (simp add: seek_quiet_def race_done_def race_merged_def seek_ops sample_defs)
qed (simp_all add: race_done_def race_merged_def seek_ops sample_defs)

end
