(* ===== verification/Seek_Replan.thy ===== *)
theory Seek_Replan
  imports Session_Plan_Props
begin

text \<open>
  What a seek changes in a running session, \<open>crates/kahawai-hub/src/sessions/seek.rs\<close>: a subtitle pick may
  change what is burned into the picture, and a switch of tracks or of the burn plans the session again,
  against the executor it already has. The two halves run before and inside the restart that
  \<open>Seek_Handler\<close> schedules. Looking up a track, its script and its display sets are parameters, as are the
  surroundings of \<open>Session_Plan\<close>.
\<close>

section \<open>Definitions\<close>

datatype SessionMode = Mode_Direct | Mode_Remux | Mode_Transcode string

text \<open>The fields of \<open>Session\<close> that a seek reads or writes.\<close>

record LiveSession =
  ls_mode :: SessionMode
  ls_profile :: CapabilityProfile
  ls_info :: MediaInfo
  ls_parts :: "PartSource list"
  ls_plan :: "RemuxPlan option"
  ls_needs :: PlacementNeed
  ls_verdict :: "(string \<times> string) option"
  ls_sub_verdicts :: "SubtitleVerdict list"
  ls_burn_pick :: "BurnPick option"
  ls_burn_sets :: "string option"
  ls_burn_ass_text :: "string option"
  ls_ass :: AssPolicy
  ls_ocr_set :: "(string \<times> string \<times> string \<times> string \<times> nat) list"
  ls_loudness :: LoudnessPreference
  ls_force_loudness :: bool

datatype seek_error =
    NoSuchTrack int
  | NoParts
  | NotInPlayingSource int
  | NoAssScript int
  | NoExtraction string
  | NoDisplaySets int
  | NoPipeline
  | LoudnessUnavailable string
  | NeedsBitDepthExecutor
  | TrackNotPlayable

record subtitle_access =
  sa_track :: "int \<Rightarrow> Track option"
  sa_ass_for_burn :: "Track \<Rightarrow> string option"
  sa_image_sets :: "Track \<Rightarrow> string + string option"

subsection \<open>The subtitle pick\<close>

definition burnable :: "Track \<Rightarrow> bool" where
  "burnable t = (is_image_format (tk_format t) \<or> is_ass_format (tk_format t))"

definition seek_new_pick :: "Track \<Rightarrow> PartSource \<Rightarrow> BurnPick option" where
  "seek_new_pick t part =
     (if burnable t
         \<and> tk_module_id t = Some (pt_module_id part) \<and> tk_collection_id t = Some (pt_collection_id part)
         \<and> tk_root_token t = Some (pt_root_token part) \<and> tk_source_path t = Some (pt_path_rel part)
      then (let i = unwrap_or (tk_stream_index t) 0 in
            if tk_origin t = ''embedded'' then Some (Embedded i)
            else if tk_origin t \<in> {''sidecar'', ''downloaded''} then Some (Sidecar i)
            else None)
      else None)"

definition already_burning :: "LiveSession \<Rightarrow> BurnPick option \<Rightarrow> bool" where
  "already_burning s pick =
     (case pick of
        Some (Embedded i) \<Rightarrow> is_some_and (ls_plan s) (\<lambda>p. pl_burn_subtitle p = Some i \<or> pl_burn_ass p = Some i)
      | _ \<Rightarrow> False)"

text \<open>A new pick, in the order of the code: the script is assigned before the display sets are asked
  for. The session comes back with the answer, also when that is an error.\<close>

definition replace_pick ::
    "subtitle_access \<Rightarrow> int \<Rightarrow> Track \<Rightarrow> BurnPick option \<Rightarrow> LiveSession \<Rightarrow> (seek_error + bool) \<times> LiveSession" where
  "replace_pick sa tid t pick s =
     (let is_ass = is_ass_format (tk_format t);
          script = (case pick of
             Some (Sidecar _) \<Rightarrow> if is_ass then sa_ass_for_burn sa t else None
           | _ \<Rightarrow> None);
          wants_script = (case pick of Some (Sidecar _) \<Rightarrow> is_ass | _ \<Rightarrow> False)
      in if wants_script \<and> script = None then (Inl (NoAssScript tid), s)
         else (let s1 = s\<lparr>ls_burn_ass_text := script\<rparr> in
           if pick = None \<or> is_ass then (Inr True, s1\<lparr>ls_burn_sets := None, ls_burn_pick := pick\<rparr>)
           else (case sa_image_sets sa t of
                   Inl e \<Rightarrow> (Inl (NoExtraction e), s1)
                 | Inr None \<Rightarrow> (Inl (NoDisplaySets tid), s1)
                 | Inr (Some sets) \<Rightarrow> (Inr True, s1\<lparr>ls_burn_sets := Some sets, ls_burn_pick := pick\<rparr>))))"

definition seek_subtitle ::
    "subtitle_access \<Rightarrow> int option \<Rightarrow> LiveSession \<Rightarrow> (seek_error + bool) \<times> LiveSession" where
  "seek_subtitle sa subtitle_track s =
     (case subtitle_track of
        None \<Rightarrow> (Inr False, s)
      | Some tid \<Rightarrow>
          if tid = 0 then
            (if ls_burn_pick s \<noteq> None
             then (Inr True, s\<lparr>ls_burn_pick := None, ls_burn_sets := None, ls_burn_ass_text := None\<rparr>)
             else (Inr False, s))
          else (case sa_track sa tid of
              None \<Rightarrow> (Inl (NoSuchTrack tid), s)
            | Some t \<Rightarrow>
                (case get (ls_parts s) 0 of
                   None \<Rightarrow> (Inl NoParts, s)
                 | Some part \<Rightarrow>
                     (let pick = seek_new_pick t part in
                      if burnable t \<and> pick = None then (Inl (NotInPlayingSource tid), s)
                      else if already_burning s pick then (Inr False, s\<lparr>ls_burn_pick := pick\<rparr>)
                      else if pick \<noteq> ls_burn_pick s then replace_pick sa tid t pick s
                      else (Inr False, s)))))"

subsection \<open>The executor a session has\<close>

definition local_video_executor :: "host \<Rightarrow> RemuxPlan \<Rightarrow> bool" where
  "local_video_executor h plan =
     (registry_local_enabled (h_registry h)
      \<or> rg_local_video_executor_enabled (h_registry h) \<and> pl_video plan = Encode)"

definition transcoder_reports_ass_burn :: "Registry \<Rightarrow> string \<Rightarrow> bool" where
  "transcoder_reports_ass_burn rg i = is_some_and (map_of (rg_boxes rg) i) (\<lambda>b. b_ass_burn (bx_caps b))"

definition seek_burn_capable :: "host \<Rightarrow> LiveSession \<Rightarrow> bool" where
  "seek_burn_capable h s = (ls_burn_sets s \<noteq> None \<or> reads_sets_for h (ls_parts s))"

text \<open>What the chosen executor can do, as \<open>probe\<close> gives it at the start.\<close>

definition seek_facts :: "host \<Rightarrow> LiveSession \<Rightarrow> RemuxPlan \<Rightarrow> ExecutorFacts" where
  "seek_facts h s plan =
     (case ls_mode s of
        Mode_Transcode tc \<Rightarrow>
          (let a = audio_encoder_names (transcoder_encoders (h_registry h) tc) in
           \<lparr>x_tonemap = transcoder_reports_tonemap (h_registry h) tc,
            x_video_targets = video_encoder_names (transcoder_encoders (h_registry h) tc),
            x_full_audio_targets = a, x_local_audio_targets = a,
            x_full_protocol = unwrap_or (transcoder_protocol_features (h_registry h) tc) 0,
            x_burn_capable = seek_burn_capable h s\<rparr>)
      | _ \<Rightarrow>
          (let a = local_audio_encoder_names h; here = local_video_executor h plan in
           \<lparr>x_tonemap = (here \<and> h_tonemap_available h),
            x_video_targets = (if here then local_video_encoder_names h else []),
            x_full_audio_targets = a, x_local_audio_targets = a,
            x_full_protocol = PROTOCOL_MINOR, x_burn_capable = seek_burn_capable h s\<rparr>))"

definition seek_ass_policy :: "host \<Rightarrow> bool \<Rightarrow> LiveSession \<Rightarrow> RemuxPlan \<Rightarrow> AssPolicy" where
  "seek_ass_policy h ass_burn_available s plan = (ls_ass s)\<lparr>ap_burn_capable :=
     (case ls_mode s of
        Mode_Transcode tc \<Rightarrow> transcoder_reports_ass_burn (h_registry h) tc
      | _ \<Rightarrow> local_video_executor h plan \<and> ass_burn_available)\<rparr>"

subsection \<open>Planning again\<close>

definition fill_audio_loudness_gains ::
    "host \<Rightarrow> PartSource list \<Rightarrow> RemuxPlan \<Rightarrow> LoudnessPreference \<Rightarrow> AudioLoudnessMeasurement option
       \<Rightarrow> string + RemuxPlan" where
  "fill_audio_loudness_gains h parts plan preference known =
     (let measured =
        (if \<not> loudness_enabled preference \<or> pl_audio plan \<noteq> Encode \<or> length parts \<noteq> 1 then Inr None
         else if loudness_force preference then Inr known
         else (let p = parts ! 0 in
           h_audio_loudness h (pt_file_id p) (pl_audio_track plan) (pt_size p) (pt_mtime_unix p)))
      in map_sum id (apply_audio_loudness_measurement plan preference) measured)"

definition seek_input ::
    "host \<Rightarrow> bool \<Rightarrow> LiveSession \<Rightarrow> RemuxPlan \<Rightarrow> nat \<Rightarrow> nat \<Rightarrow> bool \<Rightarrow> neg_input" where
  "seek_input h ass_burn s plan want_audio want_video force =
     (let facts = seek_facts h s plan in
     \<lparr>ni_profile = ls_profile s, ni_info = ls_info s,
      ni_audio_track = want_audio, ni_video_track = want_video,
      ni_single_part = (length (ls_parts s) = 1), ni_est_kbps = None,
      ni_tonemap = x_tonemap facts, ni_burn_capable = x_burn_capable facts,
      ni_ocr_text = map_or (get (ls_parts s) 0) [] (\<lambda>p.
        ocr_flags_for (ls_ocr_set s) (pt_module_id p) (pt_collection_id p) (pt_root_token p)
          (pt_path_rel p) (length (subtitles (ls_info s)))),
      ni_burn_pick = ls_burn_pick s,
      ni_ass = seek_ass_policy h ass_burn s plan,
      ni_video_targets = x_video_targets facts,
      ni_full_audio_targets = x_full_audio_targets facts,
      ni_local_audio_targets = x_local_audio_targets facts,
      ni_force_audio_encode = force\<rparr>)"

text \<open>\<open>fill_verdict_track_ids\<close>.\<close>

definition fill_verdict_track_ids :: "PartSource list \<Rightarrow> SubtitleVerdict list \<Rightarrow> SubtitleVerdict list" where
  "fill_verdict_track_ids parts verdicts =
     (if parts = [] then verdicts
      else map (\<lambda>v. v\<lparr>sub_track_id := Some (int (sub_index v) + 1)\<rparr>) verdicts)"

definition feature_ok :: "ExecutorFacts \<Rightarrow> RemuxPlan \<Rightarrow> bool" where
  "feature_ok facts plan = is_none_or (plan_protocol_feature plan) (supports (x_full_protocol facts))"

text \<open>The plan with its gains: a forced encode the executor's protocol cannot measure is dropped, then
  the gains are.\<close>

definition settle_gains ::
    "host \<Rightarrow> bool \<Rightarrow> LiveSession \<Rightarrow> RemuxPlan \<Rightarrow> nat \<Rightarrow> nat \<Rightarrow> AudioLoudnessMeasurement option
       \<Rightarrow> string + SourcePlan \<times> RemuxPlan" where
  "settle_gains h ass_burn s plan want_audio want_video force_measurement =
     (let negotiate = (\<lambda>force. negotiate_for_executors (h_gst h) (seek_input h ass_burn s plan want_audio want_video force));
          filled = (\<lambda>sp. map_sum id (\<lambda>p. (sp, p))
            (fill_audio_loudness_gains h (ls_parts s) (sp_plan sp) (ls_loudness s) force_measurement));
          facts = seek_facts h s plan
      in case filled (negotiate (force_measurement \<noteq> None)) of
           Inl e \<Rightarrow> Inl e
         | Inr (sp, p) \<Rightarrow>
             if feature_ok facts p then Inr (sp, p)
             else (case (if force_measurement \<noteq> None then filled (negotiate False) else Inr (sp, p)) of
                 Inl e \<Rightarrow> Inl e
               | Inr (sp', p') \<Rightarrow>
                   Inr (sp', if feature_ok facts p' then p'
                             else apply_audio_loudness_measurement p' LoudnessOff None)))"

definition seek_replan ::
    "host \<Rightarrow> bool \<Rightarrow> LiveSession \<Rightarrow> RemuxPlan \<Rightarrow> nat \<Rightarrow> nat \<Rightarrow> seek_error + LiveSession" where
  "seek_replan h ass_burn s plan want_audio want_video =
     (case (if ls_force_loudness s \<and> length (ls_parts s) = 1
            then (let p = ls_parts s ! 0 in
              h_audio_loudness h (pt_file_id p) want_audio (pt_size p) (pt_mtime_unix p))
            else Inr None) of
        Inl e \<Rightarrow> Inl (LoudnessUnavailable e)
      | Inr force_measurement \<Rightarrow>
          (case settle_gains h ass_burn s plan want_audio want_video force_measurement of
             Inl e \<Rightarrow> Inl (LoudnessUnavailable e)
           | Inr (sp, p) \<Rightarrow>
               if \<not> feature_ok (seek_facts h s plan) p then Inl NeedsBitDepthExecutor
               else (case replanned_verdict p (sp_video_verdict sp) (sp_audio_verdict sp) of
                   Inl _ \<Rightarrow> Inl TrackNotPlayable
                 | Inr verdict \<Rightarrow>
                     (let burns_ass = (pl_burn_ass p \<noteq> None \<or> ls_burn_ass_text s \<noteq> None) in
                      Inr (s\<lparr>ls_verdict := Some verdict,
                             ls_sub_verdicts := fill_verdict_track_ids (ls_parts s) (sp_subtitles sp),
                             ls_plan := Some p,
                             ls_needs := fst (placement_need p (ls_info s) (ls_parts s) burns_ass)\<rparr>)))))"

text \<open>The first half of \<open>execute_seek\<close>: a plan is made again only when a track or the burn changes.\<close>

definition plan_for_seek ::
    "host \<Rightarrow> bool \<Rightarrow> LiveSession \<Rightarrow> u32 option \<Rightarrow> u32 option \<Rightarrow> bool \<Rightarrow> seek_error + LiveSession" where
  "plan_for_seek h ass_burn s audio_track video_track replan_subs =
     (case ls_plan s of
        None \<Rightarrow> Inl NoPipeline
      | Some plan \<Rightarrow>
          (let want_audio = map_or audio_track (pl_audio_track plan) unat;
               want_video = map_or video_track (pl_video_track plan) unat
           in if want_audio \<noteq> pl_audio_track plan \<or> want_video \<noteq> pl_video_track plan \<or> replan_subs
              then seek_replan h ass_burn s plan want_audio want_video
              else Inr s))"

section \<open>Lemmas\<close>

lemma measurement_sel:
  "pl_video (apply_audio_loudness_measurement p pref m) = pl_video p"
  "pl_audio (apply_audio_loudness_measurement p pref m) = pl_audio p"
  "pl_video_codec (apply_audio_loudness_measurement p pref m) = pl_video_codec p"
  "pl_audio_codec (apply_audio_loudness_measurement p pref m) = pl_audio_codec p"
  "pl_segment_format (apply_audio_loudness_measurement p pref m) = pl_segment_format p"
  "pl_video_track (apply_audio_loudness_measurement p pref m) = pl_video_track p"
  "pl_audio_track (apply_audio_loudness_measurement p pref m) = pl_audio_track p"
  by (simp_all add: apply_audio_loudness_measurement_def Let_def split: option.splits)

lemma map_sum_Inr: "map_sum f g x = Inr y \<Longrightarrow> (\<And>z. x = Inr z \<Longrightarrow> y = g z \<Longrightarrow> P) \<Longrightarrow> P"
  by (cases x) auto

lemma seek_input_sel:
  "ni_profile (seek_input h ab s plan a v force) = ls_profile s"
  "ni_info (seek_input h ab s plan a v force) = ls_info s"
  "ni_video_targets (seek_input h ab s plan a v force) = x_video_targets (seek_facts h s plan)"
  "ni_full_audio_targets (seek_input h ab s plan a v force) = x_full_audio_targets (seek_facts h s plan)"
  "ni_local_audio_targets (seek_input h ab s plan a v force) = x_local_audio_targets (seek_facts h s plan)"
  by (simp_all add: seek_input_def Let_def)

lemma set_transcoder_encoders:
  "x \<in> set (transcoder_encoders rg i) \<longleftrightarrow> (\<exists>b. map_of (rg_boxes rg) i = Some b \<and> has_encoder (bx_caps b) x)"
  by (cases "map_of (rg_boxes rg) i") (auto simp: transcoder_encoders_def has_encoder_def list_ex_iff)

text \<open>What the facts of a session say of its executor.\<close>

lemma seek_facts_pools: "x_full_audio_targets (seek_facts h s plan) = x_local_audio_targets (seek_facts h s plan)"
  by (simp add: seek_facts_def Let_def split: SessionMode.splits)

lemma seek_facts_audio:
  "x \<in> set (x_local_audio_targets (seek_facts h s plan)) \<Longrightarrow>
     (case ls_mode s of
        Mode_Transcode tc \<Rightarrow> \<exists>b. map_of (rg_boxes (h_registry h)) tc = Some b \<and> has_encoder (bx_caps b) x
      | _ \<Rightarrow> x \<in> set (local_audio_encoder_names h))"
  by (auto simp: seek_facts_def Let_def audio_encoder_names_def set_transcoder_encoders split: SessionMode.splits)

lemma seek_facts_video:
  "x \<in> set (x_video_targets (seek_facts h s plan)) \<Longrightarrow>
     (case ls_mode s of
        Mode_Transcode tc \<Rightarrow> \<exists>b. map_of (rg_boxes (h_registry h)) tc = Some b \<and> has_encoder (bx_caps b) x
      | _ \<Rightarrow> local_video_executor h plan \<and> x \<in> set (local_video_encoder_names h))"
  by (auto simp: seek_facts_def Let_def video_encoder_names_def set_transcoder_encoders
      split: SessionMode.splits if_splits)

text \<open>Two plans that send the same streams: they differ in gains at most.\<close>

definition same_streams :: "RemuxPlan \<Rightarrow> RemuxPlan \<Rightarrow> bool" where
  "same_streams p q \<longleftrightarrow> pl_video p = pl_video q \<and> pl_audio p = pl_audio q
     \<and> pl_video_codec p = pl_video_codec q \<and> pl_audio_codec p = pl_audio_codec q
     \<and> pl_segment_format p = pl_segment_format q
     \<and> pl_video_track p = pl_video_track q \<and> pl_audio_track p = pl_audio_track q"

lemma same_streams_gains:
  "same_streams p q \<Longrightarrow> same_streams (apply_audio_loudness_measurement p pref m) q"
  by (simp add: same_streams_def measurement_sel)

lemma fill_sel: "fill_audio_loudness_gains h parts p pref known = Inr q \<Longrightarrow> same_streams q p"
  unfolding fill_audio_loudness_gains_def Let_def
  by (auto simp: same_streams_def measurement_sel split: if_splits elim!: map_sum_Inr)

text \<open>The settled plan is a negotiated one but for its gains.\<close>

lemma settle_from:
  assumes "settle_gains h ab s plan a v fm = Inr (sp, p)"
  obtains force where "sp = negotiate_for_executors (h_gst h) (seek_input h ab s plan a v force)"
    and "same_streams p (sp_plan sp)"
proof -
  define neg where "neg = (\<lambda>force. negotiate_for_executors (h_gst h) (seek_input h ab s plan a v force))"
  define filled where "filled = (\<lambda>sp :: SourcePlan. map_sum id (\<lambda>p. (sp, p))
      (fill_audio_loudness_gains h (ls_parts s) (sp_plan sp) (ls_loudness s) fm))"
  have filled_Inr: "sp' = sp0 \<and> same_streams p' (sp_plan sp0)"
    if "filled sp0 = Inr (sp', p')" for sp0 sp' p'
    using that fill_sel [of h "ls_parts s" "sp_plan sp0" "ls_loudness s" fm p']
    by (cases "fill_audio_loudness_gains h (ls_parts s) (sp_plan sp0) (ls_loudness s) fm") (auto simp: filled_def)
  have settle: "settle_gains h ab s plan a v fm =
     (case filled (neg (fm \<noteq> None)) of
           Inl e \<Rightarrow> Inl e
         | Inr (sp, p) \<Rightarrow>
             if feature_ok (seek_facts h s plan) p then Inr (sp, p)
             else (case (if fm \<noteq> None then filled (neg False) else Inr (sp, p)) of
                 Inl e \<Rightarrow> Inl e
               | Inr (sp', p') \<Rightarrow>
                   Inr (sp', if feature_ok (seek_facts h s plan) p' then p'
                             else apply_audio_loudness_measurement p' LoudnessOff None)))"
    unfolding settle_gains_def neg_def filled_def Let_def by (rule refl)
  from assms obtain sp0 p0 where first: "filled (neg (fm \<noteq> None)) = Inr (sp0, p0)"
    unfolding settle by (auto split: sum.splits)
  show ?thesis
  proof (cases "feature_ok (seek_facts h s plan) p0")
    case True
    then have "sp = sp0" "p = p0" using assms first by (simp_all add: settle)
    then show ?thesis using filled_Inr [OF first] that [of "fm \<noteq> None"] by (simp add: neg_def)
  next
    case False
    show ?thesis
    proof (cases "fm = None")
      case True
      then have "sp = sp0" "p = apply_audio_loudness_measurement p0 LoudnessOff None"
        using assms first False unfolding settle by simp_all
      then show ?thesis using filled_Inr [OF first] that [of False] True by (simp add: neg_def same_streams_gains)
    next
      case fm: False
      then obtain p1 where second: "filled (neg False) = Inr (sp, p1)"
        and "p = (if feature_ok (seek_facts h s plan) p1 then p1
                  else apply_audio_loudness_measurement p1 LoudnessOff None)"
        using assms first False by (auto simp: settle split: sum.splits)
      then show ?thesis using filled_Inr [OF second] that [of False] by (auto simp: neg_def same_streams_gains)
    qed
  qed
qed

lemma replan_cases:
  assumes "seek_replan h ab s plan a v = Inr s'"
  obtains force p where
    "ls_plan s' = Some p" "feature_ok (seek_facts h s plan) p" "playable p"
    "same_streams p (sp_plan (negotiate_for_executors (h_gst h) (seek_input h ab s plan a v force)))"
    "ls_needs s' = fst (placement_need p (ls_info s) (ls_parts s) (pl_burn_ass p \<noteq> None \<or> ls_burn_ass_text s \<noteq> None))"
    "ls_mode s' = ls_mode s" "ls_burn_pick s' = ls_burn_pick s"
proof -
  from assms obtain fm sp p where settled: "settle_gains h ab s plan a v fm = Inr (sp, p)"
    and ok: "feature_ok (seek_facts h s plan) p" "playable p"
    and s': "ls_plan s' = Some p" "ls_mode s' = ls_mode s" "ls_burn_pick s' = ls_burn_pick s"
      "ls_needs s' = fst (placement_need p (ls_info s) (ls_parts s) (pl_burn_ass p \<noteq> None \<or> ls_burn_ass_text s \<noteq> None))"
    by (auto simp: seek_replan_def replanned_verdict_def Let_def split: sum.splits if_splits)
  from settled obtain force where "sp = negotiate_for_executors (h_gst h) (seek_input h ab s plan a v force)"
    "same_streams p (sp_plan sp)"
    by (rule settle_from)
  then show ?thesis using that [of p force] ok s' by simp
qed

section \<open>A sample session\<close>

text \<open>An H.264 film of 90 minutes and 5.4 GB with two sound tracks, on a box that encodes H.264, for a client
  with a cap of one megabit.\<close>

definition capped :: CapabilityProfile where
  "capped = CapabilityProfile_default\<lparr>p_max_bandwidth_kbps := Some 1000\<rparr>"

definition sample_film :: MediaInfo where
  "sample_film = sample_info [sample_video ''h264''] [sample_audio ''aac'', sample_audio ''mp3''] []"

definition sample_part :: PartSource where
  "sample_part = \<lparr>pt_file_id = ''f'', pt_head_xxh3 = 0, pt_tail_xxh3 = 0, pt_module_id = ''m'',
     pt_collection_id = ''c'', pt_root_token = ''r'', pt_path_rel = ''film.webm'', pt_size = 5400000000,
     pt_mtime_unix = 0, pt_base_ms = 0, pt_duration_ms = 5400000\<rparr>"

definition sample_session :: "RemuxPlan option \<Rightarrow> LiveSession" where
  "sample_session plan =
     \<lparr>ls_mode = Mode_Transcode ''soft'', ls_profile = capped, ls_info = sample_film, ls_parts = [sample_part],
      ls_plan = plan, ls_needs = sample_need, ls_verdict = None, ls_sub_verdicts = [],
      ls_burn_pick = None, ls_burn_sets = None, ls_burn_ass_text = None, ls_ass = AssPolicy_default,
      ls_ocr_set = [], ls_loudness = LoudnessOff, ls_force_loudness = False\<rparr>"

definition start_plan :: RemuxPlan where
  "start_plan = sp_plan (selected_plan (sample_host sample_registry) (sample_negotiation capped) [sample_part]
     sample_film (seek_facts (sample_host sample_registry) (sample_session None) undefined) False)"

abbreviation "shost \<equiv> sample_host sample_registry"

lemma sample_facts: "seek_facts shost (sample_session q) pl = \<lparr>x_tonemap = False, x_video_targets = [''h264''], x_full_audio_targets = [],
  x_local_audio_targets = [], x_full_protocol = 6, x_burn_capable = True\<rparr>"
  by (simp add: seek_facts_def sample_session_def sample_host_def sample_registry_def sample_box_def
   audio_encoder_names_def video_encoder_names_def transcoder_encoders_def transcoder_reports_tonemap_def
   transcoder_protocol_features_def seek_burn_capable_def reads_sets_for_def get_def)

lemma sample_kbps: "source_kbps [sample_part] sample_film = Some 8000"
  by (simp add: source_kbps_def sample_part_def sample_film_def sample_info_def)

lemma start_encodes: "pl_video start_plan = Encode" and start_audio: "pl_audio_track start_plan = 0"
proof -
  define ni where "ni = neg_input_of (sample_negotiation capped) [sample_part] sample_film
     (seek_facts shost (sample_session None) undefined) False"
  have pr: "ni_profile ni = capped" "ni_info ni = sample_film" "ni_video_targets ni = [''h264'']"
    "\<not> ni_force_audio_encode ni" "ni_est_kbps ni = Some 8000"
    by (simp_all add: ni_def neg_input_of_def sample_facts sample_kbps) (simp_all add: sample_negotiation_def)
  have v: "n_v ni = Some (sample_video ''h264'')"
    by (simp add: n_v_def n_video_track_def pr clamp_track_def get_def) (simp add: sample_film_def sample_info_def)
  have "over_cap ni" by (simp add: over_cap_def pr) (simp add: capped_def)
  then have "\<not> v_client_ok ni" by (simp add: v_client_ok_def)
  moreover have "takes_video ni H264" by (simp add: takes_video_def pr) (simp add: capped_def)
  ultimately have "cand_video sample_gst ni fmt = Encode" for fmt
    by (cases fmt) (simp_all add: cand_video_def v)
  then show "pl_video start_plan = Encode"
    by (simp add: start_plan_def selected_plan_def negotiate_no_force pr impl_sel n_plan_sel n_video_eq
        flip: ni_def)
  have "n_audio_track ni = 0"
    by (simp add: n_audio_track_def ni_def neg_input_of_def audio_track_for_def sample_negotiation_def get_def clamp_track_def)
  then show "pl_audio_track start_plan = 0"
    by (simp add: start_plan_def selected_plan_def negotiate_no_force pr impl_sel n_plan_sel
        flip: ni_def)
qed

lemma switch_copies:
  assumes "ls_plan s = Some start_plan" "s = sample_session (Some start_plan)"
  shows "\<exists>s' q. plan_for_seek shost False s (Some 1) None False = Inr s' \<and> ls_plan s' = Some q \<and> pl_video q = Copy"
proof -
  define ni where "ni = seek_input shost False s start_plan (Suc 0) (pl_video_track start_plan) False"
  have sel: "ls_parts s = [sample_part]" "ls_loudness s = LoudnessOff" "\<not> ls_force_loudness s" "ls_info s = sample_film"
    by (simp_all add: assms sample_session_def)
  have pr: "ni_profile ni = capped" "ni_info ni = sample_film" "ni_video_targets ni = [''h264'']"
    "\<not> ni_force_audio_encode ni" "ni_est_kbps ni = None"
    by (simp_all add: ni_def seek_input_def Let_def assms sample_facts) (simp_all add: sample_session_def)
  have t: "n_video_track ni = 0"
    by (simp add: n_video_track_def pr clamp_track_def sample_film_def sample_info_def)
  have v: "n_v ni = Some (sample_video ''h264'')"
    by (simp add: n_v_def t pr get_def) (simp add: sample_film_def sample_info_def)
  have ok: "v_client_ok ni"
    by (simp add: v_client_ok_def over_cap_def hdr_veto_def is_hdr10_def video_fits_def cap_admits_def v pr)
      (simp add: capped_def)
  have nb: "\<not> burn_active ni"
    by (simp add: burn_active_def n_burn_subtitle_def forced_embedded_def forced_burn_def
        n_burn_ass_def ass_burn_wanted_def pr)
      (simp add: sample_film_def sample_info_def ni_def seek_input_def Let_def assms sample_session_def)
  have "cand_video sample_gst ni fmt = Copy" for fmt
    by (cases fmt) (simp_all add: cand_video_Copy ok nb v)
  moreover have "\<not> short_override sample_gst ni" by (rule short_override_None) (simp add: pr capped_def)
  ultimately have copy: "pl_video (sp_plan (negotiate_for_executors sample_gst ni)) = Copy"
    by (simp add: negotiate_no_force pr impl_sel n_plan_sel n_video_eq)
  let ?p = "apply_audio_loudness_measurement (sp_plan (negotiate_for_executors sample_gst ni)) LoudnessOff None"
  have "fill_audio_loudness_gains shost [sample_part] (sp_plan (negotiate_for_executors sample_gst ni)) LoudnessOff None = Inr ?p"
    by (simp add: fill_audio_loudness_gains_def loudness_enabled_def)
  moreover have feature: "feature_ok facts ?p" for facts
    by (simp add: feature_ok_def plan_protocol_feature_def measurement_sel copy)
      (simp add: loudness_protocol_feature_def apply_audio_loudness_measurement_def Let_def list_ex_iff)
  moreover have "h_gst shost = sample_gst" by (simp add: sample_host_def)
  ultimately have settled: "settle_gains shost False s start_plan (Suc 0) (pl_video_track start_plan) None
      = Inr (negotiate_for_executors sample_gst ni, ?p)"
    by (simp add: settle_gains_def Let_def sel flip: ni_def)
  have "playable ?p" by (simp add: playable_def has_video_def measurement_sel copy)
  then obtain s' where "seek_replan shost False s start_plan (Suc 0) (pl_video_track start_plan) = Inr s'" "ls_plan s' = Some ?p"
    using settled feature by (simp add: seek_replan_def replanned_verdict_def Let_def sel)
  moreover have "pl_audio_track start_plan = 0"
    by (rule start_audio)
  ultimately show ?thesis using assms(1) copy by (auto simp: plan_for_seek_def Let_def measurement_sel)
qed

section \<open>Properties\<close>

text \<open>C35. A switch of tracks keeps the session on its executor, and the new plan runs there: it delivers a
  stream, it needs no protocol feature the executor lacks, and the need that a rescheduling would place is that
  of the new plan. Sound is only encoded to a target that the box of the session reported, or that the hub
  has an element for; a picture only to one that the box reported, or that the local executor has verified
  and may still serve. The one exception is the fallback of a segment ceiling: H.264, where the client and
  the executor have no target of the container in common.\<close>

theorem replan_runs_here:
  assumes "plan_for_seek h ab s audio_track video_track replan = Inr s'" and "ls_plan s' \<noteq> ls_plan s"
    and "ls_plan s = Some plan" and "ls_plan s' = Some p"
  shows "ls_mode s' = ls_mode s \<and> playable p
       \<and> is_none_or (plan_protocol_feature p) (supports (x_full_protocol (seek_facts h s plan)))
       \<and> ls_needs s' = fst (placement_need p (ls_info s) (ls_parts s) (pl_burn_ass p \<noteq> None \<or> ls_burn_ass_text s \<noteq> None))
       \<and> (pl_audio p = Encode \<longrightarrow>
            (case ls_mode s of
               Mode_Transcode tc \<Rightarrow> \<exists>b. map_of (rg_boxes (h_registry h)) tc = Some b
                                     \<and> has_encoder (bx_caps b) (AudioTarget_as_str (pl_audio_codec p))
             | _ \<Rightarrow> AudioTarget_as_str (pl_audio_codec p) \<in> set (local_audio_encoder_names h)))
       \<and> (pl_video p = Encode \<longrightarrow>
            (case ls_mode s of
               Mode_Transcode tc \<Rightarrow> \<exists>b. map_of (rg_boxes (h_registry h)) tc = Some b
                                     \<and> has_encoder (bx_caps b) (VideoTarget_as_str (pl_video_codec p))
             | _ \<Rightarrow> local_video_executor h plan
                   \<and> VideoTarget_as_str (pl_video_codec p) \<in> set (local_video_encoder_names h))
          \<or> ceiling_fallback (ls_profile s) (x_video_targets (seek_facts h s plan)) p)"
proof -
  obtain a v where run: "seek_replan h ab s plan a v = Inr s'"
    using assms by (auto simp: plan_for_seek_def Let_def split: if_splits)
  from run obtain force where p: "feature_ok (seek_facts h s plan) p" "playable p"
    and same: "same_streams p (sp_plan (negotiate_for_executors (h_gst h) (seek_input h ab s plan a v force)))"
    and rest: "ls_needs s' = fst (placement_need p (ls_info s) (ls_parts s) (pl_burn_ass p \<noteq> None \<or> ls_burn_ass_text s \<noteq> None))"
    "ls_mode s' = ls_mode s"
    using assms(4) by (elim replan_cases) auto
  let ?ni = "seek_input h ab s plan a v force"
  have sound: "AudioTarget_as_str (pl_audio_codec p) \<in> set (x_local_audio_targets (seek_facts h s plan))"
    if "pl_audio p = Encode"
    using audio_target_offered [of "h_gst h" ?ni] that same
    by (simp add: same_streams_def seek_input_sel seek_facts_pools)
  have picture: "VideoTarget_as_str (pl_video_codec p) \<in> set (x_video_targets (seek_facts h s plan))
      \<or> ceiling_fallback (ls_profile s) (x_video_targets (seek_facts h s plan)) p" if "pl_video p = Encode"
    using encode_target_or_fallback [of "h_gst h" ?ni] that same
    by (simp add: same_streams_def seek_input_sel ceiling_fallback_def)
  show ?thesis
    using p rest seek_facts_audio [OF sound] picture seek_facts_video [of _ h s plan]
    unfolding feature_ok_def by blast
qed

text \<open>Witness of C35: the other sound track of the sample film.\<close>

theorem replan_runs_here_witness:
  "\<exists>s' q. plan_for_seek shost False (sample_session (Some start_plan)) (Some 1) None False = Inr s'
     \<and> ls_plan s' = Some q \<and> playable q \<and> ls_mode s' = Mode_Transcode ''soft''"
proof -
  have p: "ls_plan (sample_session (Some start_plan)) = Some start_plan" by (simp add: sample_session_def)
  from switch_copies [OF this refl] obtain s' q
    where run: "plan_for_seek shost False (sample_session (Some start_plan)) (Some 1) None False = Inr s'"
      and q: "ls_plan s' = Some q" "pl_video q = Copy" by blast
  moreover have "ls_plan s' \<noteq> ls_plan (sample_session (Some start_plan))"
    using q start_encodes p by auto
  ultimately show ?thesis using replan_runs_here [OF run _ p q(1)] by (auto simp: sample_session_def)
qed

text \<open>A pick of a subtitle that is refused leaves the session as it was, but for one field: when the
  display sets of the new pick are not to be had, the script of the styled track that was being burned from
  a sidecar is gone, while the pick still names that track. The next restart burns nothing.\<close>

theorem refused_pick_keeps:
  assumes "seek_subtitle sa subtitle_track s = (Inl e, s')"
  shows "s' = s \<or> s' = s\<lparr>ls_burn_ass_text := None\<rparr> \<and> ls_burn_ass_text s \<noteq> None
       \<and> ((\<exists>tid. e = NoDisplaySets tid) \<or> (\<exists>why. e = NoExtraction why))"
proof -
  have "s' = s \<or> s' = s\<lparr>ls_burn_ass_text := None\<rparr>
       \<and> ((\<exists>tid. e = NoDisplaySets tid) \<or> (\<exists>why. e = NoExtraction why))"
    using assms
    by (auto simp: seek_subtitle_def replace_pick_def Let_def
        split: option.splits if_splits BurnPick.splits sum.splits)
  moreover have "s\<lparr>ls_burn_ass_text := None\<rparr> = s" if "ls_burn_ass_text s = None" using that by (cases s) simp
  ultimately show ?thesis by metis
qed

text \<open>Witness: the loss. A script is burned from a sidecar; an embedded PGS track is picked, and the mediahost
  has no display sets for it.\<close>

theorem refused_pick_keeps_witness:
  "let sa = \<lparr>sa_track = (\<lambda>_. Some \<lparr>tk_origin = ''embedded'', tk_module_id = Some ''m'', tk_collection_id = Some ''c'',
              tk_root_token = Some ''r'', tk_source_path = Some ''film.webm'', tk_stream_index = Some 0,
              tk_format = ''pgs''\<rparr>), sa_ass_for_burn = (\<lambda>_. None), sa_image_sets = (\<lambda>_. Inr None)\<rparr>;
       s = (sample_session None)\<lparr>ls_burn_pick := Some (Sidecar 0), ls_burn_ass_text := Some ''script''\<rparr>;
       s' = snd (seek_subtitle sa (Some 3) s)
   in s' = s\<lparr>ls_burn_ass_text := None\<rparr> \<and> ls_burn_pick s' = Some (Sidecar 0)"
proof -
  let ?t = "\<lparr>tk_origin = ''embedded'', tk_module_id = Some ''m'', tk_collection_id = Some ''c'',
     tk_root_token = Some ''r'', tk_source_path = Some ''film.webm'', tk_stream_index = Some 0, tk_format = ''pgs''\<rparr>"
  let ?sa = "\<lparr>sa_track = (\<lambda>_. Some ?t), sa_ass_for_burn = (\<lambda>_. None), sa_image_sets = (\<lambda>_. Inr None)\<rparr>"
  let ?s = "(sample_session None)\<lparr>ls_burn_pick := Some (Sidecar 0), ls_burn_ass_text := Some ''script''\<rparr>"
  have run: "seek_subtitle ?sa (Some 3) ?s = (Inl (NoDisplaySets 3), ?s\<lparr>ls_burn_ass_text := None\<rparr>)"
    by (simp add: seek_subtitle_def sample_session_def sample_part_def get_def seek_new_pick_def burnable_def
        is_image_format_def is_ass_format_def already_burning_def replace_pick_def Let_def)
  have "?s\<lparr>ls_burn_ass_text := None\<rparr> \<noteq> ?s" by (simp add: sample_session_def)
  then show ?thesis using refused_pick_keeps [OF run] run by (simp add: Let_def)
qed

text \<open>Planning again forgets the bandwidth of the source: the estimate that made the start refuse a copy is
  not passed. The sample film, eight megabits for a client that takes one, starts as an encode; after a
  switch of its sound track its picture is copied.\<close>

theorem seek_forgets_cap:
  "\<exists>h neg s p s' q. p_max_bandwidth_kbps (ls_profile s) = Some 1000
     \<and> source_kbps (ls_parts s) (ls_info s) = Some 8000
     \<and> ng_profile neg = ls_profile s
     \<and> p = sp_plan (selected_plan h neg (ls_parts s) (ls_info s) (seek_facts h s p) False)
     \<and> ls_plan s = Some p \<and> pl_video p = Encode
     \<and> plan_for_seek h False s (Some 1) None False = Inr s'
     \<and> ls_plan s' = Some q \<and> pl_video q = Copy"
proof -
  let ?s = "sample_session (Some start_plan)"
  have s: "p_max_bandwidth_kbps (ls_profile ?s) = Some 1000" "source_kbps (ls_parts ?s) (ls_info ?s) = Some 8000"
    "ng_profile (sample_negotiation capped) = ls_profile ?s" "ls_plan ?s = Some start_plan"
    using sample_kbps by (simp_all add: sample_session_def sample_negotiation_def) (simp add: capped_def)
  have p: "start_plan = sp_plan (selected_plan shost (sample_negotiation capped) (ls_parts ?s) (ls_info ?s)
      (seek_facts shost ?s start_plan) False)"
    unfolding start_plan_def sample_facts by (simp add: sample_session_def)
  from switch_copies [OF s(4) refl] show ?thesis using s p start_encodes by blast
qed

end
