(* ===== verification/Prefetch_Ring.thy ===== *)
theory Prefetch_Ring
  imports Kahawai_Prelude
begin

text \<open>
  The prefetch ring between a byte source and a GStreamer pipeline, \<open>seekable_appsrc\<close> of
  \<open>crates/kahawai-media/src/remux/source.rs\<close>: a reader thread reads ahead into a bounded ring, a feeder
  thread serves the pipeline's needs from it, and a seek bumps the generation that makes blocks and needs
  from before it stale. One operation per critical section of the ring's lock; the feeder holds the lock
  \<open>busy\<close> while it is not idle, and a seek returns only when that lock is free. The element is its calls:
  when it asks, seeks and goes away, and whether it takes a buffer, is up to the step relation. What the
  source answers to a read is the parameter \<open>answers\<close>. The events the element saw, where the generation
  starts and how much was taken from the ring in it are kept for the properties only.
\<close>

section \<open>Definitions\<close>

definition READ_BLOCK :: nat where "READ_BLOCK = 2 * 1024 * 1024"
definition RING_BYTES :: nat where "RING_BYTES = 16 * 1024 * 1024"
definition MAX_PUSH :: nat where "MAX_PUSH = 256 * 1024"

record Ring =
  r_blocks :: "(nat \<times> u8 list) list"
  r_bytes :: nat
  r_generation :: nat
  r_seek_to :: "nat option"
  r_eos :: bool
  r_failed :: bool
  r_closed :: bool

datatype reader_phase = Reader_Waits | Reader_Reads | Reader_Gone

datatype feeder_phase =
    Feeder_Idle
  | Feeder_Got nat
  | Feeder_Holds nat
  | Feeder_Pushes nat nat "u8 list" nat
  | Feeder_Ends nat
  | Feeder_Gone

datatype feed_event = Pushed nat nat "u8 list" | Refused nat | Ended nat

record Feed =
  fd_ring :: Ring
  fd_pos :: nat
  fd_my_gen :: nat
  fd_reader :: reader_phase
  fd_feeder :: feeder_phase
  fd_stamped :: "nat list"
  fd_commands :: "nat list"
  fd_seeking :: bool
  fd_events :: "feed_event list"
  fd_target :: nat
  fd_taken :: nat

definition feed_new :: Feed where
  "feed_new = \<lparr>fd_ring = \<lparr>r_blocks = [], r_bytes = 0, r_generation = 0, r_seek_to = None, r_eos = False,
       r_failed = False, r_closed = False\<rparr>,
     fd_pos = 0, fd_my_gen = 0, fd_reader = Reader_Waits, fd_feeder = Feeder_Idle, fd_stamped = [],
     fd_commands = [], fd_seeking = False, fd_events = [], fd_target = 0, fd_taken = 0\<rparr>"

subsection \<open>The callbacks of the element\<close>

definition need_stamp :: "Feed \<Rightarrow> Feed" where
  "need_stamp st = st\<lparr>fd_stamped := fd_stamped st @ [r_generation (fd_ring st)]\<rparr>"

definition need_send :: "nat \<Rightarrow> Feed \<Rightarrow> Feed" where
  "need_send stamp st = st\<lparr>fd_stamped := remove1 stamp (fd_stamped st), fd_commands := fd_commands st @ [stamp]\<rparr>"

definition seek_bump :: "nat \<Rightarrow> Feed \<Rightarrow> Feed" where
  "seek_bump offset st =
     st\<lparr>fd_ring := (fd_ring st)\<lparr>r_generation := r_generation (fd_ring st) + 1, r_seek_to := Some offset,
          r_blocks := [], r_bytes := 0, r_eos := False\<rparr>,
        fd_seeking := True, fd_target := offset, fd_taken := 0\<rparr>"

definition seek_return :: "Feed \<Rightarrow> Feed" where
  "seek_return st = st\<lparr>fd_seeking := False\<rparr>"

text \<open>The callbacks are dropped with the element, and the sender of the needs with them.\<close>

definition hang_up :: "Feed \<Rightarrow> Feed" where
  "hang_up st = st\<lparr>fd_ring := (fd_ring st)\<lparr>r_closed := True\<rparr>, fd_stamped := []\<rparr>"

subsection \<open>The reader\<close>

text \<open>The inner loop under the lock; the last case is the wait on the condition variable.\<close>

definition reader_check :: "Feed \<Rightarrow> Feed" where
  "reader_check st =
     (let r = fd_ring st in
      if r_closed r \<or> r_failed r then st\<lparr>fd_reader := Reader_Gone\<rparr>
      else if r_generation r \<noteq> fd_my_gen st then
        st\<lparr>fd_my_gen := r_generation r, fd_pos := unwrap_or (r_seek_to r) (fd_pos st),
           fd_ring := r\<lparr>r_seek_to := None\<rparr>,
           fd_reader := (if r_eos r then Reader_Waits else Reader_Reads)\<rparr>
      else if \<not> r_eos r \<and> r_bytes r < RING_BYTES then st\<lparr>fd_reader := Reader_Reads\<rparr>
      else st)"

definition reader_store :: "string + u8 list \<Rightarrow> Feed \<Rightarrow> Feed" where
  "reader_store res st =
     (let r = fd_ring st in
      if r_closed r then st\<lparr>fd_reader := Reader_Gone\<rparr>
      else if r_generation r \<noteq> fd_my_gen st then st\<lparr>fd_reader := Reader_Waits\<rparr>
      else (case res of
          Inl e \<Rightarrow> st\<lparr>fd_ring := r\<lparr>r_failed := True\<rparr>, fd_reader := Reader_Waits\<rparr>
        | Inr bs \<Rightarrow>
            if bs = [] then st\<lparr>fd_ring := r\<lparr>r_eos := True\<rparr>, fd_reader := Reader_Waits\<rparr>
            else st\<lparr>fd_ring := r\<lparr>r_bytes := r_bytes r + length bs, r_blocks := r_blocks r @ [(fd_pos st, bs)]\<rparr>,
                    fd_pos := fd_pos st + length bs, fd_reader := Reader_Waits\<rparr>))"

subsection \<open>The feeder\<close>

definition feeder_busy :: "Feed \<Rightarrow> bool" where
  "feeder_busy st =
     (case fd_feeder st of
        Feeder_Holds _ \<Rightarrow> True | Feeder_Pushes _ _ _ _ \<Rightarrow> True | Feeder_Ends _ \<Rightarrow> True | _ \<Rightarrow> False)"

text \<open>The loop under the ring's lock; the last case is the wait.\<close>

definition feeder_take :: "nat \<Rightarrow> Feed \<Rightarrow> Feed" where
  "feeder_take stamp st =
     (let r = fd_ring st in
      if r_closed r then st\<lparr>fd_feeder := Feeder_Gone\<rparr>
      else if r_generation r \<noteq> stamp then st\<lparr>fd_feeder := Feeder_Idle\<rparr>
      else (case r_blocks r of
          (off, bs) # rest \<Rightarrow>
            st\<lparr>fd_ring := r\<lparr>r_blocks := rest, r_bytes := r_bytes r - length bs\<rparr>,
               fd_taken := fd_taken st + length bs, fd_feeder := Feeder_Pushes stamp off bs 0\<rparr>
        | [] \<Rightarrow> if r_eos r \<or> r_failed r then st\<lparr>fd_feeder := Feeder_Ends stamp\<rparr> else st))"

definition push_chunk :: "nat \<Rightarrow> nat" where
  "push_chunk len = max (min MAX_PUSH ((len + 3) div 4)) 1"

definition feeder_push :: "nat \<Rightarrow> nat \<Rightarrow> u8 list \<Rightarrow> nat \<Rightarrow> Feed \<Rightarrow> Feed" where
  "feeder_push stamp off bs sent st =
     (let n = min (push_chunk (length bs)) (length bs - sent) in
      st\<lparr>fd_events := fd_events st @ [Pushed stamp (off + sent) (take n (drop sent bs))],
         fd_feeder := (if sent + n < length bs then Feeder_Pushes stamp off bs (sent + n) else Feeder_Idle)\<rparr>)"

definition feeder_refused :: "nat \<Rightarrow> Feed \<Rightarrow> Feed" where
  "feeder_refused stamp st = st\<lparr>fd_events := fd_events st @ [Refused stamp], fd_feeder := Feeder_Idle\<rparr>"

definition feeder_end :: "nat \<Rightarrow> Feed \<Rightarrow> Feed" where
  "feeder_end stamp st = st\<lparr>fd_events := fd_events st @ [Ended stamp], fd_feeder := Feeder_Idle\<rparr>"

inductive feed_step :: "(nat \<Rightarrow> string + u8 list \<Rightarrow> bool) \<Rightarrow> Feed \<Rightarrow> Feed \<Rightarrow> bool" for answers where
  Stamp: "\<not> r_closed (fd_ring st) \<Longrightarrow> feed_step answers st (need_stamp st)"
| Send: "stamp \<in> set (fd_stamped st) \<Longrightarrow> feed_step answers st (need_send stamp st)"
| Bump: "\<not> r_closed (fd_ring st) \<Longrightarrow> \<not> fd_seeking st \<Longrightarrow> feed_step answers st (seek_bump offset st)"
| Return: "fd_seeking st \<Longrightarrow> \<not> feeder_busy st \<Longrightarrow> feed_step answers st (seek_return st)"
| Hang_Up: "feed_step answers st (hang_up st)"
| Check: "fd_reader st = Reader_Waits \<Longrightarrow> feed_step answers st (reader_check st)"
| Store: "fd_reader st = Reader_Reads \<Longrightarrow> answers (fd_pos st) res \<Longrightarrow> feed_step answers st (reader_store res st)"
| Receive: "fd_feeder st = Feeder_Idle \<Longrightarrow> fd_commands st = stamp # rest
    \<Longrightarrow> feed_step answers st (st\<lparr>fd_commands := rest, fd_feeder := Feeder_Got stamp\<rparr>)"
| Disconnected: "fd_feeder st = Feeder_Idle \<Longrightarrow> fd_commands st = [] \<Longrightarrow> r_closed (fd_ring st)
    \<Longrightarrow> feed_step answers st (st\<lparr>fd_feeder := Feeder_Gone\<rparr>)"
| Lock: "fd_feeder st = Feeder_Got stamp \<Longrightarrow> feed_step answers st (st\<lparr>fd_feeder := Feeder_Holds stamp\<rparr>)"
| Take: "fd_feeder st = Feeder_Holds stamp \<Longrightarrow> feed_step answers st (feeder_take stamp st)"
| Push: "fd_feeder st = Feeder_Pushes stamp off bs sent \<Longrightarrow> feed_step answers st (feeder_push stamp off bs sent st)"
| Refuse: "fd_feeder st = Feeder_Pushes stamp off bs sent \<Longrightarrow> feed_step answers st (feeder_refused stamp st)"
| End_Of_Stream: "fd_feeder st = Feeder_Ends stamp \<Longrightarrow> feed_step answers st (feeder_end stamp st)"
| No_Element: "fd_feeder st \<in> {Feeder_Pushes stamp off bs 0, Feeder_Ends stamp} \<Longrightarrow> r_closed (fd_ring st)
    \<Longrightarrow> feed_step answers st (st\<lparr>fd_feeder := Feeder_Gone\<rparr>)"

subsection \<open>The sources\<close>

text \<open>\<open>FileSource::read_at\<close>: a seek and one read, which may be short.\<close>

definition file_answers :: "u8 list \<Rightarrow> nat \<Rightarrow> string + u8 list \<Rightarrow> bool" where
  "file_answers content pos res =
     (case res of
        Inl _ \<Rightarrow> True
      | Inr bs \<Rightarrow> bs = take (length bs) (drop pos content) \<and> length bs \<le> READ_BLOCK
                \<and> (bs = [] \<longrightarrow> length content \<le> pos))"

section \<open>What the element got\<close>

text \<open>The buffers of one generation, and whether one was refused.\<close>

fun delivered :: "nat \<Rightarrow> feed_event list \<Rightarrow> u8 list" where
  "delivered g [] = []"
| "delivered g (Pushed s off bs # es) = (if s = g then bs else []) @ delivered g es"
| "delivered g (_ # es) = delivered g es"

fun in_place :: "nat \<Rightarrow> nat \<Rightarrow> feed_event list \<Rightarrow> bool" where
  "in_place g p [] = True"
| "in_place g p (Pushed s off bs # es) =
     (if s = g then off = p \<and> in_place g (p + length bs) es else in_place g p es)"
| "in_place g p (_ # es) = in_place g p es"

lemma delivered_append: "delivered g (es @ fs) = delivered g es @ delivered g fs"
  by (induction es rule: delivered.induct [of _ g]) auto

lemma in_place_append:
  "in_place g p (es @ fs) \<longleftrightarrow> in_place g p es \<and> in_place g (p + length (delivered g es)) fs"
  by (induction g p es rule: in_place.induct) (auto simp: add.assoc)

section \<open>The invariant\<close>

definition is_slice :: "u8 list \<Rightarrow> nat \<Rightarrow> u8 list \<Rightarrow> bool" where
  "is_slice content off bs \<longleftrightarrow> bs = take (length bs) (drop off content)"

lemma slice_append:
  "is_slice content p (xs @ ys) \<longleftrightarrow> is_slice content p xs \<and> is_slice content (p + length xs) ys"
proof -
  let ?X = "take (length xs) (drop p content)" and ?Y = "take (length ys) (drop (p + length xs) content)"
  have split: "take (length (xs @ ys)) (drop p content) = ?X @ ?Y"
    by (simp add: take_add drop_drop add.commute)
  have "xs = ?X" if "xs @ ys = ?X @ ?Y"
  proof -
    have "length xs + length ys \<le> length (?X @ ?Y)" using that by (metis length_append order_refl)
    then have "length xs \<le> length content - p" by (cases "ys = []") auto
    then have "length ?X = length xs" by simp
    with that show ?thesis by (metis append_eq_append_conv)
  qed
  then show ?thesis unfolding is_slice_def split by (metis same_append_eq)
qed

lemma slice_Nil [simp]: "is_slice content p []"
  by (simp add: is_slice_def)

fun chain :: "u8 list \<Rightarrow> nat \<Rightarrow> (nat \<times> u8 list) list \<Rightarrow> bool" where
  "chain content p [] = True"
| "chain content p ((off, bs) # rest) =
     (off = p \<and> bs \<noteq> [] \<and> is_slice content off bs \<and> chain content (p + length bs) rest)"

abbreviation block_bytes :: "(nat \<times> u8 list) list \<Rightarrow> nat" where
  "block_bytes blocks \<equiv> sum_list (map (\<lambda>(_, bs). length bs) blocks)"

lemma chain_append:
  "chain content p (xs @ ys) \<longleftrightarrow> chain content p xs \<and> chain content (p + block_bytes xs) ys"
  by (induction content p xs rule: chain.induct) (auto simp: add.assoc)

definition next_taken :: "Feed \<Rightarrow> nat" where
  "next_taken st = fd_target st + fd_taken st"

definition ring_ok :: "u8 list \<Rightarrow> Feed \<Rightarrow> bool" where
  "ring_ok content st \<longleftrightarrow>
     (let r = fd_ring st in
      r_bytes r = block_bytes (r_blocks r) \<and> chain content (next_taken st) (r_blocks r)
    \<and> fd_my_gen st \<le> r_generation r
    \<and> (fd_my_gen st = r_generation r \<longrightarrow> fd_pos st = next_taken st + r_bytes r)
    \<and> (fd_my_gen st \<noteq> r_generation r \<longrightarrow>
         r_seek_to r = Some (fd_target st) \<and> r_blocks r = [] \<and> fd_taken st = 0 \<and> \<not> r_eos r)
    \<and> r_bytes r < RING_BYTES + READ_BLOCK
    \<and> (fd_reader st = Reader_Reads \<and> fd_my_gen st = r_generation r \<longrightarrow> r_bytes r < RING_BYTES)
    \<and> (r_eos r \<longrightarrow> fd_reader st \<noteq> Reader_Reads))"

fun stamp_of :: "feed_event \<Rightarrow> nat" where
  "stamp_of (Pushed s _ _) = s"
| "stamp_of (Refused s) = s"
| "stamp_of (Ended s) = s"

definition stamps_ok :: "Feed \<Rightarrow> bool" where
  "stamps_ok st \<longleftrightarrow>
     (let g = r_generation (fd_ring st) in
      (\<forall>s \<in> set (fd_stamped st) \<union> set (fd_commands st). s \<le> g)
    \<and> (\<forall>e \<in> set (fd_events st). stamp_of e \<le> g))"

fun phase_ok :: "u8 list \<Rightarrow> Ring \<Rightarrow> bool \<Rightarrow> nat \<Rightarrow> feeder_phase \<Rightarrow> bool" where
  "phase_ok content r seeking p (Feeder_Pushes s off bs n) =
     (n < length bs \<and> s \<le> r_generation r \<and> (\<not> seeking \<longrightarrow> s = r_generation r)
      \<and> (s = r_generation r \<longrightarrow> off + length bs = p \<and> is_slice content off bs))"
| "phase_ok content r seeking p (Feeder_Ends s) =
     (s \<le> r_generation r \<and> (\<not> seeking \<longrightarrow> s = r_generation r)
      \<and> (s = r_generation r \<and> \<not> r_failed r \<longrightarrow> r_eos r \<and> r_blocks r = []))"
| "phase_ok content r seeking p (Feeder_Got s) = (s \<le> r_generation r)"
| "phase_ok content r seeking p (Feeder_Holds s) = (s \<le> r_generation r)"
| "phase_ok content r seeking p Feeder_Idle = True"
| "phase_ok content r seeking p Feeder_Gone = True"

definition feeder_ok :: "u8 list \<Rightarrow> Feed \<Rightarrow> bool" where
  "feeder_ok content st = phase_ok content (fd_ring st) (fd_seeking st) (next_taken st) (fd_feeder st)"

text \<open>How far the element got: to the next block, or into the one being pushed.\<close>

definition reached :: "Feed \<Rightarrow> nat" where
  "reached st =
     (case fd_feeder st of
        Feeder_Pushes s off bs n \<Rightarrow> if s = r_generation (fd_ring st) then off + n else next_taken st
      | _ \<Rightarrow> next_taken st)"

definition out_ok :: "u8 list \<Rightarrow> Feed \<Rightarrow> bool" where
  "out_ok content st \<longleftrightarrow>
     (let g = r_generation (fd_ring st); d = delivered g (fd_events st) in
      Refused g \<notin> set (fd_events st) \<longrightarrow>
        is_slice content (fd_target st) d \<and> in_place g (fd_target st) (fd_events st)
        \<and> (fd_feeder st \<noteq> Feeder_Gone \<longrightarrow> fd_target st + length d = reached st))"

text \<open>After the end of a stream that did not fail, nothing of its generation is left anywhere.\<close>

definition ended_ok :: "Feed \<Rightarrow> bool" where
  "ended_ok st \<longleftrightarrow>
     (let r = fd_ring st; g = r_generation r in
      Ended g \<in> set (fd_events st) \<and> \<not> r_failed r \<longrightarrow>
        r_eos r \<and> r_blocks r = [] \<and> (\<forall>off bs n. fd_feeder st \<noteq> Feeder_Pushes g off bs n)
        \<and> (Refused g \<notin> set (fd_events st) \<longrightarrow>
             fd_target st + length (delivered g (fd_events st)) = next_taken st))"

definition feed_ok :: "u8 list \<Rightarrow> Feed \<Rightarrow> bool" where
  "feed_ok content st \<longleftrightarrow>
     ring_ok content st \<and> stamps_ok st \<and> feeder_ok content st \<and> out_ok content st \<and> ended_ok st"

definition eos_ok :: "u8 list \<Rightarrow> Feed \<Rightarrow> bool" where
  "eos_ok content st \<longleftrightarrow> (r_eos (fd_ring st) \<longrightarrow> length content \<le> fd_pos st)"

locale block_source =
  fixes content :: "u8 list" and answers :: "nat \<Rightarrow> string + u8 list \<Rightarrow> bool"
  assumes honest: "answers p (Inr bs) \<Longrightarrow> is_slice content p bs \<and> length bs \<le> READ_BLOCK"
begin

lemma ring_step:
  assumes "ring_ok content st" "feed_step answers st st'"
  shows "ring_ok content st'"
  using assms(2)
proof (cases rule: feed_step.cases)
  case (Bump offset)
  then show ?thesis using assms(1)
    by (auto simp: ring_ok_def seek_bump_def next_taken_def Let_def RING_BYTES_def)
next
  case Check
  then show ?thesis using assms(1)
    by (auto simp: ring_ok_def reader_check_def next_taken_def Let_def RING_BYTES_def)
next
  case (Store res)
  show ?thesis
  proof (cases res)
    case (Inr bs)
    then have "is_slice content (fd_pos st) bs" "length bs \<le> READ_BLOCK"
      using Store honest by blast+
    note bs = this
    consider "r_closed (fd_ring st)" | "r_generation (fd_ring st) \<noteq> fd_my_gen st" | "bs = []"
      | "\<not> r_closed (fd_ring st)" "r_generation (fd_ring st) = fd_my_gen st" "bs \<noteq> []" by blast
    then show ?thesis
    proof cases
      case 4
      then have "reader_store res st = st\<lparr>fd_ring := (fd_ring st)\<lparr>r_bytes := r_bytes (fd_ring st) + length bs,
            r_blocks := r_blocks (fd_ring st) @ [(fd_pos st, bs)]\<rparr>,
          fd_pos := fd_pos st + length bs, fd_reader := Reader_Waits\<rparr>"
        by (simp add: reader_store_def Inr Let_def)
      then show ?thesis using Store(1,2) 4 bs assms(1)
        by (simp add: ring_ok_def next_taken_def Let_def chain_append)
    qed (use Inr Store assms(1) in \<open>auto simp: ring_ok_def reader_store_def next_taken_def Let_def\<close>)
  qed (use Store assms(1) in \<open>auto simp: ring_ok_def reader_store_def next_taken_def Let_def\<close>)
next
  case (Take stamp)
  then show ?thesis using assms(1)
    by (cases "r_blocks (fd_ring st)")
      (auto simp: ring_ok_def feeder_take_def next_taken_def Let_def add.assoc)
qed (use assms(1) in \<open>auto simp: ring_ok_def need_stamp_def need_send_def seek_return_def hang_up_def
       feeder_push_def feeder_refused_def feeder_end_def next_taken_def Let_def\<close>)

end

lemma ring_head:
  "ring_ok content st \<Longrightarrow> r_blocks (fd_ring st) = (off, bs) # rest
    \<Longrightarrow> off = next_taken st \<and> bs \<noteq> [] \<and> is_slice content off bs"
  unfolding ring_ok_def Let_def by (metis chain.simps(2))

lemma ring_reads: "ring_ok content st \<Longrightarrow> fd_reader st = Reader_Reads \<Longrightarrow> \<not> r_eos (fd_ring st)"
  by (auto simp: ring_ok_def Let_def)

lemma phase_bump:
  "phase_ok content r seeking p x
    \<Longrightarrow> r_generation r' = r_generation r + 1 \<Longrightarrow> phase_ok content r' True p' x"
  by (cases x) auto

lemma phase_frame:
  "phase_ok content r seeking p x \<Longrightarrow> r_generation r' = r_generation r
    \<Longrightarrow> (r_failed r \<longrightarrow> r_failed r') \<Longrightarrow> (r_eos r \<and> r_blocks r = [] \<longrightarrow> r_eos r' \<and> r_blocks r' = [])
    \<Longrightarrow> phase_ok content r' seeking p x"
  by (cases x) auto

lemma feeder_step:
  assumes "ring_ok content st" "stamps_ok st" "feeder_ok content st" "feed_step answers st st'"
  shows "feeder_ok content st'"
  using assms(4)
proof (cases rule: feed_step.cases)
  case (Bump offset)
  then show ?thesis using phase_bump [OF assms(3) [unfolded feeder_ok_def]]
    by (simp add: feeder_ok_def seek_bump_def)
next
  case Return
  then show ?thesis using assms(3)
    by (cases "fd_feeder st") (simp_all add: feeder_ok_def seek_return_def feeder_busy_def)
next
  case Check
  have "phase_ok content ((fd_ring st)\<lparr>r_seek_to := None\<rparr>) (fd_seeking st) (next_taken st) (fd_feeder st)"
    using phase_frame [OF assms(3) [unfolded feeder_ok_def]] by simp
  then show ?thesis using assms(3) Check
    by (simp add: feeder_ok_def reader_check_def next_taken_def Let_def)
next
  case (Store res)
  have "\<not> r_eos (fd_ring st)" using ring_reads [OF assms(1)] Store by simp
  then have "phase_ok content r' (fd_seeking st) (next_taken st) (fd_feeder st)"
    if "r_generation r' = r_generation (fd_ring st)" "r_failed (fd_ring st) \<longrightarrow> r_failed r'" for r'
    using that phase_frame [OF assms(3) [unfolded feeder_ok_def]] by blast
  then show ?thesis using assms(3) Store
    by (simp add: feeder_ok_def reader_store_def next_taken_def Let_def split: sum.split)
next
  case (Take stamp)
  then have "stamp \<le> r_generation (fd_ring st)" using assms(3) by (simp add: feeder_ok_def)
  with Take show ?thesis
    by (cases "r_blocks (fd_ring st)")
      (auto simp: feeder_ok_def feeder_take_def next_taken_def Let_def dest: ring_head [OF assms(1)])
next
  case (Push stamp off bs sent)
  then show ?thesis using assms(3)
    by (auto simp: feeder_ok_def feeder_push_def next_taken_def Let_def)
next
  case (Receive stamp rest)
  then show ?thesis using assms(2) by (simp add: feeder_ok_def stamps_ok_def Let_def)
next
  case Hang_Up
  have "phase_ok content ((fd_ring st)\<lparr>r_closed := True\<rparr>) (fd_seeking st) (next_taken st) (fd_feeder st)"
    using phase_frame [OF assms(3) [unfolded feeder_ok_def]] by simp
  then show ?thesis using Hang_Up by (simp add: feeder_ok_def hang_up_def next_taken_def)
qed (use assms(3) in \<open>simp_all add: feeder_ok_def need_stamp_def need_send_def
       feeder_refused_def feeder_end_def next_taken_def Let_def\<close>)

lemma stamps_step:
  assumes "stamps_ok st" "feeder_ok content st" "feed_step answers st st'"
  shows "stamps_ok st'"
  using assms(3)
proof (cases rule: feed_step.cases)
  case (Take stamp)
  then show ?thesis using assms(1)
    by (cases "r_blocks (fd_ring st)") (auto simp: stamps_ok_def feeder_take_def Let_def)
next
  case (Store res)
  then show ?thesis using assms(1) by (auto simp: stamps_ok_def reader_store_def Let_def split: sum.splits)
next
  case (Send stamp)
  then show ?thesis using assms(1) by (auto simp: stamps_ok_def need_send_def Let_def dest: subsetD [OF set_remove1_subset])
qed (use assms(1,2) in \<open>auto simp: stamps_ok_def feeder_ok_def need_stamp_def seek_bump_def seek_return_def hang_up_def
       reader_check_def feeder_push_def feeder_refused_def feeder_end_def Let_def intro: le_SucI\<close>)

lemma delivered_none:
  "\<forall>e \<in> set es. stamp_of e < g \<Longrightarrow> delivered g es = [] \<and> in_place g p es \<and> Refused g \<notin> set es \<and> Ended g \<notin> set es"
  by (induction g es rule: delivered.induct) auto

lemma out_frame:
  assumes "out_ok content st" "fd_events st' = fd_events st" "fd_target st' = fd_target st"
    and "r_generation (fd_ring st') = r_generation (fd_ring st)"
    and "fd_feeder st' = Feeder_Gone \<or> fd_feeder st \<noteq> Feeder_Gone \<and> reached st' = reached st"
  shows "out_ok content st'"
  using assms by (auto simp: out_ok_def Let_def)

text \<open>An accepted buffer of the current generation continues what was delivered.\<close>

lemma out_push:
  assumes "out_ok content st" "feeder_ok content st" "fd_feeder st = Feeder_Pushes stamp off bs sent"
  shows "out_ok content (feeder_push stamp off bs sent st)"
proof -
  let ?g = "r_generation (fd_ring st)" and ?n = "min (push_chunk (length bs)) (length bs - sent)"
  let ?st = "feeder_push stamp off bs sent st" and ?new = "take ?n (drop sent bs)"
  have sel: "fd_events ?st = fd_events st @ [Pushed stamp (off + sent) ?new]" "fd_target ?st = fd_target st"
    "fd_ring ?st = fd_ring st" "next_taken ?st = next_taken st"
    by (simp_all add: feeder_push_def Let_def next_taken_def)
  have sent: "sent < length bs" using assms(2,3) by (simp add: feeder_ok_def)
  show ?thesis
  proof (cases "stamp = ?g")
    case True
    have end_at: "off + length bs = next_taken st" and slice: "is_slice content off bs"
      using assms(2,3) True by (simp_all add: feeder_ok_def)
    have "is_slice content off (take sent bs @ (?new @ drop ?n (drop sent bs)))"
      using slice by (simp only: append_take_drop_id)
    then have "is_slice content (off + length (take sent bs)) ?new" unfolding slice_append by blast
    then have "is_slice content (off + sent) ?new" using sent by simp
    moreover have r: "reached st = off + sent" using assms(3) True by (simp add: reached_def)
    moreover have "reached ?st = off + sent + length ?new"
    proof (cases "sent + ?n < length bs")
      case True
      then have "fd_feeder ?st = Feeder_Pushes stamp off bs (sent + ?n)" by (simp add: feeder_push_def Let_def)
      then show ?thesis using \<open>stamp = ?g\<close> sel(3) by (simp add: reached_def)
    next
      case False
      then have "fd_feeder ?st = Feeder_Idle" "length ?new = length bs - sent"
        by (auto simp: feeder_push_def Let_def)
      then show ?thesis using end_at sel(4) sent by (simp add: reached_def)
    qed
    ultimately show ?thesis
      using assms(1,3)
        by (simp add: out_ok_def Let_def sel delivered_append in_place_append slice_append flip: True)
  next
    case False
    have "reached st = next_taken st" using assms(3) False by (simp add: reached_def)
    moreover have "reached ?st = next_taken st"
      using False by (simp add: reached_def feeder_push_def next_taken_def Let_def)
    ultimately show ?thesis
      using assms(1,3) False by (simp add: out_ok_def Let_def sel delivered_append in_place_append)
  qed
qed

lemma out_step:
  assumes "ring_ok content st" "stamps_ok st" "feeder_ok content st" "out_ok content st" "feed_step answers st st'"
  shows "out_ok content st'"
  using assms(5)
proof (cases rule: feed_step.cases)
  case (Bump offset)
  let ?g = "r_generation (fd_ring st) + 1"
  have "\<forall>e \<in> set (fd_events st). stamp_of e < ?g" using assms(2) by (auto simp: stamps_ok_def Let_def)
  from delivered_none [OF this] have "delivered ?g (fd_events st) = []" "in_place ?g offset (fd_events st)" by simp_all
  moreover have "reached st' = offset"
    using Bump assms(3)
    by (cases "fd_feeder st") (auto simp: reached_def seek_bump_def next_taken_def feeder_ok_def)
  ultimately show ?thesis using Bump by (simp add: out_ok_def Let_def seek_bump_def)
next
  case (Take stamp)
  have "reached st' = reached st"
    using Take ring_head [OF assms(1)]
    by (cases "r_blocks (fd_ring st)") (auto simp: reached_def feeder_take_def next_taken_def Let_def)
  then show ?thesis
    using Take by (intro out_frame [OF assms(4)]; cases "r_blocks (fd_ring st)") (auto simp: feeder_take_def Let_def)
next
  case (Push stamp off bs sent)
  then show ?thesis using out_push [OF assms(4,3)] by simp
next
  case (Refuse stamp off bs sent)
  then show ?thesis using assms(4)
    by (auto simp: out_ok_def Let_def feeder_refused_def reached_def next_taken_def delivered_append in_place_append)
next
  case (End_Of_Stream stamp)
  then show ?thesis using assms(4)
    by (auto simp: out_ok_def Let_def feeder_end_def reached_def next_taken_def delivered_append in_place_append)
next
  case (Store res)
  then show ?thesis
    by (intro out_frame [OF assms(4)]) (auto simp: reader_store_def reached_def next_taken_def Let_def split: sum.split feeder_phase.split)
next
  case Check
  then show ?thesis
    by (intro out_frame [OF assms(4)]) (auto simp: reader_check_def reached_def next_taken_def Let_def split: feeder_phase.split)
qed (rule out_frame [OF assms(4)]; simp add: need_stamp_def need_send_def seek_return_def hang_up_def
       reached_def next_taken_def split: feeder_phase.split)+

lemma ended_frame:
  assumes "ended_ok st" "fd_events st' = fd_events st" "fd_target st' = fd_target st" "fd_taken st' = fd_taken st"
    and "r_generation (fd_ring st') = r_generation (fd_ring st)" "r_failed (fd_ring st) \<longrightarrow> r_failed (fd_ring st')"
    and "r_eos (fd_ring st) \<and> r_blocks (fd_ring st) = [] \<longrightarrow> r_eos (fd_ring st') \<and> r_blocks (fd_ring st') = []"
    and "\<And>g off bs n. fd_feeder st' = Feeder_Pushes g off bs n \<Longrightarrow> fd_feeder st = Feeder_Pushes g off bs n"
  shows "ended_ok st'"
  using assms unfolding ended_ok_def Let_def next_taken_def by metis

lemma ended_step:
  assumes "feed_ok content st" "feed_step answers st st'"
  shows "ended_ok st'"
proof -
  have ok: "ring_ok content st" "stamps_ok st" "feeder_ok content st" "out_ok content st" "ended_ok st"
    using assms(1) by (simp_all add: feed_ok_def)
  from assms(2) show ?thesis
  proof (cases rule: feed_step.cases)
    case (Bump offset)
    let ?g = "r_generation (fd_ring st) + 1"
    have "\<forall>e \<in> set (fd_events st). stamp_of e < ?g" using ok(2) by (auto simp: stamps_ok_def Let_def)
    from delivered_none [OF this] have "Ended ?g \<notin> set (fd_events st)" by simp
    then show ?thesis using Bump by (simp add: ended_ok_def Let_def seek_bump_def)
  next
    case (Store res)
    have "\<not> r_eos (fd_ring st)" using ring_reads [OF ok(1)] Store by simp
    then show ?thesis
      using Store by (intro ended_frame [OF ok(5)]) (auto simp: reader_store_def Let_def split: sum.splits if_splits)
  next
    case Check
    then show ?thesis
      by (intro ended_frame [OF ok(5)]) (auto simp: reader_check_def Let_def split: if_splits)
  next
    case (Take stamp)
    show ?thesis
    proof (cases "r_blocks (fd_ring st)")
      case Nil
      then show ?thesis
        using Take by (intro ended_frame [OF ok(5)]) (auto simp: feeder_take_def Let_def split: if_splits)
    next
      case (Cons b rest)
      obtain off bs where b: "b = (off, bs)" by (cases b)
      have "\<not> (Ended (r_generation (fd_ring st)) \<in> set (fd_events st) \<and> \<not> r_failed (fd_ring st))"
        using ok(5) Cons by (auto simp: ended_ok_def Let_def)
      then show ?thesis using Take Cons b by (auto simp: ended_ok_def feeder_take_def Let_def)
    qed
  next
    case (Push stamp off bs sent)
    show ?thesis
    proof (cases "stamp = r_generation (fd_ring st)")
      case True
      then have "\<not> (Ended (r_generation (fd_ring st)) \<in> set (fd_events st) \<and> \<not> r_failed (fd_ring st))"
        using ok(5) Push by (auto simp: ended_ok_def Let_def)
      then show ?thesis using Push by (auto simp: ended_ok_def feeder_push_def Let_def)
    next
      case False
      then show ?thesis
        using ok(5) Push by (auto simp: ended_ok_def feeder_push_def Let_def delivered_append next_taken_def split: if_splits)
    qed
  next
    case (Refuse stamp off bs sent)
    then show ?thesis
      using ok(5) by (auto simp: ended_ok_def feeder_refused_def Let_def delivered_append next_taken_def)
  next
    case (End_Of_Stream stamp)
    have "r_eos (fd_ring st) \<and> r_blocks (fd_ring st) = []"
      if "stamp = r_generation (fd_ring st)" "\<not> r_failed (fd_ring st)"
      using ok(3) End_Of_Stream that by (simp add: feeder_ok_def)
    moreover have "fd_target st + length (delivered (r_generation (fd_ring st)) (fd_events st)) = next_taken st"
      if "Refused (r_generation (fd_ring st)) \<notin> set (fd_events st)"
      using ok(4) End_Of_Stream that by (simp add: out_ok_def Let_def reached_def)
    ultimately show ?thesis
      using ok(5) End_Of_Stream by (auto simp: ended_ok_def feeder_end_def Let_def delivered_append next_taken_def)
  qed (rule ended_frame [OF ok(5)]; simp add: need_stamp_def need_send_def seek_return_def hang_up_def)+
qed

lemma feed_init: "feed_ok content feed_new"
  by (simp add: feed_ok_def feed_new_def ring_ok_def stamps_ok_def feeder_ok_def out_ok_def ended_ok_def reached_def
      next_taken_def Let_def RING_BYTES_def)

context block_source begin

lemma feed_ok_step: "feed_ok content st \<Longrightarrow> feed_step answers st st' \<Longrightarrow> feed_ok content st'"
  unfolding feed_ok_def
  by (meson ended_step feed_ok_def feeder_step out_step ring_step stamps_step)

end

text \<open>A source that answers with no bytes only at its end.\<close>

locale whole_source = block_source +
  assumes complete: "answers p (Inr []) \<Longrightarrow> length content \<le> p"
begin

lemma eos_step:
  assumes "feed_ok content st" "eos_ok content st" "feed_step answers st st'"
  shows "eos_ok content st'"
  using assms(3)
proof (cases rule: feed_step.cases)
  case Check
  have "fd_my_gen st \<noteq> r_generation (fd_ring st) \<Longrightarrow> \<not> r_eos (fd_ring st)"
    using assms(1) by (simp add: feed_ok_def ring_ok_def Let_def)
  then show ?thesis using Check assms(2) by (auto simp: eos_ok_def reader_check_def Let_def)
next
  case (Store res)
  then have "\<not> r_eos (fd_ring st)" using ring_reads [of content st] assms(1) by (simp add: feed_ok_def)
  then show ?thesis
    using Store complete by (auto simp: eos_ok_def reader_store_def Let_def split: sum.splits if_splits)
next
  case (Take stamp)
  then show ?thesis using assms(2)
    by (cases "r_blocks (fd_ring st)") (auto simp: eos_ok_def feeder_take_def Let_def)
qed (use assms(2) in \<open>auto simp: eos_ok_def need_stamp_def need_send_def seek_bump_def seek_return_def hang_up_def
       feeder_push_def feeder_refused_def feeder_end_def Let_def\<close>)

end

sublocale block_source < feed: guarded_system "\<lambda>st. st = feed_new" "feed_step answers" "feed_ok content"
  by unfold_locales (auto intro: feed_init feed_ok_step)

sublocale whole_source < whole_feed: guarded_system "\<lambda>st. st = feed_new" "feed_step answers"
    "\<lambda>st. feed_ok content st \<and> eos_ok content st"
proof
  fix st show "st = feed_new \<Longrightarrow> feed_ok content st \<and> eos_ok content st"
    using feed_init [of content] by (simp add: eos_ok_def) (simp add: feed_new_def)
next
  fix st st'
  show "feed_ok content st \<and> eos_ok content st \<Longrightarrow> feed_step answers st st' \<Longrightarrow> feed_ok content st' \<and> eos_ok content st'"
    using feed_ok_step eos_step by blast
qed

interpretation ring_file: whole_source content "file_answers content" for content
  by unfold_locales (auto simp: file_answers_def is_slice_def)

context whole_source begin

lemma end_is_complete:
  assumes "feed_ok content st" "eos_ok content st" "r_generation (fd_ring st) = g"
    and "Ended g \<in> set (fd_events st)" "Refused g \<notin> set (fd_events st)" "\<not> r_failed (fd_ring st)"
  shows "delivered g (fd_events st) = drop (fd_target st) content"
proof -
  let ?d = "delivered g (fd_events st)"
  have e: "r_eos (fd_ring st)" "r_blocks (fd_ring st) = []" "fd_target st + length ?d = next_taken st"
    using assms by (auto simp: feed_ok_def ended_ok_def Let_def)
  have "fd_pos st = next_taken st"
    using assms(1) e by (auto simp: feed_ok_def ring_ok_def Let_def)
  then have "length content \<le> fd_target st + length ?d" using assms(2) e by (simp add: eos_ok_def)
  moreover have "is_slice content (fd_target st) ?d" using assms(1,3,5) by (simp add: feed_ok_def out_ok_def Let_def)
  ultimately show ?thesis unfolding is_slice_def by (simp add: take_all)
qed

end

section \<open>Letting go\<close>

fun reader_rank :: "reader_phase \<Rightarrow> nat" where
  "reader_rank Reader_Gone = 0"
| "reader_rank _ = 1"

fun feeder_rank :: "feeder_phase \<Rightarrow> nat" where
  "feeder_rank Feeder_Gone = 0"
| "feeder_rank (Feeder_Holds _) = 1"
| "feeder_rank (Feeder_Got _) = 2"
| "feeder_rank Feeder_Idle = 3"
| "feeder_rank (Feeder_Ends _) = 4"
| "feeder_rank (Feeder_Pushes _ _ bs n) = 4 + (length bs - n)"

definition rank :: "Feed \<Rightarrow> nat" where
  "rank st = reader_rank (fd_reader st) + feeder_rank (fd_feeder st)"

lemma push_chunk_pos: "0 < push_chunk n"
  by (simp add: push_chunk_def)

lemma push_rank:
  assumes "fd_feeder st = Feeder_Pushes stamp off bs sent" "sent < length bs"
  shows "rank (feeder_push stamp off bs sent st) < rank st"
  using assms push_chunk_pos [of "length bs"] by (auto simp: rank_def feeder_push_def Let_def)

lemma closed_rank:
  assumes "feed_ok content st" "r_closed (fd_ring st)" "feed_step answers st st'"
  shows "r_closed (fd_ring st') \<and> rank st' \<le> rank st"
  using assms(3)
proof (cases rule: feed_step.cases)
  case (Push stamp off bs sent)
  then have "sent < length bs" using assms(1) by (simp add: feed_ok_def feeder_ok_def)
  then show ?thesis using push_rank [of st stamp off bs sent] Push assms(2)
    by (auto simp: feeder_push_def Let_def)
next
  case (Store res)
  then show ?thesis using assms(2) by (simp add: reader_store_def rank_def Let_def)
next
  case (Take stamp)
  then show ?thesis using assms(2) by (simp add: feeder_take_def rank_def Let_def)
next
  case Check
  then show ?thesis using assms(2) by (simp add: reader_check_def rank_def Let_def)
qed (use assms(2) in \<open>auto simp: rank_def need_stamp_def need_send_def seek_bump_def seek_return_def hang_up_def
       feeder_refused_def feeder_end_def\<close>)

lemma closed_moves:
  assumes "feed_ok content st" "r_closed (fd_ring st)" "rank st \<noteq> 0" "\<And>p. \<exists>res. answers p res"
  shows "\<exists>st'. feed_step answers st st' \<and> rank st' < rank st"
proof (cases "fd_reader st")
  case Reader_Waits
  then have "rank (reader_check st) < rank st" using assms(2) by (simp add: reader_check_def rank_def Let_def)
  then show ?thesis using feed_step.Check [OF Reader_Waits] by blast
next
  case Reader_Reads
  obtain res where "answers (fd_pos st) res" using assms(4) by blast
  moreover have "rank (reader_store res st) < rank st"
    using Reader_Reads assms(2) by (simp add: reader_store_def rank_def Let_def)
  ultimately show ?thesis using feed_step.Store [OF Reader_Reads] by blast
next
  case Reader_Gone
  show ?thesis
  proof (cases "fd_feeder st")
    case Feeder_Idle
    show ?thesis
    proof (cases "fd_commands st")
      case Nil
      then show ?thesis using feed_step.Disconnected [OF Feeder_Idle Nil assms(2)] Feeder_Idle
        by (intro exI conjI) (auto simp: rank_def)
    next
      case (Cons stamp rest)
      then show ?thesis using feed_step.Receive [OF Feeder_Idle Cons] Feeder_Idle
        by (intro exI conjI) (auto simp: rank_def)
    qed
  next
    case (Feeder_Got stamp)
    then show ?thesis using feed_step.Lock [OF Feeder_Got]
      by (intro exI conjI) (auto simp: rank_def)
  next
    case (Feeder_Holds stamp)
    then have "rank (feeder_take stamp st) < rank st" using assms(2) by (simp add: rank_def feeder_take_def Let_def)
    then show ?thesis using feed_step.Take [OF Feeder_Holds] by blast
  next
    case (Feeder_Pushes stamp off bs sent)
    then have "rank (feeder_refused stamp st) < rank st" by (simp add: rank_def feeder_refused_def)
    then show ?thesis using feed_step.Refuse [OF Feeder_Pushes] by blast
  next
    case (Feeder_Ends stamp)
    then have "rank (feeder_end stamp st) < rank st" by (simp add: rank_def feeder_end_def)
    then show ?thesis using feed_step.End_Of_Stream [OF Feeder_Ends] by blast
  next
    case Feeder_Gone
    then show ?thesis using Reader_Gone assms(3) by (simp add: rank_def)
  qed
qed

section \<open>A sample run\<close>

text \<open>A file of three bytes: the element asks, seeks to the second byte, asks again and gets it.\<close>

definition sample_asked :: Feed where
  "sample_asked = need_send 1 (need_stamp (seek_return (seek_bump 1 (need_send 0 (need_stamp feed_new)))))"

definition sample_read :: Feed where
  "sample_read = reader_store (Inr []) (reader_check (reader_store (Inr [2, 3]) (reader_check sample_asked)))"

definition sample_drop :: Feed where
  "sample_drop = (let st = sample_read\<lparr>fd_commands := [1], fd_feeder := Feeder_Got 0\<rparr> in
     feeder_take 0 (st\<lparr>fd_feeder := Feeder_Holds 0\<rparr>))"

definition sample_pushing :: Feed where
  "sample_pushing = (let st = sample_drop\<lparr>fd_commands := [], fd_feeder := Feeder_Got 1\<rparr> in
     feeder_take 1 (st\<lparr>fd_feeder := Feeder_Holds 1\<rparr>))"

definition sample_pushed :: Feed where
  "sample_pushed = feeder_push 1 1 [2, 3] 1 (feeder_push 1 1 [2, 3] 0 sample_pushing)"

definition sample_ended :: Feed where
  "sample_ended = (let st = need_send 1 (need_stamp sample_pushed)\<lparr>fd_commands := [], fd_feeder := Feeder_Got 1\<rparr> in
     feeder_end 1 (feeder_take 1 (st\<lparr>fd_feeder := Feeder_Holds 1\<rparr>)))"

lemmas sample_states = sample_ended_def sample_pushed_def sample_pushing_def sample_drop_def sample_read_def
  sample_asked_def
lemmas feed_ops = need_stamp_def need_send_def seek_bump_def seek_return_def reader_check_def reader_store_def
  feeder_take_def feeder_push_def feeder_end_def push_chunk_def feeder_busy_def feed_new_def Let_def
  RING_BYTES_def READ_BLOCK_def MAX_PUSH_def file_answers_def

lemma sample_reachable:
  "reachable (\<lambda>st. st = feed_new) (feed_step (file_answers [1, 2, 3])) sample_ended"
  unfolding sample_states Let_def
  by ((rule reach_step [rotated], (rule feed_step.intros; simp add: feed_ops))+) (simp add: reach_init)

section \<open>Properties\<close>

text \<open>C31. The pipeline gets the bytes of the file, in order, from where it asked to start. With a source whose
  answers are bytes of the file at the position asked, and whatever the threads and the element do: the
  buffers of the current generation sit at consecutive offsets and are the file from the target of the last
  seek on, as long as the element refused none of them; once a seek has returned, no buffer from before it
  is pushed; and the ring never holds more than its size and one read.\<close>

theorem ring_in_order:
  assumes "\<And>p bs. answers p (Inr bs) \<Longrightarrow> bs = take (length bs) (drop p content) \<and> length bs \<le> READ_BLOCK"
    and "reachable (\<lambda>st. st = feed_new) (feed_step answers) st"
    and "g = r_generation (fd_ring st)"
  shows "(Refused g \<notin> set (fd_events st) \<longrightarrow>
            (let d = delivered g (fd_events st) in
             d = take (length d) (drop (fd_target st) content) \<and> in_place g (fd_target st) (fd_events st)))
       \<and> (\<not> fd_seeking st \<longrightarrow> fd_feeder st = Feeder_Pushes s off bs n \<longrightarrow> s = g)
       \<and> r_bytes (fd_ring st) < RING_BYTES + READ_BLOCK"
proof -
  have "block_source content answers" using assms(1) by unfold_locales (auto simp: is_slice_def)
  from block_source.feed_ok_step [OF this] have step: "feed_ok content st \<Longrightarrow> feed_step answers st st' \<Longrightarrow> feed_ok content st'" for st st' .
  have "guarded_system (\<lambda>st. st = feed_new) (feed_step answers) (feed_ok content)"
    by unfold_locales (auto intro: feed_init step)
  from guarded_system.reachable_inv [OF this assms(2)] have ok: "feed_ok content st" .
  have "(let d = delivered g (fd_events st) in
      d = take (length d) (drop (fd_target st) content) \<and> in_place g (fd_target st) (fd_events st))"
    if "Refused g \<notin> set (fd_events st)"
    using ok that assms(3) by (simp add: feed_ok_def out_ok_def is_slice_def Let_def)
  moreover have "s = g" if "\<not> fd_seeking st" "fd_feeder st = Feeder_Pushes s off bs n"
    using ok that assms(3) by (simp add: feed_ok_def feeder_ok_def)
  moreover have "r_bytes (fd_ring st) < RING_BYTES + READ_BLOCK"
    using ok by (simp add: feed_ok_def ring_ok_def Let_def)
  ultimately show ?thesis by blast
qed

text \<open>Witness of C31: the sample run, after its end of stream.\<close>

theorem ring_in_order_witness:
  "delivered 1 (fd_events sample_ended) = take (length (delivered 1 (fd_events sample_ended))) (drop 1 [1, 2, 3])
   \<and> in_place 1 1 (fd_events sample_ended) \<and> length (fd_events sample_ended) = 3"
proof -
  have s: "r_generation (fd_ring sample_ended) = 1" "fd_target sample_ended = 1"
    "Refused 1 \<notin> set (fd_events sample_ended)" "length (fd_events sample_ended) = 3"
    by (simp_all add: sample_states feed_ops)
  have honest: "bs = take (length bs) (drop p [1, 2, 3]) \<and> length bs \<le> READ_BLOCK"
    if "file_answers [1, 2, 3] p (Inr bs)" for p bs using that by (simp add: file_answers_def)
  show ?thesis using ring_in_order [OF honest sample_reachable s(1) [symmetric]] s by (simp add: Let_def)
qed

text \<open>The end of a stream is the end of the file. When the source is a local file that did not fail, and the
  element refused no buffer and got the end of the current generation, it got everything from the target
  of the last seek to the end of the file.\<close>

theorem ring_completes:
  assumes "reachable (\<lambda>st. st = feed_new) (feed_step (file_answers content)) st"
    and "g = r_generation (fd_ring st)" and "Ended g \<in> set (fd_events st)"
    and "Refused g \<notin> set (fd_events st)" and "\<not> r_failed (fd_ring st)"
  shows "delivered g (fd_events st) = drop (fd_target st) content"
  using ring_file.whole_feed.reachable_inv [OF assms(1)] assms(2-5)
  by (intro ring_file.end_is_complete) auto

text \<open>Witness: the sample run.\<close>

theorem ring_completes_witness:
  "delivered 1 (fd_events sample_ended) = [2, 3]"
proof -
  have s: "1 = r_generation (fd_ring sample_ended)" "Ended 1 \<in> set (fd_events sample_ended)"
    "Refused 1 \<notin> set (fd_events sample_ended)" "\<not> r_failed (fd_ring sample_ended)" "fd_target sample_ended = 1"
    by (simp_all add: sample_states feed_ops)
  show ?thesis using ring_completes [OF sample_reachable s(1-4)] s(5) by simp
qed

text \<open>C32. Nothing leaks. Once the element is gone, as long as a thread is left one of them can move towards its
  end, and no step of anything moves away from it: both threads return, and the reader gives its source
  back.\<close>

theorem ring_lets_go:
  assumes "reachable (\<lambda>st. st = feed_new) (feed_step (file_answers content)) st" and "r_closed (fd_ring st)"
  shows "(rank st = 0 \<longleftrightarrow> fd_reader st = Reader_Gone \<and> fd_feeder st = Feeder_Gone)
       \<and> (rank st = 0 \<or> (\<exists>st'. feed_step (file_answers content) st st' \<and> rank st' < rank st))
       \<and> (feed_step (file_answers content) st st'' \<longrightarrow> r_closed (fd_ring st'') \<and> rank st'' \<le> rank st)"
proof (intro conjI)
  have ok: "feed_ok content st" using ring_file.feed.reachable_inv [OF assms(1)] .
  show "rank st = 0 \<longleftrightarrow> fd_reader st = Reader_Gone \<and> fd_feeder st = Feeder_Gone"
    by (cases "fd_reader st"; cases "fd_feeder st") (auto simp: rank_def)
  have "\<exists>res. file_answers content p res" for p by (rule exI [of _ "Inl []"]) (simp add: file_answers_def)
  then show "rank st = 0 \<or> (\<exists>st'. feed_step (file_answers content) st st' \<and> rank st' < rank st)"
    using closed_moves [OF ok assms(2), of "file_answers content"] by blast
  show "feed_step (file_answers content) st st'' \<longrightarrow> r_closed (fd_ring st'') \<and> rank st'' \<le> rank st"
    using closed_rank [OF ok assms(2)] by blast
qed

text \<open>Witness of C32: the element goes away after the sample run.\<close>

theorem ring_lets_go_witness:
  "\<exists>st'. feed_step (file_answers [1, 2, 3]) (hang_up sample_ended) st' \<and> rank st' < rank (hang_up sample_ended)"
proof -
  have "reachable (\<lambda>st. st = feed_new) (feed_step (file_answers [1, 2, 3])) (hang_up sample_ended)"
    using reach_step [OF sample_reachable feed_step.Hang_Up] .
  moreover have "r_closed (fd_ring (hang_up sample_ended))" by (simp add: hang_up_def)
  ultimately have "rank (hang_up sample_ended) = 0
      \<or> (\<exists>st'. feed_step (file_answers [1, 2, 3]) (hang_up sample_ended) st' \<and> rank st' < rank (hang_up sample_ended))"
    using ring_lets_go by blast
  moreover have "rank (hang_up sample_ended) \<noteq> 0" by (simp add: rank_def hang_up_def sample_states feed_ops)
  ultimately show ?thesis by blast
qed

end
