(* ===== verification/Byte_Plane.thy ===== *)
theory Byte_Plane
  imports Prefetch_Ring
begin

text \<open>
  The byte plane: a read lease of \<open>crates/kahawai-hub/src/leases.rs\<close> and the loop that serves it, the same in
  \<open>Lease::local_guarded\<close> and in \<open>crates/kahawai-mediahost/src/serve.rs\<close>. All clones of a lease share one
  channel of requests and one of chunks; \<open>read_range\<close> spawns a task per read, the tasks take turns by the
  lock of the receiving end, and each hands what it gets to its consumer, who may stop listening. The
  channels are bounded, a send waits for room. One operation per suspension point, so any interleaving is a
  path of \<open>plane_step\<close>. The file is \<open>content\<close>, of which \<open>size_at_open\<close> bytes were there when it was opened; how much a
  read of the file gives is open, and opening, admission, seeking and reading may fail. A position past
  2 ^ 64 does not arise: the callers bound a read by the size of the file.
\<close>

section \<open>Definitions\<close>

definition LEASE_BLOCK :: nat where "LEASE_BLOCK = 4 * 1024 * 1024"
definition CHUNK :: nat where "CHUNK = 256 * 1024"

definition REQUEST_ROOM :: nat where "REQUEST_ROOM = 4"
definition CHUNK_ROOM :: nat where "CHUNK_ROOM = 8"
definition OUT_ROOM :: nat where "OUT_ROOM = 8"

text \<open>\<open>ByteChunk\<close>, by what its fields say: an error, the end of a request, or data.\<close>

datatype chunk = Data nat "u8 list" | Eof nat | Failed string

datatype item = Item_Data "u8 list" | Item_Error string

datatype server_phase = Server_Opening | Server_Idle | Serving nat nat | Server_Gone

datatype read_phase =
    Read_Unstarted
  | Read_Queued
  | Read_Asking nat bool
  | Read_Receiving nat nat nat bool
  | Read_Sending nat nat nat "u8 list"
  | Read_Erring string
  | Read_Done

record ReadTask =
  rt_offset :: nat
  rt_len :: nat
  rt_phase :: read_phase
  rt_out :: "item list"
  rt_got :: "item list"
  rt_dropped :: bool

record Plane =
  bp_requests :: "(nat \<times> nat) list"
  bp_chunks :: "chunk list"
  bp_server :: server_phase
  bp_lock :: "nat option"
  bp_reads :: "nat \<Rightarrow> ReadTask"

definition plane_new :: Plane where
  "plane_new = \<lparr>bp_requests = [], bp_chunks = [], bp_server = Server_Opening, bp_lock = None,
     bp_reads = (\<lambda>_. \<lparr>rt_offset = 0, rt_len = 0, rt_phase = Read_Unstarted, rt_out = [], rt_got = [],
                      rt_dropped = False\<rparr>)\<rparr>"

definition set_read :: "nat \<Rightarrow> ReadTask \<Rightarrow> Plane \<Rightarrow> Plane" where
  "set_read r t st = st\<lparr>bp_reads := (bp_reads st)(r := t)\<rparr>"

definition set_phase :: "nat \<Rightarrow> read_phase \<Rightarrow> Plane \<Rightarrow> Plane" where
  "set_phase r p st = set_read r ((bp_reads st r)\<lparr>rt_phase := p\<rparr>) st"

definition finish :: "nat \<Rightarrow> Plane \<Rightarrow> Plane" where
  "finish r st = (set_phase r Read_Done st)\<lparr>bp_lock := None\<rparr>"

definition emit :: "nat \<Rightarrow> item \<Rightarrow> Plane \<Rightarrow> Plane" where
  "emit r i st = set_read r ((bp_reads st r)\<lparr>rt_out := rt_out (bp_reads st r) @ [i]\<rparr>) st"

subsection \<open>The server\<close>

definition MAX_OFFSET :: nat where "MAX_OFFSET = 2 ^ 64 - 1"

definition server_receive :: "nat \<Rightarrow> nat \<times> nat \<Rightarrow> (nat \<times> nat) list \<Rightarrow> Plane \<Rightarrow> Plane" where
  "server_receive file_size req rest st =
     (let (offset, len) = req in
      st\<lparr>bp_requests := rest,
         bp_server := Serving (min offset file_size) (min (min (offset + len) MAX_OFFSET) file_size)\<rparr>)"

definition server_send :: "u8 list \<Rightarrow> nat \<Rightarrow> nat \<Rightarrow> Plane \<Rightarrow> Plane" where
  "server_send bs cur stop st =
     st\<lparr>bp_chunks := bp_chunks st @ [Data cur bs], bp_server := Serving (cur + length bs) stop\<rparr>"

definition server_finish :: "nat \<Rightarrow> Plane \<Rightarrow> Plane" where
  "server_finish cur st = st\<lparr>bp_chunks := bp_chunks st @ [Eof cur], bp_server := Server_Idle\<rparr>"

definition server_fail :: "string option \<Rightarrow> Plane \<Rightarrow> Plane" where
  "server_fail why st =
     st\<lparr>bp_chunks := bp_chunks st @ (case why of Some e \<Rightarrow> [Failed e] | None \<Rightarrow> []), bp_server := Server_Gone\<rparr>"

subsection \<open>A read\<close>

definition read_start :: "nat \<Rightarrow> nat \<Rightarrow> nat \<Rightarrow> Plane \<Rightarrow> Plane" where
  "read_start r offset len st =
     set_read r ((bp_reads st r)\<lparr>rt_offset := offset, rt_len := len, rt_phase := Read_Queued\<rparr>) st"

definition read_lock :: "nat \<Rightarrow> Plane \<Rightarrow> Plane" where
  "read_lock r st = (set_phase r (Read_Asking (rt_offset (bp_reads st r)) False) st)\<lparr>bp_lock := Some r\<rparr>"

definition rt_end :: "ReadTask \<Rightarrow> nat" where
  "rt_end t = rt_offset t + rt_len t"

text \<open>The head of the loop; a request is sent when there is room for it, and fails when the server is gone.\<close>

definition wants_more :: "ReadTask \<Rightarrow> nat \<Rightarrow> bool \<Rightarrow> bool" where
  "wants_more t cur gone \<longleftrightarrow> cur < rt_end t \<and> \<not> gone"

definition read_ask :: "nat \<Rightarrow> nat \<Rightarrow> Plane \<Rightarrow> Plane" where
  "read_ask r cur st =
     (if bp_server st = Server_Gone then set_phase r (Read_Erring ''byte channel closed'') st
      else (let block = min LEASE_BLOCK (rt_end (bp_reads st r) - cur) in
        (set_phase r (Read_Receiving cur block 0 False) st)\<lparr>bp_requests := bp_requests st @ [(cur, block)]\<rparr>))"

definition read_receive :: "nat \<Rightarrow> nat \<Rightarrow> nat \<Rightarrow> nat \<Rightarrow> bool \<Rightarrow> chunk \<Rightarrow> chunk list \<Rightarrow> Plane \<Rightarrow> Plane" where
  "read_receive r cur block served gone c rest st =
     (let st1 = st\<lparr>bp_chunks := rest\<rparr> in
      case c of
        Failed e \<Rightarrow> set_phase r (Read_Erring e) st1
      | Eof _ \<Rightarrow> if served < block then finish r st1 else set_phase r (Read_Asking (cur + served) gone) st1
      | Data _ bs \<Rightarrow>
          if gone then set_phase r (Read_Receiving cur block (served + length bs) True) st1
          else set_phase r (Read_Sending cur block (served + length bs) bs) st1)"

definition read_send :: "nat \<Rightarrow> nat \<Rightarrow> nat \<Rightarrow> nat \<Rightarrow> u8 list \<Rightarrow> Plane \<Rightarrow> Plane" where
  "read_send r cur block served bs st =
     (if rt_dropped (bp_reads st r) then set_phase r (Read_Receiving cur block served True) st
      else set_phase r (Read_Receiving cur block served False) (emit r (Item_Data bs) st))"

definition read_fail :: "nat \<Rightarrow> string \<Rightarrow> Plane \<Rightarrow> Plane" where
  "read_fail r e st =
     (if rt_dropped (bp_reads st r) then finish r st else finish r (emit r (Item_Error e) st))"

definition consumer_take :: "nat \<Rightarrow> item \<Rightarrow> item list \<Rightarrow> Plane \<Rightarrow> Plane" where
  "consumer_take r i rest st =
     set_read r ((bp_reads st r)\<lparr>rt_out := rest, rt_got := rt_got (bp_reads st r) @ [i]\<rparr>) st"

definition consumer_drop :: "nat \<Rightarrow> Plane \<Rightarrow> Plane" where
  "consumer_drop r st = set_read r ((bp_reads st r)\<lparr>rt_dropped := True\<rparr>) st"

definition out_ready :: "ReadTask \<Rightarrow> bool" where
  "out_ready t \<longleftrightarrow> rt_dropped t \<or> length (rt_out t) < OUT_ROOM"

inductive plane_step :: "u8 list \<Rightarrow> nat \<Rightarrow> Plane \<Rightarrow> Plane \<Rightarrow> bool" for content size_at_open where
  Opened: "bp_server st = Server_Opening \<Longrightarrow> plane_step content size_at_open st (st\<lparr>bp_server := Server_Idle\<rparr>)"
| Accept: "bp_server st = Server_Idle \<Longrightarrow> bp_requests st = req # rest
    \<Longrightarrow> plane_step content size_at_open st (server_receive size_at_open req rest st)"
| Give: "bp_server st = Serving cur stop \<Longrightarrow> cur < stop \<Longrightarrow> length (bp_chunks st) < CHUNK_ROOM
    \<Longrightarrow> bs = take n (drop cur content) \<Longrightarrow> n \<le> min (stop - cur) CHUNK \<Longrightarrow> bs \<noteq> []
    \<Longrightarrow> plane_step content size_at_open st (server_send bs cur stop st)"
| Give_End: "bp_server st = Serving cur stop \<Longrightarrow> stop \<le> cur \<or> length content \<le> cur
    \<Longrightarrow> length (bp_chunks st) < CHUNK_ROOM \<Longrightarrow> plane_step content size_at_open st (server_finish cur st)"
| Break: "bp_server st \<in> {Server_Opening, Serving cur stop} \<Longrightarrow> length (bp_chunks st) < CHUNK_ROOM
    \<Longrightarrow> plane_step content size_at_open st (server_fail why st)"
| Start: "rt_phase (bp_reads st r) = Read_Unstarted \<Longrightarrow> offset + len \<le> MAX_OFFSET
    \<Longrightarrow> plane_step content size_at_open st (read_start r offset len st)"
| Turn: "rt_phase (bp_reads st r) = Read_Queued \<Longrightarrow> bp_lock st = None \<Longrightarrow> plane_step content size_at_open st (read_lock r st)"
| Ask: "rt_phase (bp_reads st r) = Read_Asking cur gone \<Longrightarrow> wants_more (bp_reads st r) cur gone
    \<Longrightarrow> bp_server st = Server_Gone \<or> length (bp_requests st) < REQUEST_ROOM
    \<Longrightarrow> plane_step content size_at_open st (read_ask r cur st)"
| Enough: "rt_phase (bp_reads st r) = Read_Asking cur gone \<Longrightarrow> \<not> wants_more (bp_reads st r) cur gone
    \<Longrightarrow> plane_step content size_at_open st (finish r st)"
| Receive: "rt_phase (bp_reads st r) = Read_Receiving cur block served gone \<Longrightarrow> bp_chunks st = c # rest
    \<Longrightarrow> plane_step content size_at_open st (read_receive r cur block served gone c rest st)"
| Hung_Up: "rt_phase (bp_reads st r) = Read_Receiving cur block served gone \<Longrightarrow> bp_chunks st = []
    \<Longrightarrow> bp_server st = Server_Gone
    \<Longrightarrow> plane_step content size_at_open st (set_phase r (Read_Erring ''mediahost closed byte channel'') st)"
| Hand_On: "rt_phase (bp_reads st r) = Read_Sending cur block served bs \<Longrightarrow> out_ready (bp_reads st r)
    \<Longrightarrow> plane_step content size_at_open st (read_send r cur block served bs st)"
| Report: "rt_phase (bp_reads st r) = Read_Erring e \<Longrightarrow> out_ready (bp_reads st r)
    \<Longrightarrow> plane_step content size_at_open st (read_fail r e st)"
| Take: "rt_out (bp_reads st r) = i # rest \<Longrightarrow> \<not> rt_dropped (bp_reads st r)
    \<Longrightarrow> plane_step content size_at_open st (consumer_take r i rest st)"
| Leave: "plane_step content size_at_open st (consumer_drop r st)"

subsection \<open>\<open>LeaseSource::read_at\<close>\<close>



section \<open>The invariant\<close>

text \<open>The bytes the server can see, and a run of data chunks of them from one position to another.\<close>

abbreviation visible :: "u8 list \<Rightarrow> nat \<Rightarrow> u8 list" where
  "visible content size_at_open \<equiv> take size_at_open content"

fun data_run :: "u8 list \<Rightarrow> nat \<Rightarrow> nat \<Rightarrow> chunk list \<Rightarrow> bool" where
  "data_run v p q [] \<longleftrightarrow> p = q"
| "data_run v p q (Data o' bs # cs) \<longleftrightarrow> is_slice v p bs \<and> data_run v (p + length bs) q cs"
| "data_run v p q (_ # cs) \<longleftrightarrow> False"

text \<open>Between the reads nothing is under way; at the most the error that ended the server is left over.\<close>

inductive quiet :: "(nat \<times> nat) list \<Rightarrow> chunk list \<Rightarrow> server_phase \<Rightarrow> bool" where
  Quiet_Idle: "quiet [] [] Server_Idle"
| Quiet_Opening: "quiet [] [] Server_Opening"
| Quiet_Gone: "quiet reqs [] Server_Gone"
| Quiet_Failed: "quiet reqs [Failed m] Server_Gone"

text \<open>A request for \<open>block\<close> bytes at \<open>cur\<close>, with the data from \<open>p\<close> to \<open>stop\<close> to come: still queued, being
  served, ended, or given up.\<close>

inductive under_way :: "u8 list \<Rightarrow> nat \<Rightarrow> nat \<times> nat \<Rightarrow> nat \<Rightarrow> nat \<Rightarrow> (nat \<times> nat) list \<Rightarrow> chunk list \<Rightarrow> server_phase \<Rightarrow> bool"
  for content n req stop where
  Way_Queued: "p = min (fst req) n \<Longrightarrow> server \<in> {Server_Idle, Server_Opening} \<Longrightarrow> p \<le> stop
    \<Longrightarrow> under_way content n req stop p [req] [] server"
| Way_Serving: "data_run (visible content n) p q cs \<Longrightarrow> q \<le> stop
    \<Longrightarrow> under_way content n req stop p [] cs (Serving q stop)"
| Way_Ended: "data_run (visible content n) p q cs \<Longrightarrow> q \<le> stop \<Longrightarrow> q = stop \<or> length content \<le> q
    \<Longrightarrow> under_way content n req stop p [] (cs @ [Eof q]) Server_Idle"
| Way_Gone: "data_run (visible content n) p q cs \<Longrightarrow> q \<le> stop
    \<Longrightarrow> under_way content n req stop p reqs cs Server_Gone"
| Way_Failed: "data_run (visible content n) p q cs \<Longrightarrow> q \<le> stop
    \<Longrightarrow> under_way content n req stop p reqs (cs @ [Failed m]) Server_Gone"

inductive_cases way_data: "under_way content n req stop p reqs (Data o' bs # rest) server"
inductive_cases way_eof: "under_way content n req stop p reqs (Eof o' # rest) server"
inductive_cases way_failed: "under_way content n req stop p reqs (Failed m # rest) server"
inductive_cases way_serving: "under_way content n req stop p reqs cs (Serving q s)"
inductive_cases way_idle: "under_way content n req stop p reqs cs Server_Idle"
inductive_cases way_opening: "under_way content n req stop p reqs cs Server_Opening"

definition way :: "u8 list \<Rightarrow> nat \<Rightarrow> nat \<Rightarrow> nat \<Rightarrow> nat \<Rightarrow> Plane \<Rightarrow> bool" where
  "way content n cur block served st \<longleftrightarrow> cur + block \<le> MAX_OFFSET
     \<and> under_way content n (cur, block) (min (cur + block) n) (min cur n + served)
         (bp_requests st) (bp_chunks st) (bp_server st)"

fun data_of :: "item list \<Rightarrow> u8 list" where
  "data_of [] = []"
| "data_of (Item_Data bs # items) = bs @ data_of items"
| "data_of (Item_Error _ # items) = data_of items"

fun errors_of :: "item list \<Rightarrow> string list" where
  "errors_of [] = []"
| "errors_of (Item_Data _ # items) = errors_of items"
| "errors_of (Item_Error e # items) = e # errors_of items"

definition handed :: "ReadTask \<Rightarrow> item list" where
  "handed t = rt_got t @ rt_out t"

definition task_ok :: "u8 list \<Rightarrow> nat \<Rightarrow> ReadTask \<Rightarrow> bool" where
  "task_ok content n t \<longleftrightarrow>
     (let v = visible content n; off = rt_offset t; d = data_of (handed t) in
      rt_end t \<le> MAX_OFFSET
    \<and> is_slice v off d
    \<and> length d \<le> rt_len t
    \<and> (case rt_phase t of
         Read_Unstarted \<Rightarrow> handed t = []
       | Read_Queued \<Rightarrow> handed t = []
       | Read_Asking cur gone \<Rightarrow>
           off \<le> cur \<and> cur \<le> rt_end t \<and> errors_of (handed t) = []
           \<and> (gone \<longrightarrow> rt_dropped t) \<and> (\<not> gone \<longrightarrow> off + length d = cur)
       | Read_Receiving cur block served gone \<Rightarrow>
           off \<le> cur \<and> cur + block \<le> rt_end t \<and> served \<le> block \<and> errors_of (handed t) = []
           \<and> (gone \<longrightarrow> rt_dropped t) \<and> (\<not> gone \<longrightarrow> off + length d = cur + served)
       | Read_Sending cur block served bs \<Rightarrow>
           off \<le> cur \<and> cur + block \<le> rt_end t \<and> served \<le> block \<and> errors_of (handed t) = []
           \<and> is_slice v off (d @ bs) \<and> off + length (d @ bs) = cur + served
       | Read_Erring e \<Rightarrow> errors_of (handed t) = []
       | Read_Done \<Rightarrow> errors_of (handed t) = [] \<and> \<not> rt_dropped t \<longrightarrow> d = take (rt_len t) (drop off v)))"

fun holds :: "read_phase \<Rightarrow> bool" where
  "holds Read_Unstarted = False"
| "holds Read_Queued = False"
| "holds Read_Done = False"
| "holds _ = True"

fun channel_ok :: "u8 list \<Rightarrow> nat \<Rightarrow> Plane \<Rightarrow> read_phase \<Rightarrow> bool" where
  "channel_ok content n st (Read_Receiving cur block served _) = way content n cur block served st"
| "channel_ok content n st (Read_Sending cur block served _) = way content n cur block served st"
| "channel_ok content n st _ = quiet (bp_requests st) (bp_chunks st) (bp_server st)"

definition plane_ok :: "u8 list \<Rightarrow> nat \<Rightarrow> Plane \<Rightarrow> bool" where
  "plane_ok content n st \<longleftrightarrow>
     (\<forall>r. holds (rt_phase (bp_reads st r)) \<longleftrightarrow> bp_lock st = Some r)
   \<and> (\<forall>r. task_ok content n (bp_reads st r))
   \<and> (case bp_lock st of None \<Rightarrow> quiet (bp_requests st) (bp_chunks st) (bp_server st) | Some r \<Rightarrow> channel_ok content n st (rt_phase (bp_reads st r)))"

section \<open>The channels\<close>

lemma take_prefix: "bs = take k ys \<Longrightarrow> bs = take (length bs) ys"
  by (cases "k \<le> length ys") simp_all

lemma data_run_append:
  "data_run v p q (cs @ [Data o' bs]) \<longleftrightarrow> (\<exists>m. data_run v p m cs \<and> is_slice v m bs \<and> m + length bs = q)"
  by (induction v p q cs rule: data_run.induct) auto

lemma data_run_le: "data_run v p q cs \<Longrightarrow> p \<le> q"
  by (induction v p q cs rule: data_run.induct) auto

lemma data_run_bound: "data_run v p q cs \<Longrightarrow> q \<le> stop \<Longrightarrow> p \<le> stop"
  using data_run_le by fastforce

lemma data_run_bound2: "data_run v (p + k) q cs \<Longrightarrow> q \<le> stop \<Longrightarrow> p + k \<le> stop"
  by (rule data_run_bound)

lemma way_gone_early:
  "p \<le> stop \<Longrightarrow> under_way content n req stop p reqs [] Server_Gone"
  "p \<le> stop \<Longrightarrow> under_way content n req stop p reqs [Failed m] Server_Gone"
  by (auto intro: Way_Gone [where q = p] Way_Failed [where q = p and cs = "[]", simplified append_Nil])

lemma way_take_data:
  assumes "under_way content n req stop p reqs (Data o' bs # rest) server"
  shows "is_slice (visible content n) p bs \<and> under_way content n req stop (p + length bs) reqs rest server
    \<and> p + length bs \<le> stop"
  using assms
  by (cases rule: under_way.cases)
    (auto simp: Cons_eq_append_conv intro: under_way.intros data_run_bound2)

lemma way_take_eof:
  assumes "under_way content n req stop p reqs (Eof o' # rest) server"
  shows "quiet reqs rest server \<and> p \<le> stop \<and> (p = stop \<or> length content \<le> p)"
  using assms
  by (cases rule: way_eof) (auto simp: Cons_eq_append_conv intro: quiet.intros)

lemma way_take_failed:
  assumes "under_way content n req stop p reqs (Failed m # rest) server"
  shows "quiet reqs rest server"
  using assms
  by (cases rule: way_failed) (auto simp: Cons_eq_append_conv intro: quiet.intros)

subsection \<open>What a step leaves alone\<close>

abbreviation silent :: "Plane \<Rightarrow> bool" where
  "silent st \<equiv> quiet (bp_requests st) (bp_chunks st) (bp_server st)"

lemma plane_ok_holder:
  assumes "plane_ok content n st" "bp_lock st = Some r" "bp_reads st' = (bp_reads st)(r := t)"
    and "task_ok content n t"
    and "if holds (rt_phase t) then bp_lock st' = Some r \<and> channel_ok content n st' (rt_phase t)
         else bp_lock st' = None \<and> silent st'"
  shows "plane_ok content n st'"
  using assms by (auto simp: plane_ok_def split: if_splits)

lemma plane_ok_taken:
  assumes "plane_ok content n st" "bp_lock st = None" "bp_reads st' = (bp_reads st)(r := t)"
    and "task_ok content n t" "holds (rt_phase t)" "bp_lock st' = Some r" "channel_ok content n st' (rt_phase t)"
  shows "plane_ok content n st'"
  using assms by (auto simp: plane_ok_def)

lemma plane_ok_aside:
  assumes "plane_ok content n st" "st' = st\<lparr>bp_reads := (bp_reads st)(r := t)\<rparr>" "task_ok content n t"
    and "rt_phase t = rt_phase (bp_reads st r) \<or> \<not> holds (rt_phase t) \<and> \<not> holds (rt_phase (bp_reads st r))"
  shows "plane_ok content n st'"
proof -
  have "channel_ok content n st' p = channel_ok content n st p" for p
    using assms(2) by (cases p) (auto simp: way_def)
  then show ?thesis using assms by (auto simp: plane_ok_def split: option.splits)
qed

lemma plane_ok_server:
  assumes "plane_ok content n st" "bp_reads st' = bp_reads st" "bp_lock st' = bp_lock st"
    and "silent st \<Longrightarrow> silent st'"
    and "\<And>cur block served. way content n cur block served st \<Longrightarrow> way content n cur block served st'"
  shows "plane_ok content n st'"
proof -
  have "channel_ok content n st p \<Longrightarrow> channel_ok content n st' p" for p
    using assms(4,5) by (cases p) auto
  then show ?thesis using assms(1-4) by (auto simp: plane_ok_def split: option.splits)
qed

lemma held:
  assumes "plane_ok content n st" "rt_phase (bp_reads st r) = p" "holds p"
  shows "bp_lock st = Some r" "channel_ok content n st p" "task_ok content n (bp_reads st r)"
  using assms by (auto simp: plane_ok_def split: option.splits)

lemmas plane_ops = set_phase_def set_read_def finish_def emit_def

section \<open>The steps\<close>

lemma server_keeps:
  assumes "plane_ok content n st"
  shows "bp_server st = Server_Opening \<Longrightarrow> plane_ok content n (st\<lparr>bp_server := Server_Idle\<rparr>)"
    and "bp_server st = Server_Idle \<Longrightarrow> bp_requests st = req # rest
      \<Longrightarrow> plane_ok content n (server_receive n req rest st)"
    and "bp_server st = Serving q s \<Longrightarrow> bs = take k (drop q content) \<Longrightarrow> k \<le> s - q
      \<Longrightarrow> plane_ok content n (server_send bs q s st)"
    and "bp_server st = Serving q s \<Longrightarrow> s \<le> q \<or> length content \<le> q \<Longrightarrow> plane_ok content n (server_finish q st)"
    and "bp_server st \<in> {Server_Opening, Serving q s} \<Longrightarrow> plane_ok content n (server_fail why st)"
proof -
  note keep = plane_ok_server [OF assms]
  show "plane_ok content n (st\<lparr>bp_server := Server_Idle\<rparr>)" if "bp_server st = Server_Opening"
    using that by (intro keep) (auto simp: way_def elim!: quiet.cases way_opening intro: quiet.intros intro!: Way_Queued)
  show "plane_ok content n (server_receive n req rest st)"
    if "bp_server st = Server_Idle" "bp_requests st = req # rest"
    using that by (intro keep)
      (auto simp: way_def server_receive_def elim!: quiet.cases way_idle intro!: Way_Serving split: prod.splits)
  show "plane_ok content n (server_send bs q s st)"
    if "bp_server st = Serving q s" "bs = take k (drop q content)" "k \<le> s - q"
  proof (rule keep)
    show "way content n cur block served (server_send bs q s st)" if "way content n cur block served st"
      for cur block served
    proof -
      from that \<open>bp_server st = Serving q s\<close> have w: "cur + block \<le> MAX_OFFSET" "bp_requests st = []"
        "s = min (cur + block) n" "q \<le> s" "data_run (visible content n) (min cur n + served) q (bp_chunks st)"
        by (auto simp: way_def elim!: way_serving)
      have "k \<le> n - q" using \<open>k \<le> s - q\<close> w(3) by linarith
      then have "bs = take k (drop q (visible content n))"
        using \<open>bs = take k (drop q content)\<close> by (simp add: drop_take min_absorb1)
      then have "bs = take (length bs) (drop q (visible content n))" "length bs \<le> s - q"
        using \<open>k \<le> s - q\<close> by (blast intro: take_prefix, auto)
      then have "data_run (visible content n) (min cur n + served) (q + length bs) (bp_chunks st @ [Data q bs])"
        using w(5) by (auto simp: data_run_append is_slice_def)
      with w \<open>length bs \<le> s - q\<close> show ?thesis
        by (auto simp: way_def server_send_def intro!: Way_Serving)
    qed
  qed (use that in \<open>auto simp: server_send_def elim!: quiet.cases\<close>)
  show "plane_ok content n (server_finish q st)" if "bp_server st = Serving q s" "s \<le> q \<or> length content \<le> q"
    using that by (intro keep)
      (auto simp: way_def server_finish_def elim!: quiet.cases way_serving intro!: Way_Ended)
  show "plane_ok content n (server_fail why st)" if "bp_server st \<in> {Server_Opening, Serving q s}"
  proof (rule keep)
    show "way content n cur block served (server_fail why st)" if "way content n cur block served st"
      for cur block served
      using that \<open>bp_server st \<in> {Server_Opening, Serving q s}\<close>
      by (cases why) (auto simp: way_def server_fail_def way_gone_early elim!: way_serving way_opening
          intro: Way_Gone Way_Failed)
  qed (use that in \<open>auto simp: server_fail_def elim!: quiet.cases intro: quiet.intros split: option.splits\<close>)
qed

text \<open>The reader's steps. The end of a request at its own length is where the next one starts; a shorter one is
  where the visible bytes end.\<close>

lemma no_errors_emit [simp]:
  "errors_of (xs @ [Item_Data bs]) = errors_of xs" "data_of (xs @ [Item_Data bs]) = data_of xs @ bs"
  "errors_of (xs @ [Item_Error e]) = errors_of xs @ [e]" "data_of (xs @ [Item_Error e]) = data_of xs"
  by (induction xs rule: data_of.induct; simp)+

lemma short_is_all:
  assumes "is_slice v off d" "length v \<le> off + length d" "length d \<le> len"
  shows "d = take len (drop off v)"
proof -
  have "d = drop off v" using assms(1,2) unfolding is_slice_def by (simp add: take_all)
  then show ?thesis using assms(3) by (simp add: take_all)
qed

lemma full_is_all: "is_slice v off d \<Longrightarrow> length d = len \<Longrightarrow> d = take len (drop off v)"
  by (auto simp: is_slice_def)

lemma ask_keeps:
  assumes "plane_ok content n st" "rt_phase (bp_reads st r) = Read_Asking cur gone"
    "wants_more (bp_reads st r) cur gone"
  shows "plane_ok content n (read_ask r cur st)"
proof -
  note h = held [OF assms(1,2), simplified]
  let ?t = "bp_reads st r"
  show ?thesis
  proof (cases "bp_server st = Server_Gone")
    case True
    then show ?thesis
      by (intro plane_ok_holder [OF assms(1) h(1), where t = "?t\<lparr>rt_phase := Read_Erring ''byte channel closed''\<rparr>"])
        (use h assms(2) in \<open>auto simp: read_ask_def plane_ops task_ok_def handed_def rt_end_def Let_def\<close>)
  next
    case False
    then have idle: "bp_requests st = []" "bp_chunks st = []" "bp_server st \<in> {Server_Idle, Server_Opening}"
      using h(2) by (auto elim: quiet.cases)
    let ?b = "min LEASE_BLOCK (rt_end ?t - cur)"
    show ?thesis
      by (intro plane_ok_holder [OF assms(1) h(1), where t = "?t\<lparr>rt_phase := Read_Receiving cur ?b 0 False\<rparr>"])
        (use h assms(2,3) False idle in \<open>auto simp: read_ask_def plane_ops task_ok_def handed_def rt_end_def Let_def
          wants_more_def way_def intro!: Way_Queued\<close>)
  qed
qed

lemma receive_keeps:
  assumes "plane_ok content n st" "rt_phase (bp_reads st r) = Read_Receiving cur block served gone"
    and c: "bp_chunks st = c # rest"
  shows "plane_ok content n (read_receive r cur block served gone c rest st)"
proof -
  note h = held [OF assms(1,2), simplified]
  let ?t = "bp_reads st r" and ?v = "visible content n"
  have way: "under_way content n (cur, block) (min (cur + block) n) (min cur n + served) (bp_requests st) (c # rest)
      (bp_server st)" "cur + block \<le> MAX_OFFSET" using h(2) c by (auto simp: way_def)
  show ?thesis
  proof (cases c)
    case (Data o' bs)
    note w = way_take_data [OF way(1) [unfolded Data]]
    have room: "served + length bs \<le> block" and at_cur: "bs = [] \<or> cur \<le> n"
      using w h(3) assms(2) by (auto simp: task_ok_def Let_def min_def split: if_splits)
    let ?ph = "if gone then Read_Receiving cur block (served + length bs) True
      else Read_Sending cur block (served + length bs) bs"
    have "task_ok content n (?t\<lparr>rt_phase := ?ph\<rparr>)"
      using h(3) assms(2) w room at_cur
      by (auto simp: task_ok_def handed_def rt_end_def Let_def slice_append min_absorb1)
    moreover have "way content n cur block (served + length bs) (read_receive r cur block served gone c rest st)"
      using way(2) w Data by (cases gone) (auto simp: way_def read_receive_def plane_ops add.assoc)
    ultimately show ?thesis
      by (intro plane_ok_holder [OF assms(1) h(1), where t = "?t\<lparr>rt_phase := ?ph\<rparr>"])
        (use h(1) Data in \<open>auto simp: read_receive_def plane_ops\<close>)
  next
    case (Eof o')
    note w = way_take_eof [OF way(1) [unfolded Eof]]
    let ?ph = "if served < block then Read_Done else Read_Asking (cur + served) gone"
    let ?d = "data_of (handed ?t)"
    have ok: "is_slice ?v (rt_offset ?t) ?d" "cur + block \<le> rt_end ?t" "served \<le> block"
      "errors_of (handed ?t) = []" "\<not> rt_dropped ?t \<longrightarrow> rt_offset ?t + length ?d = cur + served"
      using h(3) assms(2) by (auto simp: task_ok_def Let_def)
    have all: "?d = take (rt_len ?t) (drop (rt_offset ?t) ?v)" if "served < block" "\<not> rt_dropped ?t"
    proof (rule short_is_all [OF ok(1)])
      have "length ?v \<le> cur + served" using w that(1) by (auto simp: min_def split: if_splits)
      then show "length ?v \<le> rt_offset ?t + length ?d" using ok(5) that(2) by simp
      show "length ?d \<le> rt_len ?t" using ok(2,5) that by (simp add: rt_end_def)
    qed
    have "task_ok content n (?t\<lparr>rt_phase := ?ph\<rparr>)"
      using h(3) assms(2) all ok by (auto simp: task_ok_def handed_def rt_end_def Let_def)
    then show ?thesis
      by (intro plane_ok_holder [OF assms(1) h(1), where t = "?t\<lparr>rt_phase := ?ph\<rparr>"])
        (use h(1) Eof w in \<open>auto simp: read_receive_def plane_ops\<close>)
  next
    case (Failed e)
    note w = way_take_failed [OF way(1) [unfolded Failed]]
    show ?thesis
      by (intro plane_ok_holder [OF assms(1) h(1), where t = "?t\<lparr>rt_phase := Read_Erring e\<rparr>"])
        (use h w assms(2) Failed in \<open>auto simp: read_receive_def plane_ops task_ok_def handed_def rt_end_def Let_def\<close>)
  qed
qed

lemma finish_keeps:
  assumes "plane_ok content n st" "bp_lock st = Some r" "silent st"
    "task_ok content n ((bp_reads st r)\<lparr>rt_phase := Read_Done\<rparr>)"
  shows "plane_ok content n (finish r st)"
  by (rule plane_ok_holder [OF assms(1,2) _ assms(4)]) (use assms(3) in \<open>auto simp: plane_ops\<close>)

lemma enough_keeps:
  assumes "plane_ok content n st" "rt_phase (bp_reads st r) = Read_Asking cur gone"
    "\<not> wants_more (bp_reads st r) cur gone"
  shows "plane_ok content n (finish r st)"
proof -
  note h = held [OF assms(1,2), simplified]
  show ?thesis
    by (rule finish_keeps [OF assms(1) h(1) h(2)])
      (use h(3) assms(2,3) in \<open>auto simp: task_ok_def wants_more_def handed_def rt_end_def Let_def
        intro!: full_is_all\<close>)
qed

lemma hand_on_keeps:
  assumes "plane_ok content n st" "rt_phase (bp_reads st r) = Read_Sending cur block served bs"
  shows "plane_ok content n (read_send r cur block served bs st)"
proof -
  note h = held [OF assms(1,2), simplified]
  let ?t = "bp_reads st r"
  let ?t' = "if rt_dropped ?t then ?t\<lparr>rt_phase := Read_Receiving cur block served True\<rparr>
    else ?t\<lparr>rt_phase := Read_Receiving cur block served False, rt_out := rt_out ?t @ [Item_Data bs]\<rparr>"
  have "task_ok content n ?t'"
    using h(3) assms(2) by (auto simp: task_ok_def handed_def rt_end_def Let_def slice_append simp flip: append_assoc)
  moreover have "way content n cur block served (read_send r cur block served bs st)"
    using h(2) by (auto simp: way_def read_send_def plane_ops)
  ultimately show ?thesis
    by (intro plane_ok_holder [OF assms(1) h(1), where t = ?t']) (use h(1) in \<open>auto simp: read_send_def plane_ops\<close>)
qed

lemma report_keeps:
  assumes "plane_ok content n st" "rt_phase (bp_reads st r) = Read_Erring e"
  shows "plane_ok content n (read_fail r e st)"
proof -
  note h = held [OF assms(1,2), simplified]
  let ?t = "bp_reads st r"
  let ?t' = "if rt_dropped ?t then ?t\<lparr>rt_phase := Read_Done\<rparr>
    else ?t\<lparr>rt_phase := Read_Done, rt_out := rt_out ?t @ [Item_Error e]\<rparr>"
  have "task_ok content n ?t'"
    using h(3) assms(2) by (auto simp: task_ok_def handed_def rt_end_def Let_def simp flip: append_assoc)
  then show ?thesis
    by (intro plane_ok_holder [OF assms(1) h(1), where t = ?t'])
      (use h(1,2) in \<open>auto simp: read_fail_def plane_ops\<close>)
qed

lemma hung_up_keeps:
  assumes "plane_ok content n st" "rt_phase (bp_reads st r) = Read_Receiving cur block served gone"
    "bp_chunks st = []" "bp_server st = Server_Gone"
  shows "plane_ok content n (set_phase r (Read_Erring e) st)"
proof -
  note h = held [OF assms(1,2), simplified]
  show ?thesis
    by (intro plane_ok_holder [OF assms(1) h(1), where t = "(bp_reads st r)\<lparr>rt_phase := Read_Erring e\<rparr>"])
      (use h assms(2-4) in \<open>auto simp: plane_ops task_ok_def handed_def rt_end_def Let_def intro: quiet.intros\<close>)
qed

lemma turn_keeps:
  assumes "plane_ok content n st" "rt_phase (bp_reads st r) = Read_Queued" "bp_lock st = None"
  shows "plane_ok content n (read_lock r st)"
proof -
  have "task_ok content n (bp_reads st r)" "silent st" using assms by (auto simp: plane_ok_def)
  then show ?thesis
    by (intro plane_ok_taken [OF assms(1,3), where
          t = "(bp_reads st r)\<lparr>rt_phase := Read_Asking (rt_offset (bp_reads st r)) False\<rparr>" and r = r])
      (use assms(2) in \<open>auto simp: read_lock_def plane_ops task_ok_def handed_def rt_end_def Let_def\<close>)
qed

lemma aside_keeps:
  assumes "plane_ok content n st"
  shows "rt_phase (bp_reads st r) = Read_Unstarted \<Longrightarrow> off + len \<le> MAX_OFFSET
      \<Longrightarrow> plane_ok content n (read_start r off len st)"
    and "rt_out (bp_reads st r) = i # rest \<Longrightarrow> plane_ok content n (consumer_take r i rest st)"
    and "plane_ok content n (consumer_drop r st)"
proof -
  have t: "task_ok content n (bp_reads st r)" using assms by (auto simp: plane_ok_def)
  show "plane_ok content n (read_start r off len st)"
    if "rt_phase (bp_reads st r) = Read_Unstarted" "off + len \<le> MAX_OFFSET"
    by (intro plane_ok_aside [OF assms, where r = r and t = "(bp_reads st r)\<lparr>rt_offset := off, rt_len := len,
          rt_phase := Read_Queued\<rparr>"])
      (use that t in \<open>auto simp: read_start_def plane_ops task_ok_def handed_def rt_end_def Let_def\<close>)
  show "plane_ok content n (consumer_take r i rest st)" if "rt_out (bp_reads st r) = i # rest"
    by (intro plane_ok_aside [OF assms, where r = r and t = "(bp_reads st r)\<lparr>rt_out := rest,
          rt_got := rt_got (bp_reads st r) @ [i]\<rparr>"])
      (use that t in \<open>auto simp: consumer_take_def plane_ops task_ok_def handed_def rt_end_def Let_def
        split: read_phase.splits\<close>)
  show "plane_ok content n (consumer_drop r st)"
    by (intro plane_ok_aside [OF assms, where r = r and t = "(bp_reads st r)\<lparr>rt_dropped := True\<rparr>"])
      (use t in \<open>auto simp: consumer_drop_def plane_ops task_ok_def handed_def rt_end_def Let_def
        split: read_phase.splits\<close>)
qed

lemma plane_step_ok: "plane_step content n st st' \<Longrightarrow> plane_ok content n st \<Longrightarrow> plane_ok content n st'"
  by (induction rule: plane_step.induct)
    (auto intro: ask_keeps receive_keeps enough_keeps hand_on_keeps report_keeps hung_up_keeps turn_keeps aside_keeps
      server_keeps(1,2,4,5) server_keeps(3) [OF _ _ refl])

subsection \<open>The invariant holds\<close>

lemma plane_new_ok: "plane_ok content n plane_new"
  by (auto simp: plane_ok_def plane_new_def task_ok_def handed_def rt_end_def MAX_OFFSET_def intro: quiet.intros)

interpretation byte_plane: guarded_system "\<lambda>st. st = plane_new" "plane_step content n" "plane_ok content n"
  for content n
  by unfold_locales (auto simp: plane_new_ok intro: plane_step_ok)

section \<open>A lease as the source of a feed\<close>




lemma data_of_append [simp]: "data_of (xs @ ys) = data_of xs @ data_of ys"
  by (induction xs rule: data_of.induct) auto




section \<open>A sample run\<close>

text \<open>The file had four bytes when it was opened and has six now. The first read asks for six, and its consumer
  leaves at the first two; the second asks for five from 2 on.\<close>

definition plane_asked :: Plane where
  "plane_asked = server_receive 4 (0, 6) []
     ((read_ask 0 0 (read_lock 0 (read_start 0 0 6 plane_new)))\<lparr>bp_server := Server_Idle\<rparr>)"

definition plane_left :: Plane where
  "plane_left = read_send 0 0 6 2 [1, 2] (consumer_drop 0
     (read_receive 0 0 6 0 False (Data 0 [1, 2]) [] (server_send [1, 2] 0 4 plane_asked)))"

definition plane_drained :: Plane where
  "plane_drained = read_receive 0 0 6 4 True (Eof 4) [] (read_receive 0 0 6 2 True (Data 2 [3, 4]) [Eof 4]
     (server_finish 4 (server_send [3, 4] 2 4 plane_left)))"

definition plane_again :: Plane where
  "plane_again = server_receive 4 (2, 5) [] (read_ask 2 2 (read_lock 2 (read_start 2 2 5 plane_drained)))"

definition plane_done :: Plane where
  "plane_done = read_receive 2 2 5 2 False (Eof 4) [] (read_send 2 2 5 2 [3, 4]
     (read_receive 2 2 5 0 False (Data 2 [3, 4]) [Eof 4]
       (server_finish 4 (server_send [3, 4] 2 4 plane_again))))"

lemmas plane_states = plane_done_def plane_again_def plane_drained_def plane_left_def plane_asked_def
lemmas plane_steps = plane_ops server_receive_def server_send_def server_finish_def read_start_def read_lock_def
  read_ask_def read_receive_def read_send_def consumer_drop_def plane_new_def rt_end_def wants_more_def out_ready_def
  LEASE_BLOCK_def CHUNK_def REQUEST_ROOM_def CHUNK_ROOM_def OUT_ROOM_def MAX_OFFSET_def Let_def

lemma give_exact:
  assumes "bp_server st = Serving cur stop" "cur < stop" "length (bp_chunks st) < CHUNK_ROOM"
    "bs = take (length bs) (drop cur content)" "length bs \<le> min (stop - cur) CHUNK" "bs \<noteq> []"
  shows "plane_step content n st (server_send bs cur stop st)"
  using assms by (rule plane_step.Give)

lemma ask_live:
  assumes "rt_phase (bp_reads st r) = Read_Asking cur False" "cur < rt_end (bp_reads st r)"
    "length (bp_requests st) < REQUEST_ROOM"
  shows "plane_step content n st (read_ask r cur st)"
  using assms by (intro plane_step.Ask [where gone = False]) (auto simp: wants_more_def)

lemma give_over:
  assumes "case bp_server st of Serving c stop \<Rightarrow> c = cur \<and> (stop \<le> cur \<or> length content \<le> cur) | _ \<Rightarrow> False"
    "length (bp_chunks st) < CHUNK_ROOM"
  shows "plane_step content n st (server_finish cur st)"
  using assms by (auto split: server_phase.splits intro: plane_step.Give_End)

lemma plane_done_reachable:
  "reachable (\<lambda>s. s = plane_new) (plane_step [1, 2, 3, 4, 5, 6] 4) plane_done"
  unfolding plane_states
  by ((rule reach_step [rotated], (rule give_exact give_over ask_live plane_step.intros; simp add: plane_steps; fail))+) (simp add: reach_init)





section \<open>Properties\<close>

text \<open>C29. A read of a lease is exact, whatever was read from the lease before and whoever stopped listening in
  between: what its consumer has been handed is at any moment the bytes of the file from the offset on, as
  far as the file reached when it was opened, and a read that is over, without an error and with its
  consumer still there, has handed on all it was asked for.\<close>

theorem lease_reads_exact:
  assumes "reachable (\<lambda>s. s = plane_new) (plane_step content n) st"
  shows "let t = bp_reads st r; d = data_of (rt_got t @ rt_out t); v = take n content in
      d = take (length d) (drop (rt_offset t) v)
    \<and> (rt_phase t = Read_Done \<and> \<not> rt_dropped t \<and> errors_of (rt_got t @ rt_out t) = []
        \<longrightarrow> d = take (rt_len t) (drop (rt_offset t) v))"
proof -
  let ?t = "bp_reads st r"
  have task: "task_ok content n ?t"
    using byte_plane.reachable_inv [OF assms] by (simp add: plane_ok_def)
  then have "is_slice (take n content) (rt_offset ?t) (data_of (rt_got ?t @ rt_out ?t))"
    unfolding task_ok_def Let_def handed_def by blast
  moreover have "data_of (rt_got ?t @ rt_out ?t) = take (rt_len ?t) (drop (rt_offset ?t) (take n content))"
    if "rt_phase ?t = Read_Done" "\<not> rt_dropped ?t" "errors_of (rt_got ?t @ rt_out ?t) = []"
    using task that unfolding task_ok_def Let_def handed_def by simp
  ultimately show ?thesis unfolding is_slice_def Let_def by blast
qed

text \<open>Witness of C29: a read of five bytes at 2, of a file that had four when it was opened and has six now, after a read
  whose consumer left at its first bytes: it gets the two that are there.\<close>

theorem lease_reads_exact_witness:
  "let t = bp_reads plane_done 2 in rt_phase t = Read_Done \<and> data_of (rt_got t @ rt_out t) = [3, 4]
     \<and> data_of (rt_got t @ rt_out t) = take 5 (drop 2 (take 4 [1, 2, 3, 4, 5, 6]))
     \<and> rt_dropped (bp_reads plane_done 0)"
proof -
  have s: "rt_phase (bp_reads plane_done 2) = Read_Done" "\<not> rt_dropped (bp_reads plane_done 2)"
    "rt_offset (bp_reads plane_done 2) = 2" "rt_len (bp_reads plane_done 2) = 5"
    "errors_of (rt_got (bp_reads plane_done 2) @ rt_out (bp_reads plane_done 2)) = []"
    "rt_dropped (bp_reads plane_done 0)"
    "data_of (rt_got (bp_reads plane_done 2) @ rt_out (bp_reads plane_done 2)) = [3, 4]"
    by (simp_all add: plane_states plane_steps )
  show ?thesis using lease_reads_exact [OF plane_done_reachable, of 2] s by (simp add: Let_def )
qed




end
