(* ===== verification/Burn_Sets.thy ===== *)
theory Burn_Sets
  imports Image_Subs
begin

text \<open>
  The display sets of a burned image subtitle, the pure part of \<open>crates/kahawai-media/src/burnin.rs\<close>: the file that
  carries the blocks of a track to the worker that burns them, and the timeline a frame looks itself up in.
  The zstd codec is the parameters \<open>deflate\<close> and \<open>inflate\<close>. Times are 64-bit words; sums of them wrap, as in a
  release build. Blending and scaling are GStreamer's.
\<close>

section \<open>Definitions\<close>

subsection \<open>The file\<close>

type_synonym SetBlock = "u64 \<times> u64 option \<times> u8 list"

datatype sets_error = Sets_Inflate string | Sets_Truncated | Sets_Foreign

definition u64_to_le_bytes :: "u64 \<Rightarrow> u8 list" where "u64_to_le_bytes v = rev (u64_to_be_bytes v)"
definition u32_to_le_bytes :: "u32 \<Rightarrow> u8 list" where "u32_to_le_bytes v = rev (u32_to_be_bytes v)"
definition u16_to_le_bytes :: "u16 \<Rightarrow> u8 list" where "u16_to_le_bytes v = [ucast v, ucast (drop_bit 8 v)]"

definition le_val :: "u8 list \<Rightarrow> nat" where
  "le_val bs = be_val (rev bs)"

definition KBS1 :: "u8 list" where
  "KBS1 = [0x4B, 0x42, 0x53, 0x31]"

definition ZSTD_MAGIC :: "u8 list" where
  "ZSTD_MAGIC = [0x28, 0xB5, 0x2F, 0xFD]"

definition encode_block :: "SetBlock \<Rightarrow> u8 list" where
  "encode_block b =
     (let (start, dur, payload) = b in
      u64_to_le_bytes start @ u64_to_le_bytes (unwrap_or dur 0)
      @ u32_to_le_bytes (of_nat (length payload)) @ payload)"

definition encode_sets :: "string \<Rightarrow> u8 list option \<Rightarrow> SetBlock list \<Rightarrow> u8 list" where
  "encode_sets codec codec_private blocks =
     (let priv_bytes = unwrap_or codec_private [] in
      KBS1 @ u16_to_le_bytes (of_nat (length codec)) @ map char_byte codec
      @ u32_to_le_bytes (of_nat (length priv_bytes)) @ priv_bytes @ concat (map encode_block blocks))"

definition encode_sets_zstd ::
    "(u8 list \<Rightarrow> string + u8 list) \<Rightarrow> string \<Rightarrow> u8 list option \<Rightarrow> SetBlock list \<Rightarrow> u8 list" where
  "encode_sets_zstd deflate codec codec_private blocks =
     (let raw = encode_sets codec codec_private blocks in
      case deflate raw of Inl _ \<Rightarrow> raw | Inr z \<Rightarrow> z)"

text \<open>\<open>take\<close>: the next \<open>n\<close> bytes, and the position behind them.\<close>

definition take_bytes :: "u8 list \<Rightarrow> nat \<Rightarrow> nat \<Rightarrow> (u8 list \<times> nat) option" where
  "take_bytes data p n =
     (case opt_filter (\<lambda>e. e \<le> length data) (checked_add p n) of
        None \<Rightarrow> None
      | Some e \<Rightarrow> Some (take n (drop p data), e))"

definition read_block :: "u8 list \<Rightarrow> nat \<Rightarrow> (SetBlock \<times> nat) option" where
  "read_block data p =
     Option.bind (take_bytes data p 8) (\<lambda>(start, p).
     Option.bind (take_bytes data p 8) (\<lambda>(dur, p).
     Option.bind (take_bytes data p 4) (\<lambda>(n, p).
     map_option (\<lambda>(payload, p).
       ((of_nat (le_val start), if le_val dur > 0 then Some (of_nat (le_val dur)) else None, payload), p))
       (take_bytes data p (le_val n)))))"

lemma take_bytes_end: "take_bytes data p n = Some (bs, e) \<Longrightarrow> e = p + n \<and> e \<le> length data"
  by (auto simp: take_bytes_def checked_add_def split: option.splits if_splits)

lemma read_block_end: "read_block data p = Some (b, e) \<Longrightarrow> p < e \<and> e \<le> length data"
  by (auto simp: read_block_def Option.bind_eq_Some_conv dest!: take_bytes_end)

function read_blocks :: "u8 list \<Rightarrow> nat \<Rightarrow> SetBlock list option" where
  "read_blocks data p =
     (if p < length data then
        (case read_block data p of
           None \<Rightarrow> None
         | Some (b, p') \<Rightarrow> map_option (\<lambda>bs. b # bs) (read_blocks data p'))
      else Some [])"
  by auto
termination
  by (relation "measure (\<lambda>(data, p). length data - p)") (auto dest!: read_block_end)

declare read_blocks.simps [simp del]

definition decode_raw :: "u8 list \<Rightarrow> (string \<times> u8 list option \<times> SetBlock list) option" where
  "decode_raw data =
     Option.bind (take_bytes data 4 2) (\<lambda>(n, p).
     Option.bind (take_bytes data p (le_val n)) (\<lambda>(codec, p).
     Option.bind (take_bytes data p 4) (\<lambda>(n, p).
     Option.bind (if le_val n > 0 then map_option (\<lambda>(v, p). (Some v, p)) (take_bytes data p (le_val n))
                  else Some (None, p)) (\<lambda>(codec_private, p).
     map_option (\<lambda>blocks. (from_utf8_lossy codec, codec_private, blocks)) (read_blocks data p)))))"

definition decode_sets ::
    "(u8 list \<Rightarrow> string + u8 list) \<Rightarrow> u8 list \<Rightarrow> sets_error + string \<times> u8 list option \<times> SetBlock list" where
  "decode_sets inflate file_bytes =
     (case (if take 4 file_bytes = ZSTD_MAGIC then inflate file_bytes else Inr file_bytes) of
        Inl e \<Rightarrow> Inl (Sets_Inflate e)
      | Inr data \<Rightarrow>
          (case take_bytes data 0 4 of
             None \<Rightarrow> Inl Sets_Truncated
           | Some (magic, _) \<Rightarrow>
               if magic \<noteq> KBS1 then Inl Sets_Foreign
               else (case decode_raw data of None \<Rightarrow> Inl Sets_Truncated | Some r \<Rightarrow> Inr r)))"

definition validate_sets :: "(u8 list \<Rightarrow> string + u8 list) \<Rightarrow> u8 list \<Rightarrow> sets_error + unit" where
  "validate_sets inflate data = map_sum (\<lambda>e. e) (\<lambda>_. ()) (decode_sets inflate data)"

subsection \<open>The timeline\<close>

record Entry =
  en_start :: u64
  en_end :: u64
  en_canvas_w :: nat
  en_objects :: "ImageObject list"

definition set_entry :: "u64 \<Rightarrow> u64 option \<Rightarrow> nat \<Rightarrow> ImageObject list \<Rightarrow> Entry" where
  "set_entry ms dur canvas objects =
     \<lparr>en_start = ms, en_end = map_or dur (- 1) (\<lambda>d. ms + d), en_canvas_w = canvas, en_objects = objects\<rparr>"

text \<open>The loop over the blocks. A block the decoder refuses is skipped; a panic of the decoder is one.\<close>

fun set_entries ::
    "(rat \<Rightarrow> rat) \<Rightarrow> bool \<Rightarrow> Rgb list \<Rightarrow> (nat \<times> nat) option \<Rightarrow> SetBlock list \<Rightarrow> PgsDecoder \<Rightarrow> read_error + Entry list" where
  "set_entries fl is_pgs palette canvas [] d = Inr []"
| "set_entries fl is_pgs palette canvas ((ms, dur, payload) # bs) d =
     (let (d', shown) =
        (if is_pgs then
           (case pgs_feed fl payload d of
              (d', r) \<Rightarrow> (d', map_sum (\<lambda>e. e) (map_option (\<lambda>set. (ds_canvas_w set, ds_objects set))) r))
         else (d, map_sum (\<lambda>e. e) (map_option (\<lambda>obj. (map_or canvas 0 fst, [obj]))) (vobsub_decode payload palette)))
      in case shown of
           Inl Panicked \<Rightarrow> Inl Panicked
         | Inr (Some (w, objects)) \<Rightarrow>
             map_sum (\<lambda>e. e) (\<lambda>es. set_entry ms dur w objects # es) (set_entries fl is_pgs palette canvas bs d')
         | _ \<Rightarrow> set_entries fl is_pgs palette canvas bs d')"

text \<open>Each set ends where the next begins, at the latest; the last one has five seconds.\<close>

fun clip_ends :: "Entry list \<Rightarrow> Entry list" where
  "clip_ends (e # f # es) = e\<lparr>en_end := min (en_end e) (en_start f)\<rparr> # clip_ends (f # es)"
| "clip_ends es = es"

definition close_last :: "Entry list \<Rightarrow> Entry list" where
  "close_last es =
     (if es \<noteq> [] \<and> en_end (last es) = - 1
      then butlast es @ [(last es)\<lparr>en_end := en_start (last es) + 5000\<rparr>] else es)"

definition build_timeline ::
    "(rat \<Rightarrow> rat) \<Rightarrow> string \<Rightarrow> u8 list option \<Rightarrow> SetBlock list \<Rightarrow> read_error + Entry list" where
  "build_timeline fl codec codec_private blocks =
     (let idx_text = map_option decode_text codec_private;
          palette = map_or idx_text [] vobsub_palette;
          vob_canvas = Option.bind idx_text vobsub_size
      in map_sum (\<lambda>e. e) (\<lambda>es. close_last (clip_ends es))
           (set_entries fl (contains_str codec ''PGS'') palette vob_canvas blocks pgs_new))"

text \<open>\<open>Timeline::at\<close>; on a list that the predicate partitions, \<open>partition_point\<close> is the length of its first part.\<close>

definition timeline_at :: "Entry list \<Rightarrow> u64 \<Rightarrow> nat option" where
  "timeline_at es ms =
     (let i = length (takeWhile (\<lambda>e. en_start e \<le> ms) es) in
      if i = 0 then None
      else (let e = es ! (i - 1) in if ms < en_end e \<and> en_objects e \<noteq> [] then Some (i - 1) else None))"

definition timeline_from_file ::
    "(u8 list \<Rightarrow> string + u8 list) \<Rightarrow> (rat \<Rightarrow> rat) \<Rightarrow> u8 list \<Rightarrow> sets_error + read_error + Entry list" where
  "timeline_from_file inflate fl file_bytes =
     map_sum (\<lambda>e. e) (\<lambda>(codec, codec_private, blocks). build_timeline fl codec codec_private blocks)
       (decode_sets inflate file_bytes)"

section \<open>The file reads back\<close>

lemma le_val_bytes [simp]:
  "le_val (u64_to_le_bytes v) = unat v" "le_val (u32_to_le_bytes w) = unat w"
  "length (u64_to_le_bytes v) = 8" "length (u32_to_le_bytes w) = 4" "length (u16_to_le_bytes x) = 2"
  by (simp_all add: le_val_def u64_to_le_bytes_def u32_to_le_bytes_def u16_to_le_bytes_def be_val_u64 be_val_u32)

lemma le_val_u16 [simp]: "le_val (u16_to_le_bytes v) = unat v"
proof -
  have "unat v < 65536" using unsigned_less [of v] by simp
  then show ?thesis
    by (simp add: le_val_def u16_to_le_bytes_def be_val_def unsigned_ucast_eq take_bit_nat_def unsigned_drop_bit_eq
        drop_bit_nat_def)
qed

lemma take_bytes_at:
  assumes "data = pre @ bs @ post" "length data < 2 ^ 64" "p = length pre" "n = length bs"
  shows "take_bytes data p n = Some (bs, length (pre @ bs))"
  using assms by (simp add: take_bytes_def checked_add_def opt_filter_def)

text \<open>What a duration of zero comes back as.\<close>

definition declared :: "SetBlock \<Rightarrow> SetBlock" where
  "declared b = (let (start, dur, payload) = b in (start, if dur = Some 0 then None else dur, payload))"

lemma read_block_at:
  assumes "data = pre @ encode_block b @ post" "length data < 2 ^ 64" "length (snd (snd b)) < 2 ^ 32" "p = length pre"
  shows "read_block data p = Some (declared b, length (pre @ encode_block b))"
proof -
  obtain start dur payload where b: "b = (start, dur, payload)" by (cases b)
  let ?s = "u64_to_le_bytes start" and ?d = "u64_to_le_bytes (unwrap_or dur 0)"
  let ?n = "u32_to_le_bytes (of_nat (length payload))"
  have n: "le_val ?n = length payload" using assms(3) b by (simp add: unsigned_of_nat take_bit_nat_eq_self)
  note at = take_bytes_at [OF _ assms(2)]
  have "take_bytes data (length pre) 8 = Some (?s, length (pre @ ?s))"
    by (rule at [where post = "?d @ ?n @ payload @ post"]) (simp_all add: assms(1) b encode_block_def)
  moreover have "take_bytes data (length (pre @ ?s)) 8 = Some (?d, length ((pre @ ?s) @ ?d))"
    by (rule at [where post = "?n @ payload @ post"]) (simp_all add: assms(1) b encode_block_def)
  moreover have "take_bytes data (length ((pre @ ?s) @ ?d)) 4 = Some (?n, length (((pre @ ?s) @ ?d) @ ?n))"
    by (rule at [where post = "payload @ post"]) (simp_all add: assms(1) b encode_block_def)
  moreover have "take_bytes data (length (((pre @ ?s) @ ?d) @ ?n)) (length payload)
      = Some (payload, length ((((pre @ ?s) @ ?d) @ ?n) @ payload))"
    by (rule at [where post = post]) (simp_all add: assms(1) b encode_block_def)
  ultimately show ?thesis
    using n by (cases dur) (simp_all add: read_block_def assms(4) declared_def b encode_block_def unat_gt_0)
qed

lemma read_blocks_at:
  assumes "data = pre @ concat (map encode_block bs)" "length data < 2 ^ 64"
    "list_all (\<lambda>b. length (snd (snd b)) < 2 ^ 32) bs" "p = length pre"
  shows "read_blocks data p = Some (map declared bs)"
  using assms(1,3,4)
proof (induction bs arbitrary: pre p)
  case Nil
  then show ?case by (simp add: read_blocks.simps)
next
  case (Cons b bs)
  have step: "read_block data p = Some (declared b, length (pre @ encode_block b))"
    using Cons.prems assms(2) by (intro read_block_at [where post = "concat (map encode_block bs)"]) simp_all
  have "p < length data" using read_block_end [OF step] by simp
  moreover have "read_blocks data (length (pre @ encode_block b)) = Some (map declared bs)"
    using Cons.prems by (intro Cons.IH [where pre = "pre @ encode_block b"]) simp_all
  ultimately show ?case by (simp add: read_blocks.simps [of data p] step)
qed

lemma lossy_valid: "is_utf8 bs \<Longrightarrow> from_utf8_lossy bs = map byte_char bs"
proof (induction bs rule: from_utf8_lossy.induct)
  case (1 bs)
  show ?case
  proof (cases "bs = []")
    case False
    then have "fst (utf8_next bs)" "is_utf8 (drop (snd (utf8_next bs)) bs)"
      using 1(2) by (simp_all add: is_utf8.simps [of bs])
    moreover from this have "from_utf8_lossy (drop (snd (utf8_next bs)) bs) = map byte_char (drop (snd (utf8_next bs)) bs)"
      using 1(1) False by blast
    ultimately show ?thesis
      using False by (simp add: from_utf8_lossy.simps [of bs] flip: map_append)
  qed (simp add: from_utf8_lossy.simps)
qed

text \<open>What the sizes of the fields allow.\<close>

definition sets_fit :: "string \<Rightarrow> u8 list option \<Rightarrow> SetBlock list \<Rightarrow> bool" where
  "sets_fit codec codec_private blocks \<longleftrightarrow>
     length codec < 2 ^ 16 \<and> is_utf8 (map char_byte codec) \<and> length (unwrap_or codec_private []) < 2 ^ 32
   \<and> list_all (\<lambda>b. length (snd (snd b)) < 2 ^ 32) blocks
   \<and> length (encode_sets codec codec_private blocks) < 2 ^ 64"

lemma decode_encoded:
  assumes fit: "sets_fit codec codec_private blocks" and m: "take 4 file_bytes = ZSTD_MAGIC \<Longrightarrow> inflate file_bytes = Inr raw"
    "take 4 file_bytes \<noteq> ZSTD_MAGIC \<Longrightarrow> file_bytes = raw" and raw: "raw = encode_sets codec codec_private blocks"
  shows "decode_sets inflate file_bytes =
    Inr (codec, if codec_private = Some [] then None else codec_private, map declared blocks)"
proof -
  let ?priv = "unwrap_or codec_private []"
  let ?n = "u16_to_le_bytes (of_nat (length codec))" and ?c = "map char_byte codec"
  let ?m = "u32_to_le_bytes (of_nat (length ?priv))" and ?bs = "concat (map encode_block blocks)"
  have raw_eq: "raw = KBS1 @ ?n @ ?c @ ?m @ ?priv @ ?bs" by (simp add: raw encode_sets_def Let_def)
  have len: "length raw < 2 ^ 64" using fit raw by (simp add: sets_fit_def)
  note at = take_bytes_at [OF _ len]
  have n: "le_val ?n = length codec" "le_val ?m = length ?priv"
    using fit by (simp_all add: sets_fit_def unsigned_of_nat take_bit_nat_eq_self)
  have magic: "take_bytes raw 0 4 = Some (KBS1, length KBS1)"
    using at [of "[]" KBS1 "?n @ ?c @ ?m @ ?priv @ ?bs" 0 4] raw_eq by (simp add: KBS1_def)
  have t1: "take_bytes raw 4 2 = Some (?n, length (KBS1 @ ?n))"
    by (rule at [where post = "?c @ ?m @ ?priv @ ?bs"]) (simp_all add: raw_eq KBS1_def)
  have t2: "take_bytes raw (length (KBS1 @ ?n)) (length codec) = Some (?c, length ((KBS1 @ ?n) @ ?c))"
    by (rule at [where post = "?m @ ?priv @ ?bs"]) (simp_all add: raw_eq)
  have t3: "take_bytes raw (length ((KBS1 @ ?n) @ ?c)) 4 = Some (?m, length (((KBS1 @ ?n) @ ?c) @ ?m))"
    by (rule at [where post = "?priv @ ?bs"]) (simp_all add: raw_eq)
  have t4: "take_bytes raw (length (((KBS1 @ ?n) @ ?c) @ ?m)) (length ?priv)
      = Some (?priv, length ((((KBS1 @ ?n) @ ?c) @ ?m) @ ?priv))"
    by (rule at [where post = ?bs]) (simp_all add: raw_eq)
  have rest: "read_blocks raw (length ((((KBS1 @ ?n) @ ?c) @ ?m) @ ?priv)) = Some (map declared blocks)"
    using fit by (intro read_blocks_at [where pre = "KBS1 @ ?n @ ?c @ ?m @ ?priv"] len) (simp_all add: raw_eq sets_fit_def)
  have words: "from_utf8_lossy ?c = codec" using fit by (simp add: sets_fit_def lossy_valid comp_def)
  have "decode_raw raw = Some (codec, if codec_private = Some [] then None else codec_private, map declared blocks)"
  proof (cases "?priv = []")
    case True
    then have "codec_private = None \<or> codec_private = Some []" by (cases codec_private) simp_all
    then show ?thesis using t1 t2 t3 rest n words True by (auto simp: decode_raw_def)
  next
    case False
    then have "codec_private = Some ?priv" "codec_private \<noteq> Some []" by (cases codec_private; simp)+
    then show ?thesis using t1 t2 t3 t4 rest n words False by (simp add: decode_raw_def)
  qed
  moreover have "take 4 raw = KBS1" by (simp add: raw_eq KBS1_def)
  moreover have "KBS1 \<noteq> ZSTD_MAGIC" by (simp add: KBS1_def ZSTD_MAGIC_def)
  ultimately show ?thesis
    using magic m by (cases "take 4 file_bytes = ZSTD_MAGIC") (simp_all add: decode_sets_def)
qed

section \<open>The timeline\<close>

lemma length_clip [simp]: "length (clip_ends es) = length es"
  by (induction es rule: clip_ends.induct) auto

lemma clip_nth:
  "i < length es \<Longrightarrow> clip_ends es ! i =
     (if Suc i < length es then (es ! i)\<lparr>en_end := min (en_end (es ! i)) (en_start (es ! Suc i))\<rparr> else es ! i)"
  by (induction es arbitrary: i rule: clip_ends.induct) (auto simp: nth_Cons split: nat.splits)

lemma close_last_update:
  "es \<noteq> [] \<Longrightarrow> close_last es =
     (if en_end (last es) = - 1 then es[length es - 1 := (last es)\<lparr>en_end := en_start (last es) + 5000\<rparr>] else es)"
  by (cases es rule: rev_cases) (simp_all add: close_last_def)

lemma length_close [simp]: "length (close_last es) = length es"
  by (cases "es = []") (simp_all add: close_last_update, simp add: close_last_def)

lemma close_last_nth:
  assumes "i < length es"
  shows "close_last es ! i =
     (if Suc i = length es \<and> en_end (es ! i) = - 1 then (es ! i)\<lparr>en_end := en_start (es ! i) + 5000\<rparr> else es ! i)"
proof -
  have "es \<noteq> []" using assms by auto
  moreover from this have "last es = es ! (length es - 1)" by (rule last_conv_nth)
  ultimately show ?thesis using assms by (auto simp: close_last_update nth_list_update)
qed

lemma set_entries_starts:
  "set_entries fl pgs palette canvas bs d = Inr es \<Longrightarrow> sorted (map fst bs)
    \<Longrightarrow> sorted (map en_start es) \<and> en_start ` set es \<subseteq> fst ` set bs"
proof (induction bs arbitrary: d es)
  case (Cons b bs)
  obtain ms dur payload where b: "b = (ms, dur, payload)" by (cases b)
  obtain d' shown where step: "(if pgs then
           (case pgs_feed fl payload d of
              (d', r) \<Rightarrow> (d', map_sum (\<lambda>e. e) (map_option (\<lambda>set. (ds_canvas_w set, ds_objects set))) r))
         else (d, map_sum (\<lambda>e. e) (map_option (\<lambda>obj. (map_or canvas 0 fst, [obj]))) (vobsub_decode payload palette)))
      = (d', shown)" by (meson surj_pair)
  have bs: "sorted (map fst bs)" "\<forall>x \<in> fst ` set bs. ms \<le> x" using Cons.prems(2) b by auto
  note unfold = Cons.prems(1) [unfolded b set_entries.simps step Let_def prod.case]
  show ?case
  proof (cases "\<exists>w objects. shown = Inr (Some (w, objects))")
    case True
    with unfold obtain w objects es' where es': "set_entries fl pgs palette canvas bs d' = Inr es'"
      "es = set_entry ms dur w objects # es'" by (cases "set_entries fl pgs palette canvas bs d'") auto
    with Cons.IH [OF es'(1) bs(1)] bs(2) b show ?thesis by (fastforce simp: set_entry_def image_subset_iff)
  next
    case False
    with unfold have "set_entries fl pgs palette canvas bs d' = Inr es"
      by (auto split: sum.splits option.splits read_error.splits prod.splits)
    from Cons.IH [OF this bs(1)] show ?thesis by auto
  qed
qed simp

definition windowed :: "Entry list \<Rightarrow> bool" where
  "windowed es \<longleftrightarrow> sorted (map en_start es) \<and>
     (\<forall>i. Suc i < length es \<longrightarrow> en_end (es ! i) \<le> en_start (es ! Suc i))"

lemma windowed_build:
  assumes "build_timeline fl codec codec_private blocks = Inr shown_sets" "sorted (map fst blocks)"
  shows "windowed shown_sets"
proof -
  obtain es where es: "shown_sets = close_last (clip_ends es)" "sorted (map en_start es)"
    using assms set_entries_starts by (fastforce simp: build_timeline_def Let_def map_sum_def split: sum.splits)
  have at: "en_start (shown_sets ! i) = en_start (es ! i)" if "i < length es" for i
    using that by (simp add: es(1) close_last_nth clip_nth)
  have "map en_start shown_sets = map en_start es" using at by (auto intro!: nth_equalityI simp: es(1))
  moreover have "en_end (shown_sets ! i) \<le> en_start (shown_sets ! Suc i)" if "Suc i < length shown_sets" for i
    using that at [of "Suc i"] by (simp add: es(1) close_last_nth clip_nth)
  ultimately show ?thesis using es(2) by (simp add: windowed_def)
qed

lemma timeline_at_windowed:
  assumes w: "windowed es"
  shows "timeline_at es ms = Some i \<longleftrightarrow>
     i < length es \<and> en_start (es ! i) \<le> ms \<and> ms < en_end (es ! i) \<and> en_objects (es ! i) \<noteq> []"
proof -
  let ?k = "length (takeWhile (\<lambda>e. en_start e \<le> ms) es)"
  have below: "en_start (es ! j) \<le> ms" if "j < ?k" for j
    using that by (metis nth_mem set_takeWhileD takeWhile_nth)
  have above: "ms < en_start (es ! j)" if "?k \<le> j" "j < length es" for j
  proof -
    have "\<not> en_start (es ! ?k) \<le> ms" using that nth_length_takeWhile [of "\<lambda>e. en_start e \<le> ms" es] by simp
    moreover have "en_start (es ! ?k) \<le> en_start (es ! j)"
      using w that sorted_nth_mono [of "map en_start es" ?k j] by (simp add: windowed_def)
    ultimately show ?thesis by simp
  qed
  have kle: "?k \<le> length es" by (rule length_takeWhile_le)
  show ?thesis
  proof
    assume "timeline_at es ms = Some i"
    then have k: "?k \<noteq> 0" "i = ?k - 1" and rest: "ms < en_end (es ! i)" "en_objects (es ! i) \<noteq> []"
      by (auto simp: timeline_at_def Let_def split: if_splits)
    have "i < ?k" using k by simp
    then show "i < length es \<and> en_start (es ! i) \<le> ms \<and> ms < en_end (es ! i) \<and> en_objects (es ! i) \<noteq> []"
      using below [of i] kle rest by linarith
  next
    assume i: "i < length es \<and> en_start (es ! i) \<le> ms \<and> ms < en_end (es ! i) \<and> en_objects (es ! i) \<noteq> []"
    then have "i < ?k" using above [of i] by (meson leD not_le_imp_less)
    moreover have "\<not> Suc i < ?k"
    proof
      assume "Suc i < ?k"
      then have "en_start (es ! Suc i) \<le> ms" "Suc i < length es" using below [of "Suc i"] kle by simp_all
      moreover from this have "en_end (es ! i) \<le> en_start (es ! Suc i)" using w by (simp add: windowed_def)
      ultimately show False using i by (meson leD order_trans order_less_le_trans)
    qed
    ultimately have "?k = Suc i" by simp
    then show "timeline_at es ms = Some i" using i by (simp add: timeline_at_def Let_def)
  qed
qed

text \<open>A VobSub unit of one pixel.\<close>

definition one_pixel :: "u8 list" where
  "one_pixel = [0, 23, 0, 6, 0x40, 0, 0, 0, 0, 6, 5, 0, 0, 0, 0, 0, 0, 6, 0, 4, 0, 4, 0xFF]"

lemma one_pixel_shown:
  obtains obj where "vobsub_decode one_pixel [] = Inr (Some obj)"
proof -
  have "case vobsub_decode one_pixel [] of Inr (Some obj) \<Rightarrow> im_w obj = 1 | _ \<Rightarrow> False"
    by code_simp
  then show ?thesis using that by (auto split: sum.splits option.splits)
qed

section \<open>Properties\<close>

text \<open>C38. The file of display sets reads back, compressed or not: codec, private data and every block, where a
  duration of zero is none and empty private data is none. It asks of zstd that it gives back what it was
  given, in frames that begin with its magic number.\<close>

theorem sets_roundtrip:
  assumes "sets_fit codec codec_private blocks"
    and "\<And>raw z. deflate raw = Inr z \<Longrightarrow> take 4 z = ZSTD_MAGIC \<and> inflate z = Inr raw"
  shows "decode_sets inflate (encode_sets_zstd deflate codec codec_private blocks) =
    Inr (codec, if codec_private = Some [] then None else codec_private, map declared blocks)"
proof (rule decode_encoded [OF assms(1) _ _ refl])
  let ?raw = "encode_sets codec codec_private blocks"
  have plain: "take 4 ?raw \<noteq> ZSTD_MAGIC"
    by (simp add: encode_sets_def KBS1_def ZSTD_MAGIC_def Let_def)
  show "inflate (encode_sets_zstd deflate codec codec_private blocks) = Inr ?raw"
    if "take 4 (encode_sets_zstd deflate codec codec_private blocks) = ZSTD_MAGIC"
    using that plain assms(2) by (auto simp: encode_sets_zstd_def Let_def split: sum.splits)
  show "encode_sets_zstd deflate codec codec_private blocks = ?raw"
    if "take 4 (encode_sets_zstd deflate codec codec_private blocks) \<noteq> ZSTD_MAGIC"
    using that assms(2) by (auto simp: encode_sets_zstd_def Let_def split: sum.splits)
qed

text \<open>Witness of C38: two blocks, and a codec that puts the magic number in front.\<close>

theorem sets_roundtrip_witness:
  "decode_sets (\<lambda>z. Inr (drop 4 z)) (encode_sets_zstd (\<lambda>raw. Inr (ZSTD_MAGIC @ raw)) ''S_VOBSUB'' (Some [])
      [(1000, Some 0, [1, 2]), (3000, Some 500, one_pixel)])
   = Inr (''S_VOBSUB'', None, [(1000, None, [1, 2]), (3000, Some 500, one_pixel)])"
proof -
  have utf8: "is_utf8 (map char_byte ''S_VOBSUB'')" by code_simp
  have len: "length (encode_sets ''S_VOBSUB'' (Some []) [(1000, Some 0, [1, 2]), (3000, Some 500, one_pixel)]) < 2 ^ 64"
    by (simp add: encode_sets_def encode_block_def KBS1_def one_pixel_def Let_def)
  have fit: "sets_fit ''S_VOBSUB'' (Some []) [(1000, Some 0, [1, 2]), (3000, Some 500, one_pixel)]"
    unfolding sets_fit_def using utf8 len by (simp add: one_pixel_def)
  from sets_roundtrip [OF fit, of "\<lambda>raw. Inr (ZSTD_MAGIC @ raw)" "\<lambda>z. Inr (drop 4 z)"]
  show ?thesis by (auto simp: declared_def ZSTD_MAGIC_def)
qed

text \<open>C39. A frame is given the one set that is on screen at its time: for blocks in the order of their times, the
  lookup answers exactly the set whose window the time is in, if that is not a clear of the screen. There is
  never more than one, since a window ends where the next begins at the latest.\<close>

theorem frame_gets_its_set:
  assumes "build_timeline fl codec codec_private blocks = Inr shown_sets" and "sorted (map fst blocks)"
  shows "timeline_at shown_sets ms = Some i \<longleftrightarrow>
     i < length shown_sets \<and> en_start (shown_sets ! i) \<le> ms \<and> ms < en_end (shown_sets ! i)
     \<and> en_objects (shown_sets ! i) \<noteq> []"
  using timeline_at_windowed [OF windowed_build [OF assms]] .

text \<open>Witness of C39: one unit of VobSub at one second, without a duration. It is shown for five seconds.\<close>

theorem frame_gets_its_set_witness:
  "\<exists>shown_sets. build_timeline (\<lambda>x. x) ''S_VOBSUB'' None [(1000, None, one_pixel)] = Inr shown_sets
     \<and> timeline_at shown_sets 5999 = Some 0 \<and> timeline_at shown_sets 6000 \<noteq> Some 0"
proof -
  obtain obj where "vobsub_decode one_pixel [] = Inr (Some obj)" by (rule one_pixel_shown)
  then have b: "build_timeline (\<lambda>x. x) ''S_VOBSUB'' None [(1000, None, one_pixel)]
      = Inr [\<lparr>en_start = 1000, en_end = 6000, en_canvas_w = 0, en_objects = [obj]\<rparr>]"
    by (simp add: build_timeline_def starts_with_def set_entry_def close_last_def Let_def)
  have "sorted (map fst [(1000 :: u64, None :: u64 option, one_pixel)])" by simp
  from frame_gets_its_set [OF b this, of 5999 0] frame_gets_its_set [OF b this, of 6000 0] b show ?thesis by simp
qed

end
