(* ===== verification/Proxy_Trust.thy ===== *)
theory Proxy_Trust
  imports Rust_Strings
begin

text \<open>
  Which peers are proxies, \<open>crates/kahawai-hub/src/proxy.rs\<close>: the address a request is throttled by, and the origin a
  proxy forwards. The parsers of addresses and ranges and the membership of an address in a range are
  those of the standard library and of \<open>ipnet\<close>, the record \<open>addresses\<close>, as is the parser of an authority. The list of
  ranges is behind a lock: an operation reads or replaces it whole.
\<close>

section \<open>Definitions\<close>

record ('ip, 'net) addresses =
  parse_ip :: "string \<Rightarrow> 'ip option"
  parse_net :: "string \<Rightarrow> 'net option"
  net_of_ip :: "'ip \<Rightarrow> 'net"
  net_contains :: "'net \<Rightarrow> 'ip \<Rightarrow> bool"
  parse_authority :: "string \<Rightarrow> string option"

text \<open>\<open>ProxyTrust::parse\<close>: the first bad entry is the error.\<close>

fun parse_trust :: "('ip, 'net) addresses \<Rightarrow> string list \<Rightarrow> string + 'net list" where
  "parse_trust a [] = Inr []"
| "parse_trust a (e # es) =
     (case (case parse_ip a e of Some ip \<Rightarrow> Some (net_of_ip a ip) | None \<Rightarrow> parse_net a e) of
        None \<Rightarrow> Inl e
      | Some n \<Rightarrow> map_sum (\<lambda>x. x) (\<lambda>ns. n # ns) (parse_trust a es))"

definition reload :: "('ip, 'net) addresses \<Rightarrow> string list \<Rightarrow> 'net list \<Rightarrow> 'net list \<times> (string + nat)" where
  "reload a entries nets =
     (case parse_trust a entries of
        Inl e \<Rightarrow> (nets, Inl e)
      | Inr new \<Rightarrow> (new, Inr (length new)))"

definition trusts :: "('ip, 'net) addresses \<Rightarrow> 'net list \<Rightarrow> 'ip \<Rightarrow> bool" where
  "trusts a nets ip = list_ex (\<lambda>n. net_contains a n ip) nets"

text \<open>\<open>rsplit(',')\<close>: the pieces, the last one first.\<close>

definition hops :: "string \<Rightarrow> string list" where
  "hops header = rev (split_on (CHR '','') header)"

definition last_piece :: "string \<Rightarrow> string" where
  "last_piece header = trim (hd (hops header))"

definition forwarded_origin ::
    "('ip, 'net) addresses \<Rightarrow> 'net list \<Rightarrow> 'ip option \<Rightarrow> string option \<Rightarrow> string option \<Rightarrow> string option" where
  "forwarded_origin a nets peer proto host =
     Option.bind peer (\<lambda>peer.
     if \<not> trusts a nets peer then None
     else Option.bind proto (\<lambda>proto.
       (let proto = map ascii_lower (last_piece proto) in
        if proto \<notin> {''http'', ''https''} then None
        else Option.bind host (\<lambda>host.
          (let host = last_piece host in
           if CHR ''@'' \<in> set host then None
           else map_option (\<lambda>authority. proto @ ''://'' @ authority) (parse_authority a host))))))"

text \<open>The walk over \<open>X-Forwarded-For\<close>, from the right.\<close>

fun walk_hops :: "('ip, 'net) addresses \<Rightarrow> 'net list \<Rightarrow> 'ip \<Rightarrow> 'ip option \<Rightarrow> string list \<Rightarrow> 'ip" where
  "walk_hops a nets peer leftmost [] = unwrap_or leftmost peer"
| "walk_hops a nets peer leftmost (hop # rest) =
     (case parse_ip a (trim hop) of
        None \<Rightarrow> peer
      | Some ip \<Rightarrow> if \<not> trusts a nets ip then ip else walk_hops a nets peer (Some ip) rest)"

definition client_ip :: "('ip, 'net) addresses \<Rightarrow> 'net list \<Rightarrow> 'ip option \<Rightarrow> string option \<Rightarrow> 'ip option" where
  "client_ip a nets peer xff =
     Option.bind peer (\<lambda>peer.
     if \<not> trusts a nets peer then Some peer
     else (case xff of None \<Rightarrow> Some peer | Some h \<Rightarrow> Some (walk_hops a nets peer None (hops h))))"

section \<open>Lemmas\<close>

lemma split_on_append: "split_on d (xs @ d # ys) = split_on d xs @ split_on d ys"
proof (induction xs)
  case (Cons c xs)
  then show ?case by (cases "split_on d xs") auto
qed simp

lemma split_on_whole: "d \<notin> set xs \<Longrightarrow> split_on d xs = [xs]"
  by (induction xs) auto

text \<open>A proxy appends the address it was connected from.\<close>

definition append_hop :: "string \<Rightarrow> string \<Rightarrow> string" where
  "append_hop header hop = header @ CHR '','' # hop"

lemma hops_append: "CHR '','' \<notin> set hop \<Longrightarrow> hops (append_hop header hop) = hop # hops header"
  by (simp add: hops_def append_hop_def split_on_append split_on_whole)

lemma hops_appended:
  "list_all (\<lambda>v. CHR '','' \<notin> set v) via \<Longrightarrow> hops (foldl append_hop header via) = rev via @ hops header"
  by (induction via arbitrary: header) (simp_all add: hops_append)

definition proxy_hop :: "('ip, 'net) addresses \<Rightarrow> 'net list \<Rightarrow> string \<Rightarrow> bool" where
  "proxy_hop a nets hop \<longleftrightarrow> is_some_and (parse_ip a (trim hop)) (trusts a nets)"

lemma walk_through_proxies:
  "list_all (proxy_hop a nets) via \<Longrightarrow> \<exists>leftmost'. walk_hops a nets peer leftmost (via @ rest) = walk_hops a nets peer leftmost' rest"
proof (induction via arbitrary: leftmost)
  case (Cons v via)
  then obtain ip where "parse_ip a (trim v) = Some ip" "trusts a nets ip"
    by (auto simp: proxy_hop_def is_some_and_iff)
  with Cons show ?case by simp
qed auto

lemma walk_to_leftmost:
  "list_all (proxy_hop a nets) hs \<Longrightarrow> hs \<noteq> [] \<Longrightarrow>
     Some (walk_hops a nets peer leftmost hs) = parse_ip a (trim (last hs))"
proof (induction hs arbitrary: leftmost)
  case (Cons v hs)
  then obtain ip where "parse_ip a (trim v) = Some ip" "trusts a nets ip"
    by (auto simp: proxy_hop_def is_some_and_iff)
  with Cons show ?case by (cases "hs = []") simp_all
qed simp

lemma split_on_some: "split_on d xs \<noteq> []"
  by (induction xs) (auto split: list.splits)

lemma parse_trust_sound:
  "parse_trust a es = Inr ns \<Longrightarrow> length ns = length es" "parse_trust a es = Inl e \<Longrightarrow> e \<in> set es"
  by (induction es arbitrary: ns) (auto simp: map_sum_def split: option.splits sum.splits)

section \<open>A sample\<close>

text \<open>Addresses are letters; the only range is that of one address.\<close>

definition letters :: "(char, char) addresses" where
  "letters = \<lparr>parse_ip = (\<lambda>s. case s of [c] \<Rightarrow> Some c | _ \<Rightarrow> None), parse_net = (\<lambda>_. None), net_of_ip = (\<lambda>c. c),
     net_contains = (=), parse_authority = (\<lambda>s. if s = [] then None else Some s)\<rparr>"

section \<open>Properties\<close>

text \<open>C37. A client that no trusted range covers cannot choose the address it is throttled by. Each of the proxies in
  between appended where it was connected from, so the header ends in the address from which the client
  reached the first of them, behind whatever the client claims in the header it sent. When the peer is no
  proxy the answer is the peer; otherwise, for a client outside the trusted ranges, it is the address of the
  client. A client inside a trusted range, which every client is under a list such as \<open>0.0.0.0/0\<close>, passes for
  a proxy: when its claims name trusted addresses only, the answer is the leftmost one, as it claims.\<close>

theorem client_not_spoofed:
  assumes "parse_ip a (trim hop) = Some client" and "CHR '','' \<notin> set hop"
    and "list_all (\<lambda>v. CHR '','' \<notin> set v) via" and "list_all (proxy_hop a nets) via"
    and "header = foldl append_hop (append_hop claims hop) via"
  shows "(\<not> trusts a nets peer \<longrightarrow> client_ip a nets (Some peer) (Some header) = Some peer)
       \<and> (trusts a nets peer \<and> \<not> trusts a nets client \<longrightarrow>
            client_ip a nets (Some peer) (Some header) = Some client
          \<and> client_ip a nets (Some peer) (Some (foldl append_hop hop via)) = Some client)
       \<and> (trusts a nets peer \<and> trusts a nets client \<and> list_all (proxy_hop a nets) (split_on (CHR '','') claims) \<longrightarrow>
            client_ip a nets (Some peer) (Some header) = parse_ip a (trim (hd (split_on (CHR '','') claims))))"
proof -
  have header: "hops header = rev via @ hop # hops claims"
    using assms(2,3) by (simp add: assms(5) hops_appended hops_append)
  have bare: "hops (foldl append_hop hop via) = rev via @ [hop]"
    using assms(2,3) by (simp add: hops_appended) (simp add: hops_def split_on_whole)
  have "walk_hops a nets peer None (rev via @ hop # rest) = client" if "\<not> trusts a nets client" for rest
  proof -
    have "walk_hops a nets peer leftmost (hop # rest) = client" for leftmost
      using assms(1) that by simp
    then show ?thesis using walk_through_proxies [of a nets "rev via" peer None "hop # rest"] assms(4) by auto
  qed
  moreover have "Some (walk_hops a nets peer None (rev via @ hop # hops claims)) =
      parse_ip a (trim (hd (split_on (CHR '','') claims)))"
    if "trusts a nets client" "list_all (proxy_hop a nets) (split_on (CHR '','') claims)"
  proof -
    have "list_all (proxy_hop a nets) (rev via @ hop # hops claims)"
      using that assms(1,4) by (auto simp: hops_def proxy_hop_def)
    from walk_to_leftmost [OF this] show ?thesis by (simp add: hops_def split_on_some last_rev)
  qed
  ultimately show ?thesis by (simp add: client_ip_def header bare)
qed

text \<open>Witness of C37: a client claims to be another one, behind two proxies: in vain, unless it is trusted itself.\<close>

theorem client_not_spoofed_witness:
  "client_ip letters [CHR ''p'', CHR ''q''] (Some (CHR ''q'')) (Some ''x,c, p'') = Some (CHR ''c'')
   \<and> client_ip letters [CHR ''p'', CHR ''q'', CHR ''c'', CHR ''x''] (Some (CHR ''q'')) (Some ''x,c, p'') = Some (CHR ''x'')"
proof -
  have trims: "trim ''c'' = ''c''" "trim ''x'' = ''x''" "trim '' p'' = ''p''" by code_simp+
  have header: "''x,c, p'' = foldl append_hop (append_hop ''x'' ''c'') ['' p'']" by (simp add: append_hop_def)
  have p: "parse_ip letters (trim ''c'') = Some (CHR ''c'')" by (simp add: letters_def trims)
  have via: "list_all (proxy_hop letters nets) ['' p'']" if "CHR ''p'' \<in> set nets" for nets
    using that by (simp add: letters_def trusts_def proxy_hop_def trims list_ex_iff)
  note run = client_not_spoofed [OF p _ _ via header]
  have "client_ip letters [CHR ''p'', CHR ''q''] (Some (CHR ''q'')) (Some ''x,c, p'') = Some (CHR ''c'')"
    by (rule run [THEN conjunct2, THEN conjunct1, THEN mp, THEN conjunct1]) (simp_all add: trusts_def letters_def)
  moreover have "client_ip letters [CHR ''p'', CHR ''q'', CHR ''c'', CHR ''x''] (Some (CHR ''q'')) (Some ''x,c, p'')
      = parse_ip letters (trim (hd (split_on (CHR '','') ''x'')))"
    by (rule run [THEN conjunct2, THEN conjunct2, THEN mp])
      (simp_all add: trusts_def letters_def proxy_hop_def trims)
  ultimately show ?thesis by (simp add: trims) (simp add: letters_def)
qed

text \<open>A forwarded origin is only taken from a proxy, is one of the two schemes with an authority and has no user
  part; and a new list of proxies is adopted whole or not at all.\<close>

theorem origin_from_proxy_only:
  "(forwarded_origin a nets peer proto host = Some origin \<longrightarrow>
      (\<exists>p authority h. peer = Some p \<and> trusts a nets p \<and> parse_authority a h = Some authority \<and> CHR ''@'' \<notin> set h
         \<and> (origin = ''http://'' @ authority \<or> origin = ''https://'' @ authority)))
   \<and> (case reload a entries nets of
        (nets', Inl e) \<Rightarrow> nets' = nets \<and> e \<in> set entries
      | (nets', Inr n) \<Rightarrow> n = length entries \<and> length nets' = n)"
proof (intro conjI impI)
  assume "forwarded_origin a nets peer proto host = Some origin"
  then show "\<exists>p authority h. peer = Some p \<and> trusts a nets p \<and> parse_authority a h = Some authority \<and> CHR ''@'' \<notin> set h
      \<and> (origin = ''http://'' @ authority \<or> origin = ''https://'' @ authority)"
    by (auto simp: forwarded_origin_def Option.bind_eq_Some_conv Let_def split: if_splits)
next
  show "case reload a entries nets of
      (nets', Inl e) \<Rightarrow> nets' = nets \<and> e \<in> set entries
    | (nets', Inr n) \<Rightarrow> n = length entries \<and> length nets' = n"
    using parse_trust_sound [of a entries] by (auto simp: reload_def split: sum.splits)
qed

text \<open>Witness: the origin of a proxy.\<close>

theorem origin_from_proxy_only_witness:
  "forwarded_origin letters ''p'' (Some (CHR ''p'')) (Some ''HTTPS'') (Some ''x.org, host'') = Some ''https://host''
   \<and> trusts letters ''p'' (CHR ''p'')"
proof -
  have f: "forwarded_origin letters ''p'' (Some (CHR ''p'')) (Some ''HTTPS'') (Some ''x.org, host'') = Some ''https://host''"
    by code_simp
  from origin_from_proxy_only [of letters "''p''" "Some (CHR ''p'')" "Some ''HTTPS''" "Some ''x.org, host''" "''https://host''" "[]"] f
  show ?thesis by auto
qed

end
