(* ===== verification/Content_Identity.thy ===== *)
theory Content_Identity
  imports Burn_Sets
begin

text \<open>
  What identifies a file and its content between a mediahost and the hub: the ED2K hash and the CRC in a name
  (\<open>crates/kahawai-mediahost/src/ed2k.rs\<close>), the hashes of its ends (\<open>scan.rs\<close>), and the key of a source, written by
  the mediahost (\<open>catalog.rs\<close>) and read by the hub's store (\<open>crates/kahawai-mediadb/src/catalogue.rs\<close>). MD4 and XXH3 are
  parameters; a hasher that is fed in pieces has the hash of what it was fed, so its state is that.
\<close>

section \<open>Definitions\<close>

subsection \<open>ED2K\<close>

definition ED2K_CHUNK :: nat where "ED2K_CHUNK = 9728000"

record Ed2k =
  ek_hasher :: "u8 list"
  ek_fill :: nat
  ek_chunks :: "u8 list list"

definition ed2k_new :: Ed2k where
  "ed2k_new = \<lparr>ek_hasher = [], ek_fill = 0, ek_chunks = []\<rparr>"

text \<open>One turn of the loop of \<open>update\<close>.\<close>

definition ed2k_feed :: "(u8 list \<Rightarrow> u8 list) \<Rightarrow> u8 list \<Rightarrow> Ed2k \<Rightarrow> Ed2k" where
  "ed2k_feed md4 piece st =
     (let hasher = ek_hasher st @ piece; filled = ek_fill st + length piece in
      if filled = ED2K_CHUNK then \<lparr>ek_hasher = [], ek_fill = 0, ek_chunks = ek_chunks st @ [md4 hasher]\<rparr>
      else st\<lparr>ek_hasher := hasher, ek_fill := filled\<rparr>)"

text \<open>A chunk that is more than full would be an underflow, \<open>None\<close>; a full one is closed without a byte.\<close>

function ed2k_update :: "(u8 list \<Rightarrow> u8 list) \<Rightarrow> u8 list \<Rightarrow> Ed2k \<Rightarrow> Ed2k option" where
  "ed2k_update md4 data st =
     (if data = [] then Some st
      else if ED2K_CHUNK < ek_fill st then None
      else (let n = min (length data) (ED2K_CHUNK - ek_fill st) in
        ed2k_update md4 (drop n data) (ed2k_feed md4 (take n data) st)))"
  by auto
termination
proof (relation "measure (\<lambda>(md4, data, st). 2 * length data + (if ek_fill st = ED2K_CHUNK then 1 else 0))")
  fix md4 :: "u8 list \<Rightarrow> u8 list" and data :: "u8 list" and st :: Ed2k and n
  assume d: "data \<noteq> []" "\<not> ED2K_CHUNK < ek_fill st" and n: "n = min (length data) (ED2K_CHUNK - ek_fill st)"
  have "ek_fill (ed2k_feed md4 (take n data) st) \<noteq> ED2K_CHUNK"
    by (simp add: ed2k_feed_def Let_def ED2K_CHUNK_def)
  moreover have "ek_fill st = ED2K_CHUNK \<or> 0 < n" using d n by auto
  ultimately show "((md4, drop n data, ed2k_feed md4 (take n data) st), md4, data, st)
      \<in> measure (\<lambda>(md4, data, st). 2 * length data + (if ek_fill st = ED2K_CHUNK then 1 else 0))"
    using d by auto
qed simp

declare ed2k_update.simps [simp del]

definition hex_lower :: "nat \<Rightarrow> char" where
  "hex_lower d = (if d < 10 then char_of (48 + d) else char_of (87 + d))"

definition hex_of :: "u8 list \<Rightarrow> string" where
  "hex_of bs = concat (map (\<lambda>b. [hex_lower (unat b div 16), hex_lower (unat b mod 16)]) bs)"

definition ed2k_finish :: "(u8 list \<Rightarrow> u8 list) \<Rightarrow> Ed2k \<Rightarrow> string" where
  "ed2k_finish md4 st =
     hex_of (if ek_chunks st = [] then md4 (ek_hasher st)
             else md4 (concat (ek_chunks st @ [md4 (ek_hasher st)])))"

text \<open>The whole of a file, read in pieces.\<close>

definition ed2k_pieces :: "(u8 list \<Rightarrow> u8 list) \<Rightarrow> u8 list list \<Rightarrow> string option" where
  "ed2k_pieces md4 parts =
     map_option (ed2k_finish md4)
       (foldl (\<lambda>st part. Option.bind st (ed2k_update md4 part)) (Some ed2k_new) parts)"

subsection \<open>The CRC in a name\<close>

definition is_hex_digit :: "char \<Rightarrow> bool" where
  "is_hex_digit c \<longleftrightarrow> hex_val c \<noteq> None"

definition crc_at :: "string \<Rightarrow> nat \<Rightarrow> nat option" where
  "crc_at s i =
     (let opened = s ! i in
      if (opened = CHR ''['' \<or> opened = CHR ''('')
         \<and> s ! (i + 9) = (if opened = CHR ''['' then CHR '']'' else CHR '')'')
         \<and> list_all is_hex_digit (take 8 (drop (i + 1) s))
      then parse_hex (2 ^ 32) (take 8 (drop (i + 1) s)) else None)"

definition filename_crc32 :: "string \<Rightarrow> nat option" where
  "filename_crc32 s = foldl (\<lambda>best i. opt_or (crc_at s i) best) None [0..<length s - 9]"

subsection \<open>The hashes of the ends\<close>

definition IDENTITY_CHUNK :: nat where "IDENTITY_CHUNK = 64 * 1024"

function sum_u64_le :: "u8 list \<Rightarrow> u64" where
  "sum_u64_le bs =
     (if bs = [] then 0
      else of_nat (le_val (take 8 bs @ replicate (8 - length (take 8 bs)) 0)) + sum_u64_le (drop 8 bs))"
  by auto
termination
  by (relation "measure length") auto

declare sum_u64_le.simps [simp del]

text \<open>Of a file that may have changed its size since; a file that ends early is the error of \<open>read_exact\<close>.\<close>

definition identity_hashes :: "(u8 list \<Rightarrow> u64) \<Rightarrow> u8 list \<Rightarrow> nat \<Rightarrow> (u64 \<times> u64 \<times> u64) option" where
  "identity_hashes xxh3 content file_size =
     (let n = min file_size IDENTITY_CHUNK; tail_at = file_size - IDENTITY_CHUNK in
      if length content < n \<or> length content < tail_at + n then None
      else (let h = take n content; t = take n (drop tail_at content) in
        Some (xxh3 h, xxh3 t, of_nat file_size + sum_u64_le h + sum_u64_le t)))"

subsection \<open>The key of a source\<close>

definition catalog_source_key :: "string \<Rightarrow> string \<Rightarrow> u8 list" where
  "catalog_source_key root_token path_rel = map char_byte root_token @ [0] @ map char_byte path_rel"

definition split_source_key :: "u8 list \<Rightarrow> (string \<times> string) option" where
  "split_source_key key =
     (case dropWhile (\<lambda>b. b \<noteq> 0) key of
        [] \<Rightarrow> None
      | _ # behind \<Rightarrow>
          (let front = takeWhile (\<lambda>b. b \<noteq> 0) key in
           if is_utf8 front \<and> is_utf8 behind then Some (map byte_char front, map byte_char behind) else None))"

datatype key_error = Not_Text | No_Separator | Invalid_Address | Not_Normalized | Not_Confined

text \<open>\<open>Path::components\<close>, whether all are normal: no root, no current and no parent directory.\<close>

definition confined :: "string \<Rightarrow> bool" where
  "confined path \<longleftrightarrow> \<not> starts_with path ''/'' \<and> hd (split_on (CHR ''/'') path) \<noteq> ''.''
     \<and> ''..'' \<notin> set (split_on (CHR ''/'') path)"

definition store_source_key :: "u8 list \<Rightarrow> key_error + string \<times> string" where
  "store_source_key key =
     (if \<not> is_utf8 key then Inl Not_Text
      else (case split_once_at [CHR 0x00] (map byte_char key) of
        None \<Rightarrow> Inl No_Separator
      | Some (token, path) \<Rightarrow>
          if token = [] \<or> path = [] \<or> CHR 0x00 \<in> set path \<or> CHR 0x5C \<in> set path then Inl Invalid_Address
          else if \<not> list_all (\<lambda>part. part \<noteq> [] \<and> part \<noteq> ''.'' \<and> part \<noteq> ''..'') (split_on (CHR ''/'') path)
          then Inl Not_Normalized
          else if \<not> confined path then Inl Not_Confined
          else Inr (token, path)))"

section \<open>ED2K in pieces\<close>

text \<open>What the hash is: of a short file its MD4, else of the MD4s of its chunks, of which the last may be empty.\<close>

function ed2k_chunks :: "u8 list \<Rightarrow> u8 list list" where
  "ed2k_chunks data =
     (if length data < ED2K_CHUNK then [data]
      else take ED2K_CHUNK data # ed2k_chunks (drop ED2K_CHUNK data))"
  by auto
termination
  by (relation "measure length") (auto simp: ED2K_CHUNK_def)

declare ed2k_chunks.simps [simp del]

definition ed2k_of :: "(u8 list \<Rightarrow> u8 list) \<Rightarrow> u8 list \<Rightarrow> string" where
  "ed2k_of md4 data =
     hex_of (if length data < ED2K_CHUNK then md4 data else md4 (concat (map md4 (ed2k_chunks data))))"

definition ed2k_rep :: "(u8 list \<Rightarrow> u8 list) \<Rightarrow> u8 list list \<Rightarrow> u8 list \<Rightarrow> Ed2k \<Rightarrow> bool" where
  "ed2k_rep md4 full rest st \<longleftrightarrow>
     list_all (\<lambda>c. length c = ED2K_CHUNK) full \<and> length rest < ED2K_CHUNK
   \<and> st = \<lparr>ek_hasher = rest, ek_fill = length rest, ek_chunks = map md4 full\<rparr>"

lemma chunk_pos: "0 < ED2K_CHUNK"
  by (simp add: ED2K_CHUNK_def)

lemma update_rep:
  "ed2k_rep md4 full rest st \<Longrightarrow> \<exists>full' rest' st'. ed2k_update md4 data st = Some st'
     \<and> ed2k_rep md4 full' rest' st' \<and> concat full' @ rest' = concat full @ rest @ data"
proof (induction md4 data st arbitrary: full rest rule: ed2k_update.induct)
  case (1 md4 data st)
  show ?case
  proof (cases "data = []")
    case True
    then show ?thesis using 1(2) by (auto simp: ed2k_update.simps)
  next
    case False
    have st: "ek_fill st = length rest" "length rest < ED2K_CHUNK" using 1(2) by (simp_all add: ed2k_rep_def)
    define n where "n = min (length data) (ED2K_CHUNK - ek_fill st)"
    let ?st = "ed2k_feed md4 (take n data) st"
    have step: "ed2k_update md4 data st = ed2k_update md4 (drop n data) ?st"
      using False st by (simp add: ed2k_update.simps [of md4 data] n_def Let_def)
    have fit: "length rest + length (take n data) \<le> ED2K_CHUNK" using st by (simp add: n_def)
    have "\<exists>full1 rest1. ed2k_rep md4 full1 rest1 ?st \<and> concat full1 @ rest1 = concat full @ rest @ take n data"
    proof (cases "length rest + length (take n data) = ED2K_CHUNK")
      case True
      then have "ed2k_rep md4 (full @ [rest @ take n data]) [] ?st"
        using 1(2) chunk_pos by (simp add: ed2k_rep_def ed2k_feed_def Let_def)
      then show ?thesis by fastforce
    next
      case False
      then have "ed2k_rep md4 full (rest @ take n data) ?st"
        using 1(2) fit by (simp add: ed2k_rep_def ed2k_feed_def Let_def)
      then show ?thesis by fastforce
    qed
    then obtain full1 rest1 where r: "ed2k_rep md4 full1 rest1 ?st"
      and c: "concat full1 @ rest1 = concat full @ rest @ take n data" by blast
    from 1(1) [OF False _ n_def r] st obtain full' rest' st' where
      "ed2k_update md4 (drop n data) ?st = Some st'" "ed2k_rep md4 full' rest' st'"
      "concat full' @ rest' = concat full1 @ rest1 @ drop n data" by auto
    moreover from this(3) c have "concat full' @ rest' = concat full @ rest @ data"
      by (metis append.assoc append_take_drop_id)
    ultimately show ?thesis using step by auto
  qed
qed

lemma pieces_rep:
  "ed2k_rep md4 full rest st \<Longrightarrow> \<exists>full' rest' st'.
     foldl (\<lambda>st part. Option.bind st (ed2k_update md4 part)) (Some st) parts = Some st'
     \<and> ed2k_rep md4 full' rest' st' \<and> concat full' @ rest' = concat full @ rest @ concat parts"
proof (induction parts arbitrary: full rest st)
  case (Cons part parts)
  from update_rep [OF Cons.prems, of part] obtain full1 rest1 st1 where
    1: "ed2k_update md4 part st = Some st1" "ed2k_rep md4 full1 rest1 st1"
    "concat full1 @ rest1 = concat full @ rest @ part" by blast
  from Cons.IH [OF 1(2)] obtain full' rest' st' where 2:
    "foldl (\<lambda>st part. Option.bind st (ed2k_update md4 part)) (Some st1) parts = Some st'"
    "ed2k_rep md4 full' rest' st'" "concat full' @ rest' = concat full1 @ rest1 @ concat parts" by blast
  have "concat full' @ rest' = concat full @ rest @ concat (part # parts)"
    using 1(3) 2(3) by (metis append.assoc concat.simps(2))
  then show ?case using 1(1) 2(1,2) by auto
qed auto

lemma chunks_of_rep:
  "list_all (\<lambda>c. length c = ED2K_CHUNK) full \<Longrightarrow> length rest < ED2K_CHUNK
    \<Longrightarrow> ed2k_chunks (concat full @ rest) = full @ [rest]"
proof (induction full)
  case (Cons c full)
  have "ed2k_chunks (c @ concat full @ rest) = c # ed2k_chunks (concat full @ rest)"
    using Cons.prems(1) by (subst ed2k_chunks.simps) simp
  with Cons show ?case by simp
qed (simp add: ed2k_chunks.simps [of rest])

section \<open>Keys\<close>

lemma map_byte_char [simp]: "map byte_char (map char_byte s) = s"
  by (simp add: comp_def)

lemma byte_char_0: "byte_char 0 = CHR 0x00"
  by code_simp

lemma char_byte_zero: "char_byte c = 0 \<longleftrightarrow> c = CHR 0x00"
proof
  assume "char_byte c = 0"
  then have "byte_char (char_byte c) = byte_char 0" by simp
  then show "c = CHR 0x00" by (simp add: byte_char_0)
qed (simp add: char_byte_def)

lemma key_parts:
  assumes "CHR 0x00 \<notin> set token"
  shows "takeWhile (\<lambda>b. b \<noteq> 0) (catalog_source_key token path) = map char_byte token"
    "dropWhile (\<lambda>b. b \<noteq> 0) (catalog_source_key token path) = 0 # map char_byte path"
proof -
  have "b \<noteq> 0" if "b \<in> set (map char_byte token)" for b using that assms by (auto simp: char_byte_zero)
  from takeWhile_append2 [of "map char_byte token" "\<lambda>b. b \<noteq> 0", OF this]
    dropWhile_append2 [of "map char_byte token" "\<lambda>b. b \<noteq> 0", OF this]
  show "takeWhile (\<lambda>b. b \<noteq> 0) (catalog_source_key token path) = map char_byte token"
    "dropWhile (\<lambda>b. b \<noteq> 0) (catalog_source_key token path) = 0 # map char_byte path"
    by (simp_all add: catalog_source_key_def)
qed

lemma utf8_next_append:
  assumes "fst (utf8_next xs)"
  shows "utf8_next (xs @ ys) = utf8_next xs \<and> snd (utf8_next xs) \<le> length xs"
proof (cases xs)
  case (Cons a r)
  have "utf8_width a = 1 \<or> utf8_width a \<noteq> 0 \<and> r \<noteq> [] \<and> second_ok a (r ! 0) \<and> (utf8_width a = 2
      \<or> 2 \<le> length r \<and> cont_byte (r ! 1) \<and> (utf8_width a = 3 \<or> 3 \<le> length r \<and> cont_byte (r ! 2)))"
    using assms Cons by (simp add: Let_def split: if_split_asm)
  then consider (one) "utf8_width a = 1" | (two) "utf8_width a = 2" "r \<noteq> []" "second_ok a (r ! 0)"
    | (more) "utf8_width a \<noteq> 0" "utf8_width a \<noteq> 1" "utf8_width a \<noteq> 2" "2 \<le> length r" "second_ok a (r ! 0)" "cont_byte (r ! 1)"
      "utf8_width a = 3 \<or> 3 \<le> length r \<and> cont_byte (r ! 2)" by auto
  then show ?thesis
  proof cases
    case more
    then have "r \<noteq> []" by auto
    with more Cons show ?thesis by (auto simp: Let_def nth_append)
  qed (use Cons in \<open>auto simp: Let_def nth_append Suc_le_eq\<close>)
qed (use assms in simp)

lemma is_utf8_append: "is_utf8 xs \<Longrightarrow> is_utf8 (xs @ ys) = is_utf8 ys"
proof (induction xs rule: is_utf8.induct)
  case (1 xs)
  show ?case
  proof (cases "xs = []")
    case False
    then have n: "fst (utf8_next xs)" "is_utf8 (drop (snd (utf8_next xs)) xs)"
      using 1(2) by (simp_all add: is_utf8.simps [of xs])
    with 1(1) False have "is_utf8 (drop (snd (utf8_next xs)) xs @ ys) = is_utf8 ys" by blast
    then show ?thesis using False n utf8_next_append [OF n(1), of ys] by (simp add: is_utf8.simps [of "xs @ ys"])
  qed simp
qed

lemma is_utf8_nul: "is_utf8 (0 # ys) = is_utf8 ys"
  by (simp add: is_utf8.simps [of "0 # ys"] utf8_width_def Let_def)

lemma normal_confined:
  assumes "path \<noteq> []" "list_all (\<lambda>part. part \<noteq> [] \<and> part \<noteq> ''.'' \<and> part \<noteq> ''..'') (split_on (CHR ''/'') path)"
  shows "confined path"
proof -
  obtain w ws where ws: "split_on (CHR ''/'') path = w # ws" by (meson list.exhaust split_on_nonempty)
  have "\<not> starts_with path ''/''"
  proof
    assume "starts_with path ''/''"
    then obtain s where "path = CHR ''/'' # s" by (cases path) (auto simp: starts_with_def)
    then show False using assms(2) by simp
  qed
  with ws assms(2) show ?thesis by (auto simp: confined_def list_all_iff)
qed

section \<open>Properties\<close>

text \<open>C40. The hash does not depend on how a file is read: however its bytes are cut into pieces, the hasher never
  panics and gives the ED2K hash of the whole.\<close>

theorem ed2k_any_pieces:
  "ed2k_pieces md4 parts = Some (ed2k_of md4 (concat parts))"
proof -
  have "ed2k_rep md4 [] [] ed2k_new" by (simp add: ed2k_rep_def ed2k_new_def chunk_pos)
  from pieces_rep [OF this, of parts] obtain full rest st where
    run: "foldl (\<lambda>st part. Option.bind st (ed2k_update md4 part)) (Some ed2k_new) parts = Some st"
    and rep: "ed2k_rep md4 full rest st" and all: "concat full @ rest = concat parts" by auto
  have len: "list_all (\<lambda>c. length c = ED2K_CHUNK) full" "length rest < ED2K_CHUNK"
    using rep by (simp_all add: ed2k_rep_def)
  have "length (concat parts) < ED2K_CHUNK \<longleftrightarrow> full = []"
    using len unfolding all [symmetric] by (cases full) auto
  then have "ed2k_finish md4 st = ed2k_of md4 (concat parts)"
    using rep chunks_of_rep [OF len] all
    by (cases "full = []") (auto simp: ed2k_rep_def ed2k_finish_def ed2k_of_def)
  then show ?thesis using run by (simp add: ed2k_pieces_def)
qed

text \<open>The address of a source survives the wire: the key the mediahost writes for a root and a normal, relative path is
  read back as that root and path by both sides.\<close>

theorem source_key_reads_back:
  assumes "CHR 0x00 \<notin> set token" and "token \<noteq> []" and "CHR 0x00 \<notin> set path" and "CHR 0x5C \<notin> set path"
    and "list_all (\<lambda>part. part \<noteq> [] \<and> part \<noteq> ''.'' \<and> part \<noteq> ''..'') (split_on (CHR ''/'') path)"
    and "is_utf8 (map char_byte token)" and "is_utf8 (map char_byte path)"
  shows "split_source_key (catalog_source_key token path) = Some (token, path)
       \<and> store_source_key (catalog_source_key token path) = Inr (token, path)"
proof -
  let ?key = "catalog_source_key token path"
  have split: "split_source_key ?key = Some (token, path)"
    using assms(6,7) by (simp add: split_source_key_def key_parts [OF assms(1)] Let_def comp_def)
  have "is_utf8 ?key" using assms(6,7) by (simp add: catalog_source_key_def is_utf8_append is_utf8_nul)
  moreover have "split_once_at [CHR 0x00] (map byte_char ?key) = Some (token, path)"
  proof -
    have "map byte_char ?key = token @ CHR 0x00 # path"
      by (simp add: catalog_source_key_def comp_def byte_char_0)
    then show ?thesis using split_once_at_front [of token "[CHR 0x00]" "CHR 0x00" path] assms(1) by auto
  qed
  moreover have "path \<noteq> []" using assms(5) by auto
  ultimately have "store_source_key ?key = Inr (token, path)"
    using assms normal_confined [OF _ assms(5)] by (simp add: store_source_key_def)
  with split show ?thesis by simp
qed

text \<open>Witness: a film.\<close>

theorem source_key_reads_back_witness:
  "store_source_key (catalog_source_key ''r1'' ''Films/Heat.mkv'') = Inr (''r1'', ''Films/Heat.mkv'')"
proof -
  have utf8: "is_utf8 (map char_byte ''r1'')" "is_utf8 (map char_byte ''Films/Heat.mkv'')" by code_simp+
  have normal: "list_all (\<lambda>part. part \<noteq> [] \<and> part \<noteq> ''.'' \<and> part \<noteq> ''..'') (split_on (CHR ''/'') ''Films/Heat.mkv'')"
    by simp
  show ?thesis by (rule source_key_reads_back [THEN conjunct2]) (use utf8 normal in simp_all)
qed

end
