(* ===== verification/Title_Match.thy ===== *)
theory Title_Match
  imports Names_Props
begin

text \<open>
  Which answer of a metadata provider is the title on disk, \<open>crates/kahawai-hub/src/enrich.rs\<close>: the folding of titles, the
  automatic pick, and the order in which candidates are shown to an administrator. The decomposition of
  letters into base and mark is a library's, the parameter \<open>base_letters\<close>; ratings are rationals, with \<open>fl\<close> the
  rounding of the product. Years are integers: the difference of two leaves 64 bits only for a wanted year near
  their end.
\<close>

section \<open>Definitions\<close>

subsection \<open>Folding\<close>

definition NUMBER_WORDS :: "(string \<times> string) list" where
  "NUMBER_WORDS =
     [(''zero'', ''0''), (''one'', ''1''), (''two'', ''2''), (''three'', ''3''), (''four'', ''4''), (''five'', ''5''),
      (''six'', ''6''), (''seven'', ''7''), (''eight'', ''8''), (''nine'', ''9''), (''ten'', ''10''), (''eleven'', ''11''),
      (''twelve'', ''12''), (''thirteen'', ''13''), (''fourteen'', ''14''), (''fifteen'', ''15''), (''sixteen'', ''16''),
      (''seventeen'', ''17''), (''eighteen'', ''18''), (''nineteen'', ''19''), (''twenty'', ''20'')]"

definition ROMAN_NUMBERS :: "(string \<times> string) list" where
  "ROMAN_NUMBERS =
     [(''ii'', ''2''), (''iii'', ''3''), (''iv'', ''4''), (''vi'', ''6''), (''vii'', ''7''), (''viii'', ''8''),
      (''ix'', ''9''), (''xi'', ''11''), (''xii'', ''12''), (''xiii'', ''13'')]"

record title_tables =
  tt_unicode :: Unicode
  tt_base_letters :: "string \<Rightarrow> string"

definition spell_and :: "string \<Rightarrow> string" where
  "spell_and s = concat (map (\<lambda>c. if c = CHR ''&'' \<or> c = CHR ''+'' then '' and '' else [c]) s)"

definition number_word :: "string \<Rightarrow> string" where
  "number_word w = unwrap_or (map_of (NUMBER_WORDS @ ROMAN_NUMBERS) w) w"

definition fold_title :: "title_tables \<Rightarrow> string \<Rightarrow> string" where
  "fold_title tables s =
     join_str '' '' (map number_word (split_whitespace
       (tt_base_letters tables (normalize_title (tt_unicode tables) (spell_and s)))))"

subsection \<open>The automatic pick\<close>

record TitleCandidate =
  cd_id :: u64
  cd_title :: string
  cd_original_title :: "string option"
  cd_overview :: "string option"
  cd_poster_path :: "string option"
  cd_vote_average :: "rat option"
  cd_release_date :: "string option"
  cd_original_language :: "string option"

definition for_test :: "u64 \<Rightarrow> string \<Rightarrow> string option \<Rightarrow> TitleCandidate" where
  "for_test i title aired =
     \<lparr>cd_id = i, cd_title = title, cd_original_title = None, cd_overview = None, cd_poster_path = None,
      cd_vote_average = None, cd_release_date = aired, cd_original_language = None\<rparr>"

text \<open>\<open>get(..4)\<close> of a text, and \<open>parse\<close> of a signed number.\<close>

definition get_year_text :: "string \<Rightarrow> string option" where
  "get_year_text s =
     (if length s < 4 \<or> (4 < length s \<and> is_continuation (s ! 4)) then None else Some (take 4 s))"

definition parse_i64 :: "string \<Rightarrow> int option" where
  "parse_i64 s =
     (case s of
        CHR ''-'' # ds \<Rightarrow>
          if ds \<noteq> [] \<and> list_all is_ascii_digit ds \<and> digits_val 0 ds \<le> 2 ^ 63 then Some (- int (digits_val 0 ds)) else None
      | _ \<Rightarrow> map_option int (parse_nat (2 ^ 63) s))"

definition candidate_year :: "TitleCandidate \<Rightarrow> int option" where
  "candidate_year c = Option.bind (Option.bind (cd_release_date c) get_year_text) parse_i64"

definition spaceless :: "string \<Rightarrow> string" where
  "spaceless s = filter (\<lambda>c. c \<noteq> CHR '' '') s"

definition title_eq :: "title_tables \<Rightarrow> string \<Rightarrow> TitleCandidate \<Rightarrow> bool" where
  "title_eq tables wanted c \<longleftrightarrow>
     fold_title tables (cd_title c) = wanted
   \<or> is_some_and (cd_original_title c) (\<lambda>t. fold_title tables t = wanted)
   \<or> spaceless (fold_title tables (cd_title c)) = spaceless wanted"

definition year_near :: "int \<Rightarrow> int \<Rightarrow> bool" where
  "year_near w h \<longleftrightarrow> \<bar>w - h\<bar> \<le> 1"

definition year_ok :: "int option \<Rightarrow> TitleCandidate \<Rightarrow> bool" where
  "year_ok year c \<longleftrightarrow>
     (case (year, candidate_year c) of (Some w, Some h) \<Rightarrow> year_near w h | _ \<Rightarrow> True)"

definition year_agrees :: "int option \<Rightarrow> TitleCandidate \<Rightarrow> bool" where
  "year_agrees year c \<longleftrightarrow>
     (case (year, candidate_year c) of (Some w, Some h) \<Rightarrow> year_near w h | _ \<Rightarrow> False)"

text \<open>A colon, a hyphen, an en dash or an em dash; what stands before the first of them.\<close>

definition SUBTITLE_MARKS :: "string list" where
  "SUBTITLE_MARKS = ['':'', ''-'', [CHR 0xE2, CHR 0x80, CHR 0x93], [CHR 0xE2, CHR 0x80, CHR 0x94]]"

fun head_before :: "string list \<Rightarrow> string \<Rightarrow> string option" where
  "head_before marks [] = None"
| "head_before marks (c # s) =
     (if list_ex (starts_with (c # s)) marks then Some [] else map_option (\<lambda>h. c # h) (head_before marks s))"

definition subtitled :: "title_tables \<Rightarrow> string \<Rightarrow> TitleCandidate \<Rightarrow> bool" where
  "subtitled tables wanted c \<longleftrightarrow>
     is_some_and (head_before SUBTITLE_MARKS (cd_title c)) (\<lambda>h. fold_title tables h = wanted)"

definition franchise :: "title_tables \<Rightarrow> string \<Rightarrow> TitleCandidate \<Rightarrow> bool" where
  "franchise tables wanted c \<longleftrightarrow>
     (let ct = fold_title tables (cd_title c) in
      10 \<le> length ct \<and> (ends_with wanted ct \<or> ends_with ct wanted))"

datatype confidence = Auto | Weak

text \<open>The tiers, in order; the first candidate of the first tier that has one.\<close>

definition tiers :: "title_tables \<Rightarrow> string \<Rightarrow> int option \<Rightarrow> ((TitleCandidate \<Rightarrow> bool) \<times> confidence) list" where
  "tiers tables wanted year =
     [(\<lambda>c. title_eq tables wanted c \<and> year_agrees year c, Auto),
      (\<lambda>c. subtitled tables wanted c \<and> year_agrees year c, Auto),
      (\<lambda>c. title_eq tables wanted c \<and> year_ok year c, Auto),
      (\<lambda>c. subtitled tables wanted c \<and> year_ok year c, Weak),
      (\<lambda>c. franchise tables wanted c \<and> year_ok year c, Weak)]"

fun first_tier :: "((TitleCandidate \<Rightarrow> bool) \<times> confidence) list \<Rightarrow> TitleCandidate list \<Rightarrow> (TitleCandidate \<times> confidence) option" where
  "first_tier [] cs = None"
| "first_tier ((p, v) # ts) cs =
     (case List.find p cs of Some c \<Rightarrow> Some (c, v) | None \<Rightarrow> first_tier ts cs)"

definition pick_candidate ::
    "title_tables \<Rightarrow> TitleCandidate list \<Rightarrow> string \<Rightarrow> int option \<Rightarrow> (TitleCandidate \<times> confidence) option" where
  "pick_candidate tables candidates title year =
     (case first_tier (tiers tables (fold_title tables title) year) candidates of
        Some r \<Rightarrow> Some r
      | None \<Rightarrow>
          (case candidates of
             [only] \<Rightarrow> if year_ok year only then Some (only, Weak) else None
           | _ \<Rightarrow> None))"

subsection \<open>The order of a list to choose from\<close>

record CatalogCandidate =
  cc_id :: u64
  cc_provider :: string
  cc_title :: string
  cc_original_title :: "string option"
  cc_overview :: "string option"
  cc_poster_path :: "string option"
  cc_vote_average :: "rat option"
  cc_release_date :: "string option"
  cc_original_language :: "string option"
  cc_format :: string
  cc_poster_url :: "string option"

record AnilistCandidate =
  al_id :: u32
  al_provider :: string
  al_title :: "string option"
  al_overview :: "string option"
  al_poster_path :: "string option"
  al_poster_url :: "string option"
  al_release_date :: "string option"
  al_vote_average :: "rat option"
  al_format :: "string option"

datatype ProviderCandidate = Catalog CatalogCandidate | Anilist AnilistCandidate

fun pc_title :: "ProviderCandidate \<Rightarrow> string option" where
  "pc_title (Catalog c) = Some (cc_title c)"
| "pc_title (Anilist c) = al_title c"

fun pc_release_date :: "ProviderCandidate \<Rightarrow> string option" where
  "pc_release_date (Catalog c) = cc_release_date c"
| "pc_release_date (Anilist c) = al_release_date c"

fun pc_vote_average :: "ProviderCandidate \<Rightarrow> rat option" where
  "pc_vote_average (Catalog c) = cc_vote_average c"
| "pc_vote_average (Anilist c) = al_vote_average c"

fun pc_anilist :: "ProviderCandidate \<Rightarrow> bool" where
  "pc_anilist (Catalog c) = False"
| "pc_anilist (Anilist c) = True"

text \<open>\<open>as i64\<close>: towards zero, and saturating.\<close>

definition rat_to_i64 :: "rat \<Rightarrow> int" where
  "rat_to_i64 x = max (- (2 ^ 63)) (min (2 ^ 63 - 1) (if x < 0 then - \<lfloor>- x\<rfloor> else \<lfloor>x\<rfloor>))"

record RankKey =
  rk_title :: nat
  rk_year_miss :: nat
  rk_provider :: nat
  rk_rating :: int

definition rank_key ::
    "title_tables \<Rightarrow> (rat \<Rightarrow> rat) \<Rightarrow> string \<Rightarrow> int option \<Rightarrow> bool \<Rightarrow> ProviderCandidate \<Rightarrow> RankKey" where
  "rank_key tables fl q year anime_first c =
     (let title = map_or (pc_title c) [] (fold_title tables) in
      \<lparr>rk_title = (if title = q then 0 else if starts_with title q then 1 else if contains_str title q then 2 else 3),
       rk_year_miss = (case (year, Option.bind (pc_release_date c) get_year_text) of
         (Some want, Some got) \<Rightarrow> (if parse_i64 got \<noteq> Some want then 1 else 0) | _ \<Rightarrow> 0),
       rk_provider = (if pc_anilist c \<noteq> anime_first then 1 else 0),
       rk_rating = rat_to_i64 (- fl (unwrap_or (pc_vote_average c) 0 * 10))\<rparr>)"

definition rank_cmp :: "(ProviderCandidate \<Rightarrow> RankKey) \<Rightarrow> ProviderCandidate \<Rightarrow> ProviderCandidate \<Rightarrow> ordering" where
  "rank_cmp key a b =
     then_cmp (cmp_of (rk_title (key a)) (rk_title (key b)))
       (then_cmp (cmp_of (rk_year_miss (key a)) (rk_year_miss (key b)))
         (then_cmp (cmp_of (rk_provider (key a)) (rk_provider (key b)))
           (cmp_of (rk_rating (key a)) (rk_rating (key b)))))"

definition rank_candidates ::
    "title_tables \<Rightarrow> (rat \<Rightarrow> rat) \<Rightarrow> ProviderCandidate list \<Rightarrow> string \<Rightarrow> int option \<Rightarrow> bool \<Rightarrow> ProviderCandidate list" where
  "rank_candidates tables fl cs query year anime_first =
     sort_by (rank_cmp (rank_key tables fl (fold_title tables query) year anime_first)) cs"

section \<open>The pick\<close>

lemma find_in: "List.find p cs = Some c \<Longrightarrow> c \<in> set cs \<and> p c"
  by (induction cs) (auto split: if_splits)

lemma find_misses: "List.find p cs = None \<longleftrightarrow> (\<forall>c \<in> set cs. \<not> p c)"
  by (induction cs) auto

lemma first_tier_from:
  "first_tier ts cs = Some (c, v) \<Longrightarrow> c \<in> set cs \<and> (\<exists>p. (p, v) \<in> set ts \<and> p c)"
  by (induction ts cs rule: first_tier.induct) (auto split: option.splits dest: find_in)

lemma first_tier_takes:
  "\<exists>d \<in> set cs. p d \<Longrightarrow> \<exists>c \<in> set cs. p c \<and> first_tier ((p, v) # ts) cs = Some (c, v)"
  by (auto simp: find_misses split: option.splits dest: find_in)

interpretation ranked: cmp_order "rank_cmp key" for key
  unfolding rank_cmp_def by (intro cmp_order_then cmp_order_key)

lemma rank_title_first:
  "rank_cmp key a b \<noteq> Greater \<Longrightarrow> rk_title (key a) \<le> rk_title (key b)"
  by (auto simp: rank_cmp_def then_cmp_eq_Greater)

section \<open>Properties\<close>

text \<open>C36. The automatic pick is conservative. It is one of the candidates and does not contradict a known year; it is
  certain only with an equal title, or with the title before a subtitle mark and the year confirmed; a candidate whose
  title and year both agree is never passed over for one where they do not; and of several candidates none is
  taken whose title has nothing of the wanted one.\<close>

theorem pick_conservative:
  assumes pick: "pick_candidate tables cs title year = Some (c, v)" and wanted: "wanted = fold_title tables title"
  shows "c \<in> set cs \<and> year_ok year c
    \<and> (v = Auto \<longrightarrow> title_eq tables wanted c \<or> subtitled tables wanted c \<and> year_agrees year c)
    \<and> ((\<exists>d \<in> set cs. title_eq tables wanted d \<and> year_agrees year d)
        \<longrightarrow> v = Auto \<and> title_eq tables wanted c \<and> year_agrees year c)
    \<and> (1 < length cs \<longrightarrow> title_eq tables wanted c \<or> subtitled tables wanted c \<or> franchise tables wanted c)"
proof -
  let ?first = "first_tier (tiers tables wanted year) cs"
  have agrees: "year_agrees year x \<Longrightarrow> year_ok year x" for x
    by (simp add: year_agrees_def year_ok_def split: option.splits)
  have best: "?first = Some (c, v) \<and> v = Auto \<and> title_eq tables wanted c \<and> year_agrees year c"
    if "\<exists>d \<in> set cs. title_eq tables wanted d \<and> year_agrees year d"
  proof -
    note both = that
    obtain ts where ts: "tiers tables wanted year = (\<lambda>c. title_eq tables wanted c \<and> year_agrees year c, Auto) # ts"
      by (simp add: tiers_def)
    obtain d where d: "title_eq tables wanted d \<and> year_agrees year d" "?first = Some (d, Auto)"
      using first_tier_takes [OF both] unfolding ts by blast
    with pick wanted show ?thesis by (simp add: pick_candidate_def)
  qed
  show ?thesis
  proof (cases ?first)
    case None
    then have "cs = [c]" "year_ok year c" "v = Weak"
      using pick wanted by (auto simp: pick_candidate_def split: list.splits if_splits)
    with None best show ?thesis by auto
  next
    case (Some r)
    then have "?first = Some (c, v)" using pick wanted by (simp add: pick_candidate_def)
    from first_tier_from [OF this] have "c \<in> set cs" "year_ok year c"
      "v = Auto \<longrightarrow> title_eq tables wanted c \<or> subtitled tables wanted c \<and> year_agrees year c"
      "title_eq tables wanted c \<or> subtitled tables wanted c \<or> franchise tables wanted c"
      by (auto simp: tiers_def dest: agrees)
    with best show ?thesis by blast
  qed
qed

text \<open>Witness: two series of one name, of which the year of the folder tells the newer.\<close>

definition sample_tables :: title_tables where
  "sample_tables = \<lparr>tt_unicode = ascii_tables, tt_base_letters = (\<lambda>s. s)\<rparr>"

definition sample_candidates :: "TitleCandidate list" where
  "sample_candidates =
     [for_test 2 ''Continental'' (Some ''1952-01-01''), for_test 3 ''Continental: Wick'' (Some ''2023-09-22'')]"

lemma sample_folds:
  "fold_title sample_tables ''Continental'' = ''continental''"
  "fold_title sample_tables ''Continental: Wick'' = ''continental wick''"
  by code_simp+

lemma sample_years:
  "candidate_year (for_test i t (Some ''1952-01-01'')) = Some 1952"
  "candidate_year (for_test i t (Some ''2023-09-22'')) = Some 2023"
  by (simp_all add: for_test_def candidate_year_def get_year_text_def parse_i64_def parse_nat_def is_continuation_def
      digit_val_def is_ascii_digit_def less_eq_char_def all_digits_def)

lemma sample_fields [simp]:
  "cd_id (for_test i t d) = i" "cd_title (for_test i t d) = t" "cd_original_title (for_test i t d) = None"
  by (simp_all add: for_test_def)

lemma sample_pick:
  "map_option (\<lambda>(c, v). (cd_id c, v)) (pick_candidate sample_tables sample_candidates ''Continental'' (Some 2023))
     = Some (3, Auto)"
  by (simp add: sample_candidates_def pick_candidate_def tiers_def title_eq_def subtitled_def head_before.simps
      SUBTITLE_MARKS_def starts_with_def year_agrees_def year_near_def sample_years sample_folds spaceless_def)

theorem pick_conservative_witness:
  "\<exists>c. pick_candidate sample_tables sample_candidates ''Continental'' (Some 2023) = Some (c, Auto)
     \<and> c \<in> set sample_candidates \<and> year_ok (Some 2023) c"
proof -
  from sample_pick obtain c where "pick_candidate sample_tables sample_candidates ''Continental'' (Some 2023) = Some (c, Auto)"
    by auto
  with pick_conservative [OF this HOL.refl] show ?thesis by blast
qed

text \<open>What the words do not say: a lone answer is taken whatever its title, and the end of a long title counts
  as the wanted one in the middle of a word.\<close>

lemma lone_answer_taken:
  assumes "first_tier (tiers tables (fold_title tables title) year) [c] = None" and "year_ok year c"
  shows "pick_candidate tables [c] title year = Some (c, Weak)"
  using assms by (simp add: pick_candidate_def)

lemma franchise_inside_word: "franchise sample_tables ''it'' (for_test i ''The Big Hit'' d)"
proof -
  have "fold_title sample_tables ''The Big Hit'' = ''the big hit''" by code_simp
  then show ?thesis by (simp add: franchise_def ends_with_def starts_with_def)
qed

text \<open>The list an administrator chooses from holds the same candidates, in ascending order of relevance: an exact title
  first, then a prefix, a part, and the rest; and equal ones in the order the providers gave them.\<close>

theorem ranked_by_relevance:
  "mset (rank_candidates tables fl cs query year anime_first) = mset cs
   \<and> sorted_wrt (\<lambda>a b. rank_cmp (rank_key tables fl (fold_title tables query) year anime_first) a b \<noteq> Greater)
       (rank_candidates tables fl cs query year anime_first)
   \<and> sorted_wrt (\<le>) (map (rk_title \<circ> rank_key tables fl (fold_title tables query) year anime_first)
       (rank_candidates tables fl cs query year anime_first))"
proof -
  let ?key = "rank_key tables fl (fold_title tables query) year anime_first"
  have s: "sorted_wrt (\<lambda>a b. rank_cmp ?key a b \<noteq> Greater) (sort_by (rank_cmp ?key) cs)"
    by (rule ranked.sorted_sort_by)
  moreover from s have "sorted_wrt (\<lambda>a b. rk_title (?key a) \<le> rk_title (?key b)) (sort_by (rank_cmp ?key) cs)"
    by (rule sorted_wrt_mono_rel [rotated]) (rule rank_title_first)
  ultimately show ?thesis
    by (simp add: rank_candidates_def ranked.mset_sort_by sorted_wrt_map)
qed

end
